(* ===== verification/Prelude.thy ===== *)
theory Prelude
  imports Complex_Main "HOL-Library.AList" "HOL-Library.Sublist"
begin

text \<open>
  Shared ground of the development: Python dictionaries as association lists in insertion
  order, Python string suffix operations, a FIFO queue with a count of unfinished tasks
  (\<open>queue.Queue\<close>) and the collections of simplification rules the component theories use.
  Strings are lists of characters; integers are unbounded, as Python's are.
\<close>

named_theorems dict_simps \<open>lookups after updates of Python dictionaries\<close>
named_theorems proc_simps \<open>unfolding of the exception-and-state combinators\<close>
named_theorems hook_simps \<open>unfolding of middleware hooks\<close>

section \<open>Dictionaries\<close>

text \<open>
  A dictionary with string keys, in insertion order. \<open>d[k] = v\<close> is \<^const>\<open>AList.update\<close>: it
  replaces in place or appends at the end, as Python does; \<open>del d[k]\<close> is \<^const>\<open>AList.delete\<close>;
  \<open>d.get(k)\<close> is \<^const>\<open>map_of\<close>.
\<close>

type_synonym 'v dict = "(string \<times> 'v) list"

definition dict_wf :: "'v dict \<Rightarrow> bool" where
  "dict_wf d = distinct (map fst d)"

text \<open>\<open>{**a, **b}\<close>: the entries of \<open>b\<close> are stored over those of \<open>a\<close>, in order.\<close>

definition dict_merge :: "'v dict \<Rightarrow> 'v dict \<Rightarrow> 'v dict" where
  "dict_merge a b = fold (\<lambda>(k, v). AList.update k v) b a"

text \<open>\<open>d.setdefault(k, v)\<close> as a pair of the value found or stored and the dictionary after.\<close>

definition dict_setdefault :: "string \<Rightarrow> 'v \<Rightarrow> 'v dict \<Rightarrow> 'v \<times> 'v dict" where
  "dict_setdefault k v d = (case map_of d k of Some w \<Rightarrow> (w, d) | None \<Rightarrow> (v, AList.update k v d))"

lemma map_of_dict_update [simp, dict_simps]:
  "map_of (AList.update k v d) k' = (if k' = k then Some v else map_of d k')"
  by (simp add: update_conv')

lemma map_of_dict_delete [simp, dict_simps]:
  "map_of (AList.delete k d) k' = (if k' = k then None else map_of d k')"
  by (simp add: delete_conv')

lemma dict_wf_Nil [simp]: "dict_wf []"
  by (simp add: dict_wf_def)

lemma dict_wf_update [simp, intro]: "dict_wf d \<Longrightarrow> dict_wf (AList.update k v d)"
  by (simp add: dict_wf_def distinct_update)

lemma dict_wf_delete [simp, intro]: "dict_wf d \<Longrightarrow> dict_wf (AList.delete k d)"
  by (simp add: dict_wf_def distinct_delete)

lemma dict_merge_Nil [simp]: "dict_merge a [] = a"
  by (simp add: dict_merge_def)

lemma dict_merge_Cons [simp]: "dict_merge a ((k, v) # b) = dict_merge (AList.update k v a) b"
  by (simp add: dict_merge_def)

lemma dict_wf_merge [simp, intro]: "dict_wf a \<Longrightarrow> dict_wf (dict_merge a b)"
proof (induction b arbitrary: a)
  case (Cons e b)
  then show ?case by (cases e) simp
qed simp

lemma map_of_dict_merge:
  assumes "dict_wf b"
  shows "map_of (dict_merge a b) = map_of a ++ map_of b"
  using assms
proof (induction b arbitrary: a)
  case Nil
  then show ?case by simp
next
  case (Cons e b)
  obtain k v where e: "e = (k, v)" by force
  from Cons.prems e have wf: "dict_wf b" and fresh: "map_of b k = None"
    by (auto simp: dict_wf_def map_of_eq_None_iff)
  have "map_of (dict_merge a (e # b)) = map_of (AList.update k v a) ++ map_of b"
    using Cons.IH [OF wf, of "AList.update k v a"] by (simp add: e del: map_of_dict_update)
  also have "\<dots> = map_of a ++ map_of (e # b)"
    using fresh by (auto simp: e fun_eq_iff map_add_def split: option.split)
  finally show ?case .
qed

lemma map_of_dict_merge_keep [dict_simps]:
  "k \<notin> fst ` set b \<Longrightarrow> map_of (dict_merge a b) k = map_of a k"
proof (induction b arbitrary: a)
  case (Cons e b)
  then show ?case by (cases e) simp
qed simp

lemma dict_keys_update:
  "fst ` set (AList.update k v d) = insert k (fst ` set d)"
  by (simp add: dom_update)

text \<open>What clients of a dictionary rely on, as an interface.\<close>

locale dictionary =
  fixes get :: "'d \<Rightarrow> 'k \<Rightarrow> 'v option"
    and put :: "'k \<Rightarrow> 'v \<Rightarrow> 'd \<Rightarrow> 'd"
    and del :: "'k \<Rightarrow> 'd \<Rightarrow> 'd"
    and wf :: "'d \<Rightarrow> bool"
  assumes get_put: "get (put k v d) = (get d)(k \<mapsto> v)"
    and get_del: "get (del k d) = (get d)(k := None)"
    and wf_put: "wf d \<Longrightarrow> wf (put k v d)"
    and wf_del: "wf d \<Longrightarrow> wf (del k d)"
begin

lemma put_same: "get (put k v d) k = Some v"
  by (simp add: get_put)

lemma put_put: "get (put k v (put k w d)) = get (put k v d)"
  by (simp add: get_put)

lemma put_commute: "k \<noteq> l \<Longrightarrow> get (put k v (put l w d)) = get (put l w (put k v d))"
  by (simp add: get_put fun_upd_twist)

lemma del_put: "get (del k (put k v d)) = get (del k d)"
  by (simp add: get_put get_del)

lemma fold_put:
  "get (fold (\<lambda>(k, v). put k v) kvs d) k = (case map_of (rev kvs) k of None \<Rightarrow> get d k | Some v \<Rightarrow> Some v)"
  by (induction kvs rule: rev_induct) (auto simp: get_put)

end

interpretation pydict: dictionary map_of AList.update AList.delete dict_wf
  by unfold_locales (auto simp: fun_eq_iff)

section \<open>Lists and strings\<close>

text \<open>Python's \<open>s.endswith(t)\<close> and the slice \<open>s[:-n]\<close> for \<open>n > 0\<close>.\<close>

definition endswith :: "string \<Rightarrow> string \<Rightarrow> bool" where
  "endswith s t = suffix t s"

definition drop_last :: "nat \<Rightarrow> 'a list \<Rightarrow> 'a list" where
  "drop_last n s = take (length s - n) s"

lemma endswith_append [simp]: "endswith (s @ t) t"
  by (auto simp: endswith_def suffix_def)

lemma drop_last_append [simp]: "n = length t \<Longrightarrow> drop_last n (s @ t) = s"
  by (simp add: drop_last_def)

lemma endswith_decompose:
  "endswith s t \<Longrightarrow> s = drop_last (length t) s @ t"
  by (auto simp: endswith_def suffix_def)

lemma endswith_same_length:
  "length t = length u \<Longrightarrow> endswith (s @ t) u \<longleftrightarrow> t = u"
  by (auto simp: endswith_def suffix_def)

lemma endswith_unique:
  "endswith s t \<Longrightarrow> endswith s u \<Longrightarrow> length t = length u \<Longrightarrow> t = u"
  by (metis endswith_decompose endswith_same_length)

text \<open>\<open>s.split(c)\<close> for a separator of one character.\<close>

fun split_on :: "char \<Rightarrow> string \<Rightarrow> string list" where
  "split_on c [] = [[]]"
| "split_on c (x # s) =
     (if x = c then [] # split_on c s
      else (case split_on c s of [] \<Rightarrow> [[x]] | w # ws \<Rightarrow> (x # w) # ws))"

lemma split_on_single [simp]: "c \<notin> set w \<Longrightarrow> split_on c w = [w]"
  by (induction w) auto

lemma split_on_Cons [simp]: "c \<notin> set w \<Longrightarrow> split_on c (w @ c # s) = w # split_on c s"
  by (induction w) auto

section \<open>Decimal numbers\<close>

text \<open>\<open>str(i)\<close>, also \<open>"%d" % i\<close>, and reading digits back.\<close>

definition digit_char :: "nat \<Rightarrow> char" where
  "digit_char d = char_of (48 + d)"

definition char_digit :: "char \<Rightarrow> nat" where
  "char_digit c = of_char c - 48"

definition is_digit :: "char \<Rightarrow> bool" where
  "is_digit c = (48 \<le> (of_char c :: nat) \<and> (of_char c :: nat) \<le> 57)"

fun nat_str :: "nat \<Rightarrow> string" where
  "nat_str n = (if n < 10 then [digit_char n] else nat_str (n div 10) @ [digit_char (n mod 10)])"

declare nat_str.simps [simp del]

definition int_str :: "int \<Rightarrow> string" where
  "int_str i = (if i < 0 then CHR ''-'' # nat_str (nat (- i)) else nat_str (nat i))"

definition read_nat :: "string \<Rightarrow> nat" where
  "read_nat s = foldl (\<lambda>a c. 10 * a + char_digit c) 0 s"

lemma digit_char_simps [simp]:
  assumes "d < 10"
  shows "is_digit (digit_char d)" and "char_digit (digit_char d) = d"
  using assms by (simp_all add: is_digit_def digit_char_def char_digit_def)

lemma nat_str_digits: "\<forall>c \<in> set (nat_str n). is_digit c"
proof (induction n rule: nat_str.induct)
  case (1 n)
  show ?case
    by (subst nat_str.simps) (use "1.IH" in auto)
qed

lemma nat_str_nonempty [simp]: "nat_str n \<noteq> []"
  by (subst nat_str.simps) simp

lemma read_nat_str [simp]: "read_nat (nat_str n) = n"
proof (induction n rule: nat_str.induct)
  case (1 n)
  show ?case
    by (subst nat_str.simps) (use "1.IH" in \<open>auto simp: read_nat_def\<close>)
qed

lemma nat_str_inj: "nat_str m = nat_str n \<Longrightarrow> m = n"
  by (metis read_nat_str)

lemma minus_not_digit [simp]: "\<not> is_digit CHR ''-''"
  by (simp add: is_digit_def)

lemma nat_str_no_minus: "nat_str n \<noteq> CHR ''-'' # s"
  using nat_str_digits [of n] by (metis list.set_intros(1) minus_not_digit)

lemma int_str_inj: "int_str i = int_str j \<Longrightarrow> i = j"
  using nat_str_no_minus nat_str_no_minus [THEN not_sym]
  by (auto simp: int_str_def dest!: nat_str_inj split: if_splits)

section \<open>Queues with unfinished tasks\<close>

text \<open>
  \<open>queue.Queue\<close> of the standard library: the waiting items and the number of items put but not
  yet marked done. \<open>task_done\<close> raises \<open>ValueError\<close> when called too often (here \<^const>\<open>None\<close>);
  \<open>join\<close> returns when no task is unfinished.
\<close>

record 'a pyqueue =
  q_items :: "'a list"
  q_unfinished :: nat

definition pyqueue_empty :: "'a pyqueue" where
  "pyqueue_empty = \<lparr>q_items = [], q_unfinished = 0\<rparr>"

definition q_put :: "'a \<Rightarrow> 'a pyqueue \<Rightarrow> 'a pyqueue" where
  "q_put x q = q\<lparr>q_items := q_items q @ [x], q_unfinished := Suc (q_unfinished q)\<rparr>"

definition q_get :: "'a pyqueue \<Rightarrow> ('a \<times> 'a pyqueue) option" where
  "q_get q = (case q_items q of [] \<Rightarrow> None | x # xs \<Rightarrow> Some (x, q\<lparr>q_items := xs\<rparr>))"

definition q_task_done :: "'a pyqueue \<Rightarrow> 'a pyqueue option" where
  "q_task_done q = (case q_unfinished q of 0 \<Rightarrow> None | Suc n \<Rightarrow> Some (q\<lparr>q_unfinished := n\<rparr>))"

definition q_joined :: "'a pyqueue \<Rightarrow> bool" where
  "q_joined q = (q_unfinished q = 0)"

end
