(* ===== verification/Exceptions.thy ===== *)
theory Exceptions
  imports Prelude
begin

text \<open>
  The exception classes of \<^verbatim>\<open>dramatiq/errors.py\<close>, \<^verbatim>\<open>dramatiq/middleware/middleware.py\<close>,
  \<^verbatim>\<open>dramatiq/results/errors.py\<close> and \<^verbatim>\<open>dramatiq/threading.py\<close> with their base classes, the
  \<open>isinstance\<close> test as a partial order on classes, and the combinators in which every effectful
  operation of the development is written: a computation takes a state and gives back a state
  together with an exception or a result.
\<close>

section \<open>Classes\<close>

datatype exn_class =
    BaseException | SystemExit | Exception
  | AssertionError | AttributeError | ImportError | KeyError | IndexError | NameError | NotImplementedError
  | OSError | FileNotFoundError | PermissionError | TimeoutError | RuntimeError | TypeError | ValueError
  | Interrupt | TimeLimitExceeded | Shutdown
  | MiddlewareError | SkipMessage
  | DramatiqError | DecodeError | BrokerError | ActorNotFound | QueueNotFound | QueueJoinTimeout
  | BrokerConnectionError | ConnectionFailed | ConnectionClosed | RateLimitExceeded | Retry
  | ResultError | ResultTimeout | ResultMissing | ResultFailure
  | UserException string

primrec base_class :: "exn_class \<Rightarrow> exn_class option" where
  "base_class BaseException = None"
| "base_class SystemExit = Some BaseException"
| "base_class Exception = Some BaseException"
| "base_class AssertionError = Some Exception"
| "base_class AttributeError = Some Exception"
| "base_class ImportError = Some Exception"
| "base_class KeyError = Some Exception"
| "base_class IndexError = Some Exception"
| "base_class NameError = Some Exception"
| "base_class NotImplementedError = Some RuntimeError"
| "base_class OSError = Some Exception"
| "base_class FileNotFoundError = Some OSError"
| "base_class PermissionError = Some OSError"
| "base_class TimeoutError = Some OSError"
| "base_class RuntimeError = Some Exception"
| "base_class TypeError = Some Exception"
| "base_class ValueError = Some Exception"
| "base_class Interrupt = Some BaseException"
| "base_class TimeLimitExceeded = Some Interrupt"
| "base_class Shutdown = Some Interrupt"
| "base_class MiddlewareError = Some Exception"
| "base_class SkipMessage = Some MiddlewareError"
| "base_class DramatiqError = Some Exception"
| "base_class DecodeError = Some DramatiqError"
| "base_class BrokerError = Some DramatiqError"
| "base_class ActorNotFound = Some BrokerError"
| "base_class QueueNotFound = Some BrokerError"
| "base_class QueueJoinTimeout = Some DramatiqError"
| "base_class BrokerConnectionError = Some BrokerError"
| "base_class ConnectionFailed = Some BrokerConnectionError"
| "base_class ConnectionClosed = Some BrokerConnectionError"
| "base_class RateLimitExceeded = Some DramatiqError"
| "base_class Retry = Some DramatiqError"
| "base_class ResultError = Some DramatiqError"
| "base_class ResultTimeout = Some ResultError"
| "base_class ResultMissing = Some ResultError"
| "base_class ResultFailure = Some ResultError"
| "base_class (UserException n) = Some Exception"

text \<open>The distance to \<^const>\<open>BaseException\<close>: each step to the base class decreases it.\<close>

primrec class_rank :: "exn_class \<Rightarrow> nat" where
  "class_rank BaseException = 0"
| "class_rank SystemExit = 1"
| "class_rank Exception = 1"
| "class_rank AssertionError = 2"
| "class_rank AttributeError = 2"
| "class_rank ImportError = 2"
| "class_rank KeyError = 2"
| "class_rank IndexError = 2"
| "class_rank NameError = 2"
| "class_rank NotImplementedError = 3"
| "class_rank OSError = 2"
| "class_rank FileNotFoundError = 3"
| "class_rank PermissionError = 3"
| "class_rank TimeoutError = 3"
| "class_rank RuntimeError = 2"
| "class_rank TypeError = 2"
| "class_rank ValueError = 2"
| "class_rank Interrupt = 1"
| "class_rank TimeLimitExceeded = 2"
| "class_rank Shutdown = 2"
| "class_rank MiddlewareError = 2"
| "class_rank SkipMessage = 3"
| "class_rank DramatiqError = 2"
| "class_rank DecodeError = 3"
| "class_rank BrokerError = 3"
| "class_rank ActorNotFound = 4"
| "class_rank QueueNotFound = 4"
| "class_rank QueueJoinTimeout = 3"
| "class_rank BrokerConnectionError = 4"
| "class_rank ConnectionFailed = 5"
| "class_rank ConnectionClosed = 5"
| "class_rank RateLimitExceeded = 3"
| "class_rank Retry = 3"
| "class_rank ResultError = 3"
| "class_rank ResultTimeout = 4"
| "class_rank ResultMissing = 4"
| "class_rank ResultFailure = 4"
| "class_rank (UserException n) = 2"

lemma base_class_rank: "base_class c = Some b \<Longrightarrow> class_rank b < class_rank c"
  by (cases c) auto

text \<open>\<open>type(e).__mro__\<close> up to \<open>BaseException\<close>.\<close>

function mro :: "exn_class \<Rightarrow> exn_class list" where
  "mro c = c # (case base_class c of None \<Rightarrow> [] | Some b \<Rightarrow> mro b)"
  by pat_completeness auto
termination
  by (relation "measure class_rank") (auto dest: base_class_rank)

declare mro.simps [simp del]

definition issubclass :: "exn_class \<Rightarrow> exn_class \<Rightarrow> bool" where
  "issubclass c d = (d \<in> set (mro c))"

lemma mro_self: "c \<in> set (mro c)"
  by (subst mro.simps) simp

lemma mro_rank: "d \<in> set (mro c) \<Longrightarrow> d = c \<or> class_rank d < class_rank c"
proof (induction c rule: mro.induct)
  case (1 c)
  show ?case
  proof (cases "base_class c")
    case None
    with "1.prems" show ?thesis by (subst (asm) mro.simps) simp
  next
    case (Some b)
    with "1.prems" have "d = c \<or> d \<in> set (mro b)"
      by (subst (asm) mro.simps) simp
    with "1.IH" [OF Some] base_class_rank [OF Some] show ?thesis by auto
  qed
qed

lemma mro_trans: "d \<in> set (mro c) \<Longrightarrow> set (mro d) \<subseteq> set (mro c)"
proof (induction c rule: mro.induct)
  case (1 c)
  show ?case
  proof (cases "base_class c")
    case None
    with "1.prems" have "d = c" by (subst (asm) mro.simps) simp
    then show ?thesis by simp
  next
    case (Some b)
    with "1.prems" have "d = c \<or> d \<in> set (mro b)"
      by (subst (asm) mro.simps) simp
    moreover have "set (mro c) = insert c (set (mro b))"
      by (subst mro.simps) (simp add: Some)
    ultimately show ?thesis
      using "1.IH" [OF Some] by auto
  qed
qed

text \<open>Classes ordered by the subclass relation: a smaller class is more special.\<close>

instantiation exn_class :: order
begin

definition less_eq_exn_class :: "exn_class \<Rightarrow> exn_class \<Rightarrow> bool" where
  "less_eq_exn_class c d = issubclass c d"

definition less_exn_class :: "exn_class \<Rightarrow> exn_class \<Rightarrow> bool" where
  "less_exn_class c d = (issubclass c d \<and> c \<noteq> d)"

instance
proof
  fix c d e :: exn_class
  show "c < d \<longleftrightarrow> c \<le> d \<and> \<not> d \<le> c"
    using mro_rank [of d c] mro_rank [of c d] mro_self [of c]
    by (auto simp: less_eq_exn_class_def less_exn_class_def issubclass_def)
  show "c \<le> c"
    by (simp add: less_eq_exn_class_def issubclass_def mro_self)
  show "c \<le> d \<Longrightarrow> d \<le> e \<Longrightarrow> c \<le> e"
    using mro_trans [of d c] by (auto simp: less_eq_exn_class_def issubclass_def)
  show "c \<le> d \<Longrightarrow> d \<le> c \<Longrightarrow> c = d"
    using mro_rank [of d c] mro_rank [of c d]
    by (auto simp: less_eq_exn_class_def issubclass_def)
qed

end

lemma issubclass_code:
  "issubclass c d \<longleftrightarrow> c = d \<or> (case base_class c of None \<Rightarrow> False | Some b \<Rightarrow> issubclass b d)"
  unfolding issubclass_def by (subst mro.simps) (auto split: option.split)


text \<open>\<open>type(e).__name__\<close>.\<close>

primrec class_name :: "exn_class \<Rightarrow> string" where
  "class_name BaseException = ''BaseException''"
| "class_name SystemExit = ''SystemExit''"
| "class_name Exception = ''Exception''"
| "class_name AssertionError = ''AssertionError''"
| "class_name AttributeError = ''AttributeError''"
| "class_name ImportError = ''ImportError''"
| "class_name KeyError = ''KeyError''"
| "class_name IndexError = ''IndexError''"
| "class_name NameError = ''NameError''"
| "class_name NotImplementedError = ''NotImplementedError''"
| "class_name OSError = ''OSError''"
| "class_name FileNotFoundError = ''FileNotFoundError''"
| "class_name PermissionError = ''PermissionError''"
| "class_name TimeoutError = ''TimeoutError''"
| "class_name RuntimeError = ''RuntimeError''"
| "class_name TypeError = ''TypeError''"
| "class_name ValueError = ''ValueError''"
| "class_name Interrupt = ''Interrupt''"
| "class_name TimeLimitExceeded = ''TimeLimitExceeded''"
| "class_name Shutdown = ''Shutdown''"
| "class_name MiddlewareError = ''MiddlewareError''"
| "class_name SkipMessage = ''SkipMessage''"
| "class_name DramatiqError = ''DramatiqError''"
| "class_name DecodeError = ''DecodeError''"
| "class_name BrokerError = ''BrokerError''"
| "class_name ActorNotFound = ''ActorNotFound''"
| "class_name QueueNotFound = ''QueueNotFound''"
| "class_name QueueJoinTimeout = ''QueueJoinTimeout''"
| "class_name BrokerConnectionError = ''BrokerConnectionError''"
| "class_name ConnectionFailed = ''ConnectionFailed''"
| "class_name ConnectionClosed = ''ConnectionClosed''"
| "class_name RateLimitExceeded = ''RateLimitExceeded''"
| "class_name Retry = ''Retry''"
| "class_name ResultError = ''ResultError''"
| "class_name ResultTimeout = ''ResultTimeout''"
| "class_name ResultMissing = ''ResultMissing''"
| "class_name ResultFailure = ''ResultFailure''"
| "class_name (UserException n) = n"

section \<open>Exception values\<close>

text \<open>
  An exception instance: its class, the string it was made with, and the extra fields of
  \<open>Retry\<close> (\<open>delay\<close>, in milliseconds) and \<open>ResultFailure\<close> (the original type and message).
\<close>

record exn =
  exn_cls :: exn_class
  exn_message :: string
  exn_delay :: "int option"
  exn_orig :: "(string \<times> string) option"

definition mk_exn :: "exn_class \<Rightarrow> string \<Rightarrow> exn" where
  "mk_exn c m = \<lparr>exn_cls = c, exn_message = m, exn_delay = None, exn_orig = None\<rparr>"

definition isinstance :: "exn \<Rightarrow> exn_class \<Rightarrow> bool" where
  "isinstance e c = issubclass (exn_cls e) c"

text \<open>
  \<open>repr\<close> of a string with characters below 256: within single quotes, or double quotes if there are single
  quotes in it and no double ones; the quote in use, backslashes and characters that are not printable are escaped.
\<close>

definition hex_char :: "nat \<Rightarrow> char" where
  "hex_char n = (if n < 10 then char_of (48 + n) else char_of (87 + n))"

definition repr_char :: "char \<Rightarrow> char \<Rightarrow> string" where
  "repr_char quote c =
     (let n = of_char c :: nat in
      if c = quote \<or> n = 92 then [CHR 0x5C, c]
      else if n = 10 then [CHR 0x5C, CHR ''n'']
      else if n = 13 then [CHR 0x5C, CHR ''r'']
      else if n = 9 then [CHR 0x5C, CHR ''t'']
      else if n < 32 \<or> 127 \<le> n \<and> n \<le> 160 \<or> n = 173 then [CHR 0x5C, CHR ''x'', hex_char (n div 16), hex_char (n mod 16)]
      else [c])"

definition repr_str :: "string \<Rightarrow> string" where
  "repr_str s =
     (let quote = (if CHR 0x27 \<in> set s \<and> CHR 0x22 \<notin> set s then CHR 0x22 else CHR 0x27)
      in [quote] @ concat (map (repr_char quote) s) @ [quote])"

text \<open>
  \<open>str(e)\<close>: a plain exception prints its message, but a \<open>KeyError\<close> the \<open>repr\<close> of the key; a \<open>DramatiqError\<close> prints
  \<open>str(self.message) or repr(self.message)\<close>, so that an empty message prints as two quotes.
\<close>

definition exn_str :: "exn \<Rightarrow> string" where
  "exn_str e =
     (if isinstance e KeyError \<or> isinstance e DramatiqError \<and> exn_message e = [] then repr_str (exn_message e)
      else exn_message e)"

lemma exn_str_examples:
  "exn_str (mk_exn KeyError ''eta'') = [CHR 0x27] @ ''eta'' @ [CHR 0x27]"
  "exn_str (mk_exn Retry []) = [CHR 0x27, CHR 0x27]" "exn_str (mk_exn ValueError ''bad'') = ''bad''"
  by code_simp+

lemma isinstance_mk_exn [simp]: "isinstance (mk_exn c m) d = issubclass c d"
  by (simp add: isinstance_def mk_exn_def)

lemma exn_cls_mk_exn [simp]: "exn_cls (mk_exn c m) = c"
  by (simp add: mk_exn_def)

lemma isinstance_mono: "isinstance e c \<Longrightarrow> c \<le> d \<Longrightarrow> isinstance e d"
  using order_trans [of "exn_cls e" c d] by (simp add: isinstance_def less_eq_exn_class_def)

text \<open>The two halves of the hierarchy that the middleware machinery tells apart.\<close>

lemma Interrupt_not_Exception: "isinstance e Interrupt \<Longrightarrow> \<not> isinstance e Exception"
  by (cases "exn_cls e") (simp_all add: isinstance_def issubclass_code)

lemma MiddlewareError_Exception: "isinstance e MiddlewareError \<Longrightarrow> isinstance e Exception"
  by (erule isinstance_mono) (simp add: less_eq_exn_class_def issubclass_code)

lemma SkipMessage_MiddlewareError: "isinstance e SkipMessage \<Longrightarrow> isinstance e MiddlewareError"
  by (erule isinstance_mono) (simp add: less_eq_exn_class_def issubclass_code)

lemma BrokerConnectionError_Exception:
  "isinstance e BrokerConnectionError \<Longrightarrow> isinstance e Exception"
  by (erule isinstance_mono) (simp add: less_eq_exn_class_def issubclass_code)

section \<open>Computations that raise and change state\<close>

type_synonym ('s, 'a) proc = "'s \<Rightarrow> (exn + 'a) \<times> 's"

definition return :: "'a \<Rightarrow> ('s, 'a) proc" where
  "return x = (\<lambda>s. (Inr x, s))"

definition raise :: "exn \<Rightarrow> ('s, 'a) proc" where
  "raise e = (\<lambda>s. (Inl e, s))"

definition get_state :: "('s \<Rightarrow> 'a) \<Rightarrow> ('s, 'a) proc" where
  "get_state f = (\<lambda>s. (Inr (f s), s))"

definition modify :: "('s \<Rightarrow> 's) \<Rightarrow> ('s, unit) proc" where
  "modify f = (\<lambda>s. (Inr (), f s))"

definition andthen :: "('s, 'a) proc \<Rightarrow> ('a \<Rightarrow> ('s, 'b) proc) \<Rightarrow> ('s, 'b) proc" where
  "andthen m f = (\<lambda>s. case m s of (Inl e, s') \<Rightarrow> (Inl e, s') | (Inr x, s') \<Rightarrow> f x s')"

text \<open>\<open>try: m / except BaseException as e: h(e)\<close>; a handler that does not apply re-raises.\<close>

definition try_except :: "('s, 'a) proc \<Rightarrow> (exn \<Rightarrow> ('s, 'a) proc) \<Rightarrow> ('s, 'a) proc" where
  "try_except m h = (\<lambda>s. case m s of (Inl e, s') \<Rightarrow> h e s' | (Inr x, s') \<Rightarrow> (Inr x, s'))"

text \<open>\<open>try: m / finally: f\<close>: an exception raised by \<open>f\<close> replaces the outcome of \<open>m\<close>.\<close>

definition try_finally :: "('s, 'a) proc \<Rightarrow> ('s, unit) proc \<Rightarrow> ('s, 'a) proc" where
  "try_finally m f = (\<lambda>s. case m s of (r, s') \<Rightarrow>
     (case f s' of (Inl e, s'') \<Rightarrow> (Inl e, s'') | (Inr _, s'') \<Rightarrow> (r, s'')))"

fun for_each :: "('x \<Rightarrow> ('s, unit) proc) \<Rightarrow> 'x list \<Rightarrow> ('s, unit) proc" where
  "for_each f [] = return ()"
| "for_each f (x # xs) = andthen (f x) (\<lambda>_. for_each f xs)"

declare return_def [proc_simps] raise_def [proc_simps] get_state_def [proc_simps]
  modify_def [proc_simps] andthen_def [proc_simps] try_except_def [proc_simps]
  try_finally_def [proc_simps]

lemma andthen_return [simp]: "andthen (return x) f = f x"
  by (simp add: proc_simps)

lemma andthen_raise [simp]: "andthen (raise e) f = raise e"
  by (simp add: proc_simps)

lemma andthen_Inr: "m s = (Inr x, s') \<Longrightarrow> andthen m f s = f x s'"
  by (simp add: andthen_def)

lemma andthen_Inl: "m s = (Inl e, s') \<Longrightarrow> andthen m f s = (Inl e, s')"
  by (simp add: andthen_def)

lemma andthen_get_state: "andthen (get_state g) f s = f (g s) s"
  by (simp add: andthen_def get_state_def)

lemma andthen_modify: "andthen (modify g) f s = f () (g s)"
  by (simp add: andthen_def modify_def)

lemma andthen_assoc: "andthen (andthen m f) g = andthen m (\<lambda>x. andthen (f x) g)"
  by (auto simp: proc_simps fun_eq_iff split: sum.splits prod.splits)

lemma try_except_return [simp]: "try_except (return x) h = return x"
  by (simp add: proc_simps)

lemma try_except_raise [simp]: "try_except (raise e) h = h e"
  by (simp add: proc_simps)

text \<open>A computation keeps an invariant when it does so whether it returns or raises.\<close>

definition keeps :: "('s \<Rightarrow> bool) \<Rightarrow> ('s, 'a) proc \<Rightarrow> bool" where
  "keeps I m = (\<forall>s. I s \<longrightarrow> I (snd (m s)))"

lemma keepsI: "(\<And>s. I s \<Longrightarrow> I (snd (m s))) \<Longrightarrow> keeps I m"
  by (simp add: keeps_def)

lemma keepsD: "keeps I m \<Longrightarrow> I s \<Longrightarrow> I (snd (m s))"
  by (simp add: keeps_def)

lemma keeps_return [simp, intro]: "keeps I (return x)"
  by (simp add: keeps_def return_def)

lemma keeps_raise [simp, intro]: "keeps I (raise e)"
  by (simp add: keeps_def raise_def)

lemma keeps_get_state [simp, intro]: "keeps I (get_state f)"
  by (simp add: keeps_def get_state_def)

lemma keeps_modify: "(\<And>s. I s \<Longrightarrow> I (f s)) \<Longrightarrow> keeps I (modify f)"
  by (simp add: keeps_def modify_def)

lemma keeps_andthen [intro]:
  "keeps I m \<Longrightarrow> (\<And>x. keeps I (f x)) \<Longrightarrow> keeps I (andthen m f)"
  unfolding keeps_def andthen_def by (auto split: sum.split prod.split)

lemma keeps_try_except [intro]:
  "keeps I m \<Longrightarrow> (\<And>e. keeps I (h e)) \<Longrightarrow> keeps I (try_except m h)"
  unfolding keeps_def try_except_def by (auto split: sum.split prod.split)

lemma keeps_try_finally [intro]: "keeps I m \<Longrightarrow> keeps I f \<Longrightarrow> keeps I (try_finally m f)"
  unfolding keeps_def try_finally_def by (auto split: sum.split prod.split)

lemma keeps_for_each [intro]: "(\<And>x. x \<in> set xs \<Longrightarrow> keeps I (f x)) \<Longrightarrow> keeps I (for_each f xs)"
  by (induction xs) auto

text \<open>\<open>sound I P m\<close>: from a state with \<open>I\<close>, \<open>m\<close> keeps \<open>I\<close> and raises only exceptions with \<open>P\<close>.\<close>

definition sound :: "('s \<Rightarrow> bool) \<Rightarrow> (exn \<Rightarrow> bool) \<Rightarrow> ('s, 'a) proc \<Rightarrow> bool" where
  "sound I P m = (\<forall>s. I s \<longrightarrow> I (snd (m s)) \<and> (\<forall>e. fst (m s) = Inl e \<longrightarrow> P e))"

lemma soundI: "(\<And>s. I s \<Longrightarrow> I (snd (m s))) \<Longrightarrow> (\<And>s e. I s \<Longrightarrow> fst (m s) = Inl e \<Longrightarrow> P e) \<Longrightarrow> sound I P m"
  by (simp add: sound_def)

lemma soundD:
  assumes "sound I P m" and "I s" and "m s = (x, s')"
  shows "I s'" "x = Inl e \<Longrightarrow> P e"
  using assms by (auto simp: sound_def dest!: spec [of _ s])

lemma sound_keeps: "sound I P m \<Longrightarrow> keeps I m"
  by (simp add: sound_def keeps_def)

lemma keeps_sound: "keeps I m \<Longrightarrow> sound I (\<lambda>_. True) m"
  by (simp add: sound_def keeps_def)

lemma sound_mono: "sound I P m \<Longrightarrow> (\<And>e. P e \<Longrightarrow> Q e) \<Longrightarrow> sound I Q m"
  by (auto simp: sound_def)

lemma sound_return [simp, intro]: "sound I P (return x)"
  by (simp add: sound_def return_def)

lemma sound_raise [intro]: "P e \<Longrightarrow> sound I P (raise e)"
  by (simp add: sound_def raise_def)

lemma sound_get_state [simp, intro]: "sound I P (get_state f)"
  by (simp add: sound_def get_state_def)

lemma sound_modify: "(\<And>s. I s \<Longrightarrow> I (f s)) \<Longrightarrow> sound I P (modify f)"
  by (simp add: sound_def modify_def)

lemma sound_andthen [intro]:
  "sound I P m \<Longrightarrow> (\<And>x. sound I P (f x)) \<Longrightarrow> sound I P (andthen m f)"
  unfolding sound_def andthen_def by (fastforce split: sum.splits prod.splits)

lemma sound_try_except [intro]:
  "sound I Q m \<Longrightarrow> (\<And>e. Q e \<Longrightarrow> sound I P (h e)) \<Longrightarrow> sound I P (try_except m h)"
  unfolding sound_def try_except_def by (fastforce split: sum.splits prod.splits)

lemma sound_for_each [intro]: "(\<And>x. x \<in> set xs \<Longrightarrow> sound I P (f x)) \<Longrightarrow> sound I P (for_each f xs)"
  by (induction xs) auto

end
