(* ===== verification/PyValues.thy ===== *)
theory PyValues
  imports Exceptions
begin

text \<open>
  The Python values that messages, options and results are made of. Floats are not modelled:
  every number the code keeps in a message or an option is an integer here. A class object
  (as in the \<open>throws\<close> option) is a \<open>PClass\<close>; a callable or another opaque object is a \<open>PObject\<close>,
  whose behaviour is an argument of the definitions that call it.
\<close>

datatype pyval =
    PNone
  | PBool bool
  | PInt int
  | PStr string
  | PList "pyval list"
  | PTuple "pyval list"
  | PDict "(string \<times> pyval) list"
  | PClass exn_class
  | PObject string

type_synonym pydict = "pyval dict"

text \<open>\<open>bool(v)\<close>.\<close>

fun truthy :: "pyval \<Rightarrow> bool" where
  "truthy PNone = False"
| "truthy (PBool b) = b"
| "truthy (PInt i) = (i \<noteq> 0)"
| "truthy (PStr s) = (s \<noteq> [])"
| "truthy (PList xs) = (xs \<noteq> [])"
| "truthy (PTuple xs) = (xs \<noteq> [])"
| "truthy (PDict d) = (d \<noteq> [])"
| "truthy (PClass c) = True"
| "truthy (PObject n) = True"

text \<open>\<open>v or w\<close>, and \<open>d.get(k)\<close> and \<open>d.get(k, default)\<close>.\<close>

definition py_or :: "pyval \<Rightarrow> pyval \<Rightarrow> pyval" where
  "py_or v w = (if truthy v then v else w)"

definition dget :: "pydict \<Rightarrow> string \<Rightarrow> pyval" where
  "dget d k = (case map_of d k of None \<Rightarrow> PNone | Some v \<Rightarrow> v)"

definition dget_default :: "pydict \<Rightarrow> string \<Rightarrow> pyval \<Rightarrow> pyval" where
  "dget_default d k v = (case map_of d k of None \<Rightarrow> v | Some w \<Rightarrow> w)"

lemma dget_update [simp, dict_simps]:
  "dget (AList.update k v d) k' = (if k' = k then v else dget d k')"
  by (simp add: dget_def)

lemma dget_default_update [simp, dict_simps]:
  "dget_default (AList.update k v d) k' w = (if k' = k then v else dget_default d k' w)"
  by (simp add: dget_default_def)

lemma dget_delete [simp, dict_simps]:
  "dget (AList.delete k d) k' = (if k' = k then PNone else dget d k')"
  by (simp add: dget_def)

lemma dget_Nil [simp]: "dget [] k = PNone"
  by (simp add: dget_def)

lemma dget_Cons [simp]: "dget ((k, v) # d) k' = (if k' = k then v else dget d k')"
  by (simp add: dget_def)

lemma dget_default_Nil [simp]: "dget_default [] k w = w"
  by (simp add: dget_default_def)

lemma dget_default_Cons [simp]:
  "dget_default ((k, v) # d) k' w = (if k' = k then v else dget_default d k' w)"
  by (simp add: dget_default_def)

text \<open>
  \<open>isinstance(e, t)\<close> for a \<open>t\<close> that is a value: a class, or a tuple of such searched from the left;
  anything else is a \<open>TypeError\<close>.
\<close>

fun isinstance_of :: "exn \<Rightarrow> pyval \<Rightarrow> exn + bool" where
  "isinstance_of e (PClass c) = Inr (isinstance e c)"
| "isinstance_of e (PTuple []) = Inr False"
| "isinstance_of e (PTuple (v # vs)) =
     (case isinstance_of e v of
        Inl err \<Rightarrow> Inl err
      | Inr True \<Rightarrow> Inr True
      | Inr False \<Rightarrow> isinstance_of e (PTuple vs))"
| "isinstance_of e _ = Inl (mk_exn TypeError
     ''isinstance() arg 2 must be a type, a tuple of types, or a union'')"

text \<open>A value that \<open>isinstance\<close> takes as its second argument.\<close>

fun class_info :: "pyval \<Rightarrow> bool" where
  "class_info (PClass c) = True"
| "class_info (PTuple vs) = (\<forall>v \<in> set vs. class_info v)"
| "class_info _ = False"

lemma isinstance_of_class_info:
  "class_info v \<Longrightarrow> \<exists>b. isinstance_of e v = Inr b"
proof (induction e v rule: isinstance_of.induct)
  case (3 e v vs)
  then obtain b c where "isinstance_of e v = Inr b"
    and "b \<or> isinstance_of e (PTuple vs) = Inr c"
    by (metis class_info.simps(2) list.set_intros)
  then show ?case by (cases b) auto
qed auto

end
