(* ===== verification/Common.thy ===== *)
theory Common
  imports Exceptions
begin

text \<open>
  \<^verbatim>\<open>dramatiq/common.py\<close>: the names of a queue, its delay queue and its dead-letter queue; the
  exponential backoff with jitter; joining several threads under one timeout. Random numbers and
  clock readings are arguments; \<open>uniform(a, b)\<close> is a real of the interval, and the floating-point
  products are taken over the reals.
\<close>

section \<open>Queue names\<close>

abbreviation dq_suffix :: string where "dq_suffix \<equiv> ''.DQ''"
abbreviation xq_suffix :: string where "xq_suffix \<equiv> ''.XQ''"

definition q_name :: "string \<Rightarrow> string" where
  "q_name queue_name =
     (if endswith queue_name dq_suffix \<or> endswith queue_name xq_suffix
      then drop_last 3 queue_name else queue_name)"

definition dq_name :: "string \<Rightarrow> string" where
  "dq_name queue_name =
     (if endswith queue_name dq_suffix then queue_name
      else (let queue_name = (if endswith queue_name xq_suffix then drop_last 3 queue_name
                              else queue_name)
            in queue_name @ dq_suffix))"

definition xq_name :: "string \<Rightarrow> string" where
  "xq_name queue_name =
     (if endswith queue_name xq_suffix then queue_name
      else (let queue_name = (if endswith queue_name dq_suffix then drop_last 3 queue_name
                              else queue_name)
            in queue_name @ xq_suffix))"

text \<open>A canonical name is one that carries neither suffix.\<close>

definition canonical :: "string \<Rightarrow> bool" where
  "canonical n = (\<not> endswith n dq_suffix \<and> \<not> endswith n xq_suffix)"

text \<open>Every name is canonical, or a name with exactly one of the two suffixes put on.\<close>

lemma queue_name_cases [case_names canonical delayed dead]:
  obtains "canonical n" | b where "n = b @ dq_suffix" | b where "n = b @ xq_suffix"
  using endswith_decompose [of n dq_suffix] endswith_decompose [of n xq_suffix]
  by (metis canonical_def)

lemma suffixes_differ [simp]:
  "\<not> endswith (b @ dq_suffix) xq_suffix" "\<not> endswith (b @ xq_suffix) dq_suffix"
  by (simp_all add: endswith_same_length)

lemma names_canonical [simp]:
  assumes "canonical n"
  shows "q_name n = n" "dq_name n = n @ dq_suffix" "xq_name n = n @ xq_suffix"
  using assms by (simp_all add: canonical_def q_name_def dq_name_def xq_name_def)

lemma names_delayed [simp]:
  "q_name (b @ dq_suffix) = b" "dq_name (b @ dq_suffix) = b @ dq_suffix"
  "xq_name (b @ dq_suffix) = b @ xq_suffix"
  by (simp_all add: q_name_def dq_name_def xq_name_def)

lemma names_dead [simp]:
  "q_name (b @ xq_suffix) = b" "dq_name (b @ xq_suffix) = b @ dq_suffix"
  "xq_name (b @ xq_suffix) = b @ xq_suffix"
  by (simp_all add: q_name_def dq_name_def xq_name_def)

lemma dq_name_eq: "dq_name n = q_name n @ dq_suffix"
  by (cases n rule: queue_name_cases) simp_all

lemma xq_name_eq: "xq_name n = q_name n @ xq_suffix"
  by (cases n rule: queue_name_cases) simp_all

text \<open>
  The three name functions agree: from the name of any of a queue's three queues each function
  finds the same canonical, delay and dead-letter name, the three names are distinct, and equal
  delay (or dead-letter) names mean the same canonical queue.
\<close>

theorem queue_names_agree:
  "q_name (dq_name n) = q_name n \<and> q_name (xq_name n) = q_name n
   \<and> dq_name (dq_name n) = dq_name n \<and> dq_name (xq_name n) = dq_name n
   \<and> xq_name (xq_name n) = xq_name n \<and> xq_name (dq_name n) = xq_name n
   \<and> dq_name n \<noteq> xq_name n \<and> q_name n \<noteq> dq_name n \<and> q_name n \<noteq> xq_name n
   \<and> (dq_name n = dq_name m \<longleftrightarrow> q_name n = q_name m)
   \<and> (xq_name n = xq_name m \<longleftrightarrow> q_name n = q_name m)"
  by (simp add: dq_name_eq xq_name_eq)

section \<open>Backoff\<close>

text \<open>Python's \<open>int(x)\<close> on a float truncates towards zero.\<close>

definition py_int :: "real \<Rightarrow> int" where
  "py_int x = (if 0 \<le> x then \<lfloor>x\<rfloor> else \<lceil>x\<rceil>)"

text \<open>
  \<open>compute_backoff(attempts, factor, jitter, max_backoff, max_exponent)\<close>; \<open>u\<close> is what the first
  \<open>uniform(1, 2)\<close> returns and \<open>w\<close> what \<open>uniform(0.5, 1)\<close> returns. Callers count attempts from 0, so
  the exponent is a natural number.
\<close>

definition compute_backoff ::
  "nat \<Rightarrow> int \<Rightarrow> bool \<Rightarrow> int \<Rightarrow> nat \<Rightarrow> real \<Rightarrow> real \<Rightarrow> nat \<times> int" where
  "compute_backoff attempts factor jitter max_backoff max_exponent u w =
     (let exponent = min attempts max_exponent;
          backoff = factor * 2 ^ exponent
      in (attempts + 1,
          if jitter then
            (let backoff = py_int (of_int backoff * u)
             in if backoff > max_backoff then py_int (of_int max_backoff * w) else backoff)
          else min backoff max_backoff))"

definition max_exponent_default :: nat where "max_exponent_default = 32"

definition max_backoff_default :: int where "max_backoff_default = 2000"

lemma py_int_nonneg: "0 \<le> x \<Longrightarrow> py_int x = \<lfloor>x\<rfloor>"
  by (simp add: py_int_def)

lemma scaled_bounds:
  assumes "0 \<le> b" and "0 \<le> lo" and "lo \<le> u" and "u \<le> hi"
  shows "\<lfloor>of_int b * lo\<rfloor> \<le> py_int (of_int b * u)" and "py_int (of_int b * u) \<le> \<lfloor>of_int b * hi\<rfloor>"
proof -
  have "of_int b * lo \<le> of_int b * u" and "of_int b * u \<le> of_int b * hi" and "0 \<le> of_int b * u"
    using assms by (auto intro: mult_left_mono)
  then show "\<lfloor>of_int b * lo\<rfloor> \<le> py_int (of_int b * u)" and "py_int (of_int b * u) \<le> \<lfloor>of_int b * hi\<rfloor>"
    by (simp_all add: py_int_nonneg floor_mono)
qed

lemma floor_half: "\<lfloor>of_int b * (1 / 2) :: real\<rfloor> = b div 2"
  using floor_divide_of_int_eq [of b 2, where ?'a = real] by simp

lemma floor_double: "\<lfloor>of_int b * 2 :: real\<rfloor> = 2 * b"
  by (metis floor_of_int mult.commute of_int_mult of_int_numeral)

lemma compute_backoff_range:
  assumes "0 \<le> factor" and "0 \<le> max_backoff"
    and "1 \<le> u" and "u \<le> 2" and "1 / 2 \<le> w" and "w \<le> 1"
  shows "0 \<le> snd (compute_backoff attempts factor jitter max_backoff max_exponent u w)
    \<and> snd (compute_backoff attempts factor jitter max_backoff max_exponent u w) \<le> max_backoff"
proof -
  define b where "b = factor * 2 ^ min attempts max_exponent"
  have b: "0 \<le> b" using assms(1) by (simp add: b_def)
  have j: "b \<le> py_int (of_int b * u)"
    using scaled_bounds [OF b, of 1 u 2] assms(3,4) by (simp_all only: floor_double) simp_all
  have m: "max_backoff div 2 \<le> py_int (of_int max_backoff * w)"
    "py_int (of_int max_backoff * w) \<le> max_backoff"
    using scaled_bounds [OF assms(2), of "1 / 2" w 1] assms(5,6) by (simp_all only: floor_half) simp_all
  show ?thesis
    using assms(2) b j m by (auto simp: compute_backoff_def Let_def b_def [symmetric])
qed

text \<open>
  The backoff stays within its bounds: the attempt count grows by one; the delay never exceeds
  the maximum; without jitter it is the exact capped exponential; with jitter it is either between
  the exponential value and twice that, or at least half the maximum.
\<close>

theorem compute_backoff_bounds:
  assumes "0 \<le> factor" and "0 \<le> max_backoff"
    and "1 \<le> u" and "u \<le> 2" and "1 / 2 \<le> w" and "w \<le> 1"
    and "compute_backoff attempts factor jitter max_backoff max_exponent u w = (attempts', delay)"
  shows "attempts' = attempts + 1 \<and> 0 \<le> delay \<and> delay \<le> max_backoff
    \<and> (\<not> jitter \<longrightarrow> delay = min (factor * 2 ^ min attempts max_exponent) max_backoff)
    \<and> (jitter \<longrightarrow> factor * 2 ^ min attempts max_exponent \<le> delay
                   \<and> delay \<le> 2 * (factor * 2 ^ min attempts max_exponent)
                 \<or> max_backoff div 2 \<le> delay)"
proof -
  define b where "b = factor * 2 ^ min attempts max_exponent"
  have b: "0 \<le> b" using assms(1) by (simp add: b_def)
  have j: "b \<le> py_int (of_int b * u)" "py_int (of_int b * u) \<le> 2 * b"
    using scaled_bounds [OF b, of 1 u 2] assms(3,4) by (simp_all only: floor_double) simp_all
  have m: "max_backoff div 2 \<le> py_int (of_int max_backoff * w)"
    "py_int (of_int max_backoff * w) \<le> max_backoff"
    using scaled_bounds [OF assms(2), of "1 / 2" w 1] assms(5,6) by (simp_all only: floor_half) simp_all
  show ?thesis
    using assms(2,7) b j m by (auto simp: compute_backoff_def Let_def b_def [symmetric] split: if_splits)
qed

theorem compute_backoff_bounds_witness:
  "compute_backoff 3 5 True 2000 32 (3 / 2) 1 = (4, 60) \<and> (60::int) \<le> 2000"
proof -
  have h: "compute_backoff 3 5 True 2000 32 (3 / 2) 1 = (4, 60)"
    by (simp add: compute_backoff_def py_int_def)
  show ?thesis
    using h compute_backoff_bounds [of 5 2000 "3 / 2" 1 3 True 32 4 60] by simp
qed

section \<open>Joining under one timeout\<close>

text \<open>
  \<open>join_all(joinables, timeout)\<close>: each object is given by the milliseconds it still needs to
  finish, so that \<open>ob.join(timeout)\<close> takes the smaller of the two. The result lists, for each
  object, the timeout its \<open>join\<close> was given, and the time at the end. \<open>started\<close> is the first clock
  reading; \<open>now\<close> the current one.
\<close>

fun join_all_loop :: "int \<Rightarrow> int \<Rightarrow> int \<Rightarrow> int list \<Rightarrow> int list \<times> int" where
  "join_all_loop started now timeout [] = ([], now)"
| "join_all_loop started now timeout (needed # obs) =
     (let now = now + min needed timeout;
          elapsed = now - started;
          (given, end) = join_all_loop started now (max 0 (timeout - elapsed)) obs
      in (timeout # given, end))"

definition join_all :: "int \<Rightarrow> int list \<Rightarrow> int \<Rightarrow> int list \<times> int" where
  "join_all now joinables timeout = join_all_loop now now timeout joinables"

lemma join_all_loop_end:
  assumes "0 \<le> timeout" and "\<forall>n \<in> set obs. 0 \<le> n" and "started \<le> now"
    and "join_all_loop started now timeout obs = (given, end)"
  shows "now \<le> end \<and> end \<le> now + timeout
    \<and> (\<forall>t \<in> set given. 0 \<le> t \<and> t \<le> timeout) \<and> length given = length obs"
  using assms
proof (induction obs arbitrary: now timeout given)
  case Nil
  then show ?case by simp
next
  case (Cons n obs)
  let ?now = "now + min n timeout"
  let ?t = "max 0 (timeout - (?now - started))"
  obtain g where r: "join_all_loop started ?now ?t obs = (g, end)" and given: "given = timeout # g"
    using Cons.prems(4) by (auto simp: Let_def split: prod.splits)
  have "?now \<le> end \<and> end \<le> ?now + ?t \<and> (\<forall>t \<in> set g. 0 \<le> t \<and> t \<le> ?t) \<and> length g = length obs"
    by (rule Cons.IH [OF _ _ _ r]) (use Cons.prems in auto)
  with given Cons.prems(1-3) show ?case by auto
qed

text \<open>
  \<open>join_all\<close> ends by its deadline: however long the objects take, the call returns within the
  total timeout, and no object is ever given a negative timeout or more than the total.
\<close>

theorem join_all_within_timeout:
  assumes "0 \<le> timeout" and "\<forall>n \<in> set joinables. 0 \<le> n"
    and "join_all now joinables timeout = (given, end)"
  shows "now \<le> end \<and> end \<le> now + timeout \<and> length given = length joinables
    \<and> (\<forall>t \<in> set given. 0 \<le> t \<and> t \<le> timeout)"
  using join_all_loop_end [OF assms(1,2) _ assms(3) [unfolded join_all_def]] by simp

theorem join_all_within_timeout_witness:
  "join_all 0 [300, 300, 300] 1000 = ([1000, 700, 100], 700) \<and> (700::int) \<le> 0 + 1000"
proof -
  have h: "join_all 0 [300, 300, 300] 1000 = ([1000, 700, 100], 700)"
    by (simp add: join_all_def)
  show ?thesis
    using h join_all_within_timeout [of 1000 "[300, 300, 300]" 0 "[1000, 700, 100]" 700] by simp
qed

text \<open>
  The time already spent is charged again at every object: although 400 of the 1000
  milliseconds are left when the third object is reached, and that object needs only 300, it is
  given 100 and is not joined.
\<close>

theorem join_all_charges_twice:
  "join_all 0 [300, 300, 300] 1000 = ([1000, 700, 100], 700)
   \<and> (100::int) < 300 \<and> (300::int) \<le> 1000 - (300 + 300)"
  by (simp add: join_all_def)

end
