(* ===== verification/Message.thy ===== *)
theory Message
  imports PyValues
begin

text \<open>
  \<^verbatim>\<open>dramatiq/message.py\<close> and the \<open>Encoder\<close> interface of \<^verbatim>\<open>dramatiq/encoder.py\<close>: the message
  record, its dictionary form and back, copying with overridden options, encoding and decoding.
  The encoder in use (\<open>global_encoder\<close>) is an argument.
\<close>

record message =
  queue_name :: string
  actor_name :: string
  args :: "pyval list"
  kwargs :: pydict
  options :: pydict
  message_id :: string
  message_timestamp :: int

text \<open>\<open>asdict\<close>: the fields in their order; \<open>args\<close> is a tuple.\<close>

definition asdict :: "message \<Rightarrow> pydict" where
  "asdict m =
     [(''queue_name'', PStr (queue_name m)), (''actor_name'', PStr (actor_name m)),
      (''args'', PTuple (args m)), (''kwargs'', PDict (kwargs m)), (''options'', PDict (options m)),
      (''message_id'', PStr (message_id m)), (''message_timestamp'', PInt (message_timestamp m))]"

definition message_fields :: "string list" where
  "message_fields = [''queue_name'', ''actor_name'', ''args'', ''kwargs'', ''options'',
                     ''message_id'', ''message_timestamp'']"

text \<open>\<open>tuple(v)\<close> for the values that can be iterated over.\<close>

fun to_tuple :: "pyval \<Rightarrow> exn + pyval list" where
  "to_tuple (PTuple xs) = Inr xs"
| "to_tuple (PList xs) = Inr xs"
| "to_tuple (PStr s) = Inr (map (\<lambda>c. PStr [c]) s)"
| "to_tuple (PDict d) = Inr (map (PStr \<circ> fst) d)"
| "to_tuple _ = Inl (mk_exn TypeError ''object is not iterable'')"

text \<open>
  \<open>Message(**fields)\<close>: an unknown or a missing field is a \<open>TypeError\<close>; \<open>message_id\<close> and
  \<open>message_timestamp\<close> default to a fresh id and the current time; \<open>__post_init__\<close> makes \<open>args\<close>
  a tuple. Python does not check the types of the fields; the record can only hold the declared
  ones, so a field of another type is an error here.
\<close>

definition of_dict :: "string \<Rightarrow> int \<Rightarrow> pydict \<Rightarrow> exn + message" where
  "of_dict fresh_id now flds =
     (if \<not> (fst ` set flds \<subseteq> set message_fields)
      then Inl (mk_exn TypeError ''got an unexpected keyword argument'')
      else
        (case (map_of flds ''queue_name'', map_of flds ''actor_name'', map_of flds ''args'',
               map_of flds ''kwargs'', map_of flds ''options'',
               dget_default flds ''message_id'' (PStr fresh_id),
               dget_default flds ''message_timestamp'' (PInt now)) of
           (Some (PStr q), Some (PStr a), Some xs, Some (PDict kw), Some (PDict opts), PStr i, PInt t) \<Rightarrow>
             (case to_tuple xs of
                Inl e \<Rightarrow> Inl e
              | Inr xs \<Rightarrow> Inr \<lparr>queue_name = q, actor_name = a, args = xs, kwargs = kw,
                               options = opts, message_id = i, message_timestamp = t\<rparr>)
         | _ \<Rightarrow> Inl (mk_exn TypeError ''missing required argument'')))"

text \<open>\<open>copy(**attributes)\<close>: \<open>attrs\<close> sets the attributes given, \<open>new_options\<close> is the \<open>options\<close> one.\<close>

definition copy :: "(message \<Rightarrow> message) \<Rightarrow> pydict \<Rightarrow> message \<Rightarrow> message" where
  "copy attrs new_options m = (attrs m)\<lparr>options := dict_merge (options m) new_options\<rparr>"

definition message_datetime :: "message \<Rightarrow> int \<times> int" where
  "message_datetime m = (message_timestamp m div 1000, message_timestamp m mod 1000 * 1000)"

section \<open>Encoders\<close>

text \<open>The two operations of an \<open>Encoder\<close>; either may raise.\<close>

record encoder =
  enc :: "pyval \<Rightarrow> exn + string"
  dec :: "string \<Rightarrow> exn + pyval"

definition encode :: "encoder \<Rightarrow> message \<Rightarrow> exn + string" where
  "encode e m = enc e (PDict (asdict m))"

text \<open>
  \<open>Message.decode\<close>: whatever goes wrong (the decoder, a missing \<open>args\<close>, an \<open>args\<close> that is no
  sequence, a wrong field) is a \<open>DecodeError\<close>.
\<close>

definition decode_error :: exn where
  "decode_error = mk_exn DecodeError ''Failed to decode message.''"

definition decode :: "encoder \<Rightarrow> string \<Rightarrow> int \<Rightarrow> string \<Rightarrow> exn + message" where
  "decode e fresh_id now data =
     (case dec e data of
        Inl _ \<Rightarrow> Inl decode_error
      | Inr (PDict flds) \<Rightarrow>
          (case map_of flds ''args'' of
             None \<Rightarrow> Inl decode_error
           | Some v \<Rightarrow>
               (case to_tuple v of
                  Inl _ \<Rightarrow> Inl decode_error
                | Inr xs \<Rightarrow>
                    (case of_dict fresh_id now (AList.update ''args'' (PTuple xs) flds) of
                       Inl _ \<Rightarrow> Inl decode_error
                     | Inr m \<Rightarrow> Inr m)))
      | Inr _ \<Rightarrow> Inl decode_error)"

lemma of_dict_asdict: "of_dict fresh now (asdict m) = Inr m"
  by (simp add: of_dict_def asdict_def message_fields_def)

lemma options_copy [simp]: "options (copy attrs new m) = dict_merge (options m) new"
  by (simp add: copy_def)

lemma copy_fields [simp]:
  "queue_name (copy attrs new m) = queue_name (attrs m)"
  "actor_name (copy attrs new m) = actor_name (attrs m)"
  "args (copy attrs new m) = args (attrs m)"
  "kwargs (copy attrs new m) = kwargs (attrs m)"
  "message_id (copy attrs new m) = message_id (attrs m)"
  "message_timestamp (copy attrs new m) = message_timestamp (attrs m)"
  by (simp_all add: copy_def)

lemma decode_total: "decode e i t data = Inl err \<Longrightarrow> err = decode_error"
  by (auto simp: decode_def split: sum.splits pyval.splits option.splits)

text \<open>
  What the program relies on of an encoder: decoding what was encoded gives the value back, up to a
  normalisation \<open>norm\<close> that may turn tuples into lists but keeps strings, numbers and the shape of
  dictionaries. JSON has such a \<open>norm\<close>; pickling keeps every value. \<open>wf\<close> says which values Python
  can hold at all (the keys of a dictionary are distinct).
\<close>

locale message_encoder =
  fixes e :: encoder and norm :: "pyval \<Rightarrow> pyval" and wf :: "pyval \<Rightarrow> bool"
  assumes roundtrip: "wf v \<Longrightarrow> enc e v = Inr s \<Longrightarrow> dec e s = Inr (norm v)"
    and norm_str: "norm (PStr n) = PStr n"
    and norm_int: "norm (PInt i) = PInt i"
    and norm_dict: "norm (PDict d) = PDict (map (\<lambda>(k, v). (k, norm v)) d)"
    and norm_tuple: "norm (PTuple xs) = PTuple (map norm xs) \<or> norm (PTuple xs) = PList (map norm xs)"
begin

lemma decode_encode:
  assumes "wf (PDict (asdict m))" and "encode e m = Inr s"
  shows "decode e fresh now s = Inr (m\<lparr>args := map norm (args m),
           kwargs := map (\<lambda>(k, v). (k, norm v)) (kwargs m),
           options := map (\<lambda>(k, v). (k, norm v)) (options m)\<rparr>)"
proof -
  from assms(2) have "dec e s = Inr (norm (PDict (asdict m)))"
    by (simp add: encode_def roundtrip [OF assms(1)])
  moreover have "norm (PTuple (args m)) = PTuple (map norm (args m))
      \<or> norm (PTuple (args m)) = PList (map norm (args m))"
    by (rule norm_tuple)
  ultimately show ?thesis
    by (elim disjE) (simp_all add: decode_def of_dict_def asdict_def message_fields_def
        norm_dict norm_str norm_int)
qed

text \<open>A message whose values are already in normal form comes back unchanged.\<close>

lemma decode_encode_normal:
  assumes "wf (PDict (asdict m))" and "encode e m = Inr s"
    and "map norm (args m) = args m"
    and "map (\<lambda>(k, v). (k, norm v)) (kwargs m) = kwargs m"
    and "map (\<lambda>(k, v). (k, norm v)) (options m) = options m"
  shows "decode e fresh now s = Inr m"
  using assms by (simp add: decode_encode [OF assms(1,2)])

end

end
