(* ===== verification/Json.thy ===== *)
theory Json
  imports Message
begin

text \<open>
  \<open>JSONEncoder\<close> of \<^verbatim>\<open>dramatiq/encoder.py\<close>: \<open>json.dumps(data, separators=(",", ":"))\<close> and
  \<open>json.loads\<close>, written out for the values of \<open>PyValues\<close>. Characters have code points below 256;
  a text with a larger code point, or with a float, is not the print of such a value and the reader
  rejects it.
\<close>

section \<open>Printing\<close>

text \<open>
  \<open>py_encode_basestring_ascii\<close>: the printable ASCII characters other than the quote and the
  backslash stand for themselves.
\<close>

definition escape_char :: "char \<Rightarrow> string" where
  "escape_char c =
     (let n = of_char c :: nat in
      if n = 34 then [CHR 0x5C, CHR 0x22]
      else if n = 92 then [CHR 0x5C, CHR 0x5C]
      else if n = 10 then [CHR 0x5C, CHR ''n'']
      else if n = 13 then [CHR 0x5C, CHR ''r'']
      else if n = 9 then [CHR 0x5C, CHR ''t'']
      else if n = 12 then [CHR 0x5C, CHR ''f'']
      else if n = 8 then [CHR 0x5C, CHR ''b'']
      else if 32 \<le> n \<and> n \<le> 126 then [c]
      else [CHR 0x5C, CHR ''u'', CHR ''0'', CHR ''0'', hex_char (n div 16), hex_char (n mod 16)])"

definition quote_string :: "string \<Rightarrow> string" where
  "quote_string s = CHR 0x22 # concat (map escape_char s) @ [CHR 0x22]"

fun intercalate :: "'a list \<Rightarrow> 'a list list \<Rightarrow> 'a list" where
  "intercalate sep [] = []"
| "intercalate sep [x] = x"
| "intercalate sep (x # y # ys) = x @ sep @ intercalate sep (y # ys)"

definition not_serializable :: exn where
  "not_serializable = mk_exn TypeError ''Object is not JSON serializable''"

text \<open>All results of a list of fallible steps, or the first error.\<close>

fun collect :: "(exn + 'a) list \<Rightarrow> exn + 'a list" where
  "collect [] = Inr []"
| "collect (Inl e # rs) = Inl e"
| "collect (Inr x # rs) = (case collect rs of Inl e \<Rightarrow> Inl e | Inr xs \<Rightarrow> Inr (x # xs))"

fun json_dumps :: "pyval \<Rightarrow> exn + string" where
  "json_dumps PNone = Inr ''null''"
| "json_dumps (PBool b) = Inr (if b then ''true'' else ''false'')"
| "json_dumps (PInt i) = Inr (int_str i)"
| "json_dumps (PStr s) = Inr (quote_string s)"
| "json_dumps (PList xs) =
     (case collect (map json_dumps xs) of
        Inl e \<Rightarrow> Inl e
      | Inr ss \<Rightarrow> Inr (CHR ''['' # intercalate '','' ss @ '']''))"
| "json_dumps (PTuple xs) =
     (case collect (map json_dumps xs) of
        Inl e \<Rightarrow> Inl e
      | Inr ss \<Rightarrow> Inr (CHR ''['' # intercalate '','' ss @ '']''))"
| "json_dumps (PDict d) =
     (case collect (map (\<lambda>kv. case json_dumps (snd kv) of
                           Inl e \<Rightarrow> Inl e
                         | Inr s \<Rightarrow> Inr (quote_string (fst kv) @ '':'' @ s)) d) of
        Inl e \<Rightarrow> Inl e
      | Inr ss \<Rightarrow> Inr (CHR ''{'' # intercalate '','' ss @ ''}''))"
| "json_dumps (PClass c) = Inl not_serializable"
| "json_dumps (PObject n) = Inl not_serializable"

section \<open>Reading\<close>

definition json_error :: exn where
  "json_error = mk_exn DecodeError ''failed to decode message''"

definition hex_value :: "char \<Rightarrow> nat option" where
  "hex_value c =
     (let n = of_char c :: nat in
      if 48 \<le> n \<and> n \<le> 57 then Some (n - 48)
      else if 97 \<le> n \<and> n \<le> 102 then Some (n - 87)
      else if 65 \<le> n \<and> n \<le> 70 then Some (n - 55)
      else None)"

definition unescape :: "char \<Rightarrow> char option" where
  "unescape c =
     (if c \<in> {CHR 0x22, CHR 0x5C, CHR ''/''} then Some c
      else if c = CHR ''b'' then Some (char_of (8 :: nat))
      else if c = CHR ''f'' then Some (char_of (12 :: nat))
      else if c = CHR ''n'' then Some (char_of (10 :: nat))
      else if c = CHR ''r'' then Some (char_of (13 :: nat))
      else if c = CHR ''t'' then Some (char_of (9 :: nat))
      else None)"

definition push :: "'a \<Rightarrow> ('a list \<times> 'b) option \<Rightarrow> ('a list \<times> 'b) option" where
  "push x r = (case r of None \<Rightarrow> None | Some (xs, rest) \<Rightarrow> Some (x # xs, rest))"

text \<open>The string after an opening quote, and what follows the closing one.\<close>

fun scan_string :: "string \<Rightarrow> (string \<times> string) option" where
  "scan_string [] = None"
| "scan_string (c # r) =
     (if c = CHR 0x22 then Some ([], r)
      else if c = CHR 0x5C then
        (case r of
           [] \<Rightarrow> None
         | k # r' \<Rightarrow>
             (if k = CHR ''u'' then
                (case r' of
                   h1 # h2 # h3 # h4 # r'' \<Rightarrow>
                     (case (hex_value h1, hex_value h2, hex_value h3, hex_value h4) of
                        (Some a, Some b, Some x, Some y) \<Rightarrow>
                          (if a = 0 \<and> b = 0 then push (char_of (16 * x + y)) (scan_string r'') else None)
                      | _ \<Rightarrow> None)
                 | _ \<Rightarrow> None)
              else
                (case unescape k of
                   None \<Rightarrow> None
                 | Some x \<Rightarrow> push x (scan_string r'))))
      else if (of_char c :: nat) < 32 then None
      else push c (scan_string r))"

definition is_space :: "char \<Rightarrow> bool" where
  "is_space c = ((of_char c :: nat) \<in> {32, 9, 10, 13})"

abbreviation skip_space :: "string \<Rightarrow> string" where
  "skip_space \<equiv> dropWhile is_space"

text \<open>A number: an optional minus and digits without a leading zero; no fraction or exponent.\<close>

definition scan_digits :: "string \<Rightarrow> (nat \<times> string) option" where
  "scan_digits s =
     (let ds = takeWhile is_digit s; r = dropWhile is_digit s in
      if ds = [] then None
      else if hd ds = CHR ''0'' then Some (0, tl s)
      else Some (read_nat ds, r))"

definition scan_number :: "string \<Rightarrow> (int \<times> string) option" where
  "scan_number s =
     (let r = (case s of
        c # s' \<Rightarrow> (if c = CHR ''-'' then map_option (\<lambda>(n, r). (- int n, r)) (scan_digits s')
                  else map_option (\<lambda>(n, r). (int n, r)) (scan_digits s))
      | [] \<Rightarrow> None)
      in case r of
           Some (i, c # r') \<Rightarrow> (if c \<in> {CHR ''.'', CHR ''e'', CHR ''E''} then None else Some (i, c # r'))
         | r \<Rightarrow> r)"

text \<open>
  The reader proper. A recursive call after a value has been read is made only on a shorter text,
  which holds always; the test is there for the termination proof.
\<close>

function (sequential)
  parse_value :: "string \<Rightarrow> (pyval \<times> string) option" and
  parse_items :: "string \<Rightarrow> (pyval list \<times> string) option" and
  parse_members :: "string \<Rightarrow> (pydict \<times> string) option"
where
  "parse_value [] = None"
| "parse_value (c # r) =
     (if c = CHR 0x22 then map_option (\<lambda>(s, r). (PStr s, r)) (scan_string r)
      else if c = CHR ''['' then
        (case skip_space r of
           [] \<Rightarrow> None
         | d # r' \<Rightarrow>
             (if d = CHR '']'' then Some (PList [], r')
              else if length (d # r') \<le> length r
              then map_option (\<lambda>(xs, r). (PList xs, r)) (parse_items (d # r'))
              else None))
      else if c = CHR ''{'' then
        (case skip_space r of
           [] \<Rightarrow> None
         | d # r' \<Rightarrow>
             (if d = CHR ''}'' then Some (PDict [], r')
              else if length (d # r') \<le> length r
              then map_option (\<lambda>(kvs, r). (PDict (dict_merge [] kvs), r)) (parse_members (d # r'))
              else None))
      else if take 4 (c # r) = ''null'' then Some (PNone, drop 4 (c # r))
      else if take 4 (c # r) = ''true'' then Some (PBool True, drop 4 (c # r))
      else if take 5 (c # r) = ''false'' then Some (PBool False, drop 5 (c # r))
      else map_option (\<lambda>(i, r). (PInt i, r)) (scan_number (c # r)))"
| "parse_items s =
     (case parse_value s of
        None \<Rightarrow> None
      | Some (v, r) \<Rightarrow>
          (case skip_space r of
             [] \<Rightarrow> None
           | d # r' \<Rightarrow>
               (if d = CHR '']'' then Some ([v], r')
                else if d = CHR '','' \<and> length (skip_space r') < length s
                then push v (parse_items (skip_space r'))
                else None)))"
| "parse_members [] = None"
| "parse_members (c # s) =
     (if c \<noteq> CHR 0x22 then None
      else
        (case scan_string s of
           None \<Rightarrow> None
         | Some (k, r) \<Rightarrow>
             (case skip_space r of
                [] \<Rightarrow> None
              | d # r \<Rightarrow>
                  (if d = CHR '':'' \<and> length (skip_space r) \<le> length s then
                     (case parse_value (skip_space r) of
                        None \<Rightarrow> None
                      | Some (v, r) \<Rightarrow>
                          (case skip_space r of
                             [] \<Rightarrow> None
                           | d # r' \<Rightarrow>
                               (if d = CHR ''}'' then Some ([(k, v)], r')
                                else if d = CHR '','' \<and> length (skip_space r') < length (c # s)
                                then push (k, v) (parse_members (skip_space r'))
                                else None)))
                   else None))))"
  by pat_completeness auto
termination
  by (relation "measures [\<lambda>x. case x of Inl s \<Rightarrow> length s | Inr (Inl s) \<Rightarrow> length s | Inr (Inr s) \<Rightarrow> length s,
                          \<lambda>x. case x of Inl s \<Rightarrow> 0 | Inr (Inl s) \<Rightarrow> 1 | Inr (Inr s) \<Rightarrow> 1]") auto

definition json_loads :: "string \<Rightarrow> exn + pyval" where
  "json_loads s =
     (case parse_value (skip_space s) of
        None \<Rightarrow> Inl json_error
      | Some (v, r) \<Rightarrow> (if skip_space r = [] then Inr v else Inl json_error))"

definition JSONEncoder :: encoder where
  "JSONEncoder = \<lparr>enc = json_dumps, dec = json_loads\<rparr>"

text \<open>What a value looks like after a round trip: tuples have become lists.\<close>

fun listify :: "pyval \<Rightarrow> pyval" where
  "listify (PList xs) = PList (map listify xs)"
| "listify (PTuple xs) = PList (map listify xs)"
| "listify (PDict d) = PDict (map (\<lambda>kv. (fst kv, listify (snd kv))) d)"
| "listify v = v"

section \<open>Reading what was printed\<close>


lemma of_char_less: "(of_char c :: nat) < 256"
  by (cases c) (auto simp: of_char_def horner_sum_simps of_bool_def split: if_splits)

lemma hex_value_char: "n < 16 \<Longrightarrow> hex_value (hex_char n) = Some n"
  by (auto simp: hex_value_def hex_char_def Let_def)

lemma char_of_quote: "char_of (34 :: nat) = CHR 0x22" "char_of (92 :: nat) = CHR 0x5C"
  by code_simp+

lemma scan_escape: "scan_string (escape_char c @ t) = push c (scan_string t)"
proof -
  define n where "n = (of_char c :: nat)"
  have c: "c = char_of n" by (simp add: n_def)
  have lt: "n < 256" by (simp add: n_def of_char_less)
  consider "n = 34" | "n = 92" | "n = 10" | "n = 13" | "n = 9" | "n = 12" | "n = 8"
    | "32 \<le> n" "n \<le> 126" "n \<noteq> 34" "n \<noteq> 92" | "n < 32 \<or> 126 < n" "n \<notin> {8, 9, 10, 12, 13}"
    by force
  then show ?thesis
  proof cases
    case 8
    then have "c \<noteq> CHR 0x22" "c \<noteq> CHR 0x5C" by (auto simp: n_def)
    with 8 show ?thesis by (simp add: escape_char_def n_def [symmetric])
  next
    case 9
    then have "n \<noteq> 34" "n \<noteq> 92" by auto
    moreover have "hex_value (hex_char (n div 16)) = Some (n div 16)"
      and "hex_value (hex_char (n mod 16)) = Some (n mod 16)"
      using lt by (simp_all add: hex_value_char)
    moreover have "hex_value CHR ''0'' = Some 0" by (simp add: hex_value_def)
    ultimately show ?thesis using 9 lt
      by (auto simp: escape_char_def n_def [symmetric] c)
  qed (simp_all add: escape_char_def n_def [symmetric] c unescape_def char_of_quote)
qed

lemma scan_quoted: "scan_string (concat (map escape_char s) @ CHR 0x22 # r) = Some (s, r)"
  by (induction s) (simp_all add: scan_escape push_def)


text \<open>Values that Python can hold: the keys of a dictionary are distinct.\<close>

fun json_wf :: "pyval \<Rightarrow> bool" where
  "json_wf (PList xs) = (\<forall>x \<in> set xs. json_wf x)"
| "json_wf (PTuple xs) = (\<forall>x \<in> set xs. json_wf x)"
| "json_wf (PDict d) = (dict_wf d \<and> (\<forall>kv \<in> set d. json_wf (snd kv)))"
| "json_wf _ = True"

definition follow :: "string \<Rightarrow> bool" where
  "follow r = (r = [] \<or> hd r \<in> {CHR '','', CHR '']'', CHR ''}''})"

lemma follow_simps [simp]: "follow []" "follow (CHR '','' # r)" "follow (CHR '']'' # r)" "follow (CHR ''}'' # r)"
  by (simp_all add: follow_def)

lemma follow_takeWhile:
  assumes "follow r"
  shows "takeWhile is_digit (nat_str n @ r) = nat_str n" "dropWhile is_digit (nat_str n @ r) = r"
proof -
  have r: "takeWhile is_digit r = []" "dropWhile is_digit r = r"
    using assms by (cases r; auto simp: follow_def is_digit_def)+
  with nat_str_digits [of n]
  show "takeWhile is_digit (nat_str n @ r) = nat_str n" "dropWhile is_digit (nat_str n @ r) = r"
    by (simp_all add: takeWhile_append2 dropWhile_append2)
qed

lemma nat_str_hd: "hd (nat_str n) = CHR ''0'' \<Longrightarrow> n = 0"
proof (induction n rule: nat_str.induct)
  case (1 n)
  show ?case
  proof (cases "n < 10")
    case True
    with "1.prems" show ?thesis
      by (subst (asm) nat_str.simps) (simp add: digit_char_def char_of_eq_iff take_bit_eq_mod)
  next
    case False
    with "1.prems" have "hd (nat_str (n div 10)) = CHR ''0''"
      by (subst (asm) nat_str.simps) simp
    with "1.IH" [OF False] False show ?thesis by simp
  qed
qed

lemma nat_str_0: "nat_str 0 = ''0''"
  by (subst nat_str.simps) (simp add: digit_char_def char_of_eq_iff)

lemma scan_digits_str: "follow r \<Longrightarrow> scan_digits (nat_str n @ r) = Some (n, r)"
  by (auto simp: scan_digits_def follow_takeWhile Let_def nat_str_0 dest: nat_str_hd)

lemma nat_str_Cons: obtains c t where "nat_str n = c # t" "is_digit c"
  using nat_str_digits [of n] nat_str_nonempty [of n] by (cases "nat_str n") auto

lemma scan_number_str:
  assumes "follow r"
  shows "scan_number (int_str i @ r) = Some (i, r)"
proof -
  obtain c t where n: "nat_str (nat i) = c # t" "is_digit c" by (rule nat_str_Cons)
  from n have c: "c \<noteq> CHR ''-''" by auto
  have "scan_digits (c # t @ r) = Some (nat i, r)"
    using scan_digits_str [OF assms, of "nat i"] n by simp
  with c show ?thesis
    using assms scan_digits_str [OF assms] n
    by (cases r) (auto simp: scan_number_def int_str_def Let_def follow_def)
qed

lemma collect_Cons_Inr:
  "collect (x # xs) = Inr ys \<longleftrightarrow> (\<exists>y ys'. x = Inr y \<and> collect xs = Inr ys' \<and> ys = y # ys')"
  by (cases x) (auto split: sum.splits)

lemma int_str_Cons: obtains c t where "int_str i = c # t" "c = CHR ''-'' \<or> is_digit c"
proof (cases "i < 0")
  case True
  then show ?thesis using that by (simp add: int_str_def)
next
  case False
  obtain c t where "nat_str (nat i) = c # t" "is_digit c" by (rule nat_str_Cons)
  with False show ?thesis using that by (simp add: int_str_def)
qed

lemma number_head:
  assumes "c = CHR ''-'' \<or> is_digit c"
  shows "c \<notin> {CHR '']'', CHR ''}''}" and "\<not> is_space c" and "c \<notin> {CHR 0x22, CHR ''['', CHR ''{'', CHR ''n'', CHR ''t'', CHR ''f''}"
  using assms by (auto simp: is_digit_def is_space_def)

definition starts_value :: "string \<Rightarrow> bool" where
  "starts_value s = (s \<noteq> [] \<and> hd s \<notin> {CHR '']'', CHR ''}''} \<and> \<not> is_space (hd s))"

lemma json_head: "json_dumps v = Inr s \<Longrightarrow> starts_value s"
proof (cases v)
  case (PInt i)
  assume "json_dumps v = Inr s"
  obtain c t where i: "int_str i = c # t" "c = CHR ''-'' \<or> is_digit c" by (rule int_str_Cons)
  with \<open>json_dumps v = Inr s\<close> PInt have "s = c # t" by simp
  then show ?thesis using number_head(1,2) [OF i(2)] by (simp add: starts_value_def)
qed (auto simp: starts_value_def is_space_def quote_string_def split: sum.splits if_splits)

lemma starts_value_append: "starts_value s \<Longrightarrow> starts_value (s @ r)"
  by (simp add: starts_value_def)

lemma skip_space_starts: "starts_value s \<Longrightarrow> skip_space (s @ r) = s @ r"
  by (cases s) (simp_all add: starts_value_def)

lemma intercalate_Cons: "intercalate sep (x # xs) = x @ (if xs = [] then [] else sep @ intercalate sep xs)"
  by (cases xs) simp_all

lemma skip_space_json:
  "json_dumps v = Inr s \<Longrightarrow> skip_space (s @ r) = s @ r"
  by (intro skip_space_starts json_head)

lemma parse_items_print:
  assumes "\<And>x s r. x \<in> set xs \<Longrightarrow> json_dumps x = Inr s \<Longrightarrow> follow r \<Longrightarrow> parse_value (s @ r) = Some (listify x, r)"
    and "collect (map json_dumps xs) = Inr ss" and "xs \<noteq> []"
  shows "parse_items (intercalate '','' ss @ CHR '']'' # r) = Some (map listify xs, r)"
  using assms
proof (induction xs arbitrary: ss)
  case Nil
  then show ?case by simp
next
  case (Cons x xs)
  from Cons.prems(2) obtain s ss' where s: "json_dumps x = Inr s"
    and ss': "collect (map json_dumps xs) = Inr ss'" and ss: "ss = s # ss'"
    by (auto simp: collect_Cons_Inr)
  have v: "follow r \<Longrightarrow> parse_value (s @ r) = Some (listify x, r)" for r
    using Cons.prems(1) s by simp
  show ?case
  proof (cases xs)
    case Nil
    with ss' have "ss' = []" by simp
    then show ?thesis by (simp add: ss Nil v is_space_def)
  next
    case (Cons y ys)
    with ss' obtain s2 ss2 where s2: "json_dumps y = Inr s2" "ss' = s2 # ss2"
      by (auto simp: collect_Cons_Inr)
    let ?rest = "intercalate '','' ss' @ CHR '']'' # r"
    have "skip_space ?rest = ?rest"
      using skip_space_json [OF s2(1)] by (simp add: s2(2) intercalate_Cons)
    moreover have "parse_items ?rest = Some (map listify xs, r)"
      using Cons.IH [OF _ ss'] Cons.prems(1) \<open>xs = y # ys\<close> by simp
    ultimately show ?thesis
      by (simp add: ss intercalate_Cons s2(2) v is_space_def push_def)
  qed
qed


definition member_text :: "string \<times> pyval \<Rightarrow> exn + string" where
  "member_text kv = (case json_dumps (snd kv) of
     Inl e \<Rightarrow> Inl e | Inr s \<Rightarrow> Inr (quote_string (fst kv) @ '':'' @ s))"

lemma member_text_Inr:
  "member_text kv = Inr t \<Longrightarrow> \<exists>s. json_dumps (snd kv) = Inr s \<and> t = quote_string (fst kv) @ '':'' @ s"
  by (auto simp: member_text_def split: sum.splits)

lemma skip_space_quoted [simp]: "skip_space (quote_string k @ r) = quote_string k @ r"
  by (simp add: quote_string_def is_space_def)

lemma space_chars [simp]: "\<not> is_space CHR '':''" "\<not> is_space CHR '',''" "\<not> is_space CHR '']''" "\<not> is_space CHR ''}''"
  by (simp_all add: is_space_def)

lemma parse_members_one:
  assumes "json_dumps v = Inr s"
    and "\<And>r. follow r \<Longrightarrow> parse_value (s @ r) = Some (listify v, r)"
  shows "parse_members (quote_string k @ CHR '':'' # s @ CHR ''}'' # r) = Some ([(k, listify v)], r)"
    and "skip_space r = r \<Longrightarrow> parse_members (quote_string k @ CHR '':'' # s @ CHR '','' # r) = push (k, listify v) (parse_members r)"
  using assms(2) skip_space_json [OF assms(1)]
  by (simp_all add: quote_string_def scan_quoted)

lemma parse_members_print:
  assumes "\<And>kv s r. kv \<in> set d \<Longrightarrow> json_dumps (snd kv) = Inr s \<Longrightarrow> follow r \<Longrightarrow>
             parse_value (s @ r) = Some (listify (snd kv), r)"
    and "collect (map member_text d) = Inr ss" and "d \<noteq> []"
  shows "parse_members (intercalate '','' ss @ CHR ''}'' # r)
         = Some (map (\<lambda>kv. (fst kv, listify (snd kv))) d, r)"
  using assms
proof (induction d arbitrary: ss)
  case Nil
  then show ?case by simp
next
  case (Cons kv d)
  from Cons.prems(2) obtain s ss' where s: "json_dumps (snd kv) = Inr s"
    and ss': "collect (map member_text d) = Inr ss'"
    and ss: "ss = (quote_string (fst kv) @ '':'' @ s) # ss'"
    by (auto simp: collect_Cons_Inr dest!: member_text_Inr)
  have v: "follow r \<Longrightarrow> parse_value (s @ r) = Some (listify (snd kv), r)" for r
    using Cons.prems(1) s by simp
  show ?case
  proof (cases d)
    case Nil
    with ss' have "ss' = []" by simp
    then show ?thesis using parse_members_one(1) [OF s v, of "fst kv" r] by (simp add: ss Nil)
  next
    case (Cons kv2 d2)
    with ss' obtain k2 s2 ss2 where s2: "ss' = (quote_string k2 @ s2) # ss2"
      by (auto simp: collect_Cons_Inr dest!: member_text_Inr)
    let ?rest = "intercalate '','' ss' @ CHR ''}'' # r"
    have "skip_space ?rest = ?rest"
      by (simp add: s2 intercalate_Cons)
    moreover have "parse_members ?rest = Some (map (\<lambda>kv. (fst kv, listify (snd kv))) d, r)"
      using Cons.IH [OF _ ss'] Cons.prems(1) \<open>d = kv2 # d2\<close> by simp
    ultimately show ?thesis
      using parse_members_one(2) [OF s v, of ?rest "fst kv"]
      by (simp add: ss intercalate_Cons s2 push_def)
  qed
qed

lemma dict_merge_fresh:
  "distinct (map fst b) \<Longrightarrow> fst ` set a \<inter> fst ` set b = {} \<Longrightarrow> dict_merge a b = a @ b"
proof (induction b arbitrary: a)
  case (Cons e b)
  obtain k v where e: "e = (k, v)" by force
  have "AList.update k v a = a @ [e]"
    using Cons.prems(2) by (induction a) (auto simp: e)
  with Cons show ?case by (simp add: e image_Un)
qed simp

lemma json_dumps_dict:
  "json_dumps (PDict d) = (case collect (map member_text d) of
     Inl e \<Rightarrow> Inl e | Inr ss \<Rightarrow> Inr (CHR ''{'' # intercalate '','' ss @ ''}''))"
  by (simp add: member_text_def [abs_def])

declare json_dumps.simps(7) [simp del]

lemma starts_list:
  assumes "collect (map f xs) = Inr ss" and "xs \<noteq> []"
    and "\<And>x s. x \<in> set xs \<Longrightarrow> f x = Inr s \<Longrightarrow> starts_value s"
  shows "starts_value (intercalate '','' ss)"
proof -
  obtain x xs' where xs: "xs = x # xs'" using assms(2) by (cases xs) auto
  with assms(1) obtain s ss' where "f x = Inr s" "ss = s # ss'"
    by (auto simp: collect_Cons_Inr)
  with assms(3) [of x s] xs show ?thesis by (simp add: intercalate_Cons starts_value_append)
qed

lemma starts_member: "member_text kv = Inr s \<Longrightarrow> starts_value s"
  by (auto dest!: member_text_Inr simp: starts_value_def quote_string_def is_space_def)

lemma parse_list:
  assumes "starts_value s" and "parse_items (s @ r) = Some (xs, r')"
  shows "parse_value (CHR ''['' # s @ r) = Some (PList xs, r')"
  using assms skip_space_starts [OF assms(1), of r]
  by (cases s) (simp_all add: starts_value_def del: parse_items.simps)

lemma parse_dict:
  assumes "starts_value s" and "parse_members (s @ r) = Some (kvs, r')"
  shows "parse_value (CHR ''{'' # s @ r) = Some (PDict (dict_merge [] kvs), r')"
  using assms skip_space_starts [OF assms(1), of r]
  by (cases s) (simp_all add: starts_value_def del: parse_members.simps)

lemma parse_sequence_print:
  assumes "\<And>x s r. x \<in> set xs \<Longrightarrow> json_dumps x = Inr s \<Longrightarrow> follow r \<Longrightarrow> parse_value (s @ r) = Some (listify x, r)"
    and "collect (map json_dumps xs) = Inr ss"
  shows "parse_value (CHR ''['' # intercalate '','' ss @ CHR '']'' # r) = Some (PList (map listify xs), r)"
proof (cases "xs = []")
  case True
  with assms(2) show ?thesis by simp
next
  case False
  show ?thesis
    by (rule parse_list [OF starts_list [OF assms(2) False json_head] parse_items_print [OF assms False]])
qed

lemma parse_value_number:
  assumes "c = CHR ''-'' \<or> is_digit c"
  shows "parse_value (c # r) = map_option (\<lambda>(i, r). (PInt i, r)) (scan_number (c # r))"
  using number_head(3) [OF assms] by simp

lemma parse_dumps:
  "json_wf v \<Longrightarrow> json_dumps v = Inr s \<Longrightarrow> follow r \<Longrightarrow> parse_value (s @ r) = Some (listify v, r)"
proof (induction v arbitrary: s r)
  case (PInt i)
  obtain c t where i: "int_str i = c # t" "c = CHR ''-'' \<or> is_digit c" by (rule int_str_Cons)
  with PInt scan_number_str [OF PInt.prems(3), of i] parse_value_number [OF i(2), of "t @ r"]
  show ?case by auto
next
  case (PStr n)
  then show ?case by (auto simp: quote_string_def scan_quoted)
next
  case (PList xs)
  from PList.prems(2) obtain ss where "collect (map json_dumps xs) = Inr ss"
    and "s = CHR ''['' # intercalate '','' ss @ '']''" by (auto split: sum.splits)
  with PList parse_sequence_print [of xs ss r] show ?case by auto
next
  case (PTuple xs)
  from PTuple.prems(2) obtain ss where "collect (map json_dumps xs) = Inr ss"
    and "s = CHR ''['' # intercalate '','' ss @ '']''" by (auto split: sum.splits)
  with PTuple parse_sequence_print [of xs ss r] show ?case by auto
next
  case (PDict d)
  from PDict.prems(2) obtain ss where ss: "collect (map member_text d) = Inr ss"
    and s: "s = CHR ''{'' # intercalate '','' ss @ ''}''"
    by (auto simp: json_dumps_dict split: sum.splits)
  have IH: "parse_value (s @ r) = Some (listify (snd kv), r)"
    if "kv \<in> set d" "json_dumps (snd kv) = Inr s" "follow r" for kv s r
    using PDict.IH [of kv "snd kv" s r] that PDict.prems(1) by (cases kv) auto
  show ?case
  proof (cases "d = []")
    case True
    with ss s show ?thesis by simp
  next
    case False
    have "distinct (map fst (map (\<lambda>kv. (fst kv, listify (snd kv))) d))"
      using PDict.prems(1) by (simp add: dict_wf_def comp_def)
    moreover have "parse_members (intercalate '','' ss @ CHR ''}'' # r)
        = Some (map (\<lambda>kv. (fst kv, listify (snd kv))) d, r)"
      by (rule parse_members_print [OF IH ss False])
    ultimately show ?thesis
      using parse_dict [OF starts_list [OF ss False starts_member]] by (simp add: s dict_merge_fresh)
  qed
qed (auto split: if_splits)

interpretation json: message_encoder JSONEncoder listify json_wf
proof unfold_locales
  fix v s
  assume "json_wf v" and "enc JSONEncoder v = Inr s"
  then have "parse_value s = Some (listify v, [])" and "skip_space s = s"
    using parse_dumps [of v s "[]"] skip_space_json [of v s "[]"] by (simp_all add: JSONEncoder_def)
  then show "dec JSONEncoder s = Inr (listify v)"
    by (simp add: JSONEncoder_def json_loads_def)
qed (simp_all add: split_def)

text \<open>Deciding that a message holds only values Python can hold.\<close>

lemma json_wf_asdict:
  "json_wf (PDict (asdict m)) \<longleftrightarrow>
     (\<forall>v \<in> set (args m). json_wf v) \<and> json_wf (PDict (kwargs m)) \<and> json_wf (PDict (options m))"
  by (simp add: asdict_def dict_wf_def)

text \<open>
  C26. Round trip of a message through the default encoder: whenever a message can be encoded,
  decoding the bytes gives the same message back, with the tuples nested in its arguments and
  options turned into lists and every other value unchanged.
\<close>

theorem message_json_roundtrip:
  assumes "\<forall>v \<in> set (args m). json_wf v" and "json_wf (PDict (kwargs m))"
    and "json_wf (PDict (options m))" and "encode JSONEncoder m = Inr data"
  shows "decode JSONEncoder fresh now data
    = Inr (m\<lparr>args := map listify (args m),
             kwargs := map (\<lambda>(k, v). (k, listify v)) (kwargs m),
             options := map (\<lambda>(k, v). (k, listify v)) (options m)\<rparr>)"
  by (rule json.decode_encode [OF json_wf_asdict [THEN iffD2] assms(4)]) (use assms in blast)

definition sample_message :: message where
  "sample_message = \<lparr>queue_name = ''default'', actor_name = ''add'', args = [PInt 1, PTuple [PInt (-2)]],
     kwargs = [], options = [(''retries'', PInt 0)], message_id = ''id-1'', message_timestamp = 7\<rparr>"

theorem message_json_roundtrip_witness:
  "\<exists>data. encode JSONEncoder sample_message = Inr data
     \<and> decode JSONEncoder [] 0 data
       = Inr (sample_message\<lparr>args := [PInt 1, PList [PInt (-2)]]\<rparr>)"
proof -
  have "\<exists>data. encode JSONEncoder sample_message = Inr data"
    by (simp add: encode_def JSONEncoder_def sample_message_def asdict_def json_dumps.simps)
  then obtain data where data: "encode JSONEncoder sample_message = Inr data" by blast
  from message_json_roundtrip [OF _ _ _ data, of "[]" 0]
  have "decode JSONEncoder [] 0 data = Inr (sample_message\<lparr>args := [PInt 1, PList [PInt (-2)]]\<rparr>)"
    by (simp add: sample_message_def dict_wf_def)
  with data show ?thesis by blast
qed

end
