(* ===== verification/Rate_Backend.thy ===== *)
theory Rate_Backend
  imports Exceptions
begin

text \<open>
  Rate limiter backends: the interface \<open>RateLimiterBackend\<close> (\<^verbatim>\<open>dramatiq/rate_limits/backend.py\<close>),
  its contract as a locale, and the in-memory \<open>StubBackend\<close>
  (\<^verbatim>\<open>dramatiq/rate_limits/backends/stub.py\<close>), which satisfies it. Times are in milliseconds.
  The lock that makes each operation atomic is not modelled: an operation is one step.
\<close>

section \<open>The interface\<close>

text \<open>
  The operations, each with the backend's state before and after. \<open>rb_incr_and_sum\<close> takes the list
  its \<open>keys\<close> callable returns. \<open>rb_wait\<close> may raise; the others do not here: those of the in-memory backend cannot,
  and that the connection of a remote backend fails in the midst of one is left out.
\<close>

record 'b rl_backend =
  rb_add :: "string \<Rightarrow> int \<Rightarrow> int \<Rightarrow> 'b \<Rightarrow> bool \<times> 'b"
  rb_incr :: "string \<Rightarrow> int \<Rightarrow> int \<Rightarrow> int \<Rightarrow> 'b \<Rightarrow> bool \<times> 'b"
  rb_decr :: "string \<Rightarrow> int \<Rightarrow> int \<Rightarrow> int \<Rightarrow> 'b \<Rightarrow> bool \<times> 'b"
  rb_incr_and_sum :: "string \<Rightarrow> string list \<Rightarrow> int \<Rightarrow> int \<Rightarrow> int \<Rightarrow> 'b \<Rightarrow> bool \<times> 'b"
  rb_wait :: "string \<Rightarrow> int option \<Rightarrow> ('b, bool) proc"
  rb_wait_notify :: "string \<Rightarrow> int \<Rightarrow> 'b \<Rightarrow> 'b"

text \<open>The value under a key, 0 if there is none.\<close>

definition value_or_0 :: "int option \<Rightarrow> int" where
  "value_or_0 v = (case v of None \<Rightarrow> 0 | Some x \<Rightarrow> x)"

lemma value_or_0_simps [simp]: "value_or_0 None = 0" "value_or_0 (Some x) = x"
  by (simp_all add: value_or_0_def)

text \<open>
  The contract: \<open>live\<close> reads the unexpired value under a key; every operation with a positive
  time-to-live either refuses and changes nothing, or stores the new value under its key and leaves
  the other keys alone.
\<close>

locale rate_backend =
  fixes B :: "'b rl_backend" and live :: "'b \<Rightarrow> string \<Rightarrow> int option"
  assumes add_absent:
      "0 < ttl \<Longrightarrow> live b k = None \<Longrightarrow> rb_add B k v ttl b = (ok, b') \<Longrightarrow> ok \<and> live b' = (live b)(k \<mapsto> v)"
    and add_present: "live b k = Some w \<Longrightarrow> rb_add B k v ttl b = (False, b)"
    and incr_full:
      "maximum < value_or_0 (live b k) + amount \<Longrightarrow> rb_incr B k amount maximum ttl b = (False, b)"
    and incr_room:
      "0 < ttl \<Longrightarrow> value_or_0 (live b k) + amount \<le> maximum \<Longrightarrow> rb_incr B k amount maximum ttl b = (ok, b')
       \<Longrightarrow> ok \<and> live b' = (live b)(k \<mapsto> value_or_0 (live b k) + amount)"
    and decr_low:
      "value_or_0 (live b k) - amount < minimum \<Longrightarrow> rb_decr B k amount minimum ttl b = (False, b)"
    and decr_room:
      "0 < ttl \<Longrightarrow> minimum \<le> value_or_0 (live b k) - amount \<Longrightarrow> rb_decr B k amount minimum ttl b = (ok, b')
       \<Longrightarrow> ok \<and> live b' = (live b)(k \<mapsto> value_or_0 (live b k) - amount)"
    and notify_live: "live (rb_wait_notify B k ttl b) = live b"
begin

text \<open>The outcomes of each operation, for elimination.\<close>

lemma addE:
  assumes "0 < ttl" and "rb_add B k v ttl b = (ok, b')"
  obtains (added) "live b k = None" "ok" "live b' = (live b)(k \<mapsto> v)"
  | (refused) w where "live b k = Some w" "\<not> ok" "b' = b"
proof (cases "live b k")
  case None
  with add_absent [OF assms(1) None assms(2)] show ?thesis using added by blast
next
  case (Some w)
  with add_present [OF Some, of v ttl] assms(2) show ?thesis using refused by simp
qed

lemma incrE:
  assumes "0 < ttl" and "rb_incr B k amount maximum ttl b = (ok, b')"
  obtains (stored) "value_or_0 (live b k) + amount \<le> maximum" "ok"
      "live b' = (live b)(k \<mapsto> value_or_0 (live b k) + amount)"
  | (refused) "maximum < value_or_0 (live b k) + amount" "\<not> ok" "b' = b"
proof (cases "value_or_0 (live b k) + amount \<le> maximum")
  case True
  with incr_room [OF assms(1) True assms(2)] show ?thesis using stored by blast
next
  case False
  then have "maximum < value_or_0 (live b k) + amount" by simp
  with incr_full [OF this, of ttl] assms(2) show ?thesis using refused by simp
qed

lemma decrE:
  assumes "0 < ttl" and "rb_decr B k amount minimum ttl b = (ok, b')"
  obtains (stored) "minimum \<le> value_or_0 (live b k) - amount" "ok"
      "live b' = (live b)(k \<mapsto> value_or_0 (live b k) - amount)"
  | (refused) "value_or_0 (live b k) - amount < minimum" "\<not> ok" "b' = b"
proof (cases "minimum \<le> value_or_0 (live b k) - amount")
  case True
  with decr_room [OF assms(1) True assms(2)] show ?thesis using stored by blast
next
  case False
  then have "value_or_0 (live b k) - amount < minimum" by simp
  with decr_low [OF this, of ttl] assms(2) show ?thesis using refused by simp
qed

end

section \<open>The in-memory backend\<close>

text \<open>
  \<open>self.db\<close>: a value and its expiration for each key; the reading of \<open>time.monotonic()\<close> is part of
  the state and moves between operations.
\<close>

record stub_rl =
  rl_db :: "(int \<times> int) dict"
  rl_clock :: nat

definition stub_rl_empty :: "nat \<Rightarrow> stub_rl" where
  "stub_rl_empty t = \<lparr>rl_db = [], rl_clock = t\<rparr>"

text \<open>\<open>_get(key)\<close> with \<open>None\<close> as default, and \<open>_put\<close>.\<close>

definition stub_get :: "stub_rl \<Rightarrow> string \<Rightarrow> int option" where
  "stub_get b key =
     (case map_of (rl_db b) key of
        None \<Rightarrow> None
      | Some (val, expiration) \<Rightarrow>
          (if expiration \<noteq> 0 \<and> int (rl_clock b) < expiration then Some val else None))"

definition stub_put :: "string \<Rightarrow> int \<Rightarrow> int \<Rightarrow> stub_rl \<Rightarrow> bool \<times> stub_rl" where
  "stub_put key val ttl b = (True, b\<lparr>rl_db := AList.update key (val, int (rl_clock b) + ttl) (rl_db b)\<rparr>)"

definition stub_add :: "string \<Rightarrow> int \<Rightarrow> int \<Rightarrow> stub_rl \<Rightarrow> bool \<times> stub_rl" where
  "stub_add key val ttl b =
     (if stub_get b key \<noteq> None then (False, b) else stub_put key val ttl b)"

definition stub_incr :: "string \<Rightarrow> int \<Rightarrow> int \<Rightarrow> int \<Rightarrow> stub_rl \<Rightarrow> bool \<times> stub_rl" where
  "stub_incr key amount maximum ttl b =
     (let val = value_or_0 (stub_get b key) + amount
      in if val > maximum then (False, b) else stub_put key val ttl b)"

definition stub_decr :: "string \<Rightarrow> int \<Rightarrow> int \<Rightarrow> int \<Rightarrow> stub_rl \<Rightarrow> bool \<times> stub_rl" where
  "stub_decr key amount minimum ttl b =
     (let val = value_or_0 (stub_get b key) - amount
      in if val < minimum then (False, b) else stub_put key val ttl b)"

definition stub_incr_and_sum ::
  "string \<Rightarrow> string list \<Rightarrow> int \<Rightarrow> int \<Rightarrow> int \<Rightarrow> stub_rl \<Rightarrow> bool \<times> stub_rl" where
  "stub_incr_and_sum key keys amount maximum ttl b =
     (let b = snd (stub_add key 0 ttl b);
          val = value_or_0 (stub_get b key) + amount
      in if val > maximum then (False, b)
         else
           (let values = sum_list (map (\<lambda>k. value_or_0 (stub_get b k)) keys);
                total = amount + values
            in if total > maximum then (False, b) else stub_put key val ttl b))"

text \<open>
  \<open>wait\<close> computes \<open>timeout / 1000\<close> before it waits, so \<open>None\<close> is a \<open>TypeError\<close>; \<open>notified\<close> says
  whether another thread calls \<open>notify_all\<close> on the key within the timeout.
\<close>

definition stub_wait :: "(string \<Rightarrow> int \<Rightarrow> bool) \<Rightarrow> string \<Rightarrow> int option \<Rightarrow> (stub_rl, bool) proc" where
  "stub_wait notified key timeout =
     (case timeout of
        None \<Rightarrow> raise (mk_exn TypeError ''unsupported operand type(s) for /'')
      | Some t \<Rightarrow> return (notified key t))"

definition stub_wait_notify :: "string \<Rightarrow> int \<Rightarrow> stub_rl \<Rightarrow> stub_rl" where
  "stub_wait_notify key ttl b = b"

definition StubBackend :: "(string \<Rightarrow> int \<Rightarrow> bool) \<Rightarrow> stub_rl rl_backend" where
  "StubBackend notified =
     \<lparr>rb_add = stub_add, rb_incr = stub_incr, rb_decr = stub_decr,
      rb_incr_and_sum = stub_incr_and_sum, rb_wait = stub_wait notified,
      rb_wait_notify = stub_wait_notify\<rparr>"

lemma StubBackend_sel [simp]:
  "rb_add (StubBackend n) = stub_add" "rb_incr (StubBackend n) = stub_incr"
  "rb_decr (StubBackend n) = stub_decr" "rb_incr_and_sum (StubBackend n) = stub_incr_and_sum"
  "rb_wait (StubBackend n) = stub_wait n" "rb_wait_notify (StubBackend n) = stub_wait_notify"
  by (simp_all add: StubBackend_def)

lemma stub_put_get [simp]:
  "0 < ttl \<Longrightarrow> stub_get (snd (stub_put k v ttl b)) = (stub_get b)(k \<mapsto> v)"
  by (auto simp: stub_put_def stub_get_def fun_eq_iff split: option.splits)

lemma stub_put_ok [simp]: "fst (stub_put k v ttl b) = True"
  by (simp add: stub_put_def)

lemma stub_putE:
  "stub_put k v ttl b = (ok, b') \<Longrightarrow> 0 < ttl \<Longrightarrow> ok \<and> stub_get b' = (stub_get b)(k \<mapsto> v)"
  by (metis fst_conv snd_conv stub_put_get stub_put_ok)

interpretation stub_rl: rate_backend "StubBackend notified" stub_get for notified
  by unfold_locales
    (auto simp: stub_add_def stub_incr_def stub_decr_def stub_wait_notify_def Let_def
          split: if_splits dest: stub_putE)

lemma stub_clock [simp]:
  "rl_clock (snd (stub_put k v ttl b)) = rl_clock b"
  "rl_clock (snd (stub_add k v ttl b)) = rl_clock b"
  "rl_clock (snd (stub_incr k v m ttl b)) = rl_clock b"
  "rl_clock (snd (stub_decr k v m ttl b)) = rl_clock b"
  by (simp_all add: stub_put_def stub_add_def stub_incr_def stub_decr_def Let_def)

end
