(* ===== verification/Rate_Limiters.thy ===== *)
theory Rate_Limiters
  imports Rate_Backend
begin

text \<open>
  The rate limiters of \<^verbatim>\<open>dramatiq/rate_limits\<close>: the \<open>acquire\<close> context manager of
  \<^verbatim>\<open>rate_limiter.py\<close>, \<open>ConcurrentRateLimiter\<close>, \<open>BucketRateLimiter\<close>, \<open>WindowRateLimiter\<close> and
  \<open>Barrier\<close>, each over any backend, with the safety theorems proved from the backend's contract
  and instantiated on the in-memory backend.
\<close>

section \<open>The context manager\<close>

text \<open>
  \<open>with limiter.acquire(raise_on_failure) as acquired: body\<close>. The \<open>finally\<close> clause releases
  exactly when the slot was acquired, whether the body returned or raised.
\<close>

definition rate_limit_exceeded :: exn where
  "rate_limit_exceeded = mk_exn RateLimitExceeded ''rate limit exceeded''"

definition with_acquire ::
  "('s \<Rightarrow> bool \<times> 's) \<Rightarrow> ('s \<Rightarrow> 's) \<Rightarrow> bool \<Rightarrow> (bool \<Rightarrow> ('s, 'a) proc) \<Rightarrow> ('s, 'a) proc" where
  "with_acquire acquire release raise_on_failure body =
     (\<lambda>s. case acquire s of (acquired, s') \<Rightarrow>
        try_finally
          (if raise_on_failure \<and> \<not> acquired then raise rate_limit_exceeded else body acquired)
          (if acquired then modify release else return ()) s')"

section \<open>Concurrent limiter\<close>

definition concurrent_acquire ::
  "'b rl_backend \<Rightarrow> string \<Rightarrow> int \<Rightarrow> int \<Rightarrow> 'b \<Rightarrow> bool \<times> 'b" where
  "concurrent_acquire B key limit ttl b =
     (case rb_add B key 1 ttl b of
        (added, b') \<Rightarrow> (if added then (True, b') else rb_incr B key 1 limit ttl b'))"

definition concurrent_release :: "'b rl_backend \<Rightarrow> string \<Rightarrow> int \<Rightarrow> 'b \<Rightarrow> bool \<times> 'b" where
  "concurrent_release B key ttl b = rb_decr B key 1 0 ttl b"

text \<open>
  Several clients of one limiter, whose backend calls interleave. Where a client is within \<open>_acquire\<close> or
  \<open>_release\<close> follows from the answers that its calls have had: the operation itself, run on a backend that gives
  these answers and then stops, makes the next call or is done. \<open>call_progress\<close> tells which.
\<close>

datatype rl_call = Add_Call string int int | Incr_Call string int int int | Decr_Call string int int int
  | Sum_Call string "string list" int int int

record replayed =
  rp_answers :: "bool list"
  rp_pending :: "rl_call option"

definition answered :: "rl_call \<Rightarrow> replayed \<Rightarrow> bool \<times> replayed" where
  "answered c p =
     (case (rp_pending p, rp_answers p) of
        (Some _, _) \<Rightarrow> (False, p)
      | (None, []) \<Rightarrow> (False, p\<lparr>rp_pending := Some c\<rparr>)
      | (None, a # as) \<Rightarrow> (a, p\<lparr>rp_answers := as\<rparr>))"

definition replay_backend :: "replayed rl_backend" where
  "replay_backend = \<lparr>rb_add = (\<lambda>k v t. answered (Add_Call k v t)), rb_incr = (\<lambda>k a m t. answered (Incr_Call k a m t)),
     rb_decr = (\<lambda>k a m t. answered (Decr_Call k a m t)), rb_incr_and_sum = (\<lambda>k ks a m t. answered (Sum_Call k ks a m t)),
     rb_wait = (\<lambda>k t. return False), rb_wait_notify = (\<lambda>k t p. p)\<rparr>"

definition call_progress :: "(replayed \<Rightarrow> bool \<times> replayed) \<Rightarrow> bool list \<Rightarrow> rl_call + bool" where
  "call_progress operation as =
     (case operation \<lparr>rp_answers = as, rp_pending = None\<rparr> of
        (r, p) \<Rightarrow> (case rp_pending p of Some c \<Rightarrow> Inl c | None \<Rightarrow> Inr r))"

definition make_call :: "'b rl_backend \<Rightarrow> rl_call \<Rightarrow> 'b \<Rightarrow> bool \<times> 'b" where
  "make_call B c =
     (case c of
        Add_Call k v t \<Rightarrow> rb_add B k v t
      | Incr_Call k a m t \<Rightarrow> rb_incr B k a m t
      | Decr_Call k a m t \<Rightarrow> rb_decr B k a m t
      | Sum_Call k ks a m t \<Rightarrow> rb_incr_and_sum B k ks a m t)"

text \<open>
  A client outside the limiter may start to acquire, makes its calls one at a time and enters the \<open>with\<close> block if
  the outcome is true; from there it leaves by releasing. Anything else that happens to the backend
  (operations on other keys, time passing) is a step as long as the limiter's key keeps its value, that is,
  as long as its time-to-live does not run out.
\<close>

datatype limiter_client = Outside | Acquiring "bool list" | Inside | Releasing "bool list"

record 'b limiter_sys =
  ls_backend :: 'b
  ls_clients :: "nat \<Rightarrow> limiter_client"

inductive limiter_step ::
  "'b rl_backend \<Rightarrow> ('b \<Rightarrow> string \<Rightarrow> int option) \<Rightarrow> string \<Rightarrow> int \<Rightarrow> int
   \<Rightarrow> 'b limiter_sys \<Rightarrow> 'b limiter_sys \<Rightarrow> bool"
  for B live key limit ttl where
  starts: "ls_clients s i = Outside \<Longrightarrow>
     limiter_step B live key limit ttl s (s\<lparr>ls_clients := (ls_clients s)(i := Acquiring [])\<rparr>)"
| call: "ls_clients s i = Acquiring as \<Longrightarrow> call_progress (concurrent_acquire replay_backend key limit ttl) as = Inl c \<Longrightarrow>
     make_call B c (ls_backend s) = (a, b') \<Longrightarrow>
     limiter_step B live key limit ttl s (s\<lparr>ls_backend := b', ls_clients := (ls_clients s)(i := Acquiring (as @ [a]))\<rparr>)"
| enter: "ls_clients s i = Acquiring as \<Longrightarrow> call_progress (concurrent_acquire replay_backend key limit ttl) as = Inr r \<Longrightarrow>
     limiter_step B live key limit ttl s (s\<lparr>ls_clients := (ls_clients s)(i := if r then Inside else Outside)\<rparr>)"
| leave: "ls_clients s i = Inside \<Longrightarrow>
     limiter_step B live key limit ttl s (s\<lparr>ls_clients := (ls_clients s)(i := Releasing [])\<rparr>)"
| release: "ls_clients s i = Releasing as \<Longrightarrow> call_progress (concurrent_release replay_backend key ttl) as = Inl c \<Longrightarrow>
     make_call B c (ls_backend s) = (a, b') \<Longrightarrow>
     limiter_step B live key limit ttl s (s\<lparr>ls_backend := b', ls_clients := (ls_clients s)(i := Releasing (as @ [a]))\<rparr>)"
| left: "ls_clients s i = Releasing as \<Longrightarrow> call_progress (concurrent_release replay_backend key ttl) as = Inr r \<Longrightarrow>
     limiter_step B live key limit ttl s (s\<lparr>ls_clients := (ls_clients s)(i := Outside)\<rparr>)"
| elsewhere:
    "live b' key = live (ls_backend s) key \<Longrightarrow>
     limiter_step B live key limit ttl s (s\<lparr>ls_backend := b'\<rparr>)"

inductive limiter_reach ::
  "'b rl_backend \<Rightarrow> ('b \<Rightarrow> string \<Rightarrow> int option) \<Rightarrow> string \<Rightarrow> int \<Rightarrow> int \<Rightarrow> 'b limiter_sys \<Rightarrow> bool"
  for B live key limit ttl where
  start: "live b key = None \<Longrightarrow>
    limiter_reach B live key limit ttl \<lparr>ls_backend = b, ls_clients = (\<lambda>_. Outside)\<rparr>"
| step: "limiter_reach B live key limit ttl s \<Longrightarrow> limiter_step B live key limit ttl s t \<Longrightarrow>
    limiter_reach B live key limit ttl t"

lemma acquire_progress:
  "call_progress (concurrent_acquire replay_backend key limit ttl) [] = Inl (Add_Call key 1 ttl)"
  "call_progress (concurrent_acquire replay_backend key limit ttl) [True] = Inr True"
  "call_progress (concurrent_acquire replay_backend key limit ttl) [False] = Inl (Incr_Call key 1 limit ttl)"
  "call_progress (concurrent_acquire replay_backend key limit ttl) [False, a] = Inr a"
  by (simp_all add: call_progress_def concurrent_acquire_def replay_backend_def answered_def)

lemma release_progress:
  "call_progress (concurrent_release replay_backend key ttl) [] = Inl (Decr_Call key 1 0 ttl)"
  "call_progress (concurrent_release replay_backend key ttl) [a] = Inr a"
  by (simp_all add: call_progress_def concurrent_release_def replay_backend_def answered_def)

text \<open>
  Where clients can be, and who has a slot: those inside, those who have just been granted one and those who
  have not yet given theirs back. The stored number is the number of slots taken.
\<close>

definition has_slot :: "limiter_client \<Rightarrow> bool" where
  "has_slot c = (c \<in> {Inside, Releasing [], Acquiring [True], Acquiring [False, True]})"

definition client_ok :: "limiter_client \<Rightarrow> bool" where
  "client_ok c = (has_slot c \<or> c \<in> {Outside, Acquiring [], Acquiring [False], Acquiring [False, False], Releasing [True], Releasing [False]})"

definition limiter_inv ::
  "('b \<Rightarrow> string \<Rightarrow> int option) \<Rightarrow> string \<Rightarrow> int \<Rightarrow> 'b limiter_sys \<Rightarrow> bool" where
  "limiter_inv live key limit s =
     (finite {i. has_slot (ls_clients s i)} \<and> (\<forall>i. client_ok (ls_clients s i))
      \<and> value_or_0 (live (ls_backend s) key) = int (card {i. has_slot (ls_clients s i)})
      \<and> int (card {i. has_slot (ls_clients s i)}) \<le> limit)"

lemma slots_update:
  "{j. has_slot ((f(i := c)) j)} = (if has_slot c then insert i {j. has_slot (f j)} else {j. has_slot (f j)} - {i})"
  by auto

lemma client_cases:
  assumes "client_ok c"
  obtains "c = Outside" | "c = Inside" | "c = Acquiring []" | "c = Acquiring [True]" | "c = Acquiring [False]"
    | a where "c = Acquiring [False, a]" | "c = Releasing []" | a where "c = Releasing [a]"
  using assms by (auto simp: client_ok_def has_slot_def)

lemma has_slot_simps [simp]:
  "has_slot Inside" "\<not> has_slot Outside" "\<not> has_slot (Acquiring [])" "has_slot (Acquiring [a]) = a" "has_slot (Acquiring [False, a]) = a"
  "has_slot (Releasing [])" "\<not> has_slot (Releasing [a])"
  by (auto simp: has_slot_def)

lemma client_ok_simps [simp]:
  "client_ok Inside" "client_ok Outside" "client_ok (Acquiring [])" "client_ok (Acquiring [a])" "client_ok (Acquiring [False, a])"
  "client_ok (Releasing [])" "client_ok (Releasing [a])"
  by (auto simp: client_ok_def)

text \<open>A client moves without a call, or with one that takes or gives back a slot.\<close>

lemma inv_moves:
  assumes "limiter_inv live key limit s" "client_ok c" "has_slot c = has_slot (ls_clients s i)"
    and "value_or_0 (live b' key) = value_or_0 (live (ls_backend s) key)"
  shows "limiter_inv live key limit (s\<lparr>ls_backend := b', ls_clients := (ls_clients s)(i := c)\<rparr>)"
proof -
  have "{j. has_slot (((ls_clients s)(i := c)) j)} = {j. has_slot (ls_clients s j)}" using assms(3) by auto
  with assms show ?thesis by (auto simp: limiter_inv_def)
qed

lemma inv_takes:
  assumes "limiter_inv live key limit s" "client_ok c" "has_slot c" "\<not> has_slot (ls_clients s i)"
    and "value_or_0 (live b' key) = value_or_0 (live (ls_backend s) key) + 1" "value_or_0 (live b' key) \<le> limit"
  shows "limiter_inv live key limit (s\<lparr>ls_backend := b', ls_clients := (ls_clients s)(i := c)\<rparr>)"
proof -
  let ?t = "s\<lparr>ls_backend := b', ls_clients := (ls_clients s)(i := c)\<rparr>"
  have S: "{j. has_slot (ls_clients ?t j)} = insert i {j. has_slot (ls_clients s j)}"
    using slots_update [of "ls_clients s" i c] assms(3) by (simp del: fun_upd_apply)
  have "\<forall>j. client_ok (ls_clients ?t j)" "ls_backend ?t = b'" using assms(1,2) by (simp_all add: limiter_inv_def)
  then show ?thesis
    unfolding limiter_inv_def S using assms(1,4-6) by (auto simp: limiter_inv_def)
qed

lemma inv_stays:
  assumes "limiter_inv live key limit s" "client_ok c" "has_slot c = has_slot (ls_clients s i)"
  shows "limiter_inv live key limit (s\<lparr>ls_clients := (ls_clients s)(i := c)\<rparr>)"
  using inv_moves [OF assms, of "ls_backend s"] by simp

lemma inv_gives:
  assumes "limiter_inv live key limit s" "client_ok c" "\<not> has_slot c" "has_slot (ls_clients s i)"
    and "value_or_0 (live b' key) = value_or_0 (live (ls_backend s) key) - 1"
  shows "limiter_inv live key limit (s\<lparr>ls_backend := b', ls_clients := (ls_clients s)(i := c)\<rparr>)"
proof -
  let ?S = "{j. has_slot (ls_clients s j)}" and ?t = "s\<lparr>ls_backend := b', ls_clients := (ls_clients s)(i := c)\<rparr>"
  have "i \<in> ?S" "finite ?S" using assms(1,4) by (simp_all add: limiter_inv_def)
  then have "0 < card ?S" "card (?S - {i}) = card ?S - 1" by (auto simp: card_gt_0_iff)
  then have "int (card (?S - {i})) = int (card ?S) - 1" by (simp add: of_nat_diff)
  moreover have S: "{j. has_slot (ls_clients ?t j)} = ?S - {i}"
    using slots_update [of "ls_clients s" i c] assms(3) by (simp del: fun_upd_apply)
  moreover have "\<forall>j. client_ok (ls_clients ?t j)" "ls_backend ?t = b'" using assms(1,2) by (simp_all add: limiter_inv_def)
  ultimately show ?thesis
    unfolding limiter_inv_def S using assms(1,5) by (auto simp: limiter_inv_def)
qed

context rate_backend
begin

lemma limiter_step_inv:
  assumes "limiter_step B live key limit ttl s t" and inv: "limiter_inv live key limit s"
    and "1 \<le> limit" and "0 < ttl"
  shows "limiter_inv live key limit t"
  using assms(1)
proof cases
  case (starts i)
  then show ?thesis using inv_moves [OF inv, of "Acquiring []" i "ls_backend s"] by simp
next
  case (call i as c a b')
  have "client_ok (Acquiring as)" using inv call(2) unfolding limiter_inv_def by metis
  then consider "as = []" | "as = [True]" | "as = [False]" | x where "as = [False, x]" by (cases rule: client_cases) auto
  then show ?thesis
  proof cases
    case 1
    then have "rb_add B key 1 ttl (ls_backend s) = (a, b')" using call(3,4) by (auto simp: acquire_progress make_call_def)
    with \<open>0 < ttl\<close> show ?thesis
      by (rule addE) (use call(1,2) 1 inv \<open>1 \<le> limit\<close> in \<open>auto intro: inv_stays inv_takes\<close>)
  next
    case 3
    then have "rb_incr B key 1 limit ttl (ls_backend s) = (a, b')" using call(3,4) by (auto simp: acquire_progress make_call_def)
    with \<open>0 < ttl\<close> show ?thesis
      by (rule incrE) (use call(1,2) 3 inv in \<open>auto intro: inv_stays inv_takes\<close>)
  qed (use call(3) in \<open>simp_all add: acquire_progress\<close>)
next
  case (enter i as r)
  have "client_ok (Acquiring as)" using inv enter(2) unfolding limiter_inv_def by metis
  then have "has_slot (Acquiring as) = r" using enter(3) by (cases rule: client_cases) (auto simp: acquire_progress)
  then show ?thesis using inv_moves [OF inv, of "if r then Inside else Outside" i "ls_backend s"] enter(1,2) by simp
next
  case (leave i)
  then show ?thesis using inv_moves [OF inv, of "Releasing []" i "ls_backend s"] by simp
next
  case (release i as c a b')
  have "client_ok (Releasing as)" using inv release(2) unfolding limiter_inv_def by metis
  then have as: "as = []" using release(3) by (cases rule: client_cases) (auto simp: release_progress)
  then have d: "rb_decr B key 1 0 ttl (ls_backend s) = (a, b')" using release(3,4) by (auto simp: release_progress make_call_def)
  have "has_slot (ls_clients s i)" "finite {i. has_slot (ls_clients s i)}" using release(2) as inv by (simp_all add: limiter_inv_def)
  then have "0 < card {i. has_slot (ls_clients s i)}" by (auto simp: card_gt_0_iff)
  then have pos: "1 \<le> value_or_0 (live (ls_backend s) key)" using inv by (simp add: limiter_inv_def)
  from \<open>0 < ttl\<close> d show ?thesis
    by (rule decrE) (use release(1,2) as inv pos in \<open>auto intro: inv_gives inv_stays\<close>)
next
  case (left i as r)
  have "client_ok (Releasing as)" using inv left(2) unfolding limiter_inv_def by metis
  then have "\<not> has_slot (Releasing as)" using left(3) by (cases rule: client_cases) (auto simp: release_progress)
  then show ?thesis using inv_moves [OF inv, of Outside i "ls_backend s"] left(1,2) by simp
next
  case (elsewhere b')
  then show ?thesis using inv by (simp add: limiter_inv_def)
qed

lemma limiter_reach_inv:
  assumes "limiter_reach B live key limit ttl s" and "1 \<le> limit" and "0 < ttl"
  shows "limiter_inv live key limit s"
  using assms(1)
proof (induction rule: limiter_reach.induct)
  case (start b)
  then show ?case using assms(2) by (simp add: limiter_inv_def)
next
  case (step s t)
  then show ?case using limiter_step_inv assms(2,3) by blast
qed

text \<open>Undisturbed, \<open>_acquire\<close> succeeds exactly when the value is below the limit.\<close>

lemma concurrent_acquire_spec:
  assumes "0 < ttl" and "1 \<le> limit" and "concurrent_acquire B key limit ttl b = (ok, b')"
  shows "if live b key = None then ok \<and> live b' = (live b)(key \<mapsto> 1)
         else if value_or_0 (live b key) < limit
         then ok \<and> live b' = (live b)(key \<mapsto> value_or_0 (live b key) + 1)
         else \<not> ok \<and> b' = b"
proof -
  obtain ok1 b1 where a: "rb_add B key 1 ttl b = (ok1, b1)" by force
  with \<open>0 < ttl\<close> show ?thesis
  proof (rule addE)
    assume "live b key = None" "ok1" "live b1 = (live b)(key \<mapsto> 1)"
    with a assms(3) show ?thesis by (simp add: concurrent_acquire_def)
  next
    fix w assume w: "live b key = Some w" "\<not> ok1" "b1 = b"
    with a assms(3) have "rb_incr B key 1 limit ttl b = (ok, b')"
      by (simp add: concurrent_acquire_def)
    with \<open>0 < ttl\<close> show ?thesis by (rule incrE) (use w in auto)
  qed
qed

end

text \<open>
  C16. Mutual exclusion of the concurrent limiter: in every interleaving of the backend calls that \<open>_acquire\<close> and
  \<open>_release\<close> of any number of clients make, on any backend that keeps the contract of a rate limiter backend, and
  as long as the key does not expire, at most \<open>limit\<close> clients are inside at a time, and the stored number is that of
  the clients that have a slot, which includes everybody inside. The in-memory backend keeps the contract,
  and so does the Redis one, whose operations are atomic (\<open>stub_rl\<close>, \<open>quiet_redis\<close>, \<open>redis_incr_atomic\<close>); Memcached's
  does not (\<open>memcached_limiter_leaks\<close>).
\<close>

theorem concurrent_limiter_safe:
  assumes "rate_backend B live" and "limiter_reach B live key limit ttl s" and "1 \<le> limit" and "0 < ttl"
  shows "finite {i. ls_clients s i = Inside} \<and> int (card {i. ls_clients s i = Inside}) \<le> limit
    \<and> value_or_0 (live (ls_backend s) key) = int (card {i. has_slot (ls_clients s i)})
    \<and> {i. ls_clients s i = Inside} \<subseteq> {i. has_slot (ls_clients s i)}"
proof -
  have inv: "limiter_inv live key limit s" by (rule rate_backend.limiter_reach_inv [OF assms])
  have sub: "{i. ls_clients s i = Inside} \<subseteq> {i. has_slot (ls_clients s i)}" by auto
  have fin: "finite {i. has_slot (ls_clients s i)}" using inv by (simp add: limiter_inv_def)
  have "card {i. ls_clients s i = Inside} \<le> card {i. has_slot (ls_clients s i)}" by (rule card_mono [OF fin sub])
  with inv finite_subset [OF sub fin] sub show ?thesis by (simp add: limiter_inv_def)
qed

text \<open>Client 7 is inside, and client 8 was refused by \<open>add\<close>.\<close>

definition one_holder :: "stub_rl limiter_sys" where
  "one_holder = \<lparr>ls_backend = snd (stub_add ''mutex'' 1 900000 (stub_rl_empty 5)),
                 ls_clients = (\<lambda>_. Outside)(7 := Inside, 8 := Acquiring [False])\<rparr>"

theorem concurrent_limiter_safe_witness:
  "limiter_reach (StubBackend (\<lambda>_ _. False)) stub_get ''mutex'' 1 900000 one_holder
   \<and> int (card {i. ls_clients one_holder i = Inside}) \<le> 1 \<and> ls_clients one_holder 7 = Inside"
proof -
  let ?B = "StubBackend (\<lambda>_ _. False)" and ?b = "snd (stub_add ''mutex'' 1 900000 (stub_rl_empty 5))"
  let ?s = "\<lambda>b f. \<lparr>ls_backend = b, ls_clients = f\<rparr> :: stub_rl limiter_sys"
  have add: "stub_add ''mutex'' 1 900000 (stub_rl_empty 5) = (True, ?b)" "stub_add ''mutex'' 1 900000 ?b = (False, ?b)"
    by (simp_all add: stub_add_def stub_get_def stub_put_def stub_rl_empty_def)
  note step = limiter_reach.step [where B = ?B and live = stub_get and key = "''mutex''" and limit = 1 and ttl = 900000]
  have 0: "limiter_reach ?B stub_get ''mutex'' 1 900000 (?s (stub_rl_empty 5) (\<lambda>_. Outside))"
    by (rule limiter_reach.start) (simp add: stub_get_def stub_rl_empty_def)
  have 1: "limiter_reach ?B stub_get ''mutex'' 1 900000 (?s (stub_rl_empty 5) ((\<lambda>_. Outside)(7 := Acquiring [])))"
    using step [OF 0 limiter_step.starts [where i = 7]] by simp
  have 2: "limiter_reach ?B stub_get ''mutex'' 1 900000 (?s ?b ((\<lambda>_. Outside)(7 := Acquiring [True])))"
    using step [OF 1 limiter_step.call [where i = 7 and as = "[]", OF _ acquire_progress(1)]] add(1) by (simp add: make_call_def)
  have 3: "limiter_reach ?B stub_get ''mutex'' 1 900000 (?s ?b ((\<lambda>_. Outside)(7 := Inside)))"
    using step [OF 2 limiter_step.enter [where i = 7 and as = "[True]", OF _ acquire_progress(2)]] by simp
  have 4: "limiter_reach ?B stub_get ''mutex'' 1 900000 (?s ?b ((\<lambda>_. Outside)(7 := Inside, 8 := Acquiring [])))"
    using step [OF 3 limiter_step.starts [where i = 8]] by simp
  have 5: "limiter_reach ?B stub_get ''mutex'' 1 900000 one_holder"
    using step [OF 4 limiter_step.call [where i = 8 and as = "[]" and a = False and b' = ?b, OF _ acquire_progress(1)]] add(2)
    by (simp add: make_call_def one_holder_def)
  with concurrent_limiter_safe [OF stub_rl.rate_backend_axioms 5] show ?thesis by (simp add: one_holder_def)
qed

context rate_backend
begin

lemma with_concurrent_acquire:
  assumes "1 \<le> limit" and "0 < ttl" and "0 \<le> value_or_0 (live b key)"
    and body: "\<And>acquired b. live (snd (body acquired b)) key = live b key"
  shows "value_or_0 (live (snd (with_acquire (concurrent_acquire B key limit ttl)
           (\<lambda>b. snd (concurrent_release B key ttl b)) raises body b)) key) = value_or_0 (live b key)"
proof -
  obtain ok b1 where a: "concurrent_acquire B key limit ttl b = (ok, b1)" by force
  note spec = concurrent_acquire_spec [OF assms(2,1) a]
  let ?run = "if raises \<and> \<not> ok then raise rate_limit_exceeded else body ok"
  obtain r b2 where run: "?run b1 = (r, b2)" by force
  then have b2: "live b2 key = live b1 key"
    using body [of ok b1] by (auto simp: raise_def split: if_splits)
  show ?thesis
  proof (cases ok)
    case True
    with spec assms(3) have v: "value_or_0 (live b2 key) = value_or_0 (live b key) + 1"
      by (auto simp: b2 split: if_splits)
    obtain rel b3 where d: "rb_decr B key 1 0 ttl b2 = (rel, b3)" by force
    from \<open>0 < ttl\<close> d have "value_or_0 (live b3 key) = value_or_0 (live b key)"
      by (rule decrE) (use v assms(3) in auto)
    with True a run d show ?thesis
      by (simp add: with_acquire_def try_finally_def modify_def concurrent_release_def)
  next
    case False
    with spec have "b1 = b" by (auto split: if_splits)
    with False a run b2 show ?thesis
      by (auto simp: with_acquire_def try_finally_def return_def split: if_splits)
  qed
qed

lemma with_acquire_refused:
  assumes "1 \<le> limit" and "0 < ttl" and "limit \<le> value_or_0 (live b key)"
  shows "with_acquire (concurrent_acquire B key limit ttl) rel True body b = (Inl rate_limit_exceeded, b)"
proof -
  obtain ok b1 where a: "concurrent_acquire B key limit ttl b = (ok, b1)" by force
  from concurrent_acquire_spec [OF assms(2,1) a] assms(1,3) have "\<not> ok" "b1 = b"
    by (auto split: if_splits)
  with a show ?thesis
    by (simp add: with_acquire_def try_finally_def raise_def return_def)
qed

end

text \<open>
  A slot taken by \<open>with limiter.acquire()\<close> is given back on every way out of the block: the
  number stored for the limiter after the block is the number before it, whether the body returned
  or raised and whether or not the slot was acquired; and a full limiter raises
  \<open>RateLimitExceeded\<close> without running the body.
\<close>

theorem acquire_always_releases:
  assumes "1 \<le> limit" and "0 < ttl" and "0 \<le> value_or_0 (stub_get b key)"
    and "\<And>acquired b. stub_get (snd (body acquired b)) key = stub_get b key"
  shows "value_or_0 (stub_get (snd (with_acquire (concurrent_acquire (StubBackend n) key limit ttl)
           (\<lambda>b. snd (concurrent_release (StubBackend n) key ttl b)) raises body b)) key)
         = value_or_0 (stub_get b key)
    \<and> (limit \<le> value_or_0 (stub_get b key) \<longrightarrow>
        with_acquire (concurrent_acquire (StubBackend n) key limit ttl)
          (\<lambda>b. snd (concurrent_release (StubBackend n) key ttl b)) True body b
        = (Inl rate_limit_exceeded, b))"
  using stub_rl.with_concurrent_acquire [where body = body, OF assms] stub_rl.with_acquire_refused [OF assms(1,2)]
  by blast

theorem acquire_always_releases_witness:
  "value_or_0 (stub_get (snd (with_acquire (concurrent_acquire (StubBackend (\<lambda>_ _. False)) ''k'' 1 10)
      (\<lambda>b. snd (concurrent_release (StubBackend (\<lambda>_ _. False)) ''k'' 10 b)) True
      (\<lambda>_. raise (mk_exn ValueError ''boom'') :: (stub_rl, unit) proc) (stub_rl_empty 3))) ''k'') = 0"
  using acquire_always_releases [of 1 10 "stub_rl_empty 3" "''k''"
      "\<lambda>_. raise (mk_exn ValueError ''boom'') :: (stub_rl, unit) proc" "\<lambda>_ _. False" True]
  by (simp add: stub_get_def stub_rl_empty_def raise_def)

section \<open>Acquisitions over time\<close>

text \<open>
  Acquisitions made one after the other at given clock readings, with the history of their
  outcomes.
\<close>

fun timed_run :: "(nat \<Rightarrow> 'b \<Rightarrow> bool \<times> 'b) \<Rightarrow> nat list \<Rightarrow> 'b \<Rightarrow> (nat \<times> bool) list \<times> 'b" where
  "timed_run acquire [] b = ([], b)"
| "timed_run acquire (t # ts) b =
     (let (ok, b) = acquire t b; (hist, b) = timed_run acquire ts b in ((t, ok) # hist, b))"

text \<open>How many acquisitions of a history succeeded at a time whose slot \<open>f t\<close> is \<open>k\<close>.\<close>

definition granted :: "(nat \<Rightarrow> int) \<Rightarrow> (nat \<times> bool) list \<Rightarrow> int \<Rightarrow> nat" where
  "granted f hist k = length (filter (\<lambda>(t, ok). ok \<and> f t = k) hist)"

lemma timed_run_snoc:
  "timed_run acq (ts @ [t]) b =
     (let (hist, b) = timed_run acq ts b; (ok, b) = acq t b in (hist @ [(t, ok)], b))"
  by (induction ts arbitrary: b) (auto simp: Let_def split: prod.splits)

lemma granted_simps [simp]:
  "granted f [] k = 0"
  "granted f (hist @ [(t, ok)]) k = granted f hist k + (if ok \<and> f t = k then 1 else 0)"
  by (simp_all add: granted_def)

lemma timed_run_times: "timed_run acq ts b = (hist, b') \<Longrightarrow> map fst hist = ts"
  by (induction ts arbitrary: b hist) (auto simp: Let_def split: prod.splits)

lemma granted_absent: "\<forall>t \<in> fst ` set hist. f t \<noteq> k \<Longrightarrow> granted f hist k = 0"
  by (induction hist) (auto simp: granted_def)

lemma timed_run_inv:
  assumes "I [] b"
    and step: "\<And>hist b t ok b'. I hist b \<Longrightarrow> (\<forall>u \<in> fst ` set hist. u \<le> t) \<Longrightarrow>
                 acq t b = (ok, b') \<Longrightarrow> I (hist @ [(t, ok)]) b'"
    and "sorted ts" and "timed_run acq ts b = (hist, b')"
  shows "I hist b'"
  using assms(3,4)
proof (induction ts arbitrary: hist b' rule: rev_induct)
  case Nil
  with assms(1) show ?case by simp
next
  case (snoc t ts)
  obtain h b1 where h: "timed_run acq ts b = (h, b1)" by force
  obtain ok b2 where ok: "acq t b1 = (ok, b2)" by force
  from snoc.prems(2) h ok have "hist = h @ [(t, ok)]" "b' = b2" by (simp_all add: timed_run_snoc)
  moreover have "I h b1" using snoc h by (simp add: sorted_append)
  moreover have "\<forall>u \<in> fst ` set h. u \<le> t"
    using snoc.prems(1) timed_run_times [OF h] by (auto simp: sorted_append simp flip: set_map)
  ultimately show ?case using step [OF _ _ ok] by blast
qed

subsection \<open>Bucket limiter\<close>

text \<open>\<open>"%s@%d" % (key, n)\<close>.\<close>

definition numbered_key :: "string \<Rightarrow> int \<Rightarrow> string" where
  "numbered_key key n = key @ ''@'' @ int_str n"

lemma numbered_key_inj [simp]: "numbered_key key m = numbered_key key n \<longleftrightarrow> m = n"
  by (auto simp: numbered_key_def dest: int_str_inj)

text \<open>\<open>timestamp\<close> is \<open>int(time.time() * 1000)\<close>.\<close>

definition bucket_acquire ::
  "'b rl_backend \<Rightarrow> string \<Rightarrow> int \<Rightarrow> int \<Rightarrow> int \<Rightarrow> 'b \<Rightarrow> bool \<times> 'b" where
  "bucket_acquire B key limit bucket timestamp b =
     (let current_timestamp = timestamp - timestamp mod bucket;
          current_key = numbered_key key current_timestamp
      in (case rb_add B current_key 1 bucket b of
            (added, b') \<Rightarrow> (if added then (True, b') else rb_incr B current_key 1 limit bucket b')))"

text \<open>
  At clock reading \<open>t\<close> the wall clock shows \<open>t + offset\<close>.
\<close>

definition stub_bucket_at :: "string \<Rightarrow> int \<Rightarrow> int \<Rightarrow> int \<Rightarrow> nat \<Rightarrow> stub_rl \<Rightarrow> bool \<times> stub_rl" where
  "stub_bucket_at key limit bucket offset t b =
     bucket_acquire (StubBackend (\<lambda>_ _. False)) key limit bucket (int t + offset) (b\<lparr>rl_clock := t\<rparr>)"

definition bucket_inv ::
  "string \<Rightarrow> int \<Rightarrow> int \<Rightarrow> int \<Rightarrow> (nat \<times> bool) list \<Rightarrow> stub_rl \<Rightarrow> bool" where
  "bucket_inv key limit bucket offset hist b =
     (\<forall>k. let n = granted (\<lambda>t. (int t + offset) div bucket) hist k in
        int n \<le> limit
        \<and> (case map_of (rl_db b) (numbered_key key (bucket * k)) of
             None \<Rightarrow> n = 0
           | Some (v, e) \<Rightarrow> v = int n \<and> bucket * k - offset + bucket \<le> e))"

lemma bucket_slot:
  assumes "0 < (bucket :: int)"
  shows "ts - ts mod bucket = bucket * (ts div bucket)" and "ts < bucket * (ts div bucket) + bucket"
    and "bucket * (ts div bucket) \<le> ts"
  using assms pos_mod_bound [of bucket ts] pos_mod_sign [of bucket ts]
  by (simp_all add: minus_mod_eq_mult_div) (simp add: minus_mod_eq_mult_div [symmetric])+

lemma bucket_step:
  assumes inv: "bucket_inv key limit bucket offset hist b" and "0 < bucket" and "1 \<le> limit"
    and acq: "stub_bucket_at key limit bucket offset t b = (ok, b')"
  shows "bucket_inv key limit bucket offset (hist @ [(t, ok)]) b'"
proof -
  define k where "k = (int t + offset) div bucket"
  define K where "K = numbered_key key (bucket * k)"
  define n where "n = granted (\<lambda>t. (int t + offset) div bucket) hist k"
  let ?b = "b\<lparr>rl_clock := t\<rparr>"
  have slot: "int t + offset < bucket * k + bucket" "bucket * k \<le> int t + offset"
    using bucket_slot [OF \<open>0 < bucket\<close>, of "int t + offset"] by (simp_all add: k_def)
  have inv_k: "int n \<le> limit"
    "map_of (rl_db b) K = None \<Longrightarrow> n = 0"
    "\<And>v e. map_of (rl_db b) K = Some (v, e) \<Longrightarrow> v = int n \<and> bucket * k - offset + bucket \<le> e"
    using inv by (auto simp: bucket_inv_def n_def K_def Let_def split: option.splits dest: spec [of _ k])
  have live: "value_or_0 (stub_get ?b K) = int n \<and> (stub_get ?b K = None \<longrightarrow> n = 0)"
    using inv_k(2,3) slot(1) by (auto simp: stub_get_def split: option.splits)
  have acq': "concurrent_acquire (StubBackend (\<lambda>_ _. False)) K limit bucket ?b = (ok, b')"
    using acq bucket_slot(1) [OF \<open>0 < bucket\<close>, of "int t + offset"]
    by (simp add: stub_bucket_at_def bucket_acquire_def concurrent_acquire_def K_def k_def Let_def)
  have db: "(ok \<longrightarrow> int n < limit \<and> rl_db b' = AList.update K (int n + 1, int t + bucket) (rl_db b))
      \<and> (\<not> ok \<longrightarrow> rl_db b' = rl_db b)"
    using acq' live inv_k(1) \<open>1 \<le> limit\<close>
    by (auto simp: concurrent_acquire_def stub_add_def stub_incr_def stub_put_def Let_def split: if_splits)
  show ?thesis
    unfolding bucket_inv_def Let_def
  proof (intro allI conjI)
    fix j
    show "int (granted (\<lambda>t. (int t + offset) div bucket) (hist @ [(t, ok)]) j) \<le> limit"
      using inv db by (auto simp: bucket_inv_def n_def k_def Let_def)
    have other: "j \<noteq> k \<Longrightarrow> numbered_key key (bucket * j) \<noteq> K"
      using \<open>0 < bucket\<close> by (simp add: K_def)
    show "case map_of (rl_db b') (numbered_key key (bucket * j)) of
        None \<Rightarrow> granted (\<lambda>t. (int t + offset) div bucket) (hist @ [(t, ok)]) j = 0
      | Some (v, e) \<Rightarrow> v = int (granted (\<lambda>t. (int t + offset) div bucket) (hist @ [(t, ok)]) j)
                      \<and> bucket * j - offset + bucket \<le> e"
    proof (cases "ok \<and> j = k")
      case True
      with db slot show ?thesis by (simp add: K_def n_def k_def)
    next
      case False
      then have m: "map_of (rl_db b') (numbered_key key (bucket * j)) = map_of (rl_db b) (numbered_key key (bucket * j))"
        using db other by auto
      have g: "granted (\<lambda>t. (int t + offset) div bucket) (hist @ [(t, ok)]) j
          = granted (\<lambda>t. (int t + offset) div bucket) hist j"
        using False by (auto simp: k_def)
      show ?thesis unfolding m g using inv by (simp add: bucket_inv_def Let_def)
    qed
  qed
qed

text \<open>
  The bucket limiter: of any acquisitions made at any times on the in-memory backend, at most
  \<open>limit\<close> succeed in one bucket interval.
\<close>

theorem bucket_limiter_safe:
  assumes "0 < bucket" and "1 \<le> limit" and "sorted ts"
    and "timed_run (stub_bucket_at key limit bucket offset) ts (stub_rl_empty t0) = (hist, b)"
  shows "int (granted (\<lambda>t. (int t + offset) div bucket) hist k) \<le> limit"
proof -
  have "bucket_inv key limit bucket offset hist b"
    using assms(3,4)
  proof (rule timed_run_inv [where I = "bucket_inv key limit bucket offset", rotated 2])
    show "bucket_inv key limit bucket offset [] (stub_rl_empty t0)"
      using assms(2) by (simp add: bucket_inv_def stub_rl_empty_def)
  qed (rule bucket_step [OF _ assms(1,2)])
  then show ?thesis by (simp add: bucket_inv_def Let_def)
qed

theorem bucket_limiter_safe_witness:
  "fst (timed_run (stub_bucket_at ''k'' 2 1000 0) [100, 200, 300, 1000] (stub_rl_empty 0))
     = [(100, True), (200, True), (300, False), (1000, True)]
   \<and> int (granted (\<lambda>t. (int t + 0) div 1000) [(100, True), (200, True), (300, False), (1000, True)] 0) \<le> 2"
proof -
  obtain b where r: "timed_run (stub_bucket_at ''k'' 2 1000 0) [100, 200, 300, 1000] (stub_rl_empty 0)
      = ([(100, True), (200, True), (300, False), (1000, True)], b)"
    by (simp add: stub_bucket_at_def bucket_acquire_def stub_add_def stub_incr_def stub_put_def
        stub_get_def stub_rl_empty_def Let_def)
  show ?thesis
    using r bucket_limiter_safe [OF _ _ _ r, of 0] by simp
qed

subsection \<open>Window limiter\<close>

text \<open>\<open>_get_keys\<close>: one key for each of the last \<open>window\<close> seconds; \<open>now\<close> is \<open>int(time.time())\<close>.\<close>

definition window_keys :: "string \<Rightarrow> nat \<Rightarrow> int \<Rightarrow> string list" where
  "window_keys key window now = map (\<lambda>i. numbered_key key (now - int i)) [0..<window]"

text \<open>\<open>limit \<ge> 1\<close> and \<open>window \<ge> 1\<close> are asserted by the constructor; \<open>window_millis\<close> is the ttl.\<close>

definition window_acquire ::
  "'b rl_backend \<Rightarrow> string \<Rightarrow> int \<Rightarrow> nat \<Rightarrow> int \<Rightarrow> 'b \<Rightarrow> bool \<times> 'b" where
  "window_acquire B key limit window now b =
     (let keys = window_keys key window now
      in rb_incr_and_sum B (hd keys) (window_keys key window now) 1 limit (int window * 1000) b)"

definition stub_window_at :: "string \<Rightarrow> int \<Rightarrow> nat \<Rightarrow> int \<Rightarrow> nat \<Rightarrow> stub_rl \<Rightarrow> bool \<times> stub_rl" where
  "stub_window_at key limit window offset t b =
     window_acquire (StubBackend (\<lambda>_ _. False)) key limit window ((int t + offset) div 1000)
       (b\<lparr>rl_clock := t\<rparr>)"

text \<open>The second an acquisition at clock reading \<open>t\<close> falls in.\<close>

abbreviation second_of :: "int \<Rightarrow> nat \<Rightarrow> int" where
  "second_of offset t \<equiv> (int t + offset) div 1000"

text \<open>Successes in the \<open>window\<close> seconds that end with second \<open>k\<close>.\<close>

definition granted_window :: "int \<Rightarrow> nat \<Rightarrow> (nat \<times> bool) list \<Rightarrow> int \<Rightarrow> int" where
  "granted_window offset window hist k =
     (\<Sum>s \<in> {k - int window <.. k}. int (granted (second_of offset) hist s))"

definition window_db ::
  "string \<Rightarrow> nat \<Rightarrow> int \<Rightarrow> (nat \<times> bool) list \<Rightarrow> stub_rl \<Rightarrow> bool" where
  "window_db key window offset hist b =
     (\<forall>k. case map_of (rl_db b) (numbered_key key k) of
        None \<Rightarrow> granted (second_of offset) hist k = 0
      | Some (v, e) \<Rightarrow> v = int (granted (second_of offset) hist k)
                      \<and> 1000 * k - offset + int window * 1000 \<le> e)"

definition window_inv ::
  "string \<Rightarrow> int \<Rightarrow> nat \<Rightarrow> int \<Rightarrow> (nat \<times> bool) list \<Rightarrow> stub_rl \<Rightarrow> bool" where
  "window_inv key limit window offset hist b =
     (window_db key window offset hist b \<and> (\<forall>k. granted_window offset window hist k \<le> limit))"

text \<open>Every counter of the current window is still alive when it is read.\<close>

lemma window_live:
  assumes "window_db key window offset hist b" and "i < window" and "1 \<le> window"
  shows "value_or_0 (stub_get (b\<lparr>rl_clock := t\<rparr>) (numbered_key key (second_of offset t - int i)))
         = int (granted (second_of offset) hist (second_of offset t - int i))"
proof -
  define k where "k = second_of offset t - int i"
  have slot: "int t + offset < 1000 * second_of offset t + 1000"
    by (rule bucket_slot) simp
  have "second_of offset t \<le> k + int window - 1" using assms(2) by (simp add: k_def)
  with slot have alive: "int t < e" if "1000 * k - offset + int window * 1000 \<le> e" for e
    using that by linarith
  have "case map_of (rl_db b) (numbered_key key k) of
      None \<Rightarrow> granted (second_of offset) hist k = 0
    | Some (v, e) \<Rightarrow> v = int (granted (second_of offset) hist k)
                    \<and> 1000 * k - offset + int window * 1000 \<le> e"
    using assms(1) unfolding window_db_def by blast
  with alive show ?thesis
    unfolding k_def [symmetric] by (force simp: stub_get_def split: option.splits prod.splits)
qed

lemma window_db_put:
  assumes "window_db key window offset hist b" and "second_of offset t = k"
    and "rl_db b' = AList.update (numbered_key key k) (v, int t + int window * 1000) (rl_db b)"
    and "v = int (granted (second_of offset) hist' k)"
    and "\<And>j. j \<noteq> k \<Longrightarrow> granted (second_of offset) hist' j = granted (second_of offset) hist j"
  shows "window_db key window offset hist' b'"
  unfolding window_db_def
proof
  fix j
  show "case map_of (rl_db b') (numbered_key key j) of
      None \<Rightarrow> granted (second_of offset) hist' j = 0
    | Some (v, e) \<Rightarrow> v = int (granted (second_of offset) hist' j)
                    \<and> 1000 * j - offset + int window * 1000 \<le> e"
  proof (cases "j = k")
    case True
    have "1000 * k \<le> int t + offset" unfolding assms(2) [symmetric] by (rule bucket_slot) simp
    with True assms(3,4) show ?thesis by simp
  next
    case False
    have m: "map_of (rl_db b') (numbered_key key j) = map_of (rl_db b) (numbered_key key j)"
      using False assms(3) by simp
    show ?thesis unfolding assms(5) [OF False] m using assms(1) by (simp add: window_db_def)
  qed
qed

lemma granted_refused [simp]: "granted f (hist @ [(t, False)]) = granted f hist"
  by (simp add: fun_eq_iff)

lemma window_db_refused [simp]:
  "window_db key window offset (hist @ [(t, False)]) b = window_db key window offset hist b"
  unfolding window_db_def granted_refused ..

lemma window_sum:
  "sum_list (map (\<lambda>i. int (granted (second_of offset) hist (k - int i))) [0..<window])
   = granted_window offset window hist k"
proof -
  have "(\<Sum>i \<in> {..<window}. int (granted (second_of offset) hist (k - int i)))
      = granted_window offset window hist k"
    unfolding granted_window_def
    by (rule sum.reindex_bij_witness [where i = "\<lambda>s. nat (k - s)" and j = "\<lambda>i. k - int i"]) auto
  then show ?thesis
    by (simp add: sum_list_distinct_conv_sum_set atLeast0LessThan)
qed

text \<open>What one acquisition does, under the database invariant.\<close>

lemma window_acquire_outcome:
  assumes db: "window_db key window offset hist b" and "1 \<le> window"
    and acq: "stub_window_at key limit window offset t b = (ok, b')"
  shows "window_db key window offset (hist @ [(t, ok)]) b'
    \<and> (ok \<longrightarrow> granted_window offset window hist (second_of offset t) + 1 \<le> limit)"
proof -
  define k where "k = second_of offset t"
  define K where "K = numbered_key key k"
  define b0 where "b0 = b\<lparr>rl_clock := t\<rparr>"
  define b1 where "b1 = snd (stub_add K 0 (int window * 1000) b0)"
  have clock: "rl_clock b1 = t" by (simp add: b1_def b0_def)
  then have b1_clock: "b1\<lparr>rl_clock := t\<rparr> = b1" by simp
  have db1: "window_db key window offset hist b1"
  proof (cases "stub_get b0 K")
    case None
    then have "int (granted (second_of offset) hist k) = 0"
      using window_live [OF db, of 0 t] \<open>1 \<le> window\<close> by (simp add: k_def [symmetric] K_def b0_def)
    with None show ?thesis
      by (intro window_db_put [OF db k_def [symmetric], where v = 0])
        (simp_all add: b1_def b0_def K_def stub_add_def stub_put_def)
  next
    case (Some w)
    then have "rl_db b1 = rl_db b" by (simp add: b1_def b0_def stub_add_def)
    with db show ?thesis by (simp add: window_db_def)
  qed
  have reads: "value_or_0 (stub_get b1 (numbered_key key (k - int i))) = int (granted (second_of offset) hist (k - int i))"
    if "i < window" for i
    using window_live [OF db1 that \<open>1 \<le> window\<close>, of t] by (simp add: k_def b1_clock)
  have val: "value_or_0 (stub_get b1 K) = int (granted (second_of offset) hist k)"
    using reads [of 0] \<open>1 \<le> window\<close> by (simp add: K_def)
  have total: "sum_list (map (\<lambda>k. value_or_0 (stub_get b1 k)) (window_keys key window k))
      = granted_window offset window hist k"
    unfolding window_sum [symmetric] window_keys_def
    by (rule arg_cong [where f = sum_list]) (simp add: reads)
  have "hd (window_keys key window k) = K"
    using \<open>1 \<le> window\<close> by (simp add: window_keys_def K_def hd_map upt_rec)
  then have acq': "stub_incr_and_sum K (window_keys key window k) 1 limit (int window * 1000) b0 = (ok, b')"
    using acq by (simp add: stub_window_at_def window_acquire_def k_def b0_def Let_def)
  show ?thesis
  proof (cases ok)
    case False
    with acq' have "b' = b1"
      by (auto simp: stub_incr_and_sum_def b1_def stub_put_def Let_def split: if_splits)
    with db1 False show ?thesis by simp
  next
    case True
    with acq' val total have "granted_window offset window hist k + 1 \<le> limit"
      and "rl_db b' = AList.update K (int (granted (second_of offset) hist k) + 1, int t + int window * 1000) (rl_db b1)"
      by (auto simp: stub_incr_and_sum_def b1_def [symmetric] stub_put_def clock Let_def split: if_splits)
    with True show ?thesis
      using window_db_put [OF db1 k_def [symmetric], of b' "int (granted (second_of offset) hist k) + 1"
          "hist @ [(t, True)]"]
      by (simp add: K_def k_def)
  qed
qed

lemma granted_window_snoc:
  "granted_window offset window (hist @ [(t, ok)]) k
   = granted_window offset window hist k
     + (if ok \<and> second_of offset t \<in> {k - int window <.. k} then 1 else 0)"
  by (cases ok) (simp_all add: granted_window_def sum.distrib if_distrib [of int] sum.delta' cong: if_cong)

lemma granted_window_later:
  assumes "\<forall>u \<in> fst ` set hist. u \<le> t" and "second_of offset t \<le> k"
  shows "granted_window offset window hist k \<le> granted_window offset window hist (second_of offset t)"
proof -
  have "granted (second_of offset) hist s = 0" if "second_of offset t < s" for s
  proof (rule granted_absent)
    show "\<forall>u \<in> fst ` set hist. second_of offset u \<noteq> s"
    proof
      fix u assume "u \<in> fst ` set hist"
      with assms(1) have "second_of offset u \<le> second_of offset t"
        by (intro zdiv_mono1) auto
      with that show "second_of offset u \<noteq> s" by simp
    qed
  qed
  then have "granted_window offset window hist k
      = (\<Sum>s \<in> {k - int window <.. second_of offset t}. int (granted (second_of offset) hist s))"
    unfolding granted_window_def using assms(2)
    by (intro sum.mono_neutral_right) (auto simp: not_le)
  also have "\<dots> \<le> granted_window offset window hist (second_of offset t)"
    unfolding granted_window_def using assms(2) by (intro sum_mono2) auto
  finally show ?thesis .
qed

lemma window_step:
  assumes inv: "window_inv key limit window offset hist b" and le: "\<forall>u \<in> fst ` set hist. u \<le> t"
    and "1 \<le> window" and acq: "stub_window_at key limit window offset t b = (ok, b')"
  shows "window_inv key limit window offset (hist @ [(t, ok)]) b'"
proof -
  from inv have db: "window_db key window offset hist b"
    and bound: "\<And>k. granted_window offset window hist k \<le> limit"
    by (simp_all add: window_inv_def)
  note out = window_acquire_outcome [OF db \<open>1 \<le> window\<close> acq]
  have "granted_window offset window (hist @ [(t, ok)]) k \<le> limit" for k
    using out bound [of k] granted_window_later [OF le, of offset k window]
    by (auto simp: granted_window_snoc)
  with out show ?thesis by (simp add: window_inv_def)
qed



section \<open>Barrier\<close>

definition barrier_create :: "'b rl_backend \<Rightarrow> string \<Rightarrow> int \<Rightarrow> int \<Rightarrow> ('b, bool) proc" where
  "barrier_create B key ttl parties =
     (if 0 < parties then (\<lambda>b. case rb_add B key parties ttl b of (r, b') \<Rightarrow> (Inr r, b'))
      else raise (mk_exn AssertionError ''parties must be a positive integer.''))"

definition barrier_wait ::
  "'b rl_backend \<Rightarrow> string \<Rightarrow> int \<Rightarrow> bool \<Rightarrow> int option \<Rightarrow> ('b, bool) proc" where
  "barrier_wait B key ttl block timeout =
     (\<lambda>b. case rb_decr B key 1 1 ttl b of (r, b') \<Rightarrow>
        (let cleared = \<not> r; key_events = key @ ''@events'' in
         if cleared then (Inr True, rb_wait_notify B key_events ttl b')
         else if block then rb_wait B key_events timeout b'
         else (Inr False, b')))"

text \<open>
  Non-blocking waits, between which anything may happen to the backend that leaves the barrier's
  key alone (the elements of the list).
\<close>

fun barrier_waits :: "'b rl_backend \<Rightarrow> string \<Rightarrow> int \<Rightarrow> ('b \<Rightarrow> 'b) list \<Rightarrow> 'b \<Rightarrow> (exn + bool) list" where
  "barrier_waits B key ttl [] b = []"
| "barrier_waits B key ttl (f # fs) b =
     (case barrier_wait B key ttl False None (f b) of (r, b') \<Rightarrow> r # barrier_waits B key ttl fs b')"

context rate_backend
begin

lemma barrier_waits_spec:
  assumes "0 < ttl" and "\<forall>f \<in> set fs. \<forall>b. live (f b) key = live b key"
    and "value_or_0 (live b key) = int n" and "1 \<le> n"
  shows "barrier_waits B key ttl fs b = map (\<lambda>k. Inr (n \<le> Suc k)) [0..<length fs]"
  using assms(2-4)
proof (induction fs arbitrary: b n)
  case Nil
  then show ?case by simp
next
  case (Cons f fs)
  obtain r b' where d: "rb_decr B key 1 1 ttl (f b) = (r, b')" by force
  have v: "value_or_0 (live (f b) key) = int n" using Cons.prems(1,2) by simp
  have upt: "[0..<length (f # fs)] = 0 # map Suc [0..<length fs]"
    by (simp add: upt_conv_Cons map_Suc_upt del: upt_Suc)
  from \<open>0 < ttl\<close> d show ?case
  proof (rule decrE)
    assume "1 \<le> value_or_0 (live (f b) key) - 1" "r"
      "live b' = (live (f b))(key \<mapsto> value_or_0 (live (f b) key) - 1)"
    with v have n: "2 \<le> n" "value_or_0 (live b' key) = int (n - 1)" by (simp_all add: of_nat_diff)
    have "barrier_waits B key ttl fs b' = map (\<lambda>k. Inr (n - 1 \<le> Suc k)) [0..<length fs]"
      using Cons.IH [OF _ n(2)] Cons.prems(1) n(1) by simp
    with \<open>r\<close> d n(1) show ?thesis
      unfolding upt by (auto simp: barrier_wait_def Let_def)
  next
    assume "value_or_0 (live (f b) key) - 1 < 1" "\<not> r" "b' = f b"
    with v Cons.prems(3) have n: "n = 1" by simp
    have "barrier_waits B key ttl fs (rb_wait_notify B (key @ ''@events'') ttl b')
        = map (\<lambda>k. Inr (n \<le> Suc k)) [0..<length fs]"
      by (rule Cons.IH) (use Cons.prems \<open>b' = f b\<close> in \<open>auto simp: notify_live\<close>)
    with \<open>\<not> r\<close> d n show ?thesis
      unfolding upt by (auto simp: barrier_wait_def Let_def)
  qed
qed

end

text \<open>
  C19. The barrier: after \<open>create(n)\<close> on an unused key, the first \<open>n - 1\<close> calls of \<open>wait(block=False)\<close> return \<open>False\<close>, and
  the \<open>n\<close>-th and every later one returns \<open>True\<close>, whatever else happens in between as long as the key does not
  expire, on any backend that keeps the contract of a rate limiter backend. A second \<open>create\<close> is refused and
  does not reset the barrier. The default, to block, is not meant here: what a call that
  blocks returns before the last one is up to the backend's \<open>wait\<close>, and the in-memory one raises for the
  default timeout (\<open>barrier_default_wait_raises\<close>).
\<close>

theorem barrier_clears_at_last_party:
  assumes B: "rate_backend B live" and "0 < ttl" and "1 \<le> n" and "live b key = None"
    and "barrier_create B key ttl (int n) b = (Inr created, b')"
    and "\<forall>f \<in> set fs. \<forall>b. live (f b) key = live b key"
  shows "created \<and> barrier_waits B key ttl fs b' = map (\<lambda>k. Inr (n \<le> Suc k)) [0..<length fs]
    \<and> (0 < m \<longrightarrow> barrier_create B key ttl m b' = (Inr False, b'))"
proof -
  have "rb_add B key (int n) ttl b = (created, b')"
    using assms(3,5) by (auto simp: barrier_create_def split: prod.splits)
  from rate_backend.add_absent [OF B assms(2,4) this]
  have "created" and l: "live b' key = Some (int n)" by simp_all
  moreover have "barrier_waits B key ttl fs b' = map (\<lambda>k. Inr (n \<le> Suc k)) [0..<length fs]"
    by (rule rate_backend.barrier_waits_spec [OF B assms(2,6) _ assms(3)]) (simp add: l)
  ultimately show ?thesis
    using rate_backend.add_present [OF B l, of m ttl] by (simp add: barrier_create_def)
qed

theorem barrier_clears_at_last_party_witness:
  "\<exists>b. barrier_create (StubBackend (\<lambda>_ _. False)) ''b'' 30000 3 (stub_rl_empty 1) = (Inr True, b)
     \<and> barrier_waits (StubBackend (\<lambda>_ _. False)) ''b'' 30000 [id, id, id, id] b = [Inr False, Inr False, Inr True, Inr True]
     \<and> barrier_create (StubBackend (\<lambda>_ _. False)) ''b'' 30000 5 b = (Inr False, b)"
proof -
  obtain b where b: "barrier_create (StubBackend (\<lambda>_ _. False)) ''b'' 30000 (int 3) (stub_rl_empty 1) = (Inr True, b)"
    by (simp add: barrier_create_def stub_add_def stub_get_def stub_put_def stub_rl_empty_def)
  with barrier_clears_at_last_party [OF stub_rl.rate_backend_axioms _ _ _ b, of "[id, id, id, id]" 5] show ?thesis
    by (auto simp: stub_get_def stub_rl_empty_def upt_rec)
qed

text \<open>
  On the in-memory backend a blocking wait with the default timeout raises \<open>TypeError\<close> whenever
  the barrier is not yet cleared.
\<close>

theorem barrier_default_wait_raises:
  assumes "2 \<le> value_or_0 (stub_get b key)"
  shows "fst (barrier_wait (StubBackend notified) key ttl True None b)
         = Inl (mk_exn TypeError ''unsupported operand type(s) for /'')"
  using assms by (simp add: barrier_wait_def stub_decr_def stub_put_def stub_wait_def raise_def Let_def)

theorem barrier_default_wait_raises_witness:
  "fst (barrier_wait (StubBackend (\<lambda>_ _. False)) ''b'' 30000 True None
      (snd (stub_add ''b'' 2 30000 (stub_rl_empty 1))))
   = Inl (mk_exn TypeError ''unsupported operand type(s) for /'')"
  by (rule barrier_default_wait_raises)
    (simp add: stub_add_def stub_get_def stub_put_def stub_rl_empty_def)

end
