(* ===== verification/Results.thy ===== *)
theory Results
  imports Json Common
begin

text \<open>
  \<^verbatim>\<open>dramatiq/results\<close>: wrapping of results and exceptions (\<^verbatim>\<open>result.py\<close>), the \<open>ResultBackend\<close> base
  class with its polling \<open>get_result\<close> (\<^verbatim>\<open>backend.py\<close>), the in-memory backend
  (\<^verbatim>\<open>backends/stub.py\<close>) and the Redis backend's \<open>get_result\<close> over any client
  (\<^verbatim>\<open>backends/redis.py\<close>). Times are in milliseconds; \<open>hashlib.md5\<close> is an argument.
\<close>

section \<open>Wrapping\<close>

definition canary :: string where
  "canary = ''dramatiq.results.Result''"

definition wrap_result :: "pyval \<Rightarrow> pyval" where
  "wrap_result res = res"

definition wrap_exception :: "exn \<Rightarrow> pyval" where
  "wrap_exception e =
     PDict [(''__t'', PStr canary),
            (''exn'', PDict [(''type'', PStr (class_name (exn_cls e))), (''msg'', PStr (exn_str e))])]"

definition result_failure :: "string \<Rightarrow> string \<Rightarrow> exn" where
  "result_failure ty msg =
     \<lparr>exn_cls = ResultFailure, exn_message = ''actor raised '' @ ty @ '': '' @ msg,
      exn_delay = None, exn_orig = Some (ty, msg)\<rparr>"

text \<open>
  A dictionary that carries the canary raises. What \<open>wrap_exception\<close> stores there are strings; for
  a canary dictionary of another shape the failing subscription is an error as well.
\<close>

definition unwrap_result :: "pyval \<Rightarrow> exn + pyval" where
  "unwrap_result res =
     (case res of
        PDict d \<Rightarrow>
          (if dget d ''__t'' = PStr canary then
             (case map_of d ''exn'' of
                Some (PDict x) \<Rightarrow>
                  (case (map_of x ''type'', map_of x ''msg'') of
                     (Some (PStr ty), Some (PStr msg)) \<Rightarrow> Inl (result_failure ty msg)
                   | _ \<Rightarrow> Inl (mk_exn KeyError ''type''))
              | _ \<Rightarrow> Inl (mk_exn KeyError ''exn''))
           else Inr res)
      | _ \<Rightarrow> Inr res)"

text \<open>A value that \<open>unwrap_result\<close> takes for a stored exception.\<close>

definition is_canary :: "pyval \<Rightarrow> bool" where
  "is_canary v = (case v of PDict d \<Rightarrow> dget d ''__t'' = PStr canary | _ \<Rightarrow> False)"

lemma unwrap_wrap_result: "\<not> is_canary v \<Longrightarrow> unwrap_result (wrap_result v) = Inr v"
  by (auto simp: unwrap_result_def wrap_result_def is_canary_def split: pyval.splits)

lemma unwrap_wrap_exception:
  "unwrap_result (wrap_exception e) = Inl (result_failure (class_name (exn_cls e)) (exn_str e))"
  by (simp add: unwrap_result_def wrap_exception_def)

section \<open>Backends\<close>

text \<open>
  A backend: its attributes, and the operations \<open>_get\<close> (\<open>None\<close> stands for \<open>Missing\<close>) and \<open>_store\<close>
  that subclasses implement over a state \<open>'s\<close>.
\<close>

record 's result_backend =
  rs_namespace :: string
  rs_use_prefix_keys :: bool
  rs_get :: "string \<Rightarrow> ('s, pyval option) proc"
  rs_store :: "string \<Rightarrow> pyval \<Rightarrow> int \<Rightarrow> ('s, unit) proc"

definition build_message_key :: "(string \<Rightarrow> string) \<Rightarrow> 's result_backend \<Rightarrow> message \<Rightarrow> string" where
  "build_message_key md5 B m =
     (let message_key = rs_namespace B @ '':'' @ q_name (queue_name m) @ '':'' @ actor_name m
                          @ '':'' @ message_id m
      in if rs_use_prefix_keys B then message_key else md5 message_key)"

definition store_result ::
  "(string \<Rightarrow> string) \<Rightarrow> 's result_backend \<Rightarrow> message \<Rightarrow> pyval \<Rightarrow> int \<Rightarrow> ('s, unit) proc" where
  "store_result md5 B m result ttl = rs_store B (build_message_key md5 B m) (wrap_result result) ttl"

definition store_exception ::
  "(string \<Rightarrow> string) \<Rightarrow> 's result_backend \<Rightarrow> message \<Rightarrow> exn \<Rightarrow> int \<Rightarrow> ('s, unit) proc" where
  "store_exception md5 B m e ttl = rs_store B (build_message_key md5 B m) (wrap_exception e) ttl"

definition DEFAULT_TIMEOUT :: int where "DEFAULT_TIMEOUT = 10000"

definition BACKOFF_FACTOR :: int where "BACKOFF_FACTOR = 100"

text \<open>
  The polling loop of \<open>get_result\<close>. \<open>now\<close> reads \<open>time.monotonic()\<close>, \<open>sleep d\<close> is \<open>time.sleep\<close>
  together with whatever else happens meanwhile; \<open>u\<close> and \<open>w\<close> are the random draws of the backoff
  by attempt. Running out of fuel is \<^const>\<open>None\<close>.
\<close>

fun get_result_loop ::
  "nat \<Rightarrow> 's result_backend \<Rightarrow> ('s \<Rightarrow> int) \<Rightarrow> (int \<Rightarrow> 's \<Rightarrow> 's) \<Rightarrow> (nat \<Rightarrow> real) \<Rightarrow> (nat \<Rightarrow> real)
   \<Rightarrow> bool \<Rightarrow> string \<Rightarrow> int \<Rightarrow> nat \<Rightarrow> 's \<Rightarrow> ((exn + pyval) \<times> 's) option" where
  "get_result_loop 0 B now sleep u w block key end_time attempts s = None"
| "get_result_loop (Suc fuel) B now sleep u w block key end_time attempts s =
     (case rs_get B key s of
        (Inl e, s) \<Rightarrow> Some (Inl e, s)
      | (Inr None, s) \<Rightarrow>
          (if block then
             (case compute_backoff attempts BACKOFF_FACTOR True max_backoff_default max_exponent_default
                     (u attempts) (w attempts) of
                (attempts, delay) \<Rightarrow>
                  (if now s + delay > end_time then Some (Inl (mk_exn ResultTimeout ''message''), s)
                   else get_result_loop fuel B now sleep u w block key end_time attempts (sleep delay s)))
           else Some (Inl (mk_exn ResultMissing ''message''), s))
      | (Inr (Some result), s) \<Rightarrow> Some (unwrap_result result, s))"

definition get_result ::
  "nat \<Rightarrow> (string \<Rightarrow> string) \<Rightarrow> 's result_backend \<Rightarrow> ('s \<Rightarrow> int) \<Rightarrow> (int \<Rightarrow> 's \<Rightarrow> 's)
   \<Rightarrow> (nat \<Rightarrow> real) \<Rightarrow> (nat \<Rightarrow> real) \<Rightarrow> message \<Rightarrow> bool \<Rightarrow> int option \<Rightarrow> 's \<Rightarrow> ((exn + pyval) \<times> 's) option" where
  "get_result fuel md5 B now sleep u w m block timeout s =
     (let timeout = (case timeout of None \<Rightarrow> DEFAULT_TIMEOUT | Some t \<Rightarrow> t);
          end_time = now s + timeout
      in get_result_loop fuel B now sleep u w block (build_message_key md5 B m) end_time 0 s)"

text \<open>
  The key of a result names the canonical queue, the actor and the message only: a message that
  was moved to the delay or the dead-letter queue, or whose options changed, finds its result under
  the same key.
\<close>

theorem result_key_stable:
  "build_message_key md5 B (copy (\<lambda>m. m\<lparr>queue_name := dq_name (queue_name m)\<rparr>) opts m)
     = build_message_key md5 B m
   \<and> build_message_key md5 B (copy (\<lambda>m. m\<lparr>queue_name := xq_name (queue_name m)\<rparr>) opts m)
     = build_message_key md5 B m
   \<and> build_message_key md5 B (copy (\<lambda>m. m) opts m) = build_message_key md5 B m"
  by (simp add: build_message_key_def dq_name_eq xq_name_eq Let_def)

text \<open>Each poll waits at least the minimum backoff.\<close>

lemma poll_delay:
  assumes "1 \<le> u" "u \<le> 2" "1 / 2 \<le> w" "w \<le> 1"
    and "compute_backoff n BACKOFF_FACTOR True max_backoff_default max_exponent_default u w = (n', delay)"
  shows "n' = n + 1" "100 \<le> delay" "delay \<le> 2000"
proof -
  define b :: int where "b = BACKOFF_FACTOR * 2 ^ min n max_exponent_default"
  have b: "100 \<le> b" by (simp add: b_def BACKOFF_FACTOR_def)
  have j: "b \<le> py_int (of_int b * u)"
    using scaled_bounds [of b 1 u 2] assms(1,2) b by simp
  have m: "1000 \<le> py_int (of_int 2000 * w)" "py_int (of_int 2000 * w) \<le> 2000"
    using scaled_bounds [of 2000 "1 / 2" w 1] assms(3,4) by simp_all
  have "compute_backoff n BACKOFF_FACTOR True max_backoff_default max_exponent_default u w
      = (n + 1, if py_int (of_int b * u) > 2000 then py_int (of_int 2000 * w) else py_int (of_int b * u))"
    by (simp add: compute_backoff_def b_def max_backoff_default_def Let_def)
  then show "n' = n + 1" "100 \<le> delay" "delay \<le> 2000"
    using assms(5) b j m by (auto split: if_splits)
qed

lemma get_result_loop_fuel:
  assumes draws: "\<And>n. 1 \<le> u n \<and> u n \<le> 2 \<and> 1 / 2 \<le> w n \<and> w n \<le> 1"
    and sleep: "\<And>d s. 0 \<le> d \<Longrightarrow> now s + d \<le> now (sleep d s)"
    and get: "\<And>s. now s \<le> now (snd (rs_get B key s))"
    and "end_time < now s + 100 * int fuel"
  shows "\<exists>r s'. get_result_loop (Suc fuel) B now sleep u w block key end_time attempts s = Some (r, s')"
  using assms(4)
proof (induction fuel arbitrary: attempts s)
  case (0 attempts s)
  obtain r s1 where g: "rs_get B key s = (r, s1)" by force
  obtain a' delay where c: "compute_backoff attempts BACKOFF_FACTOR True max_backoff_default
      max_exponent_default (u attempts) (w attempts) = (a', delay)" by force
  have "end_time < now s1 + delay"
    using poll_delay [OF _ _ _ _ c] draws get [of s] g 0 by force
  with g c show ?case by (cases r) (auto split: option.splits)
next
  case (Suc fuel)
  obtain r s1 where g: "rs_get B key s = (r, s1)" by force
  with get [of s] have le: "now s \<le> now s1" by simp
  obtain a' delay where c: "compute_backoff attempts BACKOFF_FACTOR True max_backoff_default
      max_exponent_default (u attempts) (w attempts) = (a', delay)" by force
  have d: "100 \<le> delay" using poll_delay [OF _ _ _ _ c] draws by blast
  show ?case
  proof (cases "r = Inr None \<and> block \<and> now s1 + delay \<le> end_time")
    case False
    with g c show ?thesis by (cases r) (auto split: option.splits)
  next
    case True
    have "now s1 + delay \<le> now (sleep delay s1)" using sleep d by simp
    with Suc.prems le d have "end_time < now (sleep delay s1) + 100 * int fuel" by simp
    then obtain r' s' where "get_result_loop (Suc fuel) B now sleep u w block key end_time a'
        (sleep delay s1) = Some (r', s')" using Suc.IH by blast
    moreover have "get_result_loop (Suc (Suc fuel)) B now sleep u w block key end_time attempts s
        = get_result_loop (Suc fuel) B now sleep u w block key end_time a' (sleep delay s1)"
      unfolding get_result_loop.simps(2) [of "Suc fuel"]
      using True g c by simp
    ultimately show ?thesis by metis
  qed
qed

text \<open>
  C27. Waiting for a result ends: if time passes while the backend is polled, \<open>get_result\<close> needs no
  more polls than there are tenths of a second in the timeout (plus two) to return or raise,
  whatever the backend answers and whether or not it blocks.
\<close>

theorem get_result_terminates:
  assumes "\<And>n. 1 \<le> u n \<and> u n \<le> 2 \<and> 1 / 2 \<le> w n \<and> w n \<le> 1"
    and "\<And>d s. 0 \<le> d \<Longrightarrow> now s + d \<le> now (sleep d s)"
    and "\<And>s. now s \<le> now (snd (rs_get B (build_message_key md5 B m) s))"
  shows "\<exists>r s'. get_result (nat (timeout div 100) + 2) md5 B now sleep u w m block (Some timeout) s
                  = Some (r, s')"
proof -
  have "now s + timeout < now s + 100 * int (Suc (nat (timeout div 100)))"
    by (cases "0 \<le> timeout") auto
  note ends = get_result_loop_fuel [where now = now and u = u and w = w, OF assms(1,2,3) this]
  have fuel: "nat (timeout div 100) + 2 = Suc (Suc (nat (timeout div 100)))" by simp
  show ?thesis
    unfolding get_result_def Let_def option.case fuel by (rule ends)
qed

theorem get_result_terminates_witness:
  "\<exists>r s'. get_result (nat (500 div 100) + 2) id
       \<lparr>rs_namespace = ''ns'', rs_use_prefix_keys = True, rs_get = (\<lambda>k s. (Inr None, s)),
        rs_store = (\<lambda>k v t s. (Inr (), s))\<rparr> (\<lambda>s. s) (\<lambda>d s. s + d) (\<lambda>_. 1) (\<lambda>_. 1) sample_message True
       (Some 500) (0::int) = Some (r, s')"
  by (rule get_result_terminates) simp_all

section \<open>The in-memory backend\<close>

text \<open>
  \<open>results\<close> maps a key to the encoded result and its expiration; \<open>sr_now\<close> is the clock both
  \<open>_get\<close> and \<open>_store\<close> read. \<open>int(ttl / 1000)\<close> truncates the lifetime to whole seconds.
\<close>

record stub_results =
  sr_results :: "(string \<times> int) dict"
  sr_now :: int

definition ttl_seconds :: "int \<Rightarrow> int" where
  "ttl_seconds ttl = (if 0 \<le> ttl then ttl div 1000 else - (- ttl div 1000))"

definition stub_result_get :: "encoder \<Rightarrow> string \<Rightarrow> (stub_results, pyval option) proc" where
  "stub_result_get e key s =
     (case map_of (sr_results s) key of
        None \<Rightarrow> (Inr None, s)
      | Some (data, expiration) \<Rightarrow>
          (if sr_now s < expiration then
             (case dec e data of Inl err \<Rightarrow> (Inl err, s) | Inr v \<Rightarrow> (Inr (Some v), s))
           else (Inr None, s)))"

definition stub_result_store :: "encoder \<Rightarrow> string \<Rightarrow> pyval \<Rightarrow> int \<Rightarrow> (stub_results, unit) proc" where
  "stub_result_store e key result ttl s =
     (case enc e result of
        Inl err \<Rightarrow> (Inl err, s)
      | Inr result_data \<Rightarrow>
          (let expiration = sr_now s + 1000 * ttl_seconds ttl
           in (Inr (), s\<lparr>sr_results := AList.update key (result_data, expiration) (sr_results s)\<rparr>)))"

definition StubResults :: "encoder \<Rightarrow> string \<Rightarrow> bool \<Rightarrow> stub_results result_backend" where
  "StubResults e ns prefix_keys =
     \<lparr>rs_namespace = ns, rs_use_prefix_keys = prefix_keys,
      rs_get = stub_result_get e, rs_store = stub_result_store e\<rparr>"

definition pass :: "int \<Rightarrow> stub_results \<Rightarrow> stub_results" where
  "pass d s = s\<lparr>sr_now := sr_now s + d\<rparr>"

context message_encoder
begin

lemma stub_get_store:
  assumes "wf v" and "stub_result_store e key v ttl s = (Inr (), s')"
  shows "stub_result_get e key' (pass d s') =
    (if key' = key then (Inr (if d < 1000 * ttl_seconds ttl then Some (norm v) else None), pass d s')
     else (fst (stub_result_get e key' (pass d s)), pass d s'))"
proof -
  from assms(2) obtain data where data: "enc e v = Inr data"
    and s': "s' = s\<lparr>sr_results := AList.update key (data, sr_now s + 1000 * ttl_seconds ttl) (sr_results s)\<rparr>"
    by (auto simp: stub_result_store_def Let_def split: sum.splits)
  show ?thesis
    using roundtrip [OF assms(1) data]
    by (auto simp: stub_result_get_def s' pass_def split: option.splits sum.splits)
qed

end

text \<open>
  A stored result is what \<open>get_result\<close> returns: until the lifetime (whole seconds) is over the
  value comes back, with its tuples turned into lists; afterwards the result is missing, and the
  results stored under other keys are the same as before.
\<close>

theorem stored_result_returned:
  assumes "json_wf v" and "\<not> is_canary (listify v)"
    and "store_result md5 (StubResults JSONEncoder ns prefix_keys) m v ttl s = (Inr (), s')"
  shows "get_result (Suc n) md5 (StubResults JSONEncoder ns prefix_keys) sr_now pass u w m False timeout (pass d s')
      = Some (if d < 1000 * ttl_seconds ttl then Inr (listify v) else Inl (mk_exn ResultMissing ''message''),
              pass d s')
    \<and> (build_message_key md5 (StubResults JSONEncoder ns prefix_keys) m' \<noteq>
         build_message_key md5 (StubResults JSONEncoder ns prefix_keys) m \<longrightarrow>
       map_option fst (get_result (Suc n) md5 (StubResults JSONEncoder ns prefix_keys) sr_now pass u w m' False timeout (pass d s'))
       = map_option fst (get_result (Suc n) md5 (StubResults JSONEncoder ns prefix_keys) sr_now pass u w m' False timeout (pass d s)))"
proof -
  let ?B = "StubResults JSONEncoder ns prefix_keys"
  have st: "stub_result_store JSONEncoder (build_message_key md5 ?B m) v ttl s = (Inr (), s')"
    using assms(3) by (simp add: store_result_def StubResults_def wrap_result_def)
  note g = json.stub_get_store [OF assms(1) st]
  have get: "rs_get ?B = stub_result_get JSONEncoder" by (simp add: StubResults_def)
  have state: "snd (stub_result_get JSONEncoder k s0) = s0" for k s0
    by (auto simp: stub_result_get_def split: option.splits sum.splits)
  have unw: "unwrap_result (listify v) = Inr (listify v)"
    using unwrap_wrap_result [OF assms(2)] by (simp add: wrap_result_def)
  have "map_option fst (get_result (Suc n) md5 ?B sr_now pass u w m' False timeout (pass d s'))
       = map_option fst (get_result (Suc n) md5 ?B sr_now pass u w m' False timeout (pass d s))"
    if "build_message_key md5 ?B m' \<noteq> build_message_key md5 ?B m"
    using that by (simp add: get_result_def Let_def get g split: sum.splits option.splits prod.splits)
  moreover have "get_result (Suc n) md5 ?B sr_now pass u w m False timeout (pass d s')
      = Some (if d < 1000 * ttl_seconds ttl then Inr (listify v) else Inl (mk_exn ResultMissing ''message''),
              pass d s')"
    by (simp add: get_result_def Let_def get g unw)
  ultimately show ?thesis by blast
qed

theorem stored_result_returned_witness:
  "\<exists>s'. store_result id (StubResults JSONEncoder ''ns'' True) sample_message (PTuple [PInt 4]) 2500
          \<lparr>sr_results = [], sr_now = 0\<rparr> = (Inr (), s')
     \<and> get_result 1 id (StubResults JSONEncoder ''ns'' True) sr_now pass (\<lambda>_. 1) (\<lambda>_. 1) sample_message False None
         (pass 1999 s') = Some (Inr (PList [PInt 4]), pass 1999 s')
     \<and> get_result 1 id (StubResults JSONEncoder ''ns'' True) sr_now pass (\<lambda>_. 1) (\<lambda>_. 1) sample_message False None
         (pass 2000 s') = Some (Inl (mk_exn ResultMissing ''message''), pass 2000 s')"
proof -
  let ?B = "StubResults JSONEncoder ''ns'' True" and ?v = "PTuple [PInt 4]"
  have "\<exists>s'. store_result id ?B sample_message ?v 2500 \<lparr>sr_results = [], sr_now = 0\<rparr> = (Inr (), s')"
    by (simp add: store_result_def StubResults_def stub_result_store_def JSONEncoder_def json_dumps.simps
        wrap_result_def Let_def)
  then obtain s' where st: "store_result id ?B sample_message ?v 2500 \<lparr>sr_results = [], sr_now = 0\<rparr> = (Inr (), s')"
    by blast
  have v: "json_wf ?v" "\<not> is_canary (listify ?v)" by (simp_all add: is_canary_def)
  show ?thesis
    using st stored_result_returned [OF v st, of 0 "\<lambda>_. 1" "\<lambda>_. 1" None 1999]
      stored_result_returned [OF v st, of 0 "\<lambda>_. 1" "\<lambda>_. 1" None 2000]
    by (auto simp: ttl_seconds_def)
qed

text \<open>
  A stored exception is raised again: \<open>get_result\<close> raises \<open>ResultFailure\<close> with the class name
  and the text of the exception the actor raised, whatever they are.
\<close>

theorem stored_exception_raised:
  assumes "store_exception md5 (StubResults JSONEncoder ns prefix_keys) m e ttl s = (Inr (), s')"
    and "d < 1000 * ttl_seconds ttl"
  shows "get_result (Suc n) md5 (StubResults JSONEncoder ns prefix_keys) sr_now pass u w m block timeout (pass d s')
      = Some (Inl (result_failure (class_name (exn_cls e)) (exn_str e)), pass d s')"
proof -
  let ?B = "StubResults JSONEncoder ns prefix_keys"
  have st: "stub_result_store JSONEncoder (build_message_key md5 ?B m) (wrap_exception e) ttl s = (Inr (), s')"
    using assms(1) by (simp add: store_exception_def StubResults_def)
  have wf: "json_wf (wrap_exception e)" and same: "listify (wrap_exception e) = wrap_exception e"
    by (simp_all add: wrap_exception_def dict_wf_def)
  have get: "rs_get ?B = stub_result_get JSONEncoder" by (simp add: StubResults_def)
  show ?thesis
    using json.stub_get_store [OF wf st, of "build_message_key md5 ?B m" d] assms(2)
    by (simp add: get_result_def Let_def get same unwrap_wrap_exception)
qed

theorem stored_exception_raised_witness:
  "\<exists>s'. store_exception id (StubResults JSONEncoder ''ns'' True) sample_message (mk_exn ValueError ''bad'') 5000
          \<lparr>sr_results = [], sr_now = 0\<rparr> = (Inr (), s')
     \<and> get_result 1 id (StubResults JSONEncoder ''ns'' True) sr_now pass (\<lambda>_. 1) (\<lambda>_. 1) sample_message True None
         (pass 4999 s') = Some (Inl (result_failure ''ValueError'' ''bad''), pass 4999 s')"
proof -
  let ?B = "StubResults JSONEncoder ''ns'' True" and ?e = "mk_exn ValueError ''bad''"
  have str: "exn_str ?e = ''bad''" by (rule exn_str_examples(3))
  have "\<exists>s'. store_exception id ?B sample_message ?e 5000 \<lparr>sr_results = [], sr_now = 0\<rparr> = (Inr (), s')"
    by (simp add: store_exception_def StubResults_def stub_result_store_def JSONEncoder_def json_dumps.simps
        wrap_exception_def Let_def)
  then obtain s' where st: "store_exception id ?B sample_message ?e 5000 \<lparr>sr_results = [], sr_now = 0\<rparr> = (Inr (), s')"
    by blast
  show ?thesis
    using st stored_exception_raised [OF st, of 4999 0 "\<lambda>_. 1" "\<lambda>_. 1" True None]
    by (auto simp: ttl_seconds_def str)
qed

section \<open>Redis and Memcached\<close>

text \<open>
  The two client libraries are arguments. Redis: the commands of a pipeline run in order when it
  is executed; the encoder runs while the pipeline is built. Memcached: \<open>get\<close> and \<open>set\<close>.
\<close>

datatype redis_command = DELETE string | LPUSH string string | PEXPIRE string int

record 's redis_client =
  rc_rpoplpush :: "string \<Rightarrow> string \<Rightarrow> ('s, string option) proc"
  rc_brpoplpush :: "string \<Rightarrow> string \<Rightarrow> int \<Rightarrow> ('s, string option) proc"
  rc_lindex :: "string \<Rightarrow> int \<Rightarrow> ('s, string option) proc"
  rc_execute :: "redis_command list \<Rightarrow> ('s, unit) proc"

definition redis_store :: "'s redis_client \<Rightarrow> encoder \<Rightarrow> string \<Rightarrow> pyval \<Rightarrow> int \<Rightarrow> ('s, unit) proc" where
  "redis_store C e message_key result ttl =
     (case enc e result of
        Inl err \<Rightarrow> raise err
      | Inr data \<Rightarrow> rc_execute C [DELETE message_key, LPUSH message_key data, PEXPIRE message_key ttl])"

text \<open>\<open>RedisBackend\<close> overrides \<open>get_result\<close> and leaves the \<open>_get\<close> of the base class.\<close>

definition RedisResults :: "'s redis_client \<Rightarrow> encoder \<Rightarrow> string \<Rightarrow> bool \<Rightarrow> 's result_backend" where
  "RedisResults C e ns prefix_keys =
     \<lparr>rs_namespace = ns, rs_use_prefix_keys = prefix_keys,
      rs_get = (\<lambda>_. raise (mk_exn NotImplementedError ''_get'')), rs_store = redis_store C e\<rparr>"

definition redis_decode :: "encoder \<Rightarrow> string \<Rightarrow> ('s, pyval) proc" where
  "redis_decode e data s =
     (case dec e data of Inl err \<Rightarrow> (Inl err, s) | Inr v \<Rightarrow> (unwrap_result v, s))"

definition redis_get_result ::
  "(string \<Rightarrow> string) \<Rightarrow> 's redis_client \<Rightarrow> encoder \<Rightarrow> 's result_backend \<Rightarrow> message \<Rightarrow> bool \<Rightarrow> int option
   \<Rightarrow> ('s, pyval) proc" where
  "redis_get_result md5 C e B m block timeout =
     (let timeout = (case timeout of None \<Rightarrow> DEFAULT_TIMEOUT | Some t \<Rightarrow> t);
          message_key = build_message_key md5 B m
      in if block then
           (let timeout = ttl_seconds timeout
            in andthen (if timeout = 0 then rc_rpoplpush C message_key message_key
                        else rc_brpoplpush C message_key message_key timeout)
                 (\<lambda>data. case data of None \<Rightarrow> raise (mk_exn ResultTimeout ''message'')
                                    | Some data \<Rightarrow> redis_decode e data))
         else
           andthen (rc_lindex C message_key 0)
             (\<lambda>data. case data of None \<Rightarrow> raise (mk_exn ResultMissing ''message'')
                                | Some data \<Rightarrow> redis_decode e data))"

definition memcached_get :: "(string \<Rightarrow> ('s, string option) proc) \<Rightarrow> encoder \<Rightarrow> string \<Rightarrow> ('s, pyval option) proc" where
  "memcached_get client_get e message_key =
     andthen (client_get message_key) (\<lambda>data.
       case data of None \<Rightarrow> return None
       | Some data \<Rightarrow> (case dec e data of Inl err \<Rightarrow> raise err | Inr v \<Rightarrow> return (Some v)))"

definition memcached_store ::
  "(string \<Rightarrow> string \<Rightarrow> int \<Rightarrow> ('s, unit) proc) \<Rightarrow> encoder \<Rightarrow> string \<Rightarrow> pyval \<Rightarrow> int \<Rightarrow> ('s, unit) proc" where
  "memcached_store client_set e message_key result ttl =
     (case enc e result of Inl err \<Rightarrow> raise err
      | Inr result_data \<Rightarrow> client_set message_key result_data (ttl_seconds ttl))"

text \<open>
  The Redis backend returns what it stored through each of its three ways to read: given a
  client whose list holds the pushed value after the pipeline ran, non-blocking, blocking and
  sub-second blocking reads give the value back, and an undecodable result never reaches the
  server.
\<close>

theorem redis_result_roundtrip:
  assumes "json_wf v" and "\<not> is_canary (listify v)"
    and client: "\<And>k data s s'. rc_execute C [DELETE k, LPUSH k data, PEXPIRE k ttl] s = (Inr (), s') \<Longrightarrow>
        rc_lindex C k 0 s' = (Inr (Some data), s') \<and> rc_rpoplpush C k k s' = (Inr (Some data), s')
        \<and> (\<forall>t. rc_brpoplpush C k k t s' = (Inr (Some data), s'))"
    and "redis_store C JSONEncoder (build_message_key md5 B m) v ttl s = (Inr (), s')"
  shows "redis_get_result md5 C JSONEncoder B m block timeout s' = (Inr (listify v), s')"
proof -
  obtain data where data: "enc JSONEncoder v = Inr data"
    and ex: "rc_execute C [DELETE (build_message_key md5 B m), LPUSH (build_message_key md5 B m) data,
               PEXPIRE (build_message_key md5 B m) ttl] s = (Inr (), s')"
    using assms(4) by (auto simp: redis_store_def raise_def split: sum.splits)
  have "unwrap_result (listify v) = Inr (listify v)"
    using unwrap_wrap_result [OF assms(2)] by (simp add: wrap_result_def)
  then have "redis_decode JSONEncoder data s' = (Inr (listify v), s')"
    using json.roundtrip [OF assms(1) data] by (simp add: redis_decode_def)
  then show ?thesis
    using client [OF ex] by (simp add: redis_get_result_def Let_def andthen_def)
qed

text \<open>A client over one list per key, whose commands run at once.\<close>

definition list_client :: "(string \<Rightarrow> string list) redis_client" where
  "list_client =
     \<lparr>rc_rpoplpush = (\<lambda>k l s. (Inr (if s k = [] then None else Some (last (s k))), s)),
      rc_brpoplpush = (\<lambda>k l t s. (Inr (if s k = [] then None else Some (last (s k))), s)),
      rc_lindex = (\<lambda>k i s. (Inr (if s k = [] then None else Some (hd (s k))), s)),
      rc_execute = (\<lambda>cs s. (Inr (), fold (\<lambda>c s. case c of
         DELETE k \<Rightarrow> s(k := []) | LPUSH k d \<Rightarrow> s(k := d # s k) | PEXPIRE k t \<Rightarrow> s) cs s))\<rparr>"

theorem redis_result_roundtrip_witness:
  "\<exists>s'. redis_store list_client JSONEncoder (build_message_key id (RedisResults list_client JSONEncoder ''ns'' True) sample_message)
          (PTuple [PInt 4]) 10 (\<lambda>_. []) = (Inr (), s')
     \<and> redis_get_result id list_client JSONEncoder (RedisResults list_client JSONEncoder ''ns'' True) sample_message True
         (Some 500) s' = (Inr (PList [PInt 4]), s')"
proof -
  let ?B = "RedisResults list_client JSONEncoder ''ns'' True"
  have "\<exists>s'. redis_store list_client JSONEncoder (build_message_key id ?B sample_message)
          (PTuple [PInt 4]) 10 (\<lambda>_. []) = (Inr (), s')"
    by (simp add: redis_store_def list_client_def JSONEncoder_def json_dumps.simps)
  then obtain s' where st: "redis_store list_client JSONEncoder (build_message_key id ?B sample_message)
          (PTuple [PInt 4]) 10 (\<lambda>_. []) = (Inr (), s')" by blast
  have "redis_get_result id list_client JSONEncoder ?B sample_message True (Some 500) s'
      = (Inr (listify (PTuple [PInt 4])), s')"
    by (rule redis_result_roundtrip [OF _ _ _ st]) (auto simp: is_canary_def list_client_def)
  with st show ?thesis by auto
qed

end
