(* ===== verification/Broker.thy ===== *)
theory Broker
  imports Message Common
begin

text \<open>
  \<^verbatim>\<open>dramatiq/broker.py\<close> and the hook interface of \<^verbatim>\<open>dramatiq/middleware/middleware.py\<close>: the state
  every broker keeps, the signals it emits to its middleware, declaring actors, and the message
  proxies that workers hold. Proxies are objects shared between the worker and the middleware, so
  they live in a store and are passed by reference. Logging is left out.
\<close>

section \<open>State\<close>

record actor =
  ac_name :: string
  ac_queue :: string
  ac_priority :: int
  ac_options :: pydict

record proxy =
  px_message :: message
  px_failed :: bool
  px_exception :: "exn option"

type_synonym proxy_ref = nat

text \<open>
  \<open>Broker.__init__\<close>: actors by name, queues by name (what a queue is depends on the broker), the
  delay queues, the options actors may set and the middleware in order. \<open>br_proxies\<close> is the store of
  proxies and \<open>br_clock\<close> the time, in milliseconds.
\<close>

record ('m, 'q) broker =
  br_actors :: "actor dict"
  br_queues :: "'q dict"
  br_delay_queues :: "string list"
  br_actor_options :: "string set"
  br_middleware :: "'m list"
  br_proxies :: "proxy_ref \<Rightarrow> proxy"
  br_clock :: int

text \<open>The hooks of \<open>Middleware\<close>, with their arguments.\<close>

datatype hook =
    Before_ack proxy_ref | After_ack proxy_ref
  | Before_nack proxy_ref | After_nack proxy_ref
  | Before_declare_actor actor | After_declare_actor actor
  | Before_declare_queue string | After_declare_queue string | After_declare_delay_queue string
  | Before_enqueue message "int option" | After_enqueue message "int option"
  | Before_delay_message proxy_ref
  | Before_process_message proxy_ref
  | After_process_message proxy_ref pyval "exn option"
  | After_skip_message proxy_ref
  | After_process_boot
  | Before_worker_boot | After_worker_boot
  | Before_worker_shutdown | After_worker_shutdown
  | After_consumer_thread_boot string | Before_consumer_thread_shutdown string
  | After_worker_thread_boot nat | Before_worker_thread_shutdown nat

text \<open>
  What the broker knows of a middleware object: the classes it is an instance of, the actor options
  it allows and what each hook does. The base class does nothing in every hook.
\<close>

record ('m, 's) mw_ops =
  mw_isinstance :: "'m \<Rightarrow> string \<Rightarrow> bool"
  mw_actor_options :: "'m \<Rightarrow> string set"
  mw_run :: "'m \<Rightarrow> hook \<Rightarrow> ('s, unit) proc"

definition Middleware :: "hook \<Rightarrow> ('s, unit) proc" where
  "Middleware h = return ()"

section \<open>Signals\<close>

text \<open>The \<open>except\<close> clauses around each hook.\<close>

definition after_handler :: "exn \<Rightarrow> ('s, unit) proc" where
  "after_handler e = (if isinstance e Exception then return () else raise e)"

definition before_handler :: "exn \<Rightarrow> ('s, unit) proc" where
  "before_handler e = (if isinstance e MiddlewareError then raise e
                       else if isinstance e Exception then return () else raise e)"

definition emit_before ::
  "('m, ('m, 'q, 'a) broker_scheme) mw_ops \<Rightarrow> hook \<Rightarrow> (('m, 'q, 'a) broker_scheme, unit) proc" where
  "emit_before M signal s =
     for_each (\<lambda>middleware. try_except (mw_run M middleware signal) before_handler)
       (br_middleware s) s"

definition emit_after ::
  "('m, ('m, 'q, 'a) broker_scheme) mw_ops \<Rightarrow> hook \<Rightarrow> (('m, 'q, 'a) broker_scheme, unit) proc" where
  "emit_after M signal s =
     for_each (\<lambda>middleware. try_except (mw_run M middleware signal) after_handler)
       (rev (br_middleware s)) s"

text \<open>Where \<open>add_middleware\<close> puts a middleware: before or after the first one of a class.\<close>

fun find_index :: "('m \<Rightarrow> bool) \<Rightarrow> 'm list \<Rightarrow> nat option" where
  "find_index p [] = None"
| "find_index p (m # ms) = (if p m then Some 0 else map_option Suc (find_index p ms))"

definition insert_at :: "nat \<Rightarrow> 'm \<Rightarrow> 'm list \<Rightarrow> 'm list" where
  "insert_at i m ms = take i ms @ m # drop i ms"

definition add_middleware ::
  "('m, ('m, 'q, 'a) broker_scheme) mw_ops \<Rightarrow> 'm \<Rightarrow> string option \<Rightarrow> string option
   \<Rightarrow> (('m, 'q, 'a) broker_scheme, unit) proc" where
  "add_middleware M m before after =
     (if before \<noteq> None \<and> after \<noteq> None
      then raise (mk_exn AssertionError ''provide either 'before' or 'after', but not both'')
      else
        andthen (get_state br_middleware) (\<lambda>ms.
        andthen
          (case (before, after) of
             (None, None) \<Rightarrow> return (ms @ [m])
           | (Some b, _) \<Rightarrow>
               (case find_index (\<lambda>x. mw_isinstance M x b) ms of
                  None \<Rightarrow> raise (mk_exn ValueError ''Middleware not found'')
                | Some i \<Rightarrow> return (insert_at i m ms))
           | (None, Some a) \<Rightarrow>
               (case find_index (\<lambda>x. mw_isinstance M x a) ms of
                  None \<Rightarrow> raise (mk_exn ValueError ''Middleware not found'')
                | Some i \<Rightarrow> return (insert_at (i + 1) m ms)))
          (\<lambda>ms.
        andthen (modify (\<lambda>s. s\<lparr>br_middleware := ms,
                               br_actor_options := br_actor_options s \<union> mw_actor_options M m\<rparr>)) (\<lambda>_.
        andthen (get_state (map snd \<circ> br_actors)) (\<lambda>actors.
        andthen (for_each (\<lambda>actor. mw_run M m (After_declare_actor actor)) actors) (\<lambda>_.
        andthen (get_state (map fst \<circ> br_queues)) (\<lambda>queues.
        andthen (for_each (\<lambda>q. mw_run M m (After_declare_queue q)) queues) (\<lambda>_.
        andthen (get_state (br_delay_queues)) (\<lambda>queues.
          for_each (\<lambda>q. mw_run M m (After_declare_delay_queue q)) queues)))))))))"


section \<open>Actors\<close>

text \<open>\<open>declare_queue\<close> is the subclass's; the actor is stored under its name between the two signals.\<close>

definition declare_actor ::
  "('m, ('m, 'q, 'a) broker_scheme) mw_ops \<Rightarrow> (string \<Rightarrow> (('m, 'q, 'a) broker_scheme, unit) proc)
   \<Rightarrow> actor \<Rightarrow> (('m, 'q, 'a) broker_scheme, unit) proc" where
  "declare_actor M declare_queue actor =
     andthen (emit_before M (Before_declare_actor actor)) (\<lambda>_.
     andthen (declare_queue (ac_queue actor)) (\<lambda>_.
     andthen (modify (\<lambda>s. s\<lparr>br_actors := AList.update (ac_name actor) actor (br_actors s)\<rparr>)) (\<lambda>_.
       emit_after M (After_declare_actor actor))))"

definition get_actor :: "string \<Rightarrow> (('m, 'q, 'a) broker_scheme, actor) proc" where
  "get_actor name s =
     (case map_of (br_actors s) name of
        Some actor \<Rightarrow> (Inr actor, s)
      | None \<Rightarrow> (Inl (mk_exn ActorNotFound name), s))"

definition get_declared_actors :: "('m, 'q, 'a) broker_scheme \<Rightarrow> string set" where
  "get_declared_actors s = fst ` set (br_actors s)"

definition get_declared_queues :: "('m, 'q, 'a) broker_scheme \<Rightarrow> string set" where
  "get_declared_queues s = fst ` set (br_queues s)"

definition get_declared_delay_queues :: "('m, 'q, 'a) broker_scheme \<Rightarrow> string set" where
  "get_declared_delay_queues s = set (br_delay_queues s)"

definition get_results_backend ::
  "('m, ('m, 'q, 'a) broker_scheme) mw_ops \<Rightarrow> ('m \<Rightarrow> 'b) \<Rightarrow> (('m, 'q, 'a) broker_scheme, 'b) proc" where
  "get_results_backend M backend s =
     (case find_index (\<lambda>m. mw_isinstance M m ''Results'') (br_middleware s) of
        Some i \<Rightarrow> (Inr (backend (br_middleware s ! i)), s)
      | None \<Rightarrow> (Inl (mk_exn RuntimeError ''The broker doesn't have a results backend.''), s))"

section \<open>Message proxies\<close>

definition MessageProxy :: "message \<Rightarrow> proxy" where
  "MessageProxy m = \<lparr>px_message = m, px_failed = False, px_exception = None\<rparr>"

abbreviation proxy_at :: "('m, 'q, 'a) broker_scheme \<Rightarrow> proxy_ref \<Rightarrow> proxy" where
  "proxy_at s r \<equiv> br_proxies s r"

abbreviation message_at :: "('m, 'q, 'a) broker_scheme \<Rightarrow> proxy_ref \<Rightarrow> message" where
  "message_at s r \<equiv> px_message (br_proxies s r)"

definition update_proxy ::
  "proxy_ref \<Rightarrow> (proxy \<Rightarrow> proxy) \<Rightarrow> ('m, 'q, 'a) broker_scheme \<Rightarrow> ('m, 'q, 'a) broker_scheme" where
  "update_proxy r f s = s\<lparr>br_proxies := (br_proxies s)(r := f (br_proxies s r))\<rparr>"

definition stuff_exception :: "proxy_ref \<Rightarrow> exn \<Rightarrow> (('m, 'q, 'a) broker_scheme, unit) proc" where
  "stuff_exception r e = modify (update_proxy r (\<lambda>p. p\<lparr>px_exception := Some e\<rparr>))"

definition clear_exception :: "proxy_ref \<Rightarrow> (('m, 'q, 'a) broker_scheme, unit) proc" where
  "clear_exception r = modify (update_proxy r (\<lambda>p. p\<lparr>px_exception := None\<rparr>))"

definition fail :: "proxy_ref \<Rightarrow> (('m, 'q, 'a) broker_scheme, unit) proc" where
  "fail r = modify (update_proxy r (\<lambda>p. p\<lparr>px_failed := True\<rparr>))"

text \<open>Changing the options dictionary of a proxy's message in place.\<close>

definition update_options ::
  "proxy_ref \<Rightarrow> (pydict \<Rightarrow> pydict) \<Rightarrow> (('m, 'q, 'a) broker_scheme, unit) proc" where
  "update_options r f = modify (update_proxy r (\<lambda>p.
     p\<lparr>px_message := (px_message p)\<lparr>options := f (options (px_message p))\<rparr>\<rparr>))"

lemma update_proxy_simps [simp, hook_simps]:
  "br_actors (update_proxy r f s) = br_actors s"
  "br_queues (update_proxy r f s) = br_queues s"
  "br_delay_queues (update_proxy r f s) = br_delay_queues s"
  "br_middleware (update_proxy r f s) = br_middleware s"
  "br_clock (update_proxy r f s) = br_clock s"
  "br_actor_options (update_proxy r f s) = br_actor_options s"
  "br_proxies (update_proxy r f s) r' = (if r' = r then f (br_proxies s r) else br_proxies s r')"
  by (simp_all add: update_proxy_def)

section \<open>What emitting a signal does\<close>

text \<open>The state after each hook in turn, ignoring what the hooks raise.\<close>

definition run_all :: "('m \<Rightarrow> ('s, unit) proc) \<Rightarrow> 'm list \<Rightarrow> 's \<Rightarrow> 's" where
  "run_all run ms s = fold (\<lambda>m s. snd (run m s)) ms s"

lemma run_all_simps [simp]:
  "run_all run [] s = s" "run_all run (m # ms) s = run_all run ms (snd (run m s))"
  by (simp_all add: run_all_def)

lemma run_all_append [simp]: "run_all run (xs @ ys) s = run_all run ys (run_all run xs s)"
  by (simp add: run_all_def)

lemma after_passes:
  assumes "\<forall>e. fst (run m s) = Inl e \<longrightarrow> isinstance e Exception"
  shows "try_except (run m) after_handler s = (Inr (), snd (run m s))"
  using assms by (cases "run m s") (auto simp: proc_simps after_handler_def split: sum.splits)

lemma swallow_all:
  assumes "\<forall>m \<in> set ms. \<forall>s e. fst (run m s) = Inl e \<longrightarrow> isinstance e Exception"
  shows "for_each (\<lambda>m. try_except (run m) after_handler) ms s = (Inr (), run_all run ms s)"
  using assms
proof (induction ms arbitrary: s)
  case Nil
  then show ?case by (simp add: return_def)
next
  case (Cons m ms)
  then show ?case by (simp add: andthen_def after_passes)
qed

lemma before_passes:
  assumes "\<forall>e. fst (run m s) = Inl e \<longrightarrow> isinstance e Exception \<and> \<not> isinstance e MiddlewareError"
  shows "try_except (run m) before_handler s = (Inr (), snd (run m s))"
  using assms by (cases "run m s") (auto simp: proc_simps before_handler_def split: sum.splits)

lemma no_error:
  assumes "\<forall>m \<in> set ms. \<forall>s e. fst (run m s) = Inl e \<longrightarrow>
      isinstance e Exception \<and> \<not> isinstance e MiddlewareError"
  shows "for_each (\<lambda>m. try_except (run m) before_handler) ms s = (Inr (), run_all run ms s)"
  using assms
proof (induction ms arbitrary: s)
  case Nil
  then show ?case by (simp add: return_def)
next
  case (Cons x xs)
  then show ?case by (simp add: andthen_def before_passes)
qed

lemma no_error_silent:
  "\<forall>m \<in> set ms. \<forall>s. run m s = (Inr (), s) \<Longrightarrow> for_each (\<lambda>m. try_except (run m) h) ms s = (Inr (), s)"
  by (induction ms arbitrary: s) (simp_all add: return_def andthen_def try_except_def)

lemma emit_silent:
  assumes "\<And>m s. mw_run M m h s = (Inr (), s)"
  shows "emit_before M h s = (Inr (), s)" "emit_after M h s = (Inr (), s)"
  using no_error_silent [of _ "\<lambda>m. mw_run M m h"] assms by (simp_all add: emit_before_def emit_after_def)

lemma stop_at_error:
  assumes "\<forall>m \<in> set xs. \<forall>s e. fst (run m s) = Inl e \<longrightarrow>
      isinstance e Exception \<and> \<not> isinstance e MiddlewareError"
    and "fst (run m0 (run_all run xs s)) = Inl e0" and "isinstance e0 MiddlewareError"
  shows "for_each (\<lambda>m. try_except (run m) before_handler) (xs @ m0 # ys) s
    = (Inl e0, run_all run (xs @ [m0]) s)"
  using assms
proof (induction xs arbitrary: s)
  case Nil
  then show ?case by (cases "run m0 s") (auto simp: proc_simps before_handler_def)
next
  case (Cons x xs)
  then show ?case by (simp add: andthen_def before_passes)
qed

lemma emit_keeps:
  assumes "\<And>m. keeps I (mw_run M m signal)"
  shows "keeps I (emit_before M signal)" "keeps I (emit_after M signal)"
proof -
  have "keeps I (for_each (\<lambda>m. try_except (mw_run M m signal) before_handler) ms)"
    "keeps I (for_each (\<lambda>m. try_except (mw_run M m signal) after_handler) ms)" for ms
    by (auto intro!: keeps_for_each keeps_try_except assms simp: before_handler_def after_handler_def)
  then show "keeps I (emit_before M signal)" "keeps I (emit_after M signal)"
    by (auto simp: keeps_def emit_before_def emit_after_def)
qed

lemma emit_sound:
  assumes "\<And>m. m \<in> A \<Longrightarrow> sound I P (mw_run M m signal)" and "\<And>s. I s \<Longrightarrow> set (br_middleware s) \<subseteq> A"
  shows "sound I (\<lambda>e. P e \<and> (isinstance e MiddlewareError \<or> \<not> isinstance e Exception)) (emit_before M signal)"
    and "sound I (\<lambda>e. P e \<and> \<not> isinstance e Exception) (emit_after M signal)"
proof -
  have b: "sound I (\<lambda>e. P e \<and> (isinstance e MiddlewareError \<or> \<not> isinstance e Exception))
      (for_each (\<lambda>m. try_except (mw_run M m signal) before_handler) ms)" if "set ms \<subseteq> A" for ms
    using that by (intro sound_for_each sound_try_except [where Q = P] assms(1)) (auto simp: before_handler_def)
  have a: "sound I (\<lambda>e. P e \<and> \<not> isinstance e Exception)
      (for_each (\<lambda>m. try_except (mw_run M m signal) after_handler) ms)" if "set ms \<subseteq> A" for ms
    using that by (intro sound_for_each sound_try_except [where Q = P] assms(1)) (auto simp: after_handler_def)
  show "sound I (\<lambda>e. P e \<and> (isinstance e MiddlewareError \<or> \<not> isinstance e Exception)) (emit_before M signal)"
  proof (unfold sound_def, intro allI impI)
    fix s assume s: "I s"
    from b [OF assms(2) [OF s]] s
    show "I (snd (emit_before M signal s)) \<and> (\<forall>e. fst (emit_before M signal s) = Inl e \<longrightarrow>
        P e \<and> (isinstance e MiddlewareError \<or> \<not> isinstance e Exception))"
      by (simp add: sound_def emit_before_def)
  qed
  show "sound I (\<lambda>e. P e \<and> \<not> isinstance e Exception) (emit_after M signal)"
  proof (unfold sound_def, intro allI impI)
    fix s assume s: "I s"
    have "set (rev (br_middleware s)) \<subseteq> A" using assms(2) [OF s] by simp
    from a [OF this] s show "I (snd (emit_after M signal s)) \<and> (\<forall>e. fst (emit_after M signal s) = Inl e \<longrightarrow>
        P e \<and> \<not> isinstance e Exception)"
      by (simp add: sound_def emit_after_def)
  qed
qed

text \<open>Three middleware, of which \<open>a\<close> raises a \<open>ValueError\<close> and \<open>b\<close> skips; each hook takes a millisecond.\<close>

definition sample_mw :: "(string, (string, unit) broker) mw_ops" where
  "sample_mw = \<lparr>mw_isinstance = (\<lambda>m c. m = c), mw_actor_options = (\<lambda>m. {}),
     mw_run = (\<lambda>m h s. (if m = ''a'' then Inl (mk_exn ValueError ''bad'')
        else if m = ''b'' then Inl (mk_exn SkipMessage ''skip'') else Inr (), s\<lparr>br_clock := br_clock s + 1\<rparr>))\<rparr>"

definition blank_message :: message where
  "blank_message = \<lparr>queue_name = ''default'', actor_name = ''add'', args = [], kwargs = [], options = [],
     message_id = ''id-1'', message_timestamp = 0\<rparr>"

definition sample_broker :: "string list \<Rightarrow> (string, unit) broker" where
  "sample_broker ms = \<lparr>br_actors = [], br_queues = [], br_delay_queues = [], br_actor_options = {},
     br_middleware = ms, br_proxies = (\<lambda>_. MessageProxy blank_message), br_clock = 0\<rparr>"

lemma sample_mw_exception: "fst (mw_run sample_mw m h s) = Inl e \<Longrightarrow> isinstance e Exception"
  by (auto simp: sample_mw_def issubclass_code split: if_splits)

text \<open>
  C38. A signal after an event reaches every middleware: as long as no hook raises a
  \<open>BaseException\<close> that is no \<open>Exception\<close>, \<open>emit_after\<close> runs every hook, in the reverse of the
  order of the middleware, whatever the others raise, and itself never raises.
\<close>

theorem emit_after_runs_every_hook:
  assumes "\<And>m s e. m \<in> set (br_middleware s0) \<Longrightarrow> fst (mw_run M m signal s) = Inl e \<Longrightarrow> isinstance e Exception"
  shows "emit_after M signal s0 = (Inr (), run_all (\<lambda>m. mw_run M m signal) (rev (br_middleware s0)) s0)"
  using swallow_all [of "rev (br_middleware s0)" "\<lambda>m. mw_run M m signal" s0] assms
  by (auto simp: emit_after_def)

theorem emit_after_runs_every_hook_witness:
  "emit_after sample_mw After_process_boot (sample_broker [''a'', ''b'', ''c''])
     = (Inr (), (sample_broker [''a'', ''b'', ''c''])\<lparr>br_clock := 3\<rparr>)"
  using emit_after_runs_every_hook [where ?s0.0 = "sample_broker [''a'', ''b'', ''c'']" and M = sample_mw
      and signal = After_process_boot]
  by (simp add: sample_mw_exception) (simp add: sample_mw_def sample_broker_def)

text \<open>
  C37. A signal before an event can be vetoed only by a \<open>MiddlewareError\<close>: the first hook that raises
  one ends the signal with that exception, the middleware after it are not run, those before it
  have all run; other exceptions are ignored, and without a \<open>MiddlewareError\<close> all hooks run in order.
\<close>

theorem emit_before_veto:
  assumes "\<And>m s e. m \<in> set (br_middleware s0) \<Longrightarrow> fst (mw_run M m signal s) = Inl e \<Longrightarrow> isinstance e Exception"
    and "br_middleware s0 = xs @ ys"
    and "\<And>m s e. m \<in> set xs \<Longrightarrow> fst (mw_run M m signal s) = Inl e \<Longrightarrow> \<not> isinstance e MiddlewareError"
  shows "(ys = [] \<longrightarrow> emit_before M signal s0 = (Inr (), run_all (\<lambda>m. mw_run M m signal) xs s0))
    \<and> (\<forall>m zs e. ys = m # zs \<longrightarrow> fst (mw_run M m signal (run_all (\<lambda>m. mw_run M m signal) xs s0)) = Inl e
          \<longrightarrow> isinstance e MiddlewareError
          \<longrightarrow> emit_before M signal s0 = (Inl e, run_all (\<lambda>m. mw_run M m signal) (xs @ [m]) s0))"
proof (intro conjI impI allI)
  assume "ys = []"
  then show "emit_before M signal s0 = (Inr (), run_all (\<lambda>m. mw_run M m signal) xs s0)"
    using no_error [of xs "\<lambda>m. mw_run M m signal" s0] assms
    by (auto simp: emit_before_def)
next
  fix m zs e
  assume ys: "ys = m # zs" and e: "fst (mw_run M m signal (run_all (\<lambda>m. mw_run M m signal) xs s0)) = Inl e"
    and err: "isinstance e MiddlewareError"
  show "emit_before M signal s0 = (Inl e, run_all (\<lambda>m. mw_run M m signal) (xs @ [m]) s0)"
    using stop_at_error [of xs "\<lambda>m. mw_run M m signal" m s0 e zs] e err assms
    by (auto simp: emit_before_def ys)
qed

theorem emit_before_veto_witness:
  "emit_before sample_mw Before_worker_boot (sample_broker [''a'', ''b'', ''c''])
     = (Inl (mk_exn SkipMessage ''skip''), (sample_broker [''a'', ''b'', ''c''])\<lparr>br_clock := 2\<rparr>)"
proof -
  have a: "\<not> isinstance e MiddlewareError" if "m \<in> set [''a'']" "fst (mw_run sample_mw m Before_worker_boot s) = Inl e" for m s e
    using that by (auto simp: sample_mw_def issubclass_code)
  have split: "br_middleware (sample_broker [''a'', ''b'', ''c'']) = [''a''] @ [''b'', ''c'']"
    by (simp add: sample_broker_def)
  show ?thesis
    using emit_before_veto [where M = sample_mw and signal = Before_worker_boot, OF sample_mw_exception split a]
    by (simp add: sample_mw_def sample_broker_def issubclass_code)
qed

lemma find_index_Some:
  "find_index p ms = Some i \<Longrightarrow> i < length ms \<and> p (ms ! i) \<and> (\<forall>j < i. \<not> p (ms ! j))"
proof (induction ms arbitrary: i)
  case (Cons m ms)
  then show ?case by (auto simp: nth_Cons split: if_splits nat.splits)
qed simp

lemma find_index_None: "find_index p ms = None \<longleftrightarrow> (\<forall>m \<in> set ms. \<not> p m)"
  by (induction ms) auto

text \<open>
  A middleware added relative to another stands right next to it: before (or after) the first
  middleware of the named class, every other middleware keeping its order; if there is none of that
  class, \<open>ValueError\<close> is raised and nothing changes; giving both references is refused.
\<close>

theorem add_middleware_position:
  assumes "\<And>h. mw_run M m h = Middleware h"
  shows "fst (add_middleware M m (Some b) (Some c) s)
           = Inl (mk_exn AssertionError ''provide either 'before' or 'after', but not both'') \<and>
        ((\<forall>x \<in> set (br_middleware s). \<not> mw_isinstance M x c) \<and>
           add_middleware M m (Some c) None s = (Inl (mk_exn ValueError ''Middleware not found''), s) \<and>
           add_middleware M m None (Some c) s = (Inl (mk_exn ValueError ''Middleware not found''), s)
         \<or> (\<exists>xs x ys. br_middleware s = xs @ x # ys \<and> mw_isinstance M x c
              \<and> (\<forall>y \<in> set xs. \<not> mw_isinstance M y c)
              \<and> br_middleware (snd (add_middleware M m (Some c) None s)) = xs @ m # x # ys
              \<and> br_middleware (snd (add_middleware M m None (Some c) s)) = xs @ x # m # ys))"
proof -
  have quiet: "for_each (\<lambda>x. mw_run M m (h x)) l t = (Inr (), t)" for h l t
    using assms by (induction l) (simp_all add: Middleware_def proc_simps)
  have both: "fst (add_middleware M m (Some b) (Some c) s)
      = Inl (mk_exn AssertionError ''provide either 'before' or 'after', but not both'')"
    by (simp add: add_middleware_def raise_def)
  show ?thesis
  proof (cases "find_index (\<lambda>x. mw_isinstance M x c) (br_middleware s)")
    case None
    then have "add_middleware M m (Some c) None s = (Inl (mk_exn ValueError ''Middleware not found''), s)"
      "add_middleware M m None (Some c) s = (Inl (mk_exn ValueError ''Middleware not found''), s)"
      by (simp_all add: add_middleware_def proc_simps)
    with None both show ?thesis by (simp add: find_index_None)
  next
    case (Some i)
    let ?ms = "br_middleware s"
    from find_index_Some [OF Some]
    have i: "i < length ?ms" "mw_isinstance M (?ms ! i) c" "\<forall>y \<in> set (take i ?ms). \<not> mw_isinstance M y c"
      by (auto simp: in_set_conv_nth)
    have "br_middleware (snd (add_middleware M m (Some c) None s)) = take i ?ms @ m # drop i ?ms"
      "br_middleware (snd (add_middleware M m None (Some c) s)) = take (Suc i) ?ms @ m # drop (Suc i) ?ms"
      using Some by (simp_all add: add_middleware_def proc_simps quiet insert_at_def)
    moreover have "drop i ?ms = ?ms ! i # drop (Suc i) ?ms" "take (Suc i) ?ms = take i ?ms @ [?ms ! i]"
      using i(1) by (simp_all add: Cons_nth_drop_Suc take_Suc_conv_app_nth)
    ultimately show ?thesis
      using i by (intro conjI [OF both] disjI2) (metis append.assoc append_Cons append_Nil append_take_drop_id)
  qed
qed

theorem add_middleware_position_witness:
  "br_middleware (snd (add_middleware (sample_mw\<lparr>mw_run := (\<lambda>m. Middleware)\<rparr>) ''x'' (Some ''b'') None
      (sample_broker [''a'', ''b'', ''c'']))) = [''a'', ''x'', ''b'', ''c'']"
proof -
  have ms: "br_middleware (sample_broker [''a'', ''b'', ''c'']) = [''a'', ''b'', ''c'']"
    by (simp add: sample_broker_def)
  show ?thesis
    using add_middleware_position [where M = "sample_mw\<lparr>mw_run := (\<lambda>m. Middleware)\<rparr>"
        and s = "sample_broker [''a'', ''b'', ''c'']" and c = "''b''" and m = "''x''"]
    unfolding ms by (auto simp: sample_mw_def Cons_eq_append_conv)
qed

end
