(* ===== verification/Actor.thy ===== *)
theory Actor
  imports Broker
begin

text \<open>
  \<^verbatim>\<open>dramatiq/actor.py\<close>: valid queue names, building and sending messages, constructing an actor and
  the \<open>actor\<close> decorator with the variables its closure keeps. The function an actor wraps is known
  by its name only; whether an option value is an \<open>Actor\<close> object is asked of an argument.
\<close>

section \<open>Queue names\<close>

text \<open>\<open>[a-zA-Z_][a-zA-Z0-9._-]*\<close> and \<open>fullmatch\<close>.\<close>

definition is_letter :: "char \<Rightarrow> bool" where
  "is_letter c = (let n = of_char c :: nat in 65 \<le> n \<and> n \<le> 90 \<or> 97 \<le> n \<and> n \<le> 122)"

definition queue_name_head :: "char \<Rightarrow> bool" where
  "queue_name_head c = (is_letter c \<or> c = CHR ''_'')"

definition queue_name_tail :: "char \<Rightarrow> bool" where
  "queue_name_tail c = (is_letter c \<or> is_digit c \<or> c = CHR ''.'' \<or> c = CHR ''_'' \<or> c = CHR ''-'')"

fun queue_name_re :: "string \<Rightarrow> bool" where
  "queue_name_re [] = False"
| "queue_name_re (c # cs) = (queue_name_head c \<and> list_all queue_name_tail cs)"

lemma queue_name_re_append:
  "queue_name_re n \<Longrightarrow> list_all queue_name_tail t \<Longrightarrow> queue_name_re (n @ t)"
  by (cases n) auto

lemma queue_name_re_prefix: "queue_name_re (n @ t) \<Longrightarrow> n \<noteq> [] \<Longrightarrow> queue_name_re n"
  by (cases n) auto

lemma suffix_chars: "list_all queue_name_tail dq_suffix" "list_all queue_name_tail xq_suffix"
  by (simp_all add: queue_name_tail_def is_letter_def Let_def)

section \<open>Messages\<close>

text \<open>The loop of \<open>message_with_options\<close> over \<open>on_failure\<close> and \<open>on_success\<close>.\<close>

definition resolve_callback :: "(pyval \<Rightarrow> string option) \<Rightarrow> string \<Rightarrow> pydict \<Rightarrow> exn + pydict" where
  "resolve_callback actor_of name opts =
     (let callback = dget opts name
      in case actor_of callback of
           Some n \<Rightarrow> Inr (AList.update name (PStr n) opts)
         | None \<Rightarrow>
             (case callback of
                PNone \<Rightarrow> Inr opts
              | PStr _ \<Rightarrow> Inr opts
              | _ \<Rightarrow> Inl (mk_exn TypeError (name @ '' value must be an Actor''))))"

text \<open>\<open>mid\<close> and \<open>now\<close> are the defaults of the message's identifier and timestamp.\<close>

definition message_with_options ::
  "(pyval \<Rightarrow> string option) \<Rightarrow> string \<Rightarrow> int \<Rightarrow> actor \<Rightarrow> pyval list \<Rightarrow> pydict \<Rightarrow> pydict \<Rightarrow> exn + message" where
  "message_with_options actor_of mid now actor xs kws opts =
     (case resolve_callback actor_of ''on_failure'' opts of
        Inl e \<Rightarrow> Inl e
      | Inr opts \<Rightarrow>
          (case resolve_callback actor_of ''on_success'' opts of
             Inl e \<Rightarrow> Inl e
           | Inr opts \<Rightarrow>
               Inr \<lparr>queue_name = ac_queue actor, actor_name = ac_name actor, args = xs, kwargs = kws,
                    options = opts, message_id = mid, message_timestamp = now\<rparr>))"

text \<open>A delay is a number of milliseconds, or a \<open>timedelta\<close>, given here in microseconds.\<close>

datatype delay = Millis int | Timedelta int

definition delay_millis :: "delay \<Rightarrow> int" where
  "delay_millis d = (case d of Millis i \<Rightarrow> i
     | Timedelta us \<Rightarrow> if 0 \<le> us then us div 1000 else - (- us div 1000))"

definition send_with_options ::
  "(pyval \<Rightarrow> string option) \<Rightarrow> string \<Rightarrow> (message \<Rightarrow> int option \<Rightarrow> (('m, 'q, 'a) broker_scheme, message) proc)
   \<Rightarrow> actor \<Rightarrow> pyval list \<Rightarrow> pydict \<Rightarrow> delay option \<Rightarrow> pydict \<Rightarrow> (('m, 'q, 'a) broker_scheme, message) proc" where
  "send_with_options actor_of mid enqueue actor xs kws delay opts s =
     (case message_with_options actor_of mid (br_clock s) actor xs kws opts of
        Inl e \<Rightarrow> (Inl e, s)
      | Inr message \<Rightarrow> enqueue message (map_option delay_millis delay) s)"

definition send ::
  "(pyval \<Rightarrow> string option) \<Rightarrow> string \<Rightarrow> (message \<Rightarrow> int option \<Rightarrow> (('m, 'q, 'a) broker_scheme, message) proc)
   \<Rightarrow> actor \<Rightarrow> pyval list \<Rightarrow> (('m, 'q, 'a) broker_scheme, message) proc" where
  "send actor_of mid enqueue actor xs = send_with_options actor_of mid enqueue actor xs [] None []"

section \<open>Declaring\<close>

text \<open>\<open>Actor.__init__\<close>: a name is taken only once.\<close>

definition Actor ::
  "('m, ('m, 'q, 'a) broker_scheme) mw_ops \<Rightarrow> (string \<Rightarrow> (('m, 'q, 'a) broker_scheme, unit) proc)
   \<Rightarrow> string \<Rightarrow> string \<Rightarrow> int \<Rightarrow> pydict \<Rightarrow> (('m, 'q, 'a) broker_scheme, actor) proc" where
  "Actor M declare_queue name queue priority opts s =
     (if map_of (br_actors s) name \<noteq> None
      then (Inl (mk_exn ValueError (''An actor named '' @ name @ '' is already registered.'')), s)
      else
        (let actor = \<lparr>ac_name = name, ac_queue = queue, ac_priority = priority, ac_options = opts\<rparr>
         in andthen (declare_actor M declare_queue actor) (\<lambda>_. return actor) s))"

text \<open>
  The function \<open>decorator\<close> inside \<open>actor\<close>. \<open>actor_name\<close> is a \<open>nonlocal\<close> variable: its value after the
  call is part of the result.
\<close>

definition decorator ::
  "('m, ('m, 'q, 'a) broker_scheme) mw_ops \<Rightarrow> (string \<Rightarrow> (('m, 'q, 'a) broker_scheme, unit) proc)
   \<Rightarrow> string \<Rightarrow> int \<Rightarrow> pydict \<Rightarrow> string option \<Rightarrow> string \<Rightarrow> ('m, 'q, 'a) broker_scheme
   \<Rightarrow> string option \<times> (exn + actor) \<times> ('m, 'q, 'a) broker_scheme" where
  "decorator M declare_queue queue priority opts nonlocal_name fn_name s =
     (let name = (case nonlocal_name of None \<Rightarrow> fn_name | Some n \<Rightarrow> if n = [] then fn_name else n)
      in (Some name,
          if \<not> queue_name_re queue
          then (Inl (mk_exn ValueError ''Queue names must start with a letter or an underscore''), s)
          else if \<not> fst ` set opts \<subseteq> br_actor_options s
          then (Inl (mk_exn ValueError ''The following actor options are undefined''), s)
          else Actor M declare_queue name queue priority opts s))"

text \<open>Declaring runs code of the queue and the hooks; they leave the actors alone.\<close>

definition keeps_actors :: "(('m, 'q, 'a) broker_scheme, 'r) proc \<Rightarrow> bool" where
  "keeps_actors p = (\<forall>s. br_actors (snd (p s)) = br_actors s)"

lemma keeps_actors_iff: "keeps_actors p \<longleftrightarrow> (\<forall>X. keeps (\<lambda>s. br_actors s = X) p)"
  by (auto simp: keeps_actors_def keeps_def)

lemma emit_keeps_actors:
  assumes "\<And>m h. keeps_actors (mw_run M m h)"
  shows "keeps_actors (emit_before M signal)" "keeps_actors (emit_after M signal)"
  using assms by (simp_all add: keeps_actors_iff emit_keeps)

text \<open>
  Declaring an actor registers it or nothing: when the decorator returns, the queue name and
  every option are valid, the name was free and now finds the actor with the given queue, priority
  and options, every other actor being kept; when it raises, no actor was replaced, and a name
  that was taken is always refused.
\<close>

theorem decorator_registers:
  assumes "\<And>m h. keeps_actors (mw_run M m h)" and "\<And>q. keeps_actors (declare_queue q)"
    and "decorator M declare_queue queue priority opts nl fn_name s = (nl', r, s')"
  shows "case r of
      Inr actor \<Rightarrow> queue_name_re queue \<and> fst ` set opts \<subseteq> br_actor_options s
        \<and> nl' = Some (ac_name actor) \<and> map_of (br_actors s) (ac_name actor) = None
        \<and> actor = \<lparr>ac_name = ac_name actor, ac_queue = queue, ac_priority = priority, ac_options = opts\<rparr>
        \<and> map_of (br_actors s') = (map_of (br_actors s))(ac_name actor \<mapsto> actor)
    | Inl e \<Rightarrow> (\<forall>n a. map_of (br_actors s) n = Some a \<longrightarrow> map_of (br_actors s') n = Some a)"
proof -
  define name where "name = (case nl of None \<Rightarrow> fn_name | Some n \<Rightarrow> if n = [] then fn_name else n)"
  let ?a = "\<lparr>ac_name = name, ac_queue = queue, ac_priority = priority, ac_options = opts\<rparr>"
  note emit = emit_keeps_actors [OF assms(1)]
  show ?thesis
  proof (cases "queue_name_re queue \<and> fst ` set opts \<subseteq> br_actor_options s \<and> map_of (br_actors s) name = None")
    case False
    then have "s' = s" and "\<exists>e. r = Inl e"
      using assms(3) by (auto simp: decorator_def Let_def Actor_def name_def [symmetric] split: if_splits)
    then show ?thesis by auto
  next
    case True
    then have r: "andthen (declare_actor M declare_queue ?a) (\<lambda>_. return ?a) s = (r, s')" and nl: "nl' = Some name"
      using assms(3) by (auto simp: decorator_def Let_def Actor_def name_def [symmetric])
    obtain r1 s1 where 1: "emit_before M (Before_declare_actor ?a) s = (r1, s1)" by force
    obtain r2 s2 where 2: "declare_queue queue s1 = (r2, s2)" by force
    let ?s3 = "s2\<lparr>br_actors := AList.update name ?a (br_actors s2)\<rparr>"
    obtain r4 s4 where 4: "emit_after M (After_declare_actor ?a) ?s3 = (r4, s4)" by force
    have "br_actors s1 = br_actors s" "br_actors s2 = br_actors s1"
      "br_actors s4 = AList.update name ?a (br_actors s2)"
      using emit assms(2) 1 2 4 by (simp_all add: keeps_actors_def) (metis broker.select_convs(1) broker.surjective broker.update_convs(1) snd_conv)+
    then show ?thesis
      using r nl True 1 2 4 by (auto simp: declare_actor_def proc_simps fun_eq_iff split: sum.splits)
  qed
qed

lemma sample_keeps_actors: "keeps_actors (mw_run sample_mw m h)" "keeps_actors (\<lambda>s. (r, s))"
  by (simp_all add: keeps_actors_def sample_mw_def)

theorem decorator_registers_witness:
  "\<exists>s'. decorator sample_mw (\<lambda>q. return ()) ''default'' 0 [] None ''add'' (sample_broker [])
      = (Some ''add'', Inr \<lparr>ac_name = ''add'', ac_queue = ''default'', ac_priority = 0, ac_options = []\<rparr>, s')
    \<and> map_of (br_actors s') ''add''
      = Some \<lparr>ac_name = ''add'', ac_queue = ''default'', ac_priority = 0, ac_options = []\<rparr>"
proof -
  let ?a = "\<lparr>ac_name = ''add'', ac_queue = ''default'', ac_priority = 0, ac_options = []\<rparr>"
  let ?p = "decorator sample_mw (\<lambda>q. return ()) ''default'' 0 [] None ''add'' (sample_broker [])"
  have c: "queue_name_re ''default''" by code_simp
  have "\<exists>s'. ?p = (Some ''add'', Inr ?a, s')"
    by (simp add: decorator_def Let_def Actor_def declare_actor_def emit_before_def emit_after_def
        sample_broker_def proc_simps c del: queue_name_re.simps)
  then obtain s' where p: "?p = (Some ''add'', Inr ?a, s')" by blast
  have q: "keeps_actors (return ())" for q :: string
    by (simp add: return_def sample_keeps_actors)
  show ?thesis
    using p decorator_registers [OF sample_keeps_actors(1) q p] by simp
qed

text \<open>
  Callbacks in a message are names: building a message succeeds exactly when each of
  \<open>on_failure\<close> and \<open>on_success\<close> is absent, \<open>None\<close>, a string or an actor; then the message goes to
  the actor's queue, the two options hold the names and every other option is as given.
\<close>

theorem message_callbacks_resolved:
  assumes "\<And>n. actor_of (PStr n) = None" and "actor_of PNone = None"
  shows "(case message_with_options actor_of mid now actor xs kws opts of
      Inl e \<Rightarrow> exn_cls e = TypeError \<and>
        (\<exists>name \<in> {''on_failure'', ''on_success''}. actor_of (dget opts name) = None
           \<and> dget opts name \<noteq> PNone \<and> (\<forall>n. dget opts name \<noteq> PStr n))
    | Inr m \<Rightarrow> queue_name m = ac_queue actor \<and> actor_name m = ac_name actor \<and> args m = xs \<and> kwargs m = kws
        \<and> (\<forall>name \<in> {''on_failure'', ''on_success''}.
             dget (options m) name = (case actor_of (dget opts name) of Some n \<Rightarrow> PStr n | None \<Rightarrow> dget opts name)
             \<and> (dget (options m) name = PNone \<or> (\<exists>n. dget (options m) name = PStr n)))
        \<and> (\<forall>name. name \<noteq> ''on_failure'' \<longrightarrow> name \<noteq> ''on_success'' \<longrightarrow>
             map_of (options m) name = map_of opts name))"
  using assms
  by (auto simp: message_with_options_def resolve_callback_def Let_def
      split: option.splits pyval.splits)

theorem message_callbacks_resolved_witness:
  "\<exists>m. message_with_options (\<lambda>v. case v of PObject n \<Rightarrow> Some n | _ \<Rightarrow> None) ''id'' 0
      \<lparr>ac_name = ''add'', ac_queue = ''default'', ac_priority = 0, ac_options = []\<rparr> [] []
      [(''on_success'', PObject ''done''), (''max_retries'', PInt 3)] = Inr m
    \<and> options m = [(''on_success'', PStr ''done''), (''max_retries'', PInt 3)]
    \<and> dget (options m) ''on_success'' = PStr ''done''"
  using message_callbacks_resolved [where actor_of = "\<lambda>v. case v of PObject n \<Rightarrow> Some n | _ \<Rightarrow> None" and mid = "''id''" and now = 0
      and actor = "\<lparr>ac_name = ''add'', ac_queue = ''default'', ac_priority = 0, ac_options = []\<rparr>" and xs = "[]"
      and kws = "[]" and opts = "[(''on_success'', PObject ''done''), (''max_retries'', PInt 3)]"]
  by (simp add: message_with_options_def resolve_callback_def Let_def)

text \<open>
  Reusing a decorator is refused: the name of the first function stays in the closure, so after
  one function was declared through \<open>d = actor(queue_name=...)\<close>, applying \<open>d\<close> to a second function
  raises \<open>ValueError\<close> for the first function's name, whatever the second is called.
\<close>

theorem decorator_reuse_refused:
  assumes "\<And>m h. keeps_actors (mw_run M m h)" and "\<And>q. keeps_actors (declare_queue q)"
    and "fn_name \<noteq> []"
    and "decorator M declare_queue queue priority opts None fn_name s = (nl, Inr a, s')"
    and "fst ` set opts \<subseteq> br_actor_options s'"
  shows "decorator M declare_queue queue priority opts nl other s'
    = (Some fn_name, Inl (mk_exn ValueError (''An actor named '' @ fn_name @ '' is already registered.'')), s')"
proof -
  let ?a = "\<lparr>ac_name = fn_name, ac_queue = queue, ac_priority = priority, ac_options = opts\<rparr>"
  from assms(4) have nl: "nl = Some fn_name" and ok: "queue_name_re queue"
    and ret: "andthen (declare_actor M declare_queue ?a) (\<lambda>_. return ?a) s = (Inr a, s')"
    by (auto simp: decorator_def Let_def Actor_def split: if_splits)
  obtain s2 where "emit_after M (After_declare_actor ?a)
      (s2\<lparr>br_actors := AList.update fn_name ?a (br_actors s2)\<rparr>) = (Inr (), s')"
    using ret by (auto simp: declare_actor_def proc_simps split: sum.splits prod.splits)
  then have "br_actors s' = AList.update fn_name ?a (br_actors s2)"
    using emit_keeps_actors(2) [OF assms(1), of "After_declare_actor ?a"]
    by (metis (no_types, lifting) keeps_actors_def broker.select_convs(1) broker.surjective broker.update_convs(1) snd_conv)
  then show ?thesis
    using assms(3,5) by (simp add: decorator_def Let_def Actor_def nl ok)
qed

theorem decorator_reuse_refused_witness:
  "\<exists>nl a s'. decorator sample_mw (\<lambda>q. return ()) ''default'' 0 [] None ''add'' (sample_broker []) = (nl, Inr a, s')
    \<and> decorator sample_mw (\<lambda>q. return ()) ''default'' 0 [] nl ''sub'' s'
      = (Some ''add'', Inl (mk_exn ValueError ''An actor named add is already registered.''), s')"
proof -
  have c: "queue_name_re ''default''" by code_simp
  have "\<exists>nl a s'. decorator sample_mw (\<lambda>q. return ()) ''default'' 0 [] None ''add'' (sample_broker []) = (nl, Inr a, s')"
    by (simp add: decorator_def Let_def Actor_def declare_actor_def emit_before_def emit_after_def
        sample_broker_def proc_simps c del: queue_name_re.simps)
  then obtain nl a s' where p: "decorator sample_mw (\<lambda>q. return ()) ''default'' 0 [] None ''add'' (sample_broker []) = (nl, Inr a, s')"
    by blast
  have q: "keeps_actors (return ())" for q :: string
    by (simp add: return_def sample_keeps_actors)
  show ?thesis
    using p decorator_reuse_refused [OF sample_keeps_actors(1) q _ p, of "''sub''"] by auto
qed

end
