(* ===== verification/Stub_Broker.thy ===== *)
theory Stub_Broker
  imports Broker Json
begin

text \<open>
  \<^verbatim>\<open>dramatiq/brokers/stub.py\<close>: the in-memory broker and its consumers, with \<open>iter_queue\<close> and
  \<open>join_queue\<close> of \<^verbatim>\<open>dramatiq/common.py\<close>. Queues hold encoded messages and count the unfinished
  ones. A blocking call is modelled at the moment it is served or gives up; while \<open>join_queue\<close>
  waits, the other threads are an argument.
\<close>

section \<open>State\<close>

text \<open>
  A consumer reads one queue and has a semaphore with a slot for each message it may hold. The
  list of consumers records those that \<open>consume\<close> has made, a consumer being its index;
  \<open>sb_next\<close> is the next free place in the store of proxies.
\<close>

record stub_consumer =
  sc_queue :: string
  sc_prefetch :: nat
  sc_slots :: nat

record 'm stub_broker = "('m, string pyqueue) broker" +
  sb_dead_letters_by_queue :: "proxy_ref list dict"
  sb_fail_fast_default :: bool
  sb_consumers :: "stub_consumer list"
  sb_next :: nat

definition dead_letters :: "('m, 'a) stub_broker_scheme \<Rightarrow> proxy_ref list" where
  "dead_letters s = concat (map snd (sb_dead_letters_by_queue s))"

text \<open>\<open>dead_letters_by_queue\<close> is a \<open>defaultdict\<close>.\<close>

definition dead_letters_of :: "('m, 'a) stub_broker_scheme \<Rightarrow> string \<Rightarrow> proxy_ref list" where
  "dead_letters_of s q = (case map_of (sb_dead_letters_by_queue s) q of None \<Rightarrow> [] | Some l \<Rightarrow> l)"

section \<open>The broker\<close>

definition stub_declare_queue ::
  "('m, ('m, 'a) stub_broker_scheme) mw_ops \<Rightarrow> string \<Rightarrow> (('m, 'a) stub_broker_scheme, unit) proc" where
  "stub_declare_queue M name s =
     (if map_of (br_queues s) name \<noteq> None then (Inr (), s)
      else
        andthen (emit_before M (Before_declare_queue name)) (\<lambda>_.
        andthen (modify (\<lambda>s. s\<lparr>br_queues := AList.update name pyqueue_empty (br_queues s)\<rparr>)) (\<lambda>_.
        andthen (emit_after M (After_declare_queue name)) (\<lambda>_.
        (let delayed_name = dq_name name
         in andthen (modify (\<lambda>s. s\<lparr>br_queues := AList.update delayed_name pyqueue_empty (br_queues s),
                                    br_delay_queues := List.insert delayed_name (br_delay_queues s)\<rparr>)) (\<lambda>_.
              emit_after M (After_declare_delay_queue delayed_name)))))) s)"

definition stub_put :: "encoder \<Rightarrow> string \<Rightarrow> message \<Rightarrow> (('m, 'a) stub_broker_scheme, unit) proc" where
  "stub_put e name message s =
     (case map_of (br_queues s) name of
        None \<Rightarrow> (Inl (mk_exn KeyError name), s)
      | Some q \<Rightarrow>
          (case encode e message of
             Inl err \<Rightarrow> (Inl err, s)
           | Inr data \<Rightarrow> (Inr (), s\<lparr>br_queues := AList.update name (q_put data q) (br_queues s)\<rparr>)))"

definition stub_delayed :: "int \<Rightarrow> message \<Rightarrow> int option \<Rightarrow> message" where
  "stub_delayed now message delay =
     (case delay of
        None \<Rightarrow> message
      | Some delay \<Rightarrow>
          (let name = dq_name (queue_name message);
               message_eta = now + delay
           in copy (\<lambda>m. m\<lparr>queue_name := name\<rparr>) [(''eta'', PInt message_eta)] message))"

definition stub_enqueue ::
  "encoder \<Rightarrow> ('m, ('m, 'a) stub_broker_scheme) mw_ops \<Rightarrow> message \<Rightarrow> int option
   \<Rightarrow> (('m, 'a) stub_broker_scheme, message) proc" where
  "stub_enqueue e M message delay s =
     (let message = stub_delayed (br_clock s) message delay;
          name = queue_name message
      in if map_of (br_queues s) name = None then (Inl (mk_exn QueueNotFound name), s)
         else
           andthen (emit_before M (Before_enqueue message delay)) (\<lambda>_.
           andthen (stub_put e name message) (\<lambda>_.
           andthen (emit_after M (After_enqueue message delay)) (\<lambda>_.
             return message))) s)"

text \<open>\<open>for _ in iter_queue(q): q.task_done()\<close>; too many \<open>task_done\<close>s are a \<open>ValueError\<close>.\<close>

function flush_queue :: "string pyqueue \<Rightarrow> exn + string pyqueue" where
  "flush_queue q =
     (case q_get q of
        None \<Rightarrow> Inr q
      | Some (_, q) \<Rightarrow>
          (case q_task_done q of
             None \<Rightarrow> Inl (mk_exn ValueError ''task_done() called too many times'')
           | Some q \<Rightarrow> flush_queue q))"
  by pat_completeness auto
termination
  by (relation "measure (length \<circ> q_items)")
    (auto simp: q_get_def q_task_done_def split: list.splits nat.splits)

declare flush_queue.simps [simp del]

definition stub_flush :: "string \<Rightarrow> (('m, 'a) stub_broker_scheme, unit) proc" where
  "stub_flush name s =
     (case map_of (br_queues s) name of
        None \<Rightarrow> (Inl (mk_exn KeyError name), s)
      | Some q \<Rightarrow>
          (case flush_queue q of
             Inl e \<Rightarrow> (Inl e, s)
           | Inr q \<Rightarrow> (Inr (), s\<lparr>br_queues := AList.update name q (br_queues s)\<rparr>)))"

definition stub_flush_all :: "(('m, 'a) stub_broker_scheme, unit) proc" where
  "stub_flush_all s =
     andthen (for_each stub_flush (map fst (br_queues s) @ br_delay_queues s)) (\<lambda>_.
       modify (\<lambda>s. s\<lparr>sb_dead_letters_by_queue := map (\<lambda>(k, _). (k, [])) (sb_dead_letters_by_queue s)\<rparr>)) s"

text \<open>
  \<open>join\<close>. \<open>wait q t\<close> is \<open>join_queue\<close> on a queue with a timeout in milliseconds: what the other threads
  do until the queue has no unfinished task, or \<open>QueueJoinTimeout\<close>. A timeout of 0 is falsy, so it is
  passed on as it is.
\<close>

fun stub_join_loop ::
  "nat \<Rightarrow> (string \<Rightarrow> int option \<Rightarrow> (('m, 'a) stub_broker_scheme, unit) proc) \<Rightarrow> string \<Rightarrow> string list
   \<Rightarrow> int option \<Rightarrow> bool \<Rightarrow> ('m, 'a) stub_broker_scheme \<Rightarrow> ((exn + unit) \<times> ('m, 'a) stub_broker_scheme) option" where
  "stub_join_loop 0 wait name names deadline should_fail_fast s = None"
| "stub_join_loop (Suc fuel) wait name names deadline should_fail_fast s =
     (case for_each (\<lambda>q s. wait q (map_option (\<lambda>d. if d = 0 then 0 else d - br_clock s) deadline) s) names s of
        (Inl e, s) \<Rightarrow> Some (Inl e, s)
      | (Inr _, s) \<Rightarrow>
          (if list_all (\<lambda>q. case map_of (br_queues s) q of Some q \<Rightarrow> q_joined q | None \<Rightarrow> True) names
           then (case (should_fail_fast, dead_letters_of s name) of
                   (True, r # _) \<Rightarrow>
                     Some (Inl (case px_exception (br_proxies s r) of Some e \<Rightarrow> e
                                | None \<Rightarrow> mk_exn Exception ''Message failed with unknown error''), s)
                 | _ \<Rightarrow> Some (Inr (), s))
           else stub_join_loop fuel wait name names deadline should_fail_fast s))"

definition stub_join ::
  "nat \<Rightarrow> (string \<Rightarrow> int option \<Rightarrow> (('m, 'a) stub_broker_scheme, unit) proc) \<Rightarrow> string \<Rightarrow> int option
   \<Rightarrow> bool option \<Rightarrow> ('m, 'a) stub_broker_scheme \<Rightarrow> ((exn + unit) \<times> ('m, 'a) stub_broker_scheme) option" where
  "stub_join fuel wait name timeout fail_fast s =
     (if map_of (br_queues s) name = None \<or> map_of (br_queues s) (dq_name name) = None
      then Some (Inl (mk_exn QueueNotFound name), s)
      else
        (let deadline = map_option (\<lambda>t. if t = 0 then 0 else br_clock s + t) timeout;
             should_fail_fast = (case fail_fast of Some f \<Rightarrow> f | None \<Rightarrow> sb_fail_fast_default s)
         in stub_join_loop fuel wait name [name, dq_name name] deadline should_fail_fast s))"

section \<open>Consumers\<close>

definition stub_consume :: "string \<Rightarrow> nat \<Rightarrow> (('m, 'a) stub_broker_scheme, nat) proc" where
  "stub_consume name prefetch s =
     (if map_of (br_queues s) name = None then (Inl (mk_exn QueueNotFound name), s)
      else
        (Inr (length (sb_consumers s)),
         s\<lparr>sb_dead_letters_by_queue := snd (dict_setdefault name [] (sb_dead_letters_by_queue s)),
           sb_consumers := sb_consumers s @ [\<lparr>sc_queue = name, sc_prefetch = prefetch, sc_slots = prefetch\<rparr>]\<rparr>))"

definition release :: "nat \<Rightarrow> ('m, 'a) stub_broker_scheme \<Rightarrow> ('m, 'a) stub_broker_scheme" where
  "release c s = s\<lparr>sb_consumers := (sb_consumers s)[c := (sb_consumers s ! c)\<lparr>sc_slots := Suc (sc_slots (sb_consumers s ! c))\<rparr>]\<rparr>"

definition task_done :: "string \<Rightarrow> (('m, 'a) stub_broker_scheme, unit) proc" where
  "task_done name s =
     (case map_of (br_queues s) name of
        None \<Rightarrow> (Inl (mk_exn KeyError name), s)
      | Some q \<Rightarrow>
          (case q_task_done q of
             None \<Rightarrow> (Inl (mk_exn ValueError ''task_done() called too many times''), s)
           | Some q \<Rightarrow> (Inr (), s\<lparr>br_queues := AList.update name q (br_queues s)\<rparr>)))"

definition stub_ack :: "nat \<Rightarrow> proxy_ref \<Rightarrow> (('m, 'a) stub_broker_scheme, unit) proc" where
  "stub_ack c r s = andthen (task_done (sc_queue (sb_consumers s ! c))) (\<lambda>_. modify (release c)) s"

definition stub_nack :: "nat \<Rightarrow> proxy_ref \<Rightarrow> (('m, 'a) stub_broker_scheme, unit) proc" where
  "stub_nack c r s =
     (let name = sc_queue (sb_consumers s ! c)
      in andthen (task_done name) (\<lambda>_.
         andthen (modify (\<lambda>s. s\<lparr>sb_dead_letters_by_queue :=
             AList.update name (dead_letters_of s name @ [r]) (sb_dead_letters_by_queue s)\<rparr>)) (\<lambda>_.
           modify (release c))) s)"

text \<open>\<open>__next__\<close>: no free slot and no message both give \<open>None\<close>. \<open>fresh\<close> is an unused identifier.\<close>

definition stub_next ::
  "encoder \<Rightarrow> string \<Rightarrow> nat \<Rightarrow> (('m, 'a) stub_broker_scheme, proxy_ref option) proc" where
  "stub_next e fresh c s =
     (let C = sb_consumers s ! c
      in case sc_slots C of
           0 \<Rightarrow> (Inr None, s)
         | Suc n \<Rightarrow>
             (let s = s\<lparr>sb_consumers := (sb_consumers s)[c := C\<lparr>sc_slots := n\<rparr>]\<rparr>
              in case map_of (br_queues s) (sc_queue C) of
                   None \<Rightarrow> (Inl (mk_exn KeyError (sc_queue C)), s)
                 | Some q \<Rightarrow>
                     (case q_get q of
                        None \<Rightarrow> (Inr None, release c s)
                      | Some (data, q) \<Rightarrow>
                          (let s = s\<lparr>br_queues := AList.update (sc_queue C) q (br_queues s)\<rparr>
                           in case decode e fresh (br_clock s) data of
                                Inl err \<Rightarrow> (Inl err, s)
                              | Inr message \<Rightarrow>
                                  (Inr (Some (sb_next s)),
                                   s\<lparr>br_proxies := (br_proxies s)(sb_next s := MessageProxy message),
                                     sb_next := Suc (sb_next s)\<rparr>)))))"


section \<open>Accounting\<close>

text \<open>
  Which messages are out: pairs of the consumer that fetched one and its proxy (\<^const>\<open>None\<close> for
  data that could not be decoded, which keeps its slot and is never acknowledged).
\<close>

type_synonym in_flight = "(nat \<times> proxy_ref option) list"

definition held_by :: "nat \<Rightarrow> in_flight \<Rightarrow> nat" where
  "held_by c fl = length (filter (\<lambda>x. fst x = c) fl)"

definition held_from :: "stub_consumer list \<Rightarrow> string \<Rightarrow> in_flight \<Rightarrow> nat" where
  "held_from cs q fl = length (filter (\<lambda>x. sc_queue (cs ! fst x) = q) fl)"

definition stub_inv ::
  "string pyqueue dict \<Rightarrow> stub_consumer list \<Rightarrow> nat \<Rightarrow> in_flight \<Rightarrow> bool" where
  "stub_inv qs cs nxt fl =
     ((\<forall>q Q. map_of qs q = Some Q \<longrightarrow> q_unfinished Q = length (q_items Q) + held_from cs q fl)
    \<and> (\<forall>c < length cs. map_of qs (sc_queue (cs ! c)) \<noteq> None
                        \<and> sc_slots (cs ! c) + held_by c fl = sc_prefetch (cs ! c))
    \<and> (\<forall>x \<in> set fl. fst x < length cs \<and> (\<forall>r. snd x = Some r \<longrightarrow> r < nxt))
    \<and> distinct (filter (\<lambda>r. r \<noteq> None) (map snd fl))
    \<and> (\<forall>n. canonical n \<longrightarrow> map_of qs n = None \<longrightarrow> map_of qs (n @ dq_suffix) = None))"

abbreviation stub_ok :: "('m, 'a) stub_broker_scheme \<Rightarrow> in_flight \<Rightarrow> bool" where
  "stub_ok s fl \<equiv> stub_inv (br_queues s) (sb_consumers s) (sb_next s) fl"

lemma held_simps [simp]:
  "held_by c [] = 0" "held_by c (x # fl) = (if fst x = c then Suc (held_by c fl) else held_by c fl)"
  "held_from cs q [] = 0"
  "held_from cs q (x # fl) = (if sc_queue (cs ! fst x) = q then Suc (held_from cs q fl) else held_from cs q fl)"
  by (simp_all add: held_by_def held_from_def)

lemma held_remove1:
  assumes "x \<in> set fl"
  shows "held_by (fst x) fl = Suc (held_by (fst x) (remove1 x fl))"
    "c \<noteq> fst x \<Longrightarrow> held_by c (remove1 x fl) = held_by c fl"
    "held_from cs (sc_queue (cs ! fst x)) fl = Suc (held_from cs (sc_queue (cs ! fst x)) (remove1 x fl))"
    "q \<noteq> sc_queue (cs ! fst x) \<Longrightarrow> held_from cs q (remove1 x fl) = held_from cs q fl"
  using assms by (induction fl) auto

lemma held_from_cong:
  assumes "\<forall>x \<in> set fl. fst x < length cs" and "\<forall>c < length cs. sc_queue (cs' ! c) = sc_queue (cs ! c)"
  shows "held_from cs' q fl = held_from cs q fl"
  using assms by (induction fl) auto

lemma held_from_0: "\<forall>x \<in> set fl. sc_queue (cs ! fst x) \<noteq> q \<Longrightarrow> held_from cs q fl = 0"
  by (induction fl) auto

lemma stub_inv_unused:
  "stub_inv qs cs nxt fl \<Longrightarrow> map_of qs q = None \<Longrightarrow> held_from cs q fl = 0"
  by (rule held_from_0) (auto simp: stub_inv_def)

text \<open>Flushing empties a queue and marks what was waiting as done; it cannot fail.\<close>

lemma flush_queue_ok:
  "q_unfinished q = length (q_items q) + k \<Longrightarrow>
   flush_queue q = Inr (q\<lparr>q_items := [], q_unfinished := k\<rparr>)"
proof (induction q rule: flush_queue.induct)
  case (1 q)
  show ?case
  proof (cases "q_items q")
    case Nil
    with "1.prems" show ?thesis
      by (subst flush_queue.simps) (cases q, simp add: q_get_def)
  next
    case (Cons x xs)
    let ?q1 = "q\<lparr>q_items := xs\<rparr>"
    let ?q2 = "?q1\<lparr>q_unfinished := length xs + k\<rparr>"
    have g: "q_get q = Some (x, ?q1)" and t: "q_task_done ?q1 = Some ?q2"
      using Cons "1.prems" by (simp_all add: q_get_def q_task_done_def)
    have "flush_queue ?q2 = Inr (?q2\<lparr>q_items := [], q_unfinished := k\<rparr>)"
      by (rule "1.IH" [OF g refl t]) simp
    then show ?thesis
      by (subst flush_queue.simps) (simp add: g t)
  qed
qed

text \<open>One lemma per kind of change.\<close>

lemma inv_put:
  assumes "stub_inv qs cs nxt fl" and "map_of qs q = Some Q"
  shows "stub_inv (AList.update q (q_put x Q) qs) cs nxt fl"
  using assms by (auto simp: stub_inv_def q_put_def)

lemma inv_declare:
  assumes "stub_inv qs cs nxt fl" and "canonical n" and "map_of qs n = None"
  shows "stub_inv (AList.update (n @ dq_suffix) pyqueue_empty (AList.update n pyqueue_empty qs)) cs nxt fl"
proof -
  have d: "map_of qs (n @ dq_suffix) = None" using assms by (simp add: stub_inv_def)
  have "held_from cs n fl = 0" "held_from cs (n @ dq_suffix) fl = 0"
    using stub_inv_unused [OF assms(1)] d assms(3) by simp_all
  moreover have "m = n" if "m @ dq_suffix = n @ dq_suffix" for m using that by simp
  ultimately show ?thesis
    using assms d by (auto simp: stub_inv_def pyqueue_empty_def canonical_def)
qed

lemma inv_consume:
  assumes "stub_inv qs cs nxt fl" and "map_of qs q \<noteq> None"
  shows "stub_inv qs (cs @ [\<lparr>sc_queue = q, sc_prefetch = p, sc_slots = p\<rparr>]) nxt fl"
proof -
  let ?cs = "cs @ [\<lparr>sc_queue = q, sc_prefetch = p, sc_slots = p\<rparr>]"
  have b: "\<forall>x \<in> set fl. fst x < length cs" using assms(1) by (auto simp: stub_inv_def)
  have "held_from ?cs r fl = held_from cs r fl" for r
    by (rule held_from_cong [OF b]) (simp add: nth_append)
  moreover have "held_by (length cs) fl = 0"
    using b by (induction fl) auto
  ultimately show ?thesis
    using assms by (auto simp: stub_inv_def nth_append less_Suc_eq)
qed

lemma inv_flush:
  assumes "stub_inv qs cs nxt fl" and "map_of qs q = Some Q"
  shows "\<exists>Q'. flush_queue Q = Inr Q' \<and> q_items Q' = [] \<and> stub_inv (AList.update q Q' qs) cs nxt fl"
proof -
  have "flush_queue Q = Inr (Q\<lparr>q_items := [], q_unfinished := held_from cs q fl\<rparr>)"
    using assms by (intro flush_queue_ok) (simp add: stub_inv_def)
  with assms show ?thesis by (auto simp: stub_inv_def)
qed

lemma inv_slots:
  "c < length cs \<Longrightarrow> d < length cs \<Longrightarrow>
   sc_queue (cs[c := (cs ! c)\<lparr>sc_slots := n\<rparr>] ! d) = sc_queue (cs ! d) \<and>
   sc_prefetch (cs[c := (cs ! c)\<lparr>sc_slots := n\<rparr>] ! d) = sc_prefetch (cs ! d) \<and>
   sc_slots (cs[c := (cs ! c)\<lparr>sc_slots := n\<rparr>] ! d) = (if d = c then n else sc_slots (cs ! d))"
  by (auto simp: nth_list_update)

lemma inv_fetch:
  assumes inv: "stub_inv qs cs nxt fl" and c: "c < length cs" and "sc_slots (cs ! c) = Suc n"
    and Q: "map_of qs (sc_queue (cs ! c)) = Some Q" and "q_get Q = Some (x, Q')"
    and "r = Some nxt \<and> nxt' = Suc nxt \<or> r = None \<and> nxt' = nxt"
  shows "stub_inv (AList.update (sc_queue (cs ! c)) Q' qs) (cs[c := (cs ! c)\<lparr>sc_slots := n\<rparr>]) nxt' ((c, r) # fl)"
proof -
  let ?cs = "cs[c := (cs ! c)\<lparr>sc_slots := n\<rparr>]"
  from assms(5) have "q_unfinished Q' = q_unfinished Q" "length (q_items Q) = Suc (length (q_items Q'))"
    by (auto simp: q_get_def split: list.splits)
  moreover have b: "\<forall>x \<in> set fl. fst x < length cs" using inv by (auto simp: stub_inv_def)
  moreover have "held_from ?cs q fl = held_from cs q fl" for q
    by (rule held_from_cong [OF b]) (simp add: inv_slots c)
  moreover have "Some nxt \<notin> snd ` set fl"
    using inv by (force simp: stub_inv_def)
  moreover have "Suc (n + held_by c fl) = sc_prefetch (cs ! c)"
    using inv c assms(3) by (auto simp: stub_inv_def)
  ultimately show ?thesis
    using assms by (auto simp: stub_inv_def inv_slots c less_Suc_eq dest: less_SucI)
qed

lemma distinct_filter_remove1:
  "distinct (filter P (map f xs)) \<Longrightarrow> distinct (filter P (map f (remove1 x xs)))"
proof (induction xs)
  case (Cons y ys)
  then show ?case using set_remove1_subset [of x ys] by (auto split: if_splits)
qed simp

lemma inv_done:
  assumes inv: "stub_inv qs cs nxt fl" and x: "(c, r) \<in> set fl"
  shows "\<exists>Q Q'. map_of qs (sc_queue (cs ! c)) = Some Q \<and> q_task_done Q = Some Q' \<and> q_items Q' = q_items Q
    \<and> stub_inv (AList.update (sc_queue (cs ! c)) Q' qs)
        (cs[c := (cs ! c)\<lparr>sc_slots := Suc (sc_slots (cs ! c))\<rparr>]) nxt (remove1 (c, r) fl)"
proof -
  let ?cs = "cs[c := (cs ! c)\<lparr>sc_slots := Suc (sc_slots (cs ! c))\<rparr>]"
  let ?q = "sc_queue (cs ! c)" and ?fl = "remove1 (c, r) fl"
  have c: "c < length cs" using inv x by (auto simp: stub_inv_def)
  with inv obtain Q where Q: "map_of qs ?q = Some Q" by (auto simp: stub_inv_def)
  note h = held_remove1 [OF x, unfolded fst_conv]
  have bound: "\<forall>x \<in> set fl. fst x < length cs \<and> (\<forall>r. snd x = Some r \<longrightarrow> r < nxt)"
    using inv by (simp add: stub_inv_def)
  from inv Q h(3) [of cs] have u: "q_unfinished Q = Suc (length (q_items Q) + held_from cs ?q ?fl)"
    by (simp add: stub_inv_def)
  let ?Q = "Q\<lparr>q_unfinished := length (q_items Q) + held_from cs ?q ?fl\<rparr>"
  have td: "q_task_done Q = Some ?Q"
    by (simp add: q_task_done_def u)
  have b: "\<forall>x \<in> set ?fl. fst x < length cs" using bound by (meson notin_set_remove1)
  have same: "held_from ?cs q ?fl = held_from cs q ?fl" for q
    by (rule held_from_cong [OF b]) (simp add: inv_slots c)
  have "distinct (filter (\<lambda>r. r \<noteq> None) (map snd ?fl))"
    by (rule distinct_filter_remove1) (use inv in \<open>simp add: stub_inv_def\<close>)
  moreover have "\<forall>x \<in> set ?fl. fst x < length ?cs \<and> (\<forall>r. snd x = Some r \<longrightarrow> r < nxt)"
    using bound by (simp only: length_list_update) (meson notin_set_remove1)
  moreover have "\<forall>q P. map_of (AList.update ?q ?Q qs) q = Some P \<longrightarrow>
      q_unfinished P = length (q_items P) + held_from ?cs q ?fl"
    using inv h(4) [of _ cs] by (simp add: stub_inv_def same)
  moreover have "\<forall>d < length ?cs. map_of (AList.update ?q ?Q qs) (sc_queue (?cs ! d)) \<noteq> None
      \<and> sc_slots (?cs ! d) + held_by d ?fl = sc_prefetch (?cs ! d)"
  proof (intro allI impI)
    fix d assume "d < length ?cs"
    then have d: "d < length cs" by simp
    with inv have "map_of qs (sc_queue (cs ! d)) \<noteq> None" "sc_slots (cs ! d) + held_by d fl = sc_prefetch (cs ! d)"
      by (simp_all add: stub_inv_def)
    then show "map_of (AList.update ?q ?Q qs) (sc_queue (?cs ! d)) \<noteq> None
        \<and> sc_slots (?cs ! d) + held_by d ?fl = sc_prefetch (?cs ! d)"
      using h(1) h(2) [of d] by (cases "d = c") (simp_all add: inv_slots c d)
  qed
  moreover have "\<forall>n. canonical n \<longrightarrow> map_of (AList.update ?q ?Q qs) n = None \<longrightarrow>
      map_of (AList.update ?q ?Q qs) (n @ dq_suffix) = None"
    using inv Q by (auto simp: stub_inv_def)
  ultimately have "stub_inv (AList.update ?q ?Q qs) ?cs nxt ?fl"
    unfolding stub_inv_def by blast
  with Q td show ?thesis by auto
qed

section \<open>Runs of the broker\<close>

text \<open>
  The part of the state that the accounting speaks of, and the signals the broker itself emits.
  \<open>quiet_hooks\<close> is what the broker relies on of its middleware: a hook of one of these signals does
  not touch that part behind the broker's back.
\<close>

definition stub_view ::
  "('m, 'a) stub_broker_scheme \<Rightarrow> string pyqueue dict \<times> stub_consumer list \<times> nat \<times> proxy_ref list dict" where
  "stub_view s = (br_queues s, sb_consumers s, sb_next s, sb_dead_letters_by_queue s)"

fun quiet_signal :: "hook \<Rightarrow> bool" where
  "quiet_signal (Before_enqueue m d) = True"
| "quiet_signal (After_enqueue m d) = True"
| "quiet_signal (Before_declare_queue q) = True"
| "quiet_signal (After_declare_queue q) = True"
| "quiet_signal (After_declare_delay_queue q) = True"
| "quiet_signal _ = False"

lemma stub_ok_view: "stub_view s = stub_view s' \<Longrightarrow> stub_ok s fl \<longleftrightarrow> stub_ok s' fl"
  by (simp add: stub_view_def)

locale quiet_hooks =
  fixes M :: "('m, ('m, 'a) stub_broker_scheme) mw_ops"
  assumes quiet: "quiet_signal h \<Longrightarrow> stub_view (snd (mw_run M m h s)) = stub_view s"
begin

lemma emit_quiet:
  assumes "quiet_signal h"
  shows "stub_view (snd (emit_before M h s)) = stub_view s" "stub_view (snd (emit_after M h s)) = stub_view s"
proof -
  have "keeps (\<lambda>t. stub_view t = stub_view s) (mw_run M m h)" for m
    using quiet [OF assms] by (simp add: keeps_def)
  from emit_keeps [OF this]
  show "stub_view (snd (emit_before M h s)) = stub_view s" "stub_view (snd (emit_after M h s)) = stub_view s"
    by (auto simp: keeps_def)
qed

lemma emit_ok:
  assumes "quiet_signal h"
  shows "keeps (\<lambda>s. stub_ok s fl) (emit_before M h)" "keeps (\<lambda>s. stub_ok s fl) (emit_after M h)"
  using stub_ok_view [OF emit_quiet(1) [OF assms]] stub_ok_view [OF emit_quiet(2) [OF assms]]
  by (auto simp: keeps_def)

lemma put_ok: "keeps (\<lambda>s. stub_ok s fl) (stub_put e name m)"
  by (rule keepsI) (auto simp: stub_put_def intro!: inv_put split: option.splits sum.splits)

lemma enqueue_ok: "stub_ok s fl \<Longrightarrow> stub_ok (snd (stub_enqueue e M m d s)) fl"
proof -
  have "keeps (\<lambda>s. stub_ok s fl)
      (andthen (emit_before M (Before_enqueue m' d)) (\<lambda>_. andthen (stub_put e q m') (\<lambda>_.
       andthen (emit_after M (After_enqueue m' d)) (\<lambda>_. return m'))))" for q m'
    by (auto intro!: keeps_andthen emit_ok put_ok)
  then show "stub_ok s fl \<Longrightarrow> stub_ok (snd (stub_enqueue e M m d s)) fl"
    by (simp add: stub_enqueue_def Let_def keeps_def)
qed

lemma declare_ok:
  assumes ok: "stub_ok s fl" and n: "canonical n"
  shows "stub_ok (snd (stub_declare_queue M n s)) fl"
proof (cases "map_of (br_queues s) n")
  case (Some Q)
  with ok show ?thesis by (simp add: stub_declare_queue_def)
next
  case None
  obtain r1 s1 where 1: "emit_before M (Before_declare_queue n) s = (r1, s1)" by force
  let ?s2 = "s1\<lparr>br_queues := AList.update n pyqueue_empty (br_queues s1)\<rparr>"
  obtain r3 s3 where 3: "emit_after M (After_declare_queue n) ?s2 = (r3, s3)" by force
  let ?s4 = "s3\<lparr>br_queues := AList.update (n @ dq_suffix) pyqueue_empty (br_queues s3),
                br_delay_queues := List.insert (n @ dq_suffix) (br_delay_queues s3)\<rparr>"
  obtain r5 s5 where 5: "emit_after M (After_declare_delay_queue (n @ dq_suffix)) ?s4 = (r5, s5)" by force
  have v1: "stub_view s1 = stub_view s" and v3: "stub_view s3 = stub_view ?s2" and v5: "stub_view s5 = stub_view ?s4"
    using emit_quiet(1) [of "Before_declare_queue n" s] emit_quiet(2) [of "After_declare_queue n" ?s2]
      emit_quiet(2) [of "After_declare_delay_queue (n @ dq_suffix)" ?s4] 1 3 5 by simp_all
  have ok1: "stub_ok s1 fl" using ok stub_ok_view [OF v1] by simp
  from v1 None have None1: "map_of (br_queues s1) n = None" by (simp add: stub_view_def)
  then have u: "held_from (sb_consumers s1) n fl = 0" by (rule stub_inv_unused [OF ok1])
  have ok2: "stub_ok ?s2 fl"
    using ok1 None1 u n by (auto simp: stub_inv_def pyqueue_empty_def canonical_def)
  have ok4: "stub_ok ?s4 fl"
    using inv_declare [OF ok1 n None1] v3 by (simp add: stub_view_def)
  have "stub_ok s3 fl" "stub_ok s5 fl"
    using ok2 ok4 stub_ok_view [OF v3] stub_ok_view [OF v5] by simp_all
  then show ?thesis
    using ok1 1 3 5 None n by (auto simp: stub_declare_queue_def proc_simps Let_def split: sum.splits)
qed

end

text \<open>
  A step of the system, with what it does to the messages that are out: declaring, enqueueing,
  making a consumer, flushing, fetching, acknowledging or rejecting a message that is out, and any
  other activity of the program that leaves the broker alone.
\<close>

inductive stub_step ::
  "encoder \<Rightarrow> ('m, ('m, 'a) stub_broker_scheme) mw_ops \<Rightarrow> ('m, 'a) stub_broker_scheme \<times> in_flight
   \<Rightarrow> ('m, 'a) stub_broker_scheme \<times> in_flight \<Rightarrow> bool" for e M where
  declare_step: "canonical n \<Longrightarrow> stub_step e M (s, fl) (snd (stub_declare_queue M n s), fl)"
| enqueue_step: "stub_step e M (s, fl) (snd (stub_enqueue e M m d s), fl)"
| consume_step: "stub_step e M (s, fl) (snd (stub_consume q p s), fl)"
| flush_step: "stub_step e M (s, fl) (snd (stub_flush q s), fl)"
| flush_all_step: "stub_step e M (s, fl) (snd (stub_flush_all s), fl)"
| fetch_step: "c < length (sb_consumers s) \<Longrightarrow> stub_next e fresh c s = (r, s') \<Longrightarrow>
    stub_step e M (s, fl) (s', case r of Inr None \<Rightarrow> fl | Inr (Some p) \<Rightarrow> (c, Some p) # fl | Inl _ \<Rightarrow> (c, None) # fl)"
| ack_step: "(c, Some r) \<in> set fl \<Longrightarrow> stub_step e M (s, fl) (snd (stub_ack c r s), remove1 (c, Some r) fl)"
| nack_step: "(c, Some r) \<in> set fl \<Longrightarrow> stub_step e M (s, fl) (snd (stub_nack c r s), remove1 (c, Some r) fl)"
| other_step: "stub_view s' = stub_view s \<Longrightarrow> stub_step e M (s, fl) (s', fl)"

inductive stub_reach ::
  "encoder \<Rightarrow> ('m, ('m, 'a) stub_broker_scheme) mw_ops \<Rightarrow> ('m, 'a) stub_broker_scheme \<times> in_flight \<Rightarrow> bool" for e M where
  init: "br_queues s = [] \<Longrightarrow> sb_consumers s = [] \<Longrightarrow> stub_reach e M (s, [])"
| step: "stub_reach e M x \<Longrightarrow> stub_step e M x y \<Longrightarrow> stub_reach e M y"

lemma flush_ok:
  assumes "stub_ok s fl"
  shows "stub_ok (snd (stub_flush q s)) fl"
    and "map_of (br_queues s) q \<noteq> None \<Longrightarrow> \<exists>Q'. q_items Q' = [] \<and>
      stub_flush q s = (Inr (), s\<lparr>br_queues := AList.update q Q' (br_queues s)\<rparr>)"
proof -
  have "(map_of (br_queues s) q = None \<and> snd (stub_flush q s) = s) \<or>
      (\<exists>Q'. q_items Q' = [] \<and> stub_flush q s = (Inr (), s\<lparr>br_queues := AList.update q Q' (br_queues s)\<rparr>)
         \<and> stub_inv (AList.update q Q' (br_queues s)) (sb_consumers s) (sb_next s) fl)"
    using inv_flush [OF assms, of q] by (cases "map_of (br_queues s) q") (auto simp: stub_flush_def)
  then show "stub_ok (snd (stub_flush q s)) fl"
    and "map_of (br_queues s) q \<noteq> None \<Longrightarrow> \<exists>Q'. q_items Q' = [] \<and>
      stub_flush q s = (Inr (), s\<lparr>br_queues := AList.update q Q' (br_queues s)\<rparr>)"
    using assms by auto
qed

lemma done_ok:
  assumes ok: "stub_ok s fl" and x: "(c, Some r) \<in> set fl"
  shows "fst (stub_ack c r s) = Inr ()" "stub_ok (snd (stub_ack c r s)) (remove1 (c, Some r) fl)"
    and "fst (stub_nack c r s) = Inr ()" "stub_ok (snd (stub_nack c r s)) (remove1 (c, Some r) fl)"
proof -
  let ?q = "sc_queue (sb_consumers s ! c)"
  obtain Q Q' where Q: "map_of (br_queues s) ?q = Some Q" "q_task_done Q = Some Q'"
    and inv: "stub_inv (AList.update ?q Q' (br_queues s))
        ((sb_consumers s)[c := (sb_consumers s ! c)\<lparr>sc_slots := Suc (sc_slots (sb_consumers s ! c))\<rparr>])
        (sb_next s) (remove1 (c, Some r) fl)"
    using inv_done [OF ok x] by blast
  then show "fst (stub_ack c r s) = Inr ()" "stub_ok (snd (stub_ack c r s)) (remove1 (c, Some r) fl)"
    "fst (stub_nack c r s) = Inr ()" "stub_ok (snd (stub_nack c r s)) (remove1 (c, Some r) fl)"
    by (simp_all add: stub_ack_def stub_nack_def task_done_def release_def Let_def proc_simps)
qed

lemma fetch_ok:
  assumes ok: "stub_ok s fl" and c: "c < length (sb_consumers s)" and n: "stub_next e fresh c s = (r, s')"
  shows "stub_ok s' (case r of Inr None \<Rightarrow> fl | Inr (Some p) \<Rightarrow> (c, Some p) # fl | Inl _ \<Rightarrow> (c, None) # fl)"
proof -
  let ?C = "sb_consumers s ! c"
  obtain Q where Q: "map_of (br_queues s) (sc_queue ?C) = Some Q"
    using ok c by (auto simp: stub_inv_def)
  show ?thesis
  proof (cases "sc_slots ?C")
    case 0
    with n ok show ?thesis by (auto simp: stub_next_def)
  next
    case (Suc k)
    have same: "(sb_consumers s)[c := ?C\<lparr>sc_slots := Suc k\<rparr>] = sb_consumers s"
      using Suc by (metis list_update_id stub_consumer.surjective stub_consumer.update_convs(3))
    show ?thesis
    proof (cases "q_get Q")
      case None
      with n Suc Q c ok same show ?thesis by (auto simp: stub_next_def Let_def release_def)
    next
      case (Some x)
      then obtain data Q' where g: "q_get Q = Some (data, Q')" by (cases x) auto
      show ?thesis
        using n Suc Q g inv_fetch [OF ok c Suc Q g, of "Some (sb_next s)" "Suc (sb_next s)"]
          inv_fetch [OF ok c Suc Q g, of None "sb_next s"]
        by (auto simp: stub_next_def Let_def split: sum.splits)
    qed
  qed
qed

lemma flush_many:
  assumes "stub_ok s fl" and "\<forall>q \<in> set names. map_of (br_queues s) q \<noteq> None"
  shows "\<exists>s'. for_each stub_flush names s = (Inr (), s') \<and> stub_ok s' fl
    \<and> sb_dead_letters_by_queue s' = sb_dead_letters_by_queue s
    \<and> (\<forall>q Q. map_of (br_queues s') q = Some Q \<longrightarrow>
         (if q \<in> set names then q_items Q = [] else map_of (br_queues s) q = Some Q \<or> q_items Q = []))
    \<and> fst ` set (br_queues s') = fst ` set (br_queues s)"
  using assms
proof (induction names arbitrary: s)
  case Nil
  then show ?case by (auto simp: return_def)
next
  case (Cons n names)
  then obtain Q' where Q': "q_items Q' = []"
    and f: "stub_flush n s = (Inr (), s\<lparr>br_queues := AList.update n Q' (br_queues s)\<rparr>)"
    using flush_ok(2) [OF Cons.prems(1), of n] by auto
  let ?s = "s\<lparr>br_queues := AList.update n Q' (br_queues s)\<rparr>"
  have "stub_ok ?s fl" using flush_ok(1) [OF Cons.prems(1), of n] by (simp add: f)
  moreover have "\<forall>q \<in> set names. map_of (br_queues ?s) q \<noteq> None" using Cons.prems(2) by simp
  ultimately obtain s' where s': "for_each stub_flush names ?s = (Inr (), s')" "stub_ok s' fl"
    "sb_dead_letters_by_queue s' = sb_dead_letters_by_queue s"
    "\<forall>q Q. map_of (br_queues s') q = Some Q \<longrightarrow>
       (if q \<in> set names then q_items Q = [] else map_of (br_queues ?s) q = Some Q \<or> q_items Q = [])"
    "fst ` set (br_queues s') = fst ` set (br_queues ?s)"
    using Cons.IH [of ?s] by auto
  have "n \<in> fst ` set (br_queues s)"
    using Cons.prems(2) by (metis list.set_intros(1) map_of_eq_None_iff)
  then have "fst ` set (br_queues s') = fst ` set (br_queues s)"
    using s'(5) by (simp add: dict_keys_update insert_absorb)
  moreover have "\<forall>q Q. map_of (br_queues s') q = Some Q \<longrightarrow>
       (if q \<in> set (n # names) then q_items Q = [] else map_of (br_queues s) q = Some Q \<or> q_items Q = [])"
    using s'(4) Q' by (auto split: if_splits)
  ultimately show ?case
    using s'(1-3) f by (simp add: andthen_def)
qed

lemma flush_all_ok:
  assumes "stub_ok s fl" and "\<forall>q \<in> set (br_delay_queues s). map_of (br_queues s) q \<noteq> None"
  shows "\<exists>s'. stub_flush_all s = (Inr (), s') \<and> stub_ok s' fl \<and> dead_letters s' = []
    \<and> (\<forall>q Q. map_of (br_queues s') q = Some Q \<longrightarrow> q_items Q = [])"
proof -
  have "\<forall>q \<in> set (map fst (br_queues s) @ br_delay_queues s). map_of (br_queues s) q \<noteq> None"
    using assms(2) by (auto simp: map_of_eq_None_iff)
  from flush_many [OF assms(1) this] obtain s' where
    s': "for_each stub_flush (map fst (br_queues s) @ br_delay_queues s) s = (Inr (), s')" "stub_ok s' fl"
      "fst ` set (br_queues s') = fst ` set (br_queues s)"
      "\<forall>q Q. map_of (br_queues s') q = Some Q \<longrightarrow>
         (if q \<in> set (map fst (br_queues s) @ br_delay_queues s) then q_items Q = []
          else map_of (br_queues s) q = Some Q \<or> q_items Q = [])"
    by auto
  have "q_items Q = []" if "map_of (br_queues s') q = Some Q" for q Q
  proof -
    have "q \<in> fst ` set (br_queues s')" using that by (metis map_of_eq_None_iff option.distinct(1))
    with s'(3,4) that show ?thesis by (auto split: if_splits)
  qed
  with s'(1,2) show ?thesis
    by (auto simp: stub_flush_all_def andthen_def modify_def dead_letters_def)
qed

lemma flush_each_ok: "stub_ok s fl \<Longrightarrow> stub_ok (snd (for_each stub_flush names s)) fl"
  by (rule keepsD [where I = "\<lambda>s. stub_ok s fl", OF keeps_for_each]) (auto intro!: keepsI flush_ok(1))

context quiet_hooks
begin

lemma step_ok:
  assumes "stub_step e M (s, fl) (s', fl')" and "stub_ok s fl"
  shows "stub_ok s' fl'"
  using assms(1)
proof cases
  case (declare_step n)
  with declare_ok assms(2) show ?thesis by simp
next
  case (enqueue_step m d)
  with enqueue_ok assms(2) show ?thesis by simp
next
  case (consume_step q p)
  with assms(2) show ?thesis by (auto simp: stub_consume_def intro!: inv_consume)
next
  case (flush_step q)
  with flush_ok(1) assms(2) show ?thesis by simp
next
  case flush_all_step
  obtain r s1 where "for_each stub_flush (map fst (br_queues s) @ br_delay_queues s) s = (r, s1)" by force
  with flush_all_step flush_each_ok [OF assms(2), of "map fst (br_queues s) @ br_delay_queues s"]
  show ?thesis by (auto simp: stub_flush_all_def proc_simps split: sum.splits)
next
  case (fetch_step c fresh r)
  with fetch_ok [OF assms(2)] show ?thesis by simp
next
  case (ack_step c r)
  with done_ok [OF assms(2)] show ?thesis by simp
next
  case (nack_step c r)
  with done_ok [OF assms(2)] show ?thesis by simp
next
  case other_step
  with stub_ok_view [of s' s] assms(2) show ?thesis by simp
qed

lemma reach_ok: "stub_reach e M x \<Longrightarrow> stub_ok (fst x) (snd x)"
proof (induction rule: stub_reach.induct)
  case (init s)
  then show ?case by (simp add: stub_inv_def)
next
  case (step x y)
  then show ?case using step_ok by (cases x, cases y) auto
qed

end

text \<open>A broker with silent middleware and an encoder that knows one message, for examples.\<close>

definition quiet_mw :: "(string, (string, 'a) stub_broker_scheme) mw_ops" where
  "quiet_mw = \<lparr>mw_isinstance = (\<lambda>m c. m = c), mw_actor_options = (\<lambda>m. {}), mw_run = (\<lambda>m. Middleware)\<rparr>"

definition one_message :: encoder where
  "one_message = \<lparr>enc = (\<lambda>v. Inr ''x''), dec = (\<lambda>s. Inr (PDict (asdict sample_message)))\<rparr>"

definition sample_stub :: "nat \<Rightarrow> (string, unit) stub_broker_scheme" where
  "sample_stub n = \<lparr>br_actors = [], br_queues = [(''default'', \<lparr>q_items = [], q_unfinished = n\<rparr>), (''default.DQ'', pyqueue_empty)],
     br_delay_queues = [''default.DQ''], br_actor_options = {}, br_middleware = [''m''],
     br_proxies = (\<lambda>_. MessageProxy sample_message), br_clock = 0, sb_dead_letters_by_queue = [],
     sb_fail_fast_default = True, sb_consumers = [\<lparr>sc_queue = ''default'', sc_prefetch = 2, sc_slots = 2\<rparr>], sb_next = 0\<rparr>"

definition empty_stub :: "(string, unit) stub_broker_scheme" where
  "empty_stub = (sample_stub 0)\<lparr>br_queues := [], br_delay_queues := [], sb_consumers := []\<rparr>"

lemma quiet_mw_quiet: "quiet_signal h \<Longrightarrow> stub_view (snd (mw_run quiet_mw m h s)) = stub_view s"
  by (simp add: quiet_mw_def Middleware_def return_def)

lemma decode_one_message: "decode one_message fresh now d = Inr sample_message"
  by (simp add: decode_def one_message_def asdict_def of_dict_def message_fields_def)

definition fetched_stub :: "(string, unit) stub_broker_scheme" where
  "fetched_stub =
     snd (stub_next one_message [] 0 (snd (stub_consume ''default'' 1
       (snd (stub_enqueue one_message quiet_mw sample_message None
          (snd (stub_declare_queue quiet_mw ''default'' empty_stub)))))))"

lemmas stub_eval = stub_declare_queue_def stub_enqueue_def stub_consume_def stub_next_def stub_put_def
  stub_delayed_def emit_before_def emit_after_def quiet_mw_def Middleware_def empty_stub_def sample_stub_def
  proc_simps Let_def dq_name_def endswith_def suffix_def pyqueue_empty_def q_put_def q_get_def
  before_handler_def after_handler_def dict_setdefault_def

lemma fetched_stub_reach: "stub_reach one_message quiet_mw (fetched_stub, [(0, Some 0)])"
proof -
  let ?s1 = "snd (stub_declare_queue quiet_mw ''default'' empty_stub)"
  let ?s2 = "snd (stub_enqueue one_message quiet_mw sample_message None ?s1)"
  let ?s3 = "snd (stub_consume ''default'' 1 ?s2)"
  have "stub_reach one_message quiet_mw (empty_stub, [])"
    by (rule stub_reach.init) (simp_all add: empty_stub_def)
  moreover have "stub_step one_message quiet_mw (empty_stub, []) (?s1, [])"
    by (rule declare_step) (simp add: canonical_def endswith_def suffix_def)
  ultimately have "stub_reach one_message quiet_mw (?s3, [])"
    by (blast intro: stub_reach.step enqueue_step consume_step)
  moreover have "fst (stub_next one_message [] 0 ?s3) = Inr (Some 0)" "0 < length (sb_consumers ?s3)"
    by (simp_all add: stub_eval encode_def one_message_def sample_message_def
        decode_one_message [unfolded one_message_def sample_message_def])
  then have "stub_step one_message quiet_mw (?s3, []) (fetched_stub, [(0, Some 0)])"
    using fetch_step [of 0 ?s3 one_message "[]" "Inr (Some 0)" fetched_stub quiet_mw "[]"]
    by (auto simp: fetched_stub_def prod_eq_iff)
  ultimately show ?thesis by (rule stub_reach.step)
qed

text \<open>
  C2. The accounting of the in-memory broker: however declarations, enqueues, consumers, flushes,
  fetches, acks and nacks interleave, the unfinished tasks of a queue are the waiting messages and
  those that are out; every consumer holds exactly as many messages as slots of its semaphore are
  taken, so never more than its prefetch; and acknowledging or rejecting a message that is out
  succeeds, a rejected one joining the dead letters of its queue.
\<close>

theorem stub_accounting:
  assumes "\<And>m h s. quiet_signal h \<Longrightarrow> stub_view (snd (mw_run M m h s)) = stub_view s"
    and "stub_reach e M (s, fl)"
  shows "(\<forall>q Q. map_of (br_queues s) q = Some Q \<longrightarrow>
        q_unfinished Q = length (q_items Q) + held_from (sb_consumers s) q fl)
    \<and> (\<forall>c < length (sb_consumers s).
        held_by c fl \<le> sc_prefetch (sb_consumers s ! c)
        \<and> sc_slots (sb_consumers s ! c) = sc_prefetch (sb_consumers s ! c) - held_by c fl)
    \<and> (\<forall>(c, x) \<in> set fl. \<forall>r. x = Some r \<longrightarrow>
        fst (stub_ack c r s) = Inr () \<and> fst (stub_nack c r s) = Inr ()
        \<and> dead_letters_of (snd (stub_nack c r s)) (sc_queue (sb_consumers s ! c))
          = dead_letters_of s (sc_queue (sb_consumers s ! c)) @ [r])"
proof -
  have ok: "stub_ok s fl"
    using quiet_hooks.reach_ok [OF quiet_hooks.intro [OF assms(1)] assms(2)] by simp
  have nack: "dead_letters_of (snd (stub_nack c r s)) (sc_queue (sb_consumers s ! c))
      = dead_letters_of s (sc_queue (sb_consumers s ! c)) @ [r]" if x: "(c, Some r) \<in> set fl" for c r
  proof -
    obtain Q Q' where "map_of (br_queues s) (sc_queue (sb_consumers s ! c)) = Some Q" "q_task_done Q = Some Q'"
      using inv_done [OF ok x] by blast
    then show ?thesis
      by (simp add: stub_nack_def task_done_def release_def Let_def proc_simps dead_letters_of_def)
  qed
  have "\<forall>(c, x) \<in> set fl. \<forall>r. x = Some r \<longrightarrow>
        fst (stub_ack c r s) = Inr () \<and> fst (stub_nack c r s) = Inr ()
        \<and> dead_letters_of (snd (stub_nack c r s)) (sc_queue (sb_consumers s ! c))
          = dead_letters_of s (sc_queue (sb_consumers s ! c)) @ [r]"
    using done_ok(1,3) [OF ok] nack by auto
  moreover have "sc_slots (sb_consumers s ! c) + held_by c fl = sc_prefetch (sb_consumers s ! c)"
    if "c < length (sb_consumers s)" for c
    using ok that by (simp add: stub_inv_def)
  ultimately show ?thesis
    using ok by (fastforce simp: stub_inv_def)
qed

theorem stub_accounting_witness:
  "stub_reach one_message quiet_mw (fetched_stub, [(0, Some 0)])
   \<and> fst (stub_ack 0 0 fetched_stub) = Inr () \<and> fst (stub_nack 0 0 fetched_stub) = Inr ()"
  using fetched_stub_reach stub_accounting [OF quiet_mw_quiet fetched_stub_reach] by auto

text \<open>
  Flushing everything leaves nothing waiting: in a reachable state \<open>flush_all\<close> returns, every
  queue is empty, all dead letters are gone, and the messages that are out can still be
  acknowledged, the unfinished count of each queue being exactly those.
\<close>

theorem stub_flush_all_empties:
  assumes "\<And>m h s. quiet_signal h \<Longrightarrow> stub_view (snd (mw_run M m h s)) = stub_view s"
    and "stub_reach e M (s, fl)" and "\<forall>q \<in> set (br_delay_queues s). map_of (br_queues s) q \<noteq> None"
  shows "\<exists>s'. stub_flush_all s = (Inr (), s') \<and> dead_letters s' = []
    \<and> (\<forall>q Q. map_of (br_queues s') q = Some Q \<longrightarrow>
         q_items Q = [] \<and> q_unfinished Q = held_from (sb_consumers s') q fl)"
proof -
  have "stub_ok s fl"
    using quiet_hooks.reach_ok [OF quiet_hooks.intro [OF assms(1)] assms(2)] by simp
  from flush_all_ok [OF this assms(3)] show ?thesis
    by (auto simp: stub_inv_def)
qed

theorem stub_flush_all_empties_witness:
  "\<exists>s'. stub_flush_all fetched_stub = (Inr (), s') \<and> dead_letters s' = []
     \<and> (\<forall>q Q. map_of (br_queues s') q = Some Q \<longrightarrow> q_items Q = [])"
proof -
  have "\<forall>q \<in> set (br_delay_queues fetched_stub). map_of (br_queues fetched_stub) q \<noteq> None"
    by (simp add: fetched_stub_def stub_eval encode_def one_message_def sample_message_def
        decode_one_message [unfolded one_message_def sample_message_def])
  from stub_flush_all_empties [OF quiet_mw_quiet fetched_stub_reach this] show ?thesis by blast
qed

section \<open>Delivery\<close>

text \<open>Fetching \<open>n\<close> times with one consumer.\<close>

fun fetch_n :: "encoder \<Rightarrow> string \<Rightarrow> nat \<Rightarrow> nat \<Rightarrow> ('m, 'a) stub_broker_scheme
    \<Rightarrow> (exn + proxy_ref option) list \<times> ('m, 'a) stub_broker_scheme" where
  "fetch_n e fresh c 0 s = ([], s)"
| "fetch_n e fresh c (Suc n) s =
     (case stub_next e fresh c s of (r, s) \<Rightarrow> (case fetch_n e fresh c n s of (rs, s) \<Rightarrow> (r # rs, s)))"

lemma fetch_n_delivers:
  assumes "c < length (sb_consumers s)" and "map_of (br_queues s) (sc_queue (sb_consumers s ! c)) = Some Q"
    and "length data \<le> sc_slots (sb_consumers s ! c)" and "q_items Q = data @ rest"
    and "\<forall>i < length data. \<forall>t. decode e fresh t (data ! i) = Inr (ms i)"
  shows "\<exists>s'. fetch_n e fresh c (length data) s = (map (\<lambda>i. Inr (Some (sb_next s + i))) [0..<length data], s')
    \<and> (\<forall>i < length data. br_proxies s' (sb_next s + i) = MessageProxy (ms i))
    \<and> (\<forall>r < sb_next s. br_proxies s' r = br_proxies s r)"
  using assms
proof (induction data arbitrary: s Q ms)
  case Nil
  then show ?case by auto
next
  case (Cons d data)
  let ?C = "sb_consumers s ! c"
  obtain k where k: "sc_slots ?C = Suc k" and len: "length data \<le> k"
    using Cons.prems(3) by (cases "sc_slots ?C") auto
  let ?Q = "Q\<lparr>q_items := data @ rest\<rparr>"
  have g: "q_get Q = Some (d, ?Q)" using Cons.prems(4) by (simp add: q_get_def)
  have d: "decode e fresh t d = Inr (ms 0)" for t
    using Cons.prems(5) [rule_format, of 0 t] by simp
  let ?s = "s\<lparr>sb_consumers := (sb_consumers s)[c := ?C\<lparr>sc_slots := k\<rparr>],
              br_queues := AList.update (sc_queue ?C) ?Q (br_queues s),
              br_proxies := (br_proxies s)(sb_next s := MessageProxy (ms 0)), sb_next := Suc (sb_next s)\<rparr>"
  have n: "stub_next e fresh c s = (Inr (Some (sb_next s)), ?s)"
    using k g d Cons.prems(2) by (simp add: stub_next_def Let_def)
  have "\<exists>s'. fetch_n e fresh c (length data) ?s = (map (\<lambda>i. Inr (Some (sb_next ?s + i))) [0..<length data], s')
    \<and> (\<forall>i < length data. br_proxies s' (sb_next ?s + i) = MessageProxy (ms (Suc i)))
    \<and> (\<forall>r < sb_next ?s. br_proxies s' r = br_proxies ?s r)"
  proof (rule Cons.IH [where Q = ?Q])
    show "\<forall>i < length data. \<forall>t. decode e fresh t (data ! i) = Inr (ms (Suc i))"
      using Cons.prems(5) by (metis length_Cons not_less_eq nth_Cons_Suc)
  qed (use Cons.prems(1) len in \<open>simp_all add: inv_slots\<close>)
  then obtain s' where s': "fetch_n e fresh c (length data) ?s = (map (\<lambda>i. Inr (Some (sb_next s + Suc i))) [0..<length data], s')"
    "\<forall>i < length data. br_proxies s' (sb_next s + Suc i) = MessageProxy (ms (Suc i))"
    "\<forall>r < Suc (sb_next s). br_proxies s' r = (if r = sb_next s then MessageProxy (ms 0) else br_proxies s r)"
    by auto
  have "[0..<length (d # data)] = 0 # map Suc [0..<length data]"
    by (simp add: map_Suc_upt upt_conv_Cons del: upt_Suc)
  moreover have "br_proxies s' (sb_next s + i) = MessageProxy (ms i)" if "i < length (d # data)" for i
    using s'(2,3) that by (cases i) auto
  ultimately show ?case
    using s' n by (auto simp: comp_def simp del: upt_Suc)
qed

context quiet_hooks
begin

lemma enqueue_Inr:
  assumes "stub_enqueue e M m d s = (Inr m', s')"
  shows "m' = stub_delayed (br_clock s) m d
    \<and> (\<exists>Q data. map_of (br_queues s) (queue_name m') = Some Q \<and> encode e m' = Inr data
        \<and> stub_view s' = (AList.update (queue_name m') (q_put data Q) (br_queues s), sb_consumers s, sb_next s,
                          sb_dead_letters_by_queue s))"
proof -
  let ?m = "stub_delayed (br_clock s) m d"
  obtain s1 where 1: "emit_before M (Before_enqueue ?m d) s = (Inr (), s1)"
    and rest: "andthen (stub_put e (queue_name ?m) ?m) (\<lambda>_. andthen (emit_after M (After_enqueue ?m d)) (\<lambda>_. return ?m)) s1
      = (Inr m', s')"
    using assms by (auto simp: stub_enqueue_def Let_def andthen_def split: if_splits sum.splits prod.splits)
  obtain s2 where 2: "stub_put e (queue_name ?m) ?m s1 = (Inr (), s2)"
    and 3: "emit_after M (After_enqueue ?m d) s2 = (Inr (), s')" and m': "m' = ?m"
    using rest by (auto simp: proc_simps split: sum.splits prod.splits)
  have "stub_view s1 = stub_view s" "stub_view s' = stub_view s2"
    using emit_quiet(1) [of "Before_enqueue ?m d" s] emit_quiet(2) [of "After_enqueue ?m d" s2] 1 3 by simp_all
  with 2 m' show ?thesis
    by (auto simp: stub_put_def stub_view_def split: option.splits sum.splits)
qed

lemma enqueue_many:
  assumes "for_each (\<lambda>m. andthen (stub_enqueue e M m None) (\<lambda>_. return ())) ms s = (Inr (), s')"
    and "\<forall>m \<in> set ms. queue_name m = name" and "map_of (br_queues s) name = Some Q"
  shows "\<exists>Q' data. map_of (br_queues s') name = Some Q' \<and> q_items Q' = q_items Q @ data
    \<and> list_all2 (\<lambda>m d. encode e m = Inr d) ms data
    \<and> sb_consumers s' = sb_consumers s \<and> sb_next s' = sb_next s"
  using assms
proof (induction ms arbitrary: s Q)
  case Nil
  then show ?case by (auto simp: return_def)
next
  case (Cons m ms)
  obtain m1 s1 where e: "stub_enqueue e M m None s = (Inr m1, s1)"
    and rest: "for_each (\<lambda>m. andthen (stub_enqueue e M m None) (\<lambda>_. return ())) ms s1 = (Inr (), s')"
    using Cons.prems(1) by (auto simp: proc_simps split: sum.splits prod.splits)
  from enqueue_Inr [OF e] Cons.prems(2,3) obtain data where "encode e m = Inr data"
    and v: "stub_view s1 = (AList.update name (q_put data Q) (br_queues s), sb_consumers s, sb_next s,
                          sb_dead_letters_by_queue s)"
    by (auto simp: stub_delayed_def)
  moreover from v have "map_of (br_queues s1) name = Some (q_put data Q)" by (simp add: stub_view_def)
  from Cons.IH [OF rest _ this] Cons.prems(2) obtain Q' ds where
    "map_of (br_queues s') name = Some Q'" "q_items Q' = q_items (q_put data Q) @ ds"
    "list_all2 (\<lambda>m d. encode e m = Inr d) ms ds" "sb_consumers s' = sb_consumers s1" "sb_next s' = sb_next s1"
    by auto
  ultimately show ?case
    by (intro exI [of _ Q'] exI [of _ "data # ds"]) (simp_all add: stub_view_def q_put_def)
qed

end

text \<open>What a message is once it went through the default encoder.\<close>

definition json_message :: "message \<Rightarrow> message" where
  "json_message m = m\<lparr>args := map listify (args m),
     kwargs := map (\<lambda>(k, v). (k, listify v)) (kwargs m), options := map (\<lambda>(k, v). (k, listify v)) (options m)\<rparr>"

text \<open>
  Messages arrive complete and in order: messages sent to an empty queue come out of its
  consumer in the order they were sent, each exactly once and unchanged up to the encoding, in
  fresh proxies that are not failed and carry no exception.
\<close>

theorem stub_fifo:
  assumes "\<And>m h s. quiet_signal h \<Longrightarrow> stub_view (snd (mw_run M m h s)) = stub_view s"
    and "\<forall>m \<in> set ms. queue_name m = name \<and> json_wf (PDict (asdict m))"
    and "map_of (br_queues s) name = Some Q" and "q_items Q = []"
    and "c < length (sb_consumers s)" and "sc_queue (sb_consumers s ! c) = name"
    and "length ms \<le> sc_slots (sb_consumers s ! c)"
    and "for_each (\<lambda>m. andthen (stub_enqueue JSONEncoder M m None) (\<lambda>_. return ())) ms s = (Inr (), s1)"
  shows "\<exists>s2. fetch_n JSONEncoder fresh c (length ms) s1
        = (map (\<lambda>i. Inr (Some (sb_next s + i))) [0..<length ms], s2)
    \<and> (\<forall>i < length ms. br_proxies s2 (sb_next s + i) = MessageProxy (json_message (ms ! i)))"
proof -
  obtain Q' data where Q': "map_of (br_queues s1) name = Some Q'" "q_items Q' = data"
    and enc: "list_all2 (\<lambda>m d. encode JSONEncoder m = Inr d) ms data"
    and same: "sb_consumers s1 = sb_consumers s" "sb_next s1 = sb_next s"
    using quiet_hooks.enqueue_many [OF quiet_hooks.intro [OF assms(1)] assms(8) _ assms(3)] assms(2,4) by auto
  have len: "length data = length ms" using enc by (simp add: list_all2_lengthD)
  have dec: "\<forall>i < length data. \<forall>t. decode JSONEncoder fresh t (data ! i) = Inr (json_message (ms ! i))"
  proof (intro allI impI)
    fix i t assume "i < length data"
    then have "encode JSONEncoder (ms ! i) = Inr (data ! i)" "json_wf (PDict (asdict (ms ! i)))"
      using enc assms(2) len by (auto simp: list_all2_conv_all_nth)
    then show "decode JSONEncoder fresh t (data ! i) = Inr (json_message (ms ! i))"
      using json.decode_encode [of "ms ! i" "data ! i" fresh t] by (simp add: json_message_def)
  qed
  show ?thesis
    using fetch_n_delivers [of c s1 Q' data "[]" JSONEncoder fresh "\<lambda>i. json_message (ms ! i)"] dec Q' assms(5-7)
    by (auto simp: same len)
qed

theorem stub_fifo_witness:
  "\<exists>s1 s2. for_each (\<lambda>m. andthen (stub_enqueue JSONEncoder quiet_mw m None) (\<lambda>_. return ()))
       [sample_message, sample_message] (sample_stub 0) = (Inr (), s1)
     \<and> fetch_n JSONEncoder [] 0 2 s1 = ([Inr (Some 0), Inr (Some 1)], s2)
     \<and> br_proxies s2 1 = MessageProxy (json_message sample_message)"
proof -
  let ?f = "for_each (\<lambda>m. andthen (stub_enqueue JSONEncoder quiet_mw m None) (\<lambda>_. return ()))
       [sample_message, sample_message] (sample_stub 0)"
  obtain data where d: "encode JSONEncoder sample_message = Inr data"
    by (simp add: encode_def JSONEncoder_def sample_message_def asdict_def json_dumps.simps)
  have q: "queue_name sample_message = ''default''" and wf: "json_wf (PDict (asdict sample_message))"
    by (simp_all add: sample_message_def json_wf_asdict dict_wf_def asdict_def)
  have "\<exists>s1. ?f = (Inr (), s1)"
    by (simp add: stub_eval d q)
  then obtain s1 where s1: "?f = (Inr (), s1)" by blast
  have "\<exists>s2. fetch_n JSONEncoder [] 0 (length [sample_message, sample_message]) s1
        = (map (\<lambda>i. Inr (Some (sb_next (sample_stub 0) + i))) [0..<length [sample_message, sample_message]], s2)
    \<and> (\<forall>i < length [sample_message, sample_message]. br_proxies s2 (sb_next (sample_stub 0) + i)
          = MessageProxy (json_message ([sample_message, sample_message] ! i)))"
    by (rule stub_fifo [OF quiet_mw_quiet _ _ _ _ _ _ s1, of "''default''"])
      (use q wf in \<open>auto simp: sample_stub_def\<close>)
  then obtain s2 where "fetch_n JSONEncoder [] 0 (Suc (Suc 0)) s1 = ([Inr (Some 0), Inr (Some 1)], s2)"
    "\<forall>i < Suc (Suc 0). br_proxies s2 i = MessageProxy (json_message ([sample_message, sample_message] ! i))"
    by (auto simp: sample_stub_def simp del: fetch_n.simps)
  moreover from this(2) have "br_proxies s2 1 = MessageProxy (json_message sample_message)"
    by (metis One_nat_def lessI nth_Cons_0 nth_Cons_Suc)
  ultimately show ?thesis
    using s1 unfolding numeral_2_eq_2 by blast
qed

lemma stub_join_loop_result:
  assumes "stub_join_loop fuel wait name names deadline ff s = Some (Inr (), s')"
  shows "list_all (\<lambda>q. case map_of (br_queues s') q of Some q \<Rightarrow> q_joined q | None \<Rightarrow> True) names
    \<and> (ff \<longrightarrow> dead_letters_of s' name = [])"
  using assms
proof (induction fuel arbitrary: s)
  case (Suc fuel)
  then show ?case
    by (auto split: prod.splits sum.splits if_splits list.splits bool.splits)
qed simp

text \<open>
  Joining means that everything is done: when \<open>join\<close> returns, the queue and its delay queue have
  no unfinished task and, unless failing fast was turned off, no message of the queue is
  dead-lettered.
\<close>

theorem stub_join_done:
  assumes "stub_join fuel wait name timeout fail_fast s = Some (Inr (), s')"
  shows "(\<forall>q \<in> {name, dq_name name}. \<forall>Q. map_of (br_queues s') q = Some Q \<longrightarrow> q_unfinished Q = 0)
    \<and> ((case fail_fast of Some f \<Rightarrow> f | None \<Rightarrow> sb_fail_fast_default s) \<longrightarrow> dead_letters_of s' name = [])"
proof -
  have "list_all (\<lambda>q. case map_of (br_queues s') q of Some q \<Rightarrow> q_joined q | None \<Rightarrow> True) [name, dq_name name]
    \<and> ((case fail_fast of Some f \<Rightarrow> f | None \<Rightarrow> sb_fail_fast_default s) \<longrightarrow> dead_letters_of s' name = [])"
    using assms by (intro stub_join_loop_result) (auto simp: stub_join_def Let_def split: if_splits)
  then show ?thesis by (auto simp: q_joined_def split: option.splits)
qed

text \<open>Waiting here means that a worker finishes one task.\<close>

definition sample_wait :: "string \<Rightarrow> int option \<Rightarrow> ((string, unit) stub_broker_scheme, unit) proc" where
  "sample_wait q t s = (Inr (), snd (task_done q s))"

theorem stub_join_done_witness:
  "\<exists>s'. stub_join 2 sample_wait ''default'' None None (sample_stub 2) = Some (Inr (), s')
     \<and> map_option q_unfinished (map_of (br_queues s') ''default'') = Some 0"
proof -
  have "\<exists>s'. stub_join 2 sample_wait ''default'' None None (sample_stub 2) = Some (Inr (), s')
     \<and> map_of (br_queues s') ''default'' = Some \<lparr>q_items = [], q_unfinished = 0\<rparr>"
    by (simp add: stub_join_def numeral_2_eq_2 sample_wait_def sample_stub_def task_done_def q_task_done_def
        q_joined_def proc_simps Let_def dq_name_def endswith_def suffix_def pyqueue_empty_def dead_letters_of_def)
  then obtain s' where j: "stub_join 2 sample_wait ''default'' None None (sample_stub 2) = Some (Inr (), s')"
    and q: "map_of (br_queues s') ''default'' = Some \<lparr>q_items = [], q_unfinished = 0\<rparr>" by blast
  show ?thesis using j q stub_join_done [OF j] by auto
qed

end
