(* ===== verification/Middlewares.thy ===== *)
theory Middlewares
  imports Actor Rate_Limiters
begin

text \<open>
  The middleware of \<^verbatim>\<open>dramatiq/middleware\<close> that decide what happens to a message: \<open>AgeLimit\<close>,
  \<open>Retries\<close>, \<open>Callbacks\<close>, \<open>Pipelines\<close> and \<open>GroupCallbacks\<close>. Each hook is a computation over the
  state of any broker; what the hooks ask of their surroundings is collected in \<open>mw_env\<close>.
\<close>

section \<open>Surroundings\<close>

text \<open>
  The broker's \<open>enqueue\<close>; a fresh message identifier; which option values are \<open>Actor\<close> objects; the
  two random draws of a backoff; the formatted traceback; and calling a \<open>retry_when\<close> predicate.
\<close>

record 's mw_env =
  me_enqueue :: "message \<Rightarrow> int option \<Rightarrow> ('s, message) proc"
  me_uuid :: string
  me_actor_of :: "pyval \<Rightarrow> string option"
  me_u :: real
  me_w :: real
  me_traceback :: string
  me_retry_when :: "pyval \<Rightarrow> int \<Rightarrow> exn \<Rightarrow> ('s, pyval) proc"

text \<open>Numbers: a \<open>bool\<close> is an \<open>int\<close>; arithmetic and comparison on anything else is a \<open>TypeError\<close>.\<close>

fun as_int :: "pyval \<Rightarrow> int option" where
  "as_int (PInt i) = Some i"
| "as_int (PBool b) = Some (if b then 1 else 0)"
| "as_int _ = None"

definition number :: "pyval \<Rightarrow> ('s, int) proc" where
  "number v = (case as_int v of Some i \<Rightarrow> return i | None \<Rightarrow> raise (mk_exn TypeError ''not a number''))"

text \<open>Looking an actor up under a name that came out of the options, and sending to it.\<close>

definition get_actor_named :: "pyval \<Rightarrow> (('m, 'q, 'a) broker_scheme, actor) proc" where
  "get_actor_named v = (case v of PStr n \<Rightarrow> get_actor n | _ \<Rightarrow> raise (mk_exn ActorNotFound ''''))"

definition send_to ::
  "('m, 'q, 'a) broker_scheme mw_env \<Rightarrow> pyval \<Rightarrow> pyval list \<Rightarrow> (('m, 'q, 'a) broker_scheme, unit) proc" where
  "send_to E target xs =
     andthen (get_actor_named target) (\<lambda>target_actor.
     andthen (send (me_actor_of E) (me_uuid E) (me_enqueue E) target_actor xs) (\<lambda>_. return ()))"

text \<open>\<open>message.options.get(k) or actor.options.get(k)\<close>, and with defaults for a missing key.\<close>

definition option_or :: "message \<Rightarrow> actor \<Rightarrow> string \<Rightarrow> pyval" where
  "option_or m actor k = py_or (dget (options m) k) (dget (ac_options actor) k)"

definition option_default :: "message \<Rightarrow> actor \<Rightarrow> string \<Rightarrow> pyval \<Rightarrow> pyval" where
  "option_default m actor k v = dget_default (options m) k (dget_default (ac_options actor) k v)"

section \<open>AgeLimit\<close>

definition AgeLimit_before_process_message :: "pyval \<Rightarrow> proxy_ref \<Rightarrow> (('m, 'q, 'a) broker_scheme, unit) proc" where
  "AgeLimit_before_process_message default_max_age r =
     andthen (get_state (\<lambda>s. message_at s r)) (\<lambda>message.
     andthen (get_actor (actor_name message)) (\<lambda>actor.
     (let max_age = py_or (dget (options message) ''max_age'')
                          (dget_default (ac_options actor) ''max_age'' default_max_age)
      in if \<not> truthy max_age then return ()
         else
           andthen (number max_age) (\<lambda>max_age.
           andthen (get_state br_clock) (\<lambda>now.
             if now - message_timestamp message \<ge> max_age
             then andthen (fail r) (\<lambda>_. raise (mk_exn SkipMessage ''Message age limit exceeded''))
             else return ())))))"

section \<open>Retries\<close>

definition DEFAULT_MIN_BACKOFF :: int where "DEFAULT_MIN_BACKOFF = 15000"

definition DEFAULT_MAX_BACKOFF :: int where "DEFAULT_MAX_BACKOFF = 86400000 * 7"

record retries =
  rt_max_retries :: pyval
  rt_min_backoff :: int
  rt_max_backoff :: int
  rt_retry_when :: pyval

text \<open>\<open>__init__\<close>: a backoff that is absent or 0 takes the default.\<close>

definition Retries :: "pyval \<Rightarrow> int option \<Rightarrow> int option \<Rightarrow> pyval \<Rightarrow> retries" where
  "Retries max_retries min_backoff max_backoff retry_when =
     (let or = (\<lambda>x d. case x of None \<Rightarrow> d | Some i \<Rightarrow> if i = 0 then d else i)
      in \<lparr>rt_max_retries = max_retries, rt_min_backoff = or min_backoff DEFAULT_MIN_BACKOFF,
          rt_max_backoff = or max_backoff DEFAULT_MAX_BACKOFF, rt_retry_when = retry_when\<rparr>)"

text \<open>\<open>throws and isinstance(exception, throws)\<close>.\<close>

definition thrown :: "pyval \<Rightarrow> exn \<Rightarrow> ('s, bool) proc" where
  "thrown throws e =
     (if truthy throws
      then (case isinstance_of e throws of Inl err \<Rightarrow> raise err | Inr b \<Rightarrow> return b)
      else return False)"

text \<open>
  The count and the bookkeeping written into the message's options; gives the count before.
\<close>

definition count_retry :: "string \<Rightarrow> proxy_ref \<Rightarrow> (('m, 'q, 'a) broker_scheme, int) proc" where
  "count_retry traceback r =
     andthen (get_state (\<lambda>s. fst (dict_setdefault ''retries'' (PInt 0) (options (message_at s r))))) (\<lambda>retries.
     andthen (update_options r (\<lambda>d. snd (dict_setdefault ''retries'' (PInt 0) d))) (\<lambda>_.
     andthen (number retries) (\<lambda>retries.
     andthen (update_options r (AList.update ''retries'' (PInt (retries + 1)))) (\<lambda>_.
     andthen (update_options r (AList.update ''traceback'' (PStr traceback))) (\<lambda>_.
     andthen (get_state br_clock) (\<lambda>now.
     andthen (update_options r (AList.update ''requeue_timestamp'' (PInt now))) (\<lambda>_.
       return retries)))))))"

text \<open>The condition under which no more retries are made.\<close>

definition retries_exceeded ::
  "'s mw_env \<Rightarrow> pyval \<Rightarrow> pyval \<Rightarrow> int \<Rightarrow> exn \<Rightarrow> ('s, bool) proc" where
  "retries_exceeded E retry_when max_retries retries e =
     (if retry_when \<noteq> PNone
      then andthen (me_retry_when E retry_when retries e) (\<lambda>b. return (\<not> truthy b))
      else if max_retries \<noteq> PNone
      then andthen (number max_retries) (\<lambda>max_retries. return (retries \<ge> max_retries))
      else return False)"

definition retry_delay :: "'s mw_env \<Rightarrow> retries \<Rightarrow> message \<Rightarrow> actor \<Rightarrow> int \<Rightarrow> exn \<Rightarrow> ('s, int) proc" where
  "retry_delay E cfg message actor retries e =
     (case (isinstance e Retry, exn_delay e) of
        (True, Some delay) \<Rightarrow> return delay
      | _ \<Rightarrow>
        andthen (number (option_default message actor ''min_backoff'' (PInt (rt_min_backoff cfg)))) (\<lambda>min_backoff.
        andthen (number (option_default message actor ''max_backoff'' (PInt (rt_max_backoff cfg)))) (\<lambda>max_backoff.
        (let max_backoff = min max_backoff DEFAULT_MAX_BACKOFF
         in return (snd (compute_backoff (nat retries) min_backoff True max_backoff max_exponent_default
                           (me_u E) (me_w E)))))))"

definition Retries_after_process_message ::
  "('m, 'q, 'a) broker_scheme mw_env \<Rightarrow> retries \<Rightarrow> proxy_ref \<Rightarrow> exn option
   \<Rightarrow> (('m, 'q, 'a) broker_scheme, unit) proc" where
  "Retries_after_process_message E cfg r exception =
     (case exception of
        None \<Rightarrow> return ()
      | Some e \<Rightarrow>
          andthen (get_state (\<lambda>s. message_at s r)) (\<lambda>message.
          andthen (get_actor (actor_name message)) (\<lambda>actor.
          andthen (thrown (option_or message actor ''throws'') e) (\<lambda>aborted.
          if aborted then fail r
          else
            andthen (count_retry (me_traceback E) r) (\<lambda>retries.
            andthen (get_state (\<lambda>s. message_at s r)) (\<lambda>message.
            (let max_retries = option_default message actor ''max_retries'' (rt_max_retries cfg);
                 retry_when = dget_default (ac_options actor) ''retry_when'' (rt_retry_when cfg)
             in andthen (retries_exceeded E retry_when max_retries retries e) (\<lambda>exceeded.
                if exceeded then
                  andthen (fail r) (\<lambda>_.
                  (let target_actor_name = option_or message actor ''on_retry_exhausted''
                   in if truthy target_actor_name
                      then send_to E target_actor_name
                             [PDict (asdict message), PDict [(''retries'', PInt retries), (''max_retries'', max_retries)]]
                      else return ()))
                else
                  andthen (retry_delay E cfg message actor retries e) (\<lambda>delay.
                  andthen (me_enqueue E message (Some delay)) (\<lambda>_. return ()))))))))))"

section \<open>Callbacks\<close>

definition Callbacks_after_process_message ::
  "('m, 'q, 'a) broker_scheme mw_env \<Rightarrow> proxy_ref \<Rightarrow> pyval \<Rightarrow> exn option \<Rightarrow> (('m, 'q, 'a) broker_scheme, unit) proc" where
  "Callbacks_after_process_message E r result exception =
     andthen (get_state (\<lambda>s. message_at s r)) (\<lambda>message.
     andthen (get_actor (actor_name message)) (\<lambda>actor.
     (case exception of
        None \<Rightarrow>
          (let target_actor_name = option_or message actor ''on_success''
           in if truthy target_actor_name
              then send_to E target_actor_name [PDict (asdict message), result]
              else return ())
      | Some e \<Rightarrow>
          (let target_actor_name = option_or message actor ''on_failure''
           in if truthy target_actor_name
              then send_to E target_actor_name
                     [PDict (asdict message),
                      PDict [(''type'', PStr (class_name (exn_cls e))), (''message'', PStr (exn_str e))]]
              else return ()))))"

section \<open>Pipelines\<close>

text \<open>\<open>Message(**data)\<close> for a value out of the options.\<close>

definition message_of :: "'s mw_env \<Rightarrow> int \<Rightarrow> pyval \<Rightarrow> exn + message" where
  "message_of E now v =
     (case v of PDict d \<Rightarrow> of_dict (me_uuid E) now d
      | _ \<Rightarrow> Inl (mk_exn TypeError ''argument after ** must be a mapping''))"

definition delay_option :: "pyval \<Rightarrow> ('s, int option) proc" where
  "delay_option v = (if v = PNone then return None else andthen (number v) (\<lambda>d. return (Some d)))"

definition Pipelines_forward ::
  "'s mw_env \<Rightarrow> actor \<Rightarrow> pyval \<Rightarrow> message \<Rightarrow> ('s, unit) proc" where
  "Pipelines_forward E actor result next_message =
     (let pipe_ignore = option_or next_message actor ''pipe_ignore'';
          next_message = (if truthy pipe_ignore then next_message
            else copy (\<lambda>m. m\<lparr>args := args next_message @ [result]\<rparr>) [] next_message)
      in andthen (delay_option (dget (options next_message) ''delay'')) (\<lambda>delay.
         andthen (me_enqueue E next_message delay) (\<lambda>_. return ())))"

definition Pipelines_after_process_message ::
  "('m, 'q, 'a) broker_scheme mw_env \<Rightarrow> proxy_ref \<Rightarrow> pyval \<Rightarrow> exn option \<Rightarrow> (('m, 'q, 'a) broker_scheme, unit) proc" where
  "Pipelines_after_process_message E r result exception =
     andthen (get_state (\<lambda>s. (proxy_at s r, br_clock s))) (\<lambda>(p, now).
     if exception \<noteq> None \<or> px_failed p then return ()
     else
       andthen (get_actor (actor_name (px_message p))) (\<lambda>actor.
       (let message_data = dget (options (px_message p)) ''pipe_target''
        in if message_data = PNone then return ()
           else
             (case message_of E now message_data of
                Inl e \<Rightarrow> raise e
              | Inr next_message \<Rightarrow> Pipelines_forward E actor result next_message))))"

section \<open>GroupCallbacks\<close>

definition GroupCallbacks_after_process_message ::
  "('m, 'q, 'a) broker_scheme mw_env \<Rightarrow> ('m, 'q, 'a) broker_scheme rl_backend \<Rightarrow> int \<Rightarrow> proxy_ref \<Rightarrow> exn option
   \<Rightarrow> (('m, 'q, 'a) broker_scheme, unit) proc" where
  "GroupCallbacks_after_process_message E B barrier_ttl r exception =
     (if exception \<noteq> None then return ()
      else
        andthen (get_state (\<lambda>s. options (message_at s r))) (\<lambda>opts.
        (let group_completion_uuid = dget opts ''group_completion_uuid'';
             group_completion_callbacks = dget opts ''group_completion_callbacks''
         in case (group_completion_uuid, group_completion_callbacks) of
              (PStr uuid, PList callbacks) \<Rightarrow>
                (if uuid = [] \<or> callbacks = [] then return ()
                 else
                   andthen (barrier_wait B uuid barrier_ttl False None) (\<lambda>cleared.
                     if cleared then
                       for_each (\<lambda>data s. (case message_of E (br_clock s) data of
                           Inl e \<Rightarrow> (Inl e, s)
                         | Inr message \<Rightarrow> andthen (me_enqueue E message None) (\<lambda>_. return ()) s)) callbacks
                     else return ()))
            | (u, c) \<Rightarrow>
                if truthy u \<and> truthy c then raise (mk_exn TypeError ''group options'') else return ())))"

section \<open>What Retries does\<close>

text \<open>The options of a message after one more retry was counted.\<close>

definition counted :: "string \<Rightarrow> int \<Rightarrow> int \<Rightarrow> pydict \<Rightarrow> pydict" where
  "counted traceback now k d =
     AList.update ''requeue_timestamp'' (PInt now) (AList.update ''traceback'' (PStr traceback)
       (AList.update ''retries'' (PInt (k + 1)) (snd (dict_setdefault ''retries'' (PInt 0) d))))"

definition counted_message :: "string \<Rightarrow> int \<Rightarrow> int \<Rightarrow> message \<Rightarrow> message" where
  "counted_message tb now k m = m\<lparr>options := counted tb now k (options m)\<rparr>"

lemma counted_simps [simp]:
  "map_of (counted tb now k d) x =
     (if x = ''requeue_timestamp'' then Some (PInt now) else if x = ''traceback'' then Some (PStr tb)
      else if x = ''retries'' then Some (PInt (k + 1)) else map_of d x)"
  by (auto simp: counted_def dict_setdefault_def split: option.split)

lemma dget_counted [simp]:
  "dget (counted tb now k d) x =
     (if x = ''requeue_timestamp'' then PInt now else if x = ''traceback'' then PStr tb
      else if x = ''retries'' then PInt (k + 1) else dget d x)"
  "dget_default (counted tb now k d) x v =
     (if x = ''requeue_timestamp'' then PInt now else if x = ''traceback'' then PStr tb
      else if x = ''retries'' then PInt (k + 1) else dget_default d x v)"
  by (simp_all add: dget_def dget_default_def)

lemma update_options_apply:
  "update_options r f s = (Inr (), update_proxy r (\<lambda>p. p\<lparr>px_message := (px_message p)\<lparr>options := f (options (px_message p))\<rparr>\<rparr>) s)"
  by (simp add: update_options_def modify_def)

lemma update_proxy_twice [simp]: "update_proxy r f (update_proxy r g s) = update_proxy r (\<lambda>p. f (g p)) s"
  by (simp add: update_proxy_def)

lemma count_retry_eq:
  assumes "dget_default (options (message_at s r)) ''retries'' (PInt 0) = PInt k"
  shows "count_retry tb r s = (Inr k, update_proxy r (\<lambda>p. p\<lparr>px_message := (px_message p)\<lparr>options :=
           counted tb (br_clock s) k (options (px_message p))\<rparr>\<rparr>) s)"
proof -
  have "fst (dict_setdefault ''retries'' (PInt 0) (options (message_at s r))) = PInt k"
    using assms by (auto simp: dict_setdefault_def dget_default_def split: option.splits)
  then show ?thesis
    by (simp add: count_retry_def andthen_def get_state_def return_def update_options_apply number_def counted_def)
qed

lemma get_actor_found: "map_of (br_actors s) n = Some a \<Longrightarrow> get_actor n s = (Inr a, s)"
  by (simp add: get_actor_def)

lemma retry_delay_eq:
  assumes "option_default m actor ''min_backoff'' (PInt (rt_min_backoff cfg)) = PInt mn"
    and "option_default m actor ''max_backoff'' (PInt (rt_max_backoff cfg)) = PInt mx"
  shows "retry_delay E cfg m actor k e s =
    (Inr (case (isinstance e Retry, exn_delay e) of (True, Some d) \<Rightarrow> d
          | _ \<Rightarrow> snd (compute_backoff (nat k) mn True (min mx DEFAULT_MAX_BACKOFF) max_exponent_default (me_u E) (me_w E))), s)"
  using assms by (auto simp: retry_delay_def number_def proc_simps Let_def split: bool.split option.split)

text \<open>
  Whether no more retries are made: a predicate, with its answer, takes precedence over the maximum,
  which may be \<open>None\<close> for no maximum.
\<close>

definition gives_up :: "pyval \<Rightarrow> pyval \<Rightarrow> pyval \<Rightarrow> int \<Rightarrow> bool" where
  "gives_up retry_when answer max_retries k =
     (if retry_when \<noteq> PNone then \<not> truthy answer else (\<exists>n. max_retries = PInt n \<and> k \<ge> n))"

text \<open>The message for the actor that is told of a message that is given up.\<close>

definition exhausted_message :: "string \<Rightarrow> int \<Rightarrow> actor \<Rightarrow> message \<Rightarrow> int \<Rightarrow> pyval \<Rightarrow> message" where
  "exhausted_message uuid now target m k max_retries =
     \<lparr>queue_name = ac_queue target, actor_name = ac_name target,
      args = [PDict (asdict m), PDict [(''retries'', PInt k), (''max_retries'', max_retries)]], kwargs = [], options = [],
      message_id = uuid, message_timestamp = now\<rparr>"

lemma send_to_eq:
  assumes "me_actor_of E PNone = None"
  shows "map_of (br_actors s) name = Some target \<Longrightarrow>
      send_to E (PStr name) xs s = andthen (me_enqueue E \<lparr>queue_name = ac_queue target, actor_name = ac_name target, args = xs,
        kwargs = [], options = [], message_id = me_uuid E, message_timestamp = br_clock s\<rparr> None) (\<lambda>_. return ()) s"
    "map_of (br_actors s) name = None \<Longrightarrow> \<exists>err. send_to E (PStr name) xs s = (Inl err, s) \<and> isinstance err ActorNotFound"
  using assms by (simp_all add: send_to_def get_actor_named_def get_actor_def send_def send_with_options_def message_with_options_def
      resolve_callback_def dget_def andthen_def issubclass_code)

lemma Retries_cases:
  assumes m: "message_at s r = m" and actor: "map_of (br_actors s) (actor_name m) = Some actor"
    and throws: "throws = option_or m actor ''throws''"
      "if truthy throws then isinstance_of e throws = Inr expected else \<not> expected"
    and k: "dget_default (options m) ''retries'' (PInt 0) = PInt k" "0 \<le> k"
    and W: "retry_when = dget_default (ac_options actor) ''retry_when'' (rt_retry_when cfg)"
      "retry_when \<noteq> PNone \<longrightarrow> me_retry_when E retry_when k e = return answer"
    and N: "max_retries = option_default m actor ''max_retries'' (rt_max_retries cfg)"
      "retry_when = PNone \<longrightarrow> max_retries = PNone \<or> (\<exists>n. max_retries = PInt n)"
    and "option_default m actor ''min_backoff'' (PInt (rt_min_backoff cfg)) = PInt mn" and "0 \<le> mn"
    and "option_default m actor ''max_backoff'' (PInt (rt_max_backoff cfg)) = PInt mx" and "0 \<le> mx"
    and "1 \<le> me_u E" and "me_u E \<le> 2" and "1 / 2 \<le> me_w E" and "me_w E \<le> 1"
    and m': "m' = counted_message (me_traceback E) (br_clock s) k m" "s' = update_proxy r (\<lambda>p. p\<lparr>px_message := m'\<rparr>) s"
    and failed: "failed = update_proxy r (\<lambda>p. p\<lparr>px_failed := True\<rparr>) s'"
    and target: "target = option_or m actor ''on_retry_exhausted''"
    and run: "run = Retries_after_process_message E cfg r (Some e) s"
  shows "if expected then run = (Inr (), update_proxy r (\<lambda>p. p\<lparr>px_failed := True\<rparr>) s)
    else if gives_up retry_when answer max_retries k then
      (\<not> truthy target \<longrightarrow> run = (Inr (), failed))
      \<and> (truthy target \<longrightarrow> run = send_to E target [PDict (asdict m'), PDict [(''retries'', PInt k), (''max_retries'', max_retries)]] failed)
    else \<exists>delay. run = andthen (me_enqueue E m' (Some delay)) (\<lambda>_. return ()) s'
      \<and> (if isinstance e Retry \<and> exn_delay e \<noteq> None then exn_delay e = Some delay
         else 0 \<le> delay \<and> delay \<le> mx \<and> delay \<le> 7 * 24 * 3600 * 1000)"
proof -
  have upd: "update_proxy r (\<lambda>p. p\<lparr>px_message := (px_message p)\<lparr>options :=
           counted (me_traceback E) (br_clock s) k (options (px_message p))\<rparr>\<rparr>) s = s'"
    using m by (simp add: update_proxy_def counted_message_def m')
  have thrown: "thrown (option_or m actor ''throws'') e s = (Inr expected, s)"
    using throws by (auto simp: thrown_def proc_simps split: if_splits)
  have count: "count_retry (me_traceback E) r s = (Inr k, s')"
    using count_retry_eq [of s r k] k(1) m upd by simp
  have opts: "option_default m' actor x v = option_default m actor x v" "option_or m' actor x = option_or m actor x"
    if "x \<notin> {''requeue_timestamp'', ''traceback'', ''retries''}" for x v
    using that by (simp_all add: option_default_def option_or_def counted_message_def m'(1))
  have exc: "retries_exceeded E retry_when max_retries k e t = (Inr (gives_up retry_when answer max_retries k), t)"
    for t :: "('a, 'b, 'c) broker_scheme"
    using W(2) N(2) by (auto simp: retries_exceeded_def gives_up_def number_def proc_simps)
  define delay where "delay = (case (isinstance e Retry, exn_delay e) of (True, Some d) \<Rightarrow> d
          | _ \<Rightarrow> snd (compute_backoff (nat k) mn True (min mx DEFAULT_MAX_BACKOFF) max_exponent_default (me_u E) (me_w E)))"
  have dl: "retry_delay E cfg m' actor k e t = (Inr delay, t)" for t :: "('a, 'b, 'c) broker_scheme"
    unfolding delay_def by (rule retry_delay_eq) (use assms(11,13) opts in simp_all)
  have run: "run =
      (if expected then (Inr (), update_proxy r (\<lambda>p. p\<lparr>px_failed := True\<rparr>) s)
       else if gives_up retry_when answer max_retries k then
         (if truthy target then send_to E target [PDict (asdict m'), PDict [(''retries'', PInt k), (''max_retries'', max_retries)]] failed
          else (Inr (), failed))
       else andthen (me_enqueue E m' (Some delay)) (\<lambda>_. return ()) s')"
    unfolding run failed target using m get_actor_found [OF actor] thrown count opts exc dl W(1) N(1) m'
    by (simp add: Retries_after_process_message_def andthen_def get_state_def Let_def fail_def modify_def return_def)
  have "0 \<le> snd (compute_backoff (nat k) mn True (min mx DEFAULT_MAX_BACKOFF) max_exponent_default (me_u E) (me_w E))
    \<and> snd (compute_backoff (nat k) mn True (min mx DEFAULT_MAX_BACKOFF) max_exponent_default (me_u E) (me_w E))
       \<le> min mx DEFAULT_MAX_BACKOFF"
    by (rule compute_backoff_range) (use assms in \<open>simp_all add: DEFAULT_MAX_BACKOFF_def\<close>)
  then have "if isinstance e Retry \<and> exn_delay e \<noteq> None then exn_delay e = Some delay
                    else 0 \<le> delay \<and> delay \<le> mx \<and> delay \<le> 7 * 24 * 3600 * 1000"
    by (auto simp: delay_def DEFAULT_MAX_BACKOFF_def split: bool.split option.split)
  with run show ?thesis by auto
qed

text \<open>Without a predicate, expected exceptions and an actor to tell.\<close>

lemma Retries_run:
  assumes m: "message_at s r = m" and actor: "map_of (br_actors s) (actor_name m) = Some actor"
    and "truthy (option_or m actor ''throws'') \<longrightarrow> isinstance_of e (option_or m actor ''throws'') = Inr False"
    and "dget_default (options m) ''retries'' (PInt 0) = PInt k" and "0 \<le> k"
    and "dget_default (ac_options actor) ''retry_when'' (rt_retry_when cfg) = PNone"
    and "option_default m actor ''max_retries'' (rt_max_retries cfg) = PInt n"
    and "option_default m actor ''min_backoff'' (PInt (rt_min_backoff cfg)) = PInt mn" and "0 \<le> mn"
    and "option_default m actor ''max_backoff'' (PInt (rt_max_backoff cfg)) = PInt mx" and "0 \<le> mx"
    and "\<not> truthy (option_or m actor ''on_retry_exhausted'')"
    and "1 \<le> me_u E" and "me_u E \<le> 2" and "1 / 2 \<le> me_w E" and "me_w E \<le> 1"
  shows "let m' = counted_message (me_traceback E) (br_clock s) k m;
             s' = update_proxy r (\<lambda>p. p\<lparr>px_message := m'\<rparr>) s
         in if k \<ge> n then Retries_after_process_message E cfg r (Some e) s = fail r s'
            else \<exists>delay. Retries_after_process_message E cfg r (Some e) s
                   = andthen (me_enqueue E m' (Some delay)) (\<lambda>_. return ()) s'
                 \<and> (if isinstance e Retry \<and> exn_delay e \<noteq> None then exn_delay e = Some delay
                    else 0 \<le> delay \<and> delay \<le> mx \<and> delay \<le> 7 * 24 * 3600 * 1000)"
proof -
  let ?m = "counted_message (me_traceback E) (br_clock s) k m" and ?run = "Retries_after_process_message E cfg r (Some e) s"
  let ?s = "update_proxy r (\<lambda>p. p\<lparr>px_message := ?m\<rparr>) s"
  have "if False then ?run = (Inr (), update_proxy r (\<lambda>p. p\<lparr>px_failed := True\<rparr>) s)
    else if gives_up PNone PNone (PInt n) k then
      (\<not> truthy (option_or m actor ''on_retry_exhausted'') \<longrightarrow> ?run = (Inr (), update_proxy r (\<lambda>p. p\<lparr>px_failed := True\<rparr>) ?s))
      \<and> (truthy (option_or m actor ''on_retry_exhausted'') \<longrightarrow> ?run = send_to E (option_or m actor ''on_retry_exhausted'')
           [PDict (asdict ?m), PDict [(''retries'', PInt k), (''max_retries'', PInt n)]] (update_proxy r (\<lambda>p. p\<lparr>px_failed := True\<rparr>) ?s))
    else \<exists>delay. ?run = andthen (me_enqueue E ?m (Some delay)) (\<lambda>_. return ()) ?s
      \<and> (if isinstance e Retry \<and> exn_delay e \<noteq> None then exn_delay e = Some delay
         else 0 \<le> delay \<and> delay \<le> mx \<and> delay \<le> 7 * 24 * 3600 * 1000)"
    by (rule Retries_cases [OF m actor refl _ assms(4,5), where answer = PNone]) (use assms(3,6-) in auto)
  then show ?thesis using assms(12) by (cases "n \<le> k") (simp_all add: gives_up_def Let_def fail_def modify_def)
qed

text \<open>An environment for examples, whose \<open>enqueue\<close> appends to a list in the state.\<close>

definition outbox :: "('m, message list, 'a) broker_scheme \<Rightarrow> message list" where
  "outbox s = (case map_of (br_queues s) ''outbox'' of None \<Rightarrow> [] | Some l \<Rightarrow> l)"

definition outbox_env :: "('m, message list, 'a) broker_scheme mw_env" where
  "outbox_env = \<lparr>me_enqueue = (\<lambda>m d s. (Inr m, s\<lparr>br_queues := AList.update ''outbox'' (outbox s @ [m]) (br_queues s)\<rparr>)),
     me_uuid = ''uuid'', me_actor_of = (\<lambda>v. None), me_u = 1, me_w = 1, me_traceback = ''tb'',
     me_retry_when = (\<lambda>f k e. return (PBool False))\<rparr>"

definition add_actor :: actor where
  "add_actor = \<lparr>ac_name = ''add'', ac_queue = ''default'', ac_priority = 0, ac_options = []\<rparr>"

lemma example_simps [simp]:
  "me_u outbox_env = 1" "me_w outbox_env = 1" "me_traceback outbox_env = ''tb''" "ac_name add_actor = ''add''" "ac_options add_actor = []"
  "options blank_message = []" "actor_name blank_message = ''add''" "message_timestamp blank_message = 0"
  by (simp_all add: outbox_env_def add_actor_def blank_message_def)

definition outbox_broker :: "message \<Rightarrow> 'a \<Rightarrow> (string, message list, 'a) broker_scheme" where
  "outbox_broker m x = \<lparr>br_actors = [(''add'', add_actor)], br_queues = [], br_delay_queues = [], br_actor_options = {},
     br_middleware = [], br_proxies = (\<lambda>_. MessageProxy m), br_clock = 1000, \<dots> = x\<rparr>"

lemma outbox_broker_simps [simp]:
  "br_actors (outbox_broker m x) = [(''add'', add_actor)]" "br_clock (outbox_broker m x) = 1000"
  "br_proxies (outbox_broker m x) r = MessageProxy m" "br_queues (outbox_broker m x) = []"
  "broker.more (outbox_broker m x) = x" "px_message (MessageProxy m) = m"
  by (simp_all add: outbox_broker_def MessageProxy_def)

text \<open>
  C5. What \<open>Retries\<close> decides for a message that failed. With an exception that \<open>throws\<close> names, the message is failed
  at once and nothing else happens. Otherwise the count, the traceback and the time are written into its
  options, and no more retries are made if the \<open>retry_when\<close> predicate, when there is one, does not answer true, or
  if there is none and the count has reached \<open>max_retries\<close>, when that is not \<open>None\<close>. The message is then failed and
  not enqueued again; the actor that \<open>on_retry_exhausted\<close> names, if any, is sent the message and the counts, and
  the message stays failed also when there is no such actor, which raises \<open>ActorNotFound\<close>. Otherwise the
  message is enqueued once, not failed, with the delay of the \<open>Retry\<close> exception or a backoff that exceeds
  neither the maximum nor a week. Assumed: options of the right types, and a predicate that only answers.
\<close>

theorem retries_decides:
  assumes m: "message_at s r = m" and actor: "map_of (br_actors s) (actor_name m) = Some actor"
    and throws: "throws = option_or m actor ''throws''"
      "if truthy throws then isinstance_of e throws = Inr expected else \<not> expected"
    and k: "dget_default (options m) ''retries'' (PInt 0) = PInt k" "0 \<le> k"
    and W: "retry_when = dget_default (ac_options actor) ''retry_when'' (rt_retry_when cfg)"
      "retry_when \<noteq> PNone \<longrightarrow> me_retry_when E retry_when k e = return answer"
    and N: "max_retries = option_default m actor ''max_retries'' (rt_max_retries cfg)"
      "retry_when = PNone \<longrightarrow> max_retries = PNone \<or> (\<exists>n. max_retries = PInt n)"
    and "option_default m actor ''min_backoff'' (PInt (rt_min_backoff cfg)) = PInt mn" and "0 \<le> mn"
    and "option_default m actor ''max_backoff'' (PInt (rt_max_backoff cfg)) = PInt mx" and "0 \<le> mx"
    and "1 \<le> me_u E" and "me_u E \<le> 2" and "1 / 2 \<le> me_w E" and "me_w E \<le> 1"
    and none: "me_actor_of E PNone = None"
    and m': "m' = counted_message (me_traceback E) (br_clock s) k m" "s' = update_proxy r (\<lambda>p. p\<lparr>px_message := m'\<rparr>) s"
    and failed: "failed = update_proxy r (\<lambda>p. p\<lparr>px_failed := True\<rparr>) s'"
    and target: "target = option_or m actor ''on_retry_exhausted''"
    and run: "run = Retries_after_process_message E cfg r (Some e) s"
  shows "if expected then run = (Inr (), update_proxy r (\<lambda>p. p\<lparr>px_failed := True\<rparr>) s)
    else if (if retry_when \<noteq> PNone then \<not> truthy answer else (\<exists>n. max_retries = PInt n \<and> k \<ge> n)) then
      (\<not> truthy target \<longrightarrow> run = (Inr (), failed))
      \<and> (\<forall>name. target = PStr name \<and> name \<noteq> [] \<longrightarrow>
           (case map_of (br_actors s) name of
              None \<Rightarrow> \<exists>err. run = (Inl err, failed) \<and> isinstance err ActorNotFound
            | Some a \<Rightarrow> run = andthen (me_enqueue E (exhausted_message (me_uuid E) (br_clock s) a m' k max_retries) None) (\<lambda>_. return ()) failed))
    else \<exists>delay. run = andthen (me_enqueue E m' (Some delay)) (\<lambda>_. return ()) s'
      \<and> (if isinstance e Retry \<and> exn_delay e \<noteq> None then exn_delay e = Some delay
         else 0 \<le> delay \<and> delay \<le> mx \<and> delay \<le> 7 * 24 * 3600 * 1000)"
proof -
  have f: "br_actors failed = br_actors s" "br_clock failed = br_clock s" by (simp_all add: failed m')
  note c = Retries_cases [OF m actor throws k W N assms(11-18) m' failed target run]
  have t: "case map_of (br_actors s) name of
              None \<Rightarrow> \<exists>err. run = (Inl err, failed) \<and> isinstance err ActorNotFound
            | Some a \<Rightarrow> run = andthen (me_enqueue E (exhausted_message (me_uuid E) (br_clock s) a m' k max_retries) None) (\<lambda>_. return ()) failed"
    if "run = send_to E target [PDict (asdict m'), PDict [(''retries'', PInt k), (''max_retries'', max_retries)]] failed"
      "target = PStr name" for name
    using that send_to_eq [OF none, of failed name] f by (auto simp: exhausted_message_def split: option.split)
  show ?thesis
  proof (cases "expected \<or> \<not> gives_up retry_when answer max_retries k")
    case True
    with c show ?thesis unfolding gives_up_def by (elim disjE) (simp_all only: if_True if_False simp_thms)
  next
    case False
    with c have c: "\<not> truthy target \<longrightarrow> run = (Inr (), failed)"
      "truthy target \<longrightarrow> run = send_to E target [PDict (asdict m'), PDict [(''retries'', PInt k), (''max_retries'', max_retries)]] failed"
      by simp_all
    have n: "truthy (PStr name)" if "name \<noteq> []" for name using that by simp
    have "case map_of (br_actors s) name of
              None \<Rightarrow> \<exists>err. run = (Inl err, failed) \<and> isinstance err ActorNotFound
            | Some a \<Rightarrow> run = andthen (me_enqueue E (exhausted_message (me_uuid E) (br_clock s) a m' k max_retries) None) (\<lambda>_. return ()) failed"
      if "target = PStr name \<and> name \<noteq> []" for name
      using t [OF mp [OF c(2)]] that n by blast
    with c(1) have "(\<not> truthy target \<longrightarrow> run = (Inr (), failed)) \<and> (\<forall>name. target = PStr name \<and> name \<noteq> [] \<longrightarrow>
       (case map_of (br_actors s) name of
              None \<Rightarrow> \<exists>err. run = (Inl err, failed) \<and> isinstance err ActorNotFound
            | Some a \<Rightarrow> run = andthen (me_enqueue E (exhausted_message (me_uuid E) (br_clock s) a m' k max_retries) None) (\<lambda>_. return ()) failed))"
      by blast
    moreover have "expected = False" "(if retry_when \<noteq> PNone then \<not> truthy answer else (\<exists>n. max_retries = PInt n \<and> k \<ge> n)) = True"
      using False unfolding gives_up_def by blast+
    ultimately show ?thesis by (simp only: if_True if_False)
  qed
qed

text \<open>A predicate that refuses, and an actor to tell of it.\<close>

definition picky_actor :: actor where
  "picky_actor = add_actor\<lparr>ac_options := [(''retry_when'', PInt 1), (''on_retry_exhausted'', PStr ''tell'')]\<rparr>"

definition picky_broker :: "(string, message list, unit) broker_scheme" where
  "picky_broker = (outbox_broker blank_message ())\<lparr>br_actors := [(''add'', picky_actor), (''tell'', add_actor\<lparr>ac_name := ''tell''\<rparr>)]\<rparr>"

theorem retries_decides_witness:
  "let m' = counted_message ''tb'' 1000 0 blank_message;
       failed = update_proxy 0 (\<lambda>p. p\<lparr>px_failed := True\<rparr>) (update_proxy 0 (\<lambda>p. p\<lparr>px_message := m'\<rparr>) picky_broker)
   in Retries_after_process_message outbox_env (Retries (PInt 2) None None PNone) 0 (Some (mk_exn ValueError ''bad'')) picky_broker
    = andthen (me_enqueue outbox_env (exhausted_message ''uuid'' 1000 (add_actor\<lparr>ac_name := ''tell''\<rparr>) m' 0 (PInt 2)) None) (\<lambda>_. return ()) failed"
proof -
  let ?e = "mk_exn ValueError ''bad''"
  have b: "message_at picky_broker 0 = blank_message" "map_of (br_actors picky_broker) (actor_name blank_message) = Some picky_actor"
    "br_clock picky_broker = 1000" "map_of (br_actors picky_broker) ''tell'' = Some (add_actor\<lparr>ac_name := ''tell''\<rparr>)"
    by (simp_all add: picky_broker_def)
  have o: "option_or blank_message picky_actor ''throws'' = PNone" "option_or blank_message picky_actor ''on_retry_exhausted'' = PStr ''tell''"
    "dget_default (ac_options picky_actor) ''retry_when'' v = PInt 1"
    "option_default blank_message picky_actor ''max_retries'' v = v" "option_default blank_message picky_actor ''min_backoff'' v = v"
    "option_default blank_message picky_actor ''max_backoff'' v = v" for v
    by (simp_all add: picky_actor_def option_or_def option_default_def py_or_def dget_def dget_default_def)
  have env: "me_uuid outbox_env = ''uuid''" "me_actor_of outbox_env v = None" "me_retry_when outbox_env f k e = return (PBool False)"
    for v f k e by (simp_all add: outbox_env_def)
  show ?thesis
    unfolding Let_def
    using retries_decides [OF b(1,2) refl, where E = outbox_env and cfg = "Retries (PInt 2) None None PNone" and k = 0 and e = ?e
        and expected = False and answer = "PBool False" and mn = 15000 and mx = 604800000, OF _ _ _ refl _ refl _ _ _ _ _ _ _ _ _ _ refl refl refl refl refl]
    by (simp add: o b env Retries_def DEFAULT_MIN_BACKOFF_def DEFAULT_MAX_BACKOFF_def Let_def)
qed

text \<open>
  The life of a message whose every processing fails: each copy of it that is delivered is processed with
  the exception of that attempt, the hook runs, and every message with the same id that the hook enqueued
  is delivered again, however many there are. \<open>sent\<close> reads what was enqueued so far; \<open>redeliver\<close> is the way
  through the broker's queues. The result counts the attempts and those that ended with the message failed,
  once nothing is left to be delivered.
\<close>

fun executions ::
  "nat \<Rightarrow> ('m, 'q, 'a) broker_scheme mw_env \<Rightarrow> retries \<Rightarrow> (('m, 'q, 'a) broker_scheme \<Rightarrow> message list)
   \<Rightarrow> (message \<Rightarrow> message) \<Rightarrow> proxy_ref \<Rightarrow> (nat \<Rightarrow> exn) \<Rightarrow> nat \<Rightarrow> message list \<Rightarrow> ('m, 'q, 'a) broker_scheme
   \<Rightarrow> (nat \<times> nat) option" where
  "executions fuel E cfg sent redeliver r e i [] s = Some (0, 0)"
| "executions 0 E cfg sent redeliver r e i (m # ms) s = None"
| "executions (Suc fuel) E cfg sent redeliver r e i (m # ms) s =
     (let s0 = update_proxy r (\<lambda>_. MessageProxy m) s;
          s1 = snd (Retries_after_process_message E cfg r (Some (e i)) s0);
          again = filter (\<lambda>m'. message_id m' = message_id m) (drop (length (sent s0)) (sent s1))
      in map_option (\<lambda>(n, f). (Suc n, if px_failed (proxy_at s1 r) then Suc f else f))
           (executions fuel E cfg sent redeliver r e (Suc i) (ms @ map redeliver again) s1))"

text \<open>What the options of a message and its actor say about retrying, at count \<open>k\<close>.\<close>

definition retry_setting :: "retries \<Rightarrow> actor \<Rightarrow> pyval \<Rightarrow> int \<Rightarrow> int \<Rightarrow> int \<Rightarrow> int \<Rightarrow> message \<Rightarrow> bool" where
  "retry_setting cfg actor throws n mn mx k m =
     (actor_name m = ac_name actor
    \<and> dget_default (options m) ''retries'' (PInt 0) = PInt k
    \<and> option_or m actor ''throws'' = throws
    \<and> dget_default (ac_options actor) ''retry_when'' (rt_retry_when cfg) = PNone
    \<and> option_default m actor ''max_retries'' (rt_max_retries cfg) = PInt n
    \<and> option_default m actor ''min_backoff'' (PInt (rt_min_backoff cfg)) = PInt mn
    \<and> option_default m actor ''max_backoff'' (PInt (rt_max_backoff cfg)) = PInt mx)"

lemma retry_setting_same_options:
  assumes "retry_setting cfg actor throws n mn mx k m" and "actor_name m' = actor_name m"
    and "\<forall>x. x \<noteq> ''eta'' \<longrightarrow> map_of (options m') x = map_of (options m) x"
  shows "retry_setting cfg actor throws n mn mx k m'"
  using assms by (simp add: retry_setting_def option_or_def option_default_def dget_def dget_default_def)

lemma retry_setting_counted:
  "retry_setting cfg actor throws n mn mx k m \<Longrightarrow> retry_setting cfg actor throws n mn mx (k + 1) (counted_message tb now k m)"
  by (simp add: retry_setting_def option_or_def option_default_def counted_message_def)

text \<open>An exception that \<open>throws\<close> names.\<close>

definition expected_by :: "pyval \<Rightarrow> exn \<Rightarrow> bool" where
  "expected_by throws e = (truthy throws \<and> isinstance_of e throws = Inr True)"

text \<open>Every enqueued message is sent; nothing else that the hook does matters.\<close>

definition sending :: "('m, 'q, 'a) broker_scheme mw_env \<Rightarrow> (('m, 'q, 'a) broker_scheme \<Rightarrow> message list) \<Rightarrow> bool" where
  "sending E sent =
     ((\<forall>m d s. \<exists>s'. me_enqueue E m d s = (Inr m, s') \<and> sent s' = sent s @ [m] \<and> br_actors s' = br_actors s \<and> br_proxies s' = br_proxies s)
    \<and> (\<forall>r f s. sent (update_proxy r f s) = sent s))"

lemma send_to_sends:
  assumes "sending E sent"
  shows "let s' = snd (send_to E target xs s) in br_actors s' = br_actors s \<and> br_proxies s' = br_proxies s
    \<and> (\<exists>new. sent s' = sent s @ new \<and> (\<forall>m \<in> set new. message_id m = me_uuid E))"
proof -
  have get: "snd (get_actor_named target s) = s" "get_actor_named target s = (Inr a, t) \<Longrightarrow> t = s" for a t
    by (auto simp: get_actor_named_def get_actor_def raise_def split: pyval.splits option.splits)
  show ?thesis
  proof (cases "get_actor_named target s")
    case (Pair x t)
    then have t: "t = s" using get(1) by simp
    show ?thesis
    proof (cases x)
      case (Inl err)
      with Pair t show ?thesis by (auto simp: send_to_def andthen_def)
    next
      case (Inr a)
      show ?thesis
      proof (cases "message_with_options (me_actor_of E) (me_uuid E) (br_clock s) a xs [] []")
        case (Inl err)
        with Inr Pair t show ?thesis by (auto simp: send_to_def send_def send_with_options_def andthen_def)
      next
        case m: (Inr m)
        then have "message_id m = me_uuid E"
          by (auto simp: message_with_options_def split: sum.splits)
        moreover from assms obtain s' where "me_enqueue E m None s = (Inr m, s')" "sent s' = sent s @ [m]"
          "br_actors s' = br_actors s" "br_proxies s' = br_proxies s" unfolding sending_def by blast
        ultimately show ?thesis using m Inr Pair t
          by (auto simp: send_to_def send_def send_with_options_def andthen_def return_def)
      qed
    qed
  qed
qed

text \<open>One attempt: the last one leaves the message failed and sends no copy of it, an earlier one sends one copy.\<close>

lemma Retries_attempt:
  fixes m s e E cfg r
  defines "s1 \<equiv> snd (Retries_after_process_message E cfg r (Some e) s)"
  assumes S: "sending E sent" and m: "message_at s r = m" "\<not> px_failed (proxy_at s r)" "message_id m \<noteq> me_uuid E"
    and actor: "map_of (br_actors s) (ac_name actor) = Some actor"
    and set: "retry_setting cfg actor throws (int n) mn mx (int k) m" "k \<le> n" "0 \<le> mn" "0 \<le> mx"
    and e: "truthy throws \<longrightarrow> (\<exists>b. isinstance_of e throws = Inr b)"
    and u: "1 \<le> me_u E" "me_u E \<le> 2" "1 / 2 \<le> me_w E" "me_w E \<le> 1"
  shows "map_of (br_actors s1) (ac_name actor) = Some actor"
    and "if expected_by throws e \<or> k = n then px_failed (proxy_at s1 r) \<and>
           filter (\<lambda>m'. message_id m' = message_id m) (drop (length (sent s)) (sent s1)) = []
         else \<not> px_failed (proxy_at s1 r) \<and> filter (\<lambda>m'. message_id m' = message_id m) (drop (length (sent s)) (sent s1))
           = [counted_message (me_traceback E) (br_clock s) (int k) m]"
proof -
  let ?m = "counted_message (me_traceback E) (br_clock s) (int k) m"
  let ?s = "update_proxy r (\<lambda>p. p\<lparr>px_message := ?m\<rparr>) s"
  let ?failed = "update_proxy r (\<lambda>p. p\<lparr>px_failed := True\<rparr>) ?s"
  let ?target = "option_or m actor ''on_retry_exhausted''"
  let ?told = "send_to E ?target [PDict (asdict ?m), PDict [(''retries'', PInt (int k)), (''max_retries'', PInt (int n))]] ?failed"
  have set': "actor_name m = ac_name actor" "dget_default (options m) ''retries'' (PInt 0) = PInt (int k)"
    "option_or m actor ''throws'' = throws" "dget_default (ac_options actor) ''retry_when'' (rt_retry_when cfg) = PNone"
    "option_default m actor ''max_retries'' (rt_max_retries cfg) = PInt (int n)"
    "option_default m actor ''min_backoff'' (PInt (rt_min_backoff cfg)) = PInt mn"
    "option_default m actor ''max_backoff'' (PInt (rt_max_backoff cfg)) = PInt mx"
    using set(1) by (simp_all add: retry_setting_def)
  have ex: "if truthy throws then isinstance_of e throws = Inr (expected_by throws e) else \<not> expected_by throws e"
    using e by (auto simp: expected_by_def)
  have act: "map_of (br_actors s) (actor_name m) = Some actor" using actor set' by simp
  have c: "if expected_by throws e then Retries_after_process_message E cfg r (Some e) s = (Inr (), update_proxy r (\<lambda>p. p\<lparr>px_failed := True\<rparr>) s)
    else if gives_up PNone PNone (PInt (int n)) (int k) then
      (\<not> truthy ?target \<longrightarrow> Retries_after_process_message E cfg r (Some e) s = (Inr (), ?failed))
      \<and> (truthy ?target \<longrightarrow> Retries_after_process_message E cfg r (Some e) s = ?told)
    else \<exists>delay. Retries_after_process_message E cfg r (Some e) s = andthen (me_enqueue E ?m (Some delay)) (\<lambda>_. return ()) ?s
      \<and> (if isinstance e Retry \<and> exn_delay e \<noteq> None then exn_delay e = Some delay
         else 0 \<le> delay \<and> delay \<le> mx \<and> delay \<le> 7 * 24 * 3600 * 1000)"
    by (rule Retries_cases [OF m(1) act set'(3) [symmetric] ex set'(2), where answer = PNone]) (use set' set(3,4) u in simp_all)
  have sent: "sent (update_proxy r f t) = sent t" for f t using S by (simp add: sending_def)
  have id: "message_id ?m = message_id m" by (simp add: counted_message_def)
  consider (aborted) "expected_by throws e" | (quiet) "\<not> expected_by throws e" "k = n" "\<not> truthy ?target"
    | (told) "\<not> expected_by throws e" "k = n" "truthy ?target" | (again) "\<not> expected_by throws e" "k < n"
    using set(2) by linarith
  then have "map_of (br_actors s1) (ac_name actor) = Some actor \<and> (if expected_by throws e \<or> k = n then px_failed (proxy_at s1 r) \<and>
           filter (\<lambda>m'. message_id m' = message_id m) (drop (length (sent s)) (sent s1)) = []
         else \<not> px_failed (proxy_at s1 r) \<and> filter (\<lambda>m'. message_id m' = message_id m) (drop (length (sent s)) (sent s1)) = [?m])"
  proof cases
    case aborted
    with c have "s1 = update_proxy r (\<lambda>p. p\<lparr>px_failed := True\<rparr>) s" by (simp add: s1_def)
    with aborted actor show ?thesis by (simp add: sent)
  next
    case quiet
    with c have "s1 = ?failed" by (simp add: s1_def gives_up_def)
    with quiet actor show ?thesis by (simp add: sent)
  next
    case told
    with c have s1: "s1 = snd ?told" by (simp add: s1_def gives_up_def)
    with send_to_sends [OF S] obtain new where "br_actors s1 = br_actors ?failed" "br_proxies s1 = br_proxies ?failed"
      "sent s1 = sent ?failed @ new" "\<forall>m \<in> set new. message_id m = me_uuid E" unfolding Let_def by metis
    with told actor m(3) show ?thesis by (auto simp: sent filter_empty_conv)
  next
    case again
    with c obtain delay where run: "Retries_after_process_message E cfg r (Some e) s = andthen (me_enqueue E ?m (Some delay)) (\<lambda>_. return ()) ?s"
      by (auto simp: gives_up_def)
    from S obtain s2 where "me_enqueue E ?m (Some delay) ?s = (Inr ?m, s2)" "sent s2 = sent ?s @ [?m]"
      "br_actors s2 = br_actors ?s" "br_proxies s2 = br_proxies ?s" unfolding sending_def by blast
    with run again actor m(2) id show ?thesis by (simp add: s1_def andthen_def return_def sent)
  qed
  then show "map_of (br_actors s1) (ac_name actor) = Some actor"
    "if expected_by throws e \<or> k = n then px_failed (proxy_at s1 r) \<and>
           filter (\<lambda>m'. message_id m' = message_id m) (drop (length (sent s)) (sent s1)) = []
         else \<not> px_failed (proxy_at s1 r) \<and> filter (\<lambda>m'. message_id m' = message_id m) (drop (length (sent s)) (sent s1)) = [?m]"
    by simp_all
qed

text \<open>
  C6. A message that fails at every attempt, of an actor without a \<open>retry_when\<close> predicate and with a number as
  \<open>max_retries\<close>, is processed exactly \<open>max_retries + 1\<close> times, or only up to the first exception that \<open>throws\<close> names
  if that comes earlier. All copies of the message that are enqueued on the way are followed until none is left,
  through any delivery that keeps its id, actor and options (but \<open>eta\<close>), and exactly one of the attempts, the
  last, leaves the message failed. An actor named by \<open>on_retry_exhausted\<close> is sent a message with an id of its own,
  which is another message.
\<close>

theorem retries_bounded:
  assumes "sending E sent"
    and redeliver: "\<And>m. actor_name (redeliver m) = actor_name m \<and> message_id (redeliver m) = message_id m
        \<and> (\<forall>x. x \<noteq> ''eta'' \<longrightarrow> map_of (options (redeliver m)) x = map_of (options m) x)"
    and "map_of (br_actors s) (ac_name actor) = Some actor"
    and "retry_setting cfg actor throws (int n) mn mx (int k) m" and "k \<le> n" and "message_id m \<noteq> me_uuid E"
    and "0 \<le> mn" and "0 \<le> mx"
    and "\<And>i. truthy throws \<longrightarrow> (\<exists>b. isinstance_of (e i) throws = Inr b)"
    and "1 \<le> me_u E" and "me_u E \<le> 2" and "1 / 2 \<le> me_w E" and "me_w E \<le> 1"
  shows "executions (Suc (n - k)) E cfg sent redeliver r e i [m] s
    = Some (Suc (length (takeWhile (\<lambda>j. \<not> expected_by throws (e j)) [i ..< i + (n - k)])), 1)"
  using assms(3-6)
proof (induction "n - k" arbitrary: k i m s)
  case (0 k i m s)
  let ?s0 = "update_proxy r (\<lambda>_. MessageProxy m) s"
  have "message_at ?s0 r = m" "\<not> px_failed (proxy_at ?s0 r)" "map_of (br_actors ?s0) (ac_name actor) = Some actor"
    using 0(2) by (simp_all add: MessageProxy_def)
  from Retries_attempt(2) [OF assms(1) this(1,2) 0(5) this(3) 0(3,4) assms(7-13), of i] 0(1,4) assms(1)
  show ?case by (simp add: Let_def sending_def)
next
  case (Suc l k i m s)
  let ?s0 = "update_proxy r (\<lambda>_. MessageProxy m) s"
  let ?s1 = "snd (Retries_after_process_message E cfg r (Some (e i)) ?s0)"
  let ?m = "counted_message (me_traceback E) (br_clock ?s0) (int k) m"
  have s0: "message_at ?s0 r = m" "\<not> px_failed (proxy_at ?s0 r)" "map_of (br_actors ?s0) (ac_name actor) = Some actor"
    using Suc.prems(1) by (simp_all add: MessageProxy_def)
  note attempt = Retries_attempt [OF assms(1) s0(1,2) Suc.prems(4) s0(3) Suc.prems(2,3) assms(7-13), of i]
  have nk: "n - k = Suc (n - Suc k)" "k \<noteq> n" "Suc k \<le> n" using Suc.hyps(2) by auto
  show ?case
  proof (cases "expected_by throws (e i)")
    case True
    with attempt(2) show ?thesis unfolding nk(1) by (simp add: Let_def upt_rec)
  next
    case False
    have "retry_setting cfg actor throws (int n) mn mx (int (Suc k)) (redeliver ?m)"
      using retry_setting_same_options [OF retry_setting_counted [OF Suc.prems(2)], of "redeliver ?m" "me_traceback E" "br_clock ?s0"]
        redeliver by (simp add: algebra_simps)
    moreover have "message_id (redeliver ?m) \<noteq> me_uuid E" using redeliver Suc.prems(4) by (simp add: counted_message_def)
    ultimately have "executions (Suc (n - Suc k)) E cfg sent redeliver r e (Suc i) [redeliver ?m] ?s1 =
        Some (Suc (length (takeWhile (\<lambda>j. \<not> expected_by throws (e j)) [Suc i ..< Suc i + (n - Suc k)])), 1)"
      using Suc.hyps(1) [of "Suc k" ?s1 "redeliver ?m" "Suc i"] Suc.hyps(2) attempt(1) nk(3) by simp
    moreover have "[i ..< i + (n - k)] = i # [Suc i ..< Suc i + (n - Suc k)]"
      unfolding nk(1) by (simp add: upt_conv_Cons)
    moreover have "\<not> px_failed (proxy_at ?s1 r)"
      "filter (\<lambda>m'. message_id m' = message_id m) (drop (length (sent ?s0)) (sent ?s1)) = [?m]"
      using attempt(2) False nk(2) by simp_all
    ultimately show ?thesis
      unfolding executions.simps(3) [of "n - k"] Let_def using False by (simp only: append_Nil list.map nk(1)) simp
  qed
qed

text \<open>The actor expects a \<open>KeyError\<close>, which the second attempt raises.\<close>

theorem retries_bounded_witness:
  "executions 3 outbox_env (Retries (PInt 2) None None PNone) outbox id 0
     (\<lambda>i. if i = 1 then mk_exn KeyError ''k'' else mk_exn ValueError ''bad'') 0
     [blank_message\<lparr>options := [(''throws'', PClass KeyError)]\<rparr>] (outbox_broker blank_message ()) = Some (2, 1)"
proof -
  let ?m = "blank_message\<lparr>options := [(''throws'', PClass KeyError)]\<rparr>"
  let ?e = "\<lambda>i::nat. if i = 1 then mk_exn KeyError ''k'' else mk_exn ValueError ''bad''"
  have s: "retry_setting (Retries (PInt 2) None None PNone) add_actor (PClass KeyError) (int 2) 15000 604800000 (int 0) ?m"
    by (simp add: retry_setting_def Retries_def option_or_def option_default_def
        DEFAULT_MIN_BACKOFF_def DEFAULT_MAX_BACKOFF_def Let_def py_or_def dget_def dget_default_def)
  have x: "expected_by (PClass KeyError) (?e 1)" "\<not> expected_by (PClass KeyError) (?e 0)"
    by (simp_all add: expected_by_def issubclass_code)
  have "executions (Suc (2 - 0)) outbox_env (Retries (PInt 2) None None PNone) outbox id 0 ?e 0 [?m] (outbox_broker blank_message ())
     = Some (Suc (length (takeWhile (\<lambda>j. \<not> expected_by (PClass KeyError) (?e j)) [0 ..< 0 + (2 - 0)])), 1)"
    by (rule retries_bounded [OF _ _ _ s]) (auto simp: outbox_env_def outbox_def sending_def blank_message_def)
  moreover have "[0 ..< 0 + (2 - 0)] = [0, Suc 0]" by (simp add: upt_rec)
  moreover have "Suc (2 - 0) = 3" by simp
  ultimately show ?thesis using x by (simp only: takeWhile.simps list.size if_True if_False simp_thms One_nat_def) simp
qed

section \<open>Age limit\<close>

text \<open>
  The age limit: a message whose limit (from its own options, its actor's or the default) is a
  positive number of milliseconds is failed and skipped exactly when it is at least that old;
  otherwise, and always without a limit, nothing happens.
\<close>

theorem age_limit_drops_old:
  assumes "map_of (br_actors s) (actor_name (message_at s r)) = Some actor"
    and "py_or (dget (options (message_at s r)) ''max_age'') (dget_default (ac_options actor) ''max_age'' max_age) = limit"
    and "limit = PNone \<or> limit = PInt a"
  shows "AgeLimit_before_process_message max_age r s =
    (if limit \<noteq> PNone \<and> a \<noteq> 0 \<and> message_timestamp (message_at s r) + a \<le> br_clock s
     then (Inl (mk_exn SkipMessage ''Message age limit exceeded''), update_proxy r (\<lambda>p. p\<lparr>px_failed := True\<rparr>) s)
     else (Inr (), s))"
  using assms
  by (auto simp: AgeLimit_before_process_message_def andthen_def get_state_def get_actor_found number_def
      return_def raise_def fail_def modify_def Let_def)

theorem age_limit_drops_old_witness:
  "AgeLimit_before_process_message (PInt 1000) 0 (outbox_broker blank_message ())
     = (Inl (mk_exn SkipMessage ''Message age limit exceeded''),
        update_proxy 0 (\<lambda>p. p\<lparr>px_failed := True\<rparr>) (outbox_broker blank_message ()))"
  using age_limit_drops_old [of "outbox_broker blank_message ()" 0 add_actor "PInt 1000" "PInt 1000" 1000]
  by (simp add: py_or_def)

section \<open>Group callbacks\<close>

text \<open>
  The hooks of the jobs of a group, one after the other, with any activity \<open>f\<close> of the rest of the
  program before each; the result lists what each hook enqueued.
\<close>

fun group_trace ::
  "('m, 'q, 'a) broker_scheme mw_env \<Rightarrow> ('m, 'q, 'a) broker_scheme rl_backend \<Rightarrow> int
   \<Rightarrow> (('m, 'q, 'a) broker_scheme \<Rightarrow> message list) \<Rightarrow> proxy_ref
   \<Rightarrow> (('m, 'q, 'a) broker_scheme \<Rightarrow> ('m, 'q, 'a) broker_scheme) list \<Rightarrow> ('m, 'q, 'a) broker_scheme \<Rightarrow> message list list" where
  "group_trace E B ttl sent r [] s = []"
| "group_trace E B ttl sent r (f # fs) s =
     (let s1 = snd (GroupCallbacks_after_process_message E B ttl r None (f s))
      in drop (length (sent (f s))) (sent s1) # group_trace E B ttl sent r fs s1)"

context rate_backend
begin

lemma barrier_one:
  assumes "0 < ttl" and "value_or_0 (live b key) = int n" and "1 \<le> n"
  shows "\<exists>b'. barrier_wait B key ttl False None b = (Inr (n = 1), b')
    \<and> value_or_0 (live b' key) = int (if n = 1 then 1 else n - 1)"
proof -
  obtain r b' where d: "rb_decr B key 1 1 ttl b = (r, b')" by force
  from \<open>0 < ttl\<close> d show ?thesis
  proof (rule decrE)
    assume "1 \<le> value_or_0 (live b key) - 1" "r" "live b' = (live b)(key \<mapsto> value_or_0 (live b key) - 1)"
    with assms d show ?thesis by (auto simp: barrier_wait_def Let_def)
  next
    assume "value_or_0 (live b key) - 1 < 1" "\<not> r" "b' = b"
    with assms d show ?thesis by (auto simp: barrier_wait_def Let_def notify_live)
  qed
qed

end

lemma enqueue_callbacks:
  assumes enqueue: "\<And>m s. \<exists>s'. me_enqueue E m None s = (Inr m, s') \<and> sent s' = sent s @ [m] \<and> live s' = live s"
    and "\<forall>d \<in> set cbs. \<forall>now. message_of E now d = Inr (cb d)"
  shows "\<exists>s'. for_each (\<lambda>data s. (case message_of E (br_clock s) data of
            Inl e \<Rightarrow> (Inl e, s)
          | Inr message \<Rightarrow> andthen (me_enqueue E message None) (\<lambda>_. return ()) s)) cbs s = (Inr (), s')
    \<and> sent s' = sent s @ map cb cbs \<and> live s' = live s"
  using assms(2)
proof (induction cbs arbitrary: s)
  case Nil
  then show ?case by (simp add: return_def)
next
  case (Cons d cbs)
  obtain s1 where s1: "me_enqueue E (cb d) None s = (Inr (cb d), s1)" "sent s1 = sent s @ [cb d]" "live s1 = live s"
    using enqueue by blast
  with Cons.IH [of s1] Cons.prems show ?case
    by (auto simp: andthen_def return_def)
qed

lemma group_trace_spec:
  assumes B: "rate_backend B live" and "0 < ttl" and "uuid \<noteq> []" and "cbs \<noteq> []"
    and enqueue: "\<And>m s. \<exists>s'. me_enqueue E m None s = (Inr m, s') \<and> sent s' = sent s @ [m] \<and> live s' = live s"
    and wait: "\<And>key s. sent (snd (barrier_wait B key ttl False None s)) = sent s"
    and cb: "\<forall>d \<in> set cbs. \<forall>now. message_of E now d = Inr (cb d)"
    and "\<forall>f \<in> set fs. \<forall>s. live (f s) uuid = live s uuid
           \<and> dget (options (message_at (f s) r)) ''group_completion_uuid'' = PStr uuid
           \<and> dget (options (message_at (f s) r)) ''group_completion_callbacks'' = PList cbs"
    and "value_or_0 (live s uuid) = int n" and "1 \<le> n"
  shows "group_trace E B ttl sent r fs s = map (\<lambda>k. if n \<le> Suc k then map cb cbs else []) [0..<length fs]"
  using assms(8-10)
proof (induction fs arbitrary: s n)
  case Nil
  then show ?case by simp
next
  case (Cons f fs)
  have v: "value_or_0 (live (f s) uuid) = int n"
    and opts: "dget (options (message_at (f s) r)) ''group_completion_uuid'' = PStr uuid"
      "dget (options (message_at (f s) r)) ''group_completion_callbacks'' = PList cbs"
    using Cons.prems by simp_all
  obtain s1 where w: "barrier_wait B uuid ttl False None (f s) = (Inr (n = 1), s1)"
    and v1: "value_or_0 (live s1 uuid) = int (if n = 1 then 1 else n - 1)"
    using rate_backend.barrier_one [OF B assms(2) v Cons.prems(3)] by blast
  have sent1: "sent s1 = sent (f s)" using wait [of uuid "f s"] w by simp
  have upt: "[0..<length (f # fs)] = 0 # map Suc [0..<length fs]"
    by (simp add: upt_conv_Cons map_Suc_upt del: upt_Suc)
  obtain s2 where s2: "for_each (\<lambda>data s. (case message_of E (br_clock s) data of
            Inl e \<Rightarrow> (Inl e, s)
          | Inr message \<Rightarrow> andthen (me_enqueue E message None) (\<lambda>_. return ()) s)) cbs s1 = (Inr (), s2)"
    "sent s2 = sent s1 @ map cb cbs" "live s2 = live s1"
    using enqueue_callbacks [where E = E and sent = sent and live = live, OF enqueue cb] by blast
  have hook: "snd (GroupCallbacks_after_process_message E B ttl r None (f s)) = (if n = 1 then s2 else s1)"
    using opts w s2(1) assms(3,4)
    by (simp add: GroupCallbacks_after_process_message_def andthen_def get_state_def return_def Let_def)
  show ?case
  proof (cases "n = 1")
    case True
    then have "group_trace E B ttl sent r fs s2 = map (\<lambda>k. if 1 \<le> Suc k then map cb cbs else []) [0..<length fs]"
      using Cons.IH [of s2 1] Cons.prems(1) v1 s2(3) by simp
    with True hook s2(2) sent1 show ?thesis unfolding upt by (simp add: Let_def)
  next
    case False
    then have "group_trace E B ttl sent r fs s1 = map (\<lambda>k. if n - 1 \<le> Suc k then map cb cbs else []) [0..<length fs]"
      using Cons.IH [of s1 "n - 1"] Cons.prems(1,3) v1 by simp
    with False hook sent1 Cons.prems(3) show ?thesis unfolding upt by (auto simp: Let_def)
  qed
qed

text \<open>A backend that is a part of a larger state.\<close>

definition lift_rl :: "('s \<Rightarrow> 'b) \<Rightarrow> ('b \<Rightarrow> 's \<Rightarrow> 's) \<Rightarrow> 'b rl_backend \<Rightarrow> 's rl_backend" where
  "lift_rl get put B =
     \<lparr>rb_add = (\<lambda>k v t s. case rb_add B k v t (get s) of (x, b) \<Rightarrow> (x, put b s)),
      rb_incr = (\<lambda>k a m t s. case rb_incr B k a m t (get s) of (x, b) \<Rightarrow> (x, put b s)),
      rb_decr = (\<lambda>k a m t s. case rb_decr B k a m t (get s) of (x, b) \<Rightarrow> (x, put b s)),
      rb_incr_and_sum = (\<lambda>k ks a m t s. case rb_incr_and_sum B k ks a m t (get s) of (x, b) \<Rightarrow> (x, put b s)),
      rb_wait = (\<lambda>k t s. case rb_wait B k t (get s) of (x, b) \<Rightarrow> (x, put b s)),
      rb_wait_notify = (\<lambda>k t s. put (rb_wait_notify B k t (get s)) s)\<rparr>"

lemma rate_backend_lift:
  fixes get :: "'s \<Rightarrow> 'b"
  assumes "rate_backend B live" and "\<And>b s. get (put b s) = b" and "\<And>s. put (get s) s = s"
  shows "rate_backend (lift_rl get put B) (\<lambda>s. live (get s))"
proof (rule rate_backend.intro)
  fix ttl :: int and b b' :: 's and k :: string and v w maximum amount minimum :: int and ok :: bool
  note laws = assms(2,3) lift_rl_def
  show "0 < ttl \<Longrightarrow> live (get b) k = None \<Longrightarrow> rb_add (lift_rl get put B) k v ttl b = (ok, b')
      \<Longrightarrow> ok \<and> live (get b') = (live (get b))(k \<mapsto> v)"
    using rate_backend.add_absent [OF assms(1), of ttl "get b" k v] by (auto simp: laws split: prod.splits)
  show "live (get b) k = Some w \<Longrightarrow> rb_add (lift_rl get put B) k v ttl b = (False, b)"
    using rate_backend.add_present [OF assms(1), of "get b" k w v ttl] by (simp add: laws)
  show "maximum < value_or_0 (live (get b) k) + amount \<Longrightarrow>
      rb_incr (lift_rl get put B) k amount maximum ttl b = (False, b)"
    using rate_backend.incr_full [OF assms(1), of maximum "get b" k amount ttl] by (simp add: laws)
  show "0 < ttl \<Longrightarrow> value_or_0 (live (get b) k) + amount \<le> maximum \<Longrightarrow>
      rb_incr (lift_rl get put B) k amount maximum ttl b = (ok, b')
      \<Longrightarrow> ok \<and> live (get b') = (live (get b))(k \<mapsto> value_or_0 (live (get b) k) + amount)"
    using rate_backend.incr_room [OF assms(1), of ttl "get b" k amount maximum] by (auto simp: laws split: prod.splits)
  show "value_or_0 (live (get b) k) - amount < minimum \<Longrightarrow>
      rb_decr (lift_rl get put B) k amount minimum ttl b = (False, b)"
    using rate_backend.decr_low [OF assms(1), of "get b" k amount minimum ttl] by (simp add: laws)
  show "0 < ttl \<Longrightarrow> minimum \<le> value_or_0 (live (get b) k) - amount \<Longrightarrow>
      rb_decr (lift_rl get put B) k amount minimum ttl b = (ok, b')
      \<Longrightarrow> ok \<and> live (get b') = (live (get b))(k \<mapsto> value_or_0 (live (get b) k) - amount)"
    using rate_backend.decr_room [OF assms(1), of ttl minimum "get b" k amount] by (auto simp: laws split: prod.splits)
  show "live (get (rb_wait_notify (lift_rl get put B) k ttl b)) = live (get b)"
    using rate_backend.notify_live [OF assms(1)] by (simp add: laws)
qed

text \<open>
  C20. The completion callbacks of a group run when its last job succeeds: with a barrier of \<open>n\<close>
  parties, whatever happens between the jobs as long as it leaves the barrier alone, the hooks of
  the first \<open>n - 1\<close> successful jobs enqueue nothing, and that of the \<open>n\<close>-th enqueues every callback,
  once and in order (as does a job that is delivered again after that).
\<close>

theorem group_callbacks_at_last_job:
  fixes B :: "('m, 'q, stub_rl) broker_scheme rl_backend"
  assumes B: "B = lift_rl broker.more (\<lambda>b s. s\<lparr>broker.more := b\<rparr>) (StubBackend notified)"
    and "0 < ttl" and "uuid \<noteq> []" and "callbacks \<noteq> []"
    and enqueue: "\<And>m s. \<exists>s'. me_enqueue E m None s = (Inr m, s') \<and> sent s' = sent s @ [m] \<and> broker.more s' = broker.more s"
    and sent: "\<And>b s. sent (s\<lparr>broker.more := b\<rparr>) = sent s"
    and "\<forall>d \<in> set callbacks. \<forall>now. message_of E now d = Inr (cb d)"
    and "\<forall>f \<in> set fs. \<forall>s. stub_get (broker.more (f s)) uuid = stub_get (broker.more s) uuid
           \<and> dget (options (message_at (f s) r)) ''group_completion_uuid'' = PStr uuid
           \<and> dget (options (message_at (f s) r)) ''group_completion_callbacks'' = PList callbacks"
    and "stub_get (broker.more s) uuid = Some (int n)" and "1 \<le> n"
  shows "group_trace E B ttl sent r fs s = map (\<lambda>k. if n \<le> Suc k then map cb callbacks else []) [0..<length fs]"
proof -
  have rb: "rate_backend B (\<lambda>s. stub_get (broker.more s))"
    unfolding B by (rule rate_backend_lift [OF stub_rl.rate_backend_axioms]) simp_all
  have wait: "sent (snd (barrier_wait B key ttl False None s)) = sent s" for key s
    by (auto simp: B barrier_wait_def lift_rl_def Let_def sent split: prod.splits)
  have enq: "\<exists>s'. me_enqueue E m None s = (Inr m, s') \<and> sent s' = sent s @ [m]
      \<and> stub_get (broker.more s') = stub_get (broker.more s)" for m s
    using enqueue [of m s] by metis
  show ?thesis
    by (rule group_trace_spec [OF rb assms(2-4) enq wait assms(7)]) (use assms(8-10) in auto)
qed

theorem group_callbacks_at_last_job_witness:
  "let m = blank_message\<lparr>options := [(''group_completion_uuid'', PStr ''g''),
             (''group_completion_callbacks'', PList [PDict (asdict blank_message)])]\<rparr>;
       f = (\<lambda>s. s\<lparr>br_proxies := (\<lambda>_. MessageProxy m)\<rparr>)
   in group_trace outbox_env (lift_rl broker.more (\<lambda>b s. s\<lparr>broker.more := b\<rparr>) (StubBackend (\<lambda>_ _. False))) 60000 outbox 0
        [f, f] (outbox_broker m (snd (stub_add ''g'' 2 60000 (stub_rl_empty 1)))) = [[], [blank_message]]"
proof -
  define m where "m = blank_message\<lparr>options := [(''group_completion_uuid'', PStr ''g''),
             (''group_completion_callbacks'', PList [PDict (asdict blank_message)])]\<rparr>"
  define f :: "(string, message list, stub_rl) broker_scheme \<Rightarrow> _" where "f = (\<lambda>s. s\<lparr>br_proxies := (\<lambda>_. MessageProxy m)\<rparr>)"
  have "group_trace outbox_env (lift_rl broker.more (\<lambda>b s. s\<lparr>broker.more := b\<rparr>) (StubBackend (\<lambda>_ _. False))) 60000 outbox 0
        [f, f] (outbox_broker m (snd (stub_add ''g'' 2 60000 (stub_rl_empty 1))))
     = map (\<lambda>k. if 2 \<le> Suc k then map (\<lambda>_. blank_message) [PDict (asdict blank_message)] else []) [0..<length [f, f]]"
    by (rule group_callbacks_at_last_job [where notified = "\<lambda>_ _. False" and uuid = "''g''"])
      (auto simp: outbox_env_def outbox_def message_of_def of_dict_asdict f_def m_def
        stub_add_def stub_get_def stub_put_def stub_rl_empty_def)
  then show ?thesis
    by (simp add: Let_def m_def f_def upt_rec)
qed

end
