(* ===== verification/Monitors.thy ===== *)
theory Monitors
  imports Middlewares Results
begin

text \<open>
  The middleware that keep state of their own: \<open>TimeLimit\<close>, \<open>ShutdownNotifications\<close>,
  \<open>CurrentMessage\<close> and \<open>Prometheus\<close> of \<^verbatim>\<open>dramatiq/middleware\<close>, and \<open>Results\<close> of
  \<^verbatim>\<open>dramatiq/results/middleware.py\<close>; and the table of all shipped middleware: which hook runs what,
  and which options each allows on actors. Gevent is not modelled, nor is a time limit of infinity.
\<close>

section \<open>State\<close>

text \<open>
  The deadlines by thread (\<^const>\<open>None\<close> once they are removed), the threads to notify on shutdown, the
  current message of each thread, the exceptions that were raised in other threads, and the metrics
  by labels (queue and actor name).
\<close>

type_synonym labels = "string \<times> string"

record prometheus =
  pm_delayed_messages :: "string set"
  pm_message_start_times :: "int dict"
  pm_inprogress :: "labels \<Rightarrow> int"
  pm_inprogress_delayed :: "labels \<Rightarrow> int"
  pm_total :: "labels \<Rightarrow> nat"
  pm_errored :: "labels \<Rightarrow> nat"
  pm_retried :: "labels \<Rightarrow> nat"
  pm_rejected :: "labels \<Rightarrow> nat"
  pm_durations :: "labels \<Rightarrow> int list"

record mw_state =
  ms_deadlines :: "(nat \<times> int option) list"
  ms_notifications :: "nat list"
  ms_current :: "nat \<Rightarrow> proxy_ref option"
  ms_raised :: "(nat \<times> exn_class) list"
  ms_metrics :: prometheus

text \<open>Where a larger state keeps this one, and an update of it.\<close>

record 's mw_place =
  mp_get :: "'s \<Rightarrow> mw_state"
  mp_put :: "mw_state \<Rightarrow> 's \<Rightarrow> 's"

definition update_mw :: "'s mw_place \<Rightarrow> (mw_state \<Rightarrow> mw_state) \<Rightarrow> ('s, unit) proc" where
  "update_mw L f = modify (\<lambda>s. mp_put L (f (mp_get L s)) s)"

text \<open>\<open>raise_thread_exception\<close> on CPython: the exception is pending in the thread.\<close>

definition raise_thread_exception :: "exn_class \<Rightarrow> nat \<Rightarrow> mw_state \<Rightarrow> mw_state" where
  "raise_thread_exception c thread_id ms = ms\<lparr>ms_raised := ms_raised ms @ [(thread_id, c)]\<rparr>"

section \<open>TimeLimit\<close>

definition add_timeout :: "int \<Rightarrow> nat \<Rightarrow> int \<Rightarrow> mw_state \<Rightarrow> mw_state" where
  "add_timeout now thread_id ttl ms = ms\<lparr>ms_deadlines := AList.update thread_id (Some (now + ttl)) (ms_deadlines ms)\<rparr>"

definition remove_timeout :: "nat \<Rightarrow> mw_state \<Rightarrow> mw_state" where
  "remove_timeout thread_id ms = ms\<lparr>ms_deadlines := AList.update thread_id None (ms_deadlines ms)\<rparr>"

text \<open>\<open>if deadline and current_time >= deadline\<close>: a deadline of 0 is falsy.\<close>

definition expired :: "int \<Rightarrow> int option \<Rightarrow> bool" where
  "expired current_time deadline = (case deadline of None \<Rightarrow> False | Some d \<Rightarrow> d \<noteq> 0 \<and> d \<le> current_time)"

text \<open>
  A pass of the manager's own thread through \<open>_handle_deadlines\<close> reads the clock, collects the threads that are
  over their limit while it holds the lock, and raises the exceptions one by one after it has released it.
  The other threads may act in between, so each of these is a step; between two passes the manager sleeps.
\<close>

datatype handler = Sleeping | Current_Time int | Threads_To_Kill "nat list"

definition collect_expired :: "int \<Rightarrow> mw_state \<Rightarrow> nat list \<times> mw_state" where
  "collect_expired current_time ms =
     (map fst (filter (\<lambda>(_, d). expired current_time d) (ms_deadlines ms)),
      ms\<lparr>ms_deadlines := map (\<lambda>(t, d). (t, if expired current_time d then None else d)) (ms_deadlines ms)\<rparr>)"

fun handle_deadlines :: "int \<Rightarrow> handler \<times> mw_state \<Rightarrow> handler \<times> mw_state" where
  "handle_deadlines monotonic (Sleeping, ms) = (Current_Time monotonic, ms)"
| "handle_deadlines monotonic (Current_Time current_time, ms) =
     (case collect_expired current_time ms of (threads_to_kill, ms) \<Rightarrow> (Threads_To_Kill threads_to_kill, ms))"
| "handle_deadlines monotonic (Threads_To_Kill [], ms) = (Sleeping, ms)"
| "handle_deadlines monotonic (Threads_To_Kill (thread_id # ts), ms) =
     (Threads_To_Kill ts, raise_thread_exception TimeLimitExceeded thread_id ms)"

definition TimeLimit_before_process_message ::
  "('m, 'q, 'a) broker_scheme mw_place \<Rightarrow> nat \<Rightarrow> int \<Rightarrow> proxy_ref \<Rightarrow> (('m, 'q, 'a) broker_scheme, unit) proc" where
  "TimeLimit_before_process_message L me time_limit r =
     andthen (get_state (\<lambda>s. message_at s r)) (\<lambda>message.
     andthen (get_actor (actor_name message)) (\<lambda>actor.
     andthen (number (py_or (dget (options message) ''time_limit'')
                (dget_default (ac_options actor) ''time_limit'' (PInt time_limit)))) (\<lambda>limit.
     andthen (get_state br_clock) (\<lambda>now. update_mw L (add_timeout now me limit)))))"

definition TimeLimit_after_process_message :: "'s mw_place \<Rightarrow> nat \<Rightarrow> ('s, unit) proc" where
  "TimeLimit_after_process_message L me = update_mw L (remove_timeout me)"

section \<open>ShutdownNotifications\<close>

definition should_notify :: "bool \<Rightarrow> actor \<Rightarrow> message \<Rightarrow> bool" where
  "should_notify default_notify actor message =
     (let notify = dget (options message) ''notify_shutdown'';
          notify = (if notify = PNone then dget (ac_options actor) ''notify_shutdown'' else notify);
          notify = (if notify = PNone then PBool default_notify else notify)
      in truthy notify)"

definition add_notification :: "nat \<Rightarrow> mw_state \<Rightarrow> mw_state" where
  "add_notification me ms = ms\<lparr>ms_notifications := List.insert me (ms_notifications ms)\<rparr>"

definition remove_notification :: "nat \<Rightarrow> mw_state \<Rightarrow> mw_state" where
  "remove_notification me ms = ms\<lparr>ms_notifications := removeAll me (ms_notifications ms)\<rparr>"

definition shutdown :: "mw_state \<Rightarrow> mw_state" where
  "shutdown ms = fold (raise_thread_exception Shutdown) (ms_notifications ms) ms"

definition ShutdownNotifications_before_process_message ::
  "('m, 'q, 'a) broker_scheme mw_place \<Rightarrow> nat \<Rightarrow> bool \<Rightarrow> proxy_ref \<Rightarrow> (('m, 'q, 'a) broker_scheme, unit) proc" where
  "ShutdownNotifications_before_process_message L me default_notify r =
     andthen (get_state (\<lambda>s. message_at s r)) (\<lambda>message.
     andthen (get_actor (actor_name message)) (\<lambda>actor.
       if should_notify default_notify actor message then update_mw L (add_notification me) else return ()))"

definition ShutdownNotifications_after_process_message :: "'s mw_place \<Rightarrow> nat \<Rightarrow> ('s, unit) proc" where
  "ShutdownNotifications_after_process_message L me = update_mw L (remove_notification me)"

definition ShutdownNotifications_before_worker_shutdown :: "'s mw_place \<Rightarrow> ('s, unit) proc" where
  "ShutdownNotifications_before_worker_shutdown L = update_mw L shutdown"

section \<open>CurrentMessage\<close>

definition get_current_message :: "'s mw_place \<Rightarrow> nat \<Rightarrow> 's \<Rightarrow> proxy_ref option" where
  "get_current_message L me s = ms_current (mp_get L s) me"

definition CurrentMessage_set :: "'s mw_place \<Rightarrow> nat \<Rightarrow> proxy_ref option \<Rightarrow> ('s, unit) proc" where
  "CurrentMessage_set L me v = update_mw L (\<lambda>ms. ms\<lparr>ms_current := (ms_current ms)(me := v)\<rparr>)"

section \<open>Results\<close>

record results_mw =
  rm_store_results :: pyval
  rm_result_ttl :: int

definition DEFAULT_RESULT_TTL :: int where "DEFAULT_RESULT_TTL = 600000"

definition Results_init :: "pyval \<Rightarrow> int option \<Rightarrow> results_mw" where
  "Results_init store_results result_ttl =
     \<lparr>rm_store_results = store_results,
      rm_result_ttl = (case result_ttl of None \<Rightarrow> DEFAULT_RESULT_TTL | Some t \<Rightarrow> if t = 0 then DEFAULT_RESULT_TTL else t)\<rparr>"

definition Results_lookup_options ::
  "results_mw \<Rightarrow> message \<Rightarrow> (('m, 'q, 'a) broker_scheme, pyval \<times> pyval) proc" where
  "Results_lookup_options cfg message =
     try_except
       (andthen (get_actor (actor_name message)) (\<lambda>actor.
          return (option_default message actor ''store_results'' (rm_store_results cfg),
                  option_default message actor ''result_ttl'' (PInt (rm_result_ttl cfg)))))
       (\<lambda>e. if isinstance e ActorNotFound then return (PBool False, PInt 0) else raise e)"

definition Results_after_process_message ::
  "(string \<Rightarrow> string) \<Rightarrow> ('m, 'q, 'a) broker_scheme result_backend \<Rightarrow> results_mw \<Rightarrow> proxy_ref \<Rightarrow> pyval \<Rightarrow> exn option
   \<Rightarrow> (('m, 'q, 'a) broker_scheme, unit) proc" where
  "Results_after_process_message md5 B cfg r result exception =
     andthen (get_state (\<lambda>s. message_at s r)) (\<lambda>message.
     andthen (Results_lookup_options cfg message) (\<lambda>(store_results, result_ttl).
       if truthy store_results \<and> exception = None
       then andthen (number result_ttl) (\<lambda>ttl. store_result md5 B message result ttl)
       else return ()))"

definition Results_after_skip_message ::
  "(string \<Rightarrow> string) \<Rightarrow> ('m, 'q, 'a) broker_scheme result_backend \<Rightarrow> results_mw \<Rightarrow> proxy_ref
   \<Rightarrow> (('m, 'q, 'a) broker_scheme, unit) proc" where
  "Results_after_skip_message md5 B cfg r =
     andthen (get_state (\<lambda>s. proxy_at s r)) (\<lambda>p.
     andthen (Results_lookup_options cfg (px_message p)) (\<lambda>(store_results, result_ttl).
       if truthy store_results \<and> \<not> px_failed p
       then andthen (number result_ttl) (\<lambda>ttl. store_result md5 B (px_message p) PNone ttl)
       else return ()))"

definition Results_after_nack ::
  "(string \<Rightarrow> string) \<Rightarrow> ('m, 'q, 'a) broker_scheme result_backend \<Rightarrow> results_mw \<Rightarrow> proxy_ref
   \<Rightarrow> (('m, 'q, 'a) broker_scheme, unit) proc" where
  "Results_after_nack md5 B cfg r =
     andthen (get_state (\<lambda>s. proxy_at s r)) (\<lambda>p.
     andthen (Results_lookup_options cfg (px_message p)) (\<lambda>(store_results, result_ttl).
       if truthy store_results \<and> px_failed p
       then (let e = (case px_exception p of Some e \<Rightarrow> e | None \<Rightarrow> mk_exn Exception ''unknown'')
             in andthen (number result_ttl) (\<lambda>ttl. store_exception md5 B (px_message p) e ttl))
       else return ()))"

section \<open>Prometheus\<close>

definition message_labels :: "message \<Rightarrow> labels" where
  "message_labels m = (queue_name m, actor_name m)"

text \<open>\<open>labels(..).inc()\<close> and \<open>.dec()\<close> of a counter or gauge.\<close>

definition plus_at :: "labels \<Rightarrow> ('n::ab_group_add) \<Rightarrow> (labels \<Rightarrow> 'n) \<Rightarrow> labels \<Rightarrow> 'n" where
  "plus_at l k f = f(l := f l + k)"

definition inc_at :: "labels \<Rightarrow> (labels \<Rightarrow> nat) \<Rightarrow> labels \<Rightarrow> nat" where
  "inc_at l f = f(l := Suc (f l))"

definition Prometheus_after_nack :: "message \<Rightarrow> prometheus \<Rightarrow> prometheus" where
  "Prometheus_after_nack m pm = pm\<lparr>pm_rejected := inc_at (message_labels m) (pm_rejected pm)\<rparr>"

definition Prometheus_after_enqueue :: "message \<Rightarrow> prometheus \<Rightarrow> prometheus" where
  "Prometheus_after_enqueue m pm =
     (if map_of (options m) ''retries'' \<noteq> None
      then pm\<lparr>pm_retried := inc_at (message_labels m) (pm_retried pm)\<rparr> else pm)"

definition Prometheus_before_delay_message :: "message \<Rightarrow> prometheus \<Rightarrow> prometheus" where
  "Prometheus_before_delay_message m pm =
     pm\<lparr>pm_delayed_messages := insert (message_id m) (pm_delayed_messages pm),
        pm_inprogress_delayed := plus_at (message_labels m) 1 (pm_inprogress_delayed pm)\<rparr>"

definition Prometheus_before_process_message :: "int \<Rightarrow> message \<Rightarrow> prometheus \<Rightarrow> prometheus" where
  "Prometheus_before_process_message now m pm =
     (let l = message_labels m;
          pm = (if message_id m \<in> pm_delayed_messages pm
                then pm\<lparr>pm_delayed_messages := pm_delayed_messages pm - {message_id m},
                        pm_inprogress_delayed := plus_at l (- 1) (pm_inprogress_delayed pm)\<rparr>
                else pm)
      in pm\<lparr>pm_inprogress := plus_at l 1 (pm_inprogress pm),
            pm_message_start_times := AList.update (message_id m) now (pm_message_start_times pm)\<rparr>)"

definition Prometheus_after_process_message :: "int \<Rightarrow> message \<Rightarrow> exn option \<Rightarrow> prometheus \<Rightarrow> prometheus" where
  "Prometheus_after_process_message now m exception pm =
     (let l = message_labels m;
          message_start_time = (case map_of (pm_message_start_times pm) (message_id m) of Some t \<Rightarrow> t | None \<Rightarrow> now);
          message_duration = now - message_start_time
      in pm\<lparr>pm_message_start_times := AList.delete (message_id m) (pm_message_start_times pm),
            pm_durations := (pm_durations pm)(l := pm_durations pm l @ [message_duration]),
            pm_inprogress := plus_at l (- 1) (pm_inprogress pm),
            pm_total := inc_at l (pm_total pm),
            pm_errored := (if exception \<noteq> None then inc_at l (pm_errored pm) else pm_errored pm)\<rparr>)"

definition update_metrics :: "'s mw_place \<Rightarrow> (prometheus \<Rightarrow> prometheus) \<Rightarrow> ('s, unit) proc" where
  "update_metrics L f = update_mw L (\<lambda>ms. ms\<lparr>ms_metrics := f (ms_metrics ms)\<rparr>)"

text \<open>The hooks of the class; \<open>after_skip_message\<close> is the same function as \<open>after_process_message\<close>.\<close>

definition Prometheus :: "('m, 'q, 'a) broker_scheme mw_place \<Rightarrow> hook \<Rightarrow> (('m, 'q, 'a) broker_scheme, unit) proc" where
  "Prometheus L h s = (case h of
       After_nack r \<Rightarrow> update_metrics L (Prometheus_after_nack (message_at s r)) s
     | After_enqueue m d \<Rightarrow> update_metrics L (Prometheus_after_enqueue m) s
     | Before_delay_message r \<Rightarrow> update_metrics L (Prometheus_before_delay_message (message_at s r)) s
     | Before_process_message r \<Rightarrow> update_metrics L (Prometheus_before_process_message (br_clock s) (message_at s r)) s
     | After_process_message r result exception \<Rightarrow>
         update_metrics L (Prometheus_after_process_message (br_clock s) (message_at s r) exception) s
     | After_skip_message r \<Rightarrow>
         update_metrics L (Prometheus_after_process_message (br_clock s) (message_at s r) None) s
     | _ \<Rightarrow> Middleware h s)"

section \<open>The shipped middleware\<close>

datatype middleware =
    MW_AgeLimit pyval
  | MW_TimeLimit int
  | MW_ShutdownNotifications bool
  | MW_Callbacks
  | MW_Pipelines
  | MW_Retries retries
  | MW_GroupCallbacks int
  | MW_Results results_mw
  | MW_CurrentMessage
  | MW_Prometheus

text \<open>What they use: the surroundings of the hooks, the two kinds of backend, the hash, the place of their state, and the thread.\<close>

record 's mw_context =
  mc_env :: "'s mw_env"
  mc_rate_limiter :: "'s rl_backend"
  mc_results :: "'s result_backend"
  mc_md5 :: "string \<Rightarrow> string"
  mc_place :: "'s mw_place"
  mc_thread :: nat

definition default_middleware :: "middleware list" where
  "default_middleware =
     [MW_AgeLimit PNone, MW_TimeLimit 600000, MW_ShutdownNotifications False, MW_Callbacks, MW_Pipelines,
      MW_Retries (Retries (PInt 20) None None PNone)]"

fun middleware_class :: "middleware \<Rightarrow> string" where
  "middleware_class (MW_AgeLimit a) = ''AgeLimit''"
| "middleware_class (MW_TimeLimit t) = ''TimeLimit''"
| "middleware_class (MW_ShutdownNotifications n) = ''ShutdownNotifications''"
| "middleware_class MW_Callbacks = ''Callbacks''"
| "middleware_class MW_Pipelines = ''Pipelines''"
| "middleware_class (MW_Retries c) = ''Retries''"
| "middleware_class (MW_GroupCallbacks t) = ''GroupCallbacks''"
| "middleware_class (MW_Results c) = ''Results''"
| "middleware_class MW_CurrentMessage = ''CurrentMessage''"
| "middleware_class MW_Prometheus = ''Prometheus''"

fun shipped_actor_options :: "middleware \<Rightarrow> string set" where
  "shipped_actor_options (MW_AgeLimit a) = {''max_age''}"
| "shipped_actor_options (MW_TimeLimit t) = {''time_limit''}"
| "shipped_actor_options (MW_ShutdownNotifications n) = {''notify_shutdown''}"
| "shipped_actor_options MW_Callbacks = {''on_failure'', ''on_success''}"
| "shipped_actor_options MW_Pipelines = {''pipe_ignore'', ''pipe_target''}"
| "shipped_actor_options (MW_Retries c) =
     {''max_retries'', ''min_backoff'', ''max_backoff'', ''retry_when'', ''throws'', ''on_retry_exhausted''}"
| "shipped_actor_options (MW_GroupCallbacks t) = {}"
| "shipped_actor_options (MW_Results c) = {''store_results'', ''result_ttl''}"
| "shipped_actor_options MW_CurrentMessage = {}"
| "shipped_actor_options MW_Prometheus = {}"

text \<open>Each class overrides a few hooks and inherits the others from \<open>Middleware\<close>.\<close>

fun shipped_run ::
  "('m, 'q, 'a) broker_scheme mw_context \<Rightarrow> middleware \<Rightarrow> hook \<Rightarrow> (('m, 'q, 'a) broker_scheme, unit) proc" where
  "shipped_run X (MW_AgeLimit max_age) h = (case h of
       Before_process_message r \<Rightarrow> AgeLimit_before_process_message max_age r
     | _ \<Rightarrow> Middleware h)"
| "shipped_run X (MW_TimeLimit limit) h = (case h of
       Before_process_message r \<Rightarrow> TimeLimit_before_process_message (mc_place X) (mc_thread X) limit r
     | After_process_message r result exception \<Rightarrow> TimeLimit_after_process_message (mc_place X) (mc_thread X)
     | After_skip_message r \<Rightarrow> TimeLimit_after_process_message (mc_place X) (mc_thread X)
     | _ \<Rightarrow> Middleware h)"
| "shipped_run X (MW_ShutdownNotifications notify) h = (case h of
       Before_process_message r \<Rightarrow> ShutdownNotifications_before_process_message (mc_place X) (mc_thread X) notify r
     | After_process_message r result exception \<Rightarrow>
         ShutdownNotifications_after_process_message (mc_place X) (mc_thread X)
     | After_skip_message r \<Rightarrow> ShutdownNotifications_after_process_message (mc_place X) (mc_thread X)
     | Before_worker_shutdown \<Rightarrow> ShutdownNotifications_before_worker_shutdown (mc_place X)
     | _ \<Rightarrow> Middleware h)"
| "shipped_run X MW_Callbacks h = (case h of
       After_process_message r result exception \<Rightarrow> Callbacks_after_process_message (mc_env X) r result exception
     | _ \<Rightarrow> Middleware h)"
| "shipped_run X MW_Pipelines h = (case h of
       After_process_message r result exception \<Rightarrow> Pipelines_after_process_message (mc_env X) r result exception
     | _ \<Rightarrow> Middleware h)"
| "shipped_run X (MW_Retries cfg) h = (case h of
       After_process_message r result exception \<Rightarrow> Retries_after_process_message (mc_env X) cfg r exception
     | _ \<Rightarrow> Middleware h)"
| "shipped_run X (MW_GroupCallbacks barrier_ttl) h = (case h of
       After_process_message r result exception \<Rightarrow>
         GroupCallbacks_after_process_message (mc_env X) (mc_rate_limiter X) barrier_ttl r exception
     | _ \<Rightarrow> Middleware h)"
| "shipped_run X (MW_Results cfg) h = (case h of
       After_process_message r result exception \<Rightarrow>
         Results_after_process_message (mc_md5 X) (mc_results X) cfg r result exception
     | After_skip_message r \<Rightarrow> Results_after_skip_message (mc_md5 X) (mc_results X) cfg r
     | After_nack r \<Rightarrow> Results_after_nack (mc_md5 X) (mc_results X) cfg r
     | _ \<Rightarrow> Middleware h)"
| "shipped_run X MW_CurrentMessage h = (case h of
       Before_process_message r \<Rightarrow> CurrentMessage_set (mc_place X) (mc_thread X) (Some r)
     | After_process_message r result exception \<Rightarrow> CurrentMessage_set (mc_place X) (mc_thread X) None
     | _ \<Rightarrow> Middleware h)"
| "shipped_run X MW_Prometheus h = Prometheus (mc_place X) h"

definition shipped_mw ::
  "('m, 'q, 'a) broker_scheme mw_context \<Rightarrow> (middleware, ('m, 'q, 'a) broker_scheme) mw_ops" where
  "shipped_mw X =
     \<lparr>mw_isinstance = (\<lambda>m c. c = middleware_class m \<or> c = ''Middleware''),
      mw_actor_options = shipped_actor_options, mw_run = shipped_run X\<rparr>"

section \<open>Time limits\<close>

text \<open>
  What happens around the manager: a thread starts on a message with a limit, finishes it, and the
  manager's own thread makes its next step; with the time of each.
\<close>

datatype limit_event = Start nat int | Finish nat | Manager

fun limit_step :: "int \<times> limit_event \<Rightarrow> handler \<times> mw_state \<Rightarrow> handler \<times> mw_state" where
  "limit_step (now, Start t ttl) (h, ms) = (h, add_timeout now t ttl ms)"
| "limit_step (now, Finish t) (h, ms) = (h, remove_timeout t ms)"
| "limit_step (now, Manager) (h, ms) = handle_deadlines now (h, ms)"

fun about :: "nat \<Rightarrow> limit_event \<Rightarrow> bool" where
  "about t (Start u ttl) = (t = u)"
| "about t (Finish u) = (t = u)"
| "about t Manager = False"

text \<open>The clock readings with which the manager collects threads in a run.\<close>

fun collects :: "(int \<times> limit_event) list \<Rightarrow> handler \<times> mw_state \<Rightarrow> int list" where
  "collects [] st = []"
| "collects ((now, e) # es) st =
     (case (e, fst st) of (Manager, Current_Time current_time) \<Rightarrow> [current_time] | _ \<Rightarrow> [])
     @ collects es (limit_step (now, e) st)"

text \<open>The exceptions that have been raised in a thread, and those that the manager is about to raise in it.\<close>

definition interrupts :: "nat \<Rightarrow> exn_class \<Rightarrow> mw_state \<Rightarrow> nat" where
  "interrupts t c ms = count_list (ms_raised ms) (t, c)"

definition about_to :: "nat \<Rightarrow> handler \<Rightarrow> nat" where
  "about_to t h = (case h of Threads_To_Kill ts \<Rightarrow> count_list ts t | _ \<Rightarrow> 0)"

definition interruptions :: "nat \<Rightarrow> handler \<times> mw_state \<Rightarrow> nat" where
  "interruptions t st = interrupts t TimeLimitExceeded (snd st) + about_to t (fst st)"

lemma raise_many:
  "fold (raise_thread_exception c) ts ms = ms\<lparr>ms_raised := ms_raised ms @ map (\<lambda>t. (t, c)) ts\<rparr>"
  by (induction ts arbitrary: ms) (simp_all add: raise_thread_exception_def)

lemma count_pairs: "count_list (map (\<lambda>t. (t, c)) ts) (t, d) = (if c = d then count_list ts t else 0)"
  by (induction ts) auto

lemma count_expired:
  "distinct (map fst ds) \<Longrightarrow>
   count_list (map fst (filter (\<lambda>(_, d). expired now d) ds)) t
     = (if \<exists>d. map_of ds t = Some d \<and> expired now d then 1 else 0)"
proof (induction ds)
  case (Cons x ds)
  have "t \<notin> fst ` set ds \<Longrightarrow> count_list (map fst (filter (\<lambda>(_, d). expired now d) ds)) t = 0"
    by (rule count_notin) auto
  moreover have "t \<notin> fst ` set ds \<Longrightarrow> map_of ds t = None" by (simp add: map_of_eq_None_iff)
  ultimately show ?case using Cons by (cases x) auto
qed simp

abbreviation deadline_of :: "nat \<Rightarrow> handler \<times> mw_state \<Rightarrow> int option option" where
  "deadline_of t st \<equiv> map_of (ms_deadlines (snd st)) t"

lemma collected:
  assumes "distinct (map fst (ms_deadlines ms))" and "collect_expired now ms = (ts, ms')"
  shows "map_of (ms_deadlines ms') t = map_option (\<lambda>d. if expired now d then None else d) (map_of (ms_deadlines ms) t)"
    "count_list ts t = (if \<exists>d. map_of (ms_deadlines ms) t = Some d \<and> expired now d then 1 else 0)"
    "map fst (ms_deadlines ms') = map fst (ms_deadlines ms)" "ms_raised ms' = ms_raised ms"
proof -
  have "map_of (map (\<lambda>(t, d). (t, if expired now d then None else d)) ds) t =
      map_option (\<lambda>d. if expired now d then None else d) (map_of ds t)" for ds :: "(nat \<times> int option) list"
    by (induction ds) auto
  with assms(2) show "map_of (ms_deadlines ms') t = map_option (\<lambda>d. if expired now d then None else d) (map_of (ms_deadlines ms) t)"
    by (auto simp: collect_expired_def)
  show "count_list ts t = (if \<exists>d. map_of (ms_deadlines ms) t = Some d \<and> expired now d then 1 else 0)"
    using count_expired [OF assms(1), of now t] assms(2) by (auto simp: collect_expired_def)
  show "map fst (ms_deadlines ms') = map fst (ms_deadlines ms)" "ms_raised ms' = ms_raised ms"
    using assms(2) by (auto simp: collect_expired_def comp_def case_prod_beta)
qed

text \<open>What one step does to a thread that it is not about.\<close>

lemma limit_step_effect:
  assumes "distinct (map fst (ms_deadlines (snd st)))" and "\<not> about t (snd e)"
  shows "interruptions t (limit_step e st) = interruptions t st
      + (if \<exists>ct d. snd e = Manager \<and> fst st = Current_Time ct \<and> deadline_of t st = Some d \<and> expired ct d then 1 else 0)" (is ?i)
    and "deadline_of t (limit_step e st) =
      (case (snd e, fst st) of
         (Manager, Current_Time ct) \<Rightarrow> map_option (\<lambda>d. if expired ct d then None else d) (deadline_of t st)
       | _ \<Rightarrow> deadline_of t st)" (is ?d)
    and "distinct (map fst (ms_deadlines (snd (limit_step e st))))" (is ?u)
proof -
  obtain now ev h ms where e: "e = (now, ev)" and st: "st = (h, ms)" by (cases e, cases st) blast
  have "?i \<and> ?d \<and> ?u"
  proof (cases ev)
    case (Start u ttl)
    with assms show ?thesis
      by (auto simp: e st interruptions_def interrupts_def add_timeout_def update_conv' distinct_update)
  next
    case (Finish u)
    with assms show ?thesis
      by (auto simp: e st interruptions_def interrupts_def remove_timeout_def update_conv' distinct_update)
  next
    case Manager
    show ?thesis
    proof (cases h)
      case (Current_Time ct)
      obtain ts ms' where c: "collect_expired ct ms = (ts, ms')" by force
      note effect = collected(1,2) [OF _ c, of t] collected(3,4) [OF _ c]
      show ?thesis
        using assms(1) effect Manager Current_Time c by (simp add: e st interruptions_def interrupts_def about_to_def)
    next
      case (Threads_To_Kill ts)
      with assms Manager show ?thesis
        by (cases ts) (auto simp: e st interruptions_def interrupts_def about_to_def raise_thread_exception_def)
    qed (use assms Manager in \<open>simp add: e st interruptions_def about_to_def\<close>)
  qed
  then show ?i ?d ?u by simp_all
qed

lemma limit_run_distinct:
  "distinct (map fst (ms_deadlines (snd st))) \<Longrightarrow> distinct (map fst (ms_deadlines (snd (fold limit_step es st))))"
proof (induction es arbitrary: st)
  case (Cons e es)
  have "distinct (map fst (ms_deadlines (snd (limit_step e st))))"
  proof (cases "about 0 (snd e)")
    case True
    with Cons.prems show ?thesis
      by (cases e; cases st; cases "snd e") (auto simp: add_timeout_def remove_timeout_def distinct_update)
  next
    case False
    with limit_step_effect(3) [OF Cons.prems] show ?thesis .
  qed
  with Cons.IH show ?case by simp
qed simp

text \<open>Without a deadline the manager leaves the thread alone until it starts on another message.\<close>

lemma no_deadline:
  assumes "\<forall>e \<in> set es. \<not> about t (snd e)"
  shows "\<lbrakk>distinct (map fst (ms_deadlines (snd st))); deadline_of t st = None \<or> deadline_of t st = Some None\<rbrakk>
    \<Longrightarrow> interruptions t (fold limit_step es st) = interruptions t st"
  using assms
proof (induction es arbitrary: st)
  case (Cons e es)
  have t: "\<not> about t (snd e)" using Cons.prems(3) by simp
  note effect = limit_step_effect [OF Cons.prems(1) t]
  have "deadline_of t (limit_step e st) = None \<or> deadline_of t (limit_step e st) = Some None"
    using Cons.prems(2) unfolding effect(2) by (auto split: limit_event.split handler.split)
  moreover have "interruptions t (limit_step e st) = interruptions t st"
    using Cons.prems(2) unfolding effect(1) by (auto simp: expired_def)
  ultimately show ?case using Cons.IH [of "limit_step e st"] effect(3) Cons.prems(3) by simp
qed simp

lemma deadline_trace:
  assumes "\<forall>e \<in> set es. \<not> about t (snd e)"
  shows "\<lbrakk>distinct (map fst (ms_deadlines (snd st))); deadline_of t st = Some (Some d)\<rbrakk>
    \<Longrightarrow> interruptions t (fold limit_step es st) = interruptions t st
        + (if d \<noteq> 0 \<and> (\<exists>ct \<in> set (collects es st). d \<le> ct) then 1 else 0)"
  using assms
proof (induction es arbitrary: st)
  case (Cons e es)
  have t: "\<not> about t (snd e)" using Cons.prems(3) by simp
  obtain now ev where e: "e = (now, ev)" by force
  note effect = limit_step_effect [OF Cons.prems(1) t]
  show ?case
  proof (cases "\<exists>ct. ev = Manager \<and> fst st = Current_Time ct \<and> expired ct (Some d)")
    case True
    then obtain ct where ct: "ev = Manager" "fst st = Current_Time ct" "expired ct (Some d)" by blast
    with effect(1,2) Cons.prems(2) e have "deadline_of t (limit_step e st) = Some None"
      "interruptions t (limit_step e st) = Suc (interruptions t st)" by simp_all
    moreover have "d \<noteq> 0" "d \<le> ct" using ct(3) by (simp_all add: expired_def)
    ultimately show ?thesis
      using no_deadline [of es t "limit_step e st"] Cons.prems(3) effect(3) ct e by auto
  next
    case False
    with effect(2) Cons.prems(2) e have "deadline_of t (limit_step e st) = Some (Some d)"
      by (auto split: limit_event.split handler.split)
    moreover have "interruptions t (limit_step e st) = interruptions t st"
      using False Cons.prems(2) effect(1) e by auto
    moreover have "(d \<noteq> 0 \<and> (\<exists>ct \<in> set (collects (e # es) st). d \<le> ct))
        = (d \<noteq> 0 \<and> (\<exists>ct \<in> set (collects es (limit_step e st)). d \<le> ct))"
      using False e by (auto simp: expired_def split: limit_event.splits handler.splits)
    ultimately show ?thesis using Cons.IH [of "limit_step e st"] effect(3) Cons.prems(3) by simp
  qed
qed simp

text \<open>
  C21. A thread starts on a message with a limit of \<open>limit\<close> milliseconds, works on it while other threads start
  and finish theirs and the manager makes any number of steps from wherever it is, finishes the message, and stays idle
  or goes on outside messages. Then while the message is being processed the manager decides to interrupt the thread
  exactly once if it collects with a clock reading of the start time plus \<open>limit\<close> or more, and not at all otherwise
  (also not if that sum is 0 on the monotonic clock, which the code takes for no deadline); and once the
  message is finished it decides to interrupt it no more. Every interruption it has decided on is either raised
  in the thread or still among \<open>threads_to_kill\<close>; such a one may come after the message is finished.
\<close>

theorem time_limit_interrupts:
  assumes L: "\<And>ms s. mp_get L (mp_put L ms s) = ms"
    and "map_of (br_actors s) (actor_name (message_at s r)) = Some actor"
    and limit: "py_or (dget (options (message_at s r)) ''time_limit'')
           (dget_default (ac_options actor) ''time_limit'' (PInt time_limit)) = PInt limit"
    and "distinct (map fst (ms_deadlines (mp_get L s)))"
    and "\<forall>e \<in> set during \<union> set afterwards. \<not> about t (snd e)"
  shows "\<exists>s'. TimeLimit_before_process_message L t time_limit r s = (Inr (), s') \<and>
    (let begun = (h, mp_get L s'); busy = fold limit_step during begun;
         idle = fold limit_step afterwards (limit_step (finished, Finish t) busy); deadline = br_clock s + limit
     in interrupts t TimeLimitExceeded (snd busy) + about_to t (fst busy)
          = interrupts t TimeLimitExceeded (mp_get L s) + about_to t h
            + (if deadline \<noteq> 0 \<and> (\<exists>ct \<in> set (collects during begun). deadline \<le> ct) then 1 else 0)
      \<and> interrupts t TimeLimitExceeded (snd idle) + about_to t (fst idle)
          = interrupts t TimeLimitExceeded (snd busy) + about_to t (fst busy))"
proof -
  let ?ms = "add_timeout (br_clock s) t limit (mp_get L s)"
  let ?busy = "fold limit_step during (h, ?ms)"
  let ?fin = "limit_step (finished, Finish t) ?busy"
  have run: "TimeLimit_before_process_message L t time_limit r s = (Inr (), mp_put L ?ms s)"
    using assms(2) limit
    by (simp add: TimeLimit_before_process_message_def andthen_def get_state_def get_actor_found number_def
        return_def update_mw_def modify_def)
  have d: "distinct (map fst (ms_deadlines (snd (h, ?ms))))"
    using assms(4) by (simp add: add_timeout_def distinct_update)
  have "deadline_of t (h, ?ms) = Some (Some (br_clock s + limit))"
    by (simp add: add_timeout_def update_conv')
  moreover have ev: "\<forall>e \<in> set during. \<not> about t (snd e)" "\<forall>e \<in> set afterwards. \<not> about t (snd e)"
    using assms(5) by simp_all
  ultimately have busy: "interruptions t ?busy = interruptions t (h, ?ms)
      + (if br_clock s + limit \<noteq> 0 \<and> (\<exists>ct \<in> set (collects during (h, ?ms)). br_clock s + limit \<le> ct) then 1 else 0)"
    using deadline_trace [OF ev(1) d] by simp
  have fin: "?fin = (fst ?busy, remove_timeout t (snd ?busy))" by (cases ?busy) simp
  have "distinct (map fst (ms_deadlines (snd ?fin)))" "deadline_of t ?fin = Some None"
    "interruptions t ?fin = interruptions t ?busy"
    using limit_run_distinct [OF d, of during]
    by (simp_all add: fin remove_timeout_def distinct_update update_conv' interruptions_def interrupts_def)
  with no_deadline [OF ev(2), of ?fin] have "interruptions t (fold limit_step afterwards ?fin) = interruptions t ?busy"
    by simp
  moreover have "interruptions t (h, ?ms) = interrupts t TimeLimitExceeded (mp_get L s) + about_to t h"
    by (simp add: interruptions_def interrupts_def add_timeout_def)
  ultimately show ?thesis using run busy L by (simp add: Let_def interruptions_def)
qed

text \<open>A place for the state right behind a broker's, and the state at start.\<close>

definition own_place :: "('m, 'q, mw_state) broker_scheme mw_place" where
  "own_place = \<lparr>mp_get = broker.more, mp_put = (\<lambda>ms s. s\<lparr>broker.more := ms\<rparr>)\<rparr>"

definition Prometheus_init :: prometheus where
  "Prometheus_init = \<lparr>pm_delayed_messages = {}, pm_message_start_times = [], pm_inprogress = (\<lambda>_. 0),
     pm_inprogress_delayed = (\<lambda>_. 0), pm_total = (\<lambda>_. 0), pm_errored = (\<lambda>_. 0), pm_retried = (\<lambda>_. 0),
     pm_rejected = (\<lambda>_. 0), pm_durations = (\<lambda>_. [])\<rparr>"

definition monitors_init :: mw_state where
  "monitors_init = \<lparr>ms_deadlines = [], ms_notifications = [], ms_current = (\<lambda>_. None), ms_raised = [],
     ms_metrics = Prometheus_init\<rparr>"

theorem time_limit_interrupts_witness:
  "\<exists>s'. TimeLimit_before_process_message own_place 7 600000 0 (outbox_broker blank_message monitors_init) = (Inr (), s') \<and>
     (let busy = fold limit_step [(1000, Start 8 50), (601005, Manager), (601006, Manager), (601007, Manager), (601008, Manager)]
                   (Sleeping, mp_get own_place s')
      in interrupts 7 TimeLimitExceeded (snd busy) + about_to 7 (fst busy) = 1)"
proof -
  let ?s = "outbox_broker blank_message monitors_init"
  have "interrupts 7 TimeLimitExceeded monitors_init = 0" by (simp add: interrupts_def monitors_init_def)
  then show ?thesis
    using time_limit_interrupts [of own_place ?s 0 add_actor 600000 600000
        "[(1000, Start 8 50), (601005, Manager), (601006, Manager), (601007, Manager), (601008, Manager)]" "[]" 7 Sleeping 0]
    by (auto simp: own_place_def outbox_broker_def add_actor_def blank_message_def monitors_init_def py_or_def Let_def
        MessageProxy_def about_to_def)
qed

text \<open>
  The exception can hit the thread when its message is over: the manager raises it after it has released the
  lock, and the thread may finish in between.
\<close>

theorem interrupted_after_message:
  "let busy = fold limit_step [(0, Start 7 50), (1000, Manager), (1001, Manager)] (Sleeping, monitors_init);
       idle = fold limit_step [(1002, Finish 7), (1003, Manager)] busy
   in interrupts 7 TimeLimitExceeded (snd busy) = 0 \<and> map_of (ms_deadlines (snd idle)) 7 = Some None
    \<and> interrupts 7 TimeLimitExceeded (snd idle) = 1"
  by (simp add: Let_def monitors_init_def add_timeout_def remove_timeout_def collect_expired_def expired_def
      raise_thread_exception_def interrupts_def)

section \<open>Shutdown notifications\<close>

text \<open>A thread starts on a message that wants to be notified or not, finishes it; the worker shuts down.\<close>

datatype notify_event = Begin nat bool | End nat | Stop

fun notify_step :: "notify_event \<Rightarrow> mw_state \<Rightarrow> mw_state" where
  "notify_step (Begin t notify) ms = (if notify then add_notification t ms else ms)"
| "notify_step (End t) ms = remove_notification t ms"
| "notify_step Stop ms = shutdown ms"

fun concerns :: "nat \<Rightarrow> notify_event \<Rightarrow> bool" where
  "concerns t (Begin u notify) = (t = u)"
| "concerns t (End u) = (t = u)"
| "concerns t Stop = False"

lemma count_distinct: "distinct ts \<Longrightarrow> count_list ts t = (if t \<in> set ts then 1 else 0)"
  by (induction ts) (auto simp: count_notin)

lemma shutdown_simps:
  "distinct (ms_notifications ms) \<Longrightarrow>
   interrupts t c (shutdown ms) = interrupts t c ms + (if c = Shutdown \<and> t \<in> set (ms_notifications ms) then 1 else 0)"
  "ms_notifications (shutdown ms) = ms_notifications ms"
  by (auto simp: interrupts_def shutdown_def raise_many count_pairs count_distinct)

lemma notify_step_distinct:
  "distinct (ms_notifications ms) \<Longrightarrow> distinct (ms_notifications (notify_step e ms))"
  by (cases e) (simp_all add: add_notification_def remove_notification_def shutdown_simps(2) distinct_removeAll)

lemma notify_trace:
  assumes "\<forall>e \<in> set es. \<not> concerns t e"
  shows "distinct (ms_notifications ms) \<Longrightarrow>
    interrupts t Shutdown (fold notify_step es ms) = interrupts t Shutdown ms
      + (if t \<in> set (ms_notifications ms) then length (filter (\<lambda>e. e = Stop) es) else 0)
    \<and> (t \<in> set (ms_notifications (fold notify_step es ms)) \<longleftrightarrow> t \<in> set (ms_notifications ms))
    \<and> distinct (ms_notifications (fold notify_step es ms))"
  using assms
proof (induction es arbitrary: ms)
  case (Cons e es)
  have "(t \<in> set (ms_notifications (notify_step e ms)) \<longleftrightarrow> t \<in> set (ms_notifications ms))
      \<and> interrupts t Shutdown (notify_step e ms) = interrupts t Shutdown ms
          + (if e = Stop \<and> t \<in> set (ms_notifications ms) then 1 else 0)"
    using Cons.prems
    by (cases e) (auto simp: add_notification_def remove_notification_def interrupts_def shutdown_simps(2)
        shutdown_simps(1) [unfolded interrupts_def])
  with Cons.IH [of "notify_step e ms"] Cons.prems notify_step_distinct [OF Cons.prems(1), of e]
  show ?case by auto
qed simp

text \<open>
  Shutting the worker down interrupts exactly the threads that are processing a message which asks
  for it: for a thread that was idle, starts on a message and finishes it, every shutdown meanwhile
  raises one \<open>Shutdown\<close> in it when the message (or its actor, or the default) asks for notification,
  and none when it does not; none before or after.
\<close>

theorem shutdown_interrupts_busy:
  assumes L: "\<And>ms s. mp_get L (mp_put L ms s) = ms"
    and "map_of (br_actors s) (actor_name (message_at s r)) = Some actor"
    and "distinct (ms_notifications (mp_get L s))" and "t \<notin> set (ms_notifications (mp_get L s))"
    and "\<forall>e \<in> set during \<union> set afterwards. \<not> concerns t e"
  shows "\<exists>s'. ShutdownNotifications_before_process_message L t default_notify r s = (Inr (), s') \<and>
    (let busy = fold notify_step during (mp_get L s');
         idle = fold notify_step afterwards (notify_step (End t) busy)
     in interrupts t Shutdown busy = interrupts t Shutdown (mp_get L s)
          + (if should_notify default_notify actor (message_at s r) then length (filter (\<lambda>e. e = Stop) during) else 0)
      \<and> interrupts t Shutdown idle = interrupts t Shutdown busy)"
proof -
  let ?n = "should_notify default_notify actor (message_at s r)"
  let ?s = "if ?n then mp_put L (add_notification t (mp_get L s)) s else s"
  let ?ms = "mp_get L ?s"
  have run: "ShutdownNotifications_before_process_message L t default_notify r s = (Inr (), ?s)"
    using assms(2)
    by (simp add: ShutdownNotifications_before_process_message_def andthen_def get_state_def get_actor_found
        return_def update_mw_def modify_def)
  have ms: "?ms = notify_step (Begin t ?n) (mp_get L s)" by (simp add: L)
  have d: "distinct (ms_notifications ?ms)" and i: "t \<in> set (ms_notifications ?ms) \<longleftrightarrow> ?n"
    "interrupts t Shutdown ?ms = interrupts t Shutdown (mp_get L s)"
    using assms(3,4) notify_step_distinct [OF assms(3), of "Begin t ?n"] unfolding ms
    by (auto simp: add_notification_def interrupts_def)
  have ev: "\<forall>e \<in> set during. \<not> concerns t e" "\<forall>e \<in> set afterwards. \<not> concerns t e" using assms(5) by simp_all
  note busy = notify_trace [OF ev(1) d]
  let ?off = "remove_notification t (fold notify_step during ?ms)"
  have "distinct (ms_notifications ?off)" "t \<notin> set (ms_notifications ?off)"
    "interrupts t Shutdown ?off = interrupts t Shutdown (fold notify_step during ?ms)"
    using busy by (simp_all add: remove_notification_def interrupts_def distinct_removeAll)
  with notify_trace [OF ev(2), of ?off] busy i run show ?thesis
    by (intro exI [of _ ?s]) (simp add: Let_def)
qed

theorem shutdown_interrupts_busy_witness:
  "\<exists>s'. ShutdownNotifications_before_process_message own_place 7 True 0 (outbox_broker blank_message monitors_init) = (Inr (), s') \<and>
     (let busy = fold notify_step [Begin 8 False, Stop, End 8] (mp_get own_place s');
          idle = fold notify_step [Stop] (notify_step (End 7) busy)
      in interrupts 7 Shutdown busy = 1 \<and> interrupts 7 Shutdown idle = 1)"
proof -
  let ?s = "outbox_broker blank_message monitors_init"
  have "interrupts 7 Shutdown monitors_init = 0" by (simp add: interrupts_def monitors_init_def)
  then show ?thesis
    using shutdown_interrupts_busy [of own_place ?s 0 add_actor 7 "[Begin 8 False, Stop, End 8]" "[Stop]" True]
    by (auto simp: own_place_def outbox_broker_def add_actor_def blank_message_def monitors_init_def Let_def
        MessageProxy_def should_notify_def)
qed

section \<open>What the shipped middleware leave alone\<close>

text \<open>
  What they rely on of their surroundings to keep an invariant \<open>I\<close>, raising only exceptions with \<open>P\<close>:
  enqueueing, the predicates that actors supply, the barriers and the result backend keep it, and it
  depends on proxies and on the middleware's own state only as stated.
\<close>

definition mild_change :: "(proxy \<Rightarrow> proxy) \<Rightarrow> bool" where
  "mild_change f = (\<forall>p. queue_name (px_message (f p)) = queue_name (px_message p)
     \<and> actor_name (px_message (f p)) = actor_name (px_message p)
     \<and> message_id (px_message (f p)) = message_id (px_message p)
     \<and> dget (options (px_message (f p))) ''throws'' = dget (options (px_message p)) ''throws'')"

locale hook_surroundings =
  fixes X :: "('m, 'q, 'a) broker_scheme mw_context"
    and I :: "('m, 'q, 'a) broker_scheme \<Rightarrow> bool" and P :: "exn \<Rightarrow> bool"
  assumes enqueue: "sound I P (me_enqueue (mc_env X) m d)"
    and retry_when: "sound I P (me_retry_when (mc_env X) v k e)"
    and barrier: "sound I P (barrier_wait (mc_rate_limiter X) key ttl False None)"
    and store: "sound I P (rs_store (mc_results X) key v t)"
    and proxies: "I s \<Longrightarrow> mild_change f \<Longrightarrow> I (update_proxy r f s)"
    and own_state: "I s \<Longrightarrow> ms_metrics ms = ms_metrics (mp_get (mc_place X) s) \<Longrightarrow> I (mp_put (mc_place X) ms s)"
    and plain_errors: "isinstance e Exception \<Longrightarrow> \<not> isinstance e MiddlewareError \<Longrightarrow> P e"
begin

lemma TypeError_plain: "exn_cls e = TypeError \<Longrightarrow> P e"
  by (rule plain_errors) (simp_all add: isinstance_def issubclass_code)

lemma plain_raise: "P (mk_exn TypeError msg)" "P (mk_exn ActorNotFound msg)"
  by (rule plain_errors; simp add: issubclass_code)+

lemma number_sound: "sound I P (number v)"
  by (auto simp: number_def intro!: sound_raise plain_raise split: option.split)

lemma get_actor_sound: "sound I P (get_actor n)"
  by (auto simp: sound_def get_actor_def plain_raise split: option.split)

lemma get_actor_named_sound: "sound I P (get_actor_named v)"
  by (auto simp: get_actor_named_def intro!: sound_raise plain_raise get_actor_sound split: pyval.split)

lemma isinstance_of_error: "isinstance_of e v = Inl err \<Longrightarrow> exn_cls err = TypeError"
  by (induction e v rule: isinstance_of.induct) (auto split: sum.splits bool.splits)

lemma thrown_sound: "sound I P (thrown t e)"
  by (auto simp: thrown_def intro!: sound_raise TypeError_plain dest!: isinstance_of_error split: sum.split)

lemma update_mw_sound:
  "(\<And>ms. ms_metrics (f ms) = ms_metrics ms) \<Longrightarrow> sound I P (update_mw (mc_place X) f)"
  unfolding update_mw_def by (rule sound_modify) (simp add: own_state)

lemma update_options_sound: "(\<And>d. dget (f d) ''throws'' = dget d ''throws'') \<Longrightarrow> sound I P (update_options r f)"
  unfolding update_options_def by (rule sound_modify) (simp add: proxies mild_change_def)

lemma fail_sound: "sound I P (fail r)"
  unfolding fail_def by (rule sound_modify) (simp add: proxies mild_change_def)

lemma stuff_sound: "sound I P (stuff_exception r e)"
  unfolding stuff_exception_def by (rule sound_modify) (simp add: proxies mild_change_def)

lemma resolve_error: "resolve_callback f k opts = Inl e \<Longrightarrow> exn_cls e = TypeError"
  by (auto simp: resolve_callback_def Let_def split: option.splits pyval.splits)

lemma message_error: "message_with_options f i n a xs kws opts = Inl e \<Longrightarrow> exn_cls e = TypeError"
  by (auto simp: message_with_options_def dest: resolve_error split: sum.splits)

lemma to_tuple_error: "to_tuple v = Inl e \<Longrightarrow> exn_cls e = TypeError"
  by (cases v) auto

lemma of_dict_error: "of_dict i n d = Inl e \<Longrightarrow> exn_cls e = TypeError"
  by (auto simp: of_dict_def dest!: to_tuple_error split: option.splits sum.splits if_splits pyval.splits)

lemma message_of_error: "message_of E n d = Inl e \<Longrightarrow> exn_cls e = TypeError"
  by (auto simp: message_of_def dest: of_dict_error split: pyval.splits)

lemma send_to_sound: "sound I P (send_to (mc_env X) v xs)"
proof -
  have "sound I P (send (me_actor_of E) i (me_enqueue (mc_env X)) a xs)" for E :: "('m, 'q, 'a) broker_scheme mw_env" and i a
    using enqueue unfolding sound_def send_def send_with_options_def
    by (auto split: sum.split dest!: message_error intro: TypeError_plain)
  then show ?thesis unfolding send_to_def by (auto intro!: sound_andthen get_actor_named_sound)
qed

lemmas basic_sound = sound_andthen number_sound get_actor_sound get_actor_named_sound thrown_sound
  update_mw_sound update_options_sound fail_sound stuff_sound send_to_sound

lemma AgeLimit_sound: "(\<And>msg. P (mk_exn SkipMessage msg)) \<Longrightarrow> sound I P (AgeLimit_before_process_message a r)"
  unfolding AgeLimit_before_process_message_def Let_def by (auto intro!: basic_sound sound_raise)

lemma TimeLimit_sound:
  "sound I P (TimeLimit_before_process_message (mc_place X) t l r)"
  "sound I P (TimeLimit_after_process_message (mc_place X) t)"
  unfolding TimeLimit_before_process_message_def TimeLimit_after_process_message_def
  by (auto intro!: basic_sound simp: add_timeout_def remove_timeout_def)

lemma shutdown_metrics: "ms_metrics (shutdown ms) = ms_metrics ms"
  by (simp add: shutdown_def raise_many)

lemma ShutdownNotifications_sound:
  "sound I P (ShutdownNotifications_before_process_message (mc_place X) t n r)"
  "sound I P (ShutdownNotifications_after_process_message (mc_place X) t)"
  "sound I P (ShutdownNotifications_before_worker_shutdown (mc_place X))"
  unfolding ShutdownNotifications_before_process_message_def ShutdownNotifications_after_process_message_def
    ShutdownNotifications_before_worker_shutdown_def
  by (auto intro!: basic_sound simp: add_notification_def remove_notification_def shutdown_metrics)

lemma Callbacks_sound: "sound I P (Callbacks_after_process_message (mc_env X) r v e)"
  unfolding Callbacks_after_process_message_def Let_def by (auto intro!: basic_sound split: option.split)

lemma delay_option_sound: "sound I P (delay_option v)"
  unfolding delay_option_def by (auto intro!: basic_sound)

lemma Pipelines_sound: "sound I P (Pipelines_after_process_message (mc_env X) r v e)"
proof -
  have "sound I P (Pipelines_forward (mc_env X) a v m)" for a m
    unfolding Pipelines_forward_def Let_def by (auto intro!: basic_sound delay_option_sound enqueue)
  then show ?thesis
    unfolding Pipelines_after_process_message_def Let_def
    by (auto intro!: basic_sound sound_raise TypeError_plain dest!: message_of_error split: prod.split sum.split)
qed

lemma Retries_sound: "sound I P (Retries_after_process_message (mc_env X) cfg r e)"
proof -
  have "sound I P (count_retry tb r)" for tb
    unfolding count_retry_def by (auto intro!: basic_sound simp: dict_setdefault_def dget_def split: option.split)
  moreover have "sound I P (retries_exceeded (mc_env X) w m k e)" for w m k e
    unfolding retries_exceeded_def by (auto intro!: basic_sound retry_when)
  moreover have "sound I P (retry_delay (mc_env X) cfg m a k e)" for m a k e
    unfolding retry_delay_def Let_def by (auto intro!: basic_sound split: bool.split option.split)
  ultimately show ?thesis
    unfolding Retries_after_process_message_def Let_def
    by (auto intro!: basic_sound enqueue split: option.split)
qed

lemma enqueue_all_sound:
  "sound I P (for_each (\<lambda>data s. (case message_of E (br_clock s) data of
       Inl e \<Rightarrow> (Inl e, s) | Inr message \<Rightarrow> andthen (me_enqueue (mc_env X) message None) (\<lambda>_. return ()) s)) cbs)"
proof (rule sound_for_each)
  fix d
  have "sound I P (andthen (me_enqueue (mc_env X) m None) (\<lambda>_. return ()))" for m
    by (auto intro!: basic_sound enqueue)
  then show "sound I P (\<lambda>s. case message_of E (br_clock s) d of
       Inl e \<Rightarrow> (Inl e, s) | Inr message \<Rightarrow> andthen (me_enqueue (mc_env X) message None) (\<lambda>_. return ()) s)"
    unfolding sound_def by (auto split: sum.split dest!: message_of_error intro: TypeError_plain)
qed

lemma GroupCallbacks_sound: "sound I P (GroupCallbacks_after_process_message (mc_env X) (mc_rate_limiter X) t r e)"
  unfolding GroupCallbacks_after_process_message_def Let_def
  by (auto intro!: basic_sound sound_raise plain_raise barrier enqueue_all_sound split: pyval.split)

lemma lookup_sound: "sound I P (Results_lookup_options cfg m)"
  unfolding Results_lookup_options_def
  by (rule sound_try_except [where Q = P]) (auto intro!: basic_sound sound_raise)

lemma Results_sound:
  "sound I P (Results_after_process_message md5 (mc_results X) cfg r v e)"
  "sound I P (Results_after_skip_message md5 (mc_results X) cfg r)"
  "sound I P (Results_after_nack md5 (mc_results X) cfg r)"
  unfolding Results_after_process_message_def Results_after_skip_message_def Results_after_nack_def
    store_result_def store_exception_def Let_def
  by (auto intro!: basic_sound lookup_sound store split: prod.split)

lemma CurrentMessage_sound: "sound I P (CurrentMessage_set (mc_place X) t v)"
  unfolding CurrentMessage_set_def by (auto intro!: basic_sound)

lemma Middleware_sound: "sound I P (Middleware h)"
  by (simp add: Middleware_def)

lemmas hooks_sound = AgeLimit_sound TimeLimit_sound ShutdownNotifications_sound Callbacks_sound Pipelines_sound
  Retries_sound GroupCallbacks_sound Results_sound CurrentMessage_sound Middleware_sound

lemma shipped_sound:
  "m \<noteq> MW_Prometheus \<Longrightarrow> (\<And>msg. (\<exists>a r. m = MW_AgeLimit a \<and> h = Before_process_message r) \<Longrightarrow> P (mk_exn SkipMessage msg))
    \<Longrightarrow> sound I P (shipped_run X m h)"
  by (cases m; cases h) (simp_all add: hooks_sound)

end

end
