(* ===== verification/Composition.thy ===== *)
theory Composition
  imports Middlewares Results
begin

text \<open>
  \<^verbatim>\<open>dramatiq/composition.py\<close>: pipelines and groups. A pipeline links its messages by storing the
  dictionary of the next message in the options of the one before; that dictionary shares the
  options object of the message it was made from, so options live in a heap here and a dictionary
  made by \<open>asdict\<close> holds the address of the shared options.
\<close>

section \<open>Messages as objects\<close>

text \<open>
  An option is a plain value or the dictionary of a message object. A message object is its fields
  together with the address of its options (the \<^const>\<open>options\<close> field of the record is not used).
\<close>

datatype hval = Plain pyval | MessageDict message nat

type_synonym opt_heap = "hval dict list"

type_synonym mobj = "message \<times> nat"

text \<open>What an options object looks like when it is encoded; the depth bounds the nesting.\<close>

fun plain_options :: "nat \<Rightarrow> opt_heap \<Rightarrow> nat \<Rightarrow> pydict" where
  "plain_options 0 h a = []"
| "plain_options (Suc depth) h a =
     map (\<lambda>(k, v). (k, case v of Plain p \<Rightarrow> p
                        | MessageDict m b \<Rightarrow> PDict (asdict (m\<lparr>options := plain_options depth h b\<rparr>)))) (h ! a)"

definition plain_message :: "nat \<Rightarrow> opt_heap \<Rightarrow> mobj \<Rightarrow> message" where
  "plain_message depth h obj = (fst obj)\<lparr>options := plain_options depth h (snd obj)\<rparr>"

text \<open>\<open>message.copy(options=new)\<close>: a new options object with the same values, shallowly.\<close>

definition obj_copy :: "hval dict \<Rightarrow> mobj \<Rightarrow> opt_heap \<Rightarrow> mobj \<times> opt_heap" where
  "obj_copy new obj h = ((fst obj, length h), h @ [dict_merge (h ! snd obj) new])"

fun copy_all :: "mobj list \<Rightarrow> opt_heap \<Rightarrow> mobj list \<times> opt_heap" where
  "copy_all [] h = ([], h)"
| "copy_all (obj # objs) h =
     (case obj_copy [] obj h of (obj, h) \<Rightarrow> (case copy_all objs h of (objs, h) \<Rightarrow> (obj # objs, h)))"

section \<open>Pipelines\<close>

text \<open>\<open>for message, next_message in zip(messages, messages[1:])\<close>.\<close>

fun link :: "mobj list \<Rightarrow> opt_heap \<Rightarrow> opt_heap" where
  "link (message # next_message # messages) h =
     (let h = h[snd message := AList.update ''pipe_target'' (MessageDict (fst next_message) (snd next_message))
                                 (h ! snd message)]
      in link (next_message # messages) h)"
| "link _ h = h"

text \<open>The children of a composition: messages, pipelines (their messages) and groups.\<close>

datatype child = Msg mobj | Pipe "mobj list" | Group "child list"

fun pipeline_objs :: "child \<Rightarrow> mobj list" where
  "pipeline_objs (Msg obj) = [obj]"
| "pipeline_objs (Pipe objs) = objs"
| "pipeline_objs (Group cs) = []"

definition pipeline :: "child list \<Rightarrow> opt_heap \<Rightarrow> mobj list \<times> opt_heap" where
  "pipeline children h =
     (case copy_all (concat (map pipeline_objs children)) h of (messages, h) \<Rightarrow> (messages, link messages h))"

text \<open>\<open>self | other\<close>.\<close>

definition pipeline_or :: "mobj list \<Rightarrow> child \<Rightarrow> opt_heap \<Rightarrow> mobj list \<times> opt_heap" where
  "pipeline_or messages other h = pipeline (map Msg messages @ [other]) h"

definition enqueue_obj ::
  "'s mw_env \<Rightarrow> opt_heap \<Rightarrow> mobj \<Rightarrow> int option \<Rightarrow> ('s, unit) proc" where
  "enqueue_obj E h obj delay =
     andthen (me_enqueue E (plain_message (length h) h obj) delay) (\<lambda>_. return ())"

definition or_zero :: "pyval \<Rightarrow> ('s, int) proc" where
  "or_zero v = (if truthy v then number v else return 0)"

definition pipeline_run ::
  "'s mw_env \<Rightarrow> opt_heap \<Rightarrow> mobj list \<Rightarrow> int option \<Rightarrow> ('s, unit) proc" where
  "pipeline_run E h messages delay =
     (case messages of
        [] \<Rightarrow> raise (mk_exn IndexError ''list index out of range'')
      | first # _ \<Rightarrow>
          andthen (or_zero (dget (plain_options (length h) h (snd first)) ''delay'')) (\<lambda>d.
          (let delay = max (case delay of None \<Rightarrow> 0 | Some x \<Rightarrow> x) d
           in enqueue_obj E h first (if delay = 0 then None else Some delay))))"

text \<open>
  \<open>completed_count\<close>: the messages are asked for their results in order up to the first that is
  missing. Without any message the variable \<open>count\<close> is never bound.
\<close>

fun completed_loop :: "('x \<Rightarrow> ('s, 'r) proc) \<Rightarrow> nat \<Rightarrow> 'x list \<Rightarrow> ('s, nat) proc" where
  "completed_loop fetch count [] = return count"
| "completed_loop fetch count (m # ms) =
     (\<lambda>s. case fetch m s of
        (Inl e, s) \<Rightarrow> if isinstance e ResultMissing then (Inr count, s) else (Inl e, s)
      | (Inr _, s) \<Rightarrow> completed_loop fetch (Suc count) ms s)"

definition pipeline_completed_count :: "(mobj \<Rightarrow> ('s, pyval) proc) \<Rightarrow> mobj list \<Rightarrow> ('s, nat) proc" where
  "pipeline_completed_count fetch messages =
     (if messages = [] then raise (mk_exn (UserException ''UnboundLocalError'') ''count'')
      else completed_loop fetch 0 messages)"

definition pipeline_completed :: "(mobj \<Rightarrow> ('s, pyval) proc) \<Rightarrow> mobj list \<Rightarrow> ('s, bool) proc" where
  "pipeline_completed fetch messages =
     (if messages = [] then raise (mk_exn IndexError ''list index out of range'')
      else try_except (andthen (fetch (last messages)) (\<lambda>_. return True))
             (\<lambda>e. if isinstance e ResultMissing then return False else raise e))"

section \<open>Groups\<close>

text \<open>
  \<open>group.run\<close>. \<open>find_backend\<close> is the \<open>GroupCallbacks\<close> middleware's backend and barrier lifetime, if the
  broker has one. The last message of a child pipeline is replaced by a copy that carries the
  completion options, and the pipeline is built anew.
\<close>

definition completion_options :: "string \<Rightarrow> pyval list \<Rightarrow> hval dict" where
  "completion_options uuid callbacks =
     [(''group_completion_uuid'', Plain (PStr uuid)), (''group_completion_callbacks'', Plain (PList callbacks))]"

fun group_children :: "hval dict \<Rightarrow> child list \<Rightarrow> opt_heap \<Rightarrow> exn + (child list \<times> opt_heap)" where
  "group_children new [] h = Inr ([], h)"
| "group_children new (Group cs # children) h = Inl (mk_exn NotImplementedError '''')"
| "group_children new (Pipe objs # children) h =
     (if objs = [] then Inl (mk_exn IndexError ''list index out of range'')
      else
        (case obj_copy new (last objs) h of (obj, h) \<Rightarrow>
        (case pipeline (map Msg (butlast objs @ [obj])) h of (objs, h) \<Rightarrow>
        (case group_children new children h of
           Inl e \<Rightarrow> Inl e
         | Inr (children, h) \<Rightarrow> Inr (Pipe objs # children, h)))))"
| "group_children new (Msg obj # children) h =
     (case obj_copy new obj h of (obj, h) \<Rightarrow>
     (case group_children new children h of
        Inl e \<Rightarrow> Inl e
      | Inr (children, h) \<Rightarrow> Inr (Msg obj # children, h)))"

fun run_children :: "'s mw_env \<Rightarrow> opt_heap \<Rightarrow> int option \<Rightarrow> child list \<Rightarrow> ('s, unit) proc" where
  "run_children E h delay [] = return ()"
| "run_children E h delay (Msg obj # children) =
     andthen (enqueue_obj E h obj delay) (\<lambda>_. run_children E h delay children)"
| "run_children E h delay (Pipe objs # children) =
     andthen (pipeline_run E h objs delay) (\<lambda>_. run_children E h delay children)"
| "run_children E h delay (Group cs # children) =
     andthen (run_children E h delay cs) (\<lambda>_. run_children E h delay children)"

definition group_run ::
  "'s mw_env \<Rightarrow> ('s rl_backend \<times> int) option \<Rightarrow> opt_heap \<Rightarrow> pyval list \<Rightarrow> child list \<Rightarrow> int option \<Rightarrow> ('s, unit) proc" where
  "group_run E find_backend h callbacks children delay =
     (if callbacks = [] then run_children E h delay children
      else
        (case find_backend of
           None \<Rightarrow> raise (mk_exn RuntimeError ''GroupCallbacks middleware not found!'')
         | Some (B, barrier_ttl) \<Rightarrow>
             (let completion_uuid = me_uuid E
              in andthen (barrier_create B completion_uuid barrier_ttl (int (length children))) (\<lambda>_.
                 case group_children (completion_options completion_uuid callbacks) children h of
                   Inl e \<Rightarrow> raise e
                 | Inr (children, h) \<Rightarrow> run_children E h delay children))))"

text \<open>
  \<open>group.completed_count\<close>: the \<open>get_results\<close> of a nested group is a generator function, so calling it
  runs none of its body.
\<close>

fun group_completed_count :: "(mobj \<Rightarrow> ('s, pyval) proc) \<Rightarrow> child list \<Rightarrow> ('s, nat) proc" where
  "group_completed_count fetch [] = return 0"
| "group_completed_count fetch (c # cs) =
     andthen
       (case c of
          Group _ \<Rightarrow> return 1
        | Msg obj \<Rightarrow> try_except (andthen (fetch obj) (\<lambda>_. return 1))
                      (\<lambda>e. if isinstance e ResultMissing then return 0 else raise e)
        | Pipe objs \<Rightarrow>
            (if objs = [] then raise (mk_exn IndexError ''list index out of range'')
             else try_except (andthen (fetch (last objs)) (\<lambda>_. return 1))
                    (\<lambda>e. if isinstance e ResultMissing then return 0 else raise e)))
       (\<lambda>n. andthen (group_completed_count fetch cs) (\<lambda>m. return (n + m)))"

definition group_completed :: "(mobj \<Rightarrow> ('s, pyval) proc) \<Rightarrow> child list \<Rightarrow> ('s, bool) proc" where
  "group_completed fetch children =
     andthen (group_completed_count fetch children) (\<lambda>n. return (n = length children))"

text \<open>
  \<open>get_results\<close> run to its end: the deadline is fixed once, and each result is waited for with the time
  that is left. \<open>now\<close> reads the clock of the state.
\<close>

fun get_results_loop ::
  "(mobj \<Rightarrow> int option \<Rightarrow> ('s, pyval) proc) \<Rightarrow> ('s \<Rightarrow> int) \<Rightarrow> int option \<Rightarrow> int option \<Rightarrow> child list
   \<Rightarrow> ('s, pyval list) proc"
and child_results ::
  "(mobj \<Rightarrow> int option \<Rightarrow> ('s, pyval) proc) \<Rightarrow> ('s \<Rightarrow> int) \<Rightarrow> int option \<Rightarrow> child \<Rightarrow> ('s, pyval) proc" where
  "get_results_loop fetch now deadline timeout [] = return []"
| "get_results_loop fetch now deadline timeout (c # cs) =
     andthen (get_state (\<lambda>s. case deadline of None \<Rightarrow> timeout | Some d \<Rightarrow> Some (max 0 (d - now s)))) (\<lambda>timeout.
     andthen (child_results fetch now timeout c) (\<lambda>v.
     andthen (get_results_loop fetch now deadline timeout cs) (\<lambda>vs. return (v # vs))))"
| "child_results fetch now timeout (Msg obj) = fetch obj timeout"
| "child_results fetch now timeout (Pipe objs) =
     (if objs = [] then raise (mk_exn IndexError ''list index out of range'') else fetch (last objs) timeout)"
| "child_results fetch now timeout (Group cs) =
     andthen (get_state (\<lambda>s. case timeout of None \<Rightarrow> None | Some t \<Rightarrow> if t = 0 then None else Some (now s + t))) (\<lambda>deadline.
     andthen (get_results_loop fetch now deadline timeout cs) (\<lambda>vs. return (PList vs)))"

definition group_get_results ::
  "(mobj \<Rightarrow> int option \<Rightarrow> ('s, pyval) proc) \<Rightarrow> ('s \<Rightarrow> int) \<Rightarrow> int option \<Rightarrow> child list \<Rightarrow> ('s, pyval list) proc" where
  "group_get_results fetch now timeout children =
     andthen (get_state (\<lambda>s. case timeout of None \<Rightarrow> None | Some t \<Rightarrow> if t = 0 then None else Some (now s + t))) (\<lambda>deadline.
       get_results_loop fetch now deadline timeout children)"

section \<open>Links\<close>

text \<open>
  What a pipeline amounts to: each message carries the whole rest of the chain under \<open>pipe_target\<close>.
\<close>

fun chain :: "(message \<times> pydict) list \<Rightarrow> message" where
  "chain [(m, d)] = m\<lparr>options := d\<rparr>"
| "chain ((m, d) # n # ms) = m\<lparr>options := AList.update ''pipe_target'' (PDict (asdict (chain (n # ms)))) d\<rparr>"
| "chain [] = \<lparr>queue_name = [], actor_name = [], args = [], kwargs = [], options = [], message_id = [],
              message_timestamp = 0\<rparr>"

definition plain_value :: "hval \<Rightarrow> pyval" where
  "plain_value v = (case v of Plain p \<Rightarrow> p | MessageDict m b \<Rightarrow> PNone)"

definition plain_entries :: "hval dict \<Rightarrow> pydict" where
  "plain_entries es = map (\<lambda>(k, v). (k, plain_value v)) es"

text \<open>Options whose only link, if any, is an old \<open>pipe_target\<close>, and options without any link.\<close>

definition linkable :: "hval dict \<Rightarrow> bool" where
  "linkable es = (dict_wf es \<and> (\<forall>(k, v) \<in> set es. k \<noteq> ''pipe_target'' \<longrightarrow> (\<exists>p. v = Plain p)))"

definition unlinked :: "hval dict \<Rightarrow> bool" where
  "unlinked es = (\<forall>(k, v) \<in> set es. \<exists>p. v = Plain p)"

fun linked :: "opt_heap \<Rightarrow> (mobj \<times> hval dict) list \<Rightarrow> bool" where
  "linked h [] = True"
| "linked h [((m, a), es)] = (h ! a = es \<and> unlinked es)"
| "linked h (((m, a), es) # ((n, b), es') # rest) =
     (h ! a = AList.update ''pipe_target'' (MessageDict n b) es \<and> linkable es
      \<and> linked h (((n, b), es') # rest))"

lemma map_unlinked:
  assumes "unlinked es"
  shows "map (\<lambda>(k, v). (k, case v of Plain p \<Rightarrow> p | MessageDict m b \<Rightarrow> f m b)) es = plain_entries es"
  using assms by (induction es) (auto simp: unlinked_def plain_entries_def plain_value_def)

lemma map_linkable:
  assumes "linkable es"
  shows "map (\<lambda>(k, v). (k, case v of Plain p \<Rightarrow> p | MessageDict m b \<Rightarrow> f m b))
           (AList.update ''pipe_target'' (MessageDict n c) es)
       = AList.update ''pipe_target'' (f n c) (plain_entries es)"
  using assms
proof (induction es)
  case Nil
  then show ?case by (simp add: plain_entries_def)
next
  case (Cons e es)
  obtain k v where e: "e = (k, v)" by force
  show ?case
  proof (cases "k = ''pipe_target''")
    case True
    then have "\<forall>(k, v) \<in> set es. k \<noteq> ''pipe_target''"
      using Cons.prems e by (force simp: linkable_def dict_wf_def)
    then have "unlinked es" using Cons.prems by (auto simp: linkable_def unlinked_def)
    with True show ?thesis using map_unlinked [of es f] by (simp add: e plain_entries_def)
  next
    case False
    moreover have "linkable es" using Cons.prems by (auto simp: linkable_def dict_wf_def)
    ultimately show ?thesis
      using Cons by (auto simp: e plain_entries_def plain_value_def linkable_def)
  qed
qed

lemma linked_chain:
  assumes "linked h xs" and "xs \<noteq> []" and "length xs \<le> depth"
  shows "plain_message depth h (fst (hd xs)) = chain (map (\<lambda>(obj, es). (fst obj, plain_entries es)) xs)"
  using assms
proof (induction h xs arbitrary: depth rule: linked.induct)
  case (2 h m a es)
  then obtain d where "depth = Suc d" by (cases depth) auto
  with 2 show ?case by (simp add: plain_message_def map_unlinked)
next
  case (3 h m a es n b es' rest)
  then obtain d where d: "depth = Suc d" by (cases depth) auto
  with "3.IH" [of d] "3.prems" have
    "PDict (asdict (n\<lparr>options := plain_options d h b\<rparr>))
      = PDict (asdict (chain ((n, plain_entries es') # map (\<lambda>(obj, es). (fst obj, plain_entries es)) rest)))"
    by (simp add: plain_message_def)
  with "3.prems" d show ?case
    using map_linkable [of es "\<lambda>m b. PDict (asdict (m\<lparr>options := plain_options d h b\<rparr>))" n b]
    by (simp add: plain_message_def)
qed simp

lemma link_other:
  "a \<notin> snd ` set ms \<Longrightarrow> link ms h ! a = h ! a"
  "length (link ms h) = length h"
  by (induction ms h rule: link.induct) (auto simp: Let_def)

lemma link_linked:
  assumes "distinct (map snd ms)" and "\<forall>obj \<in> set ms. snd obj < length h"
    and "\<forall>obj \<in> set ms. linkable (h ! snd obj)" and "ms \<noteq> [] \<longrightarrow> unlinked (h ! snd (last ms))"
  shows "linked (link ms h) (map (\<lambda>obj. (obj, h ! snd obj)) ms)"
  using assms
proof (induction ms h rule: link.induct)
  case (1 m n ms h)
  let ?h = "h[snd m := AList.update ''pipe_target'' (MessageDict (fst n) (snd n)) (h ! snd m)]"
  have same: "?h ! snd obj = h ! snd obj" if "obj \<in> set (n # ms)" for obj
  proof -
    have "snd obj \<noteq> snd m" using "1.prems"(1) that by (cases m; cases n; cases obj) force
    then show ?thesis by simp
  qed
  then have "map (\<lambda>obj. (obj, ?h ! snd obj)) (n # ms) = map (\<lambda>obj. (obj, h ! snd obj)) (n # ms)" by simp
  moreover have "linked (link (n # ms) ?h) (map (\<lambda>obj. (obj, ?h ! snd obj)) (n # ms))"
    by (rule "1.IH") (use "1.prems" same in \<open>auto simp del: nth_list_update_neq\<close>)
  ultimately have "linked (link (n # ms) ?h) (map (\<lambda>obj. (obj, h ! snd obj)) (n # ms))" by metis
  moreover have "link (n # ms) ?h ! snd m = ?h ! snd m"
    using "1.prems"(1) by (intro link_other(1)) auto
  moreover have "linkable (h ! snd m)" "snd m < length h" using "1.prems" by simp_all
  ultimately show ?case by (cases m; cases n) (simp add: Let_def)
qed auto

lemma copy_all_spec:
  assumes "\<forall>obj \<in> set objs. snd obj < length h"
  shows "copy_all objs h = (zip (map fst objs) [length h..<length h + length objs], h @ map (\<lambda>obj. h ! snd obj) objs)"
  using assms
proof (induction objs arbitrary: h)
  case Nil
  then show ?case by simp
next
  case (Cons obj objs)
  let ?h = "h @ [h ! snd obj]"
  have "copy_all objs ?h = (zip (map fst objs) [length ?h..<length ?h + length objs], ?h @ map (\<lambda>o'. ?h ! snd o') objs)"
    by (rule Cons.IH) (use Cons.prems in auto)
  moreover have "map (\<lambda>o'. ?h ! snd o') objs = map (\<lambda>o'. h ! snd o') objs"
    using Cons.prems by (simp add: nth_append)
  moreover have "[length h..<length h + length (obj # objs)] = length h # [Suc (length h)..<Suc (length h + length objs)]"
    by (simp add: upt_conv_Cons del: upt_Suc)
  ultimately show ?case by (simp add: obj_copy_def del: upt_Suc)
qed

text \<open>
  Linking a pipeline: the messages of the new pipeline are copies of its children's messages in
  order; encoded, each carries the whole chain of those after it under \<open>pipe_target\<close>, although
  every link was set before the link of the next message; links that the children had are replaced,
  and the children's own options are untouched.
\<close>

theorem pipeline_links:
  assumes objs: "objs = concat (map pipeline_objs children)" and "pipeline children h = (messages, h')"
    and "\<forall>obj \<in> set objs. snd obj < length h \<and> linkable (h ! snd obj)"
    and "objs \<noteq> [] \<longrightarrow> unlinked (h ! snd (last objs))"
  shows "map fst messages = map fst objs
    \<and> (\<forall>i < length objs. plain_message (length h') h' (messages ! i)
          = chain (drop i (map (\<lambda>obj. (fst obj, plain_entries (h ! snd obj))) objs)))
    \<and> (\<forall>a < length h. h' ! a = h ! a)"
proof -
  let ?n = "length h" and ?h = "h @ map (\<lambda>obj. h ! snd obj) objs"
  let ?ms = "zip (map fst objs) [?n..<?n + length objs]"
  have ms: "messages = ?ms" and h': "h' = link ?ms ?h"
    using assms(2) copy_all_spec [of objs h] assms(3) by (auto simp: pipeline_def objs [symmetric])
  have addr: "snd (?ms ! i) = ?n + i" "fst (?ms ! i) = fst (objs ! i)" "?h ! (?n + i) = h ! snd (objs ! i)"
    if "i < length objs" for i
    using that by (simp_all add: nth_append)
  have len: "length ?ms = length objs" by simp
  have view: "map (\<lambda>obj. (obj, ?h ! snd obj)) ?ms = map (\<lambda>i. (?ms ! i, h ! snd (objs ! i))) [0..<length objs]"
    by (rule nth_equalityI) (simp_all add: nth_append)
  have "linked h' (map (\<lambda>obj. (obj, ?h ! snd obj)) ?ms)"
    unfolding h'
  proof (rule link_linked)
    show "distinct (map snd ?ms)" by simp
    show "\<forall>obj \<in> set ?ms. snd obj < length ?h" by (auto simp: set_zip)
    show "\<forall>obj \<in> set ?ms. linkable (?h ! snd obj)"
      using assms(3) by (auto simp: set_zip nth_append)
    show "?ms \<noteq> [] \<longrightarrow> unlinked (?h ! snd (last ?ms))"
      using assms(4) addr [of "length objs - 1"] by (cases "objs = []") (auto simp: last_conv_nth)
  qed
  then have linked: "linked h' (map (\<lambda>i. (?ms ! i, h ! snd (objs ! i))) [0..<length objs])"
    by (simp only: view)
  have tail: "linked h' (drop i xs)" if "linked h' xs" for i xs
    using that
  proof (induction i arbitrary: xs)
    case (Suc i)
    then show ?case by (cases "(h', xs)" rule: linked.cases) auto
  qed simp
  have "plain_message (length h') h' (messages ! i)
      = chain (drop i (map (\<lambda>obj. (fst obj, plain_entries (h ! snd obj))) objs))" if i: "i < length objs" for i
  proof -
    let ?xs = "drop i (map (\<lambda>i. (?ms ! i, h ! snd (objs ! i))) [0..<length objs])"
    have "plain_message (length h') h' (fst (hd ?xs)) = chain (map (\<lambda>(obj, es). (fst obj, plain_entries es)) ?xs)"
      by (rule linked_chain [OF tail [OF linked]]) (use i in \<open>auto simp: h' link_other(2)\<close>)
    moreover have "fst (hd ?xs) = messages ! i" using i by (simp add: hd_drop_conv_nth ms)
    moreover have "map (\<lambda>(obj, es). (fst obj, plain_entries es)) ?xs
        = drop i (map (\<lambda>obj. (fst obj, plain_entries (h ! snd obj))) objs)"
      by (rule nth_equalityI) (use i in auto)
    ultimately show ?thesis by simp
  qed
  moreover have "h' ! a = h ! a" if "a < ?n" for a
  proof -
    have "a \<notin> snd ` set ?ms" using that by (auto simp: set_zip)
    then show ?thesis using that link_other(1) [of a ?ms ?h] by (simp add: h' nth_append)
  qed
  ultimately show ?thesis by (simp add: ms)
qed

theorem pipeline_links_witness:
  "\<exists>messages h'. pipeline [Msg (blank_message, 0), Pipe [(blank_message, 1)]] [[], [(''retries'', Plain (PInt 1))]] = (messages, h')
     \<and> plain_message (length h') h' (messages ! 0)
       = blank_message\<lparr>options := [(''pipe_target'', PDict (asdict (blank_message\<lparr>options := [(''retries'', PInt 1)]\<rparr>)))]\<rparr>"
proof -
  obtain messages h' where p: "pipeline [Msg (blank_message, 0), Pipe [(blank_message, 1)]]
      [[], [(''retries'', Plain (PInt 1))]] = (messages, h')" by force
  have "plain_message (length h') h' (messages ! 0) = chain [(blank_message, []), (blank_message, [(''retries'', PInt 1)])]"
    using pipeline_links [OF _ p, of "[(blank_message, 0), (blank_message, 1)]"]
    by (simp add: linkable_def unlinked_def dict_wf_def plain_entries_def plain_value_def)
  with p show ?thesis by auto
qed

section \<open>Running a pipeline\<close>

text \<open>
  Processing messages in turn, with all that their hooks enqueue after them, until none is left: the calls
  made, each with the actor and its arguments, or \<open>None\<close> if messages are left when the fuel is used up.
  \<open>call\<close> gives the result of an actor on arguments.
\<close>

fun pipe_run ::
  "nat \<Rightarrow> ('m, 'q, 'a) broker_scheme mw_env \<Rightarrow> (string \<Rightarrow> pyval list \<Rightarrow> pyval)
   \<Rightarrow> (('m, 'q, 'a) broker_scheme \<Rightarrow> message list) \<Rightarrow> proxy_ref \<Rightarrow> message list \<Rightarrow> ('m, 'q, 'a) broker_scheme
   \<Rightarrow> (string \<times> pyval list) list option" where
  "pipe_run fuel E call sent r [] s = Some []"
| "pipe_run 0 E call sent r (m # ms) s = None"
| "pipe_run (Suc fuel) E call sent r (m # ms) s =
     (let s0 = update_proxy r (\<lambda>_. MessageProxy m) s;
          s1 = snd (Pipelines_after_process_message E r (call (actor_name m) (args m)) None s0)
      in map_option (Cons (actor_name m, args m))
           (pipe_run fuel E call sent r (ms @ drop (length (sent s0)) (sent s1)) s1))"

text \<open>The calls a pipeline promises: each message's arguments and the result of the one before.\<close>

fun pipe_expected :: "(string \<Rightarrow> pyval list \<Rightarrow> pyval) \<Rightarrow> (message \<times> pydict) list \<Rightarrow> (string \<times> pyval list) list" where
  "pipe_expected call [] = []"
| "pipe_expected call [(m, d)] = [(actor_name m, args m)]"
| "pipe_expected call ((m, d) # (n, d') # ms) =
     (actor_name m, args m) #
     pipe_expected call ((if truthy (dget d' ''pipe_ignore'') then n
        else n\<lparr>args := args n @ [call (actor_name m) (args m)]\<rparr>, d') # ms)"

definition pipe_ready :: "actor dict \<Rightarrow> message \<times> pydict \<Rightarrow> bool" where
  "pipe_ready actors = (\<lambda>(m, d).
     (\<exists>a. map_of actors (actor_name m) = Some a \<and> \<not> truthy (dget (ac_options a) ''pipe_ignore''))
     \<and> (dget d ''delay'' = PNone \<or> (\<exists>i. dget d ''delay'' = PInt i)))"

lemma chain_fields [simp]:
  "queue_name (chain ((m, d) # ms)) = queue_name m" "actor_name (chain ((m, d) # ms)) = actor_name m"
  "args (chain ((m, d) # ms)) = args m"
  "x \<noteq> ''pipe_target'' \<Longrightarrow> dget (options (chain ((m, d) # ms))) x = dget d x"
  by (cases ms; simp)+

lemma chain_args: "(chain ((m, d) # ms))\<lparr>args := xs\<rparr> = chain ((m\<lparr>args := xs\<rparr>, d) # ms)"
  by (cases ms) simp_all

lemma Pipelines_last:
  assumes "px_message (br_proxies s r) = chain [(m, d)]" and "dget d ''pipe_target'' = PNone"
    and "pipe_ready (br_actors s) (m, d)" and "\<not> px_failed (br_proxies s r)"
  shows "Pipelines_after_process_message E r result None s = (Inr (), s)"
  using assms
  by (auto simp: Pipelines_after_process_message_def pipe_ready_def andthen_def get_state_def get_actor_found
      return_def Let_def)

lemma Pipelines_next:
  fixes s :: "('m, 'q, 'a) broker_scheme"
  assumes "px_message (br_proxies s r) = chain ((m, d) # (n, d') # ms)"
    and "pipe_ready (br_actors s) (m, d)" and "pipe_ready (br_actors s) (n, d')" and "\<not> px_failed (br_proxies s r)"
  shows "\<exists>delay. Pipelines_after_process_message E r result None s =
    andthen (me_enqueue E (chain ((if truthy (dget d' ''pipe_ignore'') then n
        else n\<lparr>args := args n @ [result]\<rparr>, d') # ms)) delay) (\<lambda>_. return ()) s"
proof -
  obtain a where a: "map_of (br_actors s) (actor_name m) = Some a" "\<not> truthy (dget (ac_options a) ''pipe_ignore'')"
    using assms(2) by (auto simp: pipe_ready_def)
  let ?n = "chain ((n, d') # ms)"
  have opt: "truthy (option_or ?n a ''pipe_ignore'') = truthy (dget d' ''pipe_ignore'')"
    using a(2) by (simp add: option_or_def py_or_def)
  have copy: "copy (\<lambda>m. m\<lparr>args := args ?n @ [result]\<rparr>) [] ?n = chain ((n\<lparr>args := args n @ [result]\<rparr>, d') # ms)"
    by (simp add: copy_def flip: chain_args)
  obtain x where delay: "delay_option (dget d' ''delay'') = (return x :: (('m, 'q, 'a) broker_scheme, int option) proc)"
    using assms(3) by (auto simp: pipe_ready_def delay_option_def number_def)
  have target: "dget (options (chain ((m, d) # (n, d') # ms))) ''pipe_target'' = PDict (asdict ?n)" by simp
  have of: "message_of E t (PDict (asdict ?n)) = Inr ?n" for t
    by (simp add: message_of_def of_dict_asdict)
  have "Pipelines_forward E a result ?n =
    andthen (me_enqueue E (chain ((if truthy (dget d' ''pipe_ignore'') then n
        else n\<lparr>args := args n @ [result]\<rparr>, d') # ms)) x) (\<lambda>_. return ())"
    unfolding Pipelines_forward_def opt copy Let_def
    using delay by (cases "truthy (dget d' ''pipe_ignore'')") simp_all
  moreover have "Pipelines_after_process_message E r result None s = Pipelines_forward E a result ?n s"
    unfolding Pipelines_after_process_message_def andthen_get_state
    using assms(1,4) target of get_actor_found [OF a(1)] by (simp add: andthen_Inr Let_def del: chain.simps)
  ultimately show ?thesis by metis
qed

text \<open>
  C7. A pipeline runs its messages in order, feeding each result on: processing the first message of
  a linked pipeline, and then every message that is enqueued, however many, until none is left, calls every
  actor exactly once, in the order of the pipeline, with the message's own arguments followed by the result
  of the call before (left out where the message asks for that with \<open>pipe_ignore\<close>); as many calls as there
  are messages, and then nothing is left. No actor fails, and no actor has \<open>pipe_ignore\<close> among its own options, which
  would act on the message after it (\<open>pipe_ignore_of_wrong_actor\<close>).
\<close>

theorem pipeline_runs_in_order:
  assumes enqueue: "\<And>m d s. \<exists>s'. me_enqueue E m d s = (Inr m, s') \<and> sent s' = sent s @ [m] \<and> br_actors s' = br_actors s"
    and sent: "\<And>f s. sent (update_proxy r f s) = sent s"
    and "\<forall>x \<in> set ms. pipe_ready (br_actors s) x" and "ms \<noteq> []"
    and "dget (snd (last ms)) ''pipe_target'' = PNone"
  shows "pipe_run (length ms) E call sent r [chain ms] s = Some (pipe_expected call ms)"
  using assms(3-5)
proof (induction call ms arbitrary: s rule: pipe_expected.induct)
  case (2 call m d s)
  let ?s = "update_proxy r (\<lambda>_. MessageProxy (chain [(m, d)])) s"
  have "Pipelines_after_process_message E r (call (actor_name m) (args m)) None ?s = (Inr (), ?s)"
    by (rule Pipelines_last [of _ _ m d]) (use 2 in \<open>simp_all add: MessageProxy_def\<close>)
  then show ?case by (simp add: Let_def sent)
next
  case (3 call m d n d' ms s)
  let ?s = "update_proxy r (\<lambda>_. MessageProxy (chain ((m, d) # (n, d') # ms))) s"
  let ?n = "if truthy (dget d' ''pipe_ignore'') then n else n\<lparr>args := args n @ [call (actor_name m) (args m)]\<rparr>"
  obtain delay where run: "Pipelines_after_process_message E r (call (actor_name m) (args m)) None ?s =
      andthen (me_enqueue E (chain ((?n, d') # ms)) delay) (\<lambda>_. return ()) ?s"
    using Pipelines_next [of ?s r m d n d' ms E "call (actor_name m) (args m)"] "3.prems"(1)
    by (auto simp: MessageProxy_def)
  obtain s2 where s2: "me_enqueue E (chain ((?n, d') # ms)) delay ?s = (Inr (chain ((?n, d') # ms)), s2)"
    "sent s2 = sent ?s @ [chain ((?n, d') # ms)]" "br_actors s2 = br_actors ?s"
    using enqueue by blast
  have "pipe_ready (br_actors s) (?n, d')" using "3.prems"(1) by (auto simp: pipe_ready_def)
  then have "pipe_run (length ((?n, d') # ms)) E call sent r [chain ((?n, d') # ms)] s2 = Some (pipe_expected call ((?n, d') # ms))"
    by (intro "3.IH") (use "3.prems" s2(3) in auto)
  moreover have "snd (Pipelines_after_process_message E r (call (actor_name m) (args m)) None ?s) = s2"
    unfolding run using s2(1) by (simp add: andthen_def return_def)
  moreover have "drop (length (sent ?s)) (sent s2) = [chain ((?n, d') # ms)]" using s2(2) by simp
  moreover have "length ((m, d) # (n, d') # ms) = Suc (length ((?n, d') # ms))" by simp
  ultimately show ?case
    unfolding pipe_expected.simps
    by (simp only: chain_fields append_Nil \<open>length ((m, d) # (n, d') # ms) = Suc (length ((?n, d') # ms))\<close>
        pipe_run.simps(3) Let_def option.map)
qed simp

theorem pipeline_runs_in_order_witness:
  "pipe_run 2 outbox_env (\<lambda>a xs. PList xs) outbox 0 [chain [(blank_message, []), (blank_message, [])]]
     (outbox_broker blank_message ()) = Some [(''add'', []), (''add'', [PList []])]"
proof -
  let ?ms = "[(blank_message, []), (blank_message, [])] :: (message \<times> pydict) list"
  have "args blank_message = []" by (simp add: blank_message_def)
  moreover have "pipe_run (length ?ms) outbox_env (\<lambda>a xs. PList xs) outbox 0
      [chain ?ms] (outbox_broker blank_message ())
    = Some (pipe_expected (\<lambda>a xs. PList xs) ?ms)"
    by (rule pipeline_runs_in_order [where sent = outbox and E = outbox_env])
      (auto simp: outbox_env_def outbox_def pipe_ready_def)
  ultimately show ?thesis by (simp add: numeral_2_eq_2)
qed

text \<open>
  Whose \<open>pipe_ignore\<close> counts: a \<open>pipe_ignore\<close> set at the actor level is looked up on the actor that
  has just run, not on the one that receives the result. The next actor of a pipeline gets the
  result although its own options say to ignore it, and does not get it when the actor before it
  has the option.
\<close>

theorem pipe_ignore_of_wrong_actor:
  assumes "message_of E (br_clock s) (dget (options (message_at s r)) ''pipe_target'') = Inr n"
    and "map_of (br_actors s) (actor_name (message_at s r)) = Some a" and "\<not> px_failed (proxy_at s r)"
    and "map_of (br_actors s) (actor_name n) = Some b" and "dget (options n) ''pipe_ignore'' = PNone"
    and "dget (options n) ''delay'' = PNone"
  shows "(truthy (dget (ac_options b) ''pipe_ignore'') \<and> \<not> truthy (dget (ac_options a) ''pipe_ignore'') \<longrightarrow>
       Pipelines_after_process_message E r result None s
         = andthen (me_enqueue E (n\<lparr>args := args n @ [result]\<rparr>) None) (\<lambda>_. return ()) s)
    \<and> (\<not> truthy (dget (ac_options b) ''pipe_ignore'') \<and> truthy (dget (ac_options a) ''pipe_ignore'') \<longrightarrow>
       Pipelines_after_process_message E r result None s = andthen (me_enqueue E n None) (\<lambda>_. return ()) s)"
proof -
  have ne: "dget (options (message_at s r)) ''pipe_target'' \<noteq> PNone"
    using assms(1) by (auto simp: message_of_def)
  have "Pipelines_after_process_message E r result None s = Pipelines_forward E a result n s"
    unfolding Pipelines_after_process_message_def andthen_get_state
    using assms(1,3) ne get_actor_found [OF assms(2)] by (simp add: andthen_Inr Let_def)
  moreover have "option_or n a ''pipe_ignore'' = dget (ac_options a) ''pipe_ignore''"
    using assms(5) by (simp add: option_or_def py_or_def)
  ultimately show ?thesis
    using assms(6) by (simp add: Pipelines_forward_def Let_def delay_option_def copy_def)
qed

theorem pipe_ignore_of_wrong_actor_witness:
  "let m = blank_message\<lparr>options := [(''pipe_target'', PDict (asdict (blank_message\<lparr>actor_name := ''log''\<rparr>)))]\<rparr>;
       s = (outbox_broker m ())\<lparr>br_actors := [(''add'', add_actor),
              (''log'', add_actor\<lparr>ac_name := ''log'', ac_options := [(''pipe_ignore'', PBool True)]\<rparr>)]\<rparr>
   in Pipelines_after_process_message outbox_env 0 (PInt 5) None s
      = andthen (me_enqueue outbox_env (blank_message\<lparr>actor_name := ''log'', args := [PInt 5]\<rparr>) None) (\<lambda>_. return ()) s"
proof -
  let ?n = "blank_message\<lparr>actor_name := ''log''\<rparr>"
  define m where "m = blank_message\<lparr>options := [(''pipe_target'', PDict (asdict ?n))]\<rparr>"
  let ?b = "add_actor\<lparr>ac_name := ''log'', ac_options := [(''pipe_ignore'', PBool True)]\<rparr>"
  define s :: "(string, message list) broker" where
    "s = (outbox_broker m ())\<lparr>br_actors := [(''add'', add_actor), (''log'', ?b)]\<rparr>"
  have 1: "message_of outbox_env (br_clock s) (dget (options (message_at s 0)) ''pipe_target'') = Inr ?n"
    by (simp add: s_def m_def outbox_broker_def MessageProxy_def message_of_def of_dict_asdict)
  have 2: "map_of (br_actors s) (actor_name (message_at s 0)) = Some add_actor" "map_of (br_actors s) (actor_name ?n) = Some ?b"
    "\<not> px_failed (proxy_at s 0)"
    by (simp_all add: s_def m_def outbox_broker_def MessageProxy_def)
  have "args ?n = []" by (simp add: blank_message_def)
  then show ?thesis
    using pipe_ignore_of_wrong_actor [OF 1 2(1,3,2), where result = "PInt 5"]
    by (simp add: Let_def flip: m_def s_def)
qed

section \<open>Progress of pipelines and groups\<close>

text \<open>
  A nested group always counts as complete: whatever results are stored, a group whose children
  are all groups reports that it is completed, without looking at any result.
\<close>

theorem nested_groups_count_complete:
  "group_completed fetch (map Group groups) s = (Inr True, s)
   \<and> group_completed_count fetch (map Group groups) s = (Inr (length groups), s)"
proof -
  have "group_completed_count fetch (map Group groups) s = (Inr (length groups), s)"
    by (induction groups) (simp_all add: andthen_def return_def)
  then show ?thesis by (simp add: group_completed_def andthen_def return_def)
qed

text \<open>
  The progress of a pipeline: when looking for a result finds it or raises \<open>ResultMissing\<close>, and
  changes nothing, \<open>completed_count\<close> is the number of leading messages whose results are there, and
  \<open>completed\<close> says whether the last one is. A pipeline without messages raises in both.
\<close>

theorem pipeline_progress:
  assumes "\<And>m s. fetch m s = (if stored m then (Inr v, s) else (Inl (mk_exn ResultMissing []), s))"
  shows "(messages \<noteq> [] \<longrightarrow>
      pipeline_completed_count fetch messages s = (Inr (length (takeWhile stored messages)), s)
      \<and> pipeline_completed fetch messages s = (Inr (stored (last messages)), s))
    \<and> (messages = [] \<longrightarrow>
      pipeline_completed_count fetch messages s = (Inl (mk_exn (UserException ''UnboundLocalError'') ''count''), s)
      \<and> fst (pipeline_completed fetch messages s) = Inl (mk_exn IndexError ''list index out of range''))"
proof -
  have "completed_loop fetch k messages s = (Inr (k + length (takeWhile stored messages)), s)" for k
    by (induction messages arbitrary: k) (simp_all add: assms return_def issubclass_code)
  moreover have "pipeline_completed fetch messages s = (Inr (stored (last messages)), s)" if "messages \<noteq> []"
    using that by (simp add: pipeline_completed_def try_except_def andthen_def assms return_def issubclass_code)
  ultimately show ?thesis
    by (simp add: pipeline_completed_count_def pipeline_completed_def raise_def)
qed

theorem pipeline_progress_witness:
  "pipeline_completed_count (\<lambda>m s. if snd m \<le> 1 then (Inr PNone, s) else (Inl (mk_exn ResultMissing []), s))
     [(blank_message, 0), (blank_message, 1), (blank_message, 2)] () = (Inr 2, ())"
proof -
  let ?f = "\<lambda>m s. if snd (m :: mobj) \<le> 1 then (Inr PNone, s) else (Inl (mk_exn ResultMissing []), s :: unit)"
  show ?thesis
    using pipeline_progress [of ?f "\<lambda>m. snd m \<le> 1" PNone "[(blank_message, 0), (blank_message, 1), (blank_message, 2)]" "()"]
    by simp
qed

text \<open>Waiting for one result takes at most the timeout.\<close>

definition waits_within :: "(mobj \<Rightarrow> int option \<Rightarrow> ('s, pyval) proc) \<Rightarrow> ('s \<Rightarrow> int) \<Rightarrow> bool" where
  "waits_within fetch now = (\<forall>obj t s. 0 \<le> t \<longrightarrow> now s \<le> now (snd (fetch obj (Some t) s))
      \<and> now (snd (fetch obj (Some t) s)) \<le> now s + t)"

lemma andthen_post:
  assumes "P (snd (m s))" and "\<And>x b. P b \<Longrightarrow> P (snd (f x b))"
  shows "P (snd (andthen m f s))"
  using assms by (cases "m s") (auto simp: andthen_def split: sum.splits)

lemma results_deadline:
  "waits_within fetch now \<Longrightarrow>
     (\<forall>s. (deadline = None \<and> timeout = Some 0 \<longrightarrow> now (snd (get_results_loop fetch now deadline timeout cs s)) = now s)
        \<and> (\<forall>d. deadline = Some d \<longrightarrow> now s \<le> d \<longrightarrow> now s \<le> now (snd (get_results_loop fetch now deadline timeout cs s))
              \<and> now (snd (get_results_loop fetch now deadline timeout cs s)) \<le> d))"
  "waits_within fetch now \<Longrightarrow>
     (\<forall>s t. timeout = Some t \<longrightarrow> 0 \<le> t \<longrightarrow> now s \<le> now (snd (child_results fetch now timeout c s))
        \<and> now (snd (child_results fetch now timeout c s)) \<le> now s + t)"
proof (induction fetch now deadline timeout cs and fetch now timeout c rule: get_results_loop_child_results.induct)
  case (1 fetch now deadline timeout)
  then show ?case by (simp add: return_def)
next
  case (2 fetch now deadline timeout c cs)
  note child = "2.IH"(1) [OF "2.prems", rule_format]
  have idle: "now (snd (get_results_loop fetch now deadline (Some 0) cs b)) = now b" if "deadline = None" for b
    using "2.IH"(2) [OF "2.prems"] that by auto
  have rest: "now b \<le> now (snd (get_results_loop fetch now deadline t cs b))
      \<and> now (snd (get_results_loop fetch now deadline t cs b)) \<le> e" if "deadline = Some e" "now b \<le> e" for b e t
    using "2.IH"(2) [OF "2.prems"] that by auto
  have step: "now a \<le> now (snd (get_results_loop fetch now deadline timeout (c # cs) a))
      \<and> now (snd (get_results_loop fetch now deadline timeout (c # cs) a)) \<le> e"
    if T: "(case deadline of None \<Rightarrow> timeout | Some d \<Rightarrow> Some (max 0 (d - now a))) = Some t"
      and "0 \<le> t" "now a + t \<le> e" and e: "deadline = None \<and> t = 0 \<and> e = now a \<or> deadline = Some e"
    for a t e
  proof -
    let ?P = "\<lambda>b. now a \<le> now b \<and> now b \<le> e"
    have "?P (snd (child_results fetch now (Some t) c a))"
      using child [of "Some t" t a] that by auto
    moreover have "?P (snd (andthen (get_results_loop fetch now deadline (Some t) cs) (\<lambda>vs. return (v # vs)) b))"
      if "?P b" for v b
      by (rule andthen_post [where P = ?P]) (use idle [of b] rest [of e b "Some t"] e that in \<open>auto simp: return_def\<close>)
    ultimately have "?P (snd (andthen (child_results fetch now (Some t) c)
        (\<lambda>v. andthen (get_results_loop fetch now deadline (Some t) cs) (\<lambda>vs. return (v # vs))) a))"
      by (rule andthen_post [where P = ?P])
    then show ?thesis by (simp add: andthen_get_state T)
  qed
  show ?case
  proof (intro allI conjI impI)
    fix s
    assume "deadline = None \<and> timeout = Some 0"
    then show "now (snd (get_results_loop fetch now deadline timeout (c # cs) s)) = now s"
      using step [of s 0 "now s"] by simp
  next
    fix s d
    assume d: "deadline = Some d" "now s \<le> d"
    then show "now s \<le> now (snd (get_results_loop fetch now deadline timeout (c # cs) s))"
      "now (snd (get_results_loop fetch now deadline timeout (c # cs) s)) \<le> d"
      using step [of s "max 0 (d - now s)" d] by simp_all
  qed
next
  case (3 fetch now timeout obj)
  then show ?case by (cases obj) (simp add: waits_within_def)
next
  case (4 fetch now timeout objs)
  then show ?case by (cases "last objs") (simp add: waits_within_def raise_def)
next
  case (5 fetch now timeout cs)
  show ?case
  proof (intro allI impI)
    fix s t
    assume t: "timeout = Some t" "0 \<le> t"
    let ?d = "if t = 0 then None else Some (now s + t)"
    let ?P = "\<lambda>b. now s \<le> now b \<and> now b \<le> now s + t"
    have "?P (snd (andthen (get_results_loop fetch now ?d timeout cs) (\<lambda>vs. return (PList vs)) s))"
      by (rule andthen_post [where P = ?P]) (use "5.IH" [OF "5.prems", of ?d] t in \<open>auto simp: return_def\<close>)
    then show "now s \<le> now (snd (child_results fetch now timeout (Group cs) s))
        \<and> now (snd (child_results fetch now timeout (Group cs) s)) \<le> now s + t"
      using t by (simp add: andthen_get_state)
  qed
qed

text \<open>
  Collecting the results of a group ends by its deadline: if waiting for one result with a timeout
  takes no longer than that, then \<open>get_results\<close> of a group with a timeout, nested groups and
  pipelines included, is over (with all results or an exception) once the timeout has passed.
\<close>

theorem group_results_deadline:
  assumes "\<And>obj t s. 0 \<le> t \<Longrightarrow> now s \<le> now (snd (fetch obj (Some t) s)) \<and> now (snd (fetch obj (Some t) s)) \<le> now s + t"
    and "0 \<le> timeout"
  shows "now (snd (group_get_results fetch now (Some timeout) children s)) \<le> now s + timeout"
proof -
  have w: "waits_within fetch now" using assms(1) by (simp add: waits_within_def)
  show ?thesis
    using results_deadline(1) [OF w, of None "Some 0" children] assms(2)
      results_deadline(1) [OF w, of "Some (now s + timeout)" "Some timeout" children]
    by (cases "timeout = 0") (auto simp: group_get_results_def andthen_def get_state_def)
qed

theorem group_results_deadline_witness:
  "(snd (group_get_results (\<lambda>obj t s. (Inr PNone, s + min 300 (case t of None \<Rightarrow> 300 | Some t \<Rightarrow> t))) (\<lambda>s. s) (Some 500)
      [Msg (blank_message, 0), Group [Msg (blank_message, 0), Msg (blank_message, 0)]] (0::int))) \<le> 0 + 500"
  by (rule group_results_deadline) auto

section \<open>Running a group with callbacks\<close>

lemma plain_entries_update: "plain_entries (AList.update k v es) = AList.update k (plain_value v) (plain_entries es)"
  by (induction es) (auto simp: plain_entries_def)

lemma unlinked_update: "unlinked es \<Longrightarrow> unlinked (AList.update k (Plain p) es)"
  by (induction es) (auto simp: unlinked_def)

definition with_completion :: "string \<Rightarrow> pyval list \<Rightarrow> pydict \<Rightarrow> pydict" where
  "with_completion uuid callbacks d =
     dict_merge d [(''group_completion_uuid'', PStr uuid), (''group_completion_callbacks'', PList callbacks)]"

lemma group_children_messages:
  assumes "\<forall>obj \<in> set objs. snd obj < length h"
  shows "group_children new (map Msg objs) h
    = Inr (map Msg (zip (map fst objs) [length h..<length h + length objs]),
           h @ map (\<lambda>obj. dict_merge (h ! snd obj) new) objs)"
  using assms
proof (induction objs arbitrary: h)
  case Nil
  then show ?case by simp
next
  case (Cons obj objs)
  let ?h = "h @ [dict_merge (h ! snd obj) new]"
  have "group_children new (map Msg objs) ?h
      = Inr (map Msg (zip (map fst objs) [length ?h..<length ?h + length objs]),
             ?h @ map (\<lambda>obj. dict_merge (?h ! snd obj) new) objs)"
    by (rule Cons.IH) (use Cons.prems in auto)
  moreover have "map (\<lambda>obj. dict_merge (?h ! snd obj) new) objs = map (\<lambda>obj. dict_merge (h ! snd obj) new) objs"
    using Cons.prems by (simp add: nth_append)
  moreover have "[length h..<length h + length (obj # objs)] = length h # [Suc (length h)..<Suc (length h + length objs)]"
    by (simp add: upt_conv_Cons del: upt_Suc)
  ultimately show ?case by (simp add: obj_copy_def del: upt_Suc)
qed

lemma run_messages:
  assumes enqueue: "\<And>m d s. \<exists>s'. me_enqueue E m d s = (Inr m, s') \<and> sent s' = sent s @ [m]"
  shows "\<exists>s'. run_children E h delay (map Msg objs) s = (Inr (), s')
    \<and> sent s' = sent s @ map (plain_message (length h) h) objs"
proof (induction objs arbitrary: s)
  case Nil
  then show ?case by (simp add: return_def)
next
  case (Cons obj objs)
  obtain s1 where s1: "me_enqueue E (plain_message (length h) h obj) delay s = (Inr (plain_message (length h) h obj), s1)"
    "sent s1 = sent s @ [plain_message (length h) h obj]" using enqueue by blast
  with Cons.IH [of s1] show ?case by (auto simp: enqueue_obj_def andthen_def return_def)
qed

text \<open>
  Running a group with completion callbacks: without the \<open>GroupCallbacks\<close> middleware it raises
  \<open>RuntimeError\<close> and nothing happens; otherwise a barrier with as many parties as the group has jobs
  is created first, and then each message is enqueued once, in order, its options those it had
  together with the identifier of the barrier and all the callbacks.
\<close>

theorem group_run_with_callbacks:
  assumes "callbacks \<noteq> []" and "objs \<noteq> []"
    and "\<forall>obj \<in> set objs. snd obj < length h \<and> unlinked (h ! snd obj)"
    and enqueue: "\<And>m d s. \<exists>s'. me_enqueue E m d s = (Inr m, s') \<and> sent s' = sent s @ [m]"
    and "rb_add B (me_uuid E) (int (length objs)) ttl s = (created, s1)"
  shows "group_run E None h callbacks (map Msg objs) delay s
      = (Inl (mk_exn RuntimeError ''GroupCallbacks middleware not found!''), s)
    \<and> (\<exists>s'. group_run E (Some (B, ttl)) h callbacks (map Msg objs) delay s = (Inr (), s')
         \<and> sent s' = sent s1 @ map (\<lambda>obj. (fst obj)\<lparr>options :=
             with_completion (me_uuid E) callbacks (plain_entries (h ! snd obj))\<rparr>) objs)"
proof -
  let ?new = "completion_options (me_uuid E) callbacks"
  let ?h = "h @ map (\<lambda>obj. dict_merge (h ! snd obj) ?new) objs"
  let ?objs = "zip (map fst objs) [length h..<length h + length objs]"
  have children: "group_children ?new (map Msg objs) h = Inr (map Msg ?objs, ?h)"
    using assms(3) by (intro group_children_messages) simp
  obtain s' where s': "run_children E ?h delay (map Msg ?objs) s1 = (Inr (), s')"
    "sent s' = sent s1 @ map (plain_message (length ?h) ?h) ?objs"
    using run_messages [where sent = sent, OF enqueue] by blast
  have plain: "plain_message (length ?h) ?h (?objs ! i) = (fst (objs ! i))\<lparr>options :=
      with_completion (me_uuid E) callbacks (plain_entries (h ! snd (objs ! i)))\<rparr>" if i: "i < length objs" for i
  proof -
    let ?es = "dict_merge (h ! snd (objs ! i)) ?new"
    obtain d where d: "length ?h = Suc d" using assms(2) by (cases "length ?h") auto
    have "unlinked (h ! snd (objs ! i))" using assms(3) i by simp
    then have un: "unlinked ?es" by (simp add: completion_options_def unlinked_update)
    have "plain_entries ?es = with_completion (me_uuid E) callbacks (plain_entries (h ! snd (objs ! i)))"
      by (simp add: completion_options_def with_completion_def plain_entries_update plain_value_def)
    moreover have "?h ! (length h + i) = ?es" using i by (simp add: nth_append)
    ultimately have "plain_options (Suc d) ?h (length h + i)
        = with_completion (me_uuid E) callbacks (plain_entries (h ! snd (objs ! i)))"
      using map_unlinked [OF un] by simp
    then show ?thesis using i unfolding d plain_message_def by simp
  qed
  have "map (plain_message (length ?h) ?h) ?objs = map (\<lambda>obj. (fst obj)\<lparr>options :=
      with_completion (me_uuid E) callbacks (plain_entries (h ! snd obj))\<rparr>) objs"
  proof (rule nth_equalityI)
    fix i assume "i < length (map (plain_message (length ?h) ?h) ?objs)"
    then have i: "i < length objs" "i < length ?objs" by simp_all
    show "map (plain_message (length ?h) ?h) ?objs ! i = map (\<lambda>obj. (fst obj)\<lparr>options :=
      with_completion (me_uuid E) callbacks (plain_entries (h ! snd obj))\<rparr>) objs ! i"
      unfolding nth_map [OF i(1)] nth_map [OF i(2)] by (rule plain [OF i(1)])
  qed simp
  with s' children assms(1,2,5) show ?thesis
    by (simp add: group_run_def barrier_create_def andthen_def raise_def Let_def)
qed

theorem group_run_with_callbacks_witness:
  "\<exists>s'. group_run outbox_env (Some (lift_rl broker.more (\<lambda>b s. s\<lparr>broker.more := b\<rparr>) (StubBackend (\<lambda>_ _. False)), 60000))
       [[]] [PDict (asdict blank_message)] (map Msg [(blank_message, 0), (blank_message, 0)]) None
       (outbox_broker blank_message (stub_rl_empty 1)) = (Inr (), s')
     \<and> map (\<lambda>m. dget (options m) ''group_completion_uuid'') (outbox s') = [PStr ''uuid'', PStr ''uuid'']"
proof -
  let ?B = "lift_rl broker.more (\<lambda>b s. s\<lparr>broker.more := b\<rparr>) (StubBackend (\<lambda>_ _. False))"
  let ?objs = "[(blank_message, 0), (blank_message, 0)] :: mobj list"
  let ?s = "outbox_broker blank_message (stub_rl_empty 1) :: (string, message list, stub_rl) broker_scheme"
  obtain created s1 where add: "rb_add ?B (me_uuid (outbox_env :: (string, message list, stub_rl) broker_scheme mw_env))
      (int (length ?objs)) 60000 ?s = (created, s1)"
    by force
  then have "outbox s1 = []"
    by (auto simp: lift_rl_def outbox_def split: prod.splits)
  have enq: "\<exists>s'. me_enqueue outbox_env m d s = (Inr m, s') \<and> outbox s' = outbox s @ [m]"
    for m d and s :: "(string, message list, stub_rl) broker_scheme"
    by (simp add: outbox_env_def) (simp add: outbox_def)
  have objs: "\<forall>obj \<in> set ?objs. snd obj < length [[]] \<and> unlinked ([[]] ! snd obj)"
    by (simp add: unlinked_def)
  show ?thesis
    using group_run_with_callbacks [where delay = None and sent = outbox and E = outbox_env
        and callbacks = "[PDict (asdict blank_message)]", OF _ _ objs enq add]
      \<open>outbox s1 = []\<close>
    by (auto simp: with_completion_def plain_entries_def outbox_env_def)
qed

end
