(* ===== verification/Worker.thy ===== *)
theory Worker
  imports Middlewares Stub_Broker
begin

text \<open>
  \<^verbatim>\<open>dramatiq/worker.py\<close>: the items of the work and delay queues and their order, consumer threads
  (routing a message, releasing delayed messages, acknowledging), worker threads (processing a
  message) and the worker (adding consumers, stopping, joining). Functions that actors wrap are an
  argument; a consumer is known by its operations.
\<close>

section \<open>Work queue items\<close>

text \<open>
  \<open>_WorkQueueItem\<close> compares by priority and then by the time it was queued; the message takes no part
  in it, so the key is a type of its own.
\<close>

datatype item_key = Key (priority: int) (queued_time: int)

text \<open>\<open>__lt__\<close> and \<open>__le__\<close>, which the class derives from the order of the fields.\<close>

definition item_le :: "item_key \<Rightarrow> item_key \<Rightarrow> bool" where
  "item_le a b = (priority a < priority b \<or> priority a = priority b \<and> queued_time a \<le> queued_time b)"

definition item_lt :: "item_key \<Rightarrow> item_key \<Rightarrow> bool" where
  "item_lt a b = (priority a < priority b \<or> priority a = priority b \<and> queued_time a < queued_time b)"

instantiation item_key :: linorder
begin

definition less_eq_item_key :: "item_key \<Rightarrow> item_key \<Rightarrow> bool" where
  "less_eq_item_key = item_le"

definition less_item_key :: "item_key \<Rightarrow> item_key \<Rightarrow> bool" where
  "less_item_key = item_lt"

instance
  by standard (auto simp: less_eq_item_key_def less_item_key_def item_le_def item_lt_def intro: item_key.expand)

end

type_synonym work_item = "item_key \<times> proxy_ref"

text \<open>
  A \<open>PriorityQueue\<close> is a queue whose items are kept sorted; \<open>get\<close> takes a least one. (Which of
  several items with the same key comes first is not specified by Python; here the newest.)
\<close>

definition pq_put :: "work_item \<Rightarrow> work_item pyqueue \<Rightarrow> work_item pyqueue" where
  "pq_put x q = q\<lparr>q_items := insort_key fst x (q_items q), q_unfinished := Suc (q_unfinished q)\<rparr>"

section \<open>State\<close>

record consumer_thread =
  ct_prefetch :: nat
  ct_consumer :: "nat option"
  ct_running :: bool
  ct_paused :: bool
  ct_paused_event :: bool
  ct_delay_queue :: "work_item pyqueue"

text \<open>
  The worker in a broker's state: the consumer threads by queue name, the shared work queue, and the
  monotonic clock that stamps queue items. \<open>wk_whitelist\<close> is empty when every queue is consumed.
\<close>

record ('m, 'q) worker = "('m, 'q) broker" +
  wk_consumers :: "consumer_thread dict"
  wk_whitelist :: "string list"
  wk_work_queue :: "work_item pyqueue"
  wk_time :: int
  wk_queue_prefetch :: nat
  wk_delay_prefetch :: nat

text \<open>
  The operations of a broker and of the consumers it makes; a consumer is a number. \<open>requeue\<close> is
  handed a generator: \<open>co_requeue_reads\<close> says whether it reads it (the default of the base class does
  not). \<open>co_sleep\<close> is \<open>time.sleep\<close> with whatever happens meanwhile.
\<close>

record 's consumer_ops =
  co_consume :: "string \<Rightarrow> nat \<Rightarrow> ('s, nat) proc"
  co_next :: "nat \<Rightarrow> ('s, proxy_ref option) proc"
  co_ack :: "nat \<Rightarrow> proxy_ref \<Rightarrow> ('s, unit) proc"
  co_nack :: "nat \<Rightarrow> proxy_ref \<Rightarrow> ('s, unit) proc"
  co_requeue :: "nat \<Rightarrow> proxy_ref list \<Rightarrow> ('s, unit) proc"
  co_requeue_reads :: bool
  co_close :: "nat \<Rightarrow> ('s, unit) proc"
  co_enqueue :: "message \<Rightarrow> int option \<Rightarrow> ('s, message) proc"
  co_sleep :: "int \<Rightarrow> 's \<Rightarrow> 's"

definition get_thread :: "string \<Rightarrow> (('m, 'q, 'a) worker_scheme, consumer_thread) proc" where
  "get_thread name s =
     (case map_of (wk_consumers s) name of Some t \<Rightarrow> (Inr t, s) | None \<Rightarrow> (Inl (mk_exn KeyError name), s))"

definition set_thread :: "string \<Rightarrow> consumer_thread \<Rightarrow> (('m, 'q, 'a) worker_scheme, unit) proc" where
  "set_thread name t = modify (\<lambda>s. s\<lparr>wk_consumers := AList.update name t (wk_consumers s)\<rparr>)"

section \<open>Consumer threads\<close>

text \<open>\<open>self.consumer\<close> of a thread; before the first connection it is \<open>None\<close>.\<close>

definition thread_consumer :: "string \<Rightarrow> (('m, 'q, 'a) worker_scheme, nat) proc" where
  "thread_consumer name =
     andthen (get_thread name) (\<lambda>t. case ct_consumer t of Some c \<Rightarrow> return c
       | None \<Rightarrow> raise (mk_exn AttributeError ''consumer''))"

definition settle ::
  "('m, ('m, 'q, 'a) worker_scheme) mw_ops \<Rightarrow> ('m, 'q, 'a) worker_scheme consumer_ops \<Rightarrow> string \<Rightarrow> proxy_ref
   \<Rightarrow> (('m, 'q, 'a) worker_scheme, unit) proc" where
  "settle M C name r =
     andthen (get_state (\<lambda>s. px_failed (proxy_at s r))) (\<lambda>failed.
       if failed then
         andthen (emit_before M (Before_nack r)) (\<lambda>_.
         andthen (thread_consumer name) (\<lambda>c.
         andthen (co_nack C c r) (\<lambda>_. emit_after M (After_nack r))))
       else
         andthen (emit_before M (Before_ack r)) (\<lambda>_.
         andthen (thread_consumer name) (\<lambda>c.
         andthen (co_ack C c r) (\<lambda>_. emit_after M (After_ack r)))))"

text \<open>
  \<open>post_process_message\<close>: repeated every five seconds while the connection to the broker is down; any
  other exception is logged and ends it. Running out of fuel is \<^const>\<open>None\<close>.
\<close>

fun post_process_message ::
  "nat \<Rightarrow> ('m, ('m, 'q, 'a) worker_scheme) mw_ops \<Rightarrow> ('m, 'q, 'a) worker_scheme consumer_ops \<Rightarrow> string \<Rightarrow> proxy_ref
   \<Rightarrow> ('m, 'q, 'a) worker_scheme \<Rightarrow> ((exn + unit) \<times> ('m, 'q, 'a) worker_scheme) option" where
  "post_process_message 0 M C name r s = None"
| "post_process_message (Suc fuel) M C name r s =
     (case settle M C name r s of
        (Inr _, s) \<Rightarrow> Some (Inr (), s)
      | (Inl e, s) \<Rightarrow>
          (if isinstance e BrokerConnectionError then post_process_message fuel M C name r (co_sleep C 5000 s)
           else if isinstance e Exception then Some (Inr (), s)
           else Some (Inl e, s)))"

text \<open>The check of \<open>eta\<close> with which \<open>handle_message\<close> starts.\<close>

definition fix_eta :: "int \<Rightarrow> pydict \<Rightarrow> pydict" where
  "fix_eta now opts =
     (case map_of opts ''eta'' of
        None \<Rightarrow> opts
      | Some v \<Rightarrow> (if v = PNone then AList.delete ''eta'' opts
                   else if as_int v = None then AList.update ''eta'' (PInt now) opts else opts))"

definition delay_put :: "string \<Rightarrow> int \<Rightarrow> proxy_ref \<Rightarrow> (('m, 'q, 'a) worker_scheme, unit) proc" where
  "delay_put name eta r =
     andthen (get_thread name) (\<lambda>t.
     andthen (get_state wk_time) (\<lambda>now.
       set_thread name (t\<lparr>ct_delay_queue := pq_put (Key eta now, r) (ct_delay_queue t)\<rparr>)))"

definition work_put :: "int \<Rightarrow> proxy_ref \<Rightarrow> (('m, 'q, 'a) worker_scheme, unit) proc" where
  "work_put prio r = modify (\<lambda>s. s\<lparr>wk_work_queue := pq_put (Key prio (wk_time s), r) (wk_work_queue s)\<rparr>)"

definition handle_message ::
  "nat \<Rightarrow> ('m, ('m, 'q, 'a) worker_scheme) mw_ops \<Rightarrow> ('m, 'q, 'a) worker_scheme consumer_ops \<Rightarrow> string \<Rightarrow> proxy_ref
   \<Rightarrow> ('m, 'q, 'a) worker_scheme \<Rightarrow> ((exn + unit) \<times> ('m, 'q, 'a) worker_scheme) option" where
  "handle_message fuel M C name r s =
     (let s = snd (update_options r (fix_eta (br_clock s)) s)
      in case
          (case map_of (options (message_at s r)) ''eta'' of
             Some eta \<Rightarrow>
               andthen (emit_before M (Before_delay_message r)) (\<lambda>_.
                 delay_put name (case as_int eta of Some i \<Rightarrow> i | None \<Rightarrow> 0) r) s
           | None \<Rightarrow>
               andthen (get_actor (actor_name (message_at s r))) (\<lambda>actor. work_put (ac_priority actor) r) s)
        of
          (Inr _, s) \<Rightarrow> Some (Inr (), s)
        | (Inl e, s) \<Rightarrow>
            (if isinstance e ActorNotFound then
               post_process_message fuel M C name r (snd (andthen (fail r) (\<lambda>_. stuff_exception r e) s))
             else Some (Inl e, s)))"

text \<open>
  \<open>handle_delayed_messages\<close>: items are taken off the delay queue while there are any; the first that
  is not due is put back. \<open>post\<close> is the fuel for acknowledging.
\<close>

definition delay_get :: "string \<Rightarrow> (('m, 'q, 'a) worker_scheme, work_item option) proc" where
  "delay_get name =
     andthen (get_thread name) (\<lambda>t.
       case q_get (ct_delay_queue t) of
         None \<Rightarrow> return None
       | Some (item, q) \<Rightarrow> andthen (set_thread name (t\<lparr>ct_delay_queue := q\<rparr>)) (\<lambda>_. return (Some item)))"

definition delay_task_done :: "string \<Rightarrow> (('m, 'q, 'a) worker_scheme, unit) proc" where
  "delay_task_done name =
     andthen (get_thread name) (\<lambda>t.
       case q_task_done (ct_delay_queue t) of
         None \<Rightarrow> raise (mk_exn ValueError ''task_done() called too many times'')
       | Some q \<Rightarrow> set_thread name (t\<lparr>ct_delay_queue := q\<rparr>))"

definition delay_put_back :: "string \<Rightarrow> work_item \<Rightarrow> (('m, 'q, 'a) worker_scheme, unit) proc" where
  "delay_put_back name item =
     andthen (get_thread name) (\<lambda>t.
     andthen (set_thread name (t\<lparr>ct_delay_queue := pq_put item (ct_delay_queue t)\<rparr>)) (\<lambda>_.
       delay_task_done name))"

definition undelayed :: "message \<Rightarrow> exn + message" where
  "undelayed m =
     (let new_message = copy (\<lambda>x. x\<lparr>queue_name := q_name (queue_name m)\<rparr>) [] m
      in if map_of (options new_message) ''eta'' = None then Inl (mk_exn KeyError ''eta'')
         else Inr (new_message\<lparr>options := AList.delete ''eta'' (options new_message)\<rparr>))"

definition enqueue_undelayed ::
  "('m, 'q, 'a) worker_scheme consumer_ops \<Rightarrow> message \<Rightarrow> (('m, 'q, 'a) worker_scheme, message) proc" where
  "enqueue_undelayed C m = (case undelayed m of Inl e \<Rightarrow> raise e | Inr new_message \<Rightarrow> co_enqueue C new_message None)"

fun handle_delayed_messages ::
  "nat \<Rightarrow> nat \<Rightarrow> ('m, ('m, 'q, 'a) worker_scheme) mw_ops \<Rightarrow> ('m, 'q, 'a) worker_scheme consumer_ops \<Rightarrow> string
   \<Rightarrow> ('m, 'q, 'a) worker_scheme \<Rightarrow> ((exn + unit) \<times> ('m, 'q, 'a) worker_scheme) option" where
  "handle_delayed_messages 0 post M C name s = None"
| "handle_delayed_messages (Suc fuel) post M C name s =
     (case delay_get name s of
        (Inl e, s) \<Rightarrow> Some (Inl e, s)
      | (Inr None, s) \<Rightarrow> Some (Inr (), s)
      | (Inr (Some item), s) \<Rightarrow>
          (if priority (fst item) > br_clock s then Some (delay_put_back name item s)
           else
             (case enqueue_undelayed C (message_at s (snd item)) s of
                (Inl e, s) \<Rightarrow> Some (Inl e, s)
              | (Inr _, s) \<Rightarrow>
                  (case post_process_message post M C name (snd item) s of
                     None \<Rightarrow> None
                   | Some (Inl e, s) \<Rightarrow> Some (Inl e, s)
                   | Some (Inr _, s) \<Rightarrow>
                       (case delay_task_done name s of
                          (Inl e, s) \<Rightarrow> Some (Inl e, s)
                        | (Inr _, s) \<Rightarrow> handle_delayed_messages fuel post M C name s)))))"

text \<open>Pausing, resuming, stopping and closing a thread.\<close>

definition pause_thread :: "consumer_thread \<Rightarrow> consumer_thread" where
  "pause_thread t = t\<lparr>ct_paused := True, ct_paused_event := False\<rparr>"

definition resume_thread :: "consumer_thread \<Rightarrow> consumer_thread" where
  "resume_thread t = t\<lparr>ct_paused := False, ct_paused_event := False\<rparr>"

definition stop_thread :: "consumer_thread \<Rightarrow> consumer_thread" where
  "stop_thread t = t\<lparr>ct_running := False\<rparr>"

definition requeue_messages ::
  "('m, 'q, 'a) worker_scheme consumer_ops \<Rightarrow> string \<Rightarrow> proxy_ref list \<Rightarrow> (('m, 'q, 'a) worker_scheme, unit) proc" where
  "requeue_messages C name rs = andthen (thread_consumer name) (\<lambda>c. co_requeue C c rs)"

definition close_thread ::
  "('m, 'q, 'a) worker_scheme consumer_ops \<Rightarrow> string \<Rightarrow> (('m, 'q, 'a) worker_scheme, unit) proc" where
  "close_thread C name =
     try_except
       (andthen (get_thread name) (\<lambda>t.
          case ct_consumer t of
            None \<Rightarrow> return ()
          | Some c \<Rightarrow>
              andthen (if co_requeue_reads C then set_thread name (t\<lparr>ct_delay_queue := (ct_delay_queue t)\<lparr>q_items := []\<rparr>\<rparr>)
                       else return ()) (\<lambda>_.
              andthen (requeue_messages C name (map snd (q_items (ct_delay_queue t)))) (\<lambda>_.
                co_close C c))))
       (\<lambda>e. if isinstance e BrokerConnectionError then return () else raise e)"

definition update_thread_consumer :: "string \<Rightarrow> nat \<Rightarrow> ('m, 'q, 'a) worker_scheme \<Rightarrow> ('m, 'q, 'a) worker_scheme" where
  "update_thread_consumer name c s =
     (case map_of (wk_consumers s) name of None \<Rightarrow> s
      | Some t \<Rightarrow> s\<lparr>wk_consumers := AList.update name (t\<lparr>ct_consumer := Some c\<rparr>) (wk_consumers s)\<rparr>)"

text \<open>
  The body of \<open>for message in self.consumer\<close> while the thread runs, until it stops or is paused, and
  one round of the outer loop of \<open>run\<close>: connect, consume, and after a failure close and wait.
\<close>

fun consume_loop ::
  "nat \<Rightarrow> nat \<Rightarrow> ('m, ('m, 'q, 'a) worker_scheme) mw_ops \<Rightarrow> ('m, 'q, 'a) worker_scheme consumer_ops \<Rightarrow> string \<Rightarrow> nat
   \<Rightarrow> ('m, 'q, 'a) worker_scheme \<Rightarrow> ((exn + unit) \<times> ('m, 'q, 'a) worker_scheme) option" where
  "consume_loop 0 post M C name c s = None"
| "consume_loop (Suc fuel) post M C name c s =
     (case co_next C c s of
        (Inl e, s) \<Rightarrow> Some (Inl e, s)
      | (Inr message, s) \<Rightarrow>
          (case map_of (wk_consumers s) name of
             None \<Rightarrow> Some (Inl (mk_exn KeyError name), s)
           | Some t \<Rightarrow>
               (if message = None \<and> ct_paused t then Some (Inr (), s)
                else
                  (case (case message of Some r \<Rightarrow> handle_message post M C name r s | None \<Rightarrow> Some (Inr (), s)) of
                     None \<Rightarrow> None
                   | Some (Inl e, s) \<Rightarrow> Some (Inl e, s)
                   | Some (Inr _, s) \<Rightarrow>
                       (case handle_delayed_messages fuel post M C name s of
                          None \<Rightarrow> None
                        | Some (Inl e, s) \<Rightarrow> Some (Inl e, s)
                        | Some (Inr _, s) \<Rightarrow>
                            (if map_option ct_running (map_of (wk_consumers s) name) = Some True
                             then consume_loop fuel post M C name c s else Some (Inr (), s)))))))"

definition consumer_round ::
  "nat \<Rightarrow> nat \<Rightarrow> ('m, ('m, 'q, 'a) worker_scheme) mw_ops \<Rightarrow> ('m, 'q, 'a) worker_scheme consumer_ops \<Rightarrow> string
   \<Rightarrow> ('m, 'q, 'a) worker_scheme \<Rightarrow> ((exn + unit) \<times> ('m, 'q, 'a) worker_scheme) option" where
  "consumer_round fuel post M C name s =
     (case map_of (wk_consumers s) name of
        None \<Rightarrow> Some (Inl (mk_exn KeyError name), s)
      | Some t \<Rightarrow>
          (if ct_paused t then
             Some (Inr (), co_sleep C 0 (s\<lparr>wk_consumers := AList.update name (t\<lparr>ct_paused_event := True\<rparr>) (wk_consumers s)\<rparr>))
           else
             (case
                (case co_consume C name (ct_prefetch t) s of
                   (Inl e, s) \<Rightarrow> Some (Inl e, s)
                 | (Inr c, s) \<Rightarrow>
                     consume_loop fuel post M C name c (update_thread_consumer name c s))
              of
                None \<Rightarrow> None
              | Some (r, s) \<Rightarrow>
                  (case
                     (case r of
                        Inr _ \<Rightarrow> (Inr (), s)
                      | Inl e \<Rightarrow>
                          (if isinstance e BrokerConnectionError then
                             andthen (get_thread name) (\<lambda>t. set_thread name (t\<lparr>ct_delay_queue := pyqueue_empty\<rparr>)) s
                           else if isinstance e Exception then close_thread C name s
                           else (Inl e, s)))
                   of
                     (Inl e, s) \<Rightarrow> Some (Inl e, s)
                   | (Inr _, s) \<Rightarrow>
                       (if map_option ct_running (map_of (wk_consumers s) name) = Some True then
                          (case close_thread C name s of
                             (Inl e, s) \<Rightarrow> Some (Inl e, s)
                           | (Inr _, s) \<Rightarrow> Some (Inr (), co_sleep C 3000 s))
                        else Some (Inr (), s))))))"

section \<open>Worker threads\<close>

text \<open>\<open>try: m / except BaseException as e: h(e) / else: k\<close>.\<close>

definition try_else :: "('s, 'a) proc \<Rightarrow> (exn \<Rightarrow> ('s, 'b) proc) \<Rightarrow> ('a \<Rightarrow> ('s, 'b) proc) \<Rightarrow> ('s, 'b) proc" where
  "try_else m h k s = (case m s of (Inl e, s) \<Rightarrow> h e s | (Inr x, s) \<Rightarrow> k x s)"

text \<open>
  The \<open>except\<close> clauses of \<open>process_message\<close>; \<open>actor\<close> is the local variable, \<^const>\<open>None\<close> until the actor is
  found.
\<close>

definition process_failed ::
  "('m, ('m, 'q, 'a) worker_scheme) mw_ops \<Rightarrow> proxy_ref \<Rightarrow> actor option \<Rightarrow> exn \<Rightarrow> (('m, 'q, 'a) worker_scheme, unit) proc" where
  "process_failed M r actor e =
     (if isinstance e SkipMessage then
        andthen (get_state (\<lambda>s. px_failed (proxy_at s r))) (\<lambda>failed.
        andthen (if failed then stuff_exception r e else return ()) (\<lambda>_.
          emit_after M (After_skip_message r)))
      else
        andthen (stuff_exception r e) (\<lambda>_.
        andthen (get_state (\<lambda>s. options (message_at s r))) (\<lambda>opts.
        (let throws = py_or (dget opts ''throws'')
               (case actor of None \<Rightarrow> PNone | Some a \<Rightarrow> dget (ac_options a) ''throws'')
         in andthen (if isinstance e RateLimitExceeded then return False else thrown throws e) (\<lambda>_.
              emit_after M (After_process_message r PNone (Some e)))))))"

definition process_body ::
  "('m, ('m, 'q, 'a) worker_scheme) mw_ops \<Rightarrow> (actor \<Rightarrow> pyval list \<Rightarrow> pydict \<Rightarrow> (('m, 'q, 'a) worker_scheme, pyval) proc)
   \<Rightarrow> proxy_ref \<Rightarrow> (('m, 'q, 'a) worker_scheme, unit) proc" where
  "process_body M call r =
     try_else
       (andthen (emit_before M (Before_process_message r)) (\<lambda>_.
        andthen (get_state (\<lambda>s. proxy_at s r)) (\<lambda>p.
          if px_failed p then return None
          else andthen (get_actor (actor_name (px_message p))) (\<lambda>actor. return (Some actor)))))
       (process_failed M r None)
       (\<lambda>actor. try_except
          (case actor of
             None \<Rightarrow> emit_after M (After_process_message r PNone None)
           | Some a \<Rightarrow>
               andthen (get_state (\<lambda>s. message_at s r)) (\<lambda>message.
               andthen (call a (args message) (kwargs message)) (\<lambda>res.
                 emit_after M (After_process_message r res None))))
          (process_failed M r actor))"

definition work_task_done :: "(('m, 'q, 'a) worker_scheme, unit) proc" where
  "work_task_done s =
     (case q_task_done (wk_work_queue s) of
        None \<Rightarrow> (Inl (mk_exn ValueError ''task_done() called too many times''), s)
      | Some q \<Rightarrow> (Inr (), s\<lparr>wk_work_queue := q\<rparr>))"

text \<open>
  \<open>process_message\<close> with its \<open>finally\<close> clause: an exception of that clause replaces the outcome.
  \<open>clears\<close> tells whether proxies of this broker clear their exception (those of the in-memory broker
  do not).
\<close>

definition process_message ::
  "nat \<Rightarrow> bool \<Rightarrow> ('m, ('m, 'q, 'a) worker_scheme) mw_ops \<Rightarrow> ('m, 'q, 'a) worker_scheme consumer_ops
   \<Rightarrow> (actor \<Rightarrow> pyval list \<Rightarrow> pydict \<Rightarrow> (('m, 'q, 'a) worker_scheme, pyval) proc) \<Rightarrow> proxy_ref
   \<Rightarrow> ('m, 'q, 'a) worker_scheme \<Rightarrow> ((exn + unit) \<times> ('m, 'q, 'a) worker_scheme) option" where
  "process_message fuel clears M C call r s =
     (case process_body M call r s of (outcome, s) \<Rightarrow>
        (let name = queue_name (message_at s r)
         in if map_of (wk_consumers s) name = None then Some (Inl (mk_exn KeyError name), s)
            else
              (case post_process_message fuel M C name r s of
                 None \<Rightarrow> None
               | Some (Inl e, s) \<Rightarrow> Some (Inl e, s)
               | Some (Inr _, s) \<Rightarrow>
                   (case work_task_done s of
                      (Inl e, s) \<Rightarrow> Some (Inl e, s)
                    | (Inr _, s) \<Rightarrow> Some (outcome, if clears then snd (clear_exception r s) else s)))))"

section \<open>The worker\<close>

definition default_prefetch :: "nat \<Rightarrow> nat \<Rightarrow> nat \<Rightarrow> nat" where
  "default_prefetch configured factor worker_threads =
     (if configured \<noteq> 0 then configured else min (worker_threads * factor) 65535)"

text \<open>\<open>_add_consumer\<close>; \<open>started\<close> is the thread as \<open>start()\<close> leaves it.\<close>

definition add_consumer :: "string \<Rightarrow> bool \<Rightarrow> (('m, 'q, 'a) worker_scheme, unit) proc" where
  "add_consumer name delay s =
     (if map_of (wk_consumers s) name \<noteq> None then (Inr (), s)
      else
        (let canonical_name = q_name name
         in if wk_whitelist s \<noteq> [] \<and> canonical_name \<notin> set (wk_whitelist s) then (Inr (), s)
            else set_thread name
              \<lparr>ct_prefetch = (if delay then wk_delay_prefetch s else wk_queue_prefetch s), ct_consumer = None,
               ct_running = True, ct_paused = False, ct_paused_event = False, ct_delay_queue = pyqueue_empty\<rparr> s))"

text \<open>\<open>_WorkerMiddleware\<close>.\<close>

definition WorkerMiddleware :: "hook \<Rightarrow> (('m, 'q, 'a) worker_scheme, unit) proc" where
  "WorkerMiddleware h = (case h of
       After_declare_queue name \<Rightarrow> add_consumer name False
     | After_declare_delay_queue name \<Rightarrow> add_consumer name True
     | _ \<Rightarrow> return ())"

text \<open>Grouping the messages of the work queue by their queue, in the order of their first message.\<close>

fun group_by_queue :: "(proxy_ref \<Rightarrow> string) \<Rightarrow> proxy_ref list \<Rightarrow> proxy_ref list dict \<Rightarrow> proxy_ref list dict" where
  "group_by_queue queue [] d = d"
| "group_by_queue queue (r # rs) d =
     group_by_queue queue rs
       (AList.update (queue r) ((case map_of d (queue r) of None \<Rightarrow> [] | Some l \<Rightarrow> l) @ [r]) d)"

text \<open>
  The part of \<open>stop\<close> after the threads have ended: what is left in the work queue goes back to the
  brokers, a broken connection is only logged, and every consumer is closed.
\<close>

definition stop_requeue :: "('m, 'q, 'a) worker_scheme consumer_ops \<Rightarrow> (('m, 'q, 'a) worker_scheme, unit) proc" where
  "stop_requeue C =
     andthen (get_state (\<lambda>s. group_by_queue (\<lambda>r. queue_name (message_at s r)) (map snd (q_items (wk_work_queue s))) []))
       (\<lambda>messages_by_queue.
     andthen (modify (\<lambda>s. s\<lparr>wk_work_queue := (wk_work_queue s)\<lparr>q_items := []\<rparr>\<rparr>)) (\<lambda>_.
       for_each (\<lambda>(name, messages).
           try_except (requeue_messages C name messages)
             (\<lambda>e. if isinstance e BrokerConnectionError then return () else raise e))
         messages_by_queue))"

definition stop ::
  "('m, ('m, 'q, 'a) worker_scheme) mw_ops \<Rightarrow> ('m, 'q, 'a) worker_scheme consumer_ops
   \<Rightarrow> (('m, 'q, 'a) worker_scheme, unit) proc \<Rightarrow> (('m, 'q, 'a) worker_scheme, unit) proc" where
  "stop M C join_threads =
     andthen (emit_before M Before_worker_shutdown) (\<lambda>_.
     andthen (modify (\<lambda>s. s\<lparr>wk_consumers := map (\<lambda>(n, t). (n, stop_thread t)) (wk_consumers s)\<rparr>)) (\<lambda>_.
     andthen join_threads (\<lambda>_.
     andthen (stop_requeue C) (\<lambda>_.
     andthen (get_state (map fst \<circ> wk_consumers)) (\<lambda>names.
     andthen (for_each (close_thread C) names) (\<lambda>_.
       emit_after M After_worker_shutdown))))))"

definition pause :: "('m, 'q, 'a) worker_scheme \<Rightarrow> ('m, 'q, 'a) worker_scheme" where
  "pause s = s\<lparr>wk_consumers := map (\<lambda>(n, t). (n, pause_thread t)) (wk_consumers s)\<rparr>"

definition resume :: "('m, 'q, 'a) worker_scheme \<Rightarrow> ('m, 'q, 'a) worker_scheme" where
  "resume s = s\<lparr>wk_consumers := map (\<lambda>(n, t). (n, resume_thread t)) (wk_consumers s)\<rparr>"

text \<open>
  \<open>join\<close>: \<open>wait\<close> lets the other threads run until the delay queues and then the work queue have no
  unfinished task; if new work appeared meanwhile, all is waited for again.
\<close>

fun join ::
  "nat \<Rightarrow> (('m, 'q, 'a) worker_scheme \<Rightarrow> ('m, 'q, 'a) worker_scheme) \<Rightarrow> ('m, 'q, 'a) worker_scheme
   \<Rightarrow> ('m, 'q, 'a) worker_scheme option" where
  "join 0 wait s = None"
| "join (Suc fuel) wait s =
     (let s = wait s
      in if list_ex (\<lambda>(n, t). q_unfinished (ct_delay_queue t) \<noteq> 0) (wk_consumers s)
         then join fuel wait s
         else if q_unfinished (wk_work_queue s) \<noteq> 0 then join fuel wait s
         else Some s)"

end
