(* ===== verification/Delivery.thy ===== *)
theory Delivery
  imports Worker "HOL-Library.Multiset"
begin

text \<open>
  What the worker relies on of a broker's consumers, as a locale, and what follows for the worker:
  a message that a consumer handed out is settled (acknowledged or rejected) exactly once, however
  often the connection fails meanwhile and whatever the actor and the middleware do.
\<close>

section \<open>The consumer interface\<close>

text \<open>
  \<open>holds fl s\<close>: the messages of \<open>fl\<close> are out, each with the consumer that fetched it. \<open>outage s\<close> bounds
  how many more naps the connection to the broker stays down, and \<open>rejected\<close> are the dead letters.
  Acknowledging and rejecting work on a message that is out when the connection is up, and raise a
  connection error with no effect while it is down; neither touches what the worker keeps, and
  none of the three depends on it.
\<close>

definition worker_view ::
  "('m, 'q, 'a) worker_scheme \<Rightarrow> consumer_thread dict \<times> work_item pyqueue \<times> (proxy_ref \<Rightarrow> proxy)" where
  "worker_view s = (wk_consumers s, wk_work_queue s, br_proxies s)"

locale message_consumer =
  fixes C :: "('m, 'q, 'a) worker_scheme consumer_ops"
    and holds :: "in_flight \<Rightarrow> ('m, 'q, 'a) worker_scheme \<Rightarrow> bool"
    and outage :: "('m, 'q, 'a) worker_scheme \<Rightarrow> nat"
    and rejected :: "('m, 'q, 'a) worker_scheme \<Rightarrow> proxy_ref multiset"
  assumes ack_up: "holds fl s \<Longrightarrow> (c, Some r) \<in> set fl \<Longrightarrow> outage s = 0 \<Longrightarrow>
      \<exists>s'. co_ack C c r s = (Inr (), s') \<and> holds (remove1 (c, Some r) fl) s' \<and> outage s' = 0
        \<and> rejected s' = rejected s \<and> worker_view s' = worker_view s"
    and nack_up: "holds fl s \<Longrightarrow> (c, Some r) \<in> set fl \<Longrightarrow> outage s = 0 \<Longrightarrow>
      \<exists>s'. co_nack C c r s = (Inr (), s') \<and> holds (remove1 (c, Some r) fl) s' \<and> outage s' = 0
        \<and> rejected s' = add_mset r (rejected s) \<and> worker_view s' = worker_view s"
    and ack_down: "holds fl s \<Longrightarrow> (c, Some r) \<in> set fl \<Longrightarrow> outage s \<noteq> 0 \<Longrightarrow>
      \<exists>e. co_ack C c r s = (Inl e, s) \<and> isinstance e BrokerConnectionError"
    and nack_down: "holds fl s \<Longrightarrow> (c, Some r) \<in> set fl \<Longrightarrow> outage s \<noteq> 0 \<Longrightarrow>
      \<exists>e. co_nack C c r s = (Inl e, s) \<and> isinstance e BrokerConnectionError"
    and nap: "holds fl s \<Longrightarrow> holds fl (co_sleep C d s) \<and> rejected (co_sleep C d s) = rejected s
        \<and> worker_view (co_sleep C d s) = worker_view s"
    and nap_outage: "outage s \<noteq> 0 \<Longrightarrow> outage (co_sleep C d s) < outage s"
    and frame: "holds fl (s\<lparr>br_proxies := p, wk_consumers := t, wk_work_queue := w\<rparr>) = holds fl s"
      "outage (s\<lparr>br_proxies := p, wk_consumers := t, wk_work_queue := w\<rparr>) = outage s"
      "rejected (s\<lparr>br_proxies := p, wk_consumers := t, wk_work_queue := w\<rparr>) = rejected s"

text \<open>
  The situation of a message in the hands of a worker: it is out (with others) with a consumer that
  is the one of its queue, and it is counted by the work queue.
\<close>

definition on_hand ::
  "(in_flight \<Rightarrow> ('m, 'q, 'a) worker_scheme \<Rightarrow> bool) \<Rightarrow> (('m, 'q, 'a) worker_scheme \<Rightarrow> nat)
   \<Rightarrow> (('m, 'q, 'a) worker_scheme \<Rightarrow> proxy_ref multiset) \<Rightarrow> string \<Rightarrow> nat \<Rightarrow> proxy_ref
   \<Rightarrow> in_flight \<Rightarrow> nat \<Rightarrow> proxy_ref multiset \<Rightarrow> ('m, 'q, 'a) worker_scheme \<Rightarrow> bool" where
  "on_hand holds outage rejected q c r fl n D s =
     (holds fl s \<and> outage s \<le> n \<and> rejected s = D
    \<and> (\<exists>t. map_of (wk_consumers s) q = Some t \<and> ct_consumer t = Some c)
    \<and> queue_name (message_at s r) = q \<and> 0 < q_unfinished (wk_work_queue s))"

text \<open>
  What settling asks of the middleware: every hook leaves the situation as it is, those before an
  ack or a nack neither veto it nor change whether the message failed, and none of those around it
  is interrupted.
\<close>

definition considerate ::
  "('m, ('m, 'q, 'a) worker_scheme) mw_ops \<Rightarrow> (in_flight \<Rightarrow> nat \<Rightarrow> proxy_ref multiset \<Rightarrow> ('m, 'q, 'a) worker_scheme \<Rightarrow> bool)
   \<Rightarrow> proxy_ref \<Rightarrow> bool" where
  "considerate M I r =
     ((\<forall>m h fl n D. keeps (I fl n D) (mw_run M m h))
    \<and> (\<forall>m s e. \<forall>h \<in> {Before_ack r, Before_nack r}. fst (mw_run M m h s) = Inl e \<longrightarrow>
         isinstance e Exception \<and> \<not> isinstance e MiddlewareError)
    \<and> (\<forall>m b. \<forall>h \<in> {Before_ack r, Before_nack r}. keeps (\<lambda>s. px_failed (proxy_at s r) = b) (mw_run M m h))
    \<and> (\<forall>m s e. \<forall>h \<in> {After_ack r, After_nack r}. fst (mw_run M m h s) = Inl e \<longrightarrow> isinstance e Exception))"

lemma emit_before_fine:
  assumes "\<forall>m s e. fst (mw_run M m h s) = Inl e \<longrightarrow> isinstance e Exception \<and> \<not> isinstance e MiddlewareError"
  shows "fst (emit_before M h s) = Inr ()"
  using no_error [of "br_middleware s" "\<lambda>m. mw_run M m h" s] assms by (simp add: emit_before_def)

lemma emit_after_fine:
  assumes "\<forall>m s e. fst (mw_run M m h s) = Inl e \<longrightarrow> isinstance e Exception"
  shows "fst (emit_after M h s) = Inr ()"
  using swallow_all [of "rev (br_middleware s)" "\<lambda>m. mw_run M m h" s] assms by (simp add: emit_after_def)

lemma keeps_try_else:
  assumes "keeps I m" and "\<And>e. keeps I (h e)" and "\<And>x. keeps I (k x)"
  shows "keeps I (try_else m h k)"
  using assms unfolding keeps_def try_else_def by (auto split: sum.split prod.split)

lemma thrown_keeps: "keeps I (thrown t e)"
  by (auto simp: thrown_def keeps_def proc_simps split: sum.split)

lemma thread_consumer_found:
  "map_of (wk_consumers s) q = Some t \<Longrightarrow> ct_consumer t = Some c \<Longrightarrow> thread_consumer q s = (Inr c, s)"
  by (simp add: thread_consumer_def get_thread_def proc_simps)

lemma process_body_keeps:
  assumes M: "\<And>m h. keeps I (mw_run M m h)" and call: "\<And>a xs kw. keeps I (call a xs kw)"
    and stuff: "\<And>e. keeps I (stuff_exception r e)"
  shows "keeps I (process_body M call r)"
proof -
  note emit = emit_keeps(1) [OF M] emit_keeps(2) [OF M]
  have failed: "keeps I (process_failed M r a e)" for a e
    unfolding process_failed_def Let_def
    by (auto intro!: keeps_andthen emit stuff thrown_keeps)
  have "keeps I (get_actor name)" for name
    by (auto simp: keeps_def get_actor_def split: option.split)
  then have start: "keeps I (andthen (emit_before M (Before_process_message r)) (\<lambda>_.
      andthen (get_state (\<lambda>s. proxy_at s r)) (\<lambda>p. if px_failed p then return None
        else andthen (get_actor (actor_name (px_message p))) (\<lambda>actor. return (Some actor)))))"
    by (auto intro!: keeps_andthen emit)
  have run: "keeps I (try_except
          (case actor of
             None \<Rightarrow> emit_after M (After_process_message r PNone None)
           | Some a \<Rightarrow>
               andthen (get_state (\<lambda>s. message_at s r)) (\<lambda>message.
               andthen (call a (args message) (kwargs message)) (\<lambda>res.
                 emit_after M (After_process_message r res None))))
          (process_failed M r actor))" for actor
    by (auto intro!: keeps_try_except keeps_andthen emit call failed split: option.split)
  show ?thesis
    unfolding process_body_def by (rule keeps_try_else [OF start failed run])
qed

context message_consumer
begin

abbreviation here :: "string \<Rightarrow> nat \<Rightarrow> proxy_ref \<Rightarrow> in_flight \<Rightarrow> nat \<Rightarrow> proxy_ref multiset \<Rightarrow> ('m, 'q, 'a) worker_scheme \<Rightarrow> bool" where
  "here \<equiv> on_hand holds outage rejected"

lemma here_view:
  assumes "here q c r fl n D s" and "worker_view s' = worker_view s"
    and "holds fl' s'" and "outage s' \<le> n'" and "rejected s' = D'"
  shows "here q c r fl' n' D' s'"
  using assms by (simp add: on_hand_def worker_view_def)

lemma settle_step:
  assumes M: "considerate M (here q c r) r" and s: "here q c r fl n D s" and fl: "(c, Some r) \<in> set fl"
  shows "(\<exists>s'. settle M C q r s = (Inr (), s') \<and>
           here q c r (remove1 (c, Some r) fl) 0 (if px_failed (proxy_at s r) then add_mset r D else D) s')
    \<or> (\<exists>e s'. settle M C q r s = (Inl e, s') \<and> isinstance e BrokerConnectionError \<and> outage s' \<noteq> 0
           \<and> here q c r fl n D s' \<and> px_failed (proxy_at s' r) = px_failed (proxy_at s r))"
proof -
  let ?f = "px_failed (proxy_at s r)"
  let ?b = "if ?f then Before_nack r else Before_ack r" and ?a = "if ?f then After_nack r else After_ack r"
  let ?co = "if ?f then co_nack C c r else co_ack C c r"
  have keep: "keeps (here q c r fl' n' D') (emit_before M h)" "keeps (here q c r fl' n' D') (emit_after M h)"
    for fl' n' D' h
    using M by (auto intro: emit_keeps simp: considerate_def)
  obtain s1 where 1: "emit_before M ?b s = (Inr (), s1)"
    using emit_before_fine [of M ?b s] M by (cases "emit_before M ?b s") (auto simp: considerate_def)
  have h1: "here q c r fl n D s1" using keepsD [OF keep(1) s, of ?b] 1 by simp
  have f1: "px_failed (proxy_at s1 r) = ?f"
  proof -
    have "keeps (\<lambda>s. px_failed (proxy_at s r) = ?f) (mw_run M m ?b)" for m
      using M by (cases ?f) (simp_all add: considerate_def del: eq_True eq_False simp_thms)
    then have "keeps (\<lambda>s. px_failed (proxy_at s r) = ?f) (emit_before M ?b)" by (rule emit_keeps)
    from keepsD [OF this, of s] 1 show ?thesis by simp
  qed
  obtain t where "map_of (wk_consumers s1) q = Some t" "ct_consumer t = Some c"
    using h1 by (auto simp: on_hand_def)
  then have 2: "thread_consumer q s1 = (Inr c, s1)" by (rule thread_consumer_found)
  have run: "settle M C q r s = andthen ?co (\<lambda>_. emit_after M ?a) s1"
    using 1 2 by (cases ?f) (simp_all add: settle_def andthen_get_state andthen_Inr)
  have hold1: "holds fl s1" "rejected s1 = D" "outage s1 \<le> n" using h1 by (simp_all add: on_hand_def)
  show ?thesis
  proof (cases "outage s1 = 0")
    case True
    obtain s2 where 3: "?co s1 = (Inr (), s2)" and v: "worker_view s2 = worker_view s1"
      and "holds (remove1 (c, Some r) fl) s2" "outage s2 = 0" "rejected s2 = (if ?f then add_mset r D else D)"
      using ack_up [OF hold1(1) fl True] nack_up [OF hold1(1) fl True] hold1(2) by (cases ?f) auto
    then have h2: "here q c r (remove1 (c, Some r) fl) 0 (if ?f then add_mset r D else D) s2"
      using here_view [OF h1 v] by simp
    obtain s3 where 4: "emit_after M ?a s2 = (Inr (), s3)"
      using emit_after_fine [of M ?a s2] M by (cases "emit_after M ?a s2") (auto simp: considerate_def)
    with keepsD [OF keep(2) h2, of ?a] run 3 show ?thesis by (simp add: andthen_Inr)
  next
    case False
    then obtain e where "?co s1 = (Inl e, s1)" "isinstance e BrokerConnectionError"
      using ack_down [OF hold1(1) fl] nack_down [OF hold1(1) fl] by (cases ?f) auto
    with run h1 f1 False show ?thesis by (simp add: andthen_Inl)
  qed
qed

text \<open>As many naps as the outage lasts are enough.\<close>

lemma post_process_settles:
  assumes M: "considerate M (here q c r) r" and fl: "(c, Some r) \<in> set fl"
  shows "here q c r fl n D s \<Longrightarrow> n < fuel \<Longrightarrow>
    \<exists>s'. post_process_message fuel M C q r s = Some (Inr (), s') \<and>
      here q c r (remove1 (c, Some r) fl) 0 (if px_failed (proxy_at s r) then add_mset r D else D) s'"
proof (induction fuel arbitrary: n s)
  case (Suc fuel)
  from settle_step [OF M Suc.prems(1) fl] show ?case
  proof (elim disjE exE conjE)
    fix s' assume "settle M C q r s = (Inr (), s')"
      "here q c r (remove1 (c, Some r) fl) 0 (if px_failed (proxy_at s r) then add_mset r D else D) s'"
    then show ?thesis by simp
  next
    fix e s1 assume e: "settle M C q r s = (Inl e, s1)" "isinstance e BrokerConnectionError"
      and down: "outage s1 \<noteq> 0" and h1: "here q c r fl n D s1"
      and f1: "px_failed (proxy_at s1 r) = px_failed (proxy_at s r)"
    let ?s = "co_sleep C 5000 s1"
    have view: "worker_view ?s = worker_view s1" and "holds fl ?s" "rejected ?s = rejected s1"
      using nap [of fl s1 5000] h1 by (auto simp: on_hand_def)
    moreover have less: "outage ?s < n"
      using nap_outage [OF down, of 5000] h1 by (simp add: on_hand_def)
    moreover have "rejected s1 = D" using h1 by (simp add: on_hand_def)
    ultimately have h: "here q c r fl (n - 1) D ?s"
      by (intro here_view [OF h1 view]) auto
    have f: "px_failed (proxy_at ?s r) = px_failed (proxy_at s r)"
      using view f1 by (simp add: worker_view_def)
    have "n - 1 < fuel" using less Suc.prems(2) by simp
    from Suc.IH [OF h this] e f show ?thesis by simp
  qed
qed simp

lemma frame_simps:
  "holds fl (s\<lparr>br_proxies := p\<rparr>) = holds fl s" "holds fl (s\<lparr>wk_work_queue := w\<rparr>) = holds fl s"
  "holds fl (s\<lparr>wk_consumers := t\<rparr>) = holds fl s"
  "outage (s\<lparr>br_proxies := p\<rparr>) = outage s" "outage (s\<lparr>wk_work_queue := w\<rparr>) = outage s"
  "outage (s\<lparr>wk_consumers := t\<rparr>) = outage s"
  "rejected (s\<lparr>br_proxies := p\<rparr>) = rejected s" "rejected (s\<lparr>wk_work_queue := w\<rparr>) = rejected s"
  "rejected (s\<lparr>wk_consumers := t\<rparr>) = rejected s"
  using frame [where s = s and p = p and t = "wk_consumers s" and w = "wk_work_queue s"]
    frame [where s = s and p = "br_proxies s" and t = "wk_consumers s" and w = w]
    frame [where s = s and p = "br_proxies s" and t = t and w = "wk_work_queue s"] by simp_all

lemma here_stuff: "keeps (here q c r fl n D) (stuff_exception r e)"
  by (auto simp: keeps_def on_hand_def stuff_exception_def modify_def update_proxy_def frame_simps)

lemma process_settles:
  assumes M: "considerate M (here q c r) r" and call: "\<And>a xs kw fl n D. keeps (here q c r fl n D) (call a xs kw)"
    and s: "here q c r fl n D s" and fl: "(c, Some r) \<in> set fl" and fuel: "n < fuel"
  shows "\<exists>x s1 s'. process_body M call r s = (x, s1) \<and> process_message fuel clears M C call r s = Some (x, s')
    \<and> holds (remove1 (c, Some r) fl) s'
    \<and> rejected s' = (if px_failed (proxy_at s1 r) then add_mset r D else D)"
proof -
  obtain x s1 where 1: "process_body M call r s = (x, s1)" by force
  have "keeps (here q c r fl n D) (process_body M call r)"
    using M call by (intro process_body_keeps here_stuff) (simp_all add: considerate_def)
  from keepsD [OF this s] 1 have h1: "here q c r fl n D s1" by simp
  from post_process_settles [OF M fl this fuel] obtain s2
    where 2: "post_process_message fuel M C q r s1 = Some (Inr (), s2)"
      and h2: "here q c r (remove1 (c, Some r) fl) 0 (if px_failed (proxy_at s1 r) then add_mset r D else D) s2"
    by auto
  obtain k where k: "q_unfinished (wk_work_queue s2) = Suc k"
    using h2 by (auto simp: on_hand_def gr0_conv_Suc)
  have q: "queue_name (message_at s1 r) = q" and "map_of (wk_consumers s1) q \<noteq> None"
    using h1 by (auto simp: on_hand_def)
  then obtain t where "map_of (wk_consumers s1) q = Some t" by blast
  with q have "\<exists>s'. process_message fuel clears M C call r s = Some (x, s') \<and> holds (remove1 (c, Some r) fl) s'
      \<and> rejected s' = (if px_failed (proxy_at s1 r) then add_mset r D else D)"
    using 1 2 k h2 by (simp add: process_message_def Let_def work_task_done_def q_task_done_def
        clear_exception_def modify_def update_proxy_def on_hand_def frame_simps)
  with 1 show ?thesis by blast
qed

end

section \<open>Releasing delayed messages\<close>

text \<open>The message that is enqueued for a due one with an \<open>eta\<close>.\<close>

definition released :: "message \<Rightarrow> message" where
  "released m = m\<lparr>queue_name := q_name (queue_name m), options := AList.delete ''eta'' (options m)\<rparr>"

definition has_eta :: "message \<Rightarrow> bool" where
  "has_eta m = (map_of (options m) ''eta'' \<noteq> None)"

lemma undelayed_released: "undelayed m = (if has_eta m then Inr (released m) else Inl (mk_exn KeyError ''eta''))"
  by (simp add: undelayed_def released_def has_eta_def copy_def Let_def)

text \<open>
  A consumer whose broker also takes messages in: \<open>waiting q s\<close> are the queued items, \<open>item m\<close> what a
  message becomes when it is queued, and \<open>accepts m s\<close> that the broker can queue it.
\<close>

locale message_broker = message_consumer +
  fixes waiting :: "string \<Rightarrow> ('a, 'b, 'c) worker_scheme \<Rightarrow> 'i list"
    and item :: "message \<Rightarrow> 'i"
    and accepts :: "message \<Rightarrow> ('a, 'b, 'c) worker_scheme \<Rightarrow> bool"
  assumes enqueue: "accepts m s \<Longrightarrow> holds fl s \<Longrightarrow>
      \<exists>s'. co_enqueue C m None s = (Inr m, s') \<and> holds fl s' \<and> outage s' = outage s \<and> rejected s' = rejected s
        \<and> worker_view s' = worker_view s \<and> br_clock s' = br_clock s \<and> (\<forall>m'. accepts m' s \<longrightarrow> accepts m' s')
        \<and> (\<forall>q. waiting q s' = waiting q s @ (if q = queue_name m then [item m] else []))"
    and ack_queues: "co_ack C c r s = (x, s') \<Longrightarrow>
      waiting q s' = waiting q s \<and> br_clock s' = br_clock s \<and> (accepts m s \<longrightarrow> accepts m s')"
    and queue_frame: "waiting q (s\<lparr>wk_consumers := t\<rparr>) = waiting q s"
      "accepts m (s\<lparr>wk_consumers := t\<rparr>) = accepts m s"
begin

lemma silent_settle:
  assumes silent: "\<And>m r s. mw_run M m (Before_ack r) s = (Inr (), s)" "\<And>m r s. mw_run M m (After_ack r) s = (Inr (), s)"
    and s: "map_of (wk_consumers s) q = Some t" "ct_consumer t = Some c" "\<not> px_failed (proxy_at s r)"
    and out: "holds fl s" "(c, Some r) \<in> set fl" "outage s = 0"
  shows "\<exists>s'. post_process_message (Suc post) M C q r s = Some (Inr (), s') \<and> holds (remove1 (c, Some r) fl) s'
    \<and> outage s' = 0 \<and> rejected s' = rejected s \<and> worker_view s' = worker_view s \<and> br_clock s' = br_clock s
    \<and> (\<forall>m. accepts m s \<longrightarrow> accepts m s') \<and> (\<forall>q. waiting q s' = waiting q s)"
proof -
  obtain s' where ack: "co_ack C c r s = (Inr (), s')"
    and s': "holds (remove1 (c, Some r) fl) s'" "outage s' = 0" "rejected s' = rejected s" "worker_view s' = worker_view s"
    using ack_up [OF out] by blast
  have b: "emit_before M (Before_ack r) s = (Inr (), s)" for r s
    by (rule emit_silent) (simp add: silent)
  have a: "emit_after M (After_ack r) s = (Inr (), s)" for r s
    by (rule emit_silent) (simp add: silent)
  have "settle M C q r s = (Inr (), s')"
    using s(3) thread_consumer_found [OF s(1,2)] ack
    by (simp add: settle_def andthen_def get_state_def a b)
  with s' ack_queues [OF ack] show ?thesis by auto
qed

text \<open>One turn of the loop on a due item; the delay thread's queue loses its first item.\<close>

lemma release_one:
  assumes silent: "\<And>m r s. mw_run M m (Before_ack r) s = (Inr (), s)" "\<And>m r s. mw_run M m (After_ack r) s = (Inr (), s)"
    and t: "map_of (wk_consumers s) q = Some t" "ct_consumer t = Some c"
    and items: "q_items (ct_delay_queue t) = (k, r) # rest" "q_unfinished (ct_delay_queue t) = Suc u"
    and due: "priority k \<le> br_clock s"
    and r: "\<not> px_failed (proxy_at s r)" "has_eta (message_at s r)" "accepts (released (message_at s r)) s"
    and out: "holds fl s" "(c, Some r) \<in> set fl" "outage s = 0"
  shows "\<exists>s'. handle_delayed_messages (Suc fuel) (Suc post) M C q s = handle_delayed_messages fuel (Suc post) M C q s'
    \<and> map_of (wk_consumers s') q = Some (t\<lparr>ct_delay_queue := \<lparr>q_items = rest, q_unfinished = u\<rparr>\<rparr>)
    \<and> holds (remove1 (c, Some r) fl) s' \<and> outage s' = 0 \<and> rejected s' = rejected s
    \<and> br_proxies s' = br_proxies s \<and> br_clock s' = br_clock s
    \<and> (\<forall>m. accepts m s \<longrightarrow> accepts m s')
    \<and> (\<forall>q. waiting q s' = waiting q s @
          (if q = queue_name (released (message_at s r)) then [item (released (message_at s r))] else []))"
proof -
  let ?t1 = "t\<lparr>ct_delay_queue := \<lparr>q_items = rest, q_unfinished = Suc u\<rparr>\<rparr>"
  let ?s1 = "s\<lparr>wk_consumers := AList.update q ?t1 (wk_consumers s)\<rparr>" and ?m = "released (message_at s r)"
  have dq: "(ct_delay_queue t)\<lparr>q_items := rest\<rparr> = \<lparr>q_items = rest, q_unfinished = Suc u\<rparr>"
    using items by simp
  have 1: "delay_get q s = (Inr (Some (k, r)), ?s1)"
    using t items by (simp add: delay_get_def get_thread_def set_thread_def proc_simps q_get_def dq)
  have "accepts ?m ?s1" "holds fl ?s1" using r out by (simp_all add: frame_simps queue_frame)
  from enqueue [OF this] obtain s2 where 2: "co_enqueue C ?m None ?s1 = (Inr ?m, s2)" "holds fl s2"
    "outage s2 = 0" "rejected s2 = rejected s" "worker_view s2 = worker_view ?s1" "br_clock s2 = br_clock s"
    "\<forall>m. accepts m s \<longrightarrow> accepts m s2"
    "\<forall>q. waiting q s2 = waiting q s @ (if q = queue_name ?m then [item ?m] else [])"
    using out(3) by (auto simp: frame_simps queue_frame)
  have v: "wk_consumers s2 = wk_consumers ?s1" "br_proxies s2 = br_proxies s"
    using 2(5) by (simp_all add: worker_view_def)
  then have "map_of (wk_consumers s2) q = Some ?t1" "ct_consumer ?t1 = Some c" "\<not> px_failed (proxy_at s2 r)"
    using t r by simp_all
  from silent_settle [OF silent this 2(2) out(2) 2(3), of post] obtain s3 where
    3: "post_process_message (Suc post) M C q r s2 = Some (Inr (), s3)" "holds (remove1 (c, Some r) fl) s3"
      "outage s3 = 0" "rejected s3 = rejected s2" "worker_view s3 = worker_view s2" "br_clock s3 = br_clock s2"
      "\<forall>m. accepts m s2 \<longrightarrow> accepts m s3" "\<forall>q. waiting q s3 = waiting q s2"
    by blast
  let ?t4 = "t\<lparr>ct_delay_queue := \<lparr>q_items = rest, q_unfinished = u\<rparr>\<rparr>"
  let ?s4 = "s3\<lparr>wk_consumers := AList.update q ?t4 (wk_consumers s3)\<rparr>"
  have w: "map_of (wk_consumers s3) q = Some ?t1" "br_proxies s3 = br_proxies s"
    using 3(5) v by (simp_all add: worker_view_def)
  then have 4: "delay_task_done q s3 = (Inr (), ?s4)"
    by (simp add: delay_task_done_def get_thread_def set_thread_def proc_simps q_task_done_def)
  have "handle_delayed_messages (Suc fuel) (Suc post) M C q s = handle_delayed_messages fuel (Suc post) M C q ?s4"
    using 1 2(1) 3(1) 4 due r(2) by (simp add: enqueue_undelayed_def undelayed_released)
  moreover have "map_of (wk_consumers ?s4) q = Some ?t4" by simp
  ultimately show ?thesis
    using 2 3 w by (intro exI [of _ ?s4]) (simp add: frame_simps queue_frame)
qed

text \<open>
  All due items are released in order, the first later one is put back where it was. The refs of the
  released messages are distinct and out.
\<close>

lemma release_due:
  assumes silent: "\<And>m r s. mw_run M m (Before_ack r) s = (Inr (), s)" "\<And>m r s. mw_run M m (After_ack r) s = (Inr (), s)"
  shows "\<lbrakk>map_of (wk_consumers s) q = Some t; ct_consumer t = Some c;
      q_items (ct_delay_queue t) = due @ rest; q_unfinished (ct_delay_queue t) = length due + u; rest \<noteq> [] \<longrightarrow> u \<noteq> 0;
      \<forall>i \<in> set due. priority (fst i) \<le> br_clock s \<and> \<not> px_failed (proxy_at s (snd i))
         \<and> has_eta (message_at s (snd i)) \<and> accepts (released (message_at s (snd i))) s \<and> (c, Some (snd i)) \<in> set fl;
      sorted (map fst rest); \<forall>i \<in> set rest. br_clock s < priority (fst i);
      distinct (map snd due); holds fl s; outage s = 0; length due < fuel\<rbrakk> \<Longrightarrow>
    \<exists>s'. handle_delayed_messages fuel (Suc post) M C q s = Some (Inr (), s')
      \<and> map_of (wk_consumers s') q = Some (t\<lparr>ct_delay_queue := \<lparr>q_items = rest, q_unfinished = u\<rparr>\<rparr>)
      \<and> holds (fold (\<lambda>i. remove1 (c, Some (snd i))) due fl) s' \<and> outage s' = 0 \<and> rejected s' = rejected s
      \<and> (\<forall>q. waiting q s' = waiting q s @ map item (filter (\<lambda>m. queue_name m = q)
            (map (\<lambda>i. released (message_at s (snd i))) due)))"
proof (induction due arbitrary: s t fl fuel)
  case Nil
  then obtain fuel' where fuel: "fuel = Suc fuel'" by (cases fuel) simp_all
  show ?case
  proof (cases rest)
    case rest: Nil
    have "t\<lparr>ct_delay_queue := \<lparr>q_items = [], q_unfinished = u\<rparr>\<rparr> = t"
      using Nil.prems(3,4) rest by (cases t) (simp add: pyqueue.equality)
    with Nil.prems rest show ?thesis
      by (simp add: fuel delay_get_def get_thread_def proc_simps q_get_def)
  next
    case (Cons i rest')
    let ?t1 = "t\<lparr>ct_delay_queue := (ct_delay_queue t)\<lparr>q_items := rest'\<rparr>\<rparr>"
    let ?s1 = "s\<lparr>wk_consumers := AList.update q ?t1 (wk_consumers s)\<rparr>"
    have g: "delay_get q s = (Inr (Some i), ?s1)"
      using Nil.prems Cons by (simp add: delay_get_def get_thread_def set_thread_def proc_simps q_get_def)
    have ins: "insort_key fst i rest' = i # rest'"
      using Nil.prems(7) Cons by (intro insort_is_Cons) (simp_all add: sorted_wrt_map)
    let ?t2 = "t\<lparr>ct_delay_queue := \<lparr>q_items = rest, q_unfinished = u\<rparr>\<rparr>"
    let ?s2 = "?s1\<lparr>wk_consumers := AList.update q ?t2 (AList.update q (?t1\<lparr>ct_delay_queue := pq_put i (ct_delay_queue ?t1)\<rparr>)
      (wk_consumers ?s1))\<rparr>"
    have dq: "(ct_delay_queue t)\<lparr>q_items := i # rest'\<rparr> = \<lparr>q_items = i # rest', q_unfinished = u\<rparr>"
      using Nil.prems(4) by simp
    have "delay_put_back q i ?s1 = (Inr (), ?s2)"
      using Nil.prems Cons ins
      by (simp add: delay_put_back_def delay_task_done_def get_thread_def set_thread_def proc_simps pq_put_def q_task_done_def dq)
    moreover have "br_clock s < priority (fst i)" using Nil.prems(8) Cons by simp
    ultimately show ?thesis using Nil.prems fuel g by (simp add: frame_simps queue_frame)
  qed
next
  case (Cons i due)
  obtain k r where i: "i = (k, r)" by (cases i)
  from Cons.prems(12) obtain fuel' where fuel: "fuel = Suc fuel'" "length due < fuel'" by (cases fuel) auto
  have pre: "q_items (ct_delay_queue t) = (k, r) # (due @ rest)" "q_unfinished (ct_delay_queue t) = Suc (length due + u)"
    "priority k \<le> br_clock s" "\<not> px_failed (proxy_at s r)" "has_eta (message_at s r)" "accepts (released (message_at s r)) s"
    "holds fl s" "(c, Some r) \<in> set fl" "outage s = 0"
    using Cons.prems i by simp_all
  from release_one [OF silent Cons.prems(1,2) pre, of fuel' post] obtain s' where
    s': "handle_delayed_messages (Suc fuel') (Suc post) M C q s = handle_delayed_messages fuel' (Suc post) M C q s'"
      "map_of (wk_consumers s') q = Some (t\<lparr>ct_delay_queue := \<lparr>q_items = due @ rest, q_unfinished = length due + u\<rparr>\<rparr>)"
      "holds (remove1 (c, Some r) fl) s'" "outage s' = 0" "rejected s' = rejected s"
      "br_proxies s' = br_proxies s" "br_clock s' = br_clock s" "\<forall>m. accepts m s \<longrightarrow> accepts m s'"
      "\<forall>q. waiting q s' = waiting q s @
          (if q = queue_name (released (message_at s r)) then [item (released (message_at s r))] else [])"
    by blast
  let ?t = "t\<lparr>ct_delay_queue := \<lparr>q_items = due @ rest, q_unfinished = length due + u\<rparr>\<rparr>"
  have "\<forall>j \<in> set due. snd j \<noteq> r" using Cons.prems(9) i by force
  then have "\<forall>j \<in> set due. priority (fst j) \<le> br_clock s' \<and> \<not> px_failed (proxy_at s' (snd j))
         \<and> has_eta (message_at s' (snd j)) \<and> accepts (released (message_at s' (snd j))) s' \<and> (c, Some (snd j)) \<in> set (remove1 (c, Some r) fl)"
    using Cons.prems(6) s'(6-8) by (simp add: in_set_remove1)
  from Cons.IH [OF s'(2) _ _ _ Cons.prems(5) this Cons.prems(7) _ _ s'(3,4) fuel(2)] Cons.prems s' fuel i
  show ?case by auto
qed

end

end
