(* ===== verification/Stub_Worker.thy ===== *)
theory Stub_Worker
  imports Delivery Monitors
begin

text \<open>
  A worker on the in-memory broker: the state of both, the broker's operations as the worker calls
  them, and the laws of the consumer interface for them. The results about the worker's delivery are
  stated here for this system, with any selection of the shipped middleware.
\<close>

section \<open>The state of both\<close>

text \<open>
  The worker's fields and the broker's extend the same base record. Seen from the worker, the broker's
  own fields lie behind the worker's; seen from the broker, it is the other way round.
\<close>

type_synonym ('m, 'a) stub_worker = "('m, string pyqueue, 'a stub_broker_ext) worker_scheme"

definition stub_fields :: "('m, 'a) stub_worker \<Rightarrow> ('m, 'a) stub_broker_scheme" where
  "stub_fields s = broker.extend (broker.truncate s) (worker.more s)"

definition broker_side :: "('m, 'a) stub_worker \<Rightarrow> ('m, 'a worker_ext) stub_broker_scheme" where
  "broker_side s = (let t = stub_fields s
     in \<lparr>br_actors = br_actors s, br_queues = br_queues s, br_delay_queues = br_delay_queues s,
         br_actor_options = br_actor_options s, br_middleware = br_middleware s, br_proxies = br_proxies s,
         br_clock = br_clock s, sb_dead_letters_by_queue = sb_dead_letters_by_queue t,
         sb_fail_fast_default = sb_fail_fast_default t, sb_consumers = sb_consumers t, sb_next = sb_next t,
         \<dots> = worker_ext (wk_consumers s) (wk_whitelist s) (wk_work_queue s) (wk_time s) (wk_queue_prefetch s)
               (wk_delay_prefetch s) (stub_broker.more t)\<rparr>)"

definition worker_fields :: "('m, 'a worker_ext) stub_broker_scheme \<Rightarrow> ('m, string pyqueue, 'a) worker_scheme" where
  "worker_fields t = broker.extend (broker.truncate t) (stub_broker.more t)"

definition worker_side :: "('m, 'a worker_ext) stub_broker_scheme \<Rightarrow> ('m, 'a) stub_worker" where
  "worker_side t = (let s = worker_fields t
     in \<lparr>br_actors = br_actors t, br_queues = br_queues t, br_delay_queues = br_delay_queues t,
         br_actor_options = br_actor_options t, br_middleware = br_middleware t, br_proxies = br_proxies t,
         br_clock = br_clock t, wk_consumers = wk_consumers s, wk_whitelist = wk_whitelist s,
         wk_work_queue = wk_work_queue s, wk_time = wk_time s, wk_queue_prefetch = wk_queue_prefetch s,
         wk_delay_prefetch = wk_delay_prefetch s,
         \<dots> = stub_broker_ext (sb_dead_letters_by_queue t) (sb_fail_fast_default t) (sb_consumers t) (sb_next t)
               (worker.more s)\<rparr>)"

lemma side_simps [simp]:
  "br_actors (broker_side s) = br_actors s" "br_queues (broker_side s) = br_queues s"
  "br_delay_queues (broker_side s) = br_delay_queues s" "br_middleware (broker_side s) = br_middleware s"
  "br_proxies (broker_side s) = br_proxies s" "br_clock (broker_side s) = br_clock s"
  "br_actors (worker_side t) = br_actors t" "br_queues (worker_side t) = br_queues t"
  "br_delay_queues (worker_side t) = br_delay_queues t" "br_middleware (worker_side t) = br_middleware t"
  "br_proxies (worker_side t) = br_proxies t" "br_clock (worker_side t) = br_clock t"
  by (simp_all add: broker_side_def worker_side_def Let_def)

lemma worker_broker_side [simp]: "worker_side (broker_side s) = s"
proof -
  obtain d f c n m where "worker.more s = stub_broker_ext d f c n m"
    by (metis broker.select_convs(8) stub_broker.surjective)
  then show ?thesis
    by (cases s) (simp add: worker_side_def broker_side_def worker_fields_def stub_fields_def broker.defs Let_def)
qed

lemma broker_worker_side [simp]: "broker_side (worker_side t) = t"
proof -
  obtain a b c d e f m where "stub_broker.more t = worker_ext a b c d e f m"
    by (metis broker.select_convs(8) worker.surjective)
  then show ?thesis
    by (cases t) (simp add: worker_side_def broker_side_def worker_fields_def stub_fields_def broker.defs Let_def)
qed


lemma broker_side_fields:
  assumes "worker.more s = stub_broker_ext d f c n m"
  shows "sb_dead_letters_by_queue (broker_side s) = d" "sb_consumers (broker_side s) = c" "sb_next (broker_side s) = n"
  using assms by (simp_all add: broker_side_def stub_fields_def broker.defs)

lemma worker_side_fields:
  assumes "stub_broker.more t = worker_ext a b c d e f m"
  shows "wk_consumers (worker_side t) = a" "wk_work_queue (worker_side t) = c"
  using assms by (simp_all add: worker_side_def worker_fields_def broker.defs)

lemma stub_side_cong:
  assumes "worker.more s = worker.more s'"
  shows "sb_dead_letters_by_queue (broker_side s) = sb_dead_letters_by_queue (broker_side s')"
    "sb_consumers (broker_side s) = sb_consumers (broker_side s')" "sb_next (broker_side s) = sb_next (broker_side s')"
proof -
  obtain d f c n m where e: "worker.more s' = stub_broker_ext d f c n m"
    by (metis broker.select_convs(8) stub_broker.surjective)
  then have "worker.more s = stub_broker_ext d f c n m" using assms by (rule trans [rotated])
  note fields = broker_side_fields [OF e] broker_side_fields [OF this]
  show "sb_dead_letters_by_queue (broker_side s) = sb_dead_letters_by_queue (broker_side s')"
    "sb_consumers (broker_side s) = sb_consumers (broker_side s')" "sb_next (broker_side s) = sb_next (broker_side s')"
    by (simp_all only: fields)
qed

lemma stub_side_frame [simp]:
  "sb_consumers (broker_side (s\<lparr>br_proxies := p, wk_consumers := t, wk_work_queue := w\<rparr>)) = sb_consumers (broker_side s)"
  "sb_next (broker_side (s\<lparr>br_proxies := p, wk_consumers := t, wk_work_queue := w\<rparr>)) = sb_next (broker_side s)"
  "dead_letters (broker_side (s\<lparr>br_proxies := p, wk_consumers := t, wk_work_queue := w\<rparr>)) = dead_letters (broker_side s)"
  "sb_consumers (broker_side (s\<lparr>wk_consumers := t\<rparr>)) = sb_consumers (broker_side s)"
  "sb_next (broker_side (s\<lparr>wk_consumers := t\<rparr>)) = sb_next (broker_side s)"
  "sb_consumers (broker_side (s\<lparr>br_clock := x\<rparr>)) = sb_consumers (broker_side s)"
  "sb_next (broker_side (s\<lparr>br_clock := x\<rparr>)) = sb_next (broker_side s)"
  "dead_letters (broker_side (s\<lparr>br_clock := x\<rparr>)) = dead_letters (broker_side s)"
proof -
  have more: "worker.more (s\<lparr>br_proxies := p, wk_consumers := t, wk_work_queue := w\<rparr>) = worker.more s"
    "worker.more (s\<lparr>wk_consumers := t\<rparr>) = worker.more s" "worker.more (s\<lparr>br_clock := x\<rparr>) = worker.more s"
    by simp_all
  note cong = stub_side_cong [OF more(1)] stub_side_cong [OF more(2)] stub_side_cong [OF more(3)]
  show "sb_consumers (broker_side (s\<lparr>br_proxies := p, wk_consumers := t, wk_work_queue := w\<rparr>)) = sb_consumers (broker_side s)"
    "sb_next (broker_side (s\<lparr>br_proxies := p, wk_consumers := t, wk_work_queue := w\<rparr>)) = sb_next (broker_side s)"
    "dead_letters (broker_side (s\<lparr>br_proxies := p, wk_consumers := t, wk_work_queue := w\<rparr>)) = dead_letters (broker_side s)"
    "sb_consumers (broker_side (s\<lparr>wk_consumers := t\<rparr>)) = sb_consumers (broker_side s)"
    "sb_next (broker_side (s\<lparr>wk_consumers := t\<rparr>)) = sb_next (broker_side s)"
    "sb_consumers (broker_side (s\<lparr>br_clock := x\<rparr>)) = sb_consumers (broker_side s)"
    "sb_next (broker_side (s\<lparr>br_clock := x\<rparr>)) = sb_next (broker_side s)"
    "dead_letters (broker_side (s\<lparr>br_clock := x\<rparr>)) = dead_letters (broker_side s)"
    unfolding dead_letters_def by (simp_all only: cong)
qed

text \<open>What leaves the worker's fields and the proxies alone on the broker's side is invisible to the worker.\<close>

lemma worker_view_side:
  assumes "stub_broker.more t = stub_broker.more (broker_side s)" and "br_proxies t = br_proxies s"
  shows "worker_view (worker_side t) = worker_view s"
proof -
  obtain a b c d e f m where e: "stub_broker.more (broker_side s) = worker_ext a b c d e f m"
    by (metis broker.select_convs(8) worker.surjective)
  with assms(1) have "stub_broker.more t = worker_ext a b c d e f m" by (rule trans)
  note fields = worker_side_fields [OF e] worker_side_fields [OF this]
  have "worker_view (worker_side t) = worker_view (worker_side (broker_side s))"
    using assms(2) by (simp only: worker_view_def fields side_simps)
  then show ?thesis by simp
qed

section \<open>The broker's operations\<close>

definition on_broker ::
  "(('m, 'a worker_ext) stub_broker_scheme, 'r) proc \<Rightarrow> (('m, 'a) stub_worker, 'r) proc" where
  "on_broker f s = (case f (broker_side s) of (x, t) \<Rightarrow> (x, worker_side t))"

definition broker_mw ::
  "('m, ('m, 'a) stub_worker) mw_ops \<Rightarrow> ('m, ('m, 'a worker_ext) stub_broker_scheme) mw_ops" where
  "broker_mw M = \<lparr>mw_isinstance = mw_isinstance M, mw_actor_options = mw_actor_options M,
     mw_run = (\<lambda>m h t. case mw_run M m h (worker_side t) of (x, s) \<Rightarrow> (x, broker_side s))\<rparr>"

text \<open>
  \<open>requeue\<close> and \<open>close\<close> are those of the base class \<open>Consumer\<close>, which do nothing. \<open>fresh\<close> is the
  identifier given to a message that comes without one.
\<close>

definition stub_ops ::
  "encoder \<Rightarrow> string \<Rightarrow> ('m, ('m, 'a) stub_worker) mw_ops \<Rightarrow> ('m, 'a) stub_worker consumer_ops" where
  "stub_ops e fresh M =
     \<lparr>co_consume = (\<lambda>name prefetch. on_broker (stub_consume name prefetch)),
      co_next = (\<lambda>c. on_broker (stub_next e fresh c)),
      co_ack = (\<lambda>c r. on_broker (stub_ack c r)),
      co_nack = (\<lambda>c r. on_broker (stub_nack c r)),
      co_requeue = (\<lambda>c rs. return ()), co_requeue_reads = False,
      co_close = (\<lambda>c. return ()),
      co_enqueue = (\<lambda>m delay. on_broker (stub_enqueue e (broker_mw M) m delay)),
      co_sleep = (\<lambda>d s. s\<lparr>br_clock := br_clock s + d\<rparr>)\<rparr>"

definition stub_holds :: "in_flight \<Rightarrow> ('m, 'a) stub_worker \<Rightarrow> bool" where
  "stub_holds fl s = stub_ok (broker_side s) fl"

definition stub_rejected :: "('m, 'a) stub_worker \<Rightarrow> proxy_ref multiset" where
  "stub_rejected s = mset (dead_letters (broker_side s))"

lemma dead_letter_added:
  "mset (concat (map snd (AList.update k ((case map_of d k of None \<Rightarrow> [] | Some l \<Rightarrow> l) @ [r]) d)))
     = add_mset r (mset (concat (map snd d)))"
  by (induction d) (auto simp: ac_simps)

lemma task_done_frame:
  "task_done q t = (Inr (), t') \<Longrightarrow> stub_broker.more t' = stub_broker.more t \<and> br_proxies t' = br_proxies t
     \<and> sb_dead_letters_by_queue t' = sb_dead_letters_by_queue t \<and> br_clock t' = br_clock t"
  by (auto simp: task_done_def split: option.splits)

lemma stub_settle:
  assumes "stub_ok t fl" and "(c, Some r) \<in> set fl"
  shows "\<exists>t'. stub_ack c r t = (Inr (), t') \<and> stub_ok t' (remove1 (c, Some r) fl) \<and> dead_letters t' = dead_letters t
      \<and> stub_broker.more t' = stub_broker.more t \<and> br_proxies t' = br_proxies t \<and> br_clock t' = br_clock t"
    and "\<exists>t'. stub_nack c r t = (Inr (), t') \<and> stub_ok t' (remove1 (c, Some r) fl)
      \<and> mset (dead_letters t') = add_mset r (mset (dead_letters t))
      \<and> stub_broker.more t' = stub_broker.more t \<and> br_proxies t' = br_proxies t \<and> br_clock t' = br_clock t"
proof -
  note ok = done_ok [OF assms]
  obtain x t1 where 1: "task_done (sc_queue (sb_consumers t ! c)) t = (x, t1)" by force
  with ok(1) have x: "x = Inr ()" by (auto simp: stub_ack_def proc_simps split: sum.splits)
  note f = task_done_frame [OF 1 [unfolded x]]
  show "\<exists>t'. stub_ack c r t = (Inr (), t') \<and> stub_ok t' (remove1 (c, Some r) fl) \<and> dead_letters t' = dead_letters t
      \<and> stub_broker.more t' = stub_broker.more t \<and> br_proxies t' = br_proxies t \<and> br_clock t' = br_clock t"
    using 1 x f ok(2) by (auto simp: stub_ack_def proc_simps release_def dead_letters_def)
  show "\<exists>t'. stub_nack c r t = (Inr (), t') \<and> stub_ok t' (remove1 (c, Some r) fl)
      \<and> mset (dead_letters t') = add_mset r (mset (dead_letters t))
      \<and> stub_broker.more t' = stub_broker.more t \<and> br_proxies t' = br_proxies t \<and> br_clock t' = br_clock t"
    using 1 x f ok(4) dead_letter_added
    by (auto simp: stub_nack_def proc_simps release_def dead_letters_def dead_letters_of_def Let_def)
qed

interpretation stub_worker: message_consumer "stub_ops e fresh M" stub_holds "\<lambda>_. 0" stub_rejected for e fresh M
proof unfold_locales
  fix fl :: in_flight and s :: "('a, 'b) stub_worker" and c r
  assume "stub_holds fl s" and x: "(c, Some r) \<in> set fl"
  then have ok: "stub_ok (broker_side s) fl" by (simp add: stub_holds_def)
  show "\<exists>s'. co_ack (stub_ops e fresh M) c r s = (Inr (), s') \<and> stub_holds (remove1 (c, Some r) fl) s' \<and> (0::nat) = 0
      \<and> stub_rejected s' = stub_rejected s \<and> worker_view s' = worker_view s"
    using stub_settle(1) [OF ok x] by (auto simp: stub_ops_def on_broker_def stub_holds_def stub_rejected_def
        intro!: worker_view_side)
  show "\<exists>s'. co_nack (stub_ops e fresh M) c r s = (Inr (), s') \<and> stub_holds (remove1 (c, Some r) fl) s' \<and> (0::nat) = 0
      \<and> stub_rejected s' = add_mset r (stub_rejected s) \<and> worker_view s' = worker_view s"
    using stub_settle(2) [OF ok x] by (auto simp: stub_ops_def on_broker_def stub_holds_def stub_rejected_def
        intro!: worker_view_side)
qed (simp_all add: stub_ops_def stub_holds_def stub_rejected_def worker_view_def)

section \<open>Hooks on either side\<close>

definition from_broker ::
  "(('m, 'a) stub_worker, 'r) proc \<Rightarrow> (('m, 'a worker_ext) stub_broker_scheme, 'r) proc" where
  "from_broker f t = (case f (worker_side t) of (x, s) \<Rightarrow> (x, broker_side s))"

lemma from_broker_each:
  assumes "\<And>e. h' e = from_broker (h e)"
  shows "for_each (\<lambda>m. try_except (from_broker (g m)) h') ms t = from_broker (for_each (\<lambda>m. try_except (g m) h) ms) t"
proof (induction ms arbitrary: t)
  case Nil
  then show ?case by (simp add: from_broker_def return_def)
next
  case (Cons m ms)
  have "try_except (from_broker (g m)) h' t = from_broker (try_except (g m) h) t"
    unfolding assms by (auto simp: from_broker_def try_except_def split: sum.split prod.split)
  moreover obtain x s1 where 1: "try_except (g m) h (worker_side t) = (x, s1)" by force
  ultimately have 2: "try_except (from_broker (g m)) h' t = (x, broker_side s1)"
    by (simp add: from_broker_def)
  obtain y s2 where 3: "for_each (\<lambda>m. try_except (g m) h) ms s1 = (y, s2)" by force
  then have 4: "for_each (\<lambda>m. try_except (from_broker (g m)) h') ms (broker_side s1) = (y, broker_side s2)"
    unfolding Cons.IH by (simp add: from_broker_def)
  have "for_each (\<lambda>m. try_except (g m) h) (m # ms) (worker_side t) = (case x of Inl e \<Rightarrow> (Inl e, s1) | Inr _ \<Rightarrow> (y, s2))"
    using 1 3 by (simp add: andthen_def split: sum.split)
  then have "from_broker (for_each (\<lambda>m. try_except (g m) h) (m # ms)) t
      = (case x of Inl e \<Rightarrow> (Inl e, broker_side s1) | Inr _ \<Rightarrow> (y, broker_side s2))"
    by (simp add: from_broker_def split: sum.split)
  with 2 4 show ?case by (simp add: andthen_def split: sum.split)
qed

lemma broker_mw_run: "mw_run (broker_mw M) m h = from_broker (mw_run M m h)"
  by (simp add: broker_mw_def from_broker_def fun_eq_iff)

lemma handlers_from_broker:
  "before_handler e = from_broker (before_handler e)" "after_handler e = from_broker (after_handler e)"
  by (auto simp: before_handler_def after_handler_def from_broker_def return_def raise_def fun_eq_iff)

lemma broker_mw_emit:
  "emit_before (broker_mw M) h = from_broker (emit_before M h)"
  "emit_after (broker_mw M) h = from_broker (emit_after M h)"
proof -
  have "emit_before (broker_mw M) h t = from_broker (emit_before M h) t" for t
    using from_broker_each [where h = before_handler and h' = before_handler and g = "\<lambda>m. mw_run M m h",
        OF handlers_from_broker(1)]
    by (simp add: emit_before_def broker_mw_run) (simp add: from_broker_def emit_before_def)
  moreover have "emit_after (broker_mw M) h t = from_broker (emit_after M h) t" for t
    using from_broker_each [where h = after_handler and h' = after_handler and g = "\<lambda>m. mw_run M m h",
        OF handlers_from_broker(2)]
    by (simp add: emit_after_def broker_mw_run) (simp add: from_broker_def emit_after_def)
  ultimately show "emit_before (broker_mw M) h = from_broker (emit_before M h)"
    "emit_after (broker_mw M) h = from_broker (emit_after M h)" by auto
qed

text \<open>The middleware's own state lies behind both.\<close>

definition system_place :: "('m, mw_state) stub_worker mw_place" where
  "system_place = \<lparr>mp_get = (\<lambda>s. stub_broker.more (stub_fields s)),
     mp_put = (\<lambda>ms s. s\<lparr>worker.more := broker.more ((stub_fields s)\<lparr>stub_broker.more := ms\<rparr>)\<rparr>)\<rparr>"

lemma stub_more_cases: obtains d f c n m where "worker.more s = stub_broker_ext d f c n m"
  by (metis broker.select_convs(8) stub_broker.surjective)

lemma system_place_put [simp]:
  "br_queues (mp_put system_place ms s) = br_queues s" "br_actors (mp_put system_place ms s) = br_actors s"
  "br_middleware (mp_put system_place ms s) = br_middleware s" "br_proxies (mp_put system_place ms s) = br_proxies s"
  "br_clock (mp_put system_place ms s) = br_clock s" "br_delay_queues (mp_put system_place ms s) = br_delay_queues s"
  "worker_view (mp_put system_place ms s) = worker_view s"
  by (simp_all add: system_place_def worker_view_def)

lemma system_place_more:
  assumes "worker.more s = stub_broker_ext d f c n m"
  shows "mp_get system_place s = m" "worker.more (mp_put system_place ms s) = stub_broker_ext d f c n ms"
  using assms by (simp_all add: system_place_def stub_fields_def broker.defs)

lemma system_place_laws [simp]:
  "mp_get system_place (mp_put system_place ms s) = ms" "mp_put system_place (mp_get system_place s) s = s"
  "mp_get system_place (s\<lparr>br_proxies := p\<rparr>) = mp_get system_place s"
  "sb_dead_letters_by_queue (broker_side (mp_put system_place ms s)) = sb_dead_letters_by_queue (broker_side s)"
  "sb_consumers (broker_side (mp_put system_place ms s)) = sb_consumers (broker_side s)"
  "sb_next (broker_side (mp_put system_place ms s)) = sb_next (broker_side s)"
proof -
  obtain d f c n m where e: "worker.more s = stub_broker_ext d f c n m" by (rule stub_more_cases)
  then have e': "worker.more (s\<lparr>br_proxies := p\<rparr>) = stub_broker_ext d f c n m" by simp
  note here = system_place_more [OF e] and there = system_place_more [OF system_place_more(2) [OF e]]
  show "mp_get system_place (mp_put system_place ms s) = ms" by (rule there(1))
  show "mp_get system_place (s\<lparr>br_proxies := p\<rparr>) = mp_get system_place s"
    by (simp only: here(1) system_place_more(1) [OF e'])
  have "broker.more ((stub_fields s)\<lparr>stub_broker.more := m\<rparr>) = worker.more s"
    using e by (simp add: stub_fields_def broker.defs)
  then have "mp_put system_place m s = s\<lparr>worker.more := worker.more s\<rparr>" by (simp add: system_place_def)
  then show "mp_put system_place (mp_get system_place s) s = s"
    unfolding here(1) by simp
  note fields = broker_side_fields [OF e] broker_side_fields [OF system_place_more(2) [OF e]]
  show "sb_dead_letters_by_queue (broker_side (mp_put system_place ms s)) = sb_dead_letters_by_queue (broker_side s)"
    "sb_consumers (broker_side (mp_put system_place ms s)) = sb_consumers (broker_side s)"
    "sb_next (broker_side (mp_put system_place ms s)) = sb_next (broker_side s)"
    by (simp_all only: fields)
qed

section \<open>Enqueueing with the shipped middleware\<close>

text \<open>What enqueueing does with the shipped middleware: their hooks change at most their own state.\<close>

definition placed :: "('m, mw_state) stub_worker mw_context \<Rightarrow> ('m, mw_state) stub_worker mw_context" where
  "placed X = X\<lparr>mc_place := system_place\<rparr>"

lemma placed_simps [simp]:
  "mc_place (placed X) = system_place" "mc_env (placed X) = mc_env X" "mc_rate_limiter (placed X) = mc_rate_limiter X"
  "mc_results (placed X) = mc_results X"
  by (simp_all add: placed_def)

lemma shipped_run_enqueue:
  "shipped_run (placed X) m (Before_enqueue n d) s = (Inr (), s)"
  "\<exists>ms. shipped_run (placed X) m (After_enqueue n d) s = (Inr (), mp_put system_place ms s)"
proof -
  show "shipped_run (placed X) m (Before_enqueue n d) s = (Inr (), s)"
    by (cases m) (simp_all add: Middleware_def return_def Prometheus_def)
  have "\<exists>ms. s = mp_put system_place ms s" by (rule exI [of _ "mp_get system_place s"]) simp
  then show "\<exists>ms. shipped_run (placed X) m (After_enqueue n d) s = (Inr (), mp_put system_place ms s)"
    by (cases m) (auto simp: Middleware_def return_def Prometheus_def update_metrics_def update_mw_def modify_def)
qed

lemma put_twice [simp]: "mp_put system_place a (mp_put system_place b s) = mp_put system_place a s"
proof -
  have put: "mp_put system_place ms s = s\<lparr>worker.more := stub_broker_ext d f c n ms\<rparr>"
    if "worker.more s = stub_broker_ext d f c n m" for ms s d f c n m
    using that by (simp add: system_place_def stub_fields_def broker.defs)
  obtain d f c n m where e: "worker.more s = stub_broker_ext d f c n m" by (rule stub_more_cases)
  have e': "worker.more (s\<lparr>worker.more := stub_broker_ext d f c n b\<rparr>) = stub_broker_ext d f c n b" by simp
  show ?thesis by (simp add: put [OF e] put [OF e'])
qed

lemma emit_enqueue:
  "emit_before (shipped_mw (placed X)) (Before_enqueue n d) s = (Inr (), s)"
  "\<exists>ms. emit_after (shipped_mw (placed X)) (After_enqueue n d) s = (Inr (), mp_put system_place ms s)"
proof -
  show "emit_before (shipped_mw (placed X)) (Before_enqueue n d) s = (Inr (), s)"
    using no_error_silent [of "br_middleware s" "\<lambda>m. mw_run (shipped_mw (placed X)) m (Before_enqueue n d)" before_handler s]
    by (simp add: emit_before_def shipped_mw_def shipped_run_enqueue)
  have "\<exists>ms. for_each (\<lambda>m. try_except (shipped_run (placed X) m (After_enqueue n d)) after_handler) mws s
      = (Inr (), mp_put system_place ms s)" for mws
  proof (induction mws arbitrary: s)
    case Nil
    show ?case by (rule exI [of _ "mp_get system_place s"]) (simp add: return_def)
  next
    case (Cons m mws)
    obtain ms where "shipped_run (placed X) m (After_enqueue n d) s = (Inr (), mp_put system_place ms s)"
      using shipped_run_enqueue(2) by blast
    with Cons.IH [of "mp_put system_place ms s"] show ?case by (simp add: andthen_def try_except_def)
  qed
  then show "\<exists>ms. emit_after (shipped_mw (placed X)) (After_enqueue n d) s = (Inr (), mp_put system_place ms s)"
    by (simp add: emit_after_def shipped_mw_def)
qed

definition stub_waiting :: "string \<Rightarrow> ('m, 'a) stub_worker \<Rightarrow> string list" where
  "stub_waiting q s = (case map_of (br_queues s) q of None \<Rightarrow> [] | Some Q \<Rightarrow> q_items Q)"

definition encoded :: "encoder \<Rightarrow> message \<Rightarrow> string" where
  "encoded e m = (case encode e m of Inl err \<Rightarrow> [] | Inr data \<Rightarrow> data)"

definition stub_accepts :: "encoder \<Rightarrow> message \<Rightarrow> ('m, 'a) stub_worker \<Rightarrow> bool" where
  "stub_accepts e m s = (map_of (br_queues s) (queue_name m) \<noteq> None \<and> (\<exists>data. encode e m = Inr data))"

lemma enqueue_on_broker:
  shows "let m' = stub_delayed (br_clock s) m d; name = queue_name m'
     in case (map_of (br_queues s) name, encode e m') of
          (Some Q, Inr data) \<Rightarrow> \<exists>ms. on_broker (stub_enqueue e (broker_mw (shipped_mw (placed X))) m d) s
             = (Inr m', mp_put system_place ms (s\<lparr>br_queues := AList.update name (q_put data Q) (br_queues s)\<rparr>))
        | _ \<Rightarrow> \<exists>err. on_broker (stub_enqueue e (broker_mw (shipped_mw (placed X))) m d) s = (Inl err, s)"
proof -
  let ?M = "shipped_mw (placed X)" and ?m = "stub_delayed (br_clock s) m d"
  let ?t = "broker_side s"
  have 1: "emit_before (broker_mw ?M) (Before_enqueue ?m d) ?t = (Inr (), ?t)"
    by (simp add: broker_mw_emit from_broker_def emit_enqueue(1))
  show ?thesis
  proof (cases "map_of (br_queues s) (queue_name ?m)")
    case None
    then show ?thesis by (simp add: on_broker_def stub_enqueue_def Let_def)
  next
    case Q: (Some Q)
    show ?thesis
    proof (cases "encode e ?m")
      case (Inl err)
      then have "stub_put e (queue_name ?m) ?m ?t = (Inl err, ?t)" using Q by (simp add: stub_put_def)
      then have "stub_enqueue e (broker_mw ?M) m d ?t = (Inl err, ?t)"
        using Q 1 by (simp add: stub_enqueue_def andthen_def Let_def)
      then show ?thesis using Inl Q by (simp add: on_broker_def Let_def)
    next
      case (Inr data)
      let ?t' = "?t\<lparr>br_queues := AList.update (queue_name ?m) (q_put data Q) (br_queues s)\<rparr>"
      let ?s' = "s\<lparr>br_queues := AList.update (queue_name ?m) (q_put data Q) (br_queues s)\<rparr>"
      have side: "worker_side ?t' = ?s'"
      proof -
        obtain dl f c n m0 where "worker.more s = stub_broker_ext dl f c n m0" by (rule stub_more_cases)
        then have "broker_side ?s' = ?t'" by (simp add: broker_side_def stub_fields_def broker.defs Let_def)
        then show ?thesis by (metis worker_broker_side)
      qed
      obtain ms where a: "emit_after ?M (After_enqueue ?m d) ?s' = (Inr (), mp_put system_place ms ?s')"
        using emit_enqueue(2) by blast
      have 2: "stub_put e (queue_name ?m) ?m ?t = (Inr (), ?t')"
        using Q Inr by (simp add: stub_put_def)
      have 3: "emit_after (broker_mw ?M) (After_enqueue ?m d) ?t' = (Inr (), broker_side (mp_put system_place ms ?s'))"
        by (simp add: broker_mw_emit from_broker_def side a)
      have "stub_enqueue e (broker_mw ?M) m d ?t = (Inr ?m, broker_side (mp_put system_place ms ?s'))"
        using Q by (simp add: stub_enqueue_def Let_def andthen_def 1 2 3 return_def)
      then have "on_broker (stub_enqueue e (broker_mw ?M) m d) s = (Inr ?m, mp_put system_place ms ?s')"
        by (simp add: on_broker_def)
      then show ?thesis using Q Inr by (auto simp: Let_def)
    qed
  qed
qed

lemma stub_ack_queues:
  assumes "stub_ack c r t = (x, t')"
  shows "br_clock t' = br_clock t" "map_option q_items (map_of (br_queues t') q) = map_option q_items (map_of (br_queues t) q)"
proof -
  obtain y t1 where 1: "task_done (sc_queue (sb_consumers t ! c)) t = (y, t1)" by force
  have t1: "br_clock t1 = br_clock t \<and> map_option q_items (map_of (br_queues t1) q) = map_option q_items (map_of (br_queues t) q)"
  proof (cases "y = Inr ()")
    case True
    let ?n = "sc_queue (sb_consumers t ! c)"
    from 1 True obtain Q Q' where Q: "map_of (br_queues t) ?n = Some Q" "q_task_done Q = Some Q'"
      and t1: "t1 = t\<lparr>br_queues := AList.update ?n Q' (br_queues t)\<rparr>"
      unfolding task_done_def by (auto split: option.splits)
    have "q_items Q' = q_items Q" using Q(2) unfolding q_task_done_def by (auto split: nat.splits)
    with Q(1) show ?thesis unfolding t1 by simp
  next
    case False
    with 1 have "t1 = t" unfolding task_done_def by (auto split: option.splits)
    then show ?thesis by simp
  qed
  have "t' = t1 \<or> t' = release c t1"
    using assms unfolding stub_ack_def andthen_def modify_def 1 by (cases y) simp_all
  with t1 show "br_clock t' = br_clock t" "map_option q_items (map_of (br_queues t') q) = map_option q_items (map_of (br_queues t) q)"
    unfolding release_def by auto
qed

interpretation stub_worker: message_broker "stub_ops e fresh (shipped_mw (placed X))" stub_holds "\<lambda>_. 0" stub_rejected
    stub_waiting "encoded e" "stub_accepts e" for e fresh X
proof unfold_locales
  fix m :: message and s :: "(middleware, mw_state) stub_worker" and fl
  assume m: "stub_accepts e m s" and "stub_holds fl s"
  then have ok: "stub_ok (broker_side s) fl" by (simp add: stub_holds_def)
  obtain Q data where Q: "map_of (br_queues s) (queue_name m) = Some Q" and "encode e m = Inr data"
    using m by (auto simp: stub_accepts_def)
  then obtain ms where run: "on_broker (stub_enqueue e (broker_mw (shipped_mw (placed X))) m None) s
        = (Inr m, mp_put system_place ms (s\<lparr>br_queues := AList.update (queue_name m) (q_put (encoded e m) Q) (br_queues s)\<rparr>))"
    using enqueue_on_broker [of s m None e X] by (auto simp: stub_delayed_def encoded_def)
  let ?s = "s\<lparr>br_queues := AList.update (queue_name m) (q_put (encoded e m) Q) (br_queues s)\<rparr>"
  have more: "worker.more ?s = worker.more s" by simp
  note fields = stub_side_cong [OF more]
  have "stub_ok (broker_side (mp_put system_place ms ?s)) fl"
    using inv_put [OF ok, of "queue_name m" Q] Q by (simp add: fields)
  then have "stub_holds fl (mp_put system_place ms ?s)" by (simp only: stub_holds_def)
  moreover have "co_enqueue (stub_ops e fresh (shipped_mw (placed X))) m None s = (Inr m, mp_put system_place ms ?s)"
    unfolding run [symmetric] by (simp add: stub_ops_def)
  moreover have "stub_rejected (mp_put system_place ms ?s) = stub_rejected s"
    by (simp add: stub_rejected_def dead_letters_def fields)
  moreover have "worker_view (mp_put system_place ms ?s) = worker_view s" by simp (simp add: worker_view_def)
  moreover have "stub_accepts e m' s \<longrightarrow> stub_accepts e m' (mp_put system_place ms ?s)" for m'
    by (auto simp: stub_accepts_def)
  moreover have "stub_waiting q (mp_put system_place ms ?s) = stub_waiting q s @ (if q = queue_name m then [encoded e m] else [])" for q
    using Q by (simp add: stub_waiting_def q_put_def)
  ultimately show "\<exists>s'. co_enqueue (stub_ops e fresh (shipped_mw (placed X))) m None s = (Inr m, s') \<and> stub_holds fl s' \<and> (0::nat) = 0
      \<and> stub_rejected s' = stub_rejected s \<and> worker_view s' = worker_view s \<and> br_clock s' = br_clock s
      \<and> (\<forall>m'. stub_accepts e m' s \<longrightarrow> stub_accepts e m' s')
      \<and> (\<forall>q. stub_waiting q s' = stub_waiting q s @ (if q = queue_name m then [encoded e m] else []))"
    by (intro exI [of _ "mp_put system_place ms ?s"] conjI) (blast | simp)+
next
  fix c r x q m and s s' :: "(middleware, mw_state) stub_worker"
  assume "co_ack (stub_ops e fresh (shipped_mw (placed X))) c r s = (x, s')"
  then obtain t' where a: "stub_ack c r (broker_side s) = (x, t')" and s': "s' = worker_side t'"
    by (cases "stub_ack c r (broker_side s)") (simp add: stub_ops_def on_broker_def)
  have "map_option q_items (map_of (br_queues s') q) = map_option q_items (map_of (br_queues s) q)" for q
    using stub_ack_queues(2) [OF a, of q] unfolding s' by simp
  then have "stub_waiting q s' = stub_waiting q s" "map_of (br_queues s') q = None \<longleftrightarrow> map_of (br_queues s) q = None" for q
    unfolding stub_waiting_def by (metis (no_types, lifting) option.map_disc_iff option.case_eq_if option.map_sel)+
  then show "stub_waiting q s' = stub_waiting q s \<and> br_clock s' = br_clock s \<and> (stub_accepts e m s \<longrightarrow> stub_accepts e m s')"
    using stub_ack_queues(1) [OF a] unfolding stub_accepts_def s' by simp
qed (simp_all add: stub_waiting_def stub_accepts_def)

end
