(* ===== verification/Worker_System.thy ===== *)
theory Worker_System
  imports Stub_Worker
begin

text \<open>
  The worker, the shipped middleware and the in-memory broker together: what the worker does with a
  message that the broker handed out, from delivery to settlement, with delayed messages and with what is left
  when the worker stops.
\<close>

section \<open>The whole system\<close>

text \<open>
  The shipped middleware on the in-memory broker: what they enqueue goes to the broker; the rate
  limiter and the result backend are remote services and the predicates that actors supply are pure,
  so of each operation of \<open>X\<close> only the outcome matters here.
\<close>

definition remote :: "('s, 'r) proc \<Rightarrow> ('s, 'r) proc" where
  "remote f s = (fst (f s), s)"

definition on_stub :: "encoder \<Rightarrow> (middleware, mw_state) stub_worker mw_context \<Rightarrow> (middleware, mw_state) stub_worker mw_context" where
  "on_stub e X = placed (X\<lparr>
     mc_env := (mc_env X)\<lparr>
       me_enqueue := (\<lambda>m d. on_broker (stub_enqueue e (broker_mw (shipped_mw (placed X))) m d)),
       me_retry_when := (\<lambda>v k x. remote (me_retry_when (mc_env X) v k x))\<rparr>,
     mc_rate_limiter := (mc_rate_limiter X)\<lparr>
       rb_decr := (\<lambda>k a m t s. (fst (rb_decr (mc_rate_limiter X) k a m t s), s)),
       rb_wait_notify := (\<lambda>k t s. s)\<rparr>,
     mc_results := (mc_results X)\<lparr>rs_store := (\<lambda>k v t. remote (rs_store (mc_results X) k v t))\<rparr>\<rparr>)"

interpretation shipped: quiet_hooks "broker_mw (shipped_mw (placed X))" for X
proof unfold_locales
  fix h m and t :: "(middleware, mw_state worker_ext) stub_broker_scheme"
  assume "quiet_signal h"
  then have "\<exists>ms. snd (shipped_run (placed X) m h s) = mp_put system_place ms s" for s
    by (cases h rule: quiet_signal.cases; cases m)
      (auto simp: Middleware_def return_def Prometheus_def update_metrics_def update_mw_def modify_def
        intro: exI [of _ "mp_get system_place s"])
  then obtain ms where "snd (shipped_run (placed X) m h (worker_side t)) = mp_put system_place ms (worker_side t)"
    by blast
  then have "snd (mw_run (broker_mw (shipped_mw (placed X))) m h t) = broker_side (mp_put system_place ms (worker_side t))"
    by (auto simp: broker_mw_run from_broker_def shipped_mw_def split: prod.split)
  then show "stub_view (snd (mw_run (broker_mw (shipped_mw (placed X))) m h t)) = stub_view t"
    by (simp add: stub_view_def)
qed

abbreviation stub_on_hand ::
  "string \<Rightarrow> nat \<Rightarrow> proxy_ref \<Rightarrow> in_flight \<Rightarrow> nat \<Rightarrow> proxy_ref multiset \<Rightarrow> ('m, 'a) stub_worker \<Rightarrow> bool" where
  "stub_on_hand \<equiv> on_hand stub_holds (\<lambda>_. 0) stub_rejected"

lemma stub_on_hand_put: "stub_on_hand q c r fl n D s \<Longrightarrow> stub_on_hand q c r fl n D (mp_put system_place ms s)"
  using system_place_put(7) [of ms s] system_place_put(4) [of ms s]
  by (simp add: on_hand_def stub_holds_def stub_rejected_def dead_letters_def worker_view_def)

lemma stub_on_hand_enqueue:
  "keeps (stub_on_hand q c r fl n D) (on_broker (stub_enqueue e (broker_mw (shipped_mw (placed X))) m d))"
proof (rule keepsI)
  fix s :: "(middleware, mw_state) stub_worker" assume s: "stub_on_hand q c r fl n D s"
  let ?m = "stub_delayed (br_clock s) m d" and ?run = "on_broker (stub_enqueue e (broker_mw (shipped_mw (placed X))) m d) s"
  consider (none) "snd ?run = s"
    | (put) Q data ms where "map_of (br_queues s) (queue_name ?m) = Some Q"
        "snd ?run = mp_put system_place ms (s\<lparr>br_queues := AList.update (queue_name ?m) (q_put data Q) (br_queues s)\<rparr>)"
    using enqueue_on_broker [of s m d e X] unfolding Let_def
    by (auto split: option.splits sum.splits)
  then show "stub_on_hand q c r fl n D (snd ?run)"
  proof cases
    case none
    with s show ?thesis by simp
  next
    case put
    let ?s = "s\<lparr>br_queues := AList.update (queue_name ?m) (q_put data Q) (br_queues s)\<rparr>"
    have more: "worker.more ?s = worker.more s" by simp
    have "stub_on_hand q c r fl n D ?s"
      using s inv_put [of "br_queues s" "sb_consumers (broker_side s)" "sb_next (broker_side s)" fl, OF _ put(1)]
      by (simp add: on_hand_def stub_holds_def stub_rejected_def dead_letters_def stub_side_cong [OF more])
    then show ?thesis unfolding put(2) by (rule stub_on_hand_put)
  qed
qed

interpretation on_stub: hook_surroundings "on_stub e X" "stub_on_hand q c r fl n D" "\<lambda>_. True" for e X q c r fl n D
proof unfold_locales
  fix m d
  show "sound (stub_on_hand q c r fl n D) (\<lambda>_. True) (me_enqueue (mc_env (on_stub e X)) m d)"
    using keeps_sound [OF stub_on_hand_enqueue] by (simp add: on_stub_def)
next
  fix key ttl
  show "sound (stub_on_hand q c r fl n D) (\<lambda>_. True) (barrier_wait (mc_rate_limiter (on_stub e X)) key ttl False None)"
    by (auto simp: sound_def barrier_wait_def on_stub_def Let_def split: prod.split)
next
  fix s :: "(middleware, mw_state) stub_worker" and f p
  assume "stub_on_hand q c r fl n D s" and "mild_change f"
  then show "stub_on_hand q c r fl n D (update_proxy p f s)"
    using stub_worker.frame_simps
    by (auto simp: on_hand_def update_proxy_def mild_change_def)
next
  fix s :: "(middleware, mw_state) stub_worker" and ms
  assume "stub_on_hand q c r fl n D s"
  then show "stub_on_hand q c r fl n D (mp_put (mc_place (on_stub e X)) ms s)"
    by (simp add: on_stub_def stub_on_hand_put)
qed (simp_all add: on_stub_def sound_def remote_def)

lemma ack_hooks:
  "h \<in> {Before_ack r, Before_nack r, After_ack r} \<Longrightarrow> shipped_run X m h = Middleware h"
  by (cases m) (auto simp: Prometheus_def fun_eq_iff)

lemma after_nack_errors:
  assumes "\<And>k v t s err. fst (rs_store (mc_results X) k v t s) = Inl err \<Longrightarrow> isinstance err Exception"
    and "fst (shipped_run X m (After_nack r) s) = Inl err"
  shows "isinstance err Exception"
proof -
  let ?X = "X\<lparr>mc_env := (mc_env X)\<lparr>me_enqueue := (\<lambda>m d. return m), me_retry_when := (\<lambda>v k x. return PNone)\<rparr>,
     mc_rate_limiter := (mc_rate_limiter X)\<lparr>rb_decr := (\<lambda>k a m t s. (True, s)), rb_wait_notify := (\<lambda>k t s. s)\<rparr>\<rparr>"
  have "hook_surroundings ?X (\<lambda>_. True) (\<lambda>err. isinstance err Exception)"
    using assms(1) by unfold_locales (auto simp: sound_def barrier_wait_def return_def)
  from hook_surroundings.Results_sound(3) [OF this]
  have "sound (\<lambda>_. True) (\<lambda>err. isinstance err Exception) (Results_after_nack md5 (mc_results X) cfg r)" for md5 cfg
    by simp
  then show ?thesis
    using assms(2) by (cases m)
      (auto simp: sound_def Middleware_def return_def Prometheus_def update_metrics_def update_mw_def modify_def)
qed

lemma considerate_shipped:
  assumes "\<And>k v t s err. fst (rs_store (mc_results X) k v t s) = Inl err \<Longrightarrow> isinstance err Exception"
  shows "considerate (shipped_mw (on_stub e X)) (stub_on_hand q c r) r"
proof -
  have metrics: "keeps (stub_on_hand q c r fl n D) (Prometheus system_place h)" for fl n D h
    unfolding keeps_def by (cases h) (auto simp: Prometheus_def Middleware_def return_def update_metrics_def update_mw_def
        modify_def intro: stub_on_hand_put)
  have keep: "keeps (stub_on_hand q c r fl n D) (shipped_run (on_stub e X) m h)" for fl n D m h
  proof (cases "m = MW_Prometheus")
    case True
    with metrics show ?thesis by (simp add: on_stub_def)
  next
    case False
    then show ?thesis by (intro sound_keeps [OF on_stub.shipped_sound]) simp_all
  qed
  have store: "fst (rs_store (mc_results (on_stub e X)) k v t s) = Inl err \<Longrightarrow> isinstance err Exception" for k v t s err
    using assms by (simp add: on_stub_def remote_def)
  show ?thesis
    using keep after_nack_errors [OF store]
    by (auto simp: considerate_def shipped_mw_def ack_hooks Middleware_def return_def keeps_def)
qed

text \<open>
  C1. Every message is settled exactly once: whatever the actor's function does (return, raise any
  exception, change the state, as long as it leaves the message in the worker's hands) and whichever
  of the shipped middleware are installed, processing a message that the in-memory broker handed out
  ends with that message, and no other, acknowledged or rejected; it joins the dead letters exactly
  when it had failed by then.
\<close>

theorem settled_exactly_once:
  assumes X: "\<And>k v t s err. fst (rs_store (mc_results X) k v t s) = Inl err \<Longrightarrow> isinstance err Exception"
    and M: "M = shipped_mw (on_stub e X)"
    and call: "\<And>a xs kw fl D. keeps (stub_on_hand q c r fl 0 D) (call a xs kw)"
    and s: "stub_ok (broker_side s) fl" "(c, Some r) \<in> set fl" "queue_name (message_at s r) = q"
      "map_of (wk_consumers s) q = Some t" "ct_consumer t = Some c" "0 < q_unfinished (wk_work_queue s)"
  shows "\<exists>x s1 s'. process_body M call r s = (x, s1)
    \<and> process_message 1 clears M (stub_ops e fresh M) call r s = Some (x, s')
    \<and> stub_ok (broker_side s') (remove1 (c, Some r) fl)
    \<and> mset (dead_letters (broker_side s')) =
        (if px_failed (proxy_at s1 r) then {#r#} else {#}) + mset (dead_letters (broker_side s))"
proof -
  have hand: "stub_on_hand q c r fl 0 (stub_rejected s) s"
    using s by (simp add: on_hand_def stub_holds_def)
  have any: "stub_on_hand q c r fl n D = stub_on_hand q c r fl 0 D" for fl n D
    by (simp add: on_hand_def fun_eq_iff)
  have call: "keeps (stub_on_hand q c r fl n D) (call a xs kw)" for a xs kw fl n D
    unfolding any [of fl n D] by (rule call)
  have "considerate M (stub_on_hand q c r) r"
    unfolding M by (rule considerate_shipped [OF X])
  from stub_worker.process_settles [where call = call, OF this call hand s(2), where fuel = 1 and clears = clears
      and e = e and fresh = fresh and Ma = M]
  obtain x s1 s' where "process_body M call r s = (x, s1)"
    "process_message 1 clears M (stub_ops e fresh M) call r s = Some (x, s')"
    "stub_holds (remove1 (c, Some r) fl) s'"
    "stub_rejected s' = (if px_failed (proxy_at s1 r) then add_mset r (stub_rejected s) else stub_rejected s)"
    by auto
  then show ?thesis
    by (intro exI [of _ x] exI [of _ s1] exI [of _ s'])
      (simp add: stub_holds_def stub_rejected_def)
qed

text \<open>A system with one message in the hands of the worker, for examples.\<close>

definition plain_context :: "'s mw_place \<Rightarrow> 's mw_context" where
  "plain_context L =
     \<lparr>mc_env = \<lparr>me_enqueue = (\<lambda>m d. return m), me_uuid = ''uuid'', me_actor_of = (\<lambda>v. None), me_u = 1, me_w = 1,
        me_traceback = ''tb'', me_retry_when = (\<lambda>f k e. return (PBool False))\<rparr>,
      mc_rate_limiter = \<lparr>rb_add = (\<lambda>k v t s. (True, s)), rb_incr = (\<lambda>k a m t s. (True, s)),
        rb_decr = (\<lambda>k a m t s. (True, s)), rb_incr_and_sum = (\<lambda>k ks a m t s. (True, s)),
        rb_wait = (\<lambda>k t. return True), rb_wait_notify = (\<lambda>k t s. s)\<rparr>,
      mc_results = \<lparr>rs_namespace = ''ns'', rs_use_prefix_keys = True, rs_get = (\<lambda>k. return None),
        rs_store = (\<lambda>k v t. return ())\<rparr>,
      mc_md5 = id, mc_place = L, mc_thread = 0\<rparr>"

definition busy_thread :: consumer_thread where
  "busy_thread = \<lparr>ct_prefetch = 2, ct_consumer = Some 0, ct_running = True, ct_paused = False,
     ct_paused_event = False, ct_delay_queue = pyqueue_empty\<rparr>"

definition busy_system :: "middleware list \<Rightarrow> (middleware, mw_state) stub_worker" where
  "busy_system ms = \<lparr>br_actors = [(''add'', add_actor)], br_queues = [(''default'', \<lparr>q_items = [], q_unfinished = 1\<rparr>),
       (''default.DQ'', pyqueue_empty)],
     br_delay_queues = [''default.DQ''], br_actor_options = {}, br_middleware = ms,
     br_proxies = (\<lambda>_. MessageProxy blank_message), br_clock = 1000,
     wk_consumers = [(''default'', busy_thread)], wk_whitelist = [],
     wk_work_queue = \<lparr>q_items = [], q_unfinished = 1\<rparr>, wk_time = 0, wk_queue_prefetch = 2, wk_delay_prefetch = 1000,
     \<dots> = stub_broker_ext [(''default'', [])] True [\<lparr>sc_queue = ''default'', sc_prefetch = 2, sc_slots = 1\<rparr>] 1 monitors_init\<rparr>"

lemma busy_system_simps [simp]:
  "br_actors (busy_system ms) = [(''add'', add_actor)]" "br_middleware (busy_system ms) = ms"
  "br_queues (busy_system ms) = [(''default'', \<lparr>q_items = [], q_unfinished = 1\<rparr>), (''default.DQ'', pyqueue_empty)]"
  "br_proxies (busy_system ms) x = MessageProxy blank_message" "wk_consumers (busy_system ms) = [(''default'', busy_thread)]"
  "wk_work_queue (busy_system ms) = \<lparr>q_items = [], q_unfinished = 1\<rparr>" "ct_consumer busy_thread = Some 0"
  "sb_consumers (broker_side (busy_system ms)) = [\<lparr>sc_queue = ''default'', sc_prefetch = 2, sc_slots = 1\<rparr>]"
  "sb_next (broker_side (busy_system ms)) = 1" "dead_letters (broker_side (busy_system ms)) = []"
  "br_clock (busy_system ms) = 1000"
  by (simp_all add: busy_system_def broker_side_def stub_fields_def broker.defs busy_thread_def dead_letters_def)

lemma busy_system_ok: "stub_ok (broker_side (busy_system ms)) [(0, Some 0)]"
  by (auto simp: stub_inv_def pyqueue_empty_def canonical_def endswith_def suffix_def)

theorem settled_exactly_once_witness:
  "let M = shipped_mw (on_stub JSONEncoder (plain_context system_place)); s = busy_system default_middleware;
       call = (\<lambda>a xs kw. raise (mk_exn ValueError ''bad''))
   in \<exists>x s1 s'. process_body M call 0 s = (x, s1)
        \<and> process_message 1 False M (stub_ops JSONEncoder ''id'' M) call 0 s = Some (x, s')
        \<and> stub_ok (broker_side s') []
        \<and> mset (dead_letters (broker_side s')) = (if px_failed (proxy_at s1 0) then {#0#} else {#})"
proof -
  let ?s = "busy_system default_middleware"
  have q: "queue_name (message_at ?s 0) = ''default''" by (simp add: blank_message_def)
  have store: "fst (rs_store (mc_results (plain_context system_place)) k v t s) = Inl err \<Longrightarrow> isinstance err Exception"
    for k v t err and s :: "(middleware, mw_state) stub_worker"
    by (simp add: plain_context_def return_def)
  show ?thesis
    unfolding Let_def
    using settled_exactly_once [where call = "\<lambda>a xs kw. raise (mk_exn ValueError ''bad'')",
        OF store refl keeps_raise busy_system_ok _ q, where t = busy_thread and clears = False and fresh = "''id''" and e = JSONEncoder]
    by simp
qed

section \<open>Delayed messages\<close>

text \<open>
  C10. Delayed messages are released when they are due, and not before: one turn of a consumer thread enqueues,
  for each message whose time has come and in the order of their times, the same message without its \<open>eta\<close> on
  the queue that the delay queue belongs to (the actor, the arguments, the other options, the id and the
  timestamp are kept), and acknowledges the delayed message once; those that are to come stay in the thread's
  delay queue as they were. The broker is the in-memory one with the shipped middleware, and its copy of each
  message can be enqueued: it can be encoded and its queue is declared.
\<close>

theorem delayed_released_when_due:
  assumes M: "M = shipped_mw (placed X)"
    and t: "map_of (wk_consumers s) q = Some t" "ct_consumer t = Some c" "sorted (map fst (q_items (ct_delay_queue t)))"
      "q_unfinished (ct_delay_queue t) = length (q_items (ct_delay_queue t))"
    and due: "due = takeWhile (\<lambda>i. priority (fst i) \<le> br_clock s) (q_items (ct_delay_queue t))"
      "rest = dropWhile (\<lambda>i. priority (fst i) \<le> br_clock s) (q_items (ct_delay_queue t))"
    and new: "\<And>m. new m = m\<lparr>queue_name := q_name (queue_name m), options := filter (\<lambda>(k, v). k \<noteq> ''eta'') (options m)\<rparr>"
    and out: "\<forall>i \<in> set due. \<not> px_failed (proxy_at s (snd i)) \<and> map_of (options (message_at s (snd i))) ''eta'' \<noteq> None
        \<and> stub_accepts e (new (message_at s (snd i))) s \<and> (c, Some (snd i)) \<in> set fl"
      "distinct (map snd due)" "stub_ok (broker_side s) fl" "length due < fuel"
  shows "\<exists>s'. handle_delayed_messages fuel (Suc post) M (stub_ops e fresh M) q s = Some (Inr (), s')
    \<and> map_of (wk_consumers s') q = Some (t\<lparr>ct_delay_queue := \<lparr>q_items = rest, q_unfinished = length rest\<rparr>\<rparr>)
    \<and> stub_ok (broker_side s') (fold (\<lambda>i. remove1 (c, Some (snd i))) due fl)
    \<and> mset (dead_letters (broker_side s')) = mset (dead_letters (broker_side s))
    \<and> (\<forall>q'. stub_waiting q' s' = stub_waiting q' s @ map (encoded e) (filter (\<lambda>m. queue_name m = q')
          (map (\<lambda>i. new (message_at s (snd i))) due)))"
proof -
  have new: "new m = released m" for m
    unfolding new released_def AList.delete_eq by (simp add: eq_commute [of _ "''eta''"])
  note out = out [unfolded new, folded has_eta_def]
  have items: "q_items (ct_delay_queue t) = due @ rest" unfolding due by simp
  then have un: "q_unfinished (ct_delay_queue t) = length due + length rest" using t(4) by simp
  have early: "\<forall>i \<in> set due. priority (fst i) \<le> br_clock s" unfolding due by (auto dest: set_takeWhileD)
  have srt: "sorted (map fst rest)" using t(3) unfolding items by (simp add: sorted_append)
  have late: "\<forall>i \<in> set rest. br_clock s < priority (fst i)"
  proof (cases rest)
    case (Cons x xs)
    have "\<not> priority (fst x) \<le> br_clock s" using Cons due(2) by (metis hd_dropWhile list.discI list.sel(1))
    moreover have "\<forall>i \<in> set rest. priority (fst x) \<le> priority (fst i)"
      using srt unfolding Cons by (auto simp: less_eq_item_key_def item_le_def)
    ultimately show ?thesis by fastforce
  qed simp
  have silent: "mw_run M m (Before_ack r) s = (Inr (), s)" "mw_run M m (After_ack r) s = (Inr (), s)" for m r s
    unfolding M using ack_hooks [of "Before_ack r" r "placed X" m] ack_hooks [of "After_ack r" r "placed X" m]
    by (simp_all add: shipped_mw_def Middleware_def return_def)
  from stub_worker.release_due [OF silent [unfolded M] t(1,2) items un _ _ srt late out(2) _ _ out(4), where fl = fl and post = post
      and fresh = fresh and e = e] early out(1,3)
  show ?thesis unfolding M new by (auto simp: stub_holds_def stub_rejected_def)
qed

text \<open>Of two messages of the delay queue one is due at 1000, the time.\<close>

definition delayed_message :: message where
  "delayed_message = blank_message\<lparr>queue_name := ''default.DQ'', options := [(''eta'', PInt 900)]\<rparr>"

definition delay_thread :: consumer_thread where
  "delay_thread = busy_thread\<lparr>ct_delay_queue := \<lparr>q_items = [(Key 900 1, 0), (Key 2000 0, 1)], q_unfinished = 2\<rparr>\<rparr>"

definition delaying_system :: "(middleware, mw_state) stub_worker" where
  "delaying_system = \<lparr>br_actors = [(''add'', add_actor)], br_queues = [(''default'', pyqueue_empty),
       (''default.DQ'', \<lparr>q_items = [], q_unfinished = 2\<rparr>)],
     br_delay_queues = [''default.DQ''], br_actor_options = {}, br_middleware = default_middleware,
     br_proxies = (\<lambda>_. MessageProxy delayed_message), br_clock = 1000,
     wk_consumers = [(''default.DQ'', delay_thread)], wk_whitelist = [],
     wk_work_queue = pyqueue_empty, wk_time = 0, wk_queue_prefetch = 2, wk_delay_prefetch = 1000,
     \<dots> = stub_broker_ext [(''default'', [])] True [\<lparr>sc_queue = ''default.DQ'', sc_prefetch = 2, sc_slots = 0\<rparr>] 2 monitors_init\<rparr>"

definition fixed_encoder :: encoder where
  "fixed_encoder = \<lparr>enc = \<lambda>_. Inr ''data'', dec = \<lambda>_. Inl (mk_exn ValueError [])\<rparr>"

lemma delaying_system_simps [simp]:
  "map_of (wk_consumers delaying_system) ''default.DQ'' = Some delay_thread" "br_clock delaying_system = 1000"
  "message_at delaying_system r = delayed_message" "\<not> px_failed (proxy_at delaying_system r)"
  "br_queues delaying_system = [(''default'', pyqueue_empty), (''default.DQ'', \<lparr>q_items = [], q_unfinished = 2\<rparr>)]"
  "ct_consumer delay_thread = Some 0" "ct_delay_queue delay_thread = \<lparr>q_items = [(Key 900 1, 0), (Key 2000 0, 1)], q_unfinished = 2\<rparr>"
  by (simp_all add: delaying_system_def delay_thread_def busy_thread_def MessageProxy_def)

lemma delaying_system_ok: "stub_ok (broker_side delaying_system) [(0, Some 0), (0, Some 1)]"
  by (auto simp: stub_inv_def pyqueue_empty_def canonical_def endswith_def suffix_def delaying_system_def broker_side_def
      stub_fields_def broker.defs)

lemma undelayed_message: "q_name ''default.DQ'' = ''default''"
  by code_simp

theorem delayed_released_when_due_witness:
  "let M = shipped_mw (placed (plain_context system_place)) in
   \<exists>s'. handle_delayed_messages 2 1 M (stub_ops fixed_encoder ''id'' M) ''default.DQ'' delaying_system = Some (Inr (), s')
    \<and> stub_ok (broker_side s') [(0, Some 1)] \<and> stub_waiting ''default'' s' = [''data'']"
proof -
  let ?new = "\<lambda>m. m\<lparr>queue_name := q_name (queue_name m), options := filter (\<lambda>(k, v). k \<noteq> ''eta'') (options m)\<rparr>"
  have e: "encode fixed_encoder m = Inr ''data''" for m
    by (simp add: encode_def fixed_encoder_def)
  have n: "queue_name (?new delayed_message) = ''default''" "map_of (options delayed_message) ''eta'' \<noteq> None"
    by (simp_all add: delayed_message_def undelayed_message)
  have a: "stub_accepts fixed_encoder (?new delayed_message) delaying_system"
    by (simp add: stub_accepts_def n(1) e del: message.select_convs message.update_convs)
  have w: "stub_waiting ''default'' delaying_system = []" by (simp add: stub_waiting_def pyqueue_empty_def)
  show ?thesis
    unfolding Let_def
    using delayed_released_when_due [OF refl, where X = "plain_context system_place" and s = delaying_system and q = "''default.DQ''"
        and t = delay_thread and c = 0 and due = "[(Key 900 1, 0)]" and rest = "[(Key 2000 0, 1)]" and e = fixed_encoder
        and fl = "[(0, Some 0), (0, Some 1)]" and fuel = 2 and post = 0 and fresh = "''id''" and new = ?new]
      delaying_system_ok a w n
    by (auto simp: less_eq_item_key_def item_le_def encoded_def e)
qed

section \<open>Stopping\<close>

lemma group_by_queue_append:
  "group_by_queue f (rs @ [r]) d =
     AList.update (f r) ((case map_of (group_by_queue f rs d) (f r) of None \<Rightarrow> [] | Some l \<Rightarrow> l) @ [r]) (group_by_queue f rs d)"
  by (induction rs arbitrary: d) simp_all

text \<open>The queues of some messages, in the order of their first message, and the messages of each.\<close>

definition queues_of :: "(proxy_ref \<Rightarrow> string) \<Rightarrow> proxy_ref list \<Rightarrow> string list" where
  "queues_of f rs = rev (remdups (rev (map f rs)))"

lemma update_map:
  "distinct qs \<Longrightarrow> AList.update q v (map (\<lambda>q. (q, g q)) qs) =
     (if q \<in> set qs then map (\<lambda>p. (p, if p = q then v else g p)) qs else map (\<lambda>q. (q, g q)) qs @ [(q, v)])"
  by (induction qs) auto

lemma group_by_queue_groups: "group_by_queue f rs [] = map (\<lambda>q. (q, filter (\<lambda>r. f r = q) rs)) (queues_of f rs)"
proof (induction rs rule: rev_induct)
  case Nil
  show ?case by (simp add: queues_of_def)
next
  case (snoc r rs)
  have d: "distinct (queues_of f rs)" and s: "set (queues_of f rs) = f ` set rs" by (simp_all add: queues_of_def)
  have m: "map_of (group_by_queue f rs []) (f r) = (if f r \<in> f ` set rs then Some (filter (\<lambda>x. f x = f r) rs) else None)"
    unfolding snoc.IH s [symmetric] by (induction "queues_of f rs") (auto simp: map_of_map_restrict restrict_map_def)
  have n: "f r \<notin> f ` set rs \<Longrightarrow> filter (\<lambda>x. f x = f r) rs = []" by (metis (mono_tags, lifting) filter_False image_eqI)
  have k: "queues_of f (rs @ [r]) = (if f r \<in> f ` set rs then queues_of f rs else queues_of f rs @ [f r])"
    by (auto simp: queues_of_def)
  show ?case
    unfolding group_by_queue_append m k
    unfolding snoc.IH update_map [OF d] s
    using n s by (auto simp: image_iff)
qed

end
