(* ===== verification/Remote_Rate_Backends.thy ===== *)
theory Remote_Rate_Backends
  imports Rate_Limiters
begin

text \<open>
  The rate limiter backends over a server, \<^verbatim>\<open>dramatiq/rate_limits/backends/redis.py\<close> and
  \<^verbatim>\<open>memcached.py\<close>. The clients of the two servers are arguments; what Redis documents of its
  optimistic transactions is a locale. The Redis backend refines the atomic operations whatever other
  clients do meanwhile, and without them it meets the contract of a backend; the Memcached backend
  does not.
\<close>

section \<open>Redis\<close>

text \<open>
  The commands used: \<open>SET NX PX\<close>; \<open>WATCH\<close>, whose result stands for what the connection remembers of
  the watched keys; \<open>GET\<close> and \<open>MGET\<close>, read by \<open>int\<close>; the transaction \<open>MULTI\<close>, \<open>SET PX\<close>, \<open>EXEC\<close>, with
  \<^const>\<open>False\<close> for \<open>redis.WatchError\<close>; \<open>BRPOPLPUSH\<close> with a timeout in seconds; and the transaction
  \<open>RPUSH\<close>, \<open>PEXPIRE\<close>. Other clients may act whenever one of them runs.
\<close>

record ('p, 's) transaction_client =
  tc_set_nx :: "string \<Rightarrow> int \<Rightarrow> int \<Rightarrow> 's \<Rightarrow> bool \<times> 's"
  tc_watch :: "string list \<Rightarrow> 's \<Rightarrow> 'p \<times> 's"
  tc_get :: "string \<Rightarrow> 's \<Rightarrow> int option \<times> 's"
  tc_mget :: "string list \<Rightarrow> 's \<Rightarrow> int option list \<times> 's"
  tc_exec_set :: "'p \<Rightarrow> string \<Rightarrow> int \<Rightarrow> int \<Rightarrow> 's \<Rightarrow> bool \<times> 's"
  tc_brpoplpush :: "string \<Rightarrow> string \<Rightarrow> int \<Rightarrow> 's \<Rightarrow> string option \<times> 's"
  tc_push_expire :: "string \<Rightarrow> string \<Rightarrow> int \<Rightarrow> 's \<Rightarrow> 's"

text \<open>
  The loop of \<open>incr\<close> and \<open>decr\<close>: \<open>new\<close> is the value to store, or \<^const>\<open>None\<close> when the bound forbids
  it. A conflict with another client repeats it; without fuel left the result is \<^const>\<open>None\<close>.
\<close>

fun redis_change ::
  "nat \<Rightarrow> ('p, 's) transaction_client \<Rightarrow> string \<Rightarrow> (int \<Rightarrow> int option) \<Rightarrow> int \<Rightarrow> 's \<Rightarrow> (bool \<times> 's) option" where
  "redis_change 0 C key new ttl s = None"
| "redis_change (Suc fuel) C key new ttl s =
     (case tc_watch C [key] s of (pipe, s) \<Rightarrow>
      case tc_get C key s of (val, s) \<Rightarrow>
        (case new (value_or_0 val) of
           None \<Rightarrow> Some (False, s)
         | Some v \<Rightarrow>
             (case tc_exec_set C pipe key v ttl s of (executed, s) \<Rightarrow>
                if executed then Some (True, s) else redis_change fuel C key new ttl s)))"

definition redis_incr ::
  "nat \<Rightarrow> ('p, 's) transaction_client \<Rightarrow> string \<Rightarrow> int \<Rightarrow> int \<Rightarrow> int \<Rightarrow> 's \<Rightarrow> (bool \<times> 's) option" where
  "redis_incr fuel C key amount maximum ttl =
     redis_change fuel C key (\<lambda>value. if value + amount > maximum then None else Some (value + amount)) ttl"

definition redis_decr ::
  "nat \<Rightarrow> ('p, 's) transaction_client \<Rightarrow> string \<Rightarrow> int \<Rightarrow> int \<Rightarrow> int \<Rightarrow> 's \<Rightarrow> (bool \<times> 's) option" where
  "redis_decr fuel C key amount minimum ttl =
     redis_change fuel C key (\<lambda>value. if value - amount < minimum then None else Some (value - amount)) ttl"

text \<open>\<open>keys\<close> is called twice in each turn; what it returns may depend on the time.\<close>

fun redis_incr_and_sum ::
  "nat \<Rightarrow> ('p, 's) transaction_client \<Rightarrow> string \<Rightarrow> ('s \<Rightarrow> string list) \<Rightarrow> int \<Rightarrow> int \<Rightarrow> int \<Rightarrow> 's \<Rightarrow> (bool \<times> 's) option" where
  "redis_incr_and_sum 0 C key keys amount maximum ttl s = None"
| "redis_incr_and_sum (Suc fuel) C key keys amount maximum ttl s =
     (case tc_watch C (key # keys s) s of (pipe, s) \<Rightarrow>
      case tc_get C key s of (val, s) \<Rightarrow>
        (if value_or_0 val + amount > maximum then Some (False, s)
         else
           (case tc_mget C (keys s) s of (values, s) \<Rightarrow>
              (if amount + sum_list (map value_or_0 values) > maximum then Some (False, s)
               else
                 (case tc_exec_set C pipe key (value_or_0 val + amount) ttl s of (executed, s) \<Rightarrow>
                    if executed then Some (True, s) else redis_incr_and_sum fuel C key keys amount maximum ttl s)))))"

text \<open>\<open>(timeout or 0) // 1000\<close>: no timeout is 0, which makes Redis wait without limit.\<close>

definition redis_wait :: "('p, 's) transaction_client \<Rightarrow> string \<Rightarrow> int option \<Rightarrow> ('s, bool) proc" where
  "redis_wait C key timeout s =
     (if \<not> (timeout = None \<or> 1000 \<le> the timeout) then (Inl (mk_exn AssertionError ''wait timeouts must be >= 1000''), s)
      else case tc_brpoplpush C key key (value_or_0 timeout div 1000) s of (event, s) \<Rightarrow> (Inr (event = Some ''x''), s))"

definition redis_wait_notify :: "('p, 's) transaction_client \<Rightarrow> string \<Rightarrow> int \<Rightarrow> 's \<Rightarrow> 's" where
  "redis_wait_notify C key ttl = tc_push_expire C key ''x'' ttl"

text \<open>
  The backend as the limiters call it, when \<open>fuel\<close> turns are enough for each of its loops; one is if
  nobody else writes to the keys.
\<close>

definition RedisRateBackend :: "nat \<Rightarrow> ('p, 's) transaction_client \<Rightarrow> 's rl_backend" where
  "RedisRateBackend fuel C =
     (let ended = (\<lambda>f s. case f s of None \<Rightarrow> (False, s) | Some r \<Rightarrow> r)
      in \<lparr>rb_add = tc_set_nx C,
          rb_incr = (\<lambda>key amount maximum ttl. ended (redis_incr fuel C key amount maximum ttl)),
          rb_decr = (\<lambda>key amount minimum ttl. ended (redis_decr fuel C key amount minimum ttl)),
          rb_incr_and_sum = (\<lambda>key keys amount maximum ttl.
            ended (redis_incr_and_sum fuel C key (\<lambda>_. keys) amount maximum ttl)),
          rb_wait = redis_wait C, rb_wait_notify = redis_wait_notify C\<rparr>)"

subsection \<open>What Redis promises of a transaction\<close>

text \<open>
  \<open>live s k\<close> is the value under \<open>k\<close>. Right after \<open>WATCH\<close> the transaction is \<open>intact\<close>; it stays so while
  the watched keys keep their values and is \<open>stale\<close> for good once another client has written to one
  of them. \<open>EXEC\<close> of a stale transaction does nothing; otherwise it stores the value in one step.
  \<open>others s t\<close> means that the server gets from \<open>s\<close> to \<open>t\<close> by what the other clients and the clock do, and
  nothing else: that is all that happens in the other commands.
\<close>

locale watching =
  fixes C :: "('p, 's) transaction_client" and live :: "'s \<Rightarrow> string \<Rightarrow> int option"
    and watched :: "'p \<Rightarrow> string set" and intact stale :: "'p \<Rightarrow> 's \<Rightarrow> bool" and others :: "'s \<Rightarrow> 's \<Rightarrow> bool"
  assumes others_trans: "others s t \<Longrightarrow> others t u \<Longrightarrow> others s u"
    and watch: "tc_watch C ks s = (p, s') \<Longrightarrow> watched p = set ks \<and> intact p s' \<and> others s s'"
    and get: "tc_get C k s = (v, s') \<Longrightarrow> v = live s' k \<and> others s s'"
    and mget: "tc_mget C ks s = (vs, s') \<Longrightarrow> vs = map (live s') ks \<and> others s s'"
    and get_watch: "tc_get C k s = (v, s') \<Longrightarrow> intact p s \<Longrightarrow>
        intact p s' \<and> (\<forall>j \<in> watched p. live s' j = live s j) \<or> stale p s'"
    and mget_watch: "tc_mget C ks s = (vs, s') \<Longrightarrow> intact p s \<Longrightarrow>
        intact p s' \<and> (\<forall>j \<in> watched p. live s' j = live s j) \<or> stale p s'"
    and stale_stays: "stale p s \<Longrightarrow> stale p (snd (tc_get C k s)) \<and> stale p (snd (tc_mget C ks s))"
    and exec_stale: "stale p s \<Longrightarrow> \<not> fst (tc_exec_set C p k x ttl s)"
    and exec_fails: "tc_exec_set C p k x ttl s = (False, s') \<Longrightarrow> others s s'"
    and exec: "tc_exec_set C p k x ttl s = (True, s') \<Longrightarrow> intact p s \<Longrightarrow> 0 < ttl \<Longrightarrow>
        \<exists>t. others s t \<and> (\<forall>j \<in> watched p. live t j = live s j) \<and> live s' = (live t)(k \<mapsto> x)"
begin

text \<open>
  However other clients interleave, an operation that ends has done its work in one step, on the state \<open>t\<close> to
  which the others alone had brought the server; it has changed nothing before, and nothing else then.
\<close>

lemma change_atomic:
  "redis_change fuel C key new ttl s = Some (ok, s') \<Longrightarrow> 0 < ttl \<Longrightarrow>
   \<exists>t. others s t \<and> (case new (value_or_0 (live t key)) of
       None \<Rightarrow> \<not> ok \<and> s' = t
     | Some v \<Rightarrow> ok \<and> live s' = (live t)(key \<mapsto> v))"
proof (induction fuel arbitrary: s)
  case (Suc fuel)
  obtain p s1 where 1: "tc_watch C [key] s = (p, s1)" by force
  obtain val s2 where 2: "tc_get C key s1 = (val, s2)" by force
  have val: "val = live s2 key" and s2: "others s s2"
    using get [OF 2] watch [OF 1] others_trans by blast+
  show ?case
  proof (cases "new (value_or_0 val)")
    case None
    with Suc.prems 1 2 val s2 show ?thesis by (intro exI [of _ s2]) simp
  next
    case (Some v)
    obtain executed s3 where 3: "tc_exec_set C p key v ttl s2 = (executed, s3)" by force
    show ?thesis
    proof (cases "executed")
      case True
      have "intact p s2" "watched p = {key}"
        using get_watch [OF 2] watch [OF 1] exec_stale [of p s2 key v ttl] 3 True by auto
      with exec [of p key v ttl s2 s3] 3 True Suc.prems(2) val
      obtain t where "others s2 t" "live t key = val" "live s3 = (live t)(key \<mapsto> v)" by auto
      with Suc.prems 1 2 3 Some True others_trans [OF s2] show ?thesis by (intro exI [of _ t]) simp
    next
      case False
      with Suc.prems 1 2 3 Some have "redis_change fuel C key new ttl s3 = Some (ok, s')" by simp
      moreover have "others s s3" using exec_fails [of p key v ttl s2 s3] 3 False others_trans [OF s2] by simp
      ultimately show ?thesis using Suc.IH [of s3] Suc.prems(2) others_trans by blast
    qed
  qed
qed simp

lemma incr_and_sum_atomic:
  "redis_incr_and_sum fuel C key (\<lambda>_. ks) amount maximum ttl s = Some (ok, s') \<Longrightarrow> 0 < ttl \<Longrightarrow>
   \<exists>t. others s t \<and> (if ok then value_or_0 (live t key) + amount \<le> maximum
          \<and> amount + (\<Sum>k\<leftarrow>ks. value_or_0 (live t k)) \<le> maximum
          \<and> live s' = (live t)(key \<mapsto> value_or_0 (live t key) + amount)
     else (maximum < value_or_0 (live t key) + amount \<or> maximum < amount + (\<Sum>k\<leftarrow>ks. value_or_0 (live t k)))
          \<and> s' = t)"
proof (induction fuel arbitrary: s)
  case (Suc fuel)
  obtain p s1 where 1: "tc_watch C (key # ks) s = (p, s1)" by force
  obtain val s2 where 2: "tc_get C key s1 = (val, s2)" by force
  obtain vs s3 where 3: "tc_mget C ks s2 = (vs, s3)" by force
  let ?v = "value_or_0 val + amount"
  obtain executed s4 where 4: "tc_exec_set C p key ?v ttl s3 = (executed, s4)" by force
  have val: "val = live s2 key" and vs: "vs = map (live s3) ks" and s2: "others s s2" and s3: "others s s3"
    using get [OF 2] mget [OF 3] watch [OF 1] others_trans by blast+
  have sum: "sum_list (map value_or_0 vs) = (\<Sum>k\<leftarrow>ks. value_or_0 (live s3 k))"
    unfolding vs by (simp add: comp_def)
  consider (full) "?v > maximum" | (sum_full) "?v \<le> maximum" "amount + sum_list (map value_or_0 vs) > maximum"
    | (executed) "?v \<le> maximum" "amount + sum_list (map value_or_0 vs) \<le> maximum" "executed"
    | (again) "?v \<le> maximum" "amount + sum_list (map value_or_0 vs) \<le> maximum" "\<not> executed" by linarith
  then show ?case
  proof cases
    case full
    with Suc.prems 1 2 val s2 show ?thesis by (intro exI [of _ s2]) simp
  next
    case sum_full
    with Suc.prems 1 2 3 sum s3 show ?thesis by (intro exI [of _ s3]) simp
  next
    case executed
    have w: "watched p = insert key (set ks)" "intact p s1" using watch [OF 1] by simp_all
    have "\<not> stale p s3" using exec_stale [of p s3 key ?v ttl] 4 executed(3) by auto
    moreover then have "\<not> stale p s2" using stale_stays [of p s2 key ks] 3 by auto
    ultimately have i: "intact p s2" using get_watch [OF 2 w(2)] by simp
    with mget_watch [OF 3] \<open>\<not> stale p s3\<close>
    have same: "intact p s3" "\<forall>j \<in> watched p. live s3 j = live s2 j" by auto
    from exec [of p key ?v ttl s3 s4] same(1) 4 executed(3) Suc.prems(2) obtain t where
      b: "others s3 t" "\<forall>j \<in> watched p. live t j = live s3 j" "live s4 = (live t)(key \<mapsto> ?v)" by auto
    then have "live t key = val" using w same val by simp
    moreover have "(\<Sum>k\<leftarrow>ks. value_or_0 (live s3 k)) = (\<Sum>k\<leftarrow>ks. value_or_0 (live t k))"
      using b(2) w by (auto intro: arg_cong [of _ _ sum_list])
    ultimately show ?thesis using Suc.prems 1 2 3 4 executed sum b others_trans [OF s3 b(1)] by (intro exI [of _ t]) simp
  next
    case again
    with Suc.prems 1 2 3 4 have "redis_incr_and_sum fuel C key (\<lambda>_. ks) amount maximum ttl s4 = Some (ok, s')"
      by simp
    moreover have "others s s4" using exec_fails [of p key ?v ttl s3 s4] 4 again(3) others_trans [OF s3] by simp
    ultimately show ?thesis using Suc.IH [of s4] Suc.prems(2) others_trans by blast
  qed
qed simp

end

subsection \<open>Without other clients\<close>

text \<open>
  A server nobody else talks to: reading changes nothing, and every transaction succeeds. There the
  Redis backend meets the contract of a backend with a single turn of its loops.
\<close>

locale quiet_server = watching +
  assumes set_nx: "0 < ttl \<Longrightarrow> live s k = None \<Longrightarrow> tc_set_nx C k x ttl s = (ok, s') \<Longrightarrow> ok \<and> live s' = (live s)(k \<mapsto> x)"
    and set_xx: "live s k \<noteq> None \<Longrightarrow> tc_set_nx C k x ttl s = (False, s)"
    and reads: "snd (tc_watch C ks s) = s" "snd (tc_get C k s) = s" "snd (tc_mget C ks s) = s"
    and exec_now: "intact p s \<Longrightarrow> 0 < ttl \<Longrightarrow> tc_exec_set C p k x ttl s = (ok, s') \<Longrightarrow> ok \<and> live s' = (live s)(k \<mapsto> x)"
    and push: "live (tc_push_expire C k e ttl s) = live s"
begin

lemma read_now: "\<exists>p. tc_watch C [key] s = (p, s) \<and> intact p s" "tc_get C key s = (live s key, s)"
proof -
  show "\<exists>p. tc_watch C [key] s = (p, s) \<and> intact p s"
    using reads(1) [of "[key]" s] watch [of "[key]" s] by (cases "tc_watch C [key] s") auto
  show "tc_get C key s = (live s key, s)"
    using reads(2) [of key s] get [of key s] by (cases "tc_get C key s") auto
qed

lemma change_refused:
  "new (value_or_0 (live s key)) = None \<Longrightarrow> redis_change (Suc fuel) C key new ttl s = Some (False, s)"
  using read_now [of key s] by auto

lemma change_made:
  assumes "0 < ttl" and "new (value_or_0 (live s key)) = Some v"
  shows "\<exists>s'. redis_change (Suc fuel) C key new ttl s = Some (True, s') \<and> live s' = (live s)(key \<mapsto> v)"
proof -
  obtain p where p: "tc_watch C [key] s = (p, s)" "intact p s" using read_now(1) by blast
  obtain ok s' where 3: "tc_exec_set C p key v ttl s = (ok, s')" by force
  with exec_now [OF p(2) assms(1) 3] p read_now(2) [of key s] assms(2) show ?thesis by simp
qed

end

sublocale quiet_server \<subseteq> rate_backend "RedisRateBackend (Suc fuel) C" live for fuel
proof unfold_locales
  fix ttl :: int and k s v ok s'
  assume "0 < ttl" "live s k = None" "rb_add (RedisRateBackend (Suc fuel) C) k v ttl s = (ok, s')"
  then show "ok \<and> live s' = (live s)(k \<mapsto> v)"
    using set_nx [of ttl s k v ok s'] by (simp add: RedisRateBackend_def Let_def)
next
  fix s k w v ttl
  assume "live s k = Some w"
  then show "rb_add (RedisRateBackend (Suc fuel) C) k v ttl s = (False, s)"
    using set_xx by (simp add: RedisRateBackend_def Let_def)
next
  fix maximum amount ttl :: int and s k
  let ?new = "\<lambda>value. if value + amount > maximum then None else Some (value + amount)"
  show "rb_incr (RedisRateBackend (Suc fuel) C) k amount maximum ttl s = (False, s)"
    if "maximum < value_or_0 (live s k) + amount"
    using that change_refused [where new = ?new and s = s and key = k and ttl = ttl]
    by (simp add: RedisRateBackend_def redis_incr_def Let_def del: redis_change.simps)
  show "ok \<and> live s' = (live s)(k \<mapsto> value_or_0 (live s k) + amount)"
    if "0 < ttl" "value_or_0 (live s k) + amount \<le> maximum"
      "rb_incr (RedisRateBackend (Suc fuel) C) k amount maximum ttl s = (ok, s')" for ok s'
    using that change_made [where new = ?new and s = s and key = k and ttl = ttl and fuel = fuel
        and v = "value_or_0 (live s k) + amount"]
    by (auto simp: RedisRateBackend_def redis_incr_def Let_def simp del: redis_change.simps)
next
  fix minimum amount ttl :: int and s k
  let ?new = "\<lambda>value. if value - amount < minimum then None else Some (value - amount)"
  show "rb_decr (RedisRateBackend (Suc fuel) C) k amount minimum ttl s = (False, s)"
    if "value_or_0 (live s k) - amount < minimum"
    using that change_refused [where new = ?new and s = s and key = k and ttl = ttl]
    by (simp add: RedisRateBackend_def redis_decr_def Let_def del: redis_change.simps)
  show "ok \<and> live s' = (live s)(k \<mapsto> value_or_0 (live s k) - amount)"
    if "0 < ttl" "minimum \<le> value_or_0 (live s k) - amount"
      "rb_decr (RedisRateBackend (Suc fuel) C) k amount minimum ttl s = (ok, s')" for ok s'
    using that change_made [where new = ?new and s = s and key = k and ttl = ttl and fuel = fuel
        and v = "value_or_0 (live s k) - amount"]
    by (auto simp: RedisRateBackend_def redis_decr_def Let_def simp del: redis_change.simps)
qed (simp add: RedisRateBackend_def redis_wait_notify_def push Let_def)

subsection \<open>A server\<close>

text \<open>
  A server that keeps these promises, for the examples: values with their expiration, a version of
  each key that every write bumps, and a list of what the other clients and the clock do before each
  of the coming commands. \<open>WATCH\<close> remembers the versions.
\<close>

datatype act = Write string int int | Elapse nat

record store =
  st_db :: "(int \<times> int) dict"
  st_versions :: "nat dict"
  st_clock :: nat
  st_coming :: "act list list"

definition store_live :: "store \<Rightarrow> string \<Rightarrow> int option" where
  "store_live s k =
     Option.bind (map_of (st_db s) k) (\<lambda>(v, e). if int (st_clock s) < e then Some v else None)"

definition version :: "store \<Rightarrow> string \<Rightarrow> nat" where
  "version s k = (case map_of (st_versions s) k of None \<Rightarrow> 0 | Some n \<Rightarrow> n)"

definition store_write :: "string \<Rightarrow> int \<Rightarrow> int \<Rightarrow> store \<Rightarrow> store" where
  "store_write k v ttl s = s\<lparr>st_db := AList.update k (v, int (st_clock s) + ttl) (st_db s),
     st_versions := AList.update k (Suc (version s k)) (st_versions s)\<rparr>"

text \<open>Keys that expire count as written.\<close>

definition elapse :: "nat \<Rightarrow> store \<Rightarrow> store" where
  "elapse n s =
     (let s' = s\<lparr>st_clock := st_clock s + n\<rparr>
      in s'\<lparr>st_versions := fold (\<lambda>k. AList.update k (Suc (version s k)))
           (filter (\<lambda>k. store_live s' k \<noteq> store_live s k) (map fst (st_db s))) (st_versions s)\<rparr>)"

primrec perform :: "act \<Rightarrow> store \<Rightarrow> store" where
  "perform (Write k v ttl) s = store_write k v ttl s"
| "perform (Elapse n) s = elapse n s"

definition meanwhile :: "store \<Rightarrow> store" where
  "meanwhile s = (case st_coming s of [] \<Rightarrow> s | acts # coming \<Rightarrow> fold perform acts (s\<lparr>st_coming := coming\<rparr>))"

definition unwritten :: "(string \<times> nat) list \<Rightarrow> store \<Rightarrow> bool" where
  "unwritten p s = (\<forall>(k, n) \<in> set p. version s k = n)"

definition overwritten :: "(string \<times> nat) list \<Rightarrow> store \<Rightarrow> bool" where
  "overwritten p s = (\<exists>(k, n) \<in> set p. n < version s k)"

definition store_client :: "(store \<Rightarrow> store) \<Rightarrow> ((string \<times> nat) list, store) transaction_client" where
  "store_client M =
     \<lparr>tc_set_nx = (\<lambda>k v ttl s. let s = M s in if store_live s k = None then (True, store_write k v ttl s) else (False, s)),
      tc_watch = (\<lambda>ks s. let s = M s in (map (\<lambda>k. (k, version s k)) ks, s)),
      tc_get = (\<lambda>k s. let s = M s in (store_live s k, s)),
      tc_mget = (\<lambda>ks s. let s = M s in (map (store_live s) ks, s)),
      tc_exec_set = (\<lambda>p k v ttl s. let s = M s in if unwritten p s then (True, store_write k v ttl s) else (False, s)),
      tc_brpoplpush = (\<lambda>k k' n s. (None, M s)),
      tc_push_expire = (\<lambda>k x ttl s. M s)\<rparr>"

text \<open>Versions only grow, and a key whose version stands still keeps its value.\<close>

definition tame :: "(store \<Rightarrow> store) \<Rightarrow> bool" where
  "tame M = (\<forall>s k. version s k \<le> version (M s) k \<and> (version (M s) k = version s k \<longrightarrow> store_live (M s) k = store_live s k))"

lemma version_update [simp]:
  "version (s\<lparr>st_versions := AList.update k n vs\<rparr>) j = (if j = k then n else version (s\<lparr>st_versions := vs\<rparr>) j)"
  "version (s\<lparr>st_db := d\<rparr>) j = version s j" "version (s\<lparr>st_clock := c\<rparr>) j = version s j"
  "version (s\<lparr>st_coming := m\<rparr>) j = version s j"
  by (simp_all add: version_def)

lemma live_frame [simp]:
  "store_live (s\<lparr>st_versions := vs\<rparr>) = store_live s" "store_live (s\<lparr>st_coming := m\<rparr>) = store_live s"
  by (simp_all add: store_live_def fun_eq_iff)

lemma store_write_live [simp]: "0 < ttl \<Longrightarrow> store_live (store_write k v ttl s) = (store_live s)(k \<mapsto> v)"
  by (auto simp: store_write_def store_live_def fun_eq_iff)

lemma version_same: "version (t\<lparr>st_versions := st_versions s\<rparr>) k = version s k"
  by (simp add: version_def)

lemma version_bumped:
  "version (t\<lparr>st_versions := fold (\<lambda>k. AList.update k (Suc (f k))) ks vs\<rparr>) j =
     (if j \<in> set ks then Suc (f j) else version (t\<lparr>st_versions := vs\<rparr>) j)"
  by (induction ks arbitrary: vs) auto

lemma tameD:
  assumes "tame M"
  shows "version s k \<le> version (M s) k" "version (M s) k = version s k \<Longrightarrow> store_live (M s) k = store_live s k"
  using assms by (simp_all add: tame_def)

lemma tame_comp:
  assumes "tame f" and "tame g"
  shows "tame (g \<circ> f)"
  unfolding tame_def
proof (intro allI conjI impI)
  fix s k
  note steps = tameD [OF assms(1), of s k] tameD [OF assms(2), of "f s" k]
  then show "version s k \<le> version ((g \<circ> f) s) k" by simp
  assume "version ((g \<circ> f) s) k = version s k"
  with steps(1,3) have "version (f s) k = version s k" "version (g (f s)) k = version (f s) k" by simp_all
  with steps(2,4) show "store_live ((g \<circ> f) s) k = store_live s k" by simp
qed

lemma tame_perform: "tame (perform a)"
proof (cases a)
  case (Write k v ttl)
  then show ?thesis
    by (auto simp: tame_def store_write_def) (simp_all add: store_live_def version_def)
next
  case (Elapse n)
  have "store_live (s\<lparr>st_clock := st_clock s + n\<rparr>) k = store_live s k"
    if "k \<notin> set (map fst (st_db s))" for s k
    using that by (simp add: store_live_def map_of_eq_None_iff [THEN iffD2])
  then have "version s k \<le> version (elapse n s) k \<and>
      (version (elapse n s) k = version s k \<longrightarrow> store_live (elapse n s) k = store_live s k)" for s k
    unfolding elapse_def Let_def version_bumped version_same by auto
  with Elapse show ?thesis by (simp add: tame_def)
qed

lemma tame_meanwhile: "tame meanwhile"
proof -
  have acts: "tame (fold perform acts)" for acts
  proof (induction acts)
    case (Cons a acts)
    with tame_comp [OF tame_perform [of a]] show ?case by (simp add: comp_def)
  qed (simp add: tame_def)
  have "version s k \<le> version (meanwhile s) k \<and>
      (version (meanwhile s) k = version s k \<longrightarrow> store_live (meanwhile s) k = store_live s k)" for s k
  proof (cases "st_coming s")
    case (Cons a coming)
    then show ?thesis using tameD [OF acts [of a], of "s\<lparr>st_coming := coming\<rparr>" k] by (simp add: meanwhile_def)
  qed (simp add: meanwhile_def)
  then show ?thesis by (simp add: tame_def)
qed

text \<open>What happens in the meantime, several times over.\<close>

definition goes_on :: "('s \<Rightarrow> 's) \<Rightarrow> 's \<Rightarrow> 's \<Rightarrow> bool" where
  "goes_on M s t = (\<exists>n. t = (M ^^ n) s)"

lemma goes_on_once: "goes_on M s (M s)"
  unfolding goes_on_def by (rule exI [of _ 1]) simp

lemma goes_on_trans: "goes_on M s t \<Longrightarrow> goes_on M t u \<Longrightarrow> goes_on M s u"
  unfolding goes_on_def by (metis comp_apply funpow_add)

lemma watching_store:
  assumes "tame M"
  shows "watching (store_client M) store_live (\<lambda>p. set (map fst p)) unwritten overwritten (goes_on M)"
proof unfold_locales
  show "goes_on M s u" if "goes_on M s t" "goes_on M t u" for s t u using goes_on_trans [OF that] .
  fix p :: "(string \<times> nat) list" and s
  have step: "unwritten p (M s) \<and> (\<forall>j \<in> set (map fst p). store_live (M s) j = store_live s j) \<or> overwritten p (M s)"
    if "unwritten p s"
  proof (cases "unwritten p (M s)")
    case True
    then have "store_live (M s) j = store_live s j" if "j \<in> set (map fst p)" for j
      using that \<open>unwritten p s\<close> tameD(2) [OF assms, of s j] by (fastforce simp: unwritten_def)
    with True show ?thesis by blast
  next
    case False
    with that show ?thesis
      using tameD(1) [OF assms, of s] by (fastforce simp: unwritten_def overwritten_def order.order_iff_strict)
  qed
  show "unwritten p s' \<and> (\<forall>j \<in> set (map fst p). store_live s' j = store_live s j) \<or> overwritten p s'"
    if "tc_get (store_client M) k s = (v, s')" "unwritten p s" for k v s'
    using step that by (auto simp: store_client_def Let_def)
  show "unwritten p s' \<and> (\<forall>j \<in> set (map fst p). store_live s' j = store_live s j) \<or> overwritten p s'"
    if "tc_mget (store_client M) ks s = (vs, s')" "unwritten p s" for ks vs s'
    using step that by (auto simp: store_client_def Let_def)
  have stale: "overwritten p (M s)" if "overwritten p s"
    using that tameD(1) [OF assms, of s] by (fastforce simp: overwritten_def intro: less_le_trans)
  then show "overwritten p (snd (tc_get (store_client M) k s)) \<and> overwritten p (snd (tc_mget (store_client M) ks s))"
    if "overwritten p s" for k ks
    using that by (simp add: store_client_def Let_def)
  have "\<not> unwritten p (M s)" if "overwritten p s"
    using stale [OF that] by (fastforce simp: unwritten_def overwritten_def)
  then show "\<not> fst (tc_exec_set (store_client M) p k x ttl s)" if "overwritten p s" for k x ttl
    using that by (simp add: store_client_def Let_def)
  show "\<exists>t. goes_on M s t \<and> (\<forall>j \<in> set (map fst p). store_live t j = store_live s j) \<and> store_live s' = (store_live t)(k \<mapsto> x)"
    if "tc_exec_set (store_client M) p k x ttl s = (True, s')" "unwritten p s" "0 < ttl" for k x ttl s'
  proof -
    from that(1) have u: "unwritten p (M s)" and s': "s' = store_write k x ttl (M s)"
      by (auto simp: store_client_def Let_def split: if_splits)
    have "store_live (M s) j = store_live s j" if "j \<in> set (map fst p)" for j
      using that u \<open>unwritten p s\<close> tameD(2) [OF assms, of s j] by (fastforce simp: unwritten_def)
    with s' that(3) show ?thesis by (intro exI [of _ "M s"]) (simp add: goes_on_once)
  qed
qed (auto simp: store_client_def Let_def unwritten_def image_image goes_on_once split: if_splits)

interpretation shared_redis: watching "store_client meanwhile" store_live "\<lambda>p. set (map fst p)" unwritten overwritten "goes_on meanwhile"
  by (rule watching_store [OF tame_meanwhile])

interpretation quiet_redis: quiet_server "store_client id" store_live "\<lambda>p. set (map fst p)" unwritten overwritten "goes_on id"
proof (rule quiet_server.intro)
  show "watching (store_client id) store_live (\<lambda>p. set (map fst p)) unwritten overwritten (goes_on id)"
    by (rule watching_store) (simp add: tame_def)
  show "quiet_server_axioms (store_client id) store_live unwritten"
    by unfold_locales (auto simp: store_client_def Let_def)
qed

text \<open>
  C18. The optimistic transactions of the Redis backend are atomic. Whatever other clients do between
  their commands (\<open>others\<close>) and however often they are repeated, an \<open>incr\<close> that ends does its work in one
  step: the others alone bring the server from the state at the call to a state \<open>t\<close>, and if the value
  stored in \<open>t\<close> plus the amount is within the maximum then \<open>incr\<close> stores just this sum, changes no other key and
  says that it did; otherwise it refuses and leaves the server as it is in \<open>t\<close>.
\<close>

theorem redis_incr_atomic:
  assumes "watching C live watched intact stale others"
    and "redis_incr fuel C key amount maximum ttl s = Some (ok, s')" and "0 < ttl"
  shows "\<exists>t. others s t
    \<and> ok = (value_or_0 (live t key) + amount \<le> maximum)
    \<and> (if ok then live s' = (live t)(key \<mapsto> value_or_0 (live t key) + amount) else s' = t)"
proof -
  from watching.change_atomic [OF assms(1) assms(2) [unfolded redis_incr_def] assms(3)] obtain t where
    t: "others s t" "case if value_or_0 (live t key) + amount > maximum then None else Some (value_or_0 (live t key) + amount) of
       None \<Rightarrow> \<not> ok \<and> s' = t | Some v \<Rightarrow> ok \<and> live s' = (live t)(key \<mapsto> v)" by blast
  then show ?thesis by (intro exI [of _ t]) (auto split: if_splits)
qed

text \<open>Another client writes between \<open>GET\<close> and \<open>EXEC\<close>; the second turn succeeds.\<close>

definition busy_server :: store where
  "busy_server = \<lparr>st_db = [], st_versions = [], st_clock = 0, st_coming = [[], [], [Write ''jobs'' 4 1000]]\<rparr>"

theorem redis_incr_atomic_witness:
  "\<exists>s' t. redis_incr 2 (store_client meanwhile) ''jobs'' 1 10 1000 busy_server = Some (True, s')
     \<and> goes_on meanwhile busy_server t \<and> store_live t ''jobs'' = Some 4 \<and> store_live busy_server ''jobs'' = None
     \<and> store_live s' = (store_live t)(''jobs'' \<mapsto> 5)
     \<and> redis_incr 1 (store_client meanwhile) ''jobs'' 1 10 1000 busy_server = None"
proof -
  let ?C = "store_client meanwhile"
  obtain s' where s': "redis_incr 2 ?C ''jobs'' 1 10 1000 busy_server = Some (True, s')" "store_live s' ''jobs'' = Some 5"
    by (simp add: redis_incr_def numeral_2_eq_2 store_client_def busy_server_def meanwhile_def Let_def
        store_live_def store_write_def unwritten_def version_def)
  obtain t where t: "goes_on meanwhile busy_server t" "store_live s' = (store_live t)(''jobs'' \<mapsto> value_or_0 (store_live t ''jobs'') + 1)"
    using redis_incr_atomic [OF shared_redis.watching_axioms s'(1)] by auto
  with s'(2) have "value_or_0 (store_live t ''jobs'') = 4" by simp
  then have "store_live t ''jobs'' = Some 4" by (cases "store_live t ''jobs''") simp_all
  moreover have "redis_incr 1 ?C ''jobs'' 1 10 1000 busy_server = None"
    by (simp add: redis_incr_def store_client_def busy_server_def meanwhile_def Let_def
        store_live_def store_write_def unwritten_def version_def)
  moreover have "store_live busy_server ''jobs'' = None" by (simp add: store_live_def busy_server_def)
  ultimately show ?thesis using s'(1) t by auto
qed

lemma meanwhile_coming [simp]: "st_coming (meanwhile s) = tl (st_coming s)"
proof -
  have "st_coming (fold perform acts s) = st_coming s" for acts s
  proof (induction acts arbitrary: s)
    case (Cons a acts)
    have "st_coming (perform a s) = st_coming s"
      by (cases a) (simp_all add: store_write_def elapse_def Let_def)
    with Cons show ?case by simp
  qed simp
  then show ?thesis by (simp add: meanwhile_def split: list.split)
qed

text \<open>
  The transactions end: each repetition is due to a write of another client, so once the other
  clients are done an operation finishes in one more turn.
\<close>

theorem redis_incr_ends:
  assumes "length (st_coming s) < fuel"
  shows "redis_incr fuel (store_client meanwhile) key amount maximum ttl s \<noteq> None"
proof -
  have "redis_change fuel (store_client meanwhile) key new ttl s \<noteq> None" for new
    using assms
  proof (induction fuel arbitrary: s)
    case (Suc fuel)
    let ?s = "meanwhile (meanwhile (meanwhile s))"
    show ?case
    proof (cases "st_coming s")
      case Nil
      then show ?thesis
        by (auto simp: store_client_def Let_def meanwhile_def unwritten_def split: option.split)
    next
      case (Cons acts coming)
      with Suc.prems have "length (st_coming ?s) < fuel" by simp
      from Suc.IH [OF this] show ?thesis
        by (auto simp: store_client_def Let_def split: option.split)
    qed
  qed simp
  then show ?thesis by (simp add: redis_incr_def)
qed

theorem redis_incr_ends_witness:
  "redis_incr 4 (store_client meanwhile) ''jobs'' 1 10 1000 busy_server \<noteq> None"
  by (rule redis_incr_ends) (simp add: busy_server_def)

text \<open>At the turn of a second, for an example.\<close>

definition turning_second :: store where
  "turning_second = \<lparr>st_db = [], st_versions = [], st_clock = 10999,
     st_coming = [[], [], [Elapse 1], [Write ''k@11'' 1 2000]]\<rparr>"

definition two_second_keys :: "store \<Rightarrow> string list" where
  "two_second_keys s = window_keys ''k'' 2 (int (st_clock s) div 1000)"

lemma two_second_keys:
  "int (st_clock s) div 1000 = 10 \<Longrightarrow> two_second_keys s = [''k@10'', ''k@9'']"
  "int (st_clock s) div 1000 = 11 \<Longrightarrow> two_second_keys s = [''k@11'', ''k@10'']"
proof -
  have keys: "[0..<2] = [0, 1::nat]" by (simp add: upt_rec)
  have digits: "int_str 9 = ''9''" "int_str 10 = ''10''" "int_str 11 = ''11''" by code_simp+
  with digits keys show "int (st_clock s) div 1000 = 10 \<Longrightarrow> two_second_keys s = [''k@10'', ''k@9'']"
    "int (st_clock s) div 1000 = 11 \<Longrightarrow> two_second_keys s = [''k@11'', ''k@10'']"
    by (simp_all add: two_second_keys_def window_keys_def numbered_key_def)
qed

text \<open>
  What a window limiter promises does not hold over Redis: the transaction watches the keys of
  the window as they were at its start but sums over those of the window when it fetches them. When
  the clock moves to the next second in between, the key of the new second is not watched, and a
  client that stores it meanwhile goes unnoticed: both are granted, and the window holds more than the
  limit.
\<close>

theorem redis_window_exceeded:
  "case redis_incr_and_sum 1 (store_client meanwhile) (hd (two_second_keys turning_second)) two_second_keys 1 1 2000
     turning_second of
     Some (ok, s') \<Rightarrow> ok \<and> (\<Sum>k\<leftarrow>two_second_keys s'. value_or_0 (store_live s' k)) = 2
   | None \<Rightarrow> False"
  by (simp add: two_second_keys turning_second_def store_client_def meanwhile_def
      Let_def store_live_def store_write_def unwritten_def version_def elapse_def)

section \<open>Memcached\<close>

text \<open>
  The operations of \<open>pylibmc\<close>: \<open>add\<close> with a time in seconds, \<open>incr\<close> and \<open>decr\<close> with the new value (the
  limiters use them on keys they have added, so their \<open>NotFound\<close> is left out), \<open>gets\<close> with the number
  for \<open>cas\<close> (\<^const>\<open>None\<close> if there is no such key), \<open>get_multi\<close>, and \<open>cas\<close> (\<^const>\<open>False\<close> when the value has
  changed, or is gone).
\<close>

record 's memcached_client =
  mc_add :: "string \<Rightarrow> int \<Rightarrow> int \<Rightarrow> 's \<Rightarrow> bool \<times> 's"
  mc_incr :: "string \<Rightarrow> int \<Rightarrow> 's \<Rightarrow> int \<times> 's"
  mc_decr :: "string \<Rightarrow> int \<Rightarrow> 's \<Rightarrow> int \<times> 's"
  mc_gets :: "string \<Rightarrow> 's \<Rightarrow> (int \<times> nat) option \<times> 's"
  mc_get_multi :: "string list \<Rightarrow> 's \<Rightarrow> int dict \<times> 's"
  mc_cas :: "string \<Rightarrow> int \<Rightarrow> nat \<Rightarrow> int \<Rightarrow> 's \<Rightarrow> bool \<times> 's"

definition memcached_incr :: "'s memcached_client \<Rightarrow> string \<Rightarrow> int \<Rightarrow> int \<Rightarrow> int \<Rightarrow> 's \<Rightarrow> bool \<times> 's" where
  "memcached_incr C key amount maximum ttl s = (case mc_incr C key amount s of (v, s) \<Rightarrow> (v \<le> maximum, s))"

definition memcached_decr :: "'s memcached_client \<Rightarrow> string \<Rightarrow> int \<Rightarrow> int \<Rightarrow> int \<Rightarrow> 's \<Rightarrow> bool \<times> 's" where
  "memcached_decr C key amount minimum ttl s = (case mc_decr C key amount s of (v, s) \<Rightarrow> (v \<ge> minimum, s))"

fun memcached_sum_loop ::
  "nat \<Rightarrow> 's memcached_client \<Rightarrow> string \<Rightarrow> ('s \<Rightarrow> string list) \<Rightarrow> int \<Rightarrow> int \<Rightarrow> int \<Rightarrow> 's \<Rightarrow> (bool \<times> 's) option" where
  "memcached_sum_loop 0 C key keys amount maximum ttl s = None"
| "memcached_sum_loop (Suc fuel) C key keys amount maximum ttl s =
     (case mc_gets C key s of
        (None, s) \<Rightarrow> Some (False, s)
      | (Some (v, cid), s) \<Rightarrow>
          (if v + amount > maximum then Some (False, s)
           else
             (case mc_get_multi C (keys s) s of (mapping, s) \<Rightarrow>
                (if amount + sum_list (map snd mapping) > maximum then Some (False, s)
                 else
                   (case mc_cas C key (v + amount) cid ttl s of (swapped, s) \<Rightarrow>
                      if swapped then Some (True, s)
                      else memcached_sum_loop fuel C key keys amount maximum ttl s)))))"

definition memcached_incr_and_sum ::
  "nat \<Rightarrow> 's memcached_client \<Rightarrow> string \<Rightarrow> ('s \<Rightarrow> string list) \<Rightarrow> int \<Rightarrow> int \<Rightarrow> int \<Rightarrow> 's \<Rightarrow> (bool \<times> 's) option" where
  "memcached_incr_and_sum fuel C key keys amount maximum ttl s =
     (let ttl = ttl div 1000
      in memcached_sum_loop fuel C key keys amount maximum ttl (snd (mc_add C key 0 ttl s)))"

text \<open>\<open>wait\<close> is that of the base class.\<close>

definition MemcachedRateBackend :: "nat \<Rightarrow> 's memcached_client \<Rightarrow> 's rl_backend" where
  "MemcachedRateBackend fuel C =
     \<lparr>rb_add = (\<lambda>key v ttl. mc_add C key v (ttl div 1000)),
      rb_incr = memcached_incr C, rb_decr = memcached_decr C,
      rb_incr_and_sum = (\<lambda>key keys amount maximum ttl s.
        case memcached_incr_and_sum fuel C key (\<lambda>_. keys) amount maximum ttl s of None \<Rightarrow> (False, s) | Some r \<Rightarrow> r),
      rb_wait = (\<lambda>key timeout. raise (mk_exn NotImplementedError ''wait'')),
      rb_wait_notify = (\<lambda>key ttl s. s)\<rparr>"

text \<open>Several clients try in turn; several release.\<close>

primrec attempts :: "nat \<Rightarrow> 's rl_backend \<Rightarrow> string \<Rightarrow> int \<Rightarrow> int \<Rightarrow> 's \<Rightarrow> bool list \<times> 's" where
  "attempts 0 B key limit ttl s = ([], s)"
| "attempts (Suc n) B key limit ttl s =
     (case concurrent_acquire B key limit ttl s of (ok, s) \<Rightarrow>
      case attempts n B key limit ttl s of (oks, s) \<Rightarrow> (ok # oks, s))"

primrec releases :: "nat \<Rightarrow> 's rl_backend \<Rightarrow> string \<Rightarrow> int \<Rightarrow> 's \<Rightarrow> 's" where
  "releases 0 B key ttl s = s"
| "releases (Suc n) B key ttl s = releases n B key ttl (snd (concurrent_release B key ttl s))"

text \<open>
  The Memcached backend leaks slots of a concurrent limiter: its \<open>incr\<close> adds even when it refuses.
  If all slots are taken and further clients try, then even after every holder has released its slot
  nobody gets in any more, for as long as the refused attempts outnumber the free slots.
\<close>

theorem memcached_limiter_leaks:
  assumes add: "\<And>s v t. count s \<noteq> None \<Longrightarrow> mc_add C key v t s = (False, s)"
    and incr: "\<And>s v. count s = Some v \<Longrightarrow> \<exists>s'. mc_incr C key 1 s = (v + 1, s') \<and> count s' = Some (v + 1)"
    and decr: "\<And>s v. count s = Some v \<Longrightarrow> \<exists>s'. mc_decr C key 1 s = (max 0 (v - 1), s') \<and> count s' = Some (max 0 (v - 1))"
    and full: "count s = Some (int limit)"
    and late: "attempts n (MemcachedRateBackend fuel C) key (int limit) ttl s = (oks, s1)" and many: "limit \<le> n"
  shows "oks = replicate n False
    \<and> \<not> fst (concurrent_acquire (MemcachedRateBackend fuel C) key (int limit) ttl
          (releases limit (MemcachedRateBackend fuel C) key ttl s1))"
proof -
  let ?B = "MemcachedRateBackend fuel C"
  have acquire: "\<exists>s'. concurrent_acquire ?B key m ttl s = (v + 1 \<le> m, s') \<and> count s' = Some (v + 1)"
    if "count s = Some v" for s v m
    using add [of s] incr [OF that] that
    by (auto simp: concurrent_acquire_def MemcachedRateBackend_def memcached_incr_def)
  have release: "count (snd (concurrent_release ?B key ttl s)) = Some (max 0 (v - 1))" if "count s = Some v" for s v
    using decr [OF that] by (auto simp: concurrent_release_def MemcachedRateBackend_def memcached_decr_def)
  have tries: "oks = replicate n False \<and> count s1 = Some (int limit + int k + int n)"
    if "count s = Some (int limit + int k)" "attempts n ?B key (int limit) ttl s = (oks, s1)" for n k s oks s1
    using that
  proof (induction n arbitrary: s k oks)
    case (Suc n)
    obtain s' where s': "concurrent_acquire ?B key (int limit) ttl s = (False, s')" "count s' = Some (int limit + int (Suc k))"
      using acquire [OF Suc.prems(1), of "int limit"] by (auto simp: ac_simps)
    with Suc.prems(2) obtain oks' where "attempts n ?B key (int limit) ttl s' = (oks', s1)" "oks = False # oks'"
      by (auto split: prod.splits)
    with Suc.IH [OF s'(2) this(1)] show ?case by simp
  qed simp
  have freed: "count (releases m ?B key ttl s) = Some (v - int m)" if "count s = Some v" "int m \<le> v" for m s v
    using that
  proof (induction m arbitrary: s v)
    case (Suc m)
    with Suc.IH [OF release [OF Suc.prems(1)]] show ?case by simp
  qed simp
  have t: "oks = replicate n False" "count s1 = Some (int limit + int n)"
    using tries [of s 0 n oks s1] full late by simp_all
  with freed [OF t(2), of limit] have "count (releases limit ?B key ttl s1) = Some (int n)" by simp
  from acquire [OF this, of "int limit"] many t(1) show ?thesis by auto
qed

text \<open>A server with a single counter.\<close>

definition counter_client :: "int option memcached_client" where
  "counter_client =
     \<lparr>mc_add = (\<lambda>key v t s. if s = None then (True, Some v) else (False, s)),
      mc_incr = (\<lambda>key n s. (value_or_0 s + n, Some (value_or_0 s + n))),
      mc_decr = (\<lambda>key n s. (max 0 (value_or_0 s - n), Some (max 0 (value_or_0 s - n)))),
      mc_gets = (\<lambda>key s. (map_option (\<lambda>v. (v, 0)) s, s)), mc_get_multi = (\<lambda>keys s. ([], s)),
      mc_cas = (\<lambda>key v cid t s. (True, Some v))\<rparr>"

theorem memcached_limiter_leaks_witness:
  "\<exists>s1. concurrent_acquire (MemcachedRateBackend 1 counter_client) ''k'' 1 1000 None = (True, Some 1)
     \<and> attempts 1 (MemcachedRateBackend 1 counter_client) ''k'' 1 1000 (Some 1) = ([False], s1)
     \<and> \<not> fst (concurrent_acquire (MemcachedRateBackend 1 counter_client) ''k'' 1 1000
          (releases 1 (MemcachedRateBackend 1 counter_client) ''k'' 1000 s1))"
proof -
  let ?B = "MemcachedRateBackend 1 counter_client"
  obtain s1 where s1: "attempts 1 ?B ''k'' 1 1000 (Some 1) = ([False], s1)"
    by (simp add: concurrent_acquire_def MemcachedRateBackend_def memcached_incr_def counter_client_def)
  moreover have "concurrent_acquire ?B ''k'' 1 1000 None = (True, Some 1)"
    by (simp add: concurrent_acquire_def MemcachedRateBackend_def counter_client_def)
  moreover have "\<not> fst (concurrent_acquire ?B ''k'' 1 1000 (releases 1 ?B ''k'' 1000 s1))"
    using memcached_limiter_leaks [where count = id and C = counter_client and key = "''k''" and limit = 1 and n = 1
        and fuel = 1 and ttl = 1000 and s = "Some 1" and oks = "[False]" and ?s1.0 = s1] s1
    by (auto simp: counter_client_def)
  ultimately show ?thesis by blast
qed

end
