(* ===== verification/Redis_Dispatch.thy ===== *)
theory Redis_Dispatch
  imports Common
begin

text \<open>
  The script that the Redis broker runs for each of its commands,
  \<^verbatim>\<open>dramatiq/brokers/redis/dispatch.lua\<close>, over the commands of a Redis server; and the abstract queue that it
  implements, as a step relation. That it does is shown in \<^theory_text>\<open>Redis_Queue\<close>, what follows for messages in
  \<^theory_text>\<open>Redis_Delivery\<close>.
\<close>

section \<open>The server\<close>

text \<open>
  The commands that the script uses. Those that only read leave the server as it is. \<open>KEYS\<close> is given
  the prefix in front of the asterisk.
\<close>

record 'r redis_commands =
  r_lpop :: "string \<Rightarrow> 'r \<Rightarrow> string option \<times> 'r"
  r_rpush :: "string \<Rightarrow> string \<Rightarrow> 'r \<Rightarrow> 'r"
  r_hset :: "string \<Rightarrow> string \<Rightarrow> string \<Rightarrow> 'r \<Rightarrow> 'r"
  r_hget :: "string \<Rightarrow> string \<Rightarrow> 'r \<Rightarrow> string option"
  r_hmget :: "string \<Rightarrow> string list \<Rightarrow> 'r \<Rightarrow> string option list"
  r_hexists :: "string \<Rightarrow> string \<Rightarrow> 'r \<Rightarrow> bool"
  r_hdel :: "string \<Rightarrow> string list \<Rightarrow> 'r \<Rightarrow> 'r"
  r_hlen :: "string \<Rightarrow> 'r \<Rightarrow> nat"
  r_sadd :: "string \<Rightarrow> string \<Rightarrow> 'r \<Rightarrow> 'r"
  r_srem :: "string \<Rightarrow> string \<Rightarrow> 'r \<Rightarrow> nat \<times> 'r"
  r_smembers :: "string \<Rightarrow> 'r \<Rightarrow> string list"
  r_scard :: "string \<Rightarrow> 'r \<Rightarrow> nat"
  r_del :: "string list \<Rightarrow> 'r \<Rightarrow> 'r"
  r_zadd :: "string \<Rightarrow> int \<Rightarrow> string \<Rightarrow> 'r \<Rightarrow> 'r"
  r_zrangebyscore :: "string \<Rightarrow> int \<Rightarrow> int \<Rightarrow> 'r \<Rightarrow> string list"
  r_zrem :: "string \<Rightarrow> string list \<Rightarrow> 'r \<Rightarrow> 'r"
  r_keys :: "string \<Rightarrow> 'r \<Rightarrow> string list"

text \<open>What a server holds: lists, hashes, sets and sorted sets under their keys.\<close>

record keyspace =
  ks_list :: "string \<Rightarrow> string list"
  ks_hash :: "string \<Rightarrow> string \<Rightarrow> string option"
  ks_set :: "string \<Rightarrow> string set"
  ks_zset :: "string \<Rightarrow> string \<Rightarrow> int option"

text \<open>
  The documented effect of the commands, for keys that are each used with one kind of value. The
  order of \<open>SMEMBERS\<close> is not specified.
\<close>

locale redis_server =
  fixes R :: "'r redis_commands" and view :: "'r \<Rightarrow> keyspace"
  assumes lpop: "r_lpop R k r = (x, r') \<Longrightarrow>
      (case ks_list (view r) k of
         [] \<Rightarrow> x = None \<and> view r' = view r
       | i # ids \<Rightarrow> x = Some i \<and> view r' = (view r)\<lparr>ks_list := (ks_list (view r))(k := ids)\<rparr>)"
    and rpush: "view (r_rpush R k i r) = (view r)\<lparr>ks_list := (ks_list (view r))(k := ks_list (view r) k @ [i])\<rparr>"
    and hset: "view (r_hset R k i d r) = (view r)\<lparr>ks_hash := (ks_hash (view r))(k := (ks_hash (view r) k)(i \<mapsto> d))\<rparr>"
    and hget: "r_hget R k i r = ks_hash (view r) k i"
    and hmget: "r_hmget R k ids r = map (ks_hash (view r) k) ids"
    and hexists: "r_hexists R k i r = (ks_hash (view r) k i \<noteq> None)"
    and hdel: "view (r_hdel R k ids r) = (view r)\<lparr>ks_hash := (ks_hash (view r))(k := ks_hash (view r) k |` (- set ids))\<rparr>"
    and hlen: "finite (dom (ks_hash (view r) k))" "r_hlen R k r = card (dom (ks_hash (view r) k))"
    and sadd: "view (r_sadd R k i r) = (view r)\<lparr>ks_set := (ks_set (view r))(k := insert i (ks_set (view r) k))\<rparr>"
    and srem: "r_srem R k i r = (n, r') \<Longrightarrow> n = (if i \<in> ks_set (view r) k then 1 else 0)
        \<and> view r' = (view r)\<lparr>ks_set := (ks_set (view r))(k := ks_set (view r) k - {i})\<rparr>"
    and smembers: "set (r_smembers R k r) = ks_set (view r) k" "distinct (r_smembers R k r)"
    and scard: "r_scard R k r = card (ks_set (view r) k)"
    and del: "view (r_del R ks r) = (view r)\<lparr>
        ks_list := (\<lambda>k. if k \<in> set ks then [] else ks_list (view r) k),
        ks_hash := (\<lambda>k. if k \<in> set ks then Map.empty else ks_hash (view r) k),
        ks_set := (\<lambda>k. if k \<in> set ks then {} else ks_set (view r) k),
        ks_zset := (\<lambda>k. if k \<in> set ks then Map.empty else ks_zset (view r) k)\<rparr>"
    and zadd: "view (r_zadd R k t i r) = (view r)\<lparr>ks_zset := (ks_zset (view r))(k := (ks_zset (view r) k)(i \<mapsto> t))\<rparr>"
    and zrangebyscore: "set (r_zrangebyscore R k lo hi r) = {i. \<exists>t. ks_zset (view r) k i = Some t \<and> lo \<le> t \<and> t \<le> hi}"
    and zrem: "view (r_zrem R k ids r) = (view r)\<lparr>ks_zset := (ks_zset (view r))(k := ks_zset (view r) k |` (- set ids))\<rparr>"
    and no_keys: "r_keys R p r = [] \<Longrightarrow> prefix p k \<Longrightarrow> ks_set (view r) k = {}"

section \<open>The script\<close>

definition queue_key :: "string \<Rightarrow> string \<Rightarrow> string" where
  "queue_key ns q = ns @ '':'' @ q"

definition messages_key :: "string \<Rightarrow> string \<Rightarrow> string" where
  "messages_key ns q = queue_key ns q @ ''.msgs''"

definition worker_acks :: "string \<Rightarrow> string \<Rightarrow> string" where
  "worker_acks ns w = ns @ '':__acks__.'' @ w"

definition acks_key :: "string \<Rightarrow> string \<Rightarrow> string \<Rightarrow> string" where
  "acks_key ns w q = worker_acks ns w @ ''.'' @ q"

definition heartbeats_key :: "string \<Rightarrow> string" where
  "heartbeats_key ns = ns @ '':__heartbeats__''"

definition queue_canonical_name :: "string \<Rightarrow> string" where
  "queue_canonical_name q = (if endswith q ''.DQ'' then drop_last 3 q else q)"

definition xqueue_key :: "string \<Rightarrow> string \<Rightarrow> string" where
  "xqueue_key ns q = ns @ '':'' @ queue_canonical_name q @ ''.XQ''"

definition xqueue_messages_key :: "string \<Rightarrow> string \<Rightarrow> string" where
  "xqueue_messages_key ns q = xqueue_key ns q @ ''.msgs''"

text \<open>\<open>iter_chunks\<close>, for a positive size.\<close>

fun iter_chunks :: "nat \<Rightarrow> 'a list \<Rightarrow> 'a list list" where
  "iter_chunks n [] = []"
| "iter_chunks n (x # xs) = take (max 1 n) (x # xs) # iter_chunks n (drop (max 1 n - 1) xs)"

text \<open>The commands with their arguments.\<close>

datatype command = Enqueue string string | Fetch nat | Requeue "string list" | Ack string | Nack string | Purge | Qsize

datatype reply = Nil_Reply | Bulk "string option list" | Count nat

text \<open>Bringing back what a dead worker had fetched, and forgetting a worker with nothing fetched.\<close>

definition recover :: "'r redis_commands \<Rightarrow> string \<Rightarrow> string \<Rightarrow> string \<Rightarrow> 'r \<Rightarrow> 'r" where
  "recover R ns q dead_worker r =
     (let acks = acks_key ns dead_worker q;
          message_ids = r_smembers R acks r;
          r = (if message_ids = [] then r
               else r_del R [acks]
                 (fold (\<lambda>i r. if r_hexists R (messages_key ns q) i r then r_rpush R (queue_key ns q) i r else r) message_ids r))
      in if r_keys R (worker_acks ns dead_worker) r = [] then r_zrem R (heartbeats_key ns) [dead_worker] r else r)"

definition maintain :: "'r redis_commands \<Rightarrow> string \<Rightarrow> string \<Rightarrow> int \<Rightarrow> int \<Rightarrow> int \<Rightarrow> nat \<Rightarrow> 'r \<Rightarrow> 'r" where
  "maintain R ns q timestamp heartbeat_timeout dead_message_ttl max_unpack_size r =
     (let dead_workers = r_zrangebyscore R (heartbeats_key ns) 0 (timestamp - heartbeat_timeout) r;
          r = fold (recover R ns q) dead_workers r;
          dead_message_ids = r_zrangebyscore R (xqueue_key ns q) 0 (timestamp - dead_message_ttl) r
      in fold (\<lambda>batch r. r_hdel R (xqueue_messages_key ns q) batch (r_zrem R (xqueue_key ns q) batch r))
           (iter_chunks max_unpack_size dead_message_ids) r)"

text \<open>The loop of \<open>fetch\<close>.\<close>

primrec fetch_ids :: "'r redis_commands \<Rightarrow> string \<Rightarrow> string \<Rightarrow> nat \<Rightarrow> 'r \<Rightarrow> string list \<times> 'r" where
  "fetch_ids R queue acks 0 r = ([], r)"
| "fetch_ids R queue acks (Suc n) r =
     (case r_lpop R queue r of
        (None, r) \<Rightarrow> ([], r)
      | (Some i, r) \<Rightarrow> (case fetch_ids R queue acks n (r_sadd R acks i r) of (ids, r) \<Rightarrow> (i # ids, r)))"

definition requeue_id :: "'r redis_commands \<Rightarrow> string \<Rightarrow> string \<Rightarrow> string \<Rightarrow> string \<Rightarrow> 'r \<Rightarrow> 'r" where
  "requeue_id R ns w q i r =
     (case r_srem R (acks_key ns w q) i r of (n, r) \<Rightarrow>
        if 0 < n \<and> r_hexists R (messages_key ns q) i r then r_rpush R (queue_key ns q) i r else r)"

definition run_command :: "'r redis_commands \<Rightarrow> string \<Rightarrow> int \<Rightarrow> string \<Rightarrow> string \<Rightarrow> nat \<Rightarrow> command \<Rightarrow> 'r \<Rightarrow> reply \<times> 'r" where
  "run_command R ns timestamp q w max_unpack_size c r =
     (case c of
        Enqueue i d \<Rightarrow> (Nil_Reply, r_rpush R (queue_key ns q) i (r_hset R (messages_key ns q) i d r))
      | Fetch n \<Rightarrow>
          (case fetch_ids R (queue_key ns q) (acks_key ns w q) (min n max_unpack_size) r of (ids, r) \<Rightarrow>
             if ids \<noteq> [] then (Bulk (r_hmget R (messages_key ns q) ids r), r) else (Bulk [], r))
      | Requeue ids \<Rightarrow> (Nil_Reply, fold (requeue_id R ns w q) ids r)
      | Ack i \<Rightarrow>
          (case r_srem R (acks_key ns w q) i r of (n, r) \<Rightarrow>
             (Nil_Reply, if 0 < n then r_hdel R (messages_key ns q) [i] r else r))
      | Nack i \<Rightarrow>
          (case r_srem R (acks_key ns w q) i r of (n, r) \<Rightarrow>
             (Nil_Reply,
              if 0 < n then
                (case r_hget R (messages_key ns q) i r of
                   None \<Rightarrow> r
                 | Some message \<Rightarrow>
                     r_hdel R (messages_key ns q) [i]
                       (r_hset R (xqueue_messages_key ns q) i message (r_zadd R (xqueue_key ns q) timestamp i r)))
              else r))
      | Purge \<Rightarrow>
          (Nil_Reply, r_del R [queue_key ns q, acks_key ns w q, messages_key ns q, xqueue_key ns q, xqueue_messages_key ns q] r)
      | Qsize \<Rightarrow>
          (let q = queue_canonical_name q
           in (Count (r_hlen R (messages_key ns (q @ ''.DQ'')) r + r_scard R (acks_key ns w (q @ ''.DQ'')) r
                 + r_hlen R (messages_key ns q) r + r_scard R (acks_key ns w q) r), r)))"

text \<open>
  The whole script; \<open>do_maintenance\<close> is rolled by the caller. A run is atomic. What is a table of
  message ids in the script is a list.
\<close>

definition dispatch ::
  "'r redis_commands \<Rightarrow> string \<Rightarrow> int \<Rightarrow> string \<Rightarrow> string \<Rightarrow> int \<Rightarrow> int \<Rightarrow> bool \<Rightarrow> nat \<Rightarrow> command \<Rightarrow> 'r \<Rightarrow> reply \<times> 'r" where
  "dispatch R ns timestamp q w heartbeat_timeout dead_message_ttl do_maintenance max_unpack_size c r =
     (let r = r_zadd R (heartbeats_key ns) timestamp w r;
          r = (if do_maintenance then maintain R ns q timestamp heartbeat_timeout dead_message_ttl max_unpack_size r else r)
      in run_command R ns timestamp q w max_unpack_size c r)"

section \<open>The queue it implements\<close>

text \<open>
  Of a queue: the ids waiting in order, the data of its messages, what each worker has fetched and not
  acknowledged, and the workers with their last heartbeat. Worker ids are uuids, without dots.
\<close>

record message_queue =
  mq_waiting :: "string list"
  mq_data :: "string \<Rightarrow> string option"
  mq_fetched :: "string \<Rightarrow> string set"
  mq_alive :: "string \<Rightarrow> int option"

definition worker_id :: "string \<Rightarrow> bool" where
  "worker_id w = (CHR ''.'' \<notin> set w)"

definition queue_of :: "string \<Rightarrow> string \<Rightarrow> keyspace \<Rightarrow> message_queue" where
  "queue_of ns q v =
     \<lparr>mq_waiting = ks_list v (queue_key ns q), mq_data = ks_hash v (messages_key ns q),
      mq_fetched = (\<lambda>w. {i. worker_id w \<and> i \<in> ks_set v (acks_key ns w q)}),
      mq_alive = ks_zset v (heartbeats_key ns)\<rparr>"

inductive mq_step :: "message_queue \<Rightarrow> message_queue \<Rightarrow> bool" where
  beat: "worker_id w \<Longrightarrow> mq_step Q (Q\<lparr>mq_alive := (mq_alive Q)(w \<mapsto> t)\<rparr>)"
| enqueue: "i \<notin> set (mq_waiting Q) \<Longrightarrow> \<forall>w. i \<notin> mq_fetched Q w \<Longrightarrow>
    mq_step Q (Q\<lparr>mq_waiting := mq_waiting Q @ [i], mq_data := (mq_data Q)(i \<mapsto> d)\<rparr>)"
| fetch: "mq_waiting Q = i # ids \<Longrightarrow> mq_alive Q w \<noteq> None \<Longrightarrow> worker_id w \<Longrightarrow>
    mq_step Q (Q\<lparr>mq_waiting := ids, mq_fetched := (mq_fetched Q)(w := insert i (mq_fetched Q w))\<rparr>)"
| returned: "i \<in> mq_fetched Q w \<Longrightarrow>
    mq_step Q (Q\<lparr>mq_waiting := mq_waiting Q @ (if mq_data Q i = None then [] else [i]),
      mq_fetched := (mq_fetched Q)(w := mq_fetched Q w - {i})\<rparr>)"
| settled: "i \<in> mq_fetched Q w \<Longrightarrow>
    mq_step Q (Q\<lparr>mq_data := (mq_data Q)(i := None), mq_fetched := (mq_fetched Q)(w := mq_fetched Q w - {i})\<rparr>)"
| forget: "mq_fetched Q w = {} \<Longrightarrow> mq_step Q (Q\<lparr>mq_alive := (mq_alive Q)(w := None)\<rparr>)"
| purge: "mq_step Q (Q\<lparr>mq_waiting := [], mq_data := Map.empty, mq_fetched := (mq_fetched Q)(w := {})\<rparr>)"

text \<open>
  What holds of the queue: ids wait once, no id is both waiting and fetched or fetched by two workers,
  the data of every waiting id is there, no message is lost (its id is waiting or fetched), and who
  has fetched something is in the list of heartbeats.
\<close>

definition mq_ok :: "message_queue \<Rightarrow> bool" where
  "mq_ok Q =
     (distinct (mq_waiting Q)
    \<and> (\<forall>w i. i \<in> mq_fetched Q w \<longrightarrow> i \<notin> set (mq_waiting Q))
    \<and> (\<forall>w w' i. i \<in> mq_fetched Q w \<longrightarrow> i \<in> mq_fetched Q w' \<longrightarrow> w = w')
    \<and> set (mq_waiting Q) \<subseteq> dom (mq_data Q)
    \<and> dom (mq_data Q) \<subseteq> set (mq_waiting Q) \<union> (\<Union>w. mq_fetched Q w)
    \<and> (\<forall>w. mq_fetched Q w \<noteq> {} \<longrightarrow> mq_alive Q w \<noteq> None)
    \<and> (\<forall>w. mq_alive Q w \<noteq> None \<longrightarrow> worker_id w))"

lemma mq_ok_once:
  assumes "mq_ok Q" and "i \<in> mq_fetched Q w"
  shows "i \<notin> set (mq_waiting Q)" and "v \<noteq> w \<Longrightarrow> i \<notin> mq_fetched Q v"
  using assms unfolding mq_ok_def by blast+

lemma mq_step_ok: "mq_step Q Q' \<Longrightarrow> mq_ok Q \<Longrightarrow> mq_ok Q'"
proof (induction rule: mq_step.induct)
  case (enqueue i Q d)
  then have "mq_data Q i = None" by (auto simp: mq_ok_def)
  with enqueue show ?case by (auto simp: mq_ok_def)
next
  case (fetch Q i ids w)
  have "dom (mq_data Q) \<subseteq> set ids \<union> (\<Union>v. ((mq_fetched Q)(w := insert i (mq_fetched Q w))) v)"
  proof
    fix j assume "j \<in> dom (mq_data Q)"
    then consider "j = i" | "j \<in> set ids" | v where "j \<in> mq_fetched Q v" using fetch by (auto simp: mq_ok_def)
    then show "j \<in> set ids \<union> (\<Union>v. ((mq_fetched Q)(w := insert i (mq_fetched Q w))) v)"
      by cases (auto split: if_splits)
  qed
  with fetch show ?case unfolding mq_ok_def by (auto split: if_splits)
next
  case (returned i Q w)
  note one = mq_ok_once [OF returned(2,1)]
  have "dom (mq_data Q) \<subseteq> set (mq_waiting Q @ (if mq_data Q i = None then [] else [i]))
      \<union> (\<Union>v. ((mq_fetched Q)(w := mq_fetched Q w - {i})) v)"
  proof
    fix j assume j: "j \<in> dom (mq_data Q)"
    then consider "j \<in> set (mq_waiting Q)" | v where "j \<in> mq_fetched Q v" using returned by (auto simp: mq_ok_def)
    then show "j \<in> set (mq_waiting Q @ (if mq_data Q i = None then [] else [i]))
      \<union> (\<Union>v. ((mq_fetched Q)(w := mq_fetched Q w - {i})) v)"
      using j by cases (auto split: if_splits)
  qed
  with returned one show ?case unfolding mq_ok_def by (auto split: if_splits)
next
  case (settled i Q w)
  note one = mq_ok_once [OF settled(2,1)]
  have "dom ((mq_data Q)(i := None)) \<subseteq> set (mq_waiting Q) \<union> (\<Union>v. ((mq_fetched Q)(w := mq_fetched Q w - {i})) v)"
  proof
    fix j assume j: "j \<in> dom ((mq_data Q)(i := None))"
    then have "j \<noteq> i" "j \<in> dom (mq_data Q)" by (auto split: if_splits)
    then consider "j \<in> set (mq_waiting Q)" | v where "j \<in> mq_fetched Q v" using settled by (auto simp: mq_ok_def)
    then show "j \<in> set (mq_waiting Q) \<union> (\<Union>v. ((mq_fetched Q)(w := mq_fetched Q w - {i})) v)"
      using \<open>j \<noteq> i\<close> by cases (auto split: if_splits)
  qed
  with settled one show ?case unfolding mq_ok_def by (auto split: if_splits)
qed (auto simp: mq_ok_def split: if_splits)

lemma mq_steps_ok: "mq_step\<^sup>*\<^sup>* Q Q' \<Longrightarrow> mq_ok Q \<Longrightarrow> mq_ok Q'"
  by (induction rule: rtranclp_induct) (auto intro: mq_step_ok)

end
