(* ===== verification/Redis_Queue.thy ===== *)
theory Redis_Queue
  imports Redis_Dispatch
begin

text \<open>
  The dispatch script implements the queue: every run of it, by any worker and for any queue, is a
  sequence of steps of each queue. Its keys do not clash as long as queue names are plain.
\<close>

section \<open>Keys\<close>

text \<open>
  Names that \<open>dramatiq\<close> accepts for queues but which would clash with the keys of other queues or of
  the broker itself are excluded.
\<close>

definition plain_queue :: "string \<Rightarrow> bool" where
  "plain_queue q = (\<not> prefix ''__'' q \<and> \<not> endswith q ''.XQ'' \<and> \<not> endswith q ''.msgs'')"

lemma canonical_plain: "plain_queue q \<Longrightarrow> \<not> prefix ''__'' (queue_canonical_name q)"
  unfolding plain_queue_def queue_canonical_name_def drop_last_def
  by (auto simp: take_is_prefix prefix_order.trans dest: prefix_order.trans [OF _ take_is_prefix])

lemma under_dot: "\<not> prefix ''__'' q \<Longrightarrow> \<not> prefix ''__'' (q @ CHR ''.'' # t)"
  by (cases q rule: list.exhaust; cases "tl q") auto

lemma acks_under: "acks_key ns w q = ns @ '':'' @ ''__acks__.'' @ w @ ''.'' @ q"
  "heartbeats_key ns = ns @ '':'' @ ''__heartbeats__''"
  by (simp_all add: acks_key_def worker_acks_def heartbeats_key_def)

lemma acks_key_inj:
  assumes "worker_id w" and "worker_id w'"
  shows "acks_key ns w q = acks_key ns w' q' \<longleftrightarrow> w = w' \<and> q = q'"
proof
  assume "acks_key ns w q = acks_key ns w' q'"
  then have e: "w @ CHR ''.'' # q = w' @ CHR ''.'' # q'" by (simp add: acks_under)
  from assms have "takeWhile (\<lambda>c. c \<noteq> CHR ''.'') (w @ CHR ''.'' # q) = w"
    "takeWhile (\<lambda>c. c \<noteq> CHR ''.'') (w' @ CHR ''.'' # q') = w'"
    by (auto simp: worker_id_def takeWhile_append)
  with e have "w = w'" by metis
  with e show "w = w' \<and> q = q'" by simp
qed simp

lemma keys_apart:
  assumes "plain_queue q" and "plain_queue q'"
  shows "queue_key ns q = queue_key ns q' \<longleftrightarrow> q = q'" "messages_key ns q = messages_key ns q' \<longleftrightarrow> q = q'"
    "queue_key ns q \<noteq> messages_key ns q'" "queue_key ns q \<noteq> acks_key ns w q'" "queue_key ns q \<noteq> xqueue_key ns q'"
    "queue_key ns q \<noteq> xqueue_messages_key ns q'"
    "messages_key ns q \<noteq> acks_key ns w q'" "messages_key ns q \<noteq> xqueue_key ns q'"
    "messages_key ns q \<noteq> xqueue_messages_key ns q'"
    "acks_key ns w q \<noteq> xqueue_key ns q'" "acks_key ns w q \<noteq> xqueue_messages_key ns q'"
    "heartbeats_key ns \<noteq> queue_key ns q" "heartbeats_key ns \<noteq> messages_key ns q" "heartbeats_key ns \<noteq> acks_key ns w q"
    "heartbeats_key ns \<noteq> xqueue_key ns q" "heartbeats_key ns \<noteq> xqueue_messages_key ns q"
proof -
  have q: "\<not> prefix ''__'' q" "\<not> prefix ''__'' (q @ CHR ''.'' # t)"
    "\<not> prefix ''__'' (queue_canonical_name q @ CHR ''.'' # t)"
    "\<not> prefix ''__'' (queue_canonical_name q' @ CHR ''.'' # t)" "\<not> prefix ''__'' q'" for t
    using assms canonical_plain under_dot by (auto simp: plain_queue_def)
  show "queue_key ns q = queue_key ns q' \<longleftrightarrow> q = q'" "messages_key ns q = messages_key ns q' \<longleftrightarrow> q = q'"
    by (simp_all add: queue_key_def messages_key_def)
  show "queue_key ns q \<noteq> messages_key ns q'" "queue_key ns q \<noteq> xqueue_key ns q'" "queue_key ns q \<noteq> xqueue_messages_key ns q'"
    using assms by (auto simp: queue_key_def messages_key_def xqueue_key_def xqueue_messages_key_def plain_queue_def endswith_def suffix_def)
  have "q @ ''.msgs'' \<noteq> c @ ''.XQ''" for c
    by (auto dest: arg_cong [where f = last])
  then show "messages_key ns q \<noteq> xqueue_key ns q'"
    by (simp add: queue_key_def messages_key_def xqueue_key_def)
  show "messages_key ns q \<noteq> xqueue_messages_key ns q'"
    using assms by (auto simp: queue_key_def messages_key_def xqueue_key_def xqueue_messages_key_def plain_queue_def
        simp flip: append_assoc)
  have own: "x \<noteq> CHR ''_'' # CHR ''_'' # y" if "\<not> prefix ''__'' x" for x y :: string using that by auto
  note own = own [OF q(1)] own [OF q(2)] own [OF q(3)] own [OF q(4)] own [OF q(5)]
  show "queue_key ns q \<noteq> acks_key ns w q'" "messages_key ns q \<noteq> acks_key ns w q'"
    "heartbeats_key ns \<noteq> queue_key ns q" "heartbeats_key ns \<noteq> messages_key ns q"
    using own(1) own(2) [of "''msgs''"] by (simp_all add: acks_under queue_key_def messages_key_def not_sym)
  show "acks_key ns w q \<noteq> xqueue_key ns q'" "acks_key ns w q \<noteq> xqueue_messages_key ns q'"
    "heartbeats_key ns \<noteq> xqueue_key ns q" "heartbeats_key ns \<noteq> xqueue_messages_key ns q"
    using own(3) [of "''XQ''"] own(3) [of "''XQ.msgs''"] own(4) [of "''XQ''"] own(4) [of "''XQ.msgs''"]
    by (simp_all add: acks_under xqueue_key_def xqueue_messages_key_def not_sym)
  show "heartbeats_key ns \<noteq> acks_key ns w q" by (simp add: acks_under)
qed

section \<open>The commands on the queue\<close>

lemma restrict_minus_one [simp]: "m |` (- {i}) = m(i := None)"
  by (auto simp: restrict_map_def fun_eq_iff)

context redis_server
begin

abbreviation queue_in :: "string \<Rightarrow> string \<Rightarrow> 'r \<Rightarrow> message_queue" where
  "queue_in ns q r \<equiv> queue_of ns q (view r)"

text \<open>What each command does to queue \<open>q\<close> when it is meant for \<open>q'\<close>.\<close>

lemma beat_in: "queue_in ns q (r_zadd R (heartbeats_key ns) t w r) = (queue_in ns q r)\<lparr>mq_alive := (mq_alive (queue_in ns q r))(w \<mapsto> t)\<rparr>"
  by (simp add: queue_of_def zadd)

lemma forget_in: "queue_in ns q (r_zrem R (heartbeats_key ns) [w] r) = (queue_in ns q r)\<lparr>mq_alive := (mq_alive (queue_in ns q r))(w := None)\<rparr>"
  by (simp add: queue_of_def zrem)

lemma push_in:
  assumes "plain_queue q" "plain_queue q'"
  shows "queue_in ns q (r_rpush R (queue_key ns q') i r) =
    (if q = q' then (queue_in ns q r)\<lparr>mq_waiting := mq_waiting (queue_in ns q r) @ [i]\<rparr> else queue_in ns q r)"
  using keys_apart [OF assms] by (simp add: queue_of_def rpush)

lemma data_in:
  assumes "plain_queue q" "plain_queue q'"
  shows "queue_in ns q (r_hset R (messages_key ns q') i d r) =
      (if q = q' then (queue_in ns q r)\<lparr>mq_data := (mq_data (queue_in ns q r))(i \<mapsto> d)\<rparr> else queue_in ns q r)"
    "queue_in ns q (r_hdel R (messages_key ns q') [i] r) =
      (if q = q' then (queue_in ns q r)\<lparr>mq_data := (mq_data (queue_in ns q r))(i := None)\<rparr> else queue_in ns q r)"
    "queue_in ns q (r_hset R (xqueue_messages_key ns q') i d r) = queue_in ns q r"
    "queue_in ns q (r_hdel R (xqueue_messages_key ns q') ids r) = queue_in ns q r"
    "queue_in ns q (r_zadd R (xqueue_key ns q') t i r) = queue_in ns q r"
    "queue_in ns q (r_zrem R (xqueue_key ns q') ids r) = queue_in ns q r"
  using keys_apart [OF assms] keys_apart [OF assms(2,2)] by (simp_all add: queue_of_def hset hdel zadd zrem)

lemma pop_in:
  assumes "plain_queue q" "plain_queue q'" and "r_lpop R (queue_key ns q') r = (x, r')"
  shows "case mq_waiting (queue_in ns q' r) of
      [] \<Rightarrow> x = None \<and> queue_in ns q r' = queue_in ns q r
    | i # ids \<Rightarrow> x = Some i \<and> queue_in ns q r' = (if q = q' then (queue_in ns q r)\<lparr>mq_waiting := ids\<rparr> else queue_in ns q r)"
  using lpop [OF assms(3)] keys_apart [OF assms(1,2)] by (auto simp: queue_of_def split: list.splits)

lemma add_in:
  assumes "worker_id w"
  shows "queue_in ns q (r_sadd R (acks_key ns w q') i r) =
      (if q = q' then (queue_in ns q r)\<lparr>mq_fetched := (mq_fetched (queue_in ns q r))(w := insert i (mq_fetched (queue_in ns q r) w))\<rparr>
       else queue_in ns q r)"
  using assms by (auto simp: queue_of_def sadd acks_key_inj fun_eq_iff)

lemma take_in:
  assumes "worker_id w" and "r_srem R (acks_key ns w q') i r = (n, r')"
  shows "n = (if i \<in> mq_fetched (queue_in ns q' r) w then 1 else 0)"
    "queue_in ns q r' =
      (if q = q' then (queue_in ns q r)\<lparr>mq_fetched := (mq_fetched (queue_in ns q r))(w := mq_fetched (queue_in ns q r) w - {i})\<rparr>
       else queue_in ns q r)"
  using assms(1) srem [OF assms(2)] by (auto simp: queue_of_def acks_key_inj fun_eq_iff)

lemma clear_in:
  assumes "worker_id w" "plain_queue q" "plain_queue q'"
  shows "queue_in ns q (r_del R [acks_key ns w q'] r) =
      (if q = q' then (queue_in ns q r)\<lparr>mq_fetched := (mq_fetched (queue_in ns q r))(w := {})\<rparr> else queue_in ns q r)"
proof -
  have "queue_key ns q \<noteq> acks_key ns w q'" "messages_key ns q \<noteq> acks_key ns w q'" "heartbeats_key ns \<noteq> acks_key ns w q'"
    using keys_apart [OF assms(2,3)] keys_apart(14) [OF assms(3,3)] by simp_all
  with assms(1) show ?thesis by (simp add: queue_of_def del) (auto simp: acks_key_inj fun_eq_iff)
qed

lemma del_in: "queue_in ns q (r_del R ks r) =
   \<lparr>mq_waiting = (if queue_key ns q \<in> set ks then [] else mq_waiting (queue_in ns q r)),
    mq_data = (if messages_key ns q \<in> set ks then Map.empty else mq_data (queue_in ns q r)),
    mq_fetched = (\<lambda>v. {i. worker_id v \<and> acks_key ns v q \<notin> set ks \<and> i \<in> ks_set (view r) (acks_key ns v q)}),
    mq_alive = (if heartbeats_key ns \<in> set ks then Map.empty else mq_alive (queue_in ns q r))\<rparr>"
  by (auto simp: queue_of_def del fun_eq_iff)

lemma purge_in:
  assumes "plain_queue q" "plain_queue q'" "worker_id w"
  shows "queue_in ns q (r_del R [queue_key ns q', acks_key ns w q', messages_key ns q', xqueue_key ns q', xqueue_messages_key ns q'] r) =
    (if q = q' then (queue_in ns q r)\<lparr>mq_waiting := [], mq_data := Map.empty, mq_fetched := (mq_fetched (queue_in ns q r))(w := {})\<rparr>
     else queue_in ns q r)"
proof -
  note a = keys_apart [OF assms(1,2)] and b = keys_apart [OF assms(2,1)] and c = keys_apart [OF assms(2,2)]
  let ?ks = "[queue_key ns q', acks_key ns w q', messages_key ns q', xqueue_key ns q', xqueue_messages_key ns q']"
  have keys: "queue_key ns q \<in> set ?ks \<longleftrightarrow> q = q'" "messages_key ns q \<in> set ?ks \<longleftrightarrow> q = q'"
    "heartbeats_key ns \<notin> set ?ks"
    using a(1,3-6) apply simp
    using a(2,7-9) b(3) [THEN not_sym] apply simp
    using c(12-16) apply simp
    done
  have acks: "acks_key ns v q \<in> set ?ks \<longleftrightarrow> v = w \<and> q = q'" if "worker_id v" for v
    using a(10,11) [of ns v] b(4,7) [of ns v, THEN not_sym] acks_key_inj [OF that assms(3)] by simp
  have "{i. worker_id v \<and> acks_key ns v q \<notin> set ?ks \<and> i \<in> ks_set (view r) (acks_key ns v q)} =
      (if q = q' \<and> v = w then {} else mq_fetched (queue_in ns q r) v)" for v
  proof (cases "worker_id v")
    case True
    then show ?thesis unfolding acks [OF True] by (auto simp: queue_of_def)
  next
    case False
    then show ?thesis by (simp add: queue_of_def)
  qed
  then show ?thesis unfolding del_in using keys by (auto simp: queue_of_def fun_eq_iff simp del: list.set)
qed

end

section \<open>The script implements the queue\<close>

text \<open>Which ids a queue has in it.\<close>

definition mentions :: "message_queue \<Rightarrow> string set" where
  "mentions Q = set (mq_waiting Q) \<union> (\<Union>w. mq_fetched Q w)"

text \<open>Steps that bring in no new id.\<close>

definition mq_inner :: "message_queue \<Rightarrow> message_queue \<Rightarrow> bool" where
  "mq_inner Q Q' = (mq_step\<^sup>*\<^sup>* Q Q' \<and> mentions Q' \<subseteq> mentions Q)"

lemma mq_inner_refl [simp]: "mq_inner Q Q"
  by (simp add: mq_inner_def)

lemma mq_inner_trans: "mq_inner Q Q' \<Longrightarrow> mq_inner Q' Q'' \<Longrightarrow> mq_inner Q Q''"
  by (auto simp: mq_inner_def)

lemma mq_inner_step: "mq_step Q Q' \<Longrightarrow> mentions Q' \<subseteq> mentions Q \<Longrightarrow> mq_inner Q Q'"
  by (simp add: mq_inner_def)

lemma inner_steps:
  "worker_id w \<Longrightarrow> mq_inner Q (Q\<lparr>mq_alive := (mq_alive Q)(w \<mapsto> t)\<rparr>)"
  "mq_fetched Q w = {} \<Longrightarrow> mq_inner Q (Q\<lparr>mq_alive := (mq_alive Q)(w := None)\<rparr>)"
  "i \<in> mq_fetched Q w \<Longrightarrow> mq_inner Q (Q\<lparr>mq_waiting := mq_waiting Q @ (if mq_data Q i = None then [] else [i]),
      mq_fetched := (mq_fetched Q)(w := mq_fetched Q w - {i})\<rparr>)"
  "mq_waiting Q = i # ids \<Longrightarrow> mq_alive Q w \<noteq> None \<Longrightarrow> worker_id w \<Longrightarrow>
    mq_inner Q (Q\<lparr>mq_waiting := ids, mq_fetched := (mq_fetched Q)(w := insert i (mq_fetched Q w))\<rparr>)"
  "i \<in> mq_fetched Q w \<Longrightarrow>
    mq_inner Q (Q\<lparr>mq_data := (mq_data Q)(i := None), mq_fetched := (mq_fetched Q)(w := mq_fetched Q w - {i})\<rparr>)"
      apply (rule mq_inner_step [OF mq_step.beat]; simp add: mentions_def)
     apply (rule mq_inner_step [OF mq_step.forget]; simp add: mentions_def)
    apply (rule mq_inner_step [OF mq_step.returned]; auto simp: mentions_def split: if_splits)
   apply (rule mq_inner_step [OF mq_step.fetch]; auto simp: mentions_def split: if_splits)
  apply (rule mq_inner_step [OF mq_step.settled]; auto simp: mentions_def split: if_splits)
  done

lemma same_fetched [simp]: "mq_fetched Q w = {} \<Longrightarrow> Q\<lparr>mq_fetched := (mq_fetched Q)(w := {})\<rparr> = Q"
proof -
  assume "mq_fetched Q w = {}"
  then have "(mq_fetched Q)(w := {}) = mq_fetched Q" by (metis fun_upd_triv)
  then show ?thesis by simp
qed

text \<open>Updates in the order of the fields.\<close>

lemma mq_update_order [simp]:
  "Q\<lparr>mq_fetched := f, mq_waiting := ids\<rparr> = Q\<lparr>mq_waiting := ids, mq_fetched := f\<rparr>"
  "Q\<lparr>mq_fetched := f, mq_data := d\<rparr> = Q\<lparr>mq_data := d, mq_fetched := f\<rparr>"
  "Q\<lparr>mq_data := d, mq_waiting := ids\<rparr> = Q\<lparr>mq_waiting := ids, mq_data := d\<rparr>"
  by simp_all

lemma return_all:
  "set ids \<subseteq> mq_fetched Q w \<Longrightarrow> distinct ids \<Longrightarrow>
   mq_inner Q (Q\<lparr>mq_waiting := mq_waiting Q @ filter (\<lambda>i. mq_data Q i \<noteq> None) ids,
      mq_fetched := (mq_fetched Q)(w := mq_fetched Q w - set ids)\<rparr>)"
proof (induction ids arbitrary: Q)
  case Nil
  then show ?case by simp
next
  case (Cons i ids)
  let ?Q = "Q\<lparr>mq_waiting := mq_waiting Q @ (if mq_data Q i = None then [] else [i]),
      mq_fetched := (mq_fetched Q)(w := mq_fetched Q w - {i})\<rparr>"
  have "mq_inner Q ?Q" using Cons.prems by (intro inner_steps) simp
  moreover have "set ids \<subseteq> mq_fetched ?Q w" using Cons.prems by auto
  moreover have "mq_fetched Q w - insert i (set ids) = mq_fetched Q w - {i} - set ids" by auto
  moreover have "mq_waiting ?Q @ filter (\<lambda>i. mq_data ?Q i \<noteq> None) ids =
      mq_waiting Q @ filter (\<lambda>i. mq_data Q i \<noteq> None) (i # ids)" by simp
  moreover have "(mq_fetched ?Q)(w := mq_fetched ?Q w - set ids) = (mq_fetched Q)(w := mq_fetched Q w - {i} - set ids)"
    by simp
  ultimately show ?case using mq_inner_trans [OF _ Cons.IH [of ?Q]] Cons.prems(2) by (simp del: fun_upd_apply)
qed

context redis_server
begin

lemma push_all:
  assumes "plain_queue q" "plain_queue q'"
  shows "queue_in ns q (fold (\<lambda>i r. if r_hexists R (messages_key ns q') i r then r_rpush R (queue_key ns q') i r else r) ids r) =
    (if q = q' then (queue_in ns q r)\<lparr>mq_waiting := mq_waiting (queue_in ns q r) @ filter (\<lambda>i. mq_data (queue_in ns q r) i \<noteq> None) ids\<rparr>
     else queue_in ns q r)"
proof (induction ids arbitrary: r)
  case (Cons i ids)
  have x: "r_hexists R (messages_key ns q') i r \<longleftrightarrow> mq_data (queue_in ns q' r) i \<noteq> None"
    by (simp add: hexists queue_of_def)
  show ?case
  proof (cases "r_hexists R (messages_key ns q') i r")
    case True
    with x show ?thesis by (simp add: Cons.IH push_in [OF assms] push_in [OF assms(2,2)])
  next
    case False
    with x show ?thesis by (simp add: Cons.IH)
  qed
qed simp

text \<open>What \<open>recover\<close> does to the queue it is meant for and to the others.\<close>

lemma recover_in:
  assumes "plain_queue q" "plain_queue q'" "worker_id w"
  shows "mq_inner (queue_in ns q r) (queue_in ns q (recover R ns q' w r))"
    and "\<exists>ids A. set ids = mq_fetched (queue_in ns q' r) w
        \<and> (A = mq_alive (queue_in ns q r) \<or>
           A = (mq_alive (queue_in ns q r))(w := None) \<and> mq_fetched (queue_in ns q (recover R ns q' w r)) w = {})
        \<and> queue_in ns q (recover R ns q' w r) = (queue_in ns q r)
          \<lparr>mq_waiting := (if q = q' then mq_waiting (queue_in ns q r) @ filter (\<lambda>i. mq_data (queue_in ns q r) i \<noteq> None) ids
              else mq_waiting (queue_in ns q r)),
           mq_fetched := (if q = q' then (mq_fetched (queue_in ns q r))(w := {}) else mq_fetched (queue_in ns q r)),
           mq_alive := A\<rparr>"
proof -
  let ?ids = "r_smembers R (acks_key ns w q') r" and ?Q = "queue_in ns q r"
  let ?push = "fold (\<lambda>i r. if r_hexists R (messages_key ns q') i r then r_rpush R (queue_key ns q') i r else r) ?ids r"
  define r1 where "r1 = (if ?ids = [] then r else r_del R [acks_key ns w q'] ?push)"
  let ?keep = "r_keys R (worker_acks ns w) r1 \<noteq> []"
  have out: "recover R ns q' w r = (if ?keep then r1 else r_zrem R (heartbeats_key ns) [w] r1)"
    by (simp add: recover_def r1_def Let_def)
  have ids: "set ?ids = mq_fetched (queue_in ns q' r) w" "distinct ?ids"
    using smembers [of "acks_key ns w q'" r] assms(3) by (simp_all add: queue_of_def)
  have r1: "queue_in ns q r1 = (if q = q' then ?Q\<lparr>mq_waiting := mq_waiting ?Q @ filter (\<lambda>i. mq_data ?Q i \<noteq> None) ?ids,
      mq_fetched := (mq_fetched ?Q)(w := mq_fetched ?Q w - set ?ids)\<rparr> else ?Q)"
  proof (cases "?ids = []")
    case True
    with ids(1) have "mq_fetched (queue_in ns q' r) w = {}" by simp
    with True show ?thesis by (simp add: r1_def)
  next
    case False
    with ids show ?thesis
      by (simp add: r1_def clear_in [OF assms(3,1,2)] push_all [OF assms(1,2)] push_all [OF assms(2,2)])
  qed
  then have i1: "mq_inner ?Q (queue_in ns q r1)"
    using return_all [of ?ids ?Q w] ids by auto
  have "mq_fetched (queue_in ns q r1) w = {}" if "\<not> ?keep"
    using no_keys [of "worker_acks ns w" r1 "acks_key ns w q"] that by (simp add: queue_of_def acks_key_def)
  note kept = this
  then have "mq_inner (queue_in ns q r1) (queue_in ns q (recover R ns q' w r))"
    unfolding out by (simp add: forget_in inner_steps)
  with i1 show "mq_inner ?Q (queue_in ns q (recover R ns q' w r))" by (rule mq_inner_trans)
  have f: "mq_fetched (queue_in ns q (recover R ns q' w r)) w = mq_fetched (queue_in ns q r1) w"
    unfolding out by (simp add: forget_in)
  have "(mq_fetched ?Q)(w := mq_fetched ?Q w - set ?ids) = (mq_fetched ?Q)(w := {})" if "q = q'"
    using that ids(1) by simp
  then have "queue_in ns q (recover R ns q' w r) =
      ?Q\<lparr>mq_waiting := (if q = q' then mq_waiting ?Q @ filter (\<lambda>i. mq_data ?Q i \<noteq> None) ?ids else mq_waiting ?Q),
        mq_fetched := (if q = q' then (mq_fetched ?Q)(w := {}) else mq_fetched ?Q),
        mq_alive := if ?keep then mq_alive ?Q else (mq_alive ?Q)(w := None)\<rparr>"
    unfolding out by (simp add: forget_in r1)
  moreover have "(if ?keep then mq_alive ?Q else (mq_alive ?Q)(w := None)) = mq_alive ?Q \<or>
      (if ?keep then mq_alive ?Q else (mq_alive ?Q)(w := None)) = (mq_alive ?Q)(w := None)
      \<and> mq_fetched (queue_in ns q (recover R ns q' w r)) w = {}"
    unfolding f using kept by auto
  ultimately show "\<exists>ids A. set ids = mq_fetched (queue_in ns q' r) w
      \<and> (A = mq_alive ?Q \<or> A = (mq_alive ?Q)(w := None) \<and> mq_fetched (queue_in ns q (recover R ns q' w r)) w = {})
      \<and> queue_in ns q (recover R ns q' w r) = ?Q
        \<lparr>mq_waiting := (if q = q' then mq_waiting ?Q @ filter (\<lambda>i. mq_data ?Q i \<noteq> None) ids else mq_waiting ?Q),
         mq_fetched := (if q = q' then (mq_fetched ?Q)(w := {}) else mq_fetched ?Q), mq_alive := A\<rparr>"
    using ids(1) by blast
qed

lemma recover_all:
  assumes "plain_queue q" "plain_queue q'"
  shows "\<forall>w \<in> set ws. worker_id w \<Longrightarrow> mq_inner (queue_in ns q r) (queue_in ns q (fold (recover R ns q') ws r))"
proof (induction ws arbitrary: r)
  case (Cons w ws)
  then have w: "worker_id w" and ws: "\<forall>w \<in> set ws. worker_id w" by simp_all
  show ?case using mq_inner_trans [OF recover_in(1) [OF assms w] Cons.IH [OF ws]] by simp
qed simp

text \<open>Everything that one of the workers had fetched is waiting afterwards, unless its data is gone.\<close>

lemma recover_all_back:
  assumes "plain_queue q"
  shows "\<forall>w \<in> set ws. worker_id w \<Longrightarrow>
     mq_data (queue_in ns q (fold (recover R ns q) ws r)) = mq_data (queue_in ns q r)
   \<and> set (mq_waiting (queue_in ns q (fold (recover R ns q) ws r))) =
       set (mq_waiting (queue_in ns q r)) \<union> {i. mq_data (queue_in ns q r) i \<noteq> None \<and> (\<exists>w \<in> set ws. i \<in> mq_fetched (queue_in ns q r) w)}
   \<and> (\<forall>w. mq_fetched (queue_in ns q (fold (recover R ns q) ws r)) w = (if w \<in> set ws then {} else mq_fetched (queue_in ns q r) w))
   \<and> (\<forall>w. w \<notin> set ws \<longrightarrow> mq_alive (queue_in ns q (fold (recover R ns q) ws r)) w = mq_alive (queue_in ns q r) w)"
proof (induction ws arbitrary: r)
  case (Cons w ws)
  then have w: "worker_id w" and ws: "\<forall>w \<in> set ws. worker_id w" by simp_all
  obtain ids A where ids: "set ids = mq_fetched (queue_in ns q r) w"
      "A = mq_alive (queue_in ns q r) \<or> A = (mq_alive (queue_in ns q r))(w := None)" and q: "queue_in ns q (recover R ns q w r) =
        (queue_in ns q r)\<lparr>mq_waiting := mq_waiting (queue_in ns q r) @ filter (\<lambda>i. mq_data (queue_in ns q r) i \<noteq> None) ids,
          mq_fetched := (mq_fetched (queue_in ns q r))(w := {}), mq_alive := A\<rparr>"
    using recover_in(2) [OF assms assms w, of ns r] by auto
  have A: "v \<noteq> w \<Longrightarrow> A v = mq_alive (queue_in ns q r) v" for v using ids(2) by auto
  from Cons.IH [OF ws, of "recover R ns q w r"] show ?case by (auto simp: q ids(1) A)
qed simp

lemma drop_dead:
  assumes "plain_queue q" "plain_queue q'"
  shows "queue_in ns q (fold (\<lambda>batch r. r_hdel R (xqueue_messages_key ns q') batch (r_zrem R (xqueue_key ns q') batch r)) bs r)
    = queue_in ns q r"
  by (induction bs arbitrary: r) (simp_all add: data_in [OF assms])

lemma maintain_in:
  assumes "plain_queue q" "plain_queue q'" and "\<forall>w. mq_alive (queue_in ns q r) w \<noteq> None \<longrightarrow> worker_id w"
  shows "mq_inner (queue_in ns q r) (queue_in ns q (maintain R ns q' t hb ttl k r))"
    and "mq_alive (queue_in ns q r) w = Some u \<Longrightarrow> t - hb < u \<Longrightarrow> mq_alive (queue_in ns q (maintain R ns q' t hb ttl k r)) w = Some u"
proof -
  let ?ws = "r_zrangebyscore R (heartbeats_key ns) 0 (t - hb) r"
  have ws: "\<forall>w \<in> set ?ws. worker_id w" "w \<in> set ?ws \<longleftrightarrow> (\<exists>u. mq_alive (queue_in ns q' r) w = Some u \<and> 0 \<le> u \<and> u \<le> t - hb)" for w
    using assms(3) by (auto simp: zrangebyscore queue_of_def)
  show "mq_inner (queue_in ns q r) (queue_in ns q (maintain R ns q' t hb ttl k r))"
    using recover_all [OF assms(1,2) ws(1)] by (simp add: maintain_def Let_def drop_dead [OF assms(1,2)])
  assume w: "mq_alive (queue_in ns q r) w = Some u" "t - hb < u"
  then have a: "mq_alive (queue_in ns q' r) w = Some u" by (simp add: queue_of_def)
  with ws(2) [of w] w(2) have "w \<notin> set ?ws" by simp
  then have "mq_alive (queue_in ns q' (maintain R ns q' t hb ttl k r)) w = Some u"
    using recover_all_back [OF assms(2) ws(1)] a by (simp add: maintain_def Let_def drop_dead [OF assms(2,2)])
  then show "mq_alive (queue_in ns q (maintain R ns q' t hb ttl k r)) w = Some u" by (simp add: queue_of_def)
qed

lemma fetch_in:
  assumes "plain_queue q" "plain_queue q'" "worker_id w"
  shows "fetch_ids R (queue_key ns q') (acks_key ns w q') n r = (ids, r') \<Longrightarrow> mq_alive (queue_in ns q r) w \<noteq> None \<Longrightarrow>
    mq_inner (queue_in ns q r) (queue_in ns q r') \<and> ids = take n (mq_waiting (queue_in ns q' r))
    \<and> mq_data (queue_in ns q' r') = mq_data (queue_in ns q' r)"
proof (induction n arbitrary: r ids)
  case (Suc n)
  obtain x r1 where pop: "r_lpop R (queue_key ns q') r = (x, r1)" by force
  note here = pop_in [OF assms(1,2) pop] and there = pop_in [OF assms(2,2) pop]
  show ?case
  proof (cases "mq_waiting (queue_in ns q' r)")
    case Nil
    with here there pop Suc.prems show ?thesis by auto
  next
    case (Cons i rest)
    let ?r2 = "r_sadd R (acks_key ns w q') i r1"
    obtain ids' where ids: "fetch_ids R (queue_key ns q') (acks_key ns w q') n ?r2 = (ids', r')" "ids = i # ids'"
      using Suc.prems(1) pop Cons there by (auto split: prod.splits)
    have q: "queue_in ns q ?r2 = (if q = q' then (queue_in ns q r)\<lparr>mq_waiting := rest,
        mq_fetched := (mq_fetched (queue_in ns q r))(w := insert i (mq_fetched (queue_in ns q r) w))\<rparr> else queue_in ns q r)"
      and q': "queue_in ns q' ?r2 = (queue_in ns q' r)\<lparr>mq_waiting := rest,
        mq_fetched := (mq_fetched (queue_in ns q' r))(w := insert i (mq_fetched (queue_in ns q' r) w))\<rparr>"
      using here there Cons by (auto simp: add_in [OF assms(3)])
    have "mq_inner (queue_in ns q r) (queue_in ns q ?r2)"
      unfolding q using Cons Suc.prems(2) assms(3) by (auto intro: inner_steps)
    moreover have "mq_alive (queue_in ns q ?r2) w \<noteq> None" using Suc.prems(2) by (cases "q = q'") (simp_all add: q q')
    ultimately show ?thesis
      using Suc.IH [OF ids(1)] ids(2) Cons by (auto simp: q' intro: mq_inner_trans)
  qed
qed simp

lemma requeue_in:
  assumes "plain_queue q" "plain_queue q'" "worker_id w"
  shows "mq_inner (queue_in ns q r) (queue_in ns q (fold (requeue_id R ns w q') ids r))"
proof (induction ids arbitrary: r)
  case (Cons i ids)
  obtain n r1 where 1: "r_srem R (acks_key ns w q') i r = (n, r1)" by force
  note n = take_in(1) [OF assms(3) 1] and q = take_in(2) [OF assms(3) 1]
  have x: "r_hexists R (messages_key ns q') i r1 \<longleftrightarrow> mq_data (queue_in ns q' r) i \<noteq> None"
    using q [of q'] by (simp add: hexists) (simp add: queue_of_def)
  have "mq_inner (queue_in ns q r) (queue_in ns q (requeue_id R ns w q' i r))"
  proof (cases "i \<in> mq_fetched (queue_in ns q' r) w")
    case True
    then show ?thesis
      using 1 n x q [of q] inner_steps(3) [of i "queue_in ns q r" w]
      by (cases "q = q'") (auto simp: requeue_id_def push_in [OF assms(1,2)] push_in [OF assms(2,2)])
  next
    case False
    have "(mq_fetched (queue_in ns q' r))(w := mq_fetched (queue_in ns q' r) w - {i}) = mq_fetched (queue_in ns q' r)"
      using False by (simp add: fun_eq_iff)
    with False 1 n q [of q] show ?thesis by (simp add: requeue_id_def)
  qed
  with Cons.IH [of "requeue_id R ns w q' i r"] show ?case by (auto intro: mq_inner_trans)
qed simp

lemma settle_in:
  assumes "plain_queue q" "plain_queue q'" "worker_id w" and "c = Ack i \<or> c = Nack i"
  shows "mq_inner (queue_in ns q r) (queue_in ns q (snd (run_command R ns t q' w k c r)))"
proof -
  obtain n r1 where 1: "r_srem R (acks_key ns w q') i r = (n, r1)" by force
  note n = take_in(1) [OF assms(3) 1] and q = take_in(2) [OF assms(3) 1]
  have x: "r_hget R (messages_key ns q') i r1 = mq_data (queue_in ns q' r) i"
    using q [of q'] by (simp add: hget) (simp add: queue_of_def)
  show ?thesis
  proof (cases "i \<in> mq_fetched (queue_in ns q' r) w")
    case True
    then have gone: "(mq_data (queue_in ns q' r))(i := None) = mq_data (queue_in ns q' r)"
      if "mq_data (queue_in ns q' r) i = None" using that by (simp add: fun_eq_iff)
    from True assms(4) 1 n q [of q] x inner_steps(5) [of i "queue_in ns q r" w] gone show ?thesis
      by (cases "q = q'") (auto simp: run_command_def data_in [OF assms(1,2)] data_in [OF assms(2,2)] split: option.split)
  next
    case False
    have "(mq_fetched (queue_in ns q' r))(w := mq_fetched (queue_in ns q' r) w - {i}) = mq_fetched (queue_in ns q' r)"
      using False by (simp add: fun_eq_iff)
    with False assms(4) 1 n q [of q] show ?thesis by (auto simp: run_command_def)
  qed
qed

lemma run_command_in:
  assumes "plain_queue q" "plain_queue q'" "worker_id w" and "mq_alive (queue_in ns q r) w \<noteq> None"
    and "\<And>i d. c = Enqueue i d \<Longrightarrow> i \<notin> mentions (queue_in ns q' r)"
  shows "mq_step\<^sup>*\<^sup>* (queue_in ns q r) (queue_in ns q (snd (run_command R ns t q' w k c r)))"
proof -
  have inner: "mq_inner Q Q' \<Longrightarrow> mq_step\<^sup>*\<^sup>* Q Q'" for Q Q' by (simp add: mq_inner_def)
  show ?thesis
  proof (cases c)
    case (Enqueue i d)
    then have "i \<notin> set (mq_waiting (queue_in ns q' r))" "\<forall>w. i \<notin> mq_fetched (queue_in ns q' r) w"
      using assms(5) by (auto simp: mentions_def)
    with mq_step.enqueue [of i "queue_in ns q' r" d] Enqueue show ?thesis
      by (auto simp: run_command_def push_in [OF assms(1,2)] push_in [OF assms(2,2)] data_in [OF assms(1,2)] data_in [OF assms(2,2)])
  next
    case (Fetch n)
    obtain ids r' where "fetch_ids R (queue_key ns q') (acks_key ns w q') (min n k) r = (ids, r')" by force
    with fetch_in [OF assms(1-3) this assms(4)] Fetch show ?thesis
      by (auto simp: run_command_def intro: inner)
  next
    case (Requeue ids)
    with requeue_in [OF assms(1-3)] show ?thesis by (simp add: run_command_def inner)
  next
    case Purge
    with mq_step.purge [of "queue_in ns q r" w] show ?thesis
      by (auto simp: run_command_def purge_in [OF assms(1-3)])
  next
    case (Ack i)
    then show ?thesis by (intro inner settle_in [OF assms(1-3)]) simp
  next
    case (Nack i)
    then show ?thesis by (intro inner settle_in [OF assms(1-3)]) simp
  qed (simp add: run_command_def Let_def)
qed

lemma dispatch_in:
  assumes "plain_queue q" "plain_queue q'" "worker_id w"
    and "\<forall>w. mq_alive (queue_in ns q r) w \<noteq> None \<longrightarrow> worker_id w"
    and "\<And>i d. c = Enqueue i d \<Longrightarrow> i \<notin> mentions (queue_in ns q' r)" and "0 < hb"
  shows "mq_step\<^sup>*\<^sup>* (queue_in ns q r) (queue_in ns q (snd (dispatch R ns t q' w hb ttl m k c r)))"
proof -
  let ?r1 = "r_zadd R (heartbeats_key ns) t w r"
  define r2 where "r2 = (if m then maintain R ns q' t hb ttl k ?r1 else ?r1)"
  have 1: "mq_inner (queue_in ns p r) (queue_in ns p ?r1)" for p
    unfolding beat_in using assms(3) by (rule inner_steps)
  have ids: "\<forall>w. mq_alive (queue_in ns p ?r1) w \<noteq> None \<longrightarrow> worker_id w" for p
    using assms(3,4) by (simp add: queue_of_def zadd)
  have 2: "mq_inner (queue_in ns p ?r1) (queue_in ns p r2)" if "plain_queue p" for p
    unfolding r2_def using maintain_in [OF that assms(2) ids] by simp
  have fresh: "i \<notin> mentions (queue_in ns q' r2)" if "c = Enqueue i d" for i d
    using assms(5) [OF that] 1 [of q'] 2 [OF assms(2)] by (auto simp: mq_inner_def)
  have "mq_alive (queue_in ns q ?r1) w = Some t" by (simp add: beat_in)
  then have "mq_alive (queue_in ns q r2) w \<noteq> None"
    unfolding r2_def using maintain_in(2) [OF assms(1,2) ids, of w t t hb] assms(6) by simp
  from run_command_in [OF assms(1-3) this, where c = c and t = t and k = k, OF fresh]
  have "mq_step\<^sup>*\<^sup>* (queue_in ns q r2) (queue_in ns q (snd (dispatch R ns t q' w hb ttl m k c r)))"
    by (simp add: dispatch_def r2_def Let_def)
  with 1 [of q] 2 [OF assms(1)] show ?thesis by (auto simp: mq_inner_def)
qed

end

end
