(* ===== verification/Redis_Delivery.thy ===== *)
theory Redis_Delivery
  imports Redis_Queue
begin

text \<open>
  What the dispatch script guarantees: no message is lost whatever the workers do, a fetch hands out
  the oldest messages with their data, acknowledging settles a message once, and messages of dead
  workers come back. A server in memory serves as the example.
\<close>

section \<open>A server in memory\<close>

record memory =
  mem_lists :: "string list dict"
  mem_hashes :: "string dict dict"
  mem_sets :: "string list dict"
  mem_zsets :: "int dict dict"

definition at_key :: "'a list dict \<Rightarrow> string \<Rightarrow> 'a list" where
  "at_key d k = (case map_of d k of None \<Rightarrow> [] | Some x \<Rightarrow> x)"

definition memory_view :: "memory \<Rightarrow> keyspace" where
  "memory_view r =
     \<lparr>ks_list = at_key (mem_lists r), ks_hash = (\<lambda>k. map_of (at_key (mem_hashes r) k)),
      ks_set = (\<lambda>k. set (at_key (mem_sets r) k)), ks_zset = (\<lambda>k. map_of (at_key (mem_zsets r) k))\<rparr>"

definition without :: "string list \<Rightarrow> 'a dict \<Rightarrow> 'a dict" where
  "without ks d = filter (\<lambda>(k, _). k \<notin> set ks) d"

definition memory_commands :: "memory redis_commands" where
  "memory_commands =
     \<lparr>r_lpop = (\<lambda>k r. case at_key (mem_lists r) k of
         [] \<Rightarrow> (None, r) | i # ids \<Rightarrow> (Some i, r\<lparr>mem_lists := AList.update k ids (mem_lists r)\<rparr>)),
      r_rpush = (\<lambda>k i r. r\<lparr>mem_lists := AList.update k (at_key (mem_lists r) k @ [i]) (mem_lists r)\<rparr>),
      r_hset = (\<lambda>k i d r. r\<lparr>mem_hashes := AList.update k (AList.update i d (at_key (mem_hashes r) k)) (mem_hashes r)\<rparr>),
      r_hget = (\<lambda>k i r. map_of (at_key (mem_hashes r) k) i),
      r_hmget = (\<lambda>k ids r. map (map_of (at_key (mem_hashes r) k)) ids),
      r_hexists = (\<lambda>k i r. map_of (at_key (mem_hashes r) k) i \<noteq> None),
      r_hdel = (\<lambda>k ids r. r\<lparr>mem_hashes := AList.update k (without ids (at_key (mem_hashes r) k)) (mem_hashes r)\<rparr>),
      r_hlen = (\<lambda>k r. length (remdups (map fst (at_key (mem_hashes r) k)))),
      r_sadd = (\<lambda>k i r. r\<lparr>mem_sets := AList.update k (List.insert i (at_key (mem_sets r) k)) (mem_sets r)\<rparr>),
      r_srem = (\<lambda>k i r. (if i \<in> set (at_key (mem_sets r) k) then 1 else 0,
         r\<lparr>mem_sets := AList.update k (removeAll i (at_key (mem_sets r) k)) (mem_sets r)\<rparr>)),
      r_smembers = (\<lambda>k r. remdups (at_key (mem_sets r) k)),
      r_scard = (\<lambda>k r. length (remdups (at_key (mem_sets r) k))),
      r_del = (\<lambda>ks r. \<lparr>mem_lists = without ks (mem_lists r), mem_hashes = without ks (mem_hashes r),
         mem_sets = without ks (mem_sets r), mem_zsets = without ks (mem_zsets r)\<rparr>),
      r_zadd = (\<lambda>k t i r. r\<lparr>mem_zsets := AList.update k (AList.update i t (at_key (mem_zsets r) k)) (mem_zsets r)\<rparr>),
      r_zrangebyscore = (\<lambda>k lo hi r. let z = at_key (mem_zsets r) k
         in filter (\<lambda>i. case map_of z i of None \<Rightarrow> False | Some t \<Rightarrow> lo \<le> t \<and> t \<le> hi) (map fst z)),
      r_zrem = (\<lambda>k ids r. r\<lparr>mem_zsets := AList.update k (without ids (at_key (mem_zsets r) k)) (mem_zsets r)\<rparr>),
      r_keys = (\<lambda>p r. filter (prefix p) (map fst (filter (\<lambda>(k, x). at_key (mem_sets r) k \<noteq> []) (mem_sets r))
         @ map fst (filter (\<lambda>(k, x). x \<noteq> []) (mem_lists r)) @ map fst (filter (\<lambda>(k, x). x \<noteq> []) (mem_hashes r))
         @ map fst (filter (\<lambda>(k, x). x \<noteq> []) (mem_zsets r))))\<rparr>"

lemma at_key_update [simp]: "at_key (AList.update k x d) j = (if j = k then x else at_key d j)"
  by (simp add: at_key_def)

lemma map_of_without [simp]: "map_of (without ks d) = map_of d |` (- set ks)"
proof
  fix k show "map_of (without ks d) k = (map_of d |` (- set ks)) k"
    by (induction d) (auto simp: without_def restrict_map_def)
qed

lemma at_key_without [simp]: "at_key (without ks d) k = (if k \<in> set ks then [] else at_key d k)"
  by (simp add: at_key_def)

lemma at_key_in: "at_key d k \<noteq> [] \<Longrightarrow> \<exists>x. (k, x) \<in> set d"
  by (auto simp: at_key_def split: option.splits dest: map_of_SomeD)

interpretation memory: redis_server memory_commands memory_view
proof unfold_locales
  show "finite (dom (ks_hash (memory_view r) k))" for r k
    by (simp add: memory_view_def finite_dom_map_of)
  show "r_hlen memory_commands k r = card (dom (ks_hash (memory_view r) k))" for r k
    by (simp add: memory_view_def memory_commands_def dom_map_of_conv_image_fst length_remdups_card_conv)
  show "ks_set (memory_view r) k = {}" if "r_keys memory_commands p r = []" "prefix p k" for p r k
  proof (rule ccontr)
    assume "ks_set (memory_view r) k \<noteq> {}"
    then have "at_key (mem_sets r) k \<noteq> []" by (simp add: memory_view_def)
    with at_key_in [OF this] that show False by (force simp: memory_commands_def filter_empty_conv)
  qed
qed (auto simp: memory_view_def memory_commands_def fun_eq_iff restrict_map_def Let_def length_remdups_card_conv
      dest: weak_map_of_SomeI intro: rev_image_eqI map_of_SomeD split: list.splits option.splits)

section \<open>No message is lost\<close>

text \<open>
  Any number of runs of the script, by any workers, for any queues, with any commands and with or
  without maintenance. A message is enqueued under an id that its queue does not have yet (a uuid).
\<close>

inductive redis_runs :: "'r redis_commands \<Rightarrow> ('r \<Rightarrow> keyspace) \<Rightarrow> string \<Rightarrow> 'r \<Rightarrow> 'r \<Rightarrow> bool" for R view ns r where
  start: "redis_runs R view ns r r"
| run: "redis_runs R view ns r r' \<Longrightarrow> plain_queue q \<Longrightarrow> worker_id w \<Longrightarrow> 0 < hb
    \<Longrightarrow> (\<And>i d. c = Enqueue i d \<Longrightarrow> i \<notin> mentions (queue_of ns q (view r')))
    \<Longrightarrow> redis_runs R view ns r (snd (dispatch R ns t q w hb ttl m k c r'))"

context redis_server
begin

lemma runs_in:
  assumes "redis_runs R view ns r r'" and "plain_queue q" and "mq_ok (queue_in ns q r)"
  shows "mq_step\<^sup>*\<^sup>* (queue_in ns q r) (queue_in ns q r')"
  using assms(1)
proof (induction rule: redis_runs.induct)
  case (run r' p w hb c t ttl m k)
  have "\<forall>w. mq_alive (queue_in ns q r') w \<noteq> None \<longrightarrow> worker_id w"
    using mq_steps_ok [OF run.IH assms(3)] by (simp add: mq_ok_def)
  then have "mq_step\<^sup>*\<^sup>* (queue_in ns q r') (queue_in ns q (snd (dispatch R ns t p w hb ttl m k c r')))"
    by (rule dispatch_in [OF assms(2) run.hyps(2,3) _ run.hyps(5,4)])
  with run.IH show ?case by simp
qed simp

lemma fetch_exact:
  assumes "plain_queue q" "worker_id w"
  shows "fetch_ids R (queue_key ns q) (acks_key ns w q) n r = (ids, r') \<Longrightarrow>
    ids = take n (mq_waiting (queue_in ns q r)) \<and> queue_in ns q r' = (queue_in ns q r)
      \<lparr>mq_waiting := drop n (mq_waiting (queue_in ns q r)),
       mq_fetched := (mq_fetched (queue_in ns q r))(w := mq_fetched (queue_in ns q r) w \<union> set ids)\<rparr>"
proof (induction n arbitrary: r ids)
  case (Suc n)
  obtain x r1 where pop: "r_lpop R (queue_key ns q) r = (x, r1)" by force
  note here = pop_in [OF assms(1,1) pop]
  show ?case
  proof (cases "mq_waiting (queue_in ns q r)")
    case Nil
    have "queue_in ns q r = (queue_in ns q r)\<lparr>mq_waiting := []\<rparr>" using Nil [symmetric] by simp
    with Nil here pop Suc.prems show ?thesis by simp
  next
    case (Cons i rest)
    let ?r2 = "r_sadd R (acks_key ns w q) i r1"
    obtain ids' where ids: "fetch_ids R (queue_key ns q) (acks_key ns w q) n ?r2 = (ids', r')" "ids = i # ids'"
      using Suc.prems(1) pop Cons here by (auto split: prod.splits)
    have "queue_in ns q ?r2 = (queue_in ns q r)\<lparr>mq_waiting := rest,
        mq_fetched := (mq_fetched (queue_in ns q r))(w := insert i (mq_fetched (queue_in ns q r) w))\<rparr>"
      using here Cons by (simp add: add_in [OF assms(2)])
    with Suc.IH [OF ids(1)] ids(2) Cons show ?thesis
      by (simp del: fun_upd_apply add: fun_upd_same)
  qed
qed simp

lemma fetch_now:
  assumes "plain_queue q" "worker_id w" and "mq_ok (queue_in ns q r)"
  shows "let Q = queue_in ns q r; ids = take (min n k) (mq_waiting Q);
       r' = dispatch R ns t q w hb ttl False k (Fetch n) r
     in fst r' = Bulk (map (mq_data Q) ids) \<and> None \<notin> set (map (mq_data Q) ids)
      \<and> queue_in ns q (snd r') = Q\<lparr>mq_waiting := drop (min n k) (mq_waiting Q),
          mq_fetched := (mq_fetched Q)(w := mq_fetched Q w \<union> set ids), mq_alive := (mq_alive Q)(w \<mapsto> t)\<rparr>"
proof -
  let ?Q = "queue_of ns q (view r)" and ?r1 = "r_zadd R (heartbeats_key ns) t w r"
  obtain ids r' where f: "fetch_ids R (queue_key ns q) (acks_key ns w q) (min n k) ?r1 = (ids, r')" by force
  note beat = beat_in [of ns q t w r]
  note exact = fetch_exact [OF assms(1,2) f]
  have ids: "ids = take (min n k) (mq_waiting ?Q)" using exact by (simp add: beat)
  have "set ids \<subseteq> dom (mq_data ?Q)"
    using assms(3) ids by (auto simp: mq_ok_def dest: in_set_takeD)
  moreover have "mq_data (queue_of ns q (view r')) = mq_data ?Q" using exact by (simp add: beat)
  then have "ks_hash (view r') (messages_key ns q) = mq_data ?Q" by (simp add: queue_of_def)
  ultimately show ?thesis
    using f exact ids hmget
    by (auto simp: dispatch_def run_command_def Let_def beat)
qed

end

text \<open>
  C3. No message is lost, and none is handed out twice: after any runs of the dispatch script, by any
  workers and for any queues, every queue is well-formed if it was at the start. That is, each message
  whose data is stored has its id either waiting in its queue or among the unacknowledged ids of
  exactly one worker, which is in the list of heartbeats; ids wait at most once, and the data of every
  waiting id is there.
\<close>

theorem redis_messages_kept:
  assumes "redis_server R view" and "redis_runs R view ns r r'"
    and "plain_queue q" and "mq_ok (queue_of ns q (view r))"
  shows "mq_ok (queue_of ns q (view r'))"
  using mq_steps_ok [OF redis_server.runs_in [OF assms]] assms(4) .

definition no_memory :: memory where
  "no_memory = \<lparr>mem_lists = [], mem_hashes = [], mem_sets = [], mem_zsets = []\<rparr>"

lemma no_memory_ok: "mq_ok (queue_of ns q (memory_view no_memory))"
  by (simp add: mq_ok_def queue_of_def memory_view_def no_memory_def at_key_def)

text \<open>One worker enqueues a message and another fetches it.\<close>

definition enqueued_memory :: memory where
  "enqueued_memory = snd (dispatch memory_commands ''d'' 0 ''default'' ''a'' 60000 1000 False 100 (Enqueue ''m1'' ''data'') no_memory)"

definition fetched_memory :: memory where
  "fetched_memory = snd (dispatch memory_commands ''d'' 5 ''default'' ''b'' 60000 1000 True 100 (Fetch 2) enqueued_memory)"

lemma default_plain: "plain_queue ''default''"
  by (simp add: plain_queue_def endswith_def suffix_def)

lemma enqueued_memory_runs: "redis_runs memory_commands memory_view ''d'' no_memory enqueued_memory"
  unfolding enqueued_memory_def
  by (rule redis_runs.run [OF redis_runs.start])
    (auto simp: default_plain worker_id_def mentions_def queue_of_def memory_view_def no_memory_def at_key_def)

lemma fetched_memory_runs: "redis_runs memory_commands memory_view ''d'' no_memory fetched_memory"
  unfolding fetched_memory_def
  by (rule redis_runs.run [OF enqueued_memory_runs]) (simp_all add: default_plain worker_id_def)

theorem redis_messages_kept_witness:
  "mq_ok (queue_of ''d'' ''default'' (memory_view fetched_memory))
   \<and> ''m1'' \<in> mq_fetched (queue_of ''d'' ''default'' (memory_view fetched_memory)) ''b''"
proof
  show "mq_ok (queue_of ''d'' ''default'' (memory_view fetched_memory))"
    by (rule redis_messages_kept [OF memory.redis_server_axioms fetched_memory_runs default_plain no_memory_ok])
  have "''m1'' \<in> set (at_key (mem_sets fetched_memory) (acks_key ''d'' ''b'' ''default''))" by code_simp
  then show "''m1'' \<in> mq_fetched (queue_of ''d'' ''default'' (memory_view fetched_memory)) ''b''"
    by (simp add: queue_of_def memory_view_def worker_id_def)
qed

lemma memory_ok:
  "mq_ok (queue_of ''d'' ''default'' (memory_view enqueued_memory))"
  "mq_ok (queue_of ''d'' ''default'' (memory_view fetched_memory))"
  using mq_steps_ok [OF memory.runs_in [OF enqueued_memory_runs default_plain no_memory_ok] no_memory_ok]
    mq_steps_ok [OF memory.runs_in [OF fetched_memory_runs default_plain no_memory_ok] no_memory_ok] .

text \<open>
  A fetch takes the oldest waiting messages, as many as are asked for and the script can unpack,
  to the worker's unacknowledged ones, and returns their data in order: the data of none of them is
  missing.
\<close>

theorem fetch_oldest:
  assumes "redis_server R view" and "plain_queue q" "worker_id w"
    and "mq_ok (queue_of ns q (view r))"
  shows "let Q = queue_of ns q (view r); ids = take (min n k) (mq_waiting Q);
       r' = dispatch R ns t q w hb ttl False k (Fetch n) r
     in fst r' = Bulk (map (mq_data Q) ids) \<and> None \<notin> set (map (mq_data Q) ids)
      \<and> queue_of ns q (view (snd r')) = Q\<lparr>mq_waiting := drop (min n k) (mq_waiting Q),
          mq_fetched := (mq_fetched Q)(w := mq_fetched Q w \<union> set ids), mq_alive := (mq_alive Q)(w \<mapsto> t)\<rparr>"
  using redis_server.fetch_now [OF assms] .

theorem fetch_oldest_witness:
  "let Q = queue_of ''d'' ''default'' (memory_view enqueued_memory); ids = take (min 3 100) (mq_waiting Q);
       r' = dispatch memory_commands ''d'' 5 ''default'' ''b'' 60000 1000 False 100 (Fetch 3) enqueued_memory
   in fst r' = Bulk (map (mq_data Q) ids) \<and> None \<notin> set (map (mq_data Q) ids)
     \<and> queue_of ''d'' ''default'' (memory_view (snd r')) = Q\<lparr>mq_waiting := drop (min 3 100) (mq_waiting Q),
          mq_fetched := (mq_fetched Q)(''b'' := mq_fetched Q ''b'' \<union> set ids), mq_alive := (mq_alive Q)(''b'' \<mapsto> 5)\<rparr>"
  by (rule fetch_oldest [OF memory.redis_server_axioms default_plain _ memory_ok(1)]) (simp add: worker_id_def)

text \<open>
  Acknowledging settles a message once: the data of a message that the worker has fetched is
  removed and the message is no longer its own; an id that the worker has not fetched, or that was
  given back to the queue because the worker was taken for dead, changes nothing.
\<close>

theorem acknowledged_once:
  assumes "redis_server R view" and "plain_queue q" "worker_id w"
  shows "let Q = queue_of ns q (view r)
     in queue_of ns q (view (snd (dispatch R ns t q w hb ttl False k (Ack i) r))) =
      (if i \<in> mq_fetched Q w
       then Q\<lparr>mq_data := (mq_data Q)(i := None), mq_fetched := (mq_fetched Q)(w := mq_fetched Q w - {i}), mq_alive := (mq_alive Q)(w \<mapsto> t)\<rparr>
       else Q\<lparr>mq_alive := (mq_alive Q)(w \<mapsto> t)\<rparr>)"
proof -
  let ?Q = "queue_of ns q (view r)" and ?r1 = "r_zadd R (heartbeats_key ns) t w r"
  obtain n r2 where 1: "r_srem R (acks_key ns w q) i ?r1 = (n, r2)" by force
  note beat = redis_server.beat_in [OF assms(1), of ns q t w r]
  note n = redis_server.take_in(1) [OF assms(1,3) 1] and q = redis_server.take_in(2) [OF assms(1,3) 1, of q]
  have none: "(mq_fetched ?Q)(w := mq_fetched ?Q w - {i}) = mq_fetched ?Q" if "i \<notin> mq_fetched ?Q w"
    using that by (simp add: fun_eq_iff)
  show ?thesis
    using 1 n q redis_server.data_in(2) [OF assms(1,2,2), of ns i r2] none
    by (auto simp: dispatch_def run_command_def Let_def beat)
qed

theorem acknowledged_once_witness:
  "let Q = queue_of ''d'' ''default'' (memory_view fetched_memory)
   in ''m1'' \<in> mq_fetched Q ''b'' \<and>
      queue_of ''d'' ''default'' (memory_view (snd (dispatch memory_commands ''d'' 9 ''default'' ''b'' 60000 1000 False 100 (Ack ''m1'') fetched_memory))) =
        Q\<lparr>mq_data := (mq_data Q)(''m1'' := None), mq_fetched := (mq_fetched Q)(''b'' := mq_fetched Q ''b'' - {''m1''}),
          mq_alive := (mq_alive Q)(''b'' \<mapsto> 9)\<rparr>"
proof -
  have "''m1'' \<in> set (at_key (mem_sets fetched_memory) (acks_key ''d'' ''b'' ''default''))" by code_simp
  then have "''m1'' \<in> mq_fetched (queue_of ''d'' ''default'' (memory_view fetched_memory)) ''b''"
    by (simp add: queue_of_def memory_view_def worker_id_def)
  then show ?thesis
    using acknowledged_once [OF memory.redis_server_axioms default_plain, of "''b''" "''d''" fetched_memory 9 60000 1000 100 "''m1''"]
    by (simp add: Let_def worker_id_def)
qed

text \<open>
  C15. The messages of a dead worker come back: maintenance for a queue, run by any worker, leaves
  nothing fetched to a worker whose last heartbeat is older than the timeout, and every message it had
  fetched whose data is still there is waiting again.
\<close>

theorem dead_worker_recovered:
  assumes "redis_server R view" and "plain_queue q" "worker_id w" "w \<noteq> dead"
    and "mq_ok (queue_of ns q (view r))"
    and "mq_alive (queue_of ns q (view r)) dead = Some u" "0 \<le> u" "u \<le> t - hb"
  shows "let Q = queue_of ns q (view r); Q' = queue_of ns q (view (snd (dispatch R ns t q w hb ttl True k Qsize r)))
     in mq_fetched Q' dead = {} \<and> mq_fetched Q dead \<inter> dom (mq_data Q) \<subseteq> set (mq_waiting Q')
      \<and> mq_data Q' = mq_data Q"
proof -
  let ?Q = "queue_of ns q (view r)" and ?r1 = "r_zadd R (heartbeats_key ns) t w r"
  let ?ws = "r_zrangebyscore R (heartbeats_key ns) 0 (t - hb) ?r1"
  note beat = redis_server.beat_in [OF assms(1), of ns q t w r]
  have "mq_alive (queue_of ns q (view ?r1)) v = ks_zset (view ?r1) (heartbeats_key ns) v" for v
    by (simp add: queue_of_def)
  then have ws: "set ?ws = {v. \<exists>u. ((mq_alive ?Q)(w \<mapsto> t)) v = Some u \<and> 0 \<le> u \<and> u \<le> t - hb}"
    using beat by (simp add: redis_server.zrangebyscore [OF assms(1)])
  have "\<forall>v. mq_alive ?Q v \<noteq> None \<longrightarrow> worker_id v" using assms(5) by (simp add: mq_ok_def)
  then have "\<forall>v \<in> set ?ws. worker_id v" using ws assms(3) by (auto split: if_splits)
  note brought = redis_server.recover_all_back [OF assms(1,2) this, of ns ?r1]
  have "dead \<in> set ?ws" using ws assms(4,6-8) by simp
  with brought show ?thesis
    by (auto simp: dispatch_def run_command_def Let_def maintain_def redis_server.drop_dead [OF assms(1,2,2)] beat)
qed

theorem dead_worker_recovered_witness:
  "let Q = queue_of ''d'' ''default'' (memory_view fetched_memory);
       Q' = queue_of ''d'' ''default'' (memory_view (snd (dispatch memory_commands ''d'' 70000 ''default'' ''c'' 60000 1000 True 100 Qsize fetched_memory)))
   in mq_fetched Q' ''b'' = {} \<and> mq_fetched Q ''b'' \<inter> dom (mq_data Q) \<subseteq> set (mq_waiting Q') \<and> mq_data Q' = mq_data Q"
proof -
  have "map_of (at_key (mem_zsets fetched_memory) (heartbeats_key ''d'')) ''b'' = Some 5" by code_simp
  then have "mq_alive (queue_of ''d'' ''default'' (memory_view fetched_memory)) ''b'' = Some 5"
    by (simp add: queue_of_def memory_view_def)
  then show ?thesis
    by (intro dead_worker_recovered [OF memory.redis_server_axioms default_plain _ _ memory_ok(2), where u = 5])
      ((assumption | simp add: worker_id_def)+)
qed

end
