(* ===== verification/Redis_Refinement.thy ===== *)
theory Redis_Refinement
  imports Redis_Delivery
begin

text \<open>
  What each command of the dispatch script does, as an operation on the abstract queue and its dead
  letters, and what maintenance does: the script refines these operations.
\<close>

section \<open>Operations of the abstract queue\<close>

text \<open>
  Ids that a worker gives back join the waiting ones at the end, one after the other, if the worker had
  fetched them and their data is still there.
\<close>

definition give_back :: "string \<Rightarrow> string \<Rightarrow> message_queue \<Rightarrow> message_queue" where
  "give_back w i Q =
     (if i \<in> mq_fetched Q w
      then Q\<lparr>mq_waiting := mq_waiting Q @ (if mq_data Q i = None then [] else [i]),
             mq_fetched := (mq_fetched Q)(w := mq_fetched Q w - {i})\<rparr>
      else Q)"

text \<open>\<open>k\<close> is how many ids the script can unpack at once.\<close>

fun mq_command :: "string \<Rightarrow> nat \<Rightarrow> command \<Rightarrow> message_queue \<Rightarrow> message_queue" where
  "mq_command w k (Enqueue i d) Q = Q\<lparr>mq_waiting := mq_waiting Q @ [i], mq_data := (mq_data Q)(i \<mapsto> d)\<rparr>"
| "mq_command w k (Fetch n) Q =
     Q\<lparr>mq_waiting := drop (min n k) (mq_waiting Q),
       mq_fetched := (mq_fetched Q)(w := mq_fetched Q w \<union> set (take (min n k) (mq_waiting Q)))\<rparr>"
| "mq_command w k (Requeue ids) Q = fold (give_back w) ids Q"
| "mq_command w k (Ack i) Q =
     (if i \<in> mq_fetched Q w
      then Q\<lparr>mq_data := (mq_data Q)(i := None), mq_fetched := (mq_fetched Q)(w := mq_fetched Q w - {i})\<rparr> else Q)"
| "mq_command w k (Nack i) Q =
     (if i \<in> mq_fetched Q w
      then Q\<lparr>mq_data := (mq_data Q)(i := None), mq_fetched := (mq_fetched Q)(w := mq_fetched Q w - {i})\<rparr> else Q)"
| "mq_command w k Purge Q = Q\<lparr>mq_waiting := [], mq_data := Map.empty, mq_fetched := (mq_fetched Q)(w := {})\<rparr>"
| "mq_command w k Qsize Q = Q"

fun mq_reply :: "nat \<Rightarrow> nat \<Rightarrow> command \<Rightarrow> message_queue \<Rightarrow> reply" where
  "mq_reply stored k (Fetch n) Q = Bulk (map (mq_data Q) (take (min n k) (mq_waiting Q)))"
| "mq_reply stored k Qsize Q = Count stored"
| "mq_reply stored k _ Q = Nil_Reply"

text \<open>The dead letters of a queue: the data of each, and when it was rejected.\<close>

type_synonym letters = "string \<Rightarrow> string option \<times> int option"

definition letters_of :: "string \<Rightarrow> string \<Rightarrow> keyspace \<Rightarrow> letters" where
  "letters_of ns q v = (\<lambda>i. (ks_hash v (xqueue_messages_key ns q) i, ks_zset v (xqueue_key ns q) i))"

fun mq_letters :: "int \<Rightarrow> string \<Rightarrow> command \<Rightarrow> message_queue \<Rightarrow> letters \<Rightarrow> letters" where
  "mq_letters t w (Nack i) Q L =
     (if i \<in> mq_fetched Q w \<and> mq_data Q i \<noteq> None then L(i := (mq_data Q i, Some t)) else L)"
| "mq_letters t w Purge Q L = (\<lambda>i. (None, None))"
| "mq_letters t w _ Q L = L"

text \<open>
  Maintenance: whatever the dead workers had fetched joins the waiting ones at the end, in some order,
  unless its data is gone; dead workers may be forgotten. Dead letters that are old enough are dropped.
\<close>

definition mq_maintained :: "string set \<Rightarrow> message_queue \<Rightarrow> message_queue \<Rightarrow> bool" where
  "mq_maintained dead Q Q' =
     (mq_data Q' = mq_data Q \<and> mq_fetched Q' = (\<lambda>v. if v \<in> dead then {} else mq_fetched Q v)
    \<and> (\<exists>ids. mq_waiting Q' = mq_waiting Q @ ids \<and> set ids = {i. mq_data Q i \<noteq> None \<and> (\<exists>v \<in> dead. i \<in> mq_fetched Q v)})
    \<and> (\<forall>v. mq_alive Q' v \<noteq> mq_alive Q v \<longrightarrow> v \<in> dead \<and> mq_alive Q' v = None))"

definition mq_expired :: "int \<Rightarrow> letters \<Rightarrow> letters" where
  "mq_expired before L = (\<lambda>i. case snd (L i) of None \<Rightarrow> L i | Some u \<Rightarrow> if 0 \<le> u \<and> u \<le> before then (None, None) else L i)"

text \<open>Messages that a worker has in hand or that wait, as the script counts them.\<close>

definition mq_size :: "string \<Rightarrow> message_queue \<Rightarrow> nat" where
  "mq_size w Q = card (dom (mq_data Q)) + card (mq_fetched Q w)"

section \<open>The script refines them\<close>

lemma give_back_fields [simp]: "mq_data (give_back w i Q) = mq_data Q" "mq_alive (give_back w i Q) = mq_alive Q"
  by (simp_all add: give_back_def)

lemma concat_chunks: "concat (iter_chunks n xs) = xs"
proof (induction n xs rule: iter_chunks.induct)
  case (2 n x xs)
  have "take (max 1 n) (x # xs) @ drop (max 1 n - 1) xs = x # xs" by (cases n) auto
  with 2 show ?case by simp
qed simp

lemma maintained_refl: "mq_maintained {} Q Q"
  by (simp add: mq_maintained_def)

lemma maintained_trans:
  assumes "mq_maintained A Q Q'" and "mq_maintained B Q' Q''"
  shows "mq_maintained (A \<union> B) Q Q''"
proof -
  from assms obtain xs ys where "mq_waiting Q' = mq_waiting Q @ xs" "mq_waiting Q'' = mq_waiting Q' @ ys"
    "set xs = {i. mq_data Q i \<noteq> None \<and> (\<exists>v \<in> A. i \<in> mq_fetched Q v)}"
    "set ys = {i. mq_data Q' i \<noteq> None \<and> (\<exists>v \<in> B. i \<in> mq_fetched Q' v)}"
    unfolding mq_maintained_def by blast
  with assms have "mq_waiting Q'' = mq_waiting Q @ (xs @ ys)
      \<and> set (xs @ ys) = {i. mq_data Q i \<noteq> None \<and> (\<exists>v \<in> A \<union> B. i \<in> mq_fetched Q v)}"
    by (auto simp: mq_maintained_def split: if_splits)
  then show ?thesis using assms unfolding mq_maintained_def by (auto simp: fun_eq_iff) metis+
qed

context redis_server
begin

abbreviation letters_in :: "string \<Rightarrow> string \<Rightarrow> 'r \<Rightarrow> letters" where
  "letters_in ns q r \<equiv> letters_of ns q (view r)"

text \<open>What leaves the dead letters alone.\<close>

lemma letters_same:
  assumes "plain_queue q"
  shows "letters_in ns q (r_zadd R (heartbeats_key ns) t w r) = letters_in ns q r"
    "letters_in ns q (r_zrem R (heartbeats_key ns) ws r) = letters_in ns q r"
    "letters_in ns q (r_rpush R l i r) = letters_in ns q r"
    "letters_in ns q (r_hset R (messages_key ns q) i d r) = letters_in ns q r"
    "letters_in ns q (r_hdel R (messages_key ns q) ids r) = letters_in ns q r"
    "letters_in ns q (r_sadd R l i r) = letters_in ns q r"
    "letters_in ns q (r_del R [acks_key ns w q] r) = letters_in ns q r"
  using keys_apart [OF assms assms, of ns] keys_apart(10,11) [OF assms assms, of ns, THEN not_sym]
  by (simp_all add: letters_of_def zadd zrem rpush hset hdel sadd del)

lemma letters_taken:
  "r_lpop R l r = (x, r') \<Longrightarrow> letters_in ns q r' = letters_in ns q r"
  "r_srem R l i r = (n, r') \<Longrightarrow> letters_in ns q r' = letters_in ns q r"
  by (auto simp: letters_of_def dest!: lpop srem split: list.splits)

lemma letters_added:
  "letters_in ns q (r_hset R (xqueue_messages_key ns q) i d (r_zadd R (xqueue_key ns q) t i r)) = (letters_in ns q r)(i := (Some d, Some t))"
  "letters_in ns q (r_hdel R (xqueue_messages_key ns q) ids (r_zrem R (xqueue_key ns q) ids r))
     = (\<lambda>i. if i \<in> set ids then (None, None) else letters_in ns q r i)"
  "letters_in ns q (r_del R [queue_key ns q, acks_key ns w q, messages_key ns q, xqueue_key ns q, xqueue_messages_key ns q] r)
     = (\<lambda>i. (None, None))"
  by (auto simp: letters_of_def hset zadd hdel zrem del fun_eq_iff restrict_map_def)

lemma letters_fetched:
  "plain_queue q \<Longrightarrow> fetch_ids R l a n r = (ids, r') \<Longrightarrow> letters_in ns q r' = letters_in ns q r"
proof (induction n arbitrary: r ids)
  case (Suc n)
  obtain x r1 where 1: "r_lpop R l r = (x, r1)" by force
  from Suc.prems Suc.IH [OF Suc.prems(1)] letters_taken(1) [OF 1, of ns q] show ?case
    by (auto simp: 1 letters_same [OF Suc.prems(1)] split: option.splits prod.splits)
qed simp

lemma letters_requeued:
  "plain_queue q \<Longrightarrow> letters_in ns q (fold (requeue_id R ns w q) ids r) = letters_in ns q r"
proof (induction ids arbitrary: r)
  case (Cons i ids)
  have "letters_in ns q (requeue_id R ns w q i r) = letters_in ns q r"
    using letters_taken(2) [of "acks_key ns w q" i r]
    by (auto simp: requeue_id_def letters_same [OF Cons.prems] split: prod.split)
  with Cons show ?case by simp
qed simp

lemma letters_recovered:
  assumes "plain_queue q"
  shows "letters_in ns q (fold (recover R ns q) ws r) = letters_in ns q r"
proof -
  have push: "letters_in ns q (fold (\<lambda>i r. if r_hexists R k i r then r_rpush R l i r else r) ids r) = letters_in ns q r"
    for k l ids and r
    by (induction ids arbitrary: r) (simp_all add: letters_same [OF assms])
  show ?thesis
    by (induction ws arbitrary: r) (simp_all add: recover_def Let_def letters_same [OF assms] push)
qed

lemma letters_expired:
  assumes "plain_queue q"
  shows "letters_in ns q (maintain R ns q t hb ttl k r) = mq_expired (t - ttl) (letters_in ns q r)"
proof -
  have drop: "letters_in ns q (fold (\<lambda>batch r. r_hdel R (xqueue_messages_key ns q) batch (r_zrem R (xqueue_key ns q) batch r)) bs r)
      = (\<lambda>i. if i \<in> set (concat bs) then (None, None) else letters_in ns q r i)" for bs r
    by (induction bs arbitrary: r) (auto simp: letters_added)
  define r1 where "r1 = fold (recover R ns q) (r_zrangebyscore R (heartbeats_key ns) 0 (t - hb) r) r"
  have L: "letters_in ns q r1 = letters_in ns q r" unfolding r1_def by (rule letters_recovered [OF assms])
  then have z: "ks_zset (view r1) (xqueue_key ns q) = ks_zset (view r) (xqueue_key ns q)"
    by (auto simp: letters_of_def fun_eq_iff)
  show ?thesis
    unfolding maintain_def Let_def r1_def [symmetric] drop concat_chunks L
    by (auto simp: mq_expired_def letters_of_def zrangebyscore z fun_eq_iff split: option.split)
qed

lemma requeue_exact:
  assumes "plain_queue q" "worker_id w"
  shows "queue_in ns q (fold (requeue_id R ns w q) ids r) = fold (give_back w) ids (queue_in ns q r)"
proof (induction ids arbitrary: r)
  case (Cons i ids)
  obtain n r1 where 1: "r_srem R (acks_key ns w q) i r = (n, r1)" by force
  note n = take_in(1) [OF assms(2) 1] and q = take_in(2) [OF assms(2) 1, of q]
  have x: "r_hexists R (messages_key ns q) i r1 \<longleftrightarrow> mq_data (queue_in ns q r) i \<noteq> None"
    using q by (simp add: hexists) (simp add: queue_of_def)
  have same: "(mq_fetched (queue_in ns q r))(w := mq_fetched (queue_in ns q r) w - {i}) = mq_fetched (queue_in ns q r)"
    if "i \<notin> mq_fetched (queue_in ns q r) w" using that by (simp add: fun_eq_iff)
  have "queue_in ns q (requeue_id R ns w q i r) = give_back w i (queue_in ns q r)"
    using 1 n q x same by (auto simp: requeue_id_def give_back_def push_in [OF assms(1,1)])
  with Cons.IH show ?case by simp
qed simp

text \<open>A command for the queue itself, and what it does to another queue: nothing.\<close>

lemma run_exact:
  assumes q: "plain_queue q" "worker_id w" and run: "run_command R ns t q w k c r = (x, r')"
  shows "queue_in ns q r' = mq_command w k c (queue_in ns q r)"
    and "letters_in ns q r' = mq_letters t w c (queue_in ns q r) (letters_in ns q r)"
    and "x = mq_reply (mq_size w (queue_in ns (queue_canonical_name q @ ''.DQ'') r')
        + mq_size w (queue_in ns (queue_canonical_name q) r')) k c (queue_in ns q r)"
proof -
  have "queue_in ns q r' = mq_command w k c (queue_in ns q r)
    \<and> letters_in ns q r' = mq_letters t w c (queue_in ns q r) (letters_in ns q r)
    \<and> x = mq_reply (mq_size w (queue_in ns (queue_canonical_name q @ ''.DQ'') r')
        + mq_size w (queue_in ns (queue_canonical_name q) r')) k c (queue_in ns q r)"
  proof (cases c)
    case (Enqueue i d)
    with run show ?thesis
      by (auto simp: run_command_def push_in [OF q(1,1)] data_in [OF q(1,1)] letters_same [OF q(1)])
  next
    case (Fetch n)
    obtain ids r1 where f: "fetch_ids R (queue_key ns q) (acks_key ns w q) (min n k) r = (ids, r1)" by force
    note e = fetch_exact [OF q f]
    have "mq_data (queue_in ns q r1) = mq_data (queue_in ns q r)" using e by simp
    then have d: "ks_hash (view r1) (messages_key ns q) = mq_data (queue_in ns q r)" by (simp add: queue_of_def)
    from run Fetch f have "x = Bulk (map (mq_data (queue_in ns q r)) ids)" "r' = r1"
      by (auto simp: run_command_def hmget d split: if_splits)
    with Fetch e letters_fetched [OF q(1) f] show ?thesis by (simp del: fun_upd_apply)
  next
    case (Requeue ids)
    with run show ?thesis
      by (auto simp: run_command_def requeue_exact [OF q] letters_requeued [OF q(1)])
  next
    case (Ack i)
    obtain n r1 where 1: "r_srem R (acks_key ns w q) i r = (n, r1)" by force
    have same: "(mq_fetched (queue_in ns q r))(w := mq_fetched (queue_in ns q r) w - {i}) = mq_fetched (queue_in ns q r)"
      if "i \<notin> mq_fetched (queue_in ns q r) w" using that by (simp add: fun_eq_iff)
    from run Ack 1 take_in [OF q(2) 1] letters_taken(2) [OF 1] same show ?thesis
      by (auto simp: run_command_def data_in [OF q(1,1)] letters_same [OF q(1)])
  next
    case (Nack i)
    obtain n r1 where 1: "r_srem R (acks_key ns w q) i r = (n, r1)" by force
    note t = take_in(1) [OF q(2) 1] take_in(2) [OF q(2) 1, of q]
    have x: "r_hget R (messages_key ns q) i r1 = mq_data (queue_in ns q r) i"
      using t(2) by (simp add: hget) (simp add: queue_of_def)
    have same: "(mq_fetched (queue_in ns q r))(w := mq_fetched (queue_in ns q r) w - {i}) = mq_fetched (queue_in ns q r)"
      if "i \<notin> mq_fetched (queue_in ns q r) w" using that by (simp add: fun_eq_iff)
    have gone: "(mq_data (queue_in ns q r))(i := None) = mq_data (queue_in ns q r)"
      if "mq_data (queue_in ns q r) i = None" using that by (simp add: fun_eq_iff)
    from run Nack 1 t x letters_taken(2) [OF 1] same gone show ?thesis
      by (auto simp: run_command_def data_in [OF q(1,1)] letters_same [OF q(1)] letters_added split: option.splits)
  next
    case Purge
    with run show ?thesis by (auto simp: run_command_def purge_in [OF q(1,1,2)] letters_added)
  next
    case Qsize
    with run q(2) show ?thesis
      by (auto simp: run_command_def Let_def mq_size_def hlen scard queue_of_def)
  qed
  then show "queue_in ns q r' = mq_command w k c (queue_in ns q r)"
    "letters_in ns q r' = mq_letters t w c (queue_in ns q r) (letters_in ns q r)"
    "x = mq_reply (mq_size w (queue_in ns (queue_canonical_name q @ ''.DQ'') r')
        + mq_size w (queue_in ns (queue_canonical_name q) r')) k c (queue_in ns q r)" by blast+
qed

lemma fetch_other:
  assumes "plain_queue q" "plain_queue q'" "worker_id w" "q \<noteq> q'"
  shows "fetch_ids R (queue_key ns q') (acks_key ns w q') n r = (ids, r') \<Longrightarrow> queue_in ns q r' = queue_in ns q r"
proof (induction n arbitrary: r ids)
  case (Suc n)
  obtain x r1 where pop: "r_lpop R (queue_key ns q') r = (x, r1)" by force
  have "queue_in ns q r1 = queue_in ns q r" using pop_in [OF assms(1,2) pop] assms(4) by (auto split: list.splits)
  with Suc.prems Suc.IH show ?case
    by (auto simp: pop add_in [OF assms(3)] assms(4) split: option.splits prod.splits)
qed simp

lemma requeue_other:
  assumes "plain_queue q" "plain_queue q'" "worker_id w" "q \<noteq> q'"
  shows "queue_in ns q (fold (requeue_id R ns w q') ids r) = queue_in ns q r"
proof (induction ids arbitrary: r)
  case (Cons i ids)
  have "queue_in ns q (requeue_id R ns w q' i r) = queue_in ns q r"
    using take_in(2) [OF assms(3), where q' = q' and i = i and r = r and ns = ns and q = q] assms(4)
    by (auto simp: requeue_id_def push_in [OF assms(1,2)] split: prod.split)
  with Cons show ?case by simp
qed simp

lemma run_other:
  assumes q: "plain_queue q" "plain_queue q'" "worker_id w" "q \<noteq> q'" and run: "run_command R ns t q' w k c r = (x, r')"
  shows "queue_in ns q r' = queue_in ns q r"
proof (cases c)
  case (Enqueue i d)
  with run q(4) show ?thesis by (auto simp: run_command_def push_in [OF q(1,2)] data_in [OF q(1,2)])
next
  case (Fetch n)
  obtain ids r1 where f: "fetch_ids R (queue_key ns q') (acks_key ns w q') (min n k) r = (ids, r1)" by force
  with run Fetch fetch_other [OF q f] show ?thesis by (auto simp: run_command_def split: if_splits)
next
  case (Requeue ids)
  with run show ?thesis by (auto simp: run_command_def requeue_other [OF q])
next
  case (Ack i)
  with run q(4) take_in(2) [OF q(3), where q' = q' and i = i and r = r and ns = ns and q = q] show ?thesis
    by (auto simp: run_command_def data_in [OF q(1,2)] split: prod.splits if_splits)
next
  case (Nack i)
  with run q(4) take_in(2) [OF q(3), where q' = q' and i = i and r = r and ns = ns and q = q] show ?thesis
    by (auto simp: run_command_def data_in [OF q(1,2)] split: prod.splits if_splits option.splits)
next
  case Purge
  with run q(4) show ?thesis by (auto simp: run_command_def purge_in [OF q(1-3)])
qed (use run in \<open>simp add: run_command_def Let_def\<close>)

lemma recover_maintained:
  assumes "plain_queue q" "worker_id w"
  shows "mq_maintained {w} (queue_in ns q r) (queue_in ns q (recover R ns q w r))"
proof -
  obtain ids A where "set ids = mq_fetched (queue_in ns q r) w"
    "A = mq_alive (queue_in ns q r) \<or> A = (mq_alive (queue_in ns q r))(w := None)"
    "queue_in ns q (recover R ns q w r) =
        (queue_in ns q r)\<lparr>mq_waiting := mq_waiting (queue_in ns q r) @ filter (\<lambda>i. mq_data (queue_in ns q r) i \<noteq> None) ids,
          mq_fetched := (mq_fetched (queue_in ns q r))(w := {}), mq_alive := A\<rparr>"
    using recover_in(2) [OF assms(1,1,2), of ns r] by auto
  then show ?thesis by (auto simp: mq_maintained_def split: if_splits)
qed

lemma recover_other:
  assumes "plain_queue q" "plain_queue q'" "worker_id w" "q \<noteq> q'"
  shows "\<exists>A. queue_in ns q (recover R ns q' w r) = (queue_in ns q r)\<lparr>mq_alive := A\<rparr>"
  using recover_in(2) [OF assms(1-3), of ns r] assms(4) by auto

lemma maintain_exact:
  assumes "plain_queue q" and "\<forall>w. mq_alive (queue_in ns q r) w \<noteq> None \<longrightarrow> worker_id w"
  shows "mq_maintained {v. \<exists>u. mq_alive (queue_in ns q r) v = Some u \<and> 0 \<le> u \<and> u \<le> t - hb}
    (queue_in ns q r) (queue_in ns q (maintain R ns q t hb ttl k r))"
proof -
  let ?ws = "r_zrangebyscore R (heartbeats_key ns) 0 (t - hb) r"
  have ws: "set ?ws = {v. \<exists>u. mq_alive (queue_in ns q r) v = Some u \<and> 0 \<le> u \<and> u \<le> t - hb}"
    by (simp add: zrangebyscore queue_of_def)
  have "\<forall>w \<in> set ws. worker_id w \<Longrightarrow> mq_maintained (set ws) (queue_in ns q r) (queue_in ns q (fold (recover R ns q) ws r))" for ws r
  proof (induction ws arbitrary: r)
    case (Cons w ws)
    then have w: "worker_id w" and ws: "\<forall>w \<in> set ws. worker_id w" by simp_all
    show ?case
      using maintained_trans [OF recover_maintained [OF assms(1) w] Cons.IH [OF ws]] by simp
  qed (simp add: maintained_refl)
  moreover have "\<forall>w \<in> set ?ws. worker_id w" using assms(2) unfolding ws by blast
  ultimately show ?thesis
    unfolding ws [symmetric] by (simp add: maintain_def Let_def drop_dead [OF assms(1,1)])
qed

lemma maintain_other:
  assumes "plain_queue q" "plain_queue q'" "q \<noteq> q'" and "\<forall>w. mq_alive (queue_in ns q r) w \<noteq> None \<longrightarrow> worker_id w"
  shows "\<exists>A. queue_in ns q (maintain R ns q' t hb ttl k r) = (queue_in ns q r)\<lparr>mq_alive := A\<rparr>"
proof -
  let ?ws = "r_zrangebyscore R (heartbeats_key ns) 0 (t - hb) r"
  have "\<forall>w \<in> set ws. worker_id w \<Longrightarrow> \<exists>A. queue_in ns q (fold (recover R ns q') ws r) = (queue_in ns q r)\<lparr>mq_alive := A\<rparr>" for ws r
  proof (induction ws arbitrary: r)
    case (Cons w ws)
    then have w: "worker_id w" and ws: "\<forall>w \<in> set ws. worker_id w" by simp_all
    from recover_other [OF assms(1,2) w assms(3), of ns r] Cons.IH [OF ws, of "recover R ns q' w r"] show ?case by auto
  next
    case Nil
    show ?case by (rule exI [of _ "mq_alive (queue_in ns q r)"]) simp
  qed
  moreover have "\<forall>w \<in> set ?ws. worker_id w" using assms(4) by (auto simp: zrangebyscore queue_of_def)
  ultimately show ?thesis by (simp add: maintain_def Let_def drop_dead [OF assms(1,2)])
qed

end

lemma dispatch_exact:
  assumes "redis_server R view" and "plain_queue q" "worker_id w" and "mq_ok (queue_of ns q (view r))"
    and run: "dispatch R ns t q w hb ttl m k c r = (reply, r')"
    and Q: "Q = (queue_of ns q (view r))\<lparr>mq_alive := (mq_alive (queue_of ns q (view r)))(w \<mapsto> t)\<rparr>"
    and dead: "dead = {v. \<exists>u. mq_alive Q v = Some u \<and> 0 \<le> u \<and> u \<le> t - hb}"
  shows "\<exists>Q1 L1. (if m then mq_maintained dead Q Q1 \<and> L1 = mq_expired (t - ttl) (letters_of ns q (view r))
              else Q1 = Q \<and> L1 = letters_of ns q (view r))
    \<and> queue_of ns q (view r') = mq_command w k c Q1
    \<and> letters_of ns q (view r') = mq_letters t w c Q1 L1
    \<and> reply = mq_reply (mq_size w (queue_of ns (queue_canonical_name q @ ''.DQ'') (view r'))
          + mq_size w (queue_of ns (queue_canonical_name q) (view r'))) k c Q1
    \<and> (\<forall>q'. plain_queue q' \<and> q' \<noteq> q \<longrightarrow> (\<exists>A. queue_of ns q' (view r') = (queue_of ns q' (view r))\<lparr>mq_alive := A\<rparr>))"
proof -
  let ?r1 = "r_zadd R (heartbeats_key ns) t w r"
  define r2 where "r2 = (if m then maintain R ns q t hb ttl k ?r1 else ?r1)"
  have run2: "run_command R ns t q w k c r2 = (reply, r')" using run by (simp add: dispatch_def Let_def r2_def)
  note beat = redis_server.beat_in [OF assms(1), of ns _ t w r]
  have 1: "queue_of ns q (view ?r1) = Q" unfolding Q by (rule beat)
  have L: "letters_of ns q (view ?r1) = letters_of ns q (view r)" by (rule redis_server.letters_same(1) [OF assms(1,2)])
  have ids: "\<forall>v. mq_alive (queue_of ns p (view ?r1)) v \<noteq> None \<longrightarrow> worker_id v" for p
    using assms(3,4) unfolding beat by (auto simp: mq_ok_def queue_of_def)
  have "if m then mq_maintained dead Q (queue_of ns q (view r2)) \<and> letters_of ns q (view r2) = mq_expired (t - ttl) (letters_of ns q (view r))
      else queue_of ns q (view r2) = Q \<and> letters_of ns q (view r2) = letters_of ns q (view r)"
    using redis_server.maintain_exact [OF assms(1,2) ids, of t hb ttl k] redis_server.letters_expired [OF assms(1,2), of ns t hb ttl k ?r1]
    by (auto simp: r2_def 1 L dead)
  moreover have "\<exists>A. queue_of ns q' (view r') = (queue_of ns q' (view r))\<lparr>mq_alive := A\<rparr>" if "plain_queue q' \<and> q' \<noteq> q" for q'
  proof -
    have "\<exists>A. queue_of ns q' (view r2) = (queue_of ns q' (view r))\<lparr>mq_alive := A\<rparr>"
      using that redis_server.maintain_other [OF assms(1) _ assms(2) _ ids, of q' t hb ttl k] unfolding r2_def by (auto simp: beat)
    then show ?thesis using redis_server.run_other [OF assms(1) _ assms(2,3) _ run2, of q'] that by simp
  qed
  ultimately show ?thesis
    using redis_server.run_exact [OF assms(1-3) run2] by (intro exI [of _ "queue_of ns q (view r2)"] exI [of _ "letters_of ns q (view r2)"]) blast
qed

text \<open>
  C4. The script implements the queue, command by command. A run for a queue by a worker first notes the
  worker's heartbeat. If it does maintenance, exactly what the workers without a recent heartbeat had
  fetched, and whose data is there, is put back at the end of the waiting ids, and old dead letters are
  dropped; otherwise nothing happens before the command. Then the queue, its dead letters and the reply are
  those of the command: \<open>enqueue\<close> appends the id and stores its data; \<open>fetch\<close> hands out the data of the oldest
  waiting ids and notes them as fetched by the worker; \<open>requeue\<close> gives back ids that the worker had fetched,
  and no others; \<open>ack\<close> and \<open>nack\<close> remove a message that the worker had fetched, and only \<open>nack\<close> makes it a
  dead letter; \<open>purge\<close> empties the queue; \<open>qsize\<close> changes nothing and counts what is stored and fetched of the
  queue and its delay queue. Of any other queue nothing changes but the heartbeats, which all share.
\<close>

theorem dispatch_refines_queue:
  assumes "redis_server R view" and "plain_queue q" "worker_id w" and "mq_ok (queue_of ns q (view r))"
    and run: "dispatch R ns t q w hb ttl m k c r = (reply, r')"
    and Q: "Q = (queue_of ns q (view r))\<lparr>mq_alive := (mq_alive (queue_of ns q (view r)))(w \<mapsto> t)\<rparr>"
    and dead: "dead = {v. \<exists>u. mq_alive Q v = Some u \<and> 0 \<le> u \<and> u \<le> t - hb}"
  shows "\<exists>Q1 L1. (if m then mq_maintained dead Q Q1 \<and> L1 = mq_expired (t - ttl) (letters_of ns q (view r))
              else Q1 = Q \<and> L1 = letters_of ns q (view r))
    \<and> queue_of ns q (view r') = mq_command w k c Q1
    \<and> letters_of ns q (view r') = mq_letters t w c Q1 L1
    \<and> reply = mq_reply (mq_size w (queue_of ns (queue_canonical_name q @ ''.DQ'') (view r'))
          + mq_size w (queue_of ns (queue_canonical_name q) (view r'))) k c Q1
    \<and> (\<forall>q'. plain_queue q' \<and> q' \<noteq> q \<longrightarrow> (\<exists>A. queue_of ns q' (view r') = (queue_of ns q' (view r))\<lparr>mq_alive := A\<rparr>))"
  using dispatch_exact [OF assms(1-4) run Q dead] .

theorem dispatch_refines_queue_witness:
  "let Q = queue_of ''d'' ''default'' (memory_view fetched_memory);
       r' = snd (dispatch memory_commands ''d'' 9 ''default'' ''b'' 60000 1000 False 100 (Nack ''m1'') fetched_memory)
   in ''m1'' \<in> mq_fetched Q ''b'' \<and> mq_data Q ''m1'' = Some ''data''
      \<and> queue_of ''d'' ''default'' (memory_view r') = Q\<lparr>mq_data := (mq_data Q)(''m1'' := None),
          mq_fetched := (mq_fetched Q)(''b'' := mq_fetched Q ''b'' - {''m1''}), mq_alive := (mq_alive Q)(''b'' \<mapsto> 9)\<rparr>
      \<and> letters_of ''d'' ''default'' (memory_view r') ''m1'' = (Some ''data'', Some 9)"
proof -
  let ?Q = "queue_of ''d'' ''default'' (memory_view fetched_memory)"
  have "''m1'' \<in> set (at_key (mem_sets fetched_memory) (acks_key ''d'' ''b'' ''default''))" by code_simp
  then have f: "''m1'' \<in> mq_fetched ?Q ''b''" by (simp add: queue_of_def memory_view_def worker_id_def)
  have "map_of (at_key (mem_hashes fetched_memory) (messages_key ''d'' ''default'')) ''m1'' = Some ''data''" by code_simp
  then have d: "mq_data ?Q ''m1'' = Some ''data''" by (simp add: queue_of_def memory_view_def)
  have w: "worker_id ''b''" by (simp add: worker_id_def)
  obtain reply r' where r': "dispatch memory_commands ''d'' 9 ''default'' ''b'' 60000 1000 False 100 (Nack ''m1'') fetched_memory = (reply, r')"
    by force
  from dispatch_refines_queue [OF memory.redis_server_axioms default_plain w memory_ok(2) r' refl refl] f d
  show ?thesis unfolding Let_def r' by auto
qed

end
