(* ===== verification/Redis_Broker.thy ===== *)
theory Redis_Broker
  imports Redis_Delivery Broker Json
begin

text \<open>
  \<^verbatim>\<open>dramatiq/brokers/redis.py\<close>: the Redis broker and its consumers, which run the dispatch script on a
  server over a connection that may be down. What differs from call to call (random numbers, uuids,
  the result of \<^verbatim>\<open>maxstack.lua\<close>) is an argument.
\<close>

section \<open>State\<close>

text \<open>
  A consumer caches the data it has fetched and remembers the ids of the messages that it has handed
  out. \<open>rd_outage\<close> is how many naps the connection stays down; while it is, every call of a script
  raises \<open>redis.ConnectionError\<close>.
\<close>

record redis_consumer =
  rk_queue :: string
  rk_prefetch :: nat
  rk_timeout :: int
  rk_cache :: "string option list"
  rk_queued :: "string list"
  rk_misses :: nat

record ('m, 'r) redis_broker = "('m, unit) broker" +
  rd_server :: 'r
  rd_outage :: nat
  rd_broker_id :: string
  rd_namespace :: string
  rd_maintenance_chance :: int
  rd_heartbeat_timeout :: int
  rd_dead_message_ttl :: int
  rd_max_unpack_size :: "nat option"
  rd_consumers :: "redis_consumer list"
  rd_next :: nat

record redis_call =
  cl_roll :: int
  cl_lua_max_stack :: "nat option"
  cl_maxstack :: nat
  cl_uuid :: string
  cl_u :: real
  cl_w :: real

text \<open>\<open>redis.ConnectionError\<close> of the client library is not a class of \<open>dramatiq\<close>.\<close>

abbreviation redis_connection_error :: exn_class where
  "redis_connection_error \<equiv> UserException ''redis.ConnectionError''"

definition DEFAULT_MAINTENANCE_CHANCE :: int where "DEFAULT_MAINTENANCE_CHANCE = 1000"
definition DEFAULT_DEAD_MESSAGE_TTL :: int where "DEFAULT_DEAD_MESSAGE_TTL = 86400000 * 7"
definition DEFAULT_HEARTBEAT_TIMEOUT :: int where "DEFAULT_HEARTBEAT_TIMEOUT = 60000"

section \<open>Calling the script\<close>

text \<open>\<open>random.randint(1, MAINTENANCE_SCALE)\<close> is the roll.\<close>

definition should_do_maintenance :: "int \<Rightarrow> int \<Rightarrow> command \<Rightarrow> bool" where
  "should_do_maintenance chance roll c =
     ((case c of Ack _ \<Rightarrow> False | Nack _ \<Rightarrow> False | _ \<Rightarrow> True) \<and> roll \<le> chance)"

text \<open>The size is found once and kept; an environment variable of 0 counts as not set.\<close>

definition max_unpack_size :: "redis_call \<Rightarrow> ('m, 'r, 'a) redis_broker_scheme \<Rightarrow> nat \<times> ('m, 'r, 'a) redis_broker_scheme" where
  "max_unpack_size X s =
     (case rd_max_unpack_size s of
        Some n \<Rightarrow> (n, s)
      | None \<Rightarrow>
          (let stack = (case cl_lua_max_stack X of None \<Rightarrow> cl_maxstack X | Some n \<Rightarrow> if n = 0 then cl_maxstack X else n);
               n = stack div 2
           in (n, s\<lparr>rd_max_unpack_size := Some n\<rparr>)))"

definition do_dispatch ::
  "'r redis_commands \<Rightarrow> redis_call \<Rightarrow> string \<Rightarrow> command \<Rightarrow> (('m, 'r, 'a) redis_broker_scheme, reply) proc" where
  "do_dispatch R X name c s =
     (if rd_outage s \<noteq> 0 then (Inl (mk_exn redis_connection_error ''connection''), s)
      else
        (case max_unpack_size X s of (k, s) \<Rightarrow>
         case dispatch R (rd_namespace s) (br_clock s) name (rd_broker_id s) (rd_heartbeat_timeout s) (rd_dead_message_ttl s)
             (should_do_maintenance (rd_maintenance_chance s) (cl_roll X) c) k c (rd_server s) of
           (reply, r) \<Rightarrow> (Inr reply, s\<lparr>rd_server := r\<rparr>)))"

section \<open>The broker\<close>

definition redis_declare_queue ::
  "('m, ('m, 'r, 'a) redis_broker_scheme) mw_ops \<Rightarrow> string \<Rightarrow> (('m, 'r, 'a) redis_broker_scheme, unit) proc" where
  "redis_declare_queue M name s =
     (if map_of (br_queues s) name \<noteq> None then (Inr (), s)
      else
        andthen (emit_before M (Before_declare_queue name)) (\<lambda>_.
        andthen (modify (\<lambda>s. s\<lparr>br_queues := AList.update name () (br_queues s)\<rparr>)) (\<lambda>_.
        andthen (emit_after M (After_declare_queue name)) (\<lambda>_.
        (let delayed_name = dq_name name
         in andthen (modify (\<lambda>s. s\<lparr>br_delay_queues := List.insert delayed_name (br_delay_queues s)\<rparr>)) (\<lambda>_.
              emit_after M (After_declare_delay_queue delayed_name)))))) s)"

definition redis_consume :: "string \<Rightarrow> nat \<Rightarrow> int \<Rightarrow> (('m, 'r, 'a) redis_broker_scheme, nat) proc" where
  "redis_consume name prefetch timeout s =
     (Inr (length (rd_consumers s)),
      s\<lparr>rd_consumers := rd_consumers s @ [\<lparr>rk_queue = name, rk_prefetch = prefetch, rk_timeout = timeout,
          rk_cache = [], rk_queued = [], rk_misses = 0\<rparr>]\<rparr>)"

text \<open>
  The copy that is enqueued: with an id of its own, because messages may be retried, and, if delayed,
  for the delay queue. The message is encoded before the script is called; queues need not be
  declared.
\<close>

definition redis_message :: "int \<Rightarrow> string \<Rightarrow> message \<Rightarrow> int option \<Rightarrow> message" where
  "redis_message now uuid message delay =
     (let message = copy id [(''redis_message_id'', PStr uuid)] message
      in case delay of
           None \<Rightarrow> message
         | Some delay \<Rightarrow>
             copy (\<lambda>m. m\<lparr>queue_name := dq_name (queue_name m)\<rparr>) [(''eta'', PInt (now + delay))] message)"

definition redis_enqueue ::
  "'r redis_commands \<Rightarrow> redis_call \<Rightarrow> encoder \<Rightarrow> ('m, ('m, 'r, 'a) redis_broker_scheme) mw_ops \<Rightarrow> message \<Rightarrow> int option
   \<Rightarrow> (('m, 'r, 'a) redis_broker_scheme, message) proc" where
  "redis_enqueue R X e M message delay s =
     (let message = redis_message (br_clock s) (cl_uuid X) message delay
      in andthen (emit_before M (Before_enqueue message delay)) (\<lambda>_.
         andthen (case encode e message of
             Inl err \<Rightarrow> raise err
           | Inr data \<Rightarrow> do_dispatch R X (queue_name message) (Enqueue (cl_uuid X) data)) (\<lambda>_.
         andthen (emit_after M (After_enqueue message delay)) (\<lambda>_.
           return message))) s)"

definition redis_flush :: "'r redis_commands \<Rightarrow> redis_call \<Rightarrow> string \<Rightarrow> (('m, 'r, 'a) redis_broker_scheme, unit) proc" where
  "redis_flush R X name = for_each (\<lambda>name. andthen (do_dispatch R X name Purge) (\<lambda>_. return ())) [name, dq_name name]"

definition redis_flush_all :: "'r redis_commands \<Rightarrow> redis_call \<Rightarrow> (('m, 'r, 'a) redis_broker_scheme, unit) proc" where
  "redis_flush_all R X = andthen (get_state (map fst \<circ> br_queues)) (for_each (redis_flush R X))"

text \<open>\<open>nap\<close> is \<open>time.sleep\<close> with whatever happens meanwhile; a deadline of 0 counts as none.\<close>

fun redis_join_loop ::
  "nat \<Rightarrow> 'r redis_commands \<Rightarrow> redis_call \<Rightarrow> (int \<Rightarrow> ('m, 'r, 'a) redis_broker_scheme \<Rightarrow> ('m, 'r, 'a) redis_broker_scheme)
   \<Rightarrow> string \<Rightarrow> int \<Rightarrow> int option \<Rightarrow> ('m, 'r, 'a) redis_broker_scheme
   \<Rightarrow> ((exn + unit) \<times> ('m, 'r, 'a) redis_broker_scheme) option" where
  "redis_join_loop 0 R X nap name interval deadline s = None"
| "redis_join_loop (Suc fuel) R X nap name interval deadline s =
     (if (case deadline of None \<Rightarrow> False | Some d \<Rightarrow> d \<noteq> 0 \<and> d \<le> br_clock s)
      then Some (Inl (mk_exn QueueJoinTimeout name), s)
      else
        (case do_dispatch R X name Qsize s of
           (Inl e, s) \<Rightarrow> Some (Inl e, s)
         | (Inr left, s) \<Rightarrow>
             (if left = Count 0 then Some (Inr (), s)
              else redis_join_loop fuel R X nap name interval deadline (nap interval s))))"

definition redis_join ::
  "nat \<Rightarrow> 'r redis_commands \<Rightarrow> redis_call \<Rightarrow> (int \<Rightarrow> ('m, 'r, 'a) redis_broker_scheme \<Rightarrow> ('m, 'r, 'a) redis_broker_scheme)
   \<Rightarrow> string \<Rightarrow> int \<Rightarrow> int option \<Rightarrow> ('m, 'r, 'a) redis_broker_scheme
   \<Rightarrow> ((exn + unit) \<times> ('m, 'r, 'a) redis_broker_scheme) option" where
  "redis_join fuel R X nap name interval timeout s =
     (let deadline = map_option (\<lambda>t. if t = 0 then 0 else br_clock s + t) timeout
      in redis_join_loop fuel R X nap name interval deadline s)"

section \<open>Consumers\<close>

definition update_consumer ::
  "nat \<Rightarrow> (redis_consumer \<Rightarrow> redis_consumer) \<Rightarrow> ('m, 'r, 'a) redis_broker_scheme \<Rightarrow> ('m, 'r, 'a) redis_broker_scheme" where
  "update_consumer c f s = s\<lparr>rd_consumers := (rd_consumers s)[c := f (rd_consumers s ! c)]\<rparr>"

definition outstanding_message_count :: "redis_consumer \<Rightarrow> nat" where
  "outstanding_message_count C = length (rk_queued C) + length (rk_cache C)"

text \<open>\<open>message.options["redis_message_id"]\<close>, always a string: \<open>enqueue\<close> sets it.\<close>

definition redis_message_id :: "message \<Rightarrow> (('m, 'r, 'a) redis_broker_scheme, string) proc" where
  "redis_message_id m =
     (case map_of (options m) ''redis_message_id'' of
        Some (PStr i) \<Rightarrow> return i
      | Some _ \<Rightarrow> raise (mk_exn TypeError ''redis_message_id'')
      | None \<Rightarrow> raise (mk_exn KeyError ''redis_message_id''))"

text \<open>\<open>except redis.ConnectionError as e: raise ConnectionClosed(e) from None\<close>.\<close>

definition translated :: "('s, 'b) proc \<Rightarrow> ('s, 'b) proc" where
  "translated m = try_except m (\<lambda>e.
     if isinstance e redis_connection_error then raise (mk_exn ConnectionClosed (exn_str e)) else raise e)"

text \<open>\<open>ack\<close> and \<open>nack\<close>; the \<open>finally\<close> clause forgets the message whatever happened.\<close>

definition redis_settle ::
  "'r redis_commands \<Rightarrow> redis_call \<Rightarrow> (string \<Rightarrow> command) \<Rightarrow> nat \<Rightarrow> proxy_ref \<Rightarrow> (('m, 'r, 'a) redis_broker_scheme, unit) proc" where
  "redis_settle R X command c r s =
     (let message = message_at s r;
          name = rk_queue (rd_consumers s ! c)
      in case translated (andthen (redis_message_id message) (\<lambda>i.
                andthen (do_dispatch R X name (command i)) (\<lambda>_. return ()))) s of
           (x, s) \<Rightarrow> (x, update_consumer c (\<lambda>C. C\<lparr>rk_queued := removeAll (message_id message) (rk_queued C)\<rparr>) s))"

definition redis_ack :: "'r redis_commands \<Rightarrow> redis_call \<Rightarrow> nat \<Rightarrow> proxy_ref \<Rightarrow> (('m, 'r, 'a) redis_broker_scheme, unit) proc" where
  "redis_ack R X = redis_settle R X Ack"

definition redis_nack :: "'r redis_commands \<Rightarrow> redis_call \<Rightarrow> nat \<Rightarrow> proxy_ref \<Rightarrow> (('m, 'r, 'a) redis_broker_scheme, unit) proc" where
  "redis_nack R X = redis_settle R X Nack"

fun redis_message_ids :: "message list \<Rightarrow> (('m, 'r, 'a) redis_broker_scheme, string list) proc" where
  "redis_message_ids [] = return []"
| "redis_message_ids (m # ms) =
     andthen (redis_message_id m) (\<lambda>i. andthen (redis_message_ids ms) (\<lambda>ids. return (i # ids)))"

definition redis_requeue :: "'r redis_commands \<Rightarrow> redis_call \<Rightarrow> nat \<Rightarrow> proxy_ref list \<Rightarrow> (('m, 'r, 'a) redis_broker_scheme, unit) proc" where
  "redis_requeue R X c rs s =
     andthen (redis_message_ids (map (message_at s) rs)) (\<lambda>message_ids.
       if message_ids = [] then return ()
       else andthen (do_dispatch R X (rk_queue (rd_consumers s ! c)) (Requeue message_ids)) (\<lambda>_. return ())) s"

text \<open>
  \<open>__next__\<close>: the cache first; when it is empty, a fetch if fewer messages are out than may be, and
  after a fetch of nothing a pause that grows with the misses.
\<close>

fun redis_next ::
  "nat \<Rightarrow> 'r redis_commands \<Rightarrow> redis_call \<Rightarrow> encoder \<Rightarrow> nat \<Rightarrow> ('m, 'r, 'a) redis_broker_scheme
   \<Rightarrow> ((exn + proxy_ref option) \<times> ('m, 'r, 'a) redis_broker_scheme) option" where
  "redis_next 0 R X e c s = None"
| "redis_next (Suc fuel) R X e c s =
     (let C = rd_consumers s ! c
      in case rk_cache C of
           None # cache \<Rightarrow> redis_next fuel R X e c (update_consumer c (\<lambda>C. C\<lparr>rk_cache := cache\<rparr>) s)
         | Some data # cache \<Rightarrow>
             (let s = update_consumer c (\<lambda>C. C\<lparr>rk_cache := cache, rk_misses := 0\<rparr>) s
              in case decode e (cl_uuid X) (br_clock s) data of
                   Inl err \<Rightarrow> Some (Inl err, s)
                 | Inr message \<Rightarrow>
                     Some (Inr (Some (rd_next s)),
                       (update_consumer c (\<lambda>C. C\<lparr>rk_queued := List.insert (message_id message) (rk_queued C)\<rparr>) s)
                         \<lparr>br_proxies := (br_proxies s)(rd_next s := MessageProxy message), rd_next := Suc (rd_next s)\<rparr>))
         | [] \<Rightarrow>
             (case (if outstanding_message_count C < rk_prefetch C
                    then translated (andthen (do_dispatch R X (rk_queue C) (Fetch (rk_prefetch C - outstanding_message_count C)))
                           (\<lambda>reply. let messages = (case reply of Bulk xs \<Rightarrow> xs | _ \<Rightarrow> [])
                             in andthen (modify (update_consumer c (\<lambda>C. C\<lparr>rk_cache := messages\<rparr>))) (\<lambda>_. return messages))) s
                    else (Inr [], s)) of
                (Inl err, s) \<Rightarrow> Some (Inl err, s)
              | (Inr messages, s) \<Rightarrow>
                  (if messages = [] then
                     (case compute_backoff (rk_misses C) 5 True (rk_timeout C) max_exponent_default (cl_u X) (cl_w X) of
                        (misses, backoff_ms) \<Rightarrow>
                          Some (Inr None, (update_consumer c (\<lambda>C. C\<lparr>rk_misses := misses\<rparr>) s)\<lparr>br_clock := br_clock s + backoff_ms\<rparr>))
                   else redis_next fuel R X e c s)))"

end
