(* ===== verification/Redis_Consumption.thy ===== *)
theory Redis_Consumption
  imports Redis_Broker Delivery
begin

text \<open>
  What consumers of the Redis broker get: never more than they may prefetch, and what was enqueued;
  asking for the next message always ends; joining means that nothing is left.
\<close>

section \<open>Replies of the script\<close>

lemma mq_inner_ok: "mq_inner Q Q' \<Longrightarrow> mq_ok Q \<Longrightarrow> mq_ok Q'"
  using mq_steps_ok by (auto simp: mq_inner_def)

context redis_server
begin

lemma fetch_ids_length: "length (fst (fetch_ids R queue acks n r)) \<le> n"
proof (induction n arbitrary: r)
  case (Suc n)
  show ?case
    using Suc [of "r_sadd R acks i r1" for i r1]
    by (auto split: prod.split option.split) (metis fst_conv)
qed simp

text \<open>A fetch returns no more than was asked for.\<close>

lemma fetch_length:
  "fst (dispatch R ns t q w hb ttl m k (Fetch n) r) = Bulk xs \<Longrightarrow> length xs \<le> n"
  using fetch_ids_length [of "queue_key ns q" "acks_key ns w q" "min n k"]
  by (auto simp: dispatch_def run_command_def Let_def hmget split: prod.splits if_splits) (metis fst_conv le_trans min.cobounded1)+

text \<open>Maintenance included, a fetch from a well-formed queue finds the data of every message.\<close>

lemma dispatched_to:
  assumes "plain_queue q" "worker_id w" "0 < hb" "mq_ok (queue_in ns q r)"
  shows "\<exists>r2. mq_ok (queue_in ns q r2) \<and> mq_alive (queue_in ns q r2) w \<noteq> None
    \<and> dispatch R ns t q w hb ttl m k c r = run_command R ns t q w k c r2"
proof -
  let ?r1 = "r_zadd R (heartbeats_key ns) t w r"
  have 1: "mq_inner (queue_in ns q r) (queue_in ns q ?r1)" unfolding beat_in using assms(2) by (rule inner_steps)
  then have ok1: "mq_ok (queue_in ns q ?r1)" using assms(4) by (rule mq_inner_ok)
  then have ids: "\<forall>w. mq_alive (queue_in ns q ?r1) w \<noteq> None \<longrightarrow> worker_id w" by (simp add: mq_ok_def)
  define r2 where "r2 = (if m then maintain R ns q t hb ttl k ?r1 else ?r1)"
  note keep = maintain_in [OF assms(1,1) ids]
  have "mq_ok (queue_in ns q r2)" using ok1 mq_inner_ok [OF keep(1) ok1] by (simp add: r2_def)
  moreover have "mq_alive (queue_in ns q r2) w \<noteq> None"
    using keep(2) [of w t t hb] assms(3) by (simp add: r2_def beat_in)
  ultimately show ?thesis by (intro exI [of _ r2]) (simp add: dispatch_def r2_def Let_def)
qed

lemma fetch_no_None:
  assumes "plain_queue q" "worker_id w" "0 < hb" "mq_ok (queue_in ns q r)"
    and "fst (dispatch R ns t q w hb ttl m k (Fetch n) r) = Bulk xs"
  shows "None \<notin> set xs"
proof -
  obtain r2 where r2: "mq_ok (queue_in ns q r2)" "dispatch R ns t q w hb ttl m k (Fetch n) r = run_command R ns t q w k (Fetch n) r2"
    using dispatched_to [OF assms(1-4)] by blast
  obtain ids r3 where f: "fetch_ids R (queue_key ns q) (acks_key ns w q) (min n k) r2 = (ids, r3)" by force
  note exact = fetch_exact [OF assms(1,2) f]
  have "mq_data (queue_in ns q r3) = mq_data (queue_in ns q r2)" using exact by simp
  then have data: "ks_hash (view r3) (messages_key ns q) = mq_data (queue_in ns q r2)" by (simp add: queue_of_def)
  have "set ids \<subseteq> dom (mq_data (queue_in ns q r2))"
    using exact r2(1) by (auto simp: mq_ok_def dest: in_set_takeD)
  then show ?thesis
    using assms(5) f data by (force simp: r2(2) run_command_def hmget split: if_splits)
qed

end

section \<open>Prefetching\<close>

lemma update_consumer_nth [simp]:
  "c < length (rd_consumers s) \<Longrightarrow> rd_consumers (update_consumer c f s) ! c = f (rd_consumers s ! c)"
  "length (rd_consumers (update_consumer c f s)) = length (rd_consumers s)"
  by (simp_all add: update_consumer_def)

lemma do_dispatch_frame:
  "do_dispatch R X name cmd s = (x, s') \<Longrightarrow> rd_consumers s' = rd_consumers s \<and> br_proxies s' = br_proxies s
     \<and> br_clock s' = br_clock s \<and> rd_next s' = rd_next s \<and> rd_outage s' = rd_outage s"
  by (auto simp: do_dispatch_def max_unpack_size_def Let_def split: if_splits option.splits prod.splits)

text \<open>The fetch of \<open>__next__\<close>, in the cases where it succeeds.\<close>

lemma fetched_cache:
  assumes "redis_server R view"
    and "translated (andthen (do_dispatch R X name (Fetch n))
           (\<lambda>reply. let messages = (case reply of Bulk xs \<Rightarrow> xs | _ \<Rightarrow> [])
             in andthen (modify (update_consumer c (\<lambda>C. C\<lparr>rk_cache := messages\<rparr>))) (\<lambda>_. return messages))) s = (Inr messages, s')"
  shows "length messages \<le> n"
    and "rd_consumers s' = (rd_consumers s)[c := (rd_consumers s ! c)\<lparr>rk_cache := messages\<rparr>]"
    and "plain_queue name \<Longrightarrow> worker_id (rd_broker_id s) \<Longrightarrow> 0 < rd_heartbeat_timeout s
      \<Longrightarrow> mq_ok (queue_of (rd_namespace s) name (view (rd_server s))) \<Longrightarrow> None \<notin> set messages"
proof -
  obtain x s1 where 1: "do_dispatch R X name (Fetch n) s = (x, s1)" by force
  then obtain reply where x: "x = Inr reply" and m: "messages = (case reply of Bulk xs \<Rightarrow> xs | _ \<Rightarrow> [])"
    and s': "s' = update_consumer c (\<lambda>C. C\<lparr>rk_cache := messages\<rparr>) s1"
    using assms(2) by (auto simp: translated_def proc_simps Let_def split: sum.splits if_splits)
  show "rd_consumers s' = (rd_consumers s)[c := (rd_consumers s ! c)\<lparr>rk_cache := messages\<rparr>]"
    using do_dispatch_frame [OF 1] by (simp add: s' update_consumer_def)
  obtain t hb ttl k d where reply: "reply = fst (dispatch R (rd_namespace s) t name (rd_broker_id s) (rd_heartbeat_timeout s) ttl d k (Fetch n) (rd_server s))"
    using 1 x by (auto simp: do_dispatch_def max_unpack_size_def Let_def split: if_splits option.splits prod.splits) (metis fst_conv)+
  show "length messages \<le> n"
    using redis_server.fetch_length [OF assms(1)] reply m by (auto split: reply.splits)
  show "None \<notin> set messages" if "plain_queue name" "worker_id (rd_broker_id s)" "0 < rd_heartbeat_timeout s"
    "mq_ok (queue_of (rd_namespace s) name (view (rd_server s)))"
    using redis_server.fetch_no_None [OF assms(1) that] reply m by (auto split: reply.splits)
qed

lemma fetch_failed:
  assumes "translated (andthen (do_dispatch R X name (Fetch n))
           (\<lambda>reply. let messages = (case reply of Bulk xs \<Rightarrow> xs | _ \<Rightarrow> [])
             in andthen (modify (update_consumer c (\<lambda>C. C\<lparr>rk_cache := messages\<rparr>))) (\<lambda>_. return messages))) s = (Inl err, s')"
  shows "rd_consumers s' = rd_consumers s"
proof -
  obtain x s1 where 1: "do_dispatch R X name (Fetch n) s = (x, s1)" by force
  then have "s' = s1"
    using assms by (auto simp: translated_def proc_simps Let_def split: sum.splits if_splits)
  with do_dispatch_frame [OF 1] show ?thesis by simp
qed

text \<open>
  A consumer never holds more messages than it may prefetch: cached and handed out together are
  within the limit after every call of \<open>__next__\<close>, however many turns it takes and whether it returns a
  message, nothing or an error.
\<close>

theorem redis_prefetch_bounded:
  assumes "redis_server R view" and "c < length (rd_consumers s)"
    and "outstanding_message_count (rd_consumers s ! c) \<le> rk_prefetch (rd_consumers s ! c)"
    and "redis_next fuel R X e c s = Some (x, s')"
  shows "outstanding_message_count (rd_consumers s' ! c) \<le> rk_prefetch (rd_consumers s' ! c)
    \<and> rk_prefetch (rd_consumers s' ! c) = rk_prefetch (rd_consumers s ! c)"
  using assms(2-4)
proof (induction fuel arbitrary: s)
  case (Suc fuel)
  let ?C = "rd_consumers s ! c"
  consider (none) cache where "rk_cache ?C = None # cache" | (data) data cache where "rk_cache ?C = Some data # cache"
    | (empty) "rk_cache ?C = []"
    by (metis list.exhaust option.exhaust)
  then show ?case
  proof cases
    case none
    let ?s = "update_consumer c (\<lambda>C. C\<lparr>rk_cache := cache\<rparr>) s"
    from none Suc.prems have "redis_next fuel R X e c ?s = Some (x, s')" by simp
    with Suc.IH [of ?s] Suc.prems none show ?thesis by (simp add: outstanding_message_count_def)
  next
    case data
    let ?s = "update_consumer c (\<lambda>C. C\<lparr>rk_cache := cache, rk_misses := 0\<rparr>) s"
    show ?thesis
      using Suc.prems data
      by (auto simp: outstanding_message_count_def Let_def List.insert_def split: sum.splits)
  next
    case empty
    show ?thesis
    proof (cases "outstanding_message_count ?C < rk_prefetch ?C")
      case False
      with empty Suc.prems show ?thesis by (auto simp: outstanding_message_count_def Let_def split: prod.splits)
    next
      case True
      let ?n = "rk_prefetch ?C - outstanding_message_count ?C"
      obtain y s1 where 1: "translated (andthen (do_dispatch R X (rk_queue ?C) (Fetch ?n))
           (\<lambda>reply. let messages = (case reply of Bulk xs \<Rightarrow> xs | _ \<Rightarrow> [])
             in andthen (modify (update_consumer c (\<lambda>C. C\<lparr>rk_cache := messages\<rparr>))) (\<lambda>_. return messages))) s = (y, s1)"
        by force
      show ?thesis
      proof (cases y)
        case (Inl err)
        with fetch_failed [OF 1 [unfolded Inl]] 1 True empty Suc.prems show ?thesis by simp
      next
        case (Inr messages)
        note f = fetched_cache [OF assms(1) 1 [unfolded Inr]]
        then have bound: "outstanding_message_count (rd_consumers s1 ! c) \<le> rk_prefetch (rd_consumers s1 ! c)"
          "rk_prefetch (rd_consumers s1 ! c) = rk_prefetch ?C" "c < length (rd_consumers s1)"
          using Suc.prems(1) empty True f(1,2) by (simp_all add: outstanding_message_count_def)
        show ?thesis
        proof (cases "messages = []")
          case True
          with 1 Inr \<open>outstanding_message_count ?C < rk_prefetch ?C\<close> empty Suc.prems bound show ?thesis
            by (auto simp: outstanding_message_count_def Let_def split: prod.splits)
        next
          case False
          with 1 Inr True empty Suc.prems have "redis_next fuel R X e c s1 = Some (x, s')" by simp
          from Suc.IH [OF bound(3,1) this] bound(2) show ?thesis by simp
        qed
      qed
    qed
  qed
qed simp

section \<open>Asking for the next message ends\<close>

lemma next_ends:
  assumes "redis_server R view" and "c < length (rd_consumers s)" and "None \<notin> set (rk_cache (rd_consumers s ! c))"
    and "plain_queue (rk_queue (rd_consumers s ! c))" and "worker_id (rd_broker_id s)" and "0 < rd_heartbeat_timeout s"
    and "mq_ok (queue_of (rd_namespace s) (rk_queue (rd_consumers s ! c)) (view (rd_server s)))"
  shows "\<exists>x s'. redis_next 2 R X e c s = Some (x, s') \<and> None \<notin> set (rk_cache (rd_consumers s' ! c))"
proof -
  have one: "\<exists>x s'. redis_next (Suc fuel) R X e c s = Some (x, s') \<and> None \<notin> set (rk_cache (rd_consumers s' ! c))"
    if "c < length (rd_consumers s)" "rk_cache (rd_consumers s ! c) = Some data # cache" "None \<notin> set cache"
    for fuel data cache and s :: "('b, 'a, 'c) redis_broker_scheme"
    using that by (auto simp: Let_def split: sum.split)
  let ?C = "rd_consumers s ! c"
  show ?thesis
  proof (cases "rk_cache ?C")
    case (Cons d cache)
    with assms(3) obtain data where "rk_cache ?C = Some data # cache" "None \<notin> set cache" by (cases d) auto
    from one [OF assms(2) this, of 1] show ?thesis by (simp add: numeral_2_eq_2)
  next
    case Nil
    let ?n = "rk_prefetch ?C - outstanding_message_count ?C"
    obtain y s1 where 1: "translated (andthen (do_dispatch R X (rk_queue ?C) (Fetch ?n))
         (\<lambda>reply. let messages = (case reply of Bulk xs \<Rightarrow> xs | _ \<Rightarrow> [])
           in andthen (modify (update_consumer c (\<lambda>C. C\<lparr>rk_cache := messages\<rparr>))) (\<lambda>_. return messages))) s = (y, s1)"
      by force
    show ?thesis
    proof (cases "outstanding_message_count ?C < rk_prefetch ?C")
      case False
      with Nil assms(2) show ?thesis by (auto simp: numeral_2_eq_2 Let_def split: prod.split)
    next
      case True
      show ?thesis
      proof (cases y)
        case (Inl err)
        with fetch_failed [OF 1 [unfolded Inl]] 1 True Nil show ?thesis by (simp add: numeral_2_eq_2)
      next
        case (Inr messages)
        note f = fetched_cache [OF assms(1) 1 [unfolded Inr]]
        then have cache: "rk_cache (rd_consumers s1 ! c) = messages" "None \<notin> set messages" "c < length (rd_consumers s1)"
          using assms(2,4-7) by simp_all
        show ?thesis
        proof (cases messages)
          case Nil
          with 1 Inr True \<open>rk_cache ?C = []\<close> cache show ?thesis
            by (auto simp: numeral_2_eq_2 Let_def split: prod.split)
        next
          case (Cons d rest)
          with cache obtain data where "rk_cache (rd_consumers s1 ! c) = Some data # rest" "None \<notin> set rest" by (cases d) auto
          from one [OF cache(3) this, of 0] 1 Inr True \<open>rk_cache ?C = []\<close> Cons show ?thesis
            by (simp add: numeral_2_eq_2)
        qed
      qed
    qed
  qed
qed

text \<open>
  \<open>__next__\<close> always ends, and its check for missing data in the cache is never needed: on a
  well-formed queue, with no missing data in the cache, two turns of its loop are enough, whether
  maintenance runs or the connection is down, and the cache it leaves has no missing data either.
\<close>

theorem redis_next_ends:
  assumes "redis_server R view" and "c < length (rd_consumers s)" and "None \<notin> set (rk_cache (rd_consumers s ! c))"
    and "plain_queue (rk_queue (rd_consumers s ! c))" and "worker_id (rd_broker_id s)" and "0 < rd_heartbeat_timeout s"
    and "mq_ok (queue_of (rd_namespace s) (rk_queue (rd_consumers s ! c)) (view (rd_server s)))"
  shows "\<exists>x s'. redis_next 2 R X e c s = Some (x, s') \<and> None \<notin> set (rk_cache (rd_consumers s' ! c))"
  using next_ends [OF assms] .

section \<open>Enqueueing and consuming\<close>

text \<open>What \<open>redis_enqueue\<close> does to the queue when no maintenance is rolled.\<close>

lemma no_roll: "rd_maintenance_chance s < cl_roll X \<Longrightarrow> \<not> should_do_maintenance (rd_maintenance_chance s) (cl_roll X) c"
  by (simp add: should_do_maintenance_def)

context redis_server
begin

lemma enqueue_now:
  assumes "plain_queue q" and "mq_ok (queue_in ns q r)" and "i \<notin> mentions (queue_in ns q r)" and "worker_id w"
  shows "queue_in ns q (snd (dispatch R ns t q w hb ttl False k (Enqueue i d) r)) =
    (queue_in ns q r)\<lparr>mq_waiting := mq_waiting (queue_in ns q r) @ [i], mq_data := (mq_data (queue_in ns q r))(i \<mapsto> d),
       mq_alive := (mq_alive (queue_in ns q r))(w \<mapsto> t)\<rparr>"
    and "mq_ok (queue_in ns q (snd (dispatch R ns t q w hb ttl False k (Enqueue i d) r)))"
proof -
  show eq: "queue_in ns q (snd (dispatch R ns t q w hb ttl False k (Enqueue i d) r)) =
    (queue_in ns q r)\<lparr>mq_waiting := mq_waiting (queue_in ns q r) @ [i], mq_data := (mq_data (queue_in ns q r))(i \<mapsto> d),
       mq_alive := (mq_alive (queue_in ns q r))(w \<mapsto> t)\<rparr>"
    by (simp add: dispatch_def run_command_def Let_def push_in [OF assms(1,1)] data_in [OF assms(1,1)] beat_in)
  let ?Q = "queue_in ns q r" and ?Q1 = "(queue_in ns q r)\<lparr>mq_alive := (mq_alive (queue_in ns q r))(w \<mapsto> t)\<rparr>"
  have "mq_step ?Q ?Q1" using assms(4) by (rule mq_step.beat)
  moreover have "mq_step ?Q1 (?Q1\<lparr>mq_waiting := mq_waiting ?Q1 @ [i], mq_data := (mq_data ?Q1)(i \<mapsto> d)\<rparr>)"
    using assms(3) by (intro mq_step.enqueue) (simp_all add: mentions_def)
  ultimately have ok: "mq_ok (?Q1\<lparr>mq_waiting := mq_waiting ?Q1 @ [i], mq_data := (mq_data ?Q1)(i \<mapsto> d)\<rparr>)"
    using assms(2) mq_step_ok by blast
  have "?Q1\<lparr>mq_waiting := mq_waiting ?Q1 @ [i], mq_data := (mq_data ?Q1)(i \<mapsto> d)\<rparr> =
      ?Q\<lparr>mq_waiting := mq_waiting ?Q @ [i], mq_data := (mq_data ?Q)(i \<mapsto> d), mq_alive := (mq_alive ?Q)(w \<mapsto> t)\<rparr>"
    by simp
  then show "mq_ok (queue_in ns q (snd (dispatch R ns t q w hb ttl False k (Enqueue i d) r)))"
    unfolding eq using ok by (simp only:)
qed

end

text \<open>
  C24. What is enqueued is what a consumer gets: after a message was put on a queue that was empty, the
  next call of \<open>__next__\<close> on a consumer of that queue with room for it returns a proxy of the decoded
  message, and the message is then among the unacknowledged ones of the consumer's broker.
\<close>

theorem redis_enqueue_next:
  assumes "redis_server R view" and "\<And>h m s. mw_run M m h s = (Inr (), s)"
    and "rd_outage s = 0" "rd_max_unpack_size s = Some (Suc k)" "rd_maintenance_chance s < cl_roll X" "rd_maintenance_chance s < cl_roll Y"
    and "plain_queue (queue_name m)" "worker_id (rd_broker_id s)"
    and "mq_ok (queue_of (rd_namespace s) (queue_name m) (view (rd_server s)))"
    and "mq_waiting (queue_of (rd_namespace s) (queue_name m) (view (rd_server s))) = []"
    and "cl_uuid X \<notin> mentions (queue_of (rd_namespace s) (queue_name m) (view (rd_server s)))"
    and "encode e (redis_message (br_clock s) (cl_uuid X) m None) = Inr data" "decode e (cl_uuid Y) (br_clock s) data = Inr m'"
    and "c < length (rd_consumers s)" "rk_queue (rd_consumers s ! c) = queue_name m" "rk_cache (rd_consumers s ! c) = []"
      "length (rk_queued (rd_consumers s ! c)) < rk_prefetch (rd_consumers s ! c)"
  shows "\<exists>s1 s2. redis_enqueue R X e M m None s = (Inr (redis_message (br_clock s) (cl_uuid X) m None), s1)
    \<and> redis_next 2 R Y e c s1 = Some (Inr (Some (rd_next s)), s2) \<and> message_at s2 (rd_next s) = m'
    \<and> cl_uuid X \<in> mq_fetched (queue_of (rd_namespace s) (queue_name m) (view (rd_server s2))) (rd_broker_id s)"
proof -
  let ?ns = "rd_namespace s" and ?q = "queue_name m" and ?w = "rd_broker_id s" and ?i = "cl_uuid X"
  let ?m = "redis_message (br_clock s) ?i m None" and ?t = "br_clock s" and ?hb = "rd_heartbeat_timeout s"
  let ?ttl = "rd_dead_message_ttl s" and ?Q = "queue_of (rd_namespace s) (queue_name m) (view (rd_server s))"
  define r1 where "r1 = snd (dispatch R ?ns ?t ?q ?w ?hb ?ttl False (Suc k) (Enqueue ?i data) (rd_server s))"
  define s1 where "s1 = s\<lparr>rd_server := r1\<rparr>"
  have name: "queue_name ?m = ?q" by (simp add: redis_message_def copy_def Let_def)
  have d1: "do_dispatch R X ?q (Enqueue ?i data) s = (Inr (fst (dispatch R ?ns ?t ?q ?w ?hb ?ttl False (Suc k) (Enqueue ?i data) (rd_server s))), s1)"
    using assms(3,4) no_roll [OF assms(5)]
    by (simp add: do_dispatch_def max_unpack_size_def s1_def r1_def split: prod.split)
  have 1: "redis_enqueue R X e M m None s = (Inr ?m, s1)"
    using d1 assms(12) emit_silent [OF assms(2)]
    by (simp add: redis_enqueue_def Let_def name andthen_def return_def)
  note q1 = redis_server.enqueue_now [OF assms(1,7,9,11,8), of ?t ?hb ?ttl "Suc k" data, folded r1_def]
  let ?Q1 = "queue_of ?ns ?q (view r1)"
  have w1: "mq_waiting ?Q1 = [?i]" "mq_data ?Q1 ?i = Some data" using q1(1) assms(10) by simp_all
  let ?n = "rk_prefetch (rd_consumers s ! c) - length (rk_queued (rd_consumers s ! c))"
  let ?f = "dispatch R ?ns ?t ?q ?w ?hb ?ttl False (Suc k) (Fetch ?n) r1"
  have n: "min ?n (Suc k) = Suc (min (?n - 1) k)" using assms(17) by simp
  have f: "fst ?f = Bulk [Some data]" "?i \<in> mq_fetched (queue_of ?ns ?q (view (snd ?f))) ?w"
    using redis_server.fetch_now [OF assms(1,7,8) q1(2), of ?n "Suc k" ?t ?hb ?ttl] w1 by (simp_all add: Let_def n)
  have d2: "do_dispatch R Y ?q (Fetch ?n) s1 = (Inr (Bulk [Some data]), s1\<lparr>rd_server := snd ?f\<rparr>)"
    using assms(3,4) no_roll [OF assms(6)] f(1)
    by (cases ?f) (simp add: do_dispatch_def max_unpack_size_def s1_def)
  have "\<exists>s2. redis_next 2 R Y e c s1 = Some (Inr (Some (rd_next s)), s2) \<and> message_at s2 (rd_next s) = m' \<and> rd_server s2 = snd ?f"
    using d2 assms(13-17)
    by (auto simp: numeral_2_eq_2 s1_def outstanding_message_count_def translated_def proc_simps Let_def
        update_consumer_def MessageProxy_def)
  with 1 f(2) show ?thesis by auto
qed

text \<open>A broker with one consumer, for examples.\<close>

definition redis_sample :: "memory \<Rightarrow> nat \<Rightarrow> (unit, memory) redis_broker" where
  "redis_sample r down = \<lparr>br_actors = [], br_queues = [(''default'', ())], br_delay_queues = [''default.DQ''],
     br_actor_options = {}, br_middleware = [], br_proxies = (\<lambda>_. MessageProxy sample_message), br_clock = 70000,
     rd_server = r, rd_outage = down, rd_broker_id = ''c'', rd_namespace = ''d'', rd_maintenance_chance = DEFAULT_MAINTENANCE_CHANCE,
     rd_heartbeat_timeout = DEFAULT_HEARTBEAT_TIMEOUT, rd_dead_message_ttl = DEFAULT_DEAD_MESSAGE_TTL, rd_max_unpack_size = Some 100,
     rd_consumers = [\<lparr>rk_queue = ''default'', rk_prefetch = 2, rk_timeout = 5000, rk_cache = [], rk_queued = [], rk_misses = 0\<rparr>],
     rd_next = 1\<rparr>"

definition redis_sample_call :: redis_call where
  "redis_sample_call = \<lparr>cl_roll = 5000, cl_lua_max_stack = None, cl_maxstack = 200, cl_uuid = ''m2'', cl_u = 1, cl_w = 1\<rparr>"

lemma redis_sample_simps [simp]:
  "rd_consumers (redis_sample r n) =
     [\<lparr>rk_queue = ''default'', rk_prefetch = 2, rk_timeout = 5000, rk_cache = [], rk_queued = [], rk_misses = 0\<rparr>]"
  "rd_server (redis_sample r n) = r" "rd_outage (redis_sample r n) = n" "rd_broker_id (redis_sample r n) = ''c''"
  "rd_namespace (redis_sample r n) = ''d''" "rd_maintenance_chance (redis_sample r n) = 1000"
  "rd_heartbeat_timeout (redis_sample r n) = 60000" "rd_max_unpack_size (redis_sample r n) = Some 100"
  "br_proxies (redis_sample r n) = (\<lambda>_. MessageProxy sample_message)" "br_clock (redis_sample r n) = 70000"
  "cl_roll redis_sample_call = 5000" "cl_uuid redis_sample_call = ''m2''"
  by (simp_all add: redis_sample_def redis_sample_call_def DEFAULT_MAINTENANCE_CHANCE_def DEFAULT_HEARTBEAT_TIMEOUT_def)

lemma worker_c [simp]: "worker_id ''c''"
  by (simp add: worker_id_def)

theorem redis_prefetch_bounded_witness:
  "\<exists>x s'. redis_next 2 memory_commands redis_sample_call JSONEncoder 0 (redis_sample enqueued_memory 0) = Some (x, s')
     \<and> outstanding_message_count (rd_consumers s' ! 0) \<le> 2"
proof -
  let ?s = "redis_sample enqueued_memory 0"
  obtain x s' where x: "redis_next 2 memory_commands redis_sample_call JSONEncoder 0 ?s = Some (x, s')"
    using next_ends [OF memory.redis_server_axioms, where c = 0 and s = ?s and X = redis_sample_call and e = JSONEncoder]
      default_plain memory_ok(1) by (auto simp del: redis_next.simps)
  have "outstanding_message_count (rd_consumers ?s ! 0) \<le> rk_prefetch (rd_consumers ?s ! 0)"
    by (simp add: outstanding_message_count_def)
  from redis_prefetch_bounded [OF memory.redis_server_axioms _ this x] x show ?thesis by simp
qed

theorem redis_next_ends_witness:
  "\<exists>x s'. redis_next 2 memory_commands redis_sample_call JSONEncoder 0 (redis_sample enqueued_memory 0) = Some (x, s')
     \<and> None \<notin> set (rk_cache (rd_consumers s' ! 0))"
  by (rule redis_next_ends [OF memory.redis_server_axioms]) (simp_all add: default_plain memory_ok(1))

text \<open>A message for an empty server.\<close>

definition silent_ops :: "(unit, (unit, memory) redis_broker) mw_ops" where
  "silent_ops = \<lparr>mw_isinstance = (\<lambda>m c. False), mw_actor_options = (\<lambda>m. {}), mw_run = (\<lambda>m h. return ())\<rparr>"

theorem redis_enqueue_next_witness:
  "\<exists>m1 m' s1 s2. redis_enqueue memory_commands redis_sample_call JSONEncoder silent_ops sample_message None (redis_sample no_memory 0) = (Inr m1, s1)
    \<and> redis_next 2 memory_commands redis_sample_call JSONEncoder 0 s1 = Some (Inr (Some (rd_next (redis_sample no_memory 0))), s2)
    \<and> message_at s2 (rd_next (redis_sample no_memory 0)) = m' \<and> message_id m' = ''id-1''
    \<and> ''m2'' \<in> mq_fetched (queue_of ''d'' ''default'' (memory_view (rd_server s2))) ''c''"
proof -
  let ?s = "redis_sample no_memory 0"
  let ?m = "redis_message (br_clock ?s) (cl_uuid redis_sample_call) sample_message None"
  have m: "?m = sample_message\<lparr>options := [(''retries'', PInt 0), (''redis_message_id'', PStr ''m2'')]\<rparr>"
    by (simp add: redis_message_def copy_def sample_message_def)
  have "\<exists>data. encode JSONEncoder ?m = Inr data"
    unfolding m by (simp add: encode_def JSONEncoder_def sample_message_def asdict_def json_dumps.simps)
  then obtain data where data: "encode JSONEncoder ?m = Inr data" by blast
  let ?m' = "?m\<lparr>args := map listify (args ?m)\<rparr>"
  have dec: "decode JSONEncoder (cl_uuid redis_sample_call) (br_clock ?s) data = Inr ?m'"
    using json.decode_encode [OF json_wf_asdict [THEN iffD2] data, of "''m2''" 70000] unfolding m
    by (simp add: sample_message_def dict_wf_def)
  have q: "queue_name sample_message = ''default''" by (simp add: sample_message_def)
  have empty: "mq_waiting (queue_of ''d'' ''default'' (memory_view no_memory)) = []"
    "mentions (queue_of ''d'' ''default'' (memory_view no_memory)) = {}"
    by (simp_all add: mentions_def queue_of_def memory_view_def no_memory_def at_key_def)
  obtain s1 s2 where "redis_enqueue memory_commands redis_sample_call JSONEncoder silent_ops sample_message None ?s = (Inr ?m, s1)"
    "redis_next 2 memory_commands redis_sample_call JSONEncoder 0 s1 = Some (Inr (Some (rd_next ?s)), s2)"
    "message_at s2 (rd_next ?s) = ?m'" "''m2'' \<in> mq_fetched (queue_of ''d'' ''default'' (memory_view (rd_server s2))) ''c''"
    using redis_enqueue_next [OF memory.redis_server_axioms _ _ _ _ _ _ _ _ _ _ data dec, of silent_ops 99 0]
    by (auto simp: silent_ops_def return_def q default_plain no_memory_ok empty simp del: redis_next.simps)
  moreover have "message_id ?m' = ''id-1''" unfolding m by (simp add: sample_message_def)
  ultimately show ?thesis by blast
qed

text \<open>
  A broken connection is not reported alike: acknowledging and fetching turn the
  \<open>redis.ConnectionError\<close> of the client into \<open>ConnectionClosed\<close>, which the worker handles, but giving
  messages back does not, and the exception that it raises is none that the worker's \<open>except\<close> clauses for
  connection errors catch.
\<close>

theorem redis_requeue_untranslated:
  assumes "rd_outage s \<noteq> 0" and "map_of (options (message_at s r)) ''redis_message_id'' = Some (PStr i)"
  shows "(\<exists>err s'. redis_ack R X c r s = (Inl err, s') \<and> isinstance err BrokerConnectionError \<and> rd_server s' = rd_server s)
    \<and> (\<exists>err. redis_requeue R X c [r] s = (Inl err, s) \<and> \<not> isinstance err BrokerConnectionError)"
proof
  have i: "redis_message_id (message_at s r) s = (Inr i, s)"
    using assms(2) by (simp add: redis_message_id_def return_def)
  show "\<exists>err s'. redis_ack R X c r s = (Inl err, s') \<and> isinstance err BrokerConnectionError \<and> rd_server s' = rd_server s"
    using assms(1) i
    by (simp add: redis_ack_def redis_settle_def translated_def do_dispatch_def proc_simps update_consumer_def issubclass_code Let_def)
  show "\<exists>err. redis_requeue R X c [r] s = (Inl err, s) \<and> \<not> isinstance err BrokerConnectionError"
    using assms(1) i by (simp add: redis_requeue_def do_dispatch_def proc_simps issubclass_code)
qed

theorem redis_requeue_untranslated_witness:
  "let s = (redis_sample fetched_memory 3)\<lparr>br_proxies := (\<lambda>_. MessageProxy (redis_message 0 ''m1'' sample_message None))\<rparr>
   in (\<exists>err s'. redis_ack memory_commands redis_sample_call 0 0 s = (Inl err, s') \<and> isinstance err BrokerConnectionError
         \<and> rd_server s' = rd_server s)
    \<and> (\<exists>err. redis_requeue memory_commands redis_sample_call 0 [0] s = (Inl err, s) \<and> \<not> isinstance err BrokerConnectionError)"
  unfolding Let_def
  by (rule redis_requeue_untranslated) (simp_all add: MessageProxy_def redis_message_def copy_def sample_message_def)

section \<open>Joining\<close>

text \<open>
  When \<open>join\<close> returns, nothing is left of the queue and its delay queue: no message is stored in
  either, so none is waiting and none is being processed by any worker.
\<close>

theorem redis_join_empty:
  assumes "redis_server R view" and "redis_join fuel R X nap q interval timeout s = Some (Inr (), s')" and "canonical q"
  shows "mq_data (queue_of (rd_namespace s') q (view (rd_server s'))) = Map.empty
    \<and> mq_data (queue_of (rd_namespace s') (dq_name q) (view (rd_server s'))) = Map.empty"
proof -
  have qsize: "ks_hash (view (rd_server s')) (messages_key (rd_namespace s') q) = Map.empty
      \<and> ks_hash (view (rd_server s')) (messages_key (rd_namespace s') (q @ ''.DQ'')) = Map.empty"
    if "do_dispatch R X q Qsize s = (Inr (Count 0), s')" for s
  proof -
    have c: "queue_canonical_name q = q" using assms(3) by (simp add: queue_canonical_name_def canonical_def)
    obtain k s0 where k: "max_unpack_size X s = (k, s0)" by force
    obtain reply r where d: "dispatch R (rd_namespace s0) (br_clock s0) q (rd_broker_id s0) (rd_heartbeat_timeout s0) (rd_dead_message_ttl s0)
        (should_do_maintenance (rd_maintenance_chance s0) (cl_roll X) Qsize) k Qsize (rd_server s0) = (reply, r)" by force
    with that k have "reply = Count 0" "s' = s0\<lparr>rd_server := r\<rparr>" by (auto simp: do_dispatch_def split: if_splits)
    with d have "r_hlen R (messages_key (rd_namespace s') q) (rd_server s') = 0"
      "r_hlen R (messages_key (rd_namespace s') (q @ ''.DQ'')) (rd_server s') = 0"
      by (auto simp: dispatch_def run_command_def Let_def c)
    then show ?thesis by (simp add: redis_server.hlen [OF assms(1)])
  qed
  have "redis_join_loop fuel R X nap q interval d s = Some (Inr (), s') \<Longrightarrow> \<exists>s. do_dispatch R X q Qsize s = (Inr (Count 0), s')" for d
    by (induction fuel arbitrary: s) (auto split: if_splits prod.splits sum.splits option.splits)
  with assms(2) obtain t where "do_dispatch R X q Qsize t = (Inr (Count 0), s')" by (auto simp: redis_join_def Let_def)
  from qsize [OF this] assms(3) show ?thesis by (simp add: queue_of_def)
qed

theorem redis_join_empty_witness:
  "\<exists>s'. redis_join 1 memory_commands redis_sample_call (\<lambda>i s. s) ''default'' 100 None (redis_sample no_memory 0) = Some (Inr (), s')
     \<and> mq_data (queue_of (rd_namespace s') ''default'' (memory_view (rd_server s'))) = Map.empty
     \<and> mq_data (queue_of (rd_namespace s') (dq_name ''default'') (memory_view (rd_server s'))) = Map.empty"
proof -
  have "\<exists>r. dispatch memory_commands ''d'' 70000 ''default'' ''c'' 60000 (rd_dead_message_ttl (redis_sample no_memory 0)) False 100 Qsize no_memory = (Count 0, r)"
    by (simp add: dispatch_def run_command_def memory_commands_def no_memory_def at_key_def Let_def
        heartbeats_key_def queue_canonical_name_def endswith_def suffix_def)
  then obtain s' where s': "redis_join 1 memory_commands redis_sample_call (\<lambda>i s. s) ''default'' 100 None (redis_sample no_memory 0) = Some (Inr (), s')"
    by (auto simp: redis_join_def do_dispatch_def max_unpack_size_def should_do_maintenance_def)
  moreover have "canonical ''default''" by (simp add: canonical_def endswith_def suffix_def)
  ultimately show ?thesis using redis_join_empty [OF memory.redis_server_axioms s'] by blast
qed

end
