(* ===== verification/Redis_Worker.thy ===== *)
theory Redis_Worker
  imports Redis_Refinement Redis_Broker Worker_System
begin

text \<open>
  A worker on the Redis broker, as far as its shutdown is concerned: the messages that its threads have
  not taken go back to the queues on the server.
\<close>

section \<open>The state of both\<close>

text \<open>The worker's fields extend the base record of the broker; the fields of the Redis broker lie behind them.\<close>

type_synonym ('m, 'r, 'a) redis_worker = "('m, unit, ('r, 'a) redis_broker_ext) worker_scheme"

definition redis_side :: "('m, 'r, 'a) redis_worker \<Rightarrow> ('m, 'r, 'a) redis_broker_scheme" where
  "redis_side s = broker.extend (broker.truncate s) (worker.more s)"

definition put_redis :: "('m, 'r, 'a) redis_broker_scheme \<Rightarrow> ('m, 'r, 'a) redis_worker \<Rightarrow> ('m, 'r, 'a) redis_worker" where
  "put_redis t s = broker.extend (broker.truncate t)
     (worker_ext (wk_consumers s) (wk_whitelist s) (wk_work_queue s) (wk_time s) (wk_queue_prefetch s) (wk_delay_prefetch s)
        (broker.more t))"

definition on_redis :: "(('m, 'r, 'a) redis_broker_scheme, 'b) proc \<Rightarrow> (('m, 'r, 'a) redis_worker, 'b) proc" where
  "on_redis f s = (case f (redis_side s) of (x, t) \<Rightarrow> (x, put_redis t s))"

lemma redis_side_put [simp]: "redis_side (put_redis t s) = t"
  by (cases t) (simp add: redis_side_def put_redis_def broker.defs)

lemma put_redis_simps [simp]:
  "wk_consumers (put_redis t s) = wk_consumers s" "wk_work_queue (put_redis t s) = wk_work_queue s"
  "br_proxies (put_redis t s) = br_proxies t"
  by (simp_all add: put_redis_def broker.defs)

lemma redis_side_simps [simp]:
  "br_proxies (redis_side s) = br_proxies s" "redis_side (s\<lparr>wk_work_queue := w\<rparr>) = redis_side s"
  by (simp_all add: redis_side_def broker.defs)

text \<open>
  The operations as the worker calls them; the random numbers are the same at every call. Fetching has fuel
  for its loop over the cache.
\<close>

definition redis_ops ::
  "nat \<Rightarrow> 'r redis_commands \<Rightarrow> redis_call \<Rightarrow> encoder \<Rightarrow> ('m, ('m, 'r, 'a) redis_broker_scheme) mw_ops \<Rightarrow> int
   \<Rightarrow> ('m, 'r, 'a) redis_worker consumer_ops" where
  "redis_ops fuel R X e M timeout =
     \<lparr>co_consume = (\<lambda>name prefetch. on_redis (redis_consume name prefetch timeout)),
      co_next = (\<lambda>c. on_redis (\<lambda>t. case redis_next fuel R X e c t of None \<Rightarrow> (Inr None, t) | Some y \<Rightarrow> y)),
      co_ack = (\<lambda>c r. on_redis (redis_ack R X c r)),
      co_nack = (\<lambda>c r. on_redis (redis_nack R X c r)),
      co_requeue = (\<lambda>c rs. on_redis (redis_requeue R X c rs)), co_requeue_reads = True,
      co_close = (\<lambda>c. return ()),
      co_enqueue = (\<lambda>m delay. on_redis (redis_enqueue R X e M m delay)),
      co_sleep = (\<lambda>d s. s\<lparr>br_clock := br_clock s + d\<rparr>)\<rparr>"

section \<open>Handing back\<close>

definition worker_queue :: "('r \<Rightarrow> keyspace) \<Rightarrow> string \<Rightarrow> ('m, 'r, 'a) redis_worker \<Rightarrow> message_queue" where
  "worker_queue view q s = queue_of (rd_namespace (redis_side s)) q (view (rd_server (redis_side s)))"

text \<open>
  The worker has fetched the messages of a queue, whose data is on the server, and a consumer thread for
  the queue with a connection; the server can be reached.
\<close>

definition connected :: "('r \<Rightarrow> keyspace) \<Rightarrow> string \<Rightarrow> ('m, 'r, 'a) redis_worker \<Rightarrow> bool" where
  "connected view q s =
     (rd_outage (redis_side s) = 0 \<and> worker_id (rd_broker_id (redis_side s)) \<and> 0 < rd_heartbeat_timeout (redis_side s)
    \<and> plain_queue q \<and> mq_ok (worker_queue view q s)
    \<and> (\<exists>t c. map_of (wk_consumers s) q = Some t \<and> ct_consumer t = Some c \<and> rk_queue (rd_consumers (redis_side s) ! c) = q))"

definition in_hand :: "('r \<Rightarrow> keyspace) \<Rightarrow> (proxy_ref \<Rightarrow> string) \<Rightarrow> string \<Rightarrow> proxy_ref list \<Rightarrow> ('m, 'r, 'a) redis_worker \<Rightarrow> bool" where
  "in_hand view i q rs s =
     (distinct (map i rs) \<and> (\<forall>r \<in> set rs. map_of (options (message_at s r)) ''redis_message_id'' = Some (PStr (i r))
        \<and> i r \<in> mq_fetched (worker_queue view q s) (rd_broker_id (redis_side s)) \<and> mq_data (worker_queue view q s) (i r) \<noteq> None))"

definition handed_back :: "('r \<Rightarrow> keyspace) \<Rightarrow> string \<Rightarrow> string list \<Rightarrow> ('m, 'r, 'a) redis_worker \<Rightarrow> ('m, 'r, 'a) redis_worker \<Rightarrow> bool" where
  "handed_back view q ids s s' =
     (let w = rd_broker_id (redis_side s); Q = worker_queue view q s; Q' = worker_queue view q s'
      in (\<exists>recovered. mq_waiting Q' = mq_waiting Q @ recovered @ ids) \<and> mq_data Q' = mq_data Q
         \<and> mq_fetched Q' w = mq_fetched Q w - set ids)"

text \<open>What does not change while messages are handed back.\<close>

definition same_worker :: "('m, 'r, 'a) redis_worker \<Rightarrow> ('m, 'r, 'a) redis_worker \<Rightarrow> bool" where
  "same_worker s s' =
     (wk_consumers s' = wk_consumers s \<and> wk_work_queue s' = wk_work_queue s \<and> br_proxies s' = br_proxies s
    \<and> rd_outage (redis_side s') = rd_outage (redis_side s) \<and> rd_broker_id (redis_side s') = rd_broker_id (redis_side s)
    \<and> rd_heartbeat_timeout (redis_side s') = rd_heartbeat_timeout (redis_side s)
    \<and> rd_namespace (redis_side s') = rd_namespace (redis_side s) \<and> rd_consumers (redis_side s') = rd_consumers (redis_side s))"

lemma give_back_all:
  "set ids \<subseteq> mq_fetched Q w \<Longrightarrow> distinct ids \<Longrightarrow> \<forall>i \<in> set ids. mq_data Q i \<noteq> None \<Longrightarrow>
   fold (give_back w) ids Q = Q\<lparr>mq_waiting := mq_waiting Q @ ids, mq_fetched := (mq_fetched Q)(w := mq_fetched Q w - set ids)\<rparr>"
proof (induction ids arbitrary: Q)
  case (Cons i ids)
  let ?Q = "Q\<lparr>mq_waiting := mq_waiting Q @ [i], mq_fetched := (mq_fetched Q)(w := mq_fetched Q w - {i})\<rparr>"
  have g: "give_back w i Q = ?Q" using Cons.prems by (simp add: give_back_def)
  have "set ids \<subseteq> mq_fetched ?Q w" "distinct ids" "\<forall>i \<in> set ids. mq_data ?Q i \<noteq> None" using Cons.prems by auto
  from Cons.IH [OF this] have "fold (give_back w) ids ?Q = ?Q\<lparr>mq_waiting := mq_waiting ?Q @ ids,
      mq_fetched := (mq_fetched ?Q)(w := mq_fetched ?Q w - set ids)\<rparr>" .
  moreover have "mq_fetched ?Q w - set ids = mq_fetched Q w - set (i # ids)" by auto
  ultimately show ?case by (simp only: fold.simps comp_def g) (simp del: fun_upd_apply)
qed simp

lemma message_ids:
  "\<forall>r \<in> set rs. map_of (options (f r)) ''redis_message_id'' = Some (PStr (i r)) \<Longrightarrow>
   redis_message_ids (map f rs) s = (Inr (map i rs), s)"
  by (induction rs) (simp_all add: redis_message_id_def andthen_def return_def)

lemma connected_frame: "connected view q (s\<lparr>wk_work_queue := w\<rparr>) = connected view q s"
  "in_hand view i q rs (s\<lparr>wk_work_queue := w\<rparr>) = in_hand view i q rs s"
  "worker_queue view q (s\<lparr>wk_work_queue := w\<rparr>) = worker_queue view q s"
  by (simp_all add: connected_def in_hand_def worker_queue_def)

lemma redis_requeue_once:
  assumes R: "redis_server R view" and C: "\<And>c rs. co_requeue C c rs = on_redis (redis_requeue R X c rs)"
    and s: "connected view q s" "in_hand view i q rs s" "rs \<noteq> []"
  obtains s' where "requeue_messages C q rs s = (Inr (), s')" "same_worker s s'" "handed_back view q (map i rs) s s'"
    "\<And>q'. q' \<noteq> q \<Longrightarrow> plain_queue q' \<Longrightarrow> \<exists>A. worker_queue view q' s' = (worker_queue view q' s)\<lparr>mq_alive := A\<rparr>"
    "\<And>q'. plain_queue q' \<Longrightarrow> mq_ok (worker_queue view q' s) \<Longrightarrow> mq_ok (worker_queue view q' s')"
proof -
  let ?t = "redis_side s" and ?Q = "worker_queue view q s"
  obtain th c where th: "map_of (wk_consumers s) q = Some th" "ct_consumer th = Some c" "rk_queue (rd_consumers ?t ! c) = q"
    and w: "rd_outage ?t = 0" "worker_id (rd_broker_id ?t)" "0 < rd_heartbeat_timeout ?t" "plain_queue q" "mq_ok ?Q"
    using s(1) unfolding connected_def by blast
  obtain k t1 where k: "max_unpack_size X ?t = (k, t1)" by force
  then have t1: "\<exists>n. t1 = ?t\<lparr>rd_max_unpack_size := n\<rparr>"
    by (cases "rd_max_unpack_size ?t") (auto simp: max_unpack_size_def Let_def intro: exI [of _ "rd_max_unpack_size ?t"])
  let ?run = "dispatch R (rd_namespace ?t) (br_clock ?t) q (rd_broker_id ?t) (rd_heartbeat_timeout ?t) (rd_dead_message_ttl ?t)
             (should_do_maintenance (rd_maintenance_chance ?t) (cl_roll X) (Requeue (map i rs))) k (Requeue (map i rs)) (rd_server ?t)"
  obtain reply r where run: "?run = (reply, r)" by force
  let ?s = "put_redis (t1\<lparr>rd_server := r\<rparr>) s"
  have ids: "redis_message_ids (map (message_at ?t) rs) ?t = (Inr (map i rs), ?t)"
    by (rule message_ids) (use s(2) in \<open>simp add: in_hand_def\<close>)
  have "co_requeue C c rs s = (Inr (), ?s)"
    using s(3) w(1) th(3) k run t1 ids unfolding C on_redis_def redis_requeue_def do_dispatch_def
    by (auto simp: andthen_def return_def)
  then have 1: "requeue_messages C q rs s = (Inr (), ?s)"
    using th by (simp add: requeue_messages_def thread_consumer_found [OF th(1,2)] andthen_def)
  have 2: "same_worker s ?s" using t1 by (auto simp: same_worker_def)
  have view: "worker_queue view p ?s = queue_of (rd_namespace ?t) p (view r)" for p
    using t1 by (auto simp: worker_queue_def)
  have ok: "mq_ok (worker_queue view q' ?s)" if "plain_queue q'" "mq_ok (worker_queue view q' s)" for q'
  proof -
    have "\<forall>v. mq_alive (queue_of (rd_namespace ?t) q' (view (rd_server ?t))) v \<noteq> None \<longrightarrow> worker_id v"
      using that(2) by (simp add: mq_ok_def worker_queue_def)
    from redis_server.dispatch_in [OF R that(1) w(4,2) this _ w(3), where c = "Requeue (map i rs)"] run
    have "mq_step\<^sup>*\<^sup>* (worker_queue view q' s) (worker_queue view q' ?s)" unfolding view by (simp add: worker_queue_def) (metis snd_conv)
    then show ?thesis using that(2) by (rule mq_steps_ok)
  qed
  let ?w = "rd_broker_id ?t"
  let ?beat = "?Q\<lparr>mq_alive := (mq_alive ?Q)(?w \<mapsto> br_clock ?t)\<rparr>"
  define dead where "dead = {v. \<exists>u. mq_alive ?beat v = Some u \<and> 0 \<le> u \<and> u \<le> br_clock ?t - rd_heartbeat_timeout ?t}"
  let ?m = "should_do_maintenance (rd_maintenance_chance ?t) (cl_roll X) (Requeue (map i rs))"
  from dispatch_exact [OF R w(4,2) w(5) [unfolded worker_queue_def] run, where Q = ?beat and dead = dead, OF _ dead_def]
  obtain Q1 L1 where "if ?m then mq_maintained dead ?beat Q1 \<and> L1 = mq_expired (br_clock ?t - rd_dead_message_ttl ?t)
        (letters_of (rd_namespace ?t) q (view (rd_server ?t)))
      else Q1 = ?beat \<and> L1 = letters_of (rd_namespace ?t) q (view (rd_server ?t))"
    and Q': "queue_of (rd_namespace ?t) q (view r) = mq_command ?w k (Requeue (map i rs)) Q1"
    and others: "\<forall>q'. plain_queue q' \<and> q' \<noteq> q \<longrightarrow>
       (\<exists>A. queue_of (rd_namespace ?t) q' (view r) = (queue_of (rd_namespace ?t) q' (view (rd_server ?t)))\<lparr>mq_alive := A\<rparr>)"
    unfolding worker_queue_def by blast
  then have m: "mq_maintained dead ?beat Q1 \<or> Q1 = ?beat" by (simp split: if_splits)
  have "?w \<notin> dead" using w(3) by (simp add: dead_def)
  with m obtain xs where Q1: "mq_data Q1 = mq_data ?Q" "mq_fetched Q1 ?w = mq_fetched ?Q ?w" "mq_waiting Q1 = mq_waiting ?Q @ xs"
    by (auto simp: mq_maintained_def)
  have "fold (give_back ?w) (map i rs) Q1 = Q1\<lparr>mq_waiting := mq_waiting Q1 @ map i rs,
      mq_fetched := (mq_fetched Q1)(?w := mq_fetched Q1 ?w - set (map i rs))\<rparr>"
    using s(2) Q1 by (intro give_back_all) (auto simp: in_hand_def)
  with Q' Q1 have "handed_back view q (map i rs) s ?s"
    unfolding handed_back_def Let_def view by simp
  from that [OF 1 2 this _ ok] others show ?thesis unfolding view by (simp add: worker_queue_def)
qed

lemma redis_requeue_all:
  assumes R: "redis_server R view" and C: "\<And>c rs. co_requeue C c rs = on_redis (redis_requeue R X c rs)"
  shows "distinct qs \<Longrightarrow> \<forall>q \<in> set qs. connected view q s \<and> in_hand view i q (g q) s \<and> g q \<noteq> [] \<Longrightarrow>
    \<exists>s'. for_each (\<lambda>q. try_except (requeue_messages C q (g q)) h) qs s = (Inr (), s') \<and> same_worker s s'
      \<and> (\<forall>q. plain_queue q \<longrightarrow> (if q \<in> set qs then handed_back view q (map i (g q)) s s'
           else \<exists>A. worker_queue view q s' = (worker_queue view q s)\<lparr>mq_alive := A\<rparr>))"
proof (induction qs arbitrary: s)
  case Nil
  have "\<exists>A. worker_queue view q s = (worker_queue view q s)\<lparr>mq_alive := A\<rparr>" for q
    by (rule exI [of _ "mq_alive (worker_queue view q s)"]) simp
  then show ?case by (simp add: return_def same_worker_def)
next
  case (Cons q qs)
  then have here: "connected view q s" "in_hand view i q (g q) s" "g q \<noteq> []" by simp_all
  from redis_requeue_once [OF R C here] obtain s1 where
    1: "requeue_messages C q (g q) s = (Inr (), s1)" "same_worker s s1" "handed_back view q (map i (g q)) s s1"
      "\<And>q'. q' \<noteq> q \<Longrightarrow> plain_queue q' \<Longrightarrow> \<exists>A. worker_queue view q' s1 = (worker_queue view q' s)\<lparr>mq_alive := A\<rparr>"
      "\<And>q'. plain_queue q' \<Longrightarrow> mq_ok (worker_queue view q' s) \<Longrightarrow> mq_ok (worker_queue view q' s1)"
    by blast
  have rest: "connected view p s1 \<and> in_hand view i p (g p) s1 \<and> g p \<noteq> []" if "p \<in> set qs" for p
  proof -
    have p: "connected view p s" "in_hand view i p (g p) s" "g p \<noteq> []" "p \<noteq> q" using Cons.prems that by auto
    then have "plain_queue p" by (simp add: connected_def)
    with 1(4) p(4) obtain A where "worker_queue view p s1 = (worker_queue view p s)\<lparr>mq_alive := A\<rparr>" by blast
    then have "in_hand view i p (g p) s1" using p(2) 1(2) by (simp add: in_hand_def same_worker_def)
    moreover have "connected view p s1" using p(1) 1(2) 1(5) by (auto simp: connected_def same_worker_def)
    ultimately show ?thesis using p(3) by simp
  qed
  have "distinct qs" "\<forall>p \<in> set qs. connected view p s1 \<and> in_hand view i p (g p) s1 \<and> g p \<noteq> []" using Cons.prems(1) rest by auto
  from Cons.IH [OF this] obtain s2 where
    2: "for_each (\<lambda>q. try_except (requeue_messages C q (g q)) h) qs s1 = (Inr (), s2)" "same_worker s1 s2"
      "\<forall>q. plain_queue q \<longrightarrow> (if q \<in> set qs then handed_back view q (map i (g q)) s1 s2
           else \<exists>A. worker_queue view q s2 = (worker_queue view q s1)\<lparr>mq_alive := A\<rparr>)" by blast
  have "try_except (requeue_messages C q (g q)) h s = (Inr (), s1)" using 1(1) by (simp add: try_except_def)
  then have "for_each (\<lambda>q. try_except (requeue_messages C q (g q)) h) (q # qs) s = (Inr (), s2)"
    using 2(1) by (simp add: andthen_def)
  moreover have "same_worker s s2" using 1(2) 2(2) by (simp add: same_worker_def)
  moreover have "if p \<in> set (q # qs) then handed_back view p (map i (g p)) s s2
      else \<exists>A. worker_queue view p s2 = (worker_queue view p s)\<lparr>mq_alive := A\<rparr>" if "plain_queue p" for p
  proof (cases "p = q")
    case True
    then have "p \<notin> set qs" using Cons.prems(1) by simp
    then have "\<exists>A. worker_queue view p s2 = (worker_queue view p s1)\<lparr>mq_alive := A\<rparr>" using spec [OF 2(3), of p] that by simp
    then obtain A where "worker_queue view p s2 = (worker_queue view p s1)\<lparr>mq_alive := A\<rparr>" ..
    then show ?thesis using 1(3) True by (simp add: handed_back_def Let_def)
  next
    case False
    with 1(4) that obtain A where "worker_queue view p s1 = (worker_queue view p s)\<lparr>mq_alive := A\<rparr>" by blast
    then show ?thesis
      using spec [OF 2(3), of p] that 1(2) False by (cases "p \<in> set qs") (auto simp: handed_back_def same_worker_def Let_def)
  qed
  ultimately show ?case by blast
qed

lemma stop_requeue_groups:
  "stop_requeue C s =
     (let rs = map snd (q_items (wk_work_queue s)); queue = (\<lambda>r. queue_name (message_at s r))
      in for_each (\<lambda>q. try_except (requeue_messages C q (filter (\<lambda>r. queue r = q) rs))
             (\<lambda>e. if isinstance e BrokerConnectionError then return () else raise e))
           (queues_of queue rs) (s\<lparr>wk_work_queue := (wk_work_queue s)\<lparr>q_items := []\<rparr>\<rparr>))"
proof -
  have f: "for_each g (map h qs) = for_each (\<lambda>q. g (h q)) qs" for g :: "'z \<Rightarrow> ('s, unit) proc" and h :: "string \<Rightarrow> 'z" and qs
    by (induction qs) simp_all
  show ?thesis
    unfolding Let_def stop_requeue_def group_by_queue_groups
    by (simp add: andthen_get_state andthen_modify f comp_def)
qed

text \<open>
  C30. A worker on the Redis broker that stops hands back what its threads have not taken: when the threads
  have ended, every message that is left in the work queue is waiting again in its queue on the server, at the
  end and in the order in which the messages were in the work queue, and is no longer among the worker's
  unacknowledged ones; the data is untouched, other messages of the worker stay with it, nothing is left in
  the work queue, and other queues stay as they were. What other, dead workers had fetched may be recovered on
  the way, before. Assumed: the server can be reached (an outage ends the shutdown, see \<open>redis_requeue_untranslated\<close>),
  there is a consumer for each queue, and the messages were fetched by this worker and are on the server. On
  the other brokers \<open>requeue\<close> does nothing.
\<close>

theorem stop_hands_back_all:
  assumes "redis_server R view" and C: "C = redis_ops fuel R X e M timeout"
    and rs: "rs = map snd (q_items (wk_work_queue s))"
    and left: "left = (\<lambda>q. filter (\<lambda>r. queue_name (message_at s r) = q) rs)"
    and here: "\<forall>q \<in> (\<lambda>r. queue_name (message_at s r)) ` set rs. connected view q s \<and> in_hand view i q (left q) s"
  shows "\<exists>s'. stop_requeue C s = (Inr (), s') \<and> q_items (wk_work_queue s') = []
    \<and> (\<forall>q. plain_queue q \<longrightarrow>
         (let Q = worker_queue view q s; Q' = worker_queue view q s'; w = rd_broker_id (redis_side s)
          in if left q = [] then \<exists>A. Q' = Q\<lparr>mq_alive := A\<rparr>
             else (\<exists>recovered. mq_waiting Q' = mq_waiting Q @ recovered @ map i (left q))
                \<and> mq_fetched Q' w = mq_fetched Q w - i ` set (left q) \<and> mq_data Q' = mq_data Q))"
proof -
  let ?queue = "\<lambda>r. queue_name (message_at s r)"
  let ?s = "s\<lparr>wk_work_queue := (wk_work_queue s)\<lparr>q_items := []\<rparr>\<rparr>"
  have qs: "distinct (queues_of ?queue rs)" "set (queues_of ?queue rs) = ?queue ` set rs" by (simp_all add: queues_of_def)
  have l: "left q \<noteq> [] \<longleftrightarrow> q \<in> set (queues_of ?queue rs)" for q
    unfolding qs(2) left by (auto simp: filter_empty_conv)
  have handed: "\<forall>q \<in> set (queues_of ?queue rs). connected view q ?s \<and> in_hand view i q (left q) ?s \<and> left q \<noteq> []"
    using here l unfolding qs(2) by (simp add: connected_frame)
  have "co_requeue C c rs = on_redis (redis_requeue R X c rs)" for c rs by (simp add: C redis_ops_def)
  from redis_requeue_all [OF assms(1) this qs(1) handed] obtain s' where
    s': "for_each (\<lambda>q. try_except (requeue_messages C q (left q))
        (\<lambda>e. if isinstance e BrokerConnectionError then return () else raise e)) (queues_of ?queue rs) ?s = (Inr (), s')"
      "same_worker ?s s'" "\<forall>q. plain_queue q \<longrightarrow> (if q \<in> set (queues_of ?queue rs) then handed_back view q (map i (left q)) ?s s'
           else \<exists>A. worker_queue view q s' = (worker_queue view q ?s)\<lparr>mq_alive := A\<rparr>)" by blast
  have "stop_requeue C s = (Inr (), s')" unfolding stop_requeue_groups Let_def using s'(1) unfolding rs left .
  moreover have "q_items (wk_work_queue s') = []" using s'(2) by (simp add: same_worker_def)
  moreover have "let Q = worker_queue view q s; Q' = worker_queue view q s'; w = rd_broker_id (redis_side s)
          in if left q = [] then \<exists>A. Q' = Q\<lparr>mq_alive := A\<rparr>
             else (\<exists>recovered. mq_waiting Q' = mq_waiting Q @ recovered @ map i (left q))
                \<and> mq_fetched Q' w = mq_fetched Q w - i ` set (left q) \<and> mq_data Q' = mq_data Q" if "plain_queue q" for q
    using spec [OF s'(3), of q] that l [of q] by (auto simp: Let_def handed_back_def connected_frame)
  ultimately show ?thesis by blast
qed

text \<open>A worker with the message of the example server in its work queue.\<close>

definition leaving_worker :: "(unit, memory, unit) redis_worker" where
  "leaving_worker =
     \<lparr>br_actors = [], br_queues = [(''default'', ())], br_delay_queues = [''default.DQ''], br_actor_options = {},
      br_middleware = [], br_proxies = (\<lambda>_. MessageProxy (sample_message\<lparr>options := [(''redis_message_id'', PStr ''m1'')]\<rparr>)),
      br_clock = 9, wk_consumers = [(''default'', busy_thread)], wk_whitelist = [],
      wk_work_queue = \<lparr>q_items = [(Key 0 1, 0)], q_unfinished = 1\<rparr>, wk_time = 0, wk_queue_prefetch = 2, wk_delay_prefetch = 1000,
      \<dots> = redis_broker_ext fetched_memory 0 ''b'' ''d'' 1000 60000 604800000 None
        [\<lparr>rk_queue = ''default'', rk_prefetch = 2, rk_timeout = 5000, rk_cache = [], rk_queued = [''id-1''], rk_misses = 0\<rparr>] 1 ()\<rparr>"

definition no_call :: redis_call where
  "no_call = \<lparr>cl_roll = 5000, cl_lua_max_stack = None, cl_maxstack = 8000, cl_uuid = ''u'', cl_u = 1, cl_w = 1\<rparr>"

theorem stop_hands_back_all_witness:
  "let M = \<lparr>mw_isinstance = (\<lambda>m c. False), mw_actor_options = (\<lambda>m. {}), mw_run = (\<lambda>m h. return ())\<rparr>
   in \<exists>s' recovered. stop_requeue (redis_ops 1 memory_commands no_call JSONEncoder M 5000) leaving_worker = (Inr (), s')
        \<and> mq_waiting (worker_queue memory_view ''default'' s') = recovered @ [''m1'']
        \<and> ''m1'' \<notin> mq_fetched (worker_queue memory_view ''default'' s') ''b''"
proof -
  let ?s = leaving_worker and ?Q = "worker_queue memory_view ''default'' leaving_worker"
  have side: "rd_outage (redis_side ?s) = 0" "rd_broker_id (redis_side ?s) = ''b''" "rd_heartbeat_timeout (redis_side ?s) = 60000"
    "rd_namespace (redis_side ?s) = ''d''" "rd_server (redis_side ?s) = fetched_memory" "rk_queue (rd_consumers (redis_side ?s) ! 0) = ''default''"
    by (simp_all add: leaving_worker_def redis_side_def broker.defs)
  have msg: "queue_name (message_at ?s r) = ''default''"
    "map_of (options (message_at ?s r)) ''redis_message_id'' = Some (PStr ''m1'')" for r
    by (simp_all add: leaving_worker_def MessageProxy_def sample_message_def)
  have items: "map snd (q_items (wk_work_queue ?s)) = [0]" "map_of (wk_consumers ?s) ''default'' = Some busy_thread"
    by (simp_all add: leaving_worker_def)
  have Q: "?Q = queue_of ''d'' ''default'' (memory_view fetched_memory)" by (simp add: worker_queue_def side)
  have "''m1'' \<in> set (at_key (mem_sets fetched_memory) (acks_key ''d'' ''b'' ''default''))"
    "map_of (at_key (mem_hashes fetched_memory) (messages_key ''d'' ''default'')) ''m1'' = Some ''data''"
    "at_key (mem_lists fetched_memory) (queue_key ''d'' ''default'') = []" by code_simp+
  then have Qs: "''m1'' \<in> mq_fetched ?Q ''b''" "mq_data ?Q ''m1'' = Some ''data''" "mq_waiting ?Q = []"
    unfolding Q by (simp_all add: queue_of_def memory_view_def worker_id_def)
  have "connected memory_view ''default'' ?s"
    using memory_ok(2) items(2) side(6) by (auto simp: connected_def side(1-5) Q worker_id_def default_plain busy_thread_def)
  moreover have "in_hand memory_view (\<lambda>_. ''m1'') ''default'' [0] ?s"
    using Qs by (simp add: in_hand_def side msg)
  ultimately have here: "\<forall>q \<in> (\<lambda>r. queue_name (message_at ?s r)) ` set [0].
      connected memory_view q ?s \<and> in_hand memory_view (\<lambda>_. ''m1'') q (filter (\<lambda>r. queue_name (message_at ?s r) = q) [0]) ?s"
    by (simp add: msg(1))
  let ?M = "\<lparr>mw_isinstance = (\<lambda>m c. False), mw_actor_options = (\<lambda>m. {}), mw_run = (\<lambda>m h. return ())\<rparr>"
  obtain s' where s': "stop_requeue (redis_ops 1 memory_commands no_call JSONEncoder ?M 5000) ?s = (Inr (), s')"
    "\<forall>q. plain_queue q \<longrightarrow>
         (let Q = worker_queue memory_view q ?s; Q' = worker_queue memory_view q s'; w = rd_broker_id (redis_side ?s);
              l = filter (\<lambda>r. queue_name (message_at ?s r) = q) [0]
          in if l = [] then \<exists>A. Q' = Q\<lparr>mq_alive := A\<rparr>
             else (\<exists>recovered. mq_waiting Q' = mq_waiting Q @ recovered @ map (\<lambda>_. ''m1'') l)
                \<and> mq_fetched Q' w = mq_fetched Q w - (\<lambda>_. ''m1'') ` set l \<and> mq_data Q' = mq_data Q)"
    using stop_hands_back_all [OF memory.redis_server_axioms refl items(1) [symmetric] refl here, where X = no_call
        and fuel = 1 and e = JSONEncoder and timeout = 5000 and M = ?M]
    unfolding Let_def by blast
  from spec [OF s'(2), of "''default''"] default_plain Qs(3)
  have "(\<exists>recovered. mq_waiting (worker_queue memory_view ''default'' s') = recovered @ [''m1''])
      \<and> ''m1'' \<notin> mq_fetched (worker_queue memory_view ''default'' s') ''b''"
    by (simp add: Let_def msg(1) side)
  with s'(1) show ?thesis unfolding Let_def by blast
qed

end
