(* ===== verification/Rabbitmq_Broker.thy ===== *)
theory Rabbitmq_Broker
  imports Broker Json
begin

text \<open>
  \<^verbatim>\<open>dramatiq/brokers/rabbitmq.py\<close>: the RabbitMQ broker, which keeps a connection and a channel per
  thread and makes new ones after a failure, and its consumers. The client library \<open>pika\<close> is the
  argument \<open>A\<close>: connections, channels, iterators and events are numbers, and every call may change
  the client's state and raise. \<open>me\<close> is the calling thread. Logging is left out.
\<close>

section \<open>The client library\<close>

datatype pika_class =
  AMQPError | AMQPConnectionError | AMQPChannelError | UnroutableError | ConnectionWrongStateError

datatype callback = Basic_ack nat nat | Basic_nack nat nat | Set_event nat

record delivery =
  dl_tag :: nat
  dl_redelivered :: bool
  dl_body :: string

text \<open>
  \<open>aq_isinstance\<close> tells the classes of \<^verbatim>\<open>pika.exceptions\<close> apart and \<open>aq_reply_code\<close> is the attribute
  \<open>reply_code\<close>, where an exception has it. A callback names its channel and delivery tag; it is run
  by the connection later, on the connection's own thread.
\<close>

record 'r amqp =
  aq_isinstance :: "exn \<Rightarrow> pika_class \<Rightarrow> bool"
  aq_reply_code :: "exn \<Rightarrow> int option"
  aq_connect :: "('r, nat) proc"
  aq_channel :: "nat \<Rightarrow> ('r, nat) proc"
  aq_confirm_delivery :: "nat \<Rightarrow> ('r, unit) proc"
  aq_connection_is_open :: "nat \<Rightarrow> 'r \<Rightarrow> bool"
  aq_channel_is_open :: "nat \<Rightarrow> 'r \<Rightarrow> bool"
  aq_close_connection :: "nat \<Rightarrow> ('r, unit) proc"
  aq_close_channel :: "nat \<Rightarrow> ('r, unit) proc"
  aq_queue_declare :: "nat \<Rightarrow> string \<Rightarrow> pydict \<Rightarrow> ('r, nat) proc"
  aq_basic_publish :: "nat \<Rightarrow> string \<Rightarrow> string \<Rightarrow> pyval \<Rightarrow> bool \<Rightarrow> ('r, unit) proc"
  aq_queue_purge :: "nat \<Rightarrow> string \<Rightarrow> ('r, unit) proc"
  aq_sleep :: "nat \<Rightarrow> int \<Rightarrow> ('r, unit) proc"
  aq_basic_qos :: "nat \<Rightarrow> nat \<Rightarrow> ('r, unit) proc"
  aq_consume :: "nat \<Rightarrow> string \<Rightarrow> int \<Rightarrow> ('r, nat) proc"
  aq_next :: "nat \<Rightarrow> ('r, delivery option) proc"
  aq_add_callback :: "nat \<Rightarrow> callback \<Rightarrow> ('r, unit) proc"
  aq_event_is_set :: "nat \<Rightarrow> 'r \<Rightarrow> bool"

definition is_amqp :: "'r amqp \<Rightarrow> exn \<Rightarrow> bool" where
  "is_amqp A e = (aq_isinstance A e AMQPConnectionError \<or> aq_isinstance A e AMQPChannelError)"

section \<open>State\<close>

text \<open>
  A consumer has a connection, a channel and an iterator over its deliveries, and remembers the
  delivery tags that it has handed out and that are not settled.
\<close>

record rabbitmq_consumer =
  rc_queue :: string
  rc_connection :: nat
  rc_channel :: nat
  rc_iterator :: nat
  rc_known_tags :: "nat list"

text \<open>
  \<open>br_queues\<close> is the set of canonical queues declared on the broker, \<open>rq_pending\<close> those that may not
  exist on the server. \<open>rq_connection\<close> and \<open>rq_channel\<close> are the attributes of \<open>self.state\<close> in each
  thread; sets are lists without repetition, in the order in which they are iterated over.
  \<open>rq_messages\<close> holds the fields that \<open>_RabbitmqMessage\<close> adds to a proxy: whether the message was
  redelivered, and its tag.
\<close>

record ('m, 'r) rabbitmq_broker = "('m, unit) broker" +
  rq_client :: 'r
  rq_confirm_delivery :: bool
  rq_max_priority :: "int option"
  rq_connections :: "nat list"
  rq_channels :: "nat list"
  rq_pending :: "string list"
  rq_connection :: "nat \<Rightarrow> nat option"
  rq_channel :: "nat \<Rightarrow> nat option"
  rq_consumers :: "rabbitmq_consumer list"
  rq_messages :: "proxy_ref \<Rightarrow> bool \<times> nat"
  rq_next :: nat

definition rabbit :: "('r, 'b) proc \<Rightarrow> (('m, 'r, 'a) rabbitmq_broker_scheme, 'b) proc" where
  "rabbit f s = (case f (rq_client s) of (x, r) \<Rightarrow> (x, s\<lparr>rq_client := r\<rparr>))"

definition DEAD_MESSAGE_TTL :: int where "DEAD_MESSAGE_TTL = 86400000 * 7"
definition MAX_ENQUEUE_ATTEMPTS :: nat where "MAX_ENQUEUE_ATTEMPTS = 6"
definition MAX_DECLARE_ATTEMPTS :: nat where "MAX_DECLARE_ATTEMPTS = 2"

text \<open>The arguments of the constructor that say where to connect to.\<close>

datatype url_argument = No_url | Url string | Urls "string list"
datatype pika_parameters = URLParameters string | ConnectionParameters pydict
datatype server_parameters = One pika_parameters | Several "pika_parameters list"

definition rabbitmq_parameters ::
  "url_argument \<Rightarrow> pydict list option \<Rightarrow> pydict \<Rightarrow> int option \<Rightarrow> exn + server_parameters" where
  "rabbitmq_parameters url parameters kwds max_priority =
     (if (case max_priority of None \<Rightarrow> False | Some p \<Rightarrow> \<not> (0 < p \<and> p \<le> 255))
      then Inl (mk_exn ValueError ''max_priority must be a value between 0 and 255'')
      else if url \<noteq> No_url then
        (if parameters \<noteq> None \<or> kwds \<noteq> []
         then Inl (mk_exn RuntimeError ''the 'url' argument cannot be used in conjunction with pika parameters'')
         else Inr (case url of
             Urls us \<Rightarrow> Several (map URLParameters us)
           | Url u \<Rightarrow> (if CHR '';'' \<in> set u then Several (map URLParameters (split_on CHR '';'' u)) else One (URLParameters u))
           | No_url \<Rightarrow> Several []))
      else
        (case parameters of
           Some ps \<Rightarrow>
             (if kwds \<noteq> []
              then Inl (mk_exn RuntimeError
                  ''the 'parameters' argument cannot be used in conjunction with other pika parameters'')
              else Inr (Several (map ConnectionParameters ps)))
         | None \<Rightarrow> Inr (One (ConnectionParameters kwds))))"

section \<open>Connections and channels\<close>

text \<open>The properties \<open>connection\<close> and \<open>channel\<close>: made on first use in a thread.\<close>

definition connection :: "'r amqp \<Rightarrow> nat \<Rightarrow> (('m, 'r, 'a) rabbitmq_broker_scheme, nat) proc" where
  "connection A me =
     andthen (get_state (\<lambda>s. rq_connection s me)) (\<lambda>c.
       case c of
         Some c \<Rightarrow> return c
       | None \<Rightarrow>
           andthen (rabbit (aq_connect A)) (\<lambda>c.
           andthen (modify (\<lambda>s. s\<lparr>rq_connection := (rq_connection s)(me := Some c),
               rq_connections := List.insert c (rq_connections s)\<rparr>)) (\<lambda>_.
             return c)))"

definition channel :: "'r amqp \<Rightarrow> nat \<Rightarrow> (('m, 'r, 'a) rabbitmq_broker_scheme, nat) proc" where
  "channel A me =
     andthen (get_state (\<lambda>s. rq_channel s me)) (\<lambda>ch.
       case ch of
         Some ch \<Rightarrow> return ch
       | None \<Rightarrow>
           andthen (connection A me) (\<lambda>c.
           andthen (rabbit (aq_channel A c)) (\<lambda>ch.
           andthen (modify (\<lambda>s. s\<lparr>rq_channel := (rq_channel s)(me := Some ch)\<rparr>)) (\<lambda>_.
           andthen (get_state rq_confirm_delivery) (\<lambda>confirm.
           andthen (if confirm then rabbit (aq_confirm_delivery A ch) else return ()) (\<lambda>_.
           andthen (modify (\<lambda>s. s\<lparr>rq_channels := List.insert ch (rq_channels s)\<rparr>)) (\<lambda>_.
             return ch)))))))"

text \<open>
  The deleters: the attribute goes first, then the entry of the set (\<open>KeyError\<close> if there is none),
  then the object is closed, ignoring what closing raises.
\<close>

definition log_exception :: "exn \<Rightarrow> ('s, unit) proc" where
  "log_exception e = (if isinstance e Exception then return () else raise e)"

definition del_channel :: "'r amqp \<Rightarrow> nat \<Rightarrow> (('m, 'r, 'a) rabbitmq_broker_scheme, unit) proc" where
  "del_channel A me =
     andthen (get_state (\<lambda>s. rq_channel s me)) (\<lambda>ch.
       case ch of
         None \<Rightarrow> return ()
       | Some ch \<Rightarrow>
           andthen (modify (\<lambda>s. s\<lparr>rq_channel := (rq_channel s)(me := None)\<rparr>)) (\<lambda>_.
           andthen (get_state rq_channels) (\<lambda>channels.
             if ch \<notin> set channels then raise (mk_exn KeyError ''channel'')
             else
               andthen (modify (\<lambda>s. s\<lparr>rq_channels := removeAll ch (rq_channels s)\<rparr>)) (\<lambda>_.
               andthen (get_state (\<lambda>s. aq_channel_is_open A ch (rq_client s))) (\<lambda>is_open.
                 if is_open then try_except (rabbit (aq_close_channel A ch)) log_exception else return ())))))"

definition del_connection :: "'r amqp \<Rightarrow> nat \<Rightarrow> (('m, 'r, 'a) rabbitmq_broker_scheme, unit) proc" where
  "del_connection A me =
     andthen (del_channel A me) (\<lambda>_.
     andthen (get_state (\<lambda>s. rq_connection s me)) (\<lambda>c.
       case c of
         None \<Rightarrow> return ()
       | Some c \<Rightarrow>
           andthen (modify (\<lambda>s. s\<lparr>rq_connection := (rq_connection s)(me := None)\<rparr>)) (\<lambda>_.
           andthen (get_state rq_connections) (\<lambda>connections.
             if c \<notin> set connections then raise (mk_exn KeyError ''connection'')
             else
               andthen (modify (\<lambda>s. s\<lparr>rq_connections := removeAll c (rq_connections s)\<rparr>)) (\<lambda>_.
               andthen (get_state (\<lambda>s. aq_connection_is_open A c (rq_client s))) (\<lambda>is_open.
                 if is_open then try_except (rabbit (aq_close_connection A c)) log_exception else return ()))))))"

definition close_object :: "'r amqp \<Rightarrow> ('r, unit) proc \<Rightarrow> (('m, 'r, 'a) rabbitmq_broker_scheme, unit) proc" where
  "close_object A close =
     try_except (rabbit close) (\<lambda>e. if aq_isinstance A e AMQPError then return () else log_exception e)"

definition rabbitmq_close :: "'r amqp \<Rightarrow> (('m, 'r, 'a) rabbitmq_broker_scheme, unit) proc" where
  "rabbitmq_close A =
     andthen (get_state (\<lambda>s. map (aq_close_channel A) (rq_channels s) @ map (aq_close_connection A) (rq_connections s)))
       (for_each (close_object A))"

section \<open>Queues\<close>

definition build_queue_arguments :: "int option \<Rightarrow> string \<Rightarrow> pydict" where
  "build_queue_arguments max_priority name =
     (let arguments = [(''x-dead-letter-exchange'', PStr []), (''x-dead-letter-routing-key'', PStr (xq_name name))]
      in case max_priority of
           None \<Rightarrow> arguments
         | Some p \<Rightarrow> (if p \<noteq> 0 then AList.update ''x-max-priority'' (PInt p) arguments else arguments))"

definition declare_on_server ::
  "'r amqp \<Rightarrow> nat \<Rightarrow> string \<Rightarrow> pydict \<Rightarrow> (('m, 'r, 'a) rabbitmq_broker_scheme, nat) proc" where
  "declare_on_server A me name arguments =
     andthen (channel A me) (\<lambda>ch. rabbit (aq_queue_declare A ch name arguments))"

definition declare_q :: "'r amqp \<Rightarrow> nat \<Rightarrow> string \<Rightarrow> (('m, 'r, 'a) rabbitmq_broker_scheme, nat) proc" where
  "declare_q A me name s =
     declare_on_server A me name (build_queue_arguments (rq_max_priority s) name) s"

definition declare_dq :: "'r amqp \<Rightarrow> nat \<Rightarrow> string \<Rightarrow> (('m, 'r, 'a) rabbitmq_broker_scheme, nat) proc" where
  "declare_dq A me name s =
     declare_on_server A me (dq_name name) (build_queue_arguments (rq_max_priority s) name) s"

definition declare_xq :: "'r amqp \<Rightarrow> nat \<Rightarrow> string \<Rightarrow> (('m, 'r, 'a) rabbitmq_broker_scheme, nat) proc" where
  "declare_xq A me name =
     declare_on_server A me (xq_name name) [(''x-message-ttl'', PInt DEAD_MESSAGE_TTL)]"

text \<open>
  The body of the \<open>try\<close> of \<open>_ensure_queue\<close>, and its loop: after a failure of the connection or the
  channel both are thrown away before the next attempt.
\<close>

definition create_queue :: "'r amqp \<Rightarrow> nat \<Rightarrow> string \<Rightarrow> (('m, 'r, 'a) rabbitmq_broker_scheme, unit) proc" where
  "create_queue A me name =
     andthen (get_state (\<lambda>s. name \<in> set (rq_pending s))) (\<lambda>pending.
       if pending then
         andthen (declare_q A me name) (\<lambda>_.
         andthen (declare_dq A me name) (\<lambda>_.
         andthen (declare_xq A me name) (\<lambda>_.
           modify (\<lambda>s. s\<lparr>rq_pending := removeAll name (rq_pending s)\<rparr>))))
       else return ())"

function ensure_queue_loop ::
  "'r amqp \<Rightarrow> nat \<Rightarrow> string \<Rightarrow> nat \<Rightarrow> (('m, 'r, 'a) rabbitmq_broker_scheme, unit) proc" where
  "ensure_queue_loop A me name attempts s =
     (case create_queue A me name s of
        (Inr _, s) \<Rightarrow> (Inr (), s)
      | (Inl e, s) \<Rightarrow>
          (if \<not> is_amqp A e then (Inl e, s)
           else
             (case del_connection A me s of
                (Inl e', s) \<Rightarrow> (Inl e', s)
              | (Inr _, s) \<Rightarrow>
                  (if attempts + 1 \<ge> MAX_DECLARE_ATTEMPTS then (Inl (mk_exn ConnectionClosed (exn_str e)), s)
                   else ensure_queue_loop A me name (attempts + 1) s))))"
  by pat_completeness auto
termination
  by (relation "measure (\<lambda>(A, me, name, attempts, s). MAX_DECLARE_ATTEMPTS - attempts)") auto

declare ensure_queue_loop.simps [simp del]

definition ensure_queue :: "'r amqp \<Rightarrow> nat \<Rightarrow> string \<Rightarrow> (('m, 'r, 'a) rabbitmq_broker_scheme, unit) proc" where
  "ensure_queue A me name = ensure_queue_loop A me name 0"

definition rabbitmq_declare_queue ::
  "'r amqp \<Rightarrow> nat \<Rightarrow> ('m, ('m, 'r, 'a) rabbitmq_broker_scheme) mw_ops \<Rightarrow> string \<Rightarrow> bool
   \<Rightarrow> (('m, 'r, 'a) rabbitmq_broker_scheme, unit) proc" where
  "rabbitmq_declare_queue A me M name ensure =
     (let canonical_queue_name = q_name name
      in andthen (get_state (\<lambda>s. map_of (br_queues s) canonical_queue_name = None)) (\<lambda>fresh.
         andthen
           (if fresh then
              andthen (emit_before M (Before_declare_queue canonical_queue_name)) (\<lambda>_.
              andthen (modify (\<lambda>s. s\<lparr>br_queues := AList.update canonical_queue_name () (br_queues s),
                  rq_pending := List.insert canonical_queue_name (rq_pending s)\<rparr>)) (\<lambda>_.
              andthen (emit_after M (After_declare_queue canonical_queue_name)) (\<lambda>_.
              (let delayed_name = dq_name name
               in andthen (modify (\<lambda>s. s\<lparr>br_delay_queues := List.insert delayed_name (br_delay_queues s)\<rparr>)) (\<lambda>_.
                    emit_after M (After_declare_delay_queue delayed_name))))))
            else return ()) (\<lambda>_.
           if ensure then ensure_queue A me canonical_queue_name else return ())))"

definition get_queue_message_counts ::
  "'r amqp \<Rightarrow> nat \<Rightarrow> string \<Rightarrow> (('m, 'r, 'a) rabbitmq_broker_scheme, nat \<times> nat \<times> nat) proc" where
  "get_queue_message_counts A me name =
     andthen (declare_q A me name) (\<lambda>n.
     andthen (declare_dq A me name) (\<lambda>d.
     andthen (declare_xq A me name) (\<lambda>x.
       return (n, d, x))))"

definition rabbitmq_flush :: "'r amqp \<Rightarrow> nat \<Rightarrow> string \<Rightarrow> (('m, 'r, 'a) rabbitmq_broker_scheme, unit) proc" where
  "rabbitmq_flush A me queue =
     for_each (\<lambda>name.
         try_except (andthen (channel A me) (\<lambda>ch. rabbit (aq_queue_purge A ch name)))
           (\<lambda>e. if aq_isinstance A e AMQPChannelError then del_channel A me else raise e))
       [queue, dq_name queue, xq_name queue]"

definition rabbitmq_flush_all :: "'r amqp \<Rightarrow> nat \<Rightarrow> (('m, 'r, 'a) rabbitmq_broker_scheme, unit) proc" where
  "rabbitmq_flush_all A me = andthen (get_state (map fst \<circ> br_queues)) (for_each (rabbitmq_flush A me))"

text \<open>\<open>meanwhile\<close> is what happens to the broker during \<open>connection.sleep\<close>; a deadline of 0 counts as none.\<close>

fun rabbitmq_join_loop ::
  "nat \<Rightarrow> 'r amqp \<Rightarrow> nat \<Rightarrow> (int \<Rightarrow> ('m, 'r, 'a) rabbitmq_broker_scheme \<Rightarrow> ('m, 'r, 'a) rabbitmq_broker_scheme)
   \<Rightarrow> string \<Rightarrow> nat \<Rightarrow> int \<Rightarrow> int option \<Rightarrow> nat \<Rightarrow> ('m, 'r, 'a) rabbitmq_broker_scheme
   \<Rightarrow> ((exn + unit) \<times> ('m, 'r, 'a) rabbitmq_broker_scheme) option" where
  "rabbitmq_join_loop 0 A me meanwhile name min_successes idle_time deadline successes s = None"
| "rabbitmq_join_loop (Suc fuel) A me meanwhile name min_successes idle_time deadline successes s =
     (if min_successes \<le> successes then Some (Inr (), s)
      else if (case deadline of None \<Rightarrow> False | Some d \<Rightarrow> d \<noteq> 0 \<and> d \<le> br_clock s)
      then Some (Inl (mk_exn QueueJoinTimeout name), s)
      else
        (case get_queue_message_counts A me name s of
           (Inl e, s) \<Rightarrow> Some (Inl e, s)
         | (Inr (n, d, _), s) \<Rightarrow>
             (let successes = (if n + d = 0 then successes + 1 else 0)
              in case andthen (connection A me) (\<lambda>c. rabbit (aq_sleep A c idle_time)) s of
                   (Inl e, s) \<Rightarrow> Some (Inl e, s)
                 | (Inr _, s) \<Rightarrow>
                     rabbitmq_join_loop fuel A me meanwhile name min_successes idle_time deadline successes
                       (meanwhile idle_time s))))"

definition rabbitmq_join ::
  "nat \<Rightarrow> 'r amqp \<Rightarrow> nat \<Rightarrow> (int \<Rightarrow> ('m, 'r, 'a) rabbitmq_broker_scheme \<Rightarrow> ('m, 'r, 'a) rabbitmq_broker_scheme)
   \<Rightarrow> string \<Rightarrow> nat \<Rightarrow> int \<Rightarrow> int option \<Rightarrow> ('m, 'r, 'a) rabbitmq_broker_scheme
   \<Rightarrow> ((exn + unit) \<times> ('m, 'r, 'a) rabbitmq_broker_scheme) option" where
  "rabbitmq_join fuel A me meanwhile name min_successes idle_time timeout s =
     (let deadline = map_option (\<lambda>t. if t = 0 then 0 else br_clock s + t) timeout
      in rabbitmq_join_loop fuel A me meanwhile name min_successes idle_time deadline 0 s)"

section \<open>Enqueueing\<close>

definition rabbitmq_message :: "int \<Rightarrow> message \<Rightarrow> int option \<Rightarrow> message" where
  "rabbitmq_message now message delay =
     (case delay of
        None \<Rightarrow> message
      | Some delay \<Rightarrow>
          copy (\<lambda>m. m\<lparr>queue_name := dq_name (queue_name m)\<rparr>) [(''eta'', PInt (now + delay))] message)"

text \<open>One attempt; \<open>target\<close> is the queue of the message that was passed in.\<close>

definition publish ::
  "'r amqp \<Rightarrow> nat \<Rightarrow> encoder \<Rightarrow> ('m, ('m, 'r, 'a) rabbitmq_broker_scheme) mw_ops \<Rightarrow> string \<Rightarrow> message \<Rightarrow> int option
   \<Rightarrow> (('m, 'r, 'a) rabbitmq_broker_scheme, unit) proc" where
  "publish A me e M target message delay =
     andthen (rabbitmq_declare_queue A me M target True) (\<lambda>_.
     andthen (emit_before M (Before_enqueue message delay)) (\<lambda>_.
     andthen (channel A me) (\<lambda>ch.
     andthen (case encode e message of Inl err \<Rightarrow> raise err | Inr body \<Rightarrow> return body) (\<lambda>body.
     andthen (get_state rq_confirm_delivery) (\<lambda>confirm.
     andthen (rabbit (aq_basic_publish A ch (queue_name message) body (dget (options message) ''broker_priority'') confirm)) (\<lambda>_.
       emit_after M (After_enqueue message delay)))))))"

text \<open>What the \<open>except\<close> clause does before it counts the attempt.\<close>

definition forget_connection ::
  "'r amqp \<Rightarrow> nat \<Rightarrow> string \<Rightarrow> exn \<Rightarrow> (('m, 'r, 'a) rabbitmq_broker_scheme, unit) proc" where
  "forget_connection A me name e =
     andthen (del_connection A me) (\<lambda>_.
       if aq_isinstance A e UnroutableError
       then modify (\<lambda>s. s\<lparr>rq_pending := List.insert (q_name name) (rq_pending s)\<rparr>) else return ())"

function enqueue_loop ::
  "'r amqp \<Rightarrow> nat \<Rightarrow> encoder \<Rightarrow> ('m, ('m, 'r, 'a) rabbitmq_broker_scheme) mw_ops \<Rightarrow> string \<Rightarrow> message \<Rightarrow> int option
   \<Rightarrow> nat \<Rightarrow> (('m, 'r, 'a) rabbitmq_broker_scheme, message) proc" where
  "enqueue_loop A me e M target message delay attempts s =
     (case publish A me e M target message delay s of
        (Inr _, s) \<Rightarrow> (Inr message, s)
      | (Inl err, s) \<Rightarrow>
          (if \<not> is_amqp A err then (Inl err, s)
           else
             (case forget_connection A me (queue_name message) err s of
                (Inl err', s) \<Rightarrow> (Inl err', s)
              | (Inr _, s) \<Rightarrow>
                  (if attempts + 1 \<ge> MAX_ENQUEUE_ATTEMPTS then (Inl (mk_exn ConnectionClosed (exn_str err)), s)
                   else enqueue_loop A me e M target message delay (attempts + 1) s))))"
  by pat_completeness auto
termination
  by (relation "measure (\<lambda>(A, me, e, M, target, message, delay, attempts, s). MAX_ENQUEUE_ATTEMPTS - attempts)") auto

declare enqueue_loop.simps [simp del]

definition rabbitmq_enqueue ::
  "'r amqp \<Rightarrow> nat \<Rightarrow> encoder \<Rightarrow> ('m, ('m, 'r, 'a) rabbitmq_broker_scheme) mw_ops \<Rightarrow> message \<Rightarrow> int option
   \<Rightarrow> (('m, 'r, 'a) rabbitmq_broker_scheme, message) proc" where
  "rabbitmq_enqueue A me e M message delay s =
     enqueue_loop A me e M (queue_name message) (rabbitmq_message (br_clock s) message delay) delay 0 s"

section \<open>Consumers\<close>

definition closed :: "exn \<Rightarrow> exn" where
  "closed e = mk_exn ConnectionClosed (exn_str e)"

definition update_rc ::
  "nat \<Rightarrow> (rabbitmq_consumer \<Rightarrow> rabbitmq_consumer) \<Rightarrow> ('m, 'r, 'a) rabbitmq_broker_scheme \<Rightarrow> ('m, 'r, 'a) rabbitmq_broker_scheme" where
  "update_rc c f s = s\<lparr>rq_consumers := (rq_consumers s)[c := f (rq_consumers s ! c)]\<rparr>"

text \<open>\<open>_RabbitmqConsumer.__init__\<close>; the number of the consumer is its place in the list.\<close>

definition open_consumer ::
  "'r amqp \<Rightarrow> string \<Rightarrow> nat \<Rightarrow> int \<Rightarrow> (('m, 'r, 'a) rabbitmq_broker_scheme, nat) proc" where
  "open_consumer A name prefetch timeout =
     try_except
       (andthen (rabbit (aq_connect A)) (\<lambda>conn.
        andthen (rabbit (aq_channel A conn)) (\<lambda>ch.
        andthen (rabbit (aq_basic_qos A ch prefetch)) (\<lambda>_.
        andthen (rabbit (aq_consume A ch name timeout)) (\<lambda>it.
        andthen (get_state (length \<circ> rq_consumers)) (\<lambda>c.
        andthen (modify (\<lambda>s. s\<lparr>rq_consumers := rq_consumers s @ [\<lparr>rc_queue = name, rc_connection = conn,
            rc_channel = ch, rc_iterator = it, rc_known_tags = []\<rparr>]\<rparr>)) (\<lambda>_.
          return c)))))))
       (\<lambda>e. if is_amqp A e then raise (closed e) else raise e)"

definition rabbitmq_consume ::
  "'r amqp \<Rightarrow> nat \<Rightarrow> ('m, ('m, 'r, 'a) rabbitmq_broker_scheme) mw_ops \<Rightarrow> string \<Rightarrow> nat \<Rightarrow> int
   \<Rightarrow> (('m, 'r, 'a) rabbitmq_broker_scheme, nat) proc" where
  "rabbitmq_consume A me M name prefetch timeout =
     andthen (rabbitmq_declare_queue A me M name True) (\<lambda>_. open_consumer A name prefetch timeout)"

text \<open>
  \<open>ack\<close> and \<open>nack\<close>: the tag is forgotten first; an unknown tag, and any exception that is no failure
  of the connection, is only logged.
\<close>

definition rabbitmq_settle ::
  "'r amqp \<Rightarrow> (nat \<Rightarrow> nat \<Rightarrow> callback) \<Rightarrow> nat \<Rightarrow> proxy_ref \<Rightarrow> (('m, 'r, 'a) rabbitmq_broker_scheme, unit) proc" where
  "rabbitmq_settle A call c r s =
     (let C = rq_consumers s ! c; tag = snd (rq_messages s r)
      in if tag \<notin> set (rc_known_tags C) then (Inr (), s)
         else
           try_except
             (andthen (modify (update_rc c (\<lambda>C. C\<lparr>rc_known_tags := removeAll tag (rc_known_tags C)\<rparr>))) (\<lambda>_.
                rabbit (aq_add_callback A (rc_connection C) (call (rc_channel C) tag))))
             (\<lambda>e. if is_amqp A e then raise (closed e) else log_exception e) s)"

definition rabbitmq_ack :: "'r amqp \<Rightarrow> nat \<Rightarrow> proxy_ref \<Rightarrow> (('m, 'r, 'a) rabbitmq_broker_scheme, unit) proc" where
  "rabbitmq_ack A = rabbitmq_settle A Basic_ack"

definition rabbitmq_nack :: "'r amqp \<Rightarrow> nat \<Rightarrow> proxy_ref \<Rightarrow> (('m, 'r, 'a) rabbitmq_broker_scheme, unit) proc" where
  "rabbitmq_nack A = rabbitmq_settle A Basic_nack"

definition rabbitmq_requeue :: "nat \<Rightarrow> proxy_ref list \<Rightarrow> (('m, 'r, 'a) rabbitmq_broker_scheme, unit) proc" where
  "rabbitmq_requeue c rs = return ()"

text \<open>\<open>__next__\<close>: a body that cannot be decoded is rejected at once.\<close>

definition rabbitmq_next ::
  "'r amqp \<Rightarrow> encoder \<Rightarrow> string \<Rightarrow> nat \<Rightarrow> (('m, 'r, 'a) rabbitmq_broker_scheme, proxy_ref option) proc" where
  "rabbitmq_next A e fresh_id c s =
     (let C = rq_consumers s ! c
      in case rabbit (aq_next A (rc_iterator C)) s of
           (Inl err, s) \<Rightarrow>
             (if isinstance err AssertionError \<or> is_amqp A err then
                (Inl (closed err),
                 if aq_reply_code A err = Some 404
                 then s\<lparr>rq_pending := List.insert (q_name (rc_queue C)) (rq_pending s)\<rparr> else s)
              else (Inl err, s))
         | (Inr None, s) \<Rightarrow> (Inr None, s)
         | (Inr (Some d), s) \<Rightarrow>
             (case decode e fresh_id (br_clock s) (dl_body d) of
                Inl _ \<Rightarrow>
                  andthen (rabbit (aq_add_callback A (rc_connection C) (Basic_nack (rc_channel C) (dl_tag d)))) (\<lambda>_. return None) s
              | Inr message \<Rightarrow>
                  (Inr (Some (rq_next s)),
                   (update_rc c (\<lambda>C. C\<lparr>rc_known_tags := List.insert (dl_tag d) (rc_known_tags C)\<rparr>) s)
                     \<lparr>br_proxies := (br_proxies s)(rq_next s := MessageProxy message),
                      rq_messages := (rq_messages s)(rq_next s := (dl_redelivered d, dl_tag d)),
                      rq_next := Suc (rq_next s)\<rparr>)))"

text \<open>
  \<open>close\<close>: a last callback sets an event, and once the event is set all callbacks before it have run;
  what goes wrong there is logged. Then the channel and the connection are closed.
\<close>

fun wait_for_callbacks ::
  "nat \<Rightarrow> 'r amqp \<Rightarrow> nat \<Rightarrow> nat \<Rightarrow> ('m, 'r, 'a) rabbitmq_broker_scheme
   \<Rightarrow> ((exn + unit) \<times> ('m, 'r, 'a) rabbitmq_broker_scheme) option" where
  "wait_for_callbacks 0 A conn ev s = None"
| "wait_for_callbacks (Suc fuel) A conn ev s =
     (if aq_event_is_set A ev (rq_client s) then Some (Inr (), s)
      else
        (case rabbit (aq_sleep A conn 0) s of
           (Inl e, s) \<Rightarrow> Some (Inl e, s)
         | (Inr _, s) \<Rightarrow> wait_for_callbacks fuel A conn ev s))"

definition close_objects :: "'r amqp \<Rightarrow> rabbitmq_consumer \<Rightarrow> (('m, 'r, 'a) rabbitmq_broker_scheme, unit) proc" where
  "close_objects A C =
     try_except
       (andthen (rabbit (aq_close_channel A (rc_channel C))) (\<lambda>_. rabbit (aq_close_connection A (rc_connection C))))
       (\<lambda>e. if isinstance e AssertionError \<or> is_amqp A e then raise (closed e) else raise e)"

definition close_consumer ::
  "nat \<Rightarrow> 'r amqp \<Rightarrow> nat \<Rightarrow> ('m, 'r, 'a) rabbitmq_broker_scheme
   \<Rightarrow> ((exn + unit) \<times> ('m, 'r, 'a) rabbitmq_broker_scheme) option" where
  "close_consumer fuel A c s =
     (let C = rq_consumers s ! c; ev = rq_next s; s = s\<lparr>rq_next := Suc ev\<rparr>
      in case
          (case rabbit (aq_add_callback A (rc_connection C) (Set_event ev)) s of
             (Inl e, s) \<Rightarrow> Some (Inl e, s)
           | (Inr _, s) \<Rightarrow> wait_for_callbacks fuel A (rc_connection C) ev s)
        of
          None \<Rightarrow> None
        | Some (Inr _, s) \<Rightarrow> Some (close_objects A C s)
        | Some (Inl e, s) \<Rightarrow>
            (if aq_isinstance A e ConnectionWrongStateError \<or> isinstance e Exception then Some (close_objects A C s)
             else Some (Inl e, s)))"

end
