(* ===== verification/Rabbitmq_Delivery.thy ===== *)
theory Rabbitmq_Delivery
  imports Rabbitmq_Broker
begin

text \<open>
  What the RabbitMQ broker guarantees over a client library that behaves as documented: its own
  tables stay well formed, enqueueing publishes the message between one and six times when it
  returns, and outages end in \<open>ConnectionClosed\<close>. Consumers, settlement and an example of a client are in
  \<^theory_text>\<open>Rabbitmq_Consumption\<close>.
\<close>

section \<open>What the client library promises\<close>

text \<open>Calls that neither make an object nor publish.\<close>

inductive_set plain_calls :: "'r amqp \<Rightarrow> ('r \<Rightarrow> 'r) set" for A where
  "snd \<circ> aq_confirm_delivery A ch \<in> plain_calls A"
| "snd \<circ> aq_close_connection A c \<in> plain_calls A"
| "snd \<circ> aq_close_channel A ch \<in> plain_calls A"
| "snd \<circ> aq_queue_declare A ch q arguments \<in> plain_calls A"
| "snd \<circ> aq_queue_purge A ch q \<in> plain_calls A"
| "snd \<circ> aq_sleep A c t \<in> plain_calls A"
| "snd \<circ> aq_basic_qos A ch n \<in> plain_calls A"
| "snd \<circ> aq_consume A ch q t \<in> plain_calls A"
| "snd \<circ> aq_next A it \<in> plain_calls A"
| "snd \<circ> aq_add_callback A c cb \<in> plain_calls A"

text \<open>
  Connections and channels are new objects; publishing may have reached the server even when it
  raises. \<open>conns\<close> and \<open>chans\<close> are the objects made so far, \<open>published\<close> what the server was sent, as
  pairs of a routing key and a body.
\<close>

locale amqp_client =
  fixes A :: "'r amqp" and conns :: "'r \<Rightarrow> nat set" and chans :: "'r \<Rightarrow> nat set"
    and published :: "'r \<Rightarrow> (string \<times> string) list"
  assumes plain: "f \<in> plain_calls A \<Longrightarrow> conns (f r) = conns r \<and> chans (f r) = chans r \<and> published (f r) = published r"
    and connect: "aq_connect A r = (x, r') \<Longrightarrow> chans r' = chans r \<and> published r' = published r
      \<and> (case x of Inl _ \<Rightarrow> conns r' = conns r | Inr c \<Rightarrow> c \<notin> conns r \<and> conns r' = insert c (conns r))"
    and channel: "aq_channel A c r = (y, r') \<Longrightarrow> conns r' = conns r \<and> published r' = published r
      \<and> (case y of Inl _ \<Rightarrow> chans r' = chans r | Inr ch \<Rightarrow> ch \<notin> chans r \<and> chans r' = insert ch (chans r))"
    and publish: "aq_basic_publish A ch q body p mandatory r = (z, r') \<Longrightarrow> conns r' = conns r \<and> chans r' = chans r
      \<and> (published r' = published r @ [(q, body)] \<or> isl z \<and> published r' = published r)"
    and amqp_exceptions: "aq_isinstance A e cls \<Longrightarrow> isinstance e Exception \<and> \<not> isinstance e MiddlewareError"
begin

lemma plain_keeps:
  assumes "snd \<circ> g \<in> plain_calls A"
  shows "conns (snd (g r)) = conns r" "chans (snd (g r)) = chans r" "published (snd (g r)) = published r"
  using plain [OF assms, of r] by simp_all

lemmas calls_keep [simp] = plain_calls.intros [THEN plain_keeps(1)] plain_calls.intros [THEN plain_keeps(2)]
  plain_calls.intros [THEN plain_keeps(3)]

end

section \<open>Calls from the broker\<close>

lemma rabbit_Inr: "rabbit f s = (x, s') \<Longrightarrow> s' = s\<lparr>rq_client := snd (f (rq_client s))\<rparr> \<and> x = fst (f (rq_client s))"
  by (auto simp: rabbit_def split: prod.splits)

lemma rabbit_simps [simp]:
  "fst (rabbit f s) = fst (f (rq_client s))" "snd (rabbit f s) = s\<lparr>rq_client := snd (f (rq_client s))\<rparr>"
  by (simp_all add: rabbit_def split: prod.split)

lemma keeps_rabbit: "(\<And>s. I s \<Longrightarrow> I (s\<lparr>rq_client := snd (f (rq_client s))\<rparr>)) \<Longrightarrow> keeps I (rabbit f)"
  by (simp add: keeps_def)

lemma keeps_log_exception [simp, intro]: "keeps I (log_exception e)"
  by (simp add: log_exception_def)

text \<open>What every operation of the broker that touches the client keeps, from what the calls keep.\<close>

lemma keeps_if: "keeps I m \<Longrightarrow> keeps I n \<Longrightarrow> keeps I (if b then m else n)"
  by simp

lemma keeps_option: "keeps I m \<Longrightarrow> (\<And>x. keeps I (f x)) \<Longrightarrow> keeps I (case x of None \<Rightarrow> m | Some x \<Rightarrow> f x)"
  by (cases x) simp_all

lemma ensure_queue_loop_keeps:
  assumes "keeps I (create_queue A me name)" and "keeps I (del_connection A me)"
  shows "keeps I (ensure_queue_loop A me name attempts)"
proof (rule keepsI)
  show "I (snd (ensure_queue_loop A me name attempts s))" if "I s" for s
    using assms that
  proof (induction A me name attempts s rule: ensure_queue_loop.induct)
    case (1 A me name attempts s)
    obtain x s1 where c: "create_queue A me name s = (x, s1)" by force
    obtain y s2 where d: "del_connection A me s1 = (y, s2)" by force
    from 1 c have s1: "I s1" by (auto dest: keepsD)
    from keepsD [OF "1.prems"(2) this] d have s2: "I s2" by simp
    show ?case
      using "1.IH" [OF c [symmetric] _ _ d [symmetric] _ _ "1.prems"(1,2) s2] c d s1 s2
      by (subst ensure_queue_loop.simps) (auto split: sum.split)
  qed
qed

text \<open>A rule for the loop of \<open>enqueue\<close>: \<open>P n\<close> holds before attempt \<open>n\<close>, and \<open>Q\<close> is what is shown.\<close>

lemma enqueue_loop_rule:
  assumes "P n s"
    and "\<And>n s s1 u. P n s \<Longrightarrow> publish A me e M target message delay s = (Inr u, s1) \<Longrightarrow> Q (Inr message) s1"
    and "\<And>n s s1 err. P n s \<Longrightarrow> publish A me e M target message delay s = (Inl err, s1) \<Longrightarrow> \<not> is_amqp A err \<Longrightarrow> Q (Inl err) s1"
    and "\<And>n s s1 err err' s2. P n s \<Longrightarrow> publish A me e M target message delay s = (Inl err, s1) \<Longrightarrow> is_amqp A err
      \<Longrightarrow> forget_connection A me (queue_name message) err s1 = (Inl err', s2) \<Longrightarrow> Q (Inl err') s2"
    and "\<And>n s s1 err u s2. P n s \<Longrightarrow> publish A me e M target message delay s = (Inl err, s1) \<Longrightarrow> is_amqp A err
      \<Longrightarrow> forget_connection A me (queue_name message) err s1 = (Inr u, s2)
      \<Longrightarrow> (Suc n < MAX_ENQUEUE_ATTEMPTS \<longrightarrow> P (Suc n) s2) \<and> (MAX_ENQUEUE_ATTEMPTS \<le> Suc n \<longrightarrow> Q (Inl (closed err)) s2)"
  shows "Q (fst (enqueue_loop A me e M target message delay n s)) (snd (enqueue_loop A me e M target message delay n s))"
  using assms(1)
proof (induction "MAX_ENQUEUE_ATTEMPTS - n" arbitrary: n s rule: less_induct)
  case less
  obtain x s1 where c: "publish A me e M target message delay s = (x, s1)" by force
  show ?case
  proof (cases x)
    case (Inr u)
    with c assms(2) [OF less.prems] show ?thesis by (subst (1 2) enqueue_loop.simps) auto
  next
    case (Inl err)
    note c = c [unfolded Inl]
    show ?thesis
    proof (cases "is_amqp A err")
      case False
      with c assms(3) [OF less.prems c] show ?thesis by (subst (1 2) enqueue_loop.simps) simp
    next
      case True
      obtain y s2 where d: "forget_connection A me (queue_name message) err s1 = (y, s2)" by force
      show ?thesis
      proof (cases y)
        case (Inl err')
        with c d True assms(4) [OF less.prems c True] show ?thesis by (subst (1 2) enqueue_loop.simps) simp
      next
        case (Inr u)
        from assms(5) [OF less.prems c True d [unfolded Inr]] less.hyps [of "Suc n" s2] c d Inr True
        show ?thesis by (subst (1 2) enqueue_loop.simps) (auto simp: closed_def not_le)
      qed
    qed
  qed
qed

section \<open>The tables of the broker\<close>

text \<open>
  Every queue that is to be created on the server, every delay queue and every consumer belongs to a
  declared queue;
  the connection and the channel of a thread are its own and were made by the client, a thread with a
  channel has a connection, and what a thread uses is among the objects that \<open>close\<close> closes. (A channel
  is only entered there once its confirmations are on.)
\<close>

definition queue_names :: "('m, 'r, 'a) rabbitmq_broker_scheme \<Rightarrow> string set" where
  "queue_names s = fst ` set (br_queues s)"

definition queues_wf :: "('m, 'r, 'a) rabbitmq_broker_scheme \<Rightarrow> bool" where
  "queues_wf s = (dict_wf (br_queues s) \<and> distinct (rq_pending s) \<and> set (rq_pending s) \<subseteq> queue_names s
     \<and> distinct (br_delay_queues s) \<and> set (br_delay_queues s) \<subseteq> (\<lambda>q. q @ dq_suffix) ` queue_names s
     \<and> (\<forall>C \<in> set (rq_consumers s). q_name (rc_queue C) \<in> queue_names s))"

definition objects_wf ::
  "('r \<Rightarrow> nat set) \<Rightarrow> ('r \<Rightarrow> nat set) \<Rightarrow> ('m, 'r, 'a) rabbitmq_broker_scheme \<Rightarrow> bool" where
  "objects_wf conns chans s =
     (distinct (rq_connections s) \<and> distinct (rq_channels s)
      \<and> set (rq_connections s) \<subseteq> conns (rq_client s) \<and> set (rq_channels s) \<subseteq> chans (rq_client s)
      \<and> (\<forall>t c. rq_connection s t = Some c \<longrightarrow> c \<in> set (rq_connections s) \<and> (\<forall>u. rq_connection s u = Some c \<longrightarrow> u = t))
      \<and> (\<forall>t ch. rq_channel s t = Some ch \<longrightarrow> ch \<in> chans (rq_client s) \<and> rq_connection s t \<noteq> None
           \<and> (\<forall>u. rq_channel s u = Some ch \<longrightarrow> u = t)
           \<and> (\<not> rq_confirm_delivery s \<longrightarrow> ch \<in> set (rq_channels s))))"

definition rabbitmq_wf ::
  "('r \<Rightarrow> nat set) \<Rightarrow> ('r \<Rightarrow> nat set) \<Rightarrow> string set \<Rightarrow> ('m, 'r, 'a) rabbitmq_broker_scheme \<Rightarrow> bool" where
  "rabbitmq_wf conns chans Q s = (queues_wf s \<and> objects_wf conns chans s \<and> Q \<subseteq> queue_names s)"

text \<open>Each half depends on its own fields only.\<close>

lemma queues_wf_more [simp]:
  "queues_wf (s\<lparr>rq_client := r\<rparr>) = queues_wf s"
  "queues_wf (s\<lparr>rq_connection := f\<rparr>) = queues_wf s" "queues_wf (s\<lparr>rq_connections := cs\<rparr>) = queues_wf s"
  "queues_wf (s\<lparr>rq_channel := f\<rparr>) = queues_wf s" "queues_wf (s\<lparr>rq_channels := cs\<rparr>) = queues_wf s"
  "queues_wf (s\<lparr>rq_next := n\<rparr>) = queues_wf s"
  "queues_wf (s\<lparr>br_clock := t\<rparr>) = queues_wf s" "queues_wf (s\<lparr>rq_messages := ms\<rparr>) = queues_wf s" "queues_wf (s\<lparr>br_proxies := ps\<rparr>) = queues_wf s"
  by (simp_all add: queues_wf_def queue_names_def)

lemma queue_names_more [simp]:
  "queue_names (s\<lparr>rq_client := r\<rparr>) = queue_names s" "queue_names (s\<lparr>rq_pending := p\<rparr>) = queue_names s"
  "queue_names (s\<lparr>rq_connection := f\<rparr>) = queue_names s" "queue_names (s\<lparr>rq_connections := cs\<rparr>) = queue_names s"
  "queue_names (s\<lparr>rq_channel := f\<rparr>) = queue_names s" "queue_names (s\<lparr>rq_channels := cs\<rparr>) = queue_names s"
  "queue_names (s\<lparr>rq_consumers := C\<rparr>) = queue_names s" "queue_names (s\<lparr>rq_next := n\<rparr>) = queue_names s"
  "queue_names (s\<lparr>rq_messages := ms\<rparr>) = queue_names s" "queue_names (s\<lparr>br_proxies := ps\<rparr>) = queue_names s"
  "queue_names (s\<lparr>br_clock := t\<rparr>) = queue_names s" "queue_names (s\<lparr>br_delay_queues := ds\<rparr>) = queue_names s"
  "queue_names (s\<lparr>br_queues := AList.update q () (br_queues s)\<rparr>) = insert q (queue_names s)"
  by (simp_all add: queue_names_def dict_keys_update)

lemma objects_wf_more [simp]:
  "objects_wf K L (s\<lparr>br_queues := d\<rparr>) = objects_wf K L s" "objects_wf K L (s\<lparr>br_delay_queues := l\<rparr>) = objects_wf K L s"
  "objects_wf K L (s\<lparr>rq_pending := p\<rparr>) = objects_wf K L s" "objects_wf K L (s\<lparr>br_proxies := ps\<rparr>) = objects_wf K L s"
  "objects_wf K L (s\<lparr>rq_consumers := C\<rparr>) = objects_wf K L s" "objects_wf K L (s\<lparr>rq_next := n\<rparr>) = objects_wf K L s"
  "objects_wf K L (s\<lparr>rq_messages := ms\<rparr>) = objects_wf K L s" "objects_wf K L (s\<lparr>br_clock := t\<rparr>) = objects_wf K L s"
  by (simp_all add: objects_wf_def)

lemma objects_wf_call:
  "objects_wf K L s \<Longrightarrow> K (rq_client s) \<subseteq> K r \<Longrightarrow> L (rq_client s) \<subseteq> L r \<Longrightarrow> objects_wf K L (s\<lparr>rq_client := r\<rparr>)"
  unfolding objects_wf_def by auto

lemma objects_wf_update_rc [simp]: "objects_wf K L (update_rc c f s) = objects_wf K L s"
  by (simp add: update_rc_def)

lemma queue_names_update_rc [simp]: "queue_names (update_rc c f s) = queue_names s"
  by (simp add: update_rc_def)

lemma queues_wf_pending:
  "queues_wf s \<Longrightarrow> queues_wf (s\<lparr>rq_pending := removeAll q (rq_pending s)\<rparr>)"
  "queues_wf s \<Longrightarrow> q \<in> queue_names s \<Longrightarrow> queues_wf (s\<lparr>rq_pending := List.insert q (rq_pending s)\<rparr>)"
  by (auto simp: queues_wf_def distinct_removeAll)

lemma queues_wf_declared:
  "queues_wf s \<Longrightarrow> queues_wf (s\<lparr>br_queues := AList.update q () (br_queues s), rq_pending := List.insert q (rq_pending s)\<rparr>)"
  by (auto simp: queues_wf_def queue_names_def dict_keys_update)

lemma queues_wf_update_rc:
  assumes "queues_wf s" and "\<And>C. rc_queue (f C) = rc_queue C"
  shows "queues_wf (update_rc c f s)"
proof (cases "c < length (rq_consumers s)")
  case True
  then have "set ((rq_consumers s)[c := f (rq_consumers s ! c)]) \<subseteq> insert (f (rq_consumers s ! c)) (set (rq_consumers s))"
    "rq_consumers s ! c \<in> set (rq_consumers s)" by (simp_all add: set_update_subset_insert)
  then show ?thesis using assms by (auto simp: queues_wf_def queue_names_def update_rc_def)
qed (use assms in \<open>simp add: update_rc_def queues_wf_def queue_names_def list_update_beyond\<close>)

lemma queues_wf_delay:
  "queues_wf s \<Longrightarrow> q \<in> queue_names s \<Longrightarrow> queues_wf (s\<lparr>br_delay_queues := List.insert (q @ dq_suffix) (br_delay_queues s)\<rparr>)"
  by (auto simp: queues_wf_def)

lemma rq_update_order: "s\<lparr>rq_channel := f, rq_client := r\<rparr> = s\<lparr>rq_client := r, rq_channel := f\<rparr>"
  by simp

text \<open>Making and forgetting a connection and a channel.\<close>

lemma objects_wf_connect:
  assumes "objects_wf K L s" "rq_connection s me = None" "c \<notin> K (rq_client s)" "K r = insert c (K (rq_client s))" "L r = L (rq_client s)"
  shows "objects_wf K L (s\<lparr>rq_client := r, rq_connection := (rq_connection s)(me := Some c),
    rq_connections := List.insert c (rq_connections s)\<rparr>)"
proof -
  have "c \<notin> set (rq_connections s)" "\<And>t. rq_connection s t \<noteq> Some c"
    using assms(1,3) unfolding objects_wf_def by blast+
  with assms show ?thesis
    unfolding objects_wf_def by (simp split: if_splits) blast
qed

lemma objects_wf_open:
  assumes "objects_wf K L s" "rq_channel s me = None" "rq_connection s me \<noteq> None"
    and "ch \<notin> L (rq_client s)" "L r = insert ch (L (rq_client s))" "K r = K (rq_client s)" "rq_confirm_delivery s \<or> b"
  shows "objects_wf K L (s\<lparr>rq_client := r, rq_channel := (rq_channel s)(me := Some ch),
    rq_channels := (if b then List.insert ch (rq_channels s) else rq_channels s)\<rparr>)"
proof -
  have "ch \<notin> set (rq_channels s)" "\<And>t. rq_channel s t \<noteq> Some ch"
    using assms(1,4) unfolding objects_wf_def by blast+
  with assms show ?thesis
    unfolding objects_wf_def by (cases b) (simp_all split: if_splits, blast+)
qed

lemma objects_wf_no_channel:
  assumes "objects_wf K L s" "rq_channel s me = Some ch"
  shows "objects_wf K L (s\<lparr>rq_channel := (rq_channel s)(me := None)\<rparr>)"
    and "objects_wf K L (s\<lparr>rq_channel := (rq_channel s)(me := None), rq_channels := removeAll ch (rq_channels s)\<rparr>)"
  using assms unfolding objects_wf_def by (auto simp: distinct_removeAll)

lemma objects_wf_no_connection:
  assumes "objects_wf K L s" "rq_connection s me = Some c" "rq_channel s me = None"
  shows "objects_wf K L (s\<lparr>rq_connection := (rq_connection s)(me := None)\<rparr>)"
    and "objects_wf K L (s\<lparr>rq_connection := (rq_connection s)(me := None), rq_connections := removeAll c (rq_connections s)\<rparr>)"
  using assms unfolding objects_wf_def by (auto simp: distinct_removeAll)

context amqp_client
begin

lemma plain_call:
  assumes "snd \<circ> f \<in> plain_calls A"
  shows "keeps (rabbitmq_wf conns chans Q) (rabbit f)"
  using plain_keeps(1,2) [OF assms] by (intro keeps_rabbit) (simp add: rabbitmq_wf_def objects_wf_call)

lemmas calls = plain_calls.intros [THEN plain_call]

lemma connection_wf:
  assumes s: "rabbitmq_wf conns chans Q s"
  shows "rabbitmq_wf conns chans Q (snd (connection A me s))"
proof -
  obtain x r' where c: "aq_connect A (rq_client s) = (x, r')" by force
  show ?thesis
  proof (cases "rq_connection s me")
    case None
    then show ?thesis
      using s connect [OF c]
      by (cases x) (simp_all add: connection_def proc_simps rabbit_def c rabbitmq_wf_def objects_wf_call objects_wf_connect)
  next
    case (Some c)
    then show ?thesis using s by (simp add: connection_def proc_simps)
  qed
qed

lemma connection_keeps: "keeps (rabbitmq_wf conns chans Q) (connection A me)"
  by (rule keepsI) (rule connection_wf)

lemma connection_made:
  assumes "connection A me s = (x, s')"
  shows "x = Inr c \<Longrightarrow> rq_connection s' me = Some c" "rq_channel s' = rq_channel s" "rq_confirm_delivery s' = rq_confirm_delivery s"
  using assms by (auto simp: connection_def proc_simps rabbit_def split: option.splits sum.splits prod.splits)

lemma channel_wf:
  assumes s: "rabbitmq_wf conns chans Q s"
  shows "rabbitmq_wf conns chans Q (snd (Rabbitmq_Broker.channel A me s))"
proof -
  show ?thesis
  proof (cases "rq_channel s me")
    case (Some ch)
    then show ?thesis using s by (simp add: channel_def proc_simps)
  next
    case None
    obtain x s1 where c: "connection A me s = (x, s1)" by force
    from connection_wf [OF s, of me] c have s1: "rabbitmq_wf conns chans Q s1" by (metis snd_conv)
    show ?thesis
    proof (cases x)
      case (Inl e)
      then show ?thesis using s1 None by (simp add: channel_def proc_simps c)
    next
      case (Inr con)
      have k: "rq_channel s1 me = None" "rq_connection s1 me = Some con"
        using connection_made [OF c] None Inr by simp_all
      obtain y r2 where h: "aq_channel A con (rq_client s1) = (y, r2)" by force
      show ?thesis
      proof (cases y)
        case (Inl e)
        then show ?thesis
          using s1 None channel [OF h]
          by (simp add: channel_def proc_simps c Inr rabbit_def h rabbitmq_wf_def objects_wf_call)
      next
        case ch: (Inr ch)
        obtain z r3 where f: "aq_confirm_delivery A ch r2 = (z, r3)" by force
        have r3: "conns r3 = conns r2" "chans r3 = chans r2"
          using plain_keeps(1,2) [OF plain_calls.intros(1), of ch r2] f by simp_all
        have step: "objects_wf conns chans (s1\<lparr>rq_client := r, rq_channel := (rq_channel s1)(me := Some ch),
            rq_channels := (if b then List.insert ch (rq_channels s1) else rq_channels s1)\<rparr>)"
          if "rq_confirm_delivery s1 \<or> b" "conns r = conns r2" "chans r = chans r2" for r b
          using s1 k channel [OF h] that ch by (intro objects_wf_open) (simp_all add: rabbitmq_wf_def)
        show ?thesis
          using s1 None step [of True r3] step [of True r2] step [of False r3] r3
          by (cases z) (simp_all add: channel_def proc_simps c Inr rabbit_def h ch f rabbitmq_wf_def rq_update_order)
      qed
    qed
  qed
qed

lemma channel_keeps: "keeps (rabbitmq_wf conns chans Q) (Rabbitmq_Broker.channel A me)"
  by (rule keepsI) (rule channel_wf)

lemma close_keeps: "keeps (rabbitmq_wf conns chans Q) (try_except (rabbit (aq_close_channel A ch)) log_exception)"
  "keeps (rabbitmq_wf conns chans Q) (try_except (rabbit (aq_close_connection A c)) log_exception)"
  by (intro keeps_try_except calls keeps_log_exception)+

lemma del_channel_wf:
  assumes s: "rabbitmq_wf conns chans Q s"
  shows "rabbitmq_wf conns chans Q (snd (del_channel A me s))"
proof -
  show ?thesis
  proof (cases "rq_channel s me")
    case (Some ch)
    then have "rabbitmq_wf conns chans Q (s\<lparr>rq_channel := (rq_channel s)(me := None)\<rparr>)"
      "rabbitmq_wf conns chans Q (s\<lparr>rq_channel := (rq_channel s)(me := None), rq_channels := removeAll ch (rq_channels s)\<rparr>)"
      using s by (simp_all add: rabbitmq_wf_def objects_wf_no_channel)
    then show ?thesis
      using Some by (simp add: del_channel_def andthen_get_state andthen_modify raise_def return_def keepsD [OF close_keeps(1)])
  next
    case None
    then show ?thesis using s by (simp add: del_channel_def proc_simps)
  qed
qed

lemma del_channel_keeps: "keeps (rabbitmq_wf conns chans Q) (del_channel A me)"
  by (rule keepsI) (rule del_channel_wf)

lemma del_channel_none: "del_channel A me s = (x, s') \<Longrightarrow> rq_channel s' me = None"
  by (auto simp: del_channel_def proc_simps rabbit_def log_exception_def split: option.splits sum.splits prod.splits if_splits)

lemma del_connection_wf:
  assumes s: "rabbitmq_wf conns chans Q s"
  shows "rabbitmq_wf conns chans Q (snd (del_connection A me s))"
proof -
  obtain x s1 where d: "del_channel A me s = (x, s1)" by force
  from del_channel_wf [OF s, of me] d have s1: "rabbitmq_wf conns chans Q s1" by (metis snd_conv)
  show ?thesis
  proof (cases "isl x \<or> rq_connection s1 me = None")
    case True
    then show ?thesis
      using s1 by (cases x) (auto simp: del_connection_def d andthen_def get_state_def return_def split: option.split)
  next
    case False
    then obtain c where c: "rq_connection s1 me = Some c" and x: "x = Inr ()" by (cases x) auto
    then have "rabbitmq_wf conns chans Q (s1\<lparr>rq_connection := (rq_connection s1)(me := None)\<rparr>)"
      "rabbitmq_wf conns chans Q (s1\<lparr>rq_connection := (rq_connection s1)(me := None), rq_connections := removeAll c (rq_connections s1)\<rparr>)"
      using s1 del_channel_none [OF d] by (simp_all add: rabbitmq_wf_def objects_wf_no_connection)
    then show ?thesis
      using c d x by (simp add: del_connection_def andthen_Inr andthen_get_state andthen_modify raise_def return_def keepsD [OF close_keeps(2)])
  qed
qed

lemma del_connection_keeps: "keeps (rabbitmq_wf conns chans Q) (del_connection A me)"
  by (rule keepsI) (rule del_connection_wf)

lemma weaken: "rabbitmq_wf conns chans (insert q Q) s \<Longrightarrow> rabbitmq_wf conns chans Q s"
  by (simp add: rabbitmq_wf_def)

lemma declare_on_server_keeps: "keeps (rabbitmq_wf conns chans Q) (declare_on_server A me q arguments)"
  unfolding declare_on_server_def by (intro keeps_andthen channel_keeps calls)

lemma declare_keeps:
  "keeps (rabbitmq_wf conns chans Q) (declare_q A me q)" "keeps (rabbitmq_wf conns chans Q) (declare_dq A me q)"
  "keeps (rabbitmq_wf conns chans Q) (declare_xq A me q)"
  by (rule keepsI; simp add: declare_q_def declare_dq_def declare_xq_def keepsD [OF declare_on_server_keeps])+

lemma create_queue_keeps: "keeps (rabbitmq_wf conns chans Q) (create_queue A me q)"
  unfolding create_queue_def
  by (intro keeps_andthen keeps_if keeps_get_state keeps_return declare_keeps keeps_modify)
    (simp add: rabbitmq_wf_def queues_wf_pending)

lemma ensure_queue_keeps: "keeps (rabbitmq_wf conns chans Q) (ensure_queue A me q)"
  unfolding ensure_queue_def by (intro ensure_queue_loop_keeps create_queue_keeps del_connection_keeps)

end

text \<open>
  Hooks may do what they like with the state as long as they keep the tables well formed and undeclare
  no queue.
\<close>

definition orderly_hooks :: "('r \<Rightarrow> nat set) \<Rightarrow> ('r \<Rightarrow> nat set) \<Rightarrow> ('m, ('m, 'r, 'a) rabbitmq_broker_scheme) mw_ops \<Rightarrow> bool" where
  "orderly_hooks conns chans M = (\<forall>Q m h. keeps (rabbitmq_wf conns chans Q) (mw_run M m h))"

context amqp_client
begin

lemma emit_wf:
  assumes "orderly_hooks conns chans M"
  shows "keeps (rabbitmq_wf conns chans Q) (emit_before M h)" "keeps (rabbitmq_wf conns chans Q) (emit_after M h)"
  using assms by (auto intro!: emit_keeps simp: orderly_hooks_def)

lemma declare_queue_wf:
  assumes M: "orderly_hooks conns chans M" and s: "rabbitmq_wf conns chans Q s"
    and run: "rabbitmq_declare_queue A me M name ensure s = (x, s')"
  shows "rabbitmq_wf conns chans (insert (q_name name) Q) s'
    \<or> rabbitmq_wf conns chans Q s' \<and> (\<exists>e. x = Inl e \<and> (isinstance e MiddlewareError \<or> \<not> isinstance e Exception))"
proof (cases "map_of (br_queues s) (q_name name)")
  case (Some u)
  then have "rabbitmq_wf conns chans (insert (q_name name) Q) s"
    using s by (auto simp: rabbitmq_wf_def queue_names_def dest: map_of_SomeD intro: rev_image_eqI)
  from keepsD [OF ensure_queue_keeps this, of me "q_name name"] run this Some show ?thesis
    by (cases ensure; simp add: rabbitmq_declare_queue_def Let_def andthen_get_state)
      (auto simp: return_def)
next
  case None
  obtain y s1 where b: "emit_before M (Before_declare_queue (q_name name)) s = (y, s1)" by force
  have s1: "rabbitmq_wf conns chans Q s1" using keepsD [OF emit_wf(1) [OF M] s] b by (metis snd_conv)
  show ?thesis
  proof (cases y)
    case (Inl e)
    with b None run have "x = Inl e" "s' = s1"
      by (simp_all add: rabbitmq_declare_queue_def Let_def andthen_get_state andthen_assoc andthen_Inl)
    moreover have "isinstance e MiddlewareError \<or> \<not> isinstance e Exception"
      using emit_sound(1) [of UNIV "\<lambda>_. True" "\<lambda>_. True" M "Before_declare_queue (q_name name)"] b Inl
      by (simp add: sound_def) (metis fst_conv)
    ultimately show ?thesis using s1 by blast
  next
    case (Inr u)
    let ?n = "q_name name" and ?Q = "insert (q_name name) Q"
    let ?s2 = "s1\<lparr>br_queues := AList.update ?n () (br_queues s1), rq_pending := List.insert ?n (rq_pending s1)\<rparr>"
    have s2: "rabbitmq_wf conns chans ?Q ?s2"
      using s1 by (auto simp: rabbitmq_wf_def queues_wf_declared)
    have "keeps (rabbitmq_wf conns chans ?Q)
       (andthen (emit_after M (After_declare_queue ?n)) (\<lambda>_.
        andthen (andthen (modify (\<lambda>s. s\<lparr>br_delay_queues := List.insert (dq_name name) (br_delay_queues s)\<rparr>)) (\<lambda>_.
          emit_after M (After_declare_delay_queue (dq_name name)))) (\<lambda>_.
          if ensure then ensure_queue A me ?n else return ())))"
      by (intro keeps_andthen keeps_if keeps_return ensure_queue_keeps emit_wf [OF M] keeps_modify)
        (simp add: rabbitmq_wf_def dq_name_eq queues_wf_delay)
    from keepsD [OF this s2] run None b Inr show ?thesis
      by (simp add: rabbitmq_declare_queue_def Let_def andthen_get_state andthen_Inr andthen_assoc andthen_modify)
  qed
qed

lemma declare_queue_keeps:
  assumes "orderly_hooks conns chans M"
  shows "keeps (rabbitmq_wf conns chans Q) (rabbitmq_declare_queue A me M name ensure)"
proof (rule keepsI)
  show "rabbitmq_wf conns chans Q (snd (rabbitmq_declare_queue A me M name ensure s))" if "rabbitmq_wf conns chans Q s" for s
    using declare_queue_wf [OF assms that, of me name ensure] weaken [of "q_name name" Q]
    by (metis prod.collapse)
qed

lemma pending_keeps:
  "q \<in> Q \<Longrightarrow> keeps (rabbitmq_wf conns chans Q) (modify (\<lambda>s. s\<lparr>rq_pending := List.insert q (rq_pending s)\<rparr>))"
  by (intro keeps_modify) (auto simp: rabbitmq_wf_def queues_wf_pending)

lemma forget_connection_keeps:
  "q_name name \<in> Q \<Longrightarrow> keeps (rabbitmq_wf conns chans Q) (forget_connection A me name e)"
  unfolding forget_connection_def
  by (intro keeps_andthen keeps_if keeps_return del_connection_keeps pending_keeps)

lemma publish_keeps:
  "conns (snd (aq_basic_publish A ch q body p c r)) = conns r" "chans (snd (aq_basic_publish A ch q body p c r)) = chans r"
  using publish [of ch q body p c r] by (metis prod.collapse)+

lemma publish_wf:
  assumes M: "orderly_hooks conns chans M" and s: "rabbitmq_wf conns chans Q s"
    and run: "publish A me e M target message delay s = (x, s')"
  shows "rabbitmq_wf conns chans (insert (q_name target) Q) s' \<or> rabbitmq_wf conns chans Q s' \<and> (\<exists>err. x = Inl err \<and> \<not> is_amqp A err)"
proof -
  obtain y s1 where d: "rabbitmq_declare_queue A me M target True s = (y, s1)" by force
  let ?Q = "insert (q_name target) Q"
  have "keeps (rabbitmq_wf conns chans ?Q)
     (andthen (emit_before M (Before_enqueue message delay)) (\<lambda>_.
      andthen (Rabbitmq_Broker.channel A me) (\<lambda>ch.
      andthen (case encode e message of Inl err \<Rightarrow> raise err | Inr body \<Rightarrow> return body) (\<lambda>body.
      andthen (get_state rq_confirm_delivery) (\<lambda>confirm.
      andthen (rabbit (aq_basic_publish A ch (queue_name message) body (dget (options message) ''broker_priority'') confirm)) (\<lambda>_.
        emit_after M (After_enqueue message delay)))))))"
  proof (intro keeps_andthen emit_wf [OF M] channel_keeps keeps_get_state)
    show "keeps (rabbitmq_wf conns chans ?Q) (case encode e message of Inl err \<Rightarrow> raise err | Inr body \<Rightarrow> return body)"
      by (cases "encode e message") simp_all
    show "keeps (rabbitmq_wf conns chans ?Q) (rabbit (aq_basic_publish A ch q body p c))" for ch q body p c
      by (rule keeps_rabbit) (simp add: rabbitmq_wf_def objects_wf_call publish_keeps)
  qed
  note rest = keepsD [OF this]
  show ?thesis
    using declare_queue_wf [OF M s d] rest [of s1] run d
    by (cases y) (auto simp: publish_def andthen_def is_amqp_def dest: amqp_exceptions)
qed

lemma q_name_message: "q_name (queue_name (rabbitmq_message now m delay)) = q_name (queue_name m)"
  by (simp add: rabbitmq_message_def dq_name_eq split: option.split)

lemma enqueue_wf:
  assumes M: "orderly_hooks conns chans M" and s: "rabbitmq_wf conns chans Q s"
  shows "rabbitmq_wf conns chans Q (snd (rabbitmq_enqueue A me e M m delay s))"
  unfolding rabbitmq_enqueue_def
proof -
  let ?m = "rabbitmq_message (br_clock s) m delay"
  have p: "rabbitmq_wf conns chans Q t1"
    if "rabbitmq_wf conns chans Q t" "publish A me e M (queue_name m) ?m delay t = (x, t1)" for t x t1
    using publish_wf [OF M that] by (auto dest: weaken)
  have f: "rabbitmq_wf conns chans Q t2"
    if "rabbitmq_wf conns chans Q t" "publish A me e M (queue_name m) ?m delay t = (Inl err, t1)" "is_amqp A err"
      "forget_connection A me (queue_name ?m) err t1 = (y, t2)" for t err t1 y t2
    using publish_wf [OF M that(1,2)] that(3,4)
      keepsD [OF forget_connection_keeps, of "queue_name ?m" "insert (q_name (queue_name m)) Q" t1 me err]
    by (auto simp: q_name_message dest: weaken)
  show "rabbitmq_wf conns chans Q (snd (enqueue_loop A me e M (queue_name m) ?m delay 0 s))"
    by (rule enqueue_loop_rule [where P = "\<lambda>_. rabbitmq_wf conns chans Q" and Q = "\<lambda>_. rabbitmq_wf conns chans Q", OF s])
      (auto dest: p f)
qed

lemma counts_keeps: "keeps (rabbitmq_wf conns chans Q) (get_queue_message_counts A me q)"
  unfolding get_queue_message_counts_def by (intro keeps_andthen declare_keeps keeps_return)

lemma flush_keeps: "keeps (rabbitmq_wf conns chans Q) (rabbitmq_flush A me q)"
  unfolding rabbitmq_flush_def
  by (intro keeps_for_each keeps_try_except keeps_andthen keeps_if keeps_raise channel_keeps del_channel_keeps calls)

lemma flush_all_keeps: "keeps (rabbitmq_wf conns chans Q) (rabbitmq_flush_all A me)"
  unfolding rabbitmq_flush_all_def by (intro keeps_andthen keeps_for_each keeps_get_state flush_keeps)

lemma close_object_keeps:
  "keeps (rabbitmq_wf conns chans Q) (close_object A (aq_close_channel A ch))"
  "keeps (rabbitmq_wf conns chans Q) (close_object A (aq_close_connection A c))"
  unfolding close_object_def by (intro keeps_try_except keeps_if keeps_return keeps_log_exception calls)+

lemma close_all_keeps: "keeps (rabbitmq_wf conns chans Q) (rabbitmq_close A)"
proof (rule keepsI)
  show "rabbitmq_wf conns chans Q (snd (rabbitmq_close A s))" if "rabbitmq_wf conns chans Q s" for s
    unfolding rabbitmq_close_def andthen_get_state
    by (rule keepsD [where I = "rabbitmq_wf conns chans Q", OF _ that], rule keeps_for_each)
      (use close_object_keeps in auto)
qed

text \<open>A consumer has objects of its own, outside the tables.\<close>

lemma more_objects:
  "conns r \<subseteq> conns (snd (aq_connect A r))" "chans r \<subseteq> chans (snd (aq_connect A r))"
  "conns r \<subseteq> conns (snd (aq_channel A c r))" "chans r \<subseteq> chans (snd (aq_channel A c r))"
  using connect [of r "fst (aq_connect A r)" "snd (aq_connect A r)"]
    channel [of c r "fst (aq_channel A c r)" "snd (aq_channel A c r)"]
  by (auto split: sum.splits)

lemma fresh_call_keeps: "keeps (rabbitmq_wf conns chans Q) (rabbit (aq_connect A))"
  "keeps (rabbitmq_wf conns chans Q) (rabbit (aq_channel A c))"
  by (rule keeps_rabbit; simp add: rabbitmq_wf_def objects_wf_call more_objects)+

lemma open_consumer_keeps:
  assumes "q_name name \<in> Q"
  shows "keeps (rabbitmq_wf conns chans Q) (open_consumer A name prefetch timeout)"
  unfolding open_consumer_def
  by (intro keeps_try_except keeps_andthen keeps_if keeps_raise keeps_get_state keeps_return fresh_call_keeps calls keeps_modify)
    (use assms in \<open>auto simp: rabbitmq_wf_def queues_wf_def\<close>)

lemma consume_wf:
  assumes M: "orderly_hooks conns chans M" and s: "rabbitmq_wf conns chans Q s"
  shows "rabbitmq_wf conns chans Q (snd (rabbitmq_consume A me M name prefetch timeout s))"
proof -
  obtain x s1 where d: "rabbitmq_declare_queue A me M name True s = (x, s1)" by force
  note w = declare_queue_wf [OF M s d]
  show ?thesis
  proof (cases x)
    case (Inl e)
    with w d weaken [of "q_name name" Q s1] show ?thesis by (auto simp: rabbitmq_consume_def andthen_Inl)
  next
    case (Inr u)
    with w have "rabbitmq_wf conns chans (insert (q_name name) Q) s1" by auto
    from weaken [OF keepsD [OF open_consumer_keeps this, of name prefetch timeout]] d Inr show ?thesis
      by (simp add: rabbitmq_consume_def andthen_Inr)
  qed
qed

lemma settle_try_keeps:
  assumes "\<And>C. rc_queue (f C) = rc_queue C"
  shows "keeps (rabbitmq_wf conns chans Q) (try_except
     (andthen (modify (update_rc c f)) (\<lambda>_. rabbit (aq_add_callback A con cb)))
     (\<lambda>e. if is_amqp A e then raise (closed e) else log_exception e))"
  by (intro keeps_try_except keeps_andthen keeps_if keeps_raise keeps_log_exception calls keeps_modify)
    (use assms in \<open>simp add: rabbitmq_wf_def queues_wf_update_rc\<close>)

lemma settle_keeps: "keeps (rabbitmq_wf conns chans Q) (rabbitmq_settle A call c r)"
  by (rule keepsI) (simp add: rabbitmq_settle_def Let_def keepsD [OF settle_try_keeps])

lemma reject_keeps:
  "keeps (rabbitmq_wf conns chans Q) (andthen (rabbit (aq_add_callback A con cb)) (\<lambda>_. return x))"
  by (intro keeps_andthen keeps_return calls)

text \<open>The queue of a consumer was declared when the consumer was made.\<close>

lemma more_pending:
  "rabbitmq_wf conns chans Q s \<Longrightarrow> C \<in> set (rq_consumers s)
    \<Longrightarrow> rabbitmq_wf conns chans Q (s\<lparr>rq_pending := List.insert (q_name (rc_queue C)) (rq_pending s)\<rparr>)"
  by (auto simp: rabbitmq_wf_def queues_wf_def intro: queues_wf_pending)

lemma next_wf:
  assumes "rabbitmq_wf conns chans Q s" and "c < length (rq_consumers s)"
  shows "rabbitmq_wf conns chans Q (snd (rabbitmq_next A e fresh_id c s))"
proof -
  let ?C = "rq_consumers s ! c"
  obtain x s1 where n: "rabbit (aq_next A (rc_iterator ?C)) s = (x, s1)" by force
  with keepsD [OF calls(9) assms(1), of "rc_iterator ?C"] have s1: "rabbitmq_wf conns chans Q s1" by simp
  have C: "?C \<in> set (rq_consumers s1)" using n assms(2) by (auto dest: rabbit_Inr)
  show ?thesis
  proof (cases x)
    case (Inl err)
    then show ?thesis using n s1 more_pending [OF s1 C] by (simp add: rabbitmq_next_def Let_def)
  next
    case (Inr d)
    show ?thesis
    proof (cases d)
      case None
      then show ?thesis using n s1 Inr by (simp add: rabbitmq_next_def Let_def)
    next
      case (Some d)
      then show ?thesis
        using n s1 Inr keepsD [OF reject_keeps s1]
        by (cases "decode e fresh_id (br_clock s1) (dl_body d)")
          (simp_all add: rabbitmq_next_def Let_def rabbitmq_wf_def queues_wf_update_rc)
    qed
  qed
qed

lemma wait_wf:
  "rabbitmq_wf conns chans Q s \<Longrightarrow> wait_for_callbacks fuel A con ev s = Some (x, s') \<Longrightarrow> rabbitmq_wf conns chans Q s'"
proof (induction fuel arbitrary: s)
  case (Suc fuel)
  from keepsD [OF calls(6) Suc.prems(1), of con 0] Suc show ?case
    by (auto split: if_splits prod.splits sum.splits dest!: rabbit_Inr)
qed simp

lemma close_objects_keeps: "keeps (rabbitmq_wf conns chans Q) (close_objects A C)"
  unfolding close_objects_def by (intro keeps_try_except keeps_andthen keeps_if keeps_raise calls)

lemma close_consumer_wf:
  assumes "rabbitmq_wf conns chans Q s" and "close_consumer fuel A c s = Some (x, s')"
  shows "rabbitmq_wf conns chans Q s'"
proof -
  let ?C = "rq_consumers s ! c" and ?s = "s\<lparr>rq_next := Suc (rq_next s)\<rparr>"
  have s: "rabbitmq_wf conns chans Q ?s" using assms(1) by (simp add: rabbitmq_wf_def)
  obtain y s1 where a: "rabbit (aq_add_callback A (rc_connection ?C) (Set_event (rq_next s))) ?s = (y, s1)" by force
  have s1: "rabbitmq_wf conns chans Q s1"
    using keepsD [OF calls(10) s, of "rc_connection ?C" "Set_event (rq_next s)"] a by simp
  have both: "rabbitmq_wf conns chans Q (snd (close_objects A ?C t))" if "rabbitmq_wf conns chans Q t" for t
    by (rule keepsD [OF close_objects_keeps that])
  show ?thesis
  proof (cases y)
    case (Inl err)
    then show ?thesis
      using assms(2) a s1 both [OF s1] by (auto simp: close_consumer_def Let_def split: if_splits)
  next
    case (Inr u)
    show ?thesis
    proof (cases "wait_for_callbacks fuel A (rc_connection ?C) (rq_next s) s1")
      case None
      then show ?thesis using assms(2) a Inr by (simp add: close_consumer_def Let_def)
    next
      case (Some p)
      obtain z s2 where p: "p = (z, s2)" by force
      have s2: "rabbitmq_wf conns chans Q s2" by (rule wait_wf [OF s1 Some [unfolded p]])
      show ?thesis
        using assms(2) a Inr Some p s2 both [OF s2] by (cases z) (auto simp: close_consumer_def Let_def split: if_splits)
    qed
  qed
qed

lemma join_wf:
  assumes "\<And>t s. rabbitmq_wf conns chans Q s \<Longrightarrow> rabbitmq_wf conns chans Q (meanwhile t s)"
  shows "rabbitmq_wf conns chans Q s
    \<Longrightarrow> rabbitmq_join_loop fuel A me meanwhile name n idle deadline k s = Some (x, s') \<Longrightarrow> rabbitmq_wf conns chans Q s'"
proof (induction fuel arbitrary: k s)
  case (Suc fuel)
  obtain y s1 where c: "get_queue_message_counts A me name s = (y, s1)" by force
  obtain z s2 where d: "andthen (connection A me) (\<lambda>c. rabbit (aq_sleep A c idle)) s1 = (z, s2)" by force
  have s1: "rabbitmq_wf conns chans Q s1" using keepsD [OF counts_keeps Suc.prems(1), of me name] c by simp
  have "keeps (rabbitmq_wf conns chans Q) (andthen (connection A me) (\<lambda>c. rabbit (aq_sleep A c idle)) )"
    by (intro keeps_andthen connection_keeps calls)
  from keepsD [OF this s1] d have s2: "rabbitmq_wf conns chans Q s2" by simp
  show ?case
    using Suc.prems c d s1 s2 Suc.IH [OF assms [OF s2], of _ idle]
    by (auto simp: Let_def split: if_splits sum.splits)
qed simp

section \<open>What is published\<close>

end

definition sent_is :: "('r \<Rightarrow> 'p) \<Rightarrow> 'p \<Rightarrow> ('m, 'r, 'a) rabbitmq_broker_scheme \<Rightarrow> bool" where
  "sent_is published p s = (published (rq_client s) = p)"

text \<open>Hooks that publish nothing.\<close>

definition unpublishing_hooks :: "('r \<Rightarrow> 'p) \<Rightarrow> ('m, ('m, 'r, 'a) rabbitmq_broker_scheme) mw_ops \<Rightarrow> bool" where
  "unpublishing_hooks published M = (\<forall>p m h. keeps (sent_is published p) (mw_run M m h))"

lemma keeps_sent_modify: "(\<And>s. rq_client (f s) = rq_client s) \<Longrightarrow> keeps (sent_is published p) (modify f)"
  by (intro keeps_modify) (simp add: sent_is_def)

context amqp_client
begin

lemma plain_sent:
  assumes "snd \<circ> f \<in> plain_calls A"
  shows "keeps (sent_is published p) (rabbit f)"
  using plain_keeps(3) [OF assms] by (intro keeps_rabbit) (simp add: sent_is_def)

lemma object_sent:
  "keeps (sent_is published p) (rabbit (aq_connect A))" "keeps (sent_is published p) (rabbit (aq_channel A c))"
  using connect channel by (auto intro!: keeps_rabbit simp: sent_is_def) (metis prod.collapse)+

lemmas sent_calls = plain_calls.intros [THEN plain_sent] object_sent

lemmas sent_rules = keeps_andthen keeps_option keeps_if keeps_get_state keeps_return keeps_raise keeps_try_except
  keeps_log_exception keeps_sent_modify sent_calls

lemma channel_sent: "keeps (sent_is published p) (Rabbitmq_Broker.channel A me)"
  unfolding channel_def connection_def by (intro sent_rules) simp_all

lemma del_channel_sent: "keeps (sent_is published p) (del_channel A me)"
  unfolding del_channel_def by (intro sent_rules) simp_all

lemma del_connection_sent: "keeps (sent_is published p) (del_connection A me)"
  unfolding del_connection_def by (intro sent_rules del_channel_sent) simp_all

lemma declare_on_server_sent: "keeps (sent_is published p) (declare_on_server A me q arguments)"
  unfolding declare_on_server_def by (intro sent_rules channel_sent)

lemma declare_sent:
  "keeps (sent_is published p) (declare_q A me q)" "keeps (sent_is published p) (declare_dq A me q)"
  "keeps (sent_is published p) (declare_xq A me q)"
  by (rule keepsI; simp add: declare_q_def declare_dq_def declare_xq_def keepsD [OF declare_on_server_sent])+

lemma ensure_queue_sent: "keeps (sent_is published p) (ensure_queue A me q)"
  unfolding ensure_queue_def
  by (intro ensure_queue_loop_keeps del_connection_sent, unfold create_queue_def, intro sent_rules declare_sent) simp_all

lemma emit_sent:
  assumes "unpublishing_hooks published M"
  shows "keeps (sent_is published p) (emit_before M h)" "keeps (sent_is published p) (emit_after M h)"
  using assms by (auto intro!: emit_keeps simp: unpublishing_hooks_def)

lemma declare_queue_sent:
  "unpublishing_hooks published M \<Longrightarrow> keeps (sent_is published p) (rabbitmq_declare_queue A me M name ensure)"
  unfolding rabbitmq_declare_queue_def Let_def
  by (intro sent_rules ensure_queue_sent emit_sent) simp_all

lemma forget_connection_sent: "keeps (sent_is published p) (forget_connection A me name e)"
  unfolding forget_connection_def by (intro sent_rules del_connection_sent) simp_all

lemma publish_sent:
  assumes M: "unpublishing_hooks published M" and body: "encode e message = Inr body"
    and s: "published (rq_client s) = p" and run: "publish A me e M target message delay s = (x, s')"
  shows "published (rq_client s') = p @ [(queue_name message, body)] \<or> isl x \<and> published (rq_client s') = p"
proof -
  let ?x = "(queue_name message, body)"
  define pre where "pre = andthen (rabbitmq_declare_queue A me M target True) (\<lambda>_.
      andthen (emit_before M (Before_enqueue message delay)) (\<lambda>_. Rabbitmq_Broker.channel A me))"
  have run: "andthen pre (\<lambda>ch. andthen (get_state rq_confirm_delivery) (\<lambda>confirm.
     andthen (rabbit (aq_basic_publish A ch (queue_name message) body (dget (options message) ''broker_priority'') confirm)) (\<lambda>_.
       emit_after M (After_enqueue message delay)))) s = (x, s')"
    using run by (simp add: publish_def pre_def andthen_assoc body)
  obtain y s1 where b: "pre s = (y, s1)" by force
  have "keeps (sent_is published p) pre"
    unfolding pre_def by (intro sent_rules declare_queue_sent [OF M] emit_sent [OF M] channel_sent)
  from keepsD [OF this, of s] s b have s1: "published (rq_client s1) = p" by (simp add: sent_is_def)
  show ?thesis
  proof (cases y)
    case (Inl err)
    with run b s1 show ?thesis by (auto simp: andthen_Inl)
  next
    case (Inr ch)
    obtain z r2 where pub: "aq_basic_publish A ch (queue_name message) body (dget (options message) ''broker_priority'')
        (rq_confirm_delivery s1) (rq_client s1) = (z, r2)" by force
    note law = publish [OF pub]
    have after: "published (rq_client (snd (emit_after M (After_enqueue message delay) t))) = p @ [?x]"
      if "published (rq_client t) = p @ [?x]" for t
      using keepsD [OF emit_sent(2) [OF M, of "p @ [?x]"], of t] that by (simp add: sent_is_def)
    show ?thesis
      using run b Inr law s1 after [of "s1\<lparr>rq_client := r2\<rparr>"]
      by (cases z) (auto simp: andthen_Inr andthen_get_state andthen_def get_state_def rabbit_def pub)
  qed
qed

lemma enqueue_sent:
  assumes M: "unpublishing_hooks published M"
    and body: "encode e (rabbitmq_message (br_clock s) m delay) = Inr body"
    and run: "rabbitmq_enqueue A me e M m delay s = (x, s')"
  shows "\<exists>k. k \<le> MAX_ENQUEUE_ATTEMPTS
    \<and> published (rq_client s') = published (rq_client s) @ replicate k (queue_name (rabbitmq_message (br_clock s) m delay), body)
    \<and> (\<forall>m'. x = Inr m' \<longrightarrow> m' = rabbitmq_message (br_clock s) m delay \<and> 1 \<le> k)"
proof -
  let ?m = "rabbitmq_message (br_clock s) m delay" and ?p = "published (rq_client s)"
  let ?x = "(queue_name ?m, body)"
  let ?P = "\<lambda>n t. n < MAX_ENQUEUE_ATTEMPTS \<and> (\<exists>k \<le> n. published (rq_client t) = ?p @ replicate k ?x)"
  let ?Q = "\<lambda>x t. \<exists>k \<le> MAX_ENQUEUE_ATTEMPTS. published (rq_client t) = ?p @ replicate k ?x \<and> (\<forall>m'. x = Inr m' \<longrightarrow> m' = ?m \<and> 1 \<le> k)"
  have step: "\<exists>k \<le> Suc n. published (rq_client t1) = ?p @ replicate k ?x \<and> (isl y \<or> 1 \<le> k)"
    if "?P n t" "publish A me e M (queue_name m) ?m delay t = (y, t1)" for n t y t1
  proof -
    from that(1) obtain k where k: "k \<le> n" "published (rq_client t) = ?p @ replicate k ?x" by blast
    from publish_sent [OF M body k(2) that(2)] k(1) show ?thesis
      by (auto intro: exI [of _ k] exI [of _ "Suc k"] simp: replicate_append_same [symmetric])
  qed
  have ok: "?Q z t1" if "?P n t" "publish A me e M (queue_name m) ?m delay t = (y, t1)"
      "\<forall>m'. z = Inr m' \<longrightarrow> m' = ?m \<and> \<not> isl y" for n t y t1 z
    using step [OF that(1,2)] that(1,3) by (meson Suc_leI order_trans)
  have forget: "published (rq_client t2) = published (rq_client t1)"
    if "forget_connection A me (queue_name ?m) err t1 = (y, t2)" for err t1 y t2
    using keepsD [OF forget_connection_sent, of "published (rq_client t1)" t1 me "queue_name ?m" err] that
    by (simp add: sent_is_def)
  have "?Q (fst (enqueue_loop A me e M (queue_name m) ?m delay 0 s)) (snd (enqueue_loop A me e M (queue_name m) ?m delay 0 s))"
  proof (rule enqueue_loop_rule [where P = ?P and Q = ?Q])
    show "?P 0 s" by (simp add: MAX_ENQUEUE_ATTEMPTS_def)
  next
    fix n t t1 u
    assume "?P n t" "publish A me e M (queue_name m) ?m delay t = (Inr u, t1)"
    then show "?Q (Inr ?m) t1" by (rule ok) simp
  next
    fix n t t1 err
    assume "?P n t" "publish A me e M (queue_name m) ?m delay t = (Inl err, t1)"
    then show "?Q (Inl err) t1" by (rule ok) simp
  next
    fix n t t1 err err' t2
    assume p: "?P n t" "publish A me e M (queue_name m) ?m delay t = (Inl err, t1)"
      and f: "forget_connection A me (queue_name ?m) err t1 = (Inl err', t2)"
    from ok [OF p, of "Inl err'"] show "?Q (Inl err') t2" by (simp add: forget [OF f])
  next
    fix n t t1 err u t2
    assume p: "?P n t" "publish A me e M (queue_name m) ?m delay t = (Inl err, t1)"
      and f: "forget_connection A me (queue_name ?m) err t1 = (Inr u, t2)"
    from ok [OF p, of "Inl (closed err)"] step [OF p]
    show "(Suc n < MAX_ENQUEUE_ATTEMPTS \<longrightarrow> ?P (Suc n) t2) \<and> (MAX_ENQUEUE_ATTEMPTS \<le> Suc n \<longrightarrow> ?Q (Inl (closed err)) t2)"
      by (auto simp: forget [OF f])
  qed
  then show ?thesis using run by (auto simp: rabbitmq_enqueue_def)
qed

end

end
