(* ===== verification/Rabbitmq_Consumption.thy ===== *)
theory Rabbitmq_Consumption
  imports Rabbitmq_Delivery
begin

text \<open>
  A client and server in memory as an instance of the client library, deliveries and their
  settlement, and the properties of the RabbitMQ broker and its consumers.
\<close>

section \<open>A client in memory\<close>

text \<open>
  The server keeps queues of bodies; \<open>rm_outage\<close> is the number of calls for which the connection is
  down. Callbacks run when the connection sleeps.
\<close>

record rabbit_memory =
  rm_queues :: "string list dict"
  rm_outage :: nat
  rm_connections :: nat
  rm_channels :: nat
  rm_closed_connections :: "nat list"
  rm_closed_channels :: "nat list"
  rm_iterators :: "(nat \<times> string) list"
  rm_tag :: nat
  rm_published :: "(string \<times> string) list"
  rm_callbacks :: "callback list"
  rm_events :: "nat list"

definition pika_exn :: "string \<Rightarrow> exn" where
  "pika_exn n = mk_exn (UserException n) n"

definition pika_isinstance :: "exn \<Rightarrow> pika_class \<Rightarrow> bool" where
  "pika_isinstance e c =
     (case exn_cls e of
        UserException n \<Rightarrow>
          (let connection = [''AMQPConnectionError'', ''ConnectionWrongStateError''];
               channel = [''AMQPChannelError'', ''UnroutableError'', ''ChannelClosedByBroker'', ''ChannelWrongStateError'']
           in case c of
                AMQPError \<Rightarrow> n \<in> set (connection @ channel)
              | AMQPConnectionError \<Rightarrow> n \<in> set connection
              | AMQPChannelError \<Rightarrow> n \<in> set channel
              | UnroutableError \<Rightarrow> n = ''UnroutableError''
              | ConnectionWrongStateError \<Rightarrow> n = ''ConnectionWrongStateError'')
      | _ \<Rightarrow> False)"

definition while_up :: "(rabbit_memory, 'b) proc \<Rightarrow> (rabbit_memory, 'b) proc" where
  "while_up f r =
     (if rm_outage r = 0 then f r else (Inl (pika_exn ''AMQPConnectionError''), r\<lparr>rm_outage := rm_outage r - 1\<rparr>))"

definition ready :: "rabbit_memory \<Rightarrow> string \<Rightarrow> string list" where
  "ready r q = (case map_of (rm_queues r) q of None \<Rightarrow> [] | Some bodies \<Rightarrow> bodies)"

fun set_events :: "callback list \<Rightarrow> nat list" where
  "set_events [] = []"
| "set_events (Set_event n # cs) = n # set_events cs"
| "set_events (_ # cs) = set_events cs"

definition memory_client :: "rabbit_memory amqp" where
  "memory_client =
     \<lparr>aq_isinstance = pika_isinstance,
      aq_reply_code = (\<lambda>e. if exn_cls e = UserException ''ChannelClosedByBroker'' then Some 404 else None),
      aq_connect = while_up (\<lambda>r. (Inr (rm_connections r), r\<lparr>rm_connections := Suc (rm_connections r)\<rparr>)),
      aq_channel = (\<lambda>c. while_up (\<lambda>r. (Inr (rm_channels r), r\<lparr>rm_channels := Suc (rm_channels r)\<rparr>))),
      aq_confirm_delivery = (\<lambda>ch. while_up (\<lambda>r. (Inr (), r))),
      aq_connection_is_open = (\<lambda>c r. c \<notin> set (rm_closed_connections r)),
      aq_channel_is_open = (\<lambda>ch r. ch \<notin> set (rm_closed_channels r)),
      aq_close_connection = (\<lambda>c r. if c \<in> set (rm_closed_connections r) then (Inl (pika_exn ''ConnectionWrongStateError''), r)
         else (Inr (), r\<lparr>rm_closed_connections := c # rm_closed_connections r\<rparr>)),
      aq_close_channel = (\<lambda>ch r. if ch \<in> set (rm_closed_channels r) then (Inl (pika_exn ''ChannelWrongStateError''), r)
         else (Inr (), r\<lparr>rm_closed_channels := ch # rm_closed_channels r\<rparr>)),
      aq_queue_declare = (\<lambda>ch q arguments. while_up (\<lambda>r.
         (Inr (length (ready r q)), r\<lparr>rm_queues := AList.update q (ready r q) (rm_queues r)\<rparr>))),
      aq_basic_publish = (\<lambda>ch q body p mandatory. while_up (\<lambda>r.
         case map_of (rm_queues r) q of
           None \<Rightarrow> (if mandatory then (Inl (pika_exn ''UnroutableError''), r)
                    else (Inr (), r\<lparr>rm_published := rm_published r @ [(q, body)]\<rparr>))
         | Some bodies \<Rightarrow> (Inr (), r\<lparr>rm_queues := AList.update q (bodies @ [body]) (rm_queues r),
             rm_published := rm_published r @ [(q, body)]\<rparr>))),
      aq_queue_purge = (\<lambda>ch q. while_up (\<lambda>r.
         if map_of (rm_queues r) q = None then (Inl (pika_exn ''ChannelClosedByBroker''), r\<lparr>rm_closed_channels := ch # rm_closed_channels r\<rparr>)
         else (Inr (), r\<lparr>rm_queues := AList.update q [] (rm_queues r)\<rparr>))),
      aq_sleep = (\<lambda>c t. while_up (\<lambda>r. (Inr (), r\<lparr>rm_events := set_events (rm_callbacks r)\<rparr>))),
      aq_basic_qos = (\<lambda>ch n. while_up (\<lambda>r. (Inr (), r))),
      aq_consume = (\<lambda>ch q t. while_up (\<lambda>r. (Inr ch, r\<lparr>rm_iterators := (ch, q) # rm_iterators r\<rparr>))),
      aq_next = (\<lambda>it. while_up (\<lambda>r.
         case Option.bind (map_of (rm_iterators r) it) (map_of (rm_queues r)) of
           None \<Rightarrow> (Inl (pika_exn ''ChannelClosedByBroker''), r\<lparr>rm_closed_channels := it # rm_closed_channels r\<rparr>)
         | Some [] \<Rightarrow> (Inr None, r)
         | Some (body # bodies) \<Rightarrow>
             (Inr (Some \<lparr>dl_tag = rm_tag r, dl_redelivered = False, dl_body = body\<rparr>),
              r\<lparr>rm_tag := Suc (rm_tag r),
                rm_queues := AList.update (the (map_of (rm_iterators r) it)) bodies (rm_queues r)\<rparr>))),
      aq_add_callback = (\<lambda>c cb r.
         if c \<in> set (rm_closed_connections r) then (Inl (pika_exn ''ConnectionWrongStateError''), r)
         else (Inr (), r\<lparr>rm_callbacks := rm_callbacks r @ [cb]\<rparr>)),
      aq_event_is_set = (\<lambda>n r. n \<in> set (rm_events r))\<rparr>"

lemma pika_isinstance_user: "pika_isinstance e c \<Longrightarrow> \<exists>n. exn_cls e = UserException n"
  by (simp add: pika_isinstance_def split: exn_class.splits)

lemma user_exception: "exn_cls e = UserException n \<Longrightarrow> isinstance e Exception \<and> \<not> isinstance e MiddlewareError"
  by (simp add: isinstance_def issubclass_code)

interpretation memory_rabbit: amqp_client memory_client "\<lambda>r. {..<rm_connections r}" "\<lambda>r. {..<rm_channels r}" rm_published
proof unfold_locales
  show "{..<rm_connections (f r)} = {..<rm_connections r} \<and> {..<rm_channels (f r)} = {..<rm_channels r}
      \<and> rm_published (f r) = rm_published r" if "f \<in> plain_calls memory_client" for f r
    using that by cases (simp_all add: memory_client_def while_up_def split: option.split list.split)
next
  show "isinstance e Exception \<and> \<not> isinstance e MiddlewareError" if "aq_isinstance memory_client e c" for e c
    using that pika_isinstance_user user_exception by (auto simp: memory_client_def)
qed (auto simp: memory_client_def while_up_def split: if_splits option.splits)

section \<open>Outages\<close>

lemma unreachable:
  assumes "aq_connect A = (\<lambda>r. (Inl err, T r))" and "rq_connection s me = None" and "rq_channel s me = None"
  shows "channel A me s = (Inl err, s\<lparr>rq_client := T (rq_client s)\<rparr>)" "del_connection A me s = (Inr (), s)"
  using assms by (simp_all add: channel_def connection_def del_connection_def del_channel_def proc_simps rabbit_def)

lemma create_queue_unreachable:
  assumes "aq_connect A = (\<lambda>r. (Inl err, T r))" and "rq_connection s me = None" "rq_channel s me = None" "q \<in> set (rq_pending s)"
  shows "create_queue A me q s = (Inl err, s\<lparr>rq_client := T (rq_client s)\<rparr>)"
  using unreachable(1) [OF assms(1-3)] assms(4)
  by (simp add: create_queue_def andthen_get_state declare_q_def declare_on_server_def andthen_Inl)

lemma ensure_queue_unreachable:
  assumes A: "aq_connect A = (\<lambda>r. (Inl err, T r))" "is_amqp A err" and s: "rq_connection s me = None" "rq_channel s me = None"
    and q: "q \<in> set (rq_pending s)"
  shows "ensure_queue A me q s = (Inl (closed err), s\<lparr>rq_client := (T ^^ MAX_DECLARE_ATTEMPTS) (rq_client s)\<rparr>)"
  using s q A(2)
  by (simp add: ensure_queue_def ensure_queue_loop.simps [of A me q "Suc 0"] ensure_queue_loop.simps [of A me q 0]
      create_queue_unreachable [OF A(1)] unreachable(2) [OF A(1)] MAX_DECLARE_ATTEMPTS_def closed_def numeral_2_eq_2)

lemma publish_unreachable:
  assumes A: "aq_connect A = (\<lambda>r. (Inl err, T r))" "is_amqp A err" and s: "rq_connection s me = None" "rq_channel s me = None"
    and silent: "\<And>m h s. mw_run M m h s = (Inr (), s)" and q: "map_of (br_queues s) (q_name target) = Some ()"
  shows "publish A me e M target message delay s
    = (if q_name target \<in> set (rq_pending s) then (Inl (closed err), s\<lparr>rq_client := (T ^^ MAX_DECLARE_ATTEMPTS) (rq_client s)\<rparr>)
       else (Inl err, s\<lparr>rq_client := T (rq_client s)\<rparr>))"
proof (cases "q_name target \<in> set (rq_pending s)")
  case True
  with ensure_queue_unreachable [OF A s True] q show ?thesis
    by (simp add: publish_def rabbitmq_declare_queue_def Let_def andthen_get_state andthen_assoc andthen_Inl)
next
  case False
  have "ensure_queue A me (q_name target) s = (Inr (), s)"
    using False by (simp add: ensure_queue_def ensure_queue_loop.simps create_queue_def andthen_get_state return_def)
  moreover have "emit_before M h s = (Inr (), s)" for h by (rule emit_silent) (rule silent)
  ultimately show ?thesis
    using False q unreachable(1) [OF A(1) s]
    by (simp add: publish_def rabbitmq_declare_queue_def Let_def andthen_get_state andthen_assoc andthen_Inr andthen_Inl)
qed

lemma enqueue_loop_unreachable:
  assumes A: "aq_connect A = (\<lambda>r. (Inl err, T r))" "is_amqp A err" "\<not> aq_isinstance A err UnroutableError"
    and silent: "\<And>m h s. mw_run M m h s = (Inr (), s)"
  shows "rq_connection s me = None \<Longrightarrow> rq_channel s me = None \<Longrightarrow> map_of (br_queues s) (q_name target) = Some ()
    \<Longrightarrow> q_name target \<notin> set (rq_pending s) \<Longrightarrow> k < MAX_ENQUEUE_ATTEMPTS
    \<Longrightarrow> enqueue_loop A me e M target message delay (MAX_ENQUEUE_ATTEMPTS - Suc k) s
      = (Inl (closed err), s\<lparr>rq_client := (T ^^ Suc k) (rq_client s)\<rparr>)"
proof (induction k arbitrary: s)
  case 0
  then show ?case
    using publish_unreachable [OF A(1,2) 0(1,2) silent 0(3)] A
    by (subst enqueue_loop.simps)
      (simp add: MAX_ENQUEUE_ATTEMPTS_def forget_connection_def andthen_def unreachable(2) [OF A(1)] return_def closed_def)
next
  case (Suc k)
  let ?s = "s\<lparr>rq_client := T (rq_client s)\<rparr>"
  have "MAX_ENQUEUE_ATTEMPTS - Suc (Suc k) + 1 = MAX_ENQUEUE_ATTEMPTS - Suc k" using Suc.prems(5) by simp
  then show ?case
    using publish_unreachable [OF A(1,2) Suc.prems(1,2) silent Suc.prems(3)] A Suc.prems Suc.IH [of ?s]
    by (subst enqueue_loop.simps)
      (simp add: forget_connection_def andthen_def unreachable(2) [OF A(1)] return_def funpow_swap1)
qed

text \<open>
  An outage ends in an error that the worker knows: while the server cannot be reached, \<open>enqueue\<close>
  raises \<open>ConnectionClosed\<close> and changes nothing of the broker. It tries to connect as often as
  \<open>MAX_ENQUEUE_ATTEMPTS\<close> says, but only \<open>MAX_DECLARE_ATTEMPTS\<close> times if the queue is still to be created:
  the \<open>ConnectionClosed\<close> of \<open>_ensure_queue\<close> is not caught by the loop of \<open>enqueue\<close>.
\<close>

theorem rabbitmq_outage:
  assumes "aq_connect A = (\<lambda>r. (Inl err, T r))" "is_amqp A err" "\<not> aq_isinstance A err UnroutableError" "\<not> is_amqp A (closed err)"
    and "\<And>m h s. mw_run M m h s = (Inr (), s)"
    and "rq_connection s me = None" "rq_channel s me = None" "map_of (br_queues s) (q_name (queue_name m)) = Some ()"
  shows "rabbitmq_enqueue A me e M m delay s = (Inl (closed err), s\<lparr>rq_client :=
      (T ^^ (if q_name (queue_name m) \<in> set (rq_pending s) then MAX_DECLARE_ATTEMPTS else MAX_ENQUEUE_ATTEMPTS)) (rq_client s)\<rparr>)
    \<and> isinstance (closed err) BrokerConnectionError"
proof
  show "isinstance (closed err) BrokerConnectionError" by (simp add: closed_def issubclass_code)
  show "rabbitmq_enqueue A me e M m delay s = (Inl (closed err), s\<lparr>rq_client :=
      (T ^^ (if q_name (queue_name m) \<in> set (rq_pending s) then MAX_DECLARE_ATTEMPTS else MAX_ENQUEUE_ATTEMPTS)) (rq_client s)\<rparr>)"
  proof (cases "q_name (queue_name m) \<in> set (rq_pending s)")
    case True
    with publish_unreachable [OF assms(1,2,6,7,5,8)] assms(4) show ?thesis
      by (simp add: rabbitmq_enqueue_def enqueue_loop.simps)
  next
    case False
    with enqueue_loop_unreachable [OF assms(1-3,5), of s me "queue_name m" "MAX_ENQUEUE_ATTEMPTS - 1"] assms(6-8) show ?thesis
      by (simp add: rabbitmq_enqueue_def MAX_ENQUEUE_ATTEMPTS_def)
  qed
qed

text \<open>A broker with one declared queue in front of a server that is down for some calls, for examples.\<close>

definition rabbit_server :: "nat \<Rightarrow> rabbit_memory" where
  "rabbit_server outage = \<lparr>rm_queues = [], rm_outage = outage, rm_connections = 0, rm_channels = 0,
     rm_closed_connections = [], rm_closed_channels = [], rm_iterators = [], rm_tag = 1, rm_published = [],
     rm_callbacks = [], rm_events = []\<rparr>"

definition rabbit_sample :: "string list \<Rightarrow> nat \<Rightarrow> (unit, rabbit_memory) rabbitmq_broker" where
  "rabbit_sample pending outage =
     \<lparr>br_actors = [], br_queues = [(''default'', ())], br_delay_queues = [''default.DQ''], br_actor_options = {},
      br_middleware = [()], br_proxies = (\<lambda>_. MessageProxy sample_message), br_clock = 5,
      rq_client = rabbit_server outage, rq_confirm_delivery = False, rq_max_priority = None, rq_connections = [],
      rq_channels = [], rq_pending = pending, rq_connection = (\<lambda>_. None), rq_channel = (\<lambda>_. None), rq_consumers = [],
      rq_messages = (\<lambda>_. (False, 0)), rq_next = 0\<rparr>"

definition base_hooks :: "(unit, (unit, rabbit_memory) rabbitmq_broker) mw_ops" where
  "base_hooks = \<lparr>mw_isinstance = (\<lambda>m c. False), mw_actor_options = (\<lambda>m. {}), mw_run = (\<lambda>m. Middleware)\<rparr>"

lemma base_hooks_silent: "mw_run base_hooks m h s = (Inr (), s)"
  by (simp add: base_hooks_def Middleware_def return_def)

text \<open>A client that never connects, and counts the attempts.\<close>

definition unreachable_client :: "rabbit_memory amqp" where
  "unreachable_client = memory_client\<lparr>aq_connect := (\<lambda>r. (Inl (pika_exn ''AMQPConnectionError''), r\<lparr>rm_tag := Suc (rm_tag r)\<rparr>))\<rparr>"

lemma unreachable_error:
  "is_amqp unreachable_client (pika_exn ''AMQPConnectionError'')"
  "\<not> aq_isinstance unreachable_client (pika_exn ''AMQPConnectionError'') UnroutableError"
  "\<not> is_amqp unreachable_client (closed e)"
  by (simp_all add: is_amqp_def unreachable_client_def memory_client_def pika_isinstance_def pika_exn_def closed_def)

theorem rabbitmq_outage_witness:
  "rm_tag (rq_client (snd (rabbitmq_enqueue unreachable_client 0 JSONEncoder base_hooks sample_message None (rabbit_sample [] 0)))) = 7
   \<and> rm_tag (rq_client (snd (rabbitmq_enqueue unreachable_client 0 JSONEncoder base_hooks sample_message None
        (rabbit_sample [''default''] 0)))) = 3"
proof -
  have c: "aq_connect unreachable_client = (\<lambda>r. (Inl (pika_exn ''AMQPConnectionError''), r\<lparr>rm_tag := Suc (rm_tag r)\<rparr>))"
    by (simp add: unreachable_client_def)
  have n: "rm_tag (((\<lambda>r. r\<lparr>rm_tag := Suc (rm_tag r)\<rparr>) ^^ k) r) = k + rm_tag r" for k r
    by (induction k) simp_all
  have q: "q_name (queue_name sample_message) = ''default''" by (simp add: sample_message_def q_name_def endswith_def suffix_def)
  show ?thesis
    using rabbitmq_outage [OF c unreachable_error base_hooks_silent, of "rabbit_sample [] 0" 0 sample_message JSONEncoder None]
      rabbitmq_outage [OF c unreachable_error base_hooks_silent, of "rabbit_sample [''default''] 0" 0 sample_message JSONEncoder None]
    by (simp add: q n rabbit_sample_def rabbit_server_def MAX_ENQUEUE_ATTEMPTS_def MAX_DECLARE_ATTEMPTS_def)
qed

text \<open>
  An interrupted confirmation escapes: if the connection fails between opening a channel and switching
  its confirmations on, the channel is not yet among the channels that are closed, so that throwing it
  away raises \<open>KeyError\<close> from the exception handler of \<open>enqueue\<close>: the call is not retried, and what it
  raises is no connection error.
\<close>

theorem confirm_failure_escapes:
  assumes "rq_confirm_delivery s" "rq_channel s me = None" "rq_connection s me = Some c"
    and "aq_channel A c (rq_client s) = (Inr ch, r1)" "aq_confirm_delivery A ch r1 = (Inl err, r2)" "is_amqp A err"
    and "ch \<notin> set (rq_channels s)" "map_of (br_queues s) (q_name (queue_name m)) = Some ()"
    and "q_name (queue_name m) \<notin> set (rq_pending s)" "\<And>m h s. mw_run M m h s = (Inr (), s)"
  shows "rabbitmq_enqueue A me e M m delay s = (Inl (mk_exn KeyError ''channel''), s\<lparr>rq_client := r2\<rparr>)
    \<and> \<not> isinstance (mk_exn KeyError ''channel'') BrokerConnectionError"
proof
  let ?s = "s\<lparr>rq_channel := (rq_channel s)(me := Some ch), rq_client := r2\<rparr>"
  have "connection A me s = (Inr c, s)" using assms(3) by (simp add: connection_def proc_simps)
  then have ch: "channel A me s = (Inl err, ?s)"
    using assms(1,2,4,5) by (simp add: channel_def proc_simps rabbit_def)
  have "ensure_queue A me (q_name (queue_name m)) s = (Inr (), s)"
    using assms(9) by (simp add: ensure_queue_def ensure_queue_loop.simps create_queue_def andthen_get_state return_def)
  moreover have "emit_before M h s = (Inr (), s)" for h by (rule emit_silent) (rule assms(10))
  ultimately have p: "publish A me e M (queue_name m) m' delay s = (Inl err, ?s)" for m'
    using ch assms(8,9)
    by (simp add: publish_def rabbitmq_declare_queue_def Let_def andthen_get_state andthen_assoc andthen_Inr andthen_Inl)
  have "rq_channel (s\<lparr>rq_channel := (rq_channel s)(me := None)\<rparr>) = rq_channel s" using assms(2) by auto
  then have "?s\<lparr>rq_channel := (rq_channel ?s)(me := None)\<rparr> = s\<lparr>rq_client := r2\<rparr>" by simp
  then have "forget_connection A me q err ?s = (Inl (mk_exn KeyError ''channel''), s\<lparr>rq_client := r2\<rparr>)" for q
    using assms(7) by (simp add: forget_connection_def del_connection_def del_channel_def proc_simps)
  with p assms(6) show "rabbitmq_enqueue A me e M m delay s = (Inl (mk_exn KeyError ''channel''), s\<lparr>rq_client := r2\<rparr>)"
    by (simp add: rabbitmq_enqueue_def enqueue_loop.simps)
qed (simp add: issubclass_code)

theorem confirm_failure_escapes_witness:
  "fst (rabbitmq_enqueue (memory_client\<lparr>aq_confirm_delivery := (\<lambda>ch r. (Inl (pika_exn ''AMQPConnectionError''), r))\<rparr>) 0 JSONEncoder
      base_hooks sample_message None
      ((rabbit_sample [] 0)\<lparr>rq_confirm_delivery := True, rq_connection := (\<lambda>_. Some 0), rq_connections := [0]\<rparr>))
    = Inl (mk_exn KeyError ''channel'')"
proof -
  have q: "q_name (queue_name sample_message) = ''default''" by (simp add: sample_message_def q_name_def endswith_def suffix_def)
  show ?thesis
    by (subst confirm_failure_escapes [where c = 0 and ch = 0 and err = "pika_exn ''AMQPConnectionError''"
            and ?r1.0 = "(rabbit_server 0)\<lparr>rm_channels := 1\<rparr>" and ?r2.0 = "(rabbit_server 0)\<lparr>rm_channels := 1\<rparr>",
          THEN conjunct1, OF _ _ _ _ _ _ _ _ _ base_hooks_silent])
      (simp_all add: q rabbit_sample_def rabbit_server_def memory_client_def while_up_def is_amqp_def pika_isinstance_def pika_exn_def)
qed

section \<open>The tables stay well formed\<close>

text \<open>Any number of operations, of any threads, in any order; time passes, and while one thread sleeps in \<open>join\<close> others run.\<close>

inductive rabbitmq_runs ::
  "'r amqp \<Rightarrow> ('m, ('m, 'r, 'a) rabbitmq_broker_scheme) mw_ops \<Rightarrow> ('m, 'r, 'a) rabbitmq_broker_scheme
   \<Rightarrow> ('m, 'r, 'a) rabbitmq_broker_scheme \<Rightarrow> bool" for A M where
  start: "rabbitmq_runs A M s s"
| declaring: "rabbitmq_runs A M s t \<Longrightarrow> rabbitmq_runs A M s (snd (rabbitmq_declare_queue A me M name ensure t))"
| enqueue: "rabbitmq_runs A M s t \<Longrightarrow> rabbitmq_runs A M s (snd (rabbitmq_enqueue A me e M m delay t))"
| count: "rabbitmq_runs A M s t \<Longrightarrow> rabbitmq_runs A M s (snd (get_queue_message_counts A me name t))"
| flush: "rabbitmq_runs A M s t \<Longrightarrow> rabbitmq_runs A M s (snd (rabbitmq_flush A me name t))"
| flush_all: "rabbitmq_runs A M s t \<Longrightarrow> rabbitmq_runs A M s (snd (rabbitmq_flush_all A me t))"
| close: "rabbitmq_runs A M s t \<Longrightarrow> rabbitmq_runs A M s (snd (rabbitmq_close A t))"
| consume: "rabbitmq_runs A M s t \<Longrightarrow> rabbitmq_runs A M s (snd (rabbitmq_consume A me M name prefetch timeout t))"
| ack: "rabbitmq_runs A M s t \<Longrightarrow> rabbitmq_runs A M s (snd (rabbitmq_ack A c r t))"
| nack: "rabbitmq_runs A M s t \<Longrightarrow> rabbitmq_runs A M s (snd (rabbitmq_nack A c r t))"
| fetch: "rabbitmq_runs A M s t \<Longrightarrow> c < length (rq_consumers t) \<Longrightarrow> rabbitmq_runs A M s (snd (rabbitmq_next A e fresh c t))"
| close_consumer: "rabbitmq_runs A M s t \<Longrightarrow> close_consumer fuel A c t = Some (x, u) \<Longrightarrow> rabbitmq_runs A M s u"
| join: "rabbitmq_runs A M s t \<Longrightarrow> (\<And>d u. rabbitmq_runs A M u (meanwhile d u))
    \<Longrightarrow> rabbitmq_join fuel A me meanwhile name n idle timeout t = Some (x, u) \<Longrightarrow> rabbitmq_runs A M s u"
| tick: "rabbitmq_runs A M s t \<Longrightarrow> 0 \<le> d \<Longrightarrow> rabbitmq_runs A M s (t\<lparr>br_clock := br_clock t + d\<rparr>)"

lemma rabbitmq_runs_wf:
  assumes "amqp_client A conns chans published" "orderly_hooks conns chans M"
  shows "rabbitmq_runs A M s t \<Longrightarrow> rabbitmq_wf conns chans Q s \<Longrightarrow> rabbitmq_wf conns chans Q t"
proof (induction arbitrary: Q rule: rabbitmq_runs.induct)
  case (consume s t me name prefetch timeout)
  then show ?case by (simp add: amqp_client.consume_wf [OF assms(1,2)])
next
  case (close_consumer s t fuel c x u)
  then show ?case using amqp_client.close_consumer_wf [OF assms(1)] by blast
next
  case (join s t meanwhile fuel me name n idle timeout x u)
  show ?case
  proof (rule amqp_client.join_wf [OF assms(1)])
    show "rabbitmq_join_loop fuel A me meanwhile name n idle (map_option (\<lambda>d. if d = 0 then 0 else br_clock t + d) timeout) 0 t = Some (x, u)"
      using join.hyps by (simp add: rabbitmq_join_def)
    show "rabbitmq_wf conns chans Q t" by (rule join.IH(1) [OF join.prems])
    show "rabbitmq_wf conns chans Q (meanwhile d v)" if "rabbitmq_wf conns chans Q v" for d v by (rule join.IH(2) [OF that])
  qed
next
  case (tick s t d)
  from tick.IH [OF tick.prems] show ?case by (simp add: rabbitmq_wf_def)
qed (simp_all add: rabbitmq_ack_def rabbitmq_nack_def amqp_client.enqueue_wf [OF assms(1,2)] amqp_client.next_wf [OF assms(1)]
    keepsD [OF amqp_client.declare_queue_keeps [OF assms(1,2)]] keepsD [OF amqp_client.counts_keeps [OF assms(1)]]
    keepsD [OF amqp_client.flush_keeps [OF assms(1)]] keepsD [OF amqp_client.flush_all_keeps [OF assms(1)]]
    keepsD [OF amqp_client.close_all_keeps [OF assms(1)]] keepsD [OF amqp_client.settle_keeps [OF assms(1)]])

text \<open>
  C36. Well-formedness of the broker: the queues that are pending on the server, the delay queues and the
  consumers belong to declared queues, each thread's connection is its own, made by the client and known
  to \<open>close\<close>, and each thread's channel is its own, made by the client and on a thread that has a
  connection. The channel is known to \<open>close\<close> when delivery confirmation is off; with it, a channel whose
  \<open>confirm_delivery\<close> failed is set for its thread before it is listed (\<open>confirm_failure_escapes\<close>). Whatever
  operations run, and whether they return or raise, the tables stay like that and no queue is undeclared,
  provided that the middleware hooks themselves leave the tables well-formed (\<open>orderly_hooks\<close>).
\<close>

theorem rabbitmq_tables_wf:
  assumes "amqp_client A conns chans published" "orderly_hooks conns chans M"
    and "rabbitmq_runs A M s t" "rabbitmq_wf conns chans (queue_names s) s"
  shows "rabbitmq_wf conns chans (queue_names s) t"
  by (rule rabbitmq_runs_wf [OF assms])

lemma base_hooks_orderly: "orderly_hooks conns chans base_hooks" "unpublishing_hooks published base_hooks"
  by (simp_all add: orderly_hooks_def unpublishing_hooks_def keeps_def base_hooks_silent)

lemma rabbit_sample_wf: "rabbitmq_wf (\<lambda>r. {..<rm_connections r}) (\<lambda>r. {..<rm_channels r}) {''default''} (rabbit_sample [] n)"
  by (simp add: rabbitmq_wf_def queues_wf_def objects_wf_def queue_names_def rabbit_sample_def dict_wf_def)

theorem rabbitmq_tables_wf_witness:
  "set (rq_pending (snd (rabbitmq_enqueue memory_client 7 JSONEncoder base_hooks sample_message (Some 3)
      (snd (rabbitmq_declare_queue memory_client 5 base_hooks ''mail'' False (rabbit_sample [] 3))))))
   \<subseteq> queue_names (snd (rabbitmq_enqueue memory_client 7 JSONEncoder base_hooks sample_message (Some 3)
      (snd (rabbitmq_declare_queue memory_client 5 base_hooks ''mail'' False (rabbit_sample [] 3)))))"
proof -
  have n: "queue_names (rabbit_sample [] 3) = {''default''}" by (simp add: queue_names_def rabbit_sample_def)
  have "rabbitmq_runs memory_client base_hooks (rabbit_sample [] 3)
     (snd (rabbitmq_enqueue memory_client 7 JSONEncoder base_hooks sample_message (Some 3)
      (snd (rabbitmq_declare_queue memory_client 5 base_hooks ''mail'' False (rabbit_sample [] 3)))))"
    by (intro rabbitmq_runs.intros)
  from rabbitmq_tables_wf [OF memory_rabbit.amqp_client_axioms base_hooks_orderly(1) this] rabbit_sample_wf [of 3]
  show ?thesis unfolding n by (simp add: rabbitmq_wf_def queues_wf_def)
qed

section \<open>What is published\<close>

text \<open>
  C9. Publishing: a message without a delay is sent as it is, on its own queue; with a delay it is sent
  on the delay queue of its queue, with the time of the clock plus the delay as its \<open>eta\<close>, and otherwise
  unchanged. When \<open>enqueue\<close> returns, the server was sent the encoded message on that queue at least once and
  at most \<open>MAX_ENQUEUE_ATTEMPTS\<close> times (an attempt whose confirmation was lost is repeated), nothing else was
  sent, and the message is what \<open>enqueue\<close> returns; when it raises, it was sent at most as many times. The
  middleware hooks are assumed to publish nothing themselves, and the message to be encodable.
\<close>

theorem rabbitmq_enqueue_publishes:
  assumes "amqp_client A conns chans published" "unpublishing_hooks published M"
    and sent: "sent = (case delay of
           None \<Rightarrow> m
         | Some d \<Rightarrow> m\<lparr>queue_name := dq_name (queue_name m),
                        options := AList.update ''eta'' (PInt (br_clock s + d)) (options m)\<rparr>)"
    and "encode e sent = Inr body"
    and "rabbitmq_enqueue A me e M m delay s = (x, s')"
  shows "\<exists>k. k \<le> MAX_ENQUEUE_ATTEMPTS
    \<and> published (rq_client s') = published (rq_client s) @ replicate k (queue_name sent, body)
    \<and> (\<forall>m'. x = Inr m' \<longrightarrow> m' = sent \<and> 1 \<le> k)"
proof -
  have "rabbitmq_message (br_clock s) m delay = sent"
    unfolding sent by (simp add: rabbitmq_message_def copy_def dict_merge_def split: option.split)
  with assms(4,5) amqp_client.enqueue_sent [OF assms(1,2), of e s m delay body me x s'] show ?thesis by simp
qed

theorem rabbitmq_enqueue_publishes_witness:
  "\<exists>body k. encode JSONEncoder (sample_message\<lparr>queue_name := ''default.DQ'', options := [(''retries'', PInt 0), (''eta'', PInt 8)]\<rparr>) = Inr body \<and> k \<le> 6
     \<and> rm_published (rq_client (snd (rabbitmq_enqueue memory_client 7 JSONEncoder base_hooks sample_message (Some 3) (rabbit_sample [''default''] 1))))
        = replicate k (''default.DQ'', body)"
proof -
  let ?s = "rabbit_sample [''default''] 1"
  let ?m = "sample_message\<lparr>queue_name := ''default.DQ'', options := [(''retries'', PInt 0), (''eta'', PInt 8)]\<rparr>"
  have m: "?m = (case Some (3::int) of None \<Rightarrow> sample_message
      | Some d \<Rightarrow> sample_message\<lparr>queue_name := dq_name (queue_name sample_message),
                options := AList.update ''eta'' (PInt (br_clock ?s + d)) (options sample_message)\<rparr>)"
    by (simp add: sample_message_def rabbit_sample_def) code_simp
  have "\<exists>body. encode JSONEncoder ?m = Inr body"
    by (simp add: encode_def JSONEncoder_def sample_message_def asdict_def json_dumps.simps)
  then obtain body where body: "encode JSONEncoder ?m = Inr body" by blast
  obtain x s' where run: "rabbitmq_enqueue memory_client 7 JSONEncoder base_hooks sample_message (Some 3) ?s = (x, s')" by force
  from rabbitmq_enqueue_publishes [OF memory_rabbit.amqp_client_axioms base_hooks_orderly(2) m body run]
  obtain k where "k \<le> 6" "rm_published (rq_client s') = rm_published (rq_client ?s) @ replicate k (queue_name ?m, body)"
    by (auto simp: MAX_ENQUEUE_ATTEMPTS_def)
  then have "k \<le> 6" "rm_published (rq_client s') = replicate k (''default.DQ'', body)"
    by (simp_all add: rabbit_sample_def rabbit_server_def)
  with body run show ?thesis by auto
qed

section \<open>Deliveries\<close>

text \<open>
  What a consumer relies on: an iterator never delivers a tag twice, and a callback that could be added
  is handed to the connection. \<open>callbacks\<close> are those handed over so far, \<open>delivered\<close> the tags that an
  iterator has delivered.
\<close>

locale amqp_deliveries =
  fixes A :: "'r amqp" and callbacks :: "'r \<Rightarrow> callback list" and delivered :: "nat \<Rightarrow> 'r \<Rightarrow> nat set"
  assumes next_delivery: "aq_next A it r = (x, r') \<Longrightarrow> callbacks r' = callbacks r
      \<and> (case x of Inr (Some d) \<Rightarrow> dl_tag d \<notin> delivered it r \<and> delivered it r' = insert (dl_tag d) (delivered it r)
         | _ \<Rightarrow> delivered it r' = delivered it r)"
    and callback: "aq_add_callback A c cb r = (y, r') \<Longrightarrow> delivered it r' = delivered it r
      \<and> callbacks r' = (if isl y then callbacks r else callbacks r @ [cb])"

text \<open>The tags that were acknowledged or rejected on a channel.\<close>

fun settled_tags :: "nat \<Rightarrow> callback list \<Rightarrow> nat list" where
  "settled_tags ch [] = []"
| "settled_tags ch (Basic_ack h tag # cs) = (if h = ch then tag # settled_tags ch cs else settled_tags ch cs)"
| "settled_tags ch (Basic_nack h tag # cs) = (if h = ch then tag # settled_tags ch cs else settled_tags ch cs)"
| "settled_tags ch (Set_event n # cs) = settled_tags ch cs"

lemma settled_tags_append [simp]: "settled_tags ch (xs @ ys) = settled_tags ch xs @ settled_tags ch ys"
  by (induction ch xs rule: settled_tags.induct) simp_all

text \<open>
  The life of a consumer: it fetches, and messages are acknowledged and rejected, in any order and as
  often as anybody likes; other threads may do what does not concern its channel.
\<close>

definition same_consumer ::
  "('r \<Rightarrow> callback list) \<Rightarrow> (nat \<Rightarrow> 'r \<Rightarrow> nat set) \<Rightarrow> nat \<Rightarrow> ('m, 'r, 'a) rabbitmq_broker_scheme
   \<Rightarrow> ('m, 'r, 'a) rabbitmq_broker_scheme \<Rightarrow> bool" where
  "same_consumer callbacks delivered c t u =
     (let C = rq_consumers t ! c
      in length (rq_consumers t) \<le> length (rq_consumers u) \<and> rq_consumers u ! c = C
         \<and> settled_tags (rc_channel C) (callbacks (rq_client u)) = settled_tags (rc_channel C) (callbacks (rq_client t))
         \<and> delivered (rc_iterator C) (rq_client u) = delivered (rc_iterator C) (rq_client t))"

inductive consumer_runs ::
  "'r amqp \<Rightarrow> ('r \<Rightarrow> callback list) \<Rightarrow> (nat \<Rightarrow> 'r \<Rightarrow> nat set) \<Rightarrow> nat \<Rightarrow> ('m, 'r, 'a) rabbitmq_broker_scheme
   \<Rightarrow> ('m, 'r, 'a) rabbitmq_broker_scheme \<Rightarrow> bool" for A callbacks delivered c s where
  start: "consumer_runs A callbacks delivered c s s"
| fetch: "consumer_runs A callbacks delivered c s t \<Longrightarrow> consumer_runs A callbacks delivered c s (snd (rabbitmq_next A e fresh c t))"
| ack: "consumer_runs A callbacks delivered c s t \<Longrightarrow> consumer_runs A callbacks delivered c s (snd (rabbitmq_ack A c r t))"
| nack: "consumer_runs A callbacks delivered c s t \<Longrightarrow> consumer_runs A callbacks delivered c s (snd (rabbitmq_nack A c r t))"
| others: "consumer_runs A callbacks delivered c s t \<Longrightarrow> same_consumer callbacks delivered c t u \<Longrightarrow> consumer_runs A callbacks delivered c s u"

definition consumer_ok ::
  "('r \<Rightarrow> callback list) \<Rightarrow> (nat \<Rightarrow> 'r \<Rightarrow> nat set) \<Rightarrow> nat \<Rightarrow> ('m, 'r, 'a) rabbitmq_broker_scheme \<Rightarrow> bool" where
  "consumer_ok callbacks delivered c s =
     (let C = rq_consumers s ! c; settled = settled_tags (rc_channel C) (callbacks (rq_client s))
      in c < length (rq_consumers s) \<and> distinct settled \<and> set settled \<inter> set (rc_known_tags C) = {}
         \<and> set settled \<union> set (rc_known_tags C) \<subseteq> delivered (rc_iterator C) (rq_client s))"

lemma update_rc_simps [simp]:
  "c < length (rq_consumers s) \<Longrightarrow> rq_consumers (update_rc c f s) ! c = f (rq_consumers s ! c)"
  "length (rq_consumers (update_rc c f s)) = length (rq_consumers s)" "rq_client (update_rc c f s) = rq_client s"
  by (simp_all add: update_rc_def)

context amqp_deliveries
begin

lemma settle_ok:
  assumes s: "consumer_ok callbacks delivered c s" and call: "\<And>ch tag. settled_tags ch [call ch tag] = [tag]"
  shows "consumer_ok callbacks delivered c (snd (rabbitmq_settle A call c r s))"
proof (cases "snd (rq_messages s r) \<in> set (rc_known_tags (rq_consumers s ! c))")
  case True
  let ?C = "rq_consumers s ! c" and ?tag = "snd (rq_messages s r)"
  obtain y r' where a: "aq_add_callback A (rc_connection ?C) (call (rc_channel ?C) ?tag) (rq_client s) = (y, r')" by force
  show ?thesis
    using callback [OF a, of "rc_iterator ?C"] True s call
    by (cases y) (auto simp: rabbitmq_settle_def Let_def proc_simps rabbit_def a consumer_ok_def log_exception_def)
qed (use s in \<open>simp add: rabbitmq_settle_def Let_def\<close>)

lemma next_ok:
  assumes s: "consumer_ok callbacks delivered c s"
  shows "consumer_ok callbacks delivered c (snd (rabbitmq_next A e fresh c s))"
proof -
  let ?C = "rq_consumers s ! c"
  obtain x r' where n: "aq_next A (rc_iterator ?C) (rq_client s) = (x, r')" by force
  note law = next_delivery [OF n]
  show ?thesis
  proof (cases x)
    case (Inl err)
    then show ?thesis using law s by (auto simp: rabbitmq_next_def Let_def rabbit_def n consumer_ok_def)
  next
    case (Inr d)
    show ?thesis
    proof (cases d)
      case None
      then show ?thesis using law s Inr by (simp add: rabbitmq_next_def Let_def rabbit_def n consumer_ok_def)
    next
      case (Some d)
      obtain y r2 where a: "aq_add_callback A (rc_connection ?C) (Basic_nack (rc_channel ?C) (dl_tag d)) r' = (y, r2)" by force
      note law2 = callback [OF a, of "rc_iterator ?C"]
      show ?thesis
        using law law2 s Inr Some
        by (cases "decode e fresh (br_clock s) (dl_body d)"; cases y)
          (auto simp: rabbitmq_next_def Let_def rabbit_def n a consumer_ok_def andthen_def return_def)
    qed
  qed
qed

lemma runs_ok:
  "consumer_runs A callbacks delivered c s t \<Longrightarrow> consumer_ok callbacks delivered c s \<Longrightarrow> consumer_ok callbacks delivered c t"
proof (induction rule: consumer_runs.induct)
  case (others t u)
  then show ?case by (auto simp: same_consumer_def consumer_ok_def Let_def)
qed (simp_all add: next_ok settle_ok rabbitmq_ack_def rabbitmq_nack_def)

end

text \<open>The channel and the iterator of a consumer never change.\<close>

lemma settle_same:
  "c < length (rq_consumers s) \<Longrightarrow> rc_channel (rq_consumers (snd (rabbitmq_settle A call c r s)) ! c) = rc_channel (rq_consumers s ! c)
    \<and> rc_iterator (rq_consumers (snd (rabbitmq_settle A call c r s)) ! c) = rc_iterator (rq_consumers s ! c)
    \<and> length (rq_consumers (snd (rabbitmq_settle A call c r s))) = length (rq_consumers s)"
  by (auto simp: rabbitmq_settle_def Let_def proc_simps rabbit_def log_exception_def split: sum.split prod.split)

lemma next_same:
  assumes "c < length (rq_consumers s)"
  shows "rc_channel (rq_consumers (snd (rabbitmq_next A e fresh c s)) ! c) = rc_channel (rq_consumers s ! c)
    \<and> rc_iterator (rq_consumers (snd (rabbitmq_next A e fresh c s)) ! c) = rc_iterator (rq_consumers s ! c)
    \<and> length (rq_consumers (snd (rabbitmq_next A e fresh c s))) = length (rq_consumers s)"
proof -
  obtain x r where n: "aq_next A (rc_iterator (rq_consumers s ! c)) (rq_client s) = (x, r)" by force
  show ?thesis
    using assms by (auto simp: rabbitmq_next_def Let_def rabbit_def n andthen_def return_def split: sum.split option.split prod.split)
qed

lemma runs_same:
  "consumer_runs A callbacks delivered c s t \<Longrightarrow> c < length (rq_consumers s) \<Longrightarrow> c < length (rq_consumers t)
    \<and> rc_channel (rq_consumers t ! c) = rc_channel (rq_consumers s ! c) \<and> rc_iterator (rq_consumers t ! c) = rc_iterator (rq_consumers s ! c)"
proof (induction rule: consumer_runs.induct)
  case (others t u)
  then show ?case by (auto simp: same_consumer_def Let_def)
qed (simp_all add: rabbitmq_ack_def rabbitmq_nack_def settle_same next_same)

text \<open>
  C8. Deliveries are settled at most once: however often messages are acknowledged and rejected, whatever
  is fetched in between and whatever the connection does, each delivery tag is acknowledged or rejected
  on the consumer's channel at most once, and only after it was delivered to that consumer.
\<close>

theorem rabbitmq_settles_once:
  assumes "amqp_deliveries A callbacks delivered" "consumer_runs A callbacks delivered c s t" "c < length (rq_consumers s)"
    and "rc_known_tags (rq_consumers s ! c) = []" "settled_tags (rc_channel (rq_consumers s ! c)) (callbacks (rq_client s)) = []"
  shows "distinct (settled_tags (rc_channel (rq_consumers s ! c)) (callbacks (rq_client t)))
    \<and> set (settled_tags (rc_channel (rq_consumers s ! c)) (callbacks (rq_client t)))
        \<subseteq> delivered (rc_iterator (rq_consumers s ! c)) (rq_client t) - set (rc_known_tags (rq_consumers t ! c))"
proof -
  have "consumer_ok callbacks delivered c s" using assms(3-5) by (simp add: consumer_ok_def)
  from amqp_deliveries.runs_ok [OF assms(1,2) this] runs_same [OF assms(2,3)] show ?thesis
    by (auto simp: consumer_ok_def Let_def)
qed

text \<open>
  A failed acknowledgement is not repeated: if the connection is down when a message is settled, the
  call raises \<open>ConnectionClosed\<close>, so that the worker tries again; but by then the tag is forgotten, so
  that the second call returns without handing over anything, and the message stays unsettled until the
  server redelivers it to another consumer.
\<close>

theorem rabbitmq_settle_forgets:
  assumes "c < length (rq_consumers s)" "snd (rq_messages s r) \<in> set (rc_known_tags (rq_consumers s ! c))"
    and "aq_add_callback A (rc_connection (rq_consumers s ! c)) (call (rc_channel (rq_consumers s ! c)) (snd (rq_messages s r)))
      (rq_client s) = (Inl err, r')" "is_amqp A err"
  shows "\<exists>s'. rabbitmq_settle A call c r s = (Inl (closed err), s') \<and> isinstance (closed err) BrokerConnectionError
    \<and> rq_client s' = r' \<and> rabbitmq_ack A c r s' = (Inr (), s') \<and> rabbitmq_nack A c r s' = (Inr (), s')"
proof -
  let ?C = "rq_consumers s ! c" and ?tag = "snd (rq_messages s r)"
  let ?s = "(update_rc c (\<lambda>C. C\<lparr>rc_known_tags := removeAll ?tag (rc_known_tags C)\<rparr>) s)\<lparr>rq_client := r'\<rparr>"
  have "rabbitmq_settle A call c r s = (Inl (closed err), ?s)"
    using assms by (simp add: rabbitmq_settle_def Let_def proc_simps rabbit_def)
  moreover have "rq_messages ?s = rq_messages s" by (simp add: update_rc_def)
  ultimately show ?thesis
    using assms(1) by (simp add: rabbitmq_ack_def rabbitmq_nack_def rabbitmq_settle_def Let_def closed_def issubclass_code)
qed

interpretation memory_rabbit: amqp_deliveries memory_client rm_callbacks "\<lambda>_ r. {..<rm_tag r}"
  by unfold_locales (auto simp: memory_client_def while_up_def split: if_splits option.splits list.splits)

text \<open>A broker with a consumer whose server has some bodies waiting.\<close>

definition rabbit_consumer :: "string list \<Rightarrow> (unit, rabbit_memory) rabbitmq_broker" where
  "rabbit_consumer bodies = (rabbit_sample [] 0)
     \<lparr>rq_client := (rabbit_server 0)\<lparr>rm_queues := [(''default'', bodies)], rm_connections := 1, rm_channels := 1,
        rm_iterators := [(0, ''default'')]\<rparr>,
      rq_consumers := [\<lparr>rc_queue = ''default'', rc_connection = 0, rc_channel = 0, rc_iterator = 0, rc_known_tags = []\<rparr>]\<rparr>"

theorem rabbitmq_settles_once_witness:
  "distinct (settled_tags 0 (rm_callbacks (rq_client (snd (rabbitmq_nack memory_client 0 0
      (snd (rabbitmq_ack memory_client 0 0 (snd (rabbitmq_next memory_client JSONEncoder ''f'' 0 (rabbit_consumer [''{}'']))))))))))"
proof -
  let ?s = "rabbit_consumer [''{}'']"
  let ?n = "snd (rabbitmq_next memory_client JSONEncoder ''f'' 0 ?s)"
  let ?t = "snd (rabbitmq_nack memory_client 0 0 (snd (rabbitmq_ack memory_client 0 0 ?n)))"
  have "consumer_runs memory_client rm_callbacks (\<lambda>_ r. {..<rm_tag r}) 0 ?s ?t"
    by (intro consumer_runs.intros)
  then show ?thesis
    using rabbitmq_settles_once [OF memory_rabbit.amqp_deliveries_axioms, of 0 ?s ?t]
    by (simp add: rabbit_consumer_def rabbit_sample_def rabbit_server_def)
qed

definition dropped_client :: "rabbit_memory amqp" where
  "dropped_client = memory_client\<lparr>aq_add_callback := (\<lambda>c cb r. (Inl (pika_exn ''ConnectionWrongStateError''), r))\<rparr>"

definition busy_consumer :: "(unit, rabbit_memory) rabbitmq_broker" where
  "busy_consumer = (rabbit_consumer [])\<lparr>rq_consumers := [\<lparr>rc_queue = ''default'', rc_connection = 0, rc_channel = 0,
     rc_iterator = 0, rc_known_tags = [0]\<rparr>]\<rparr>"

theorem rabbitmq_settle_forgets_witness:
  "\<exists>e s'. rabbitmq_ack dropped_client 0 0 busy_consumer = (Inl e, s') \<and> isinstance e BrokerConnectionError
    \<and> rabbitmq_ack dropped_client 0 0 s' = (Inr (), s') \<and> rm_callbacks (rq_client s') = []"
proof -
  have "is_amqp dropped_client (pika_exn ''ConnectionWrongStateError'')"
    by (simp add: is_amqp_def dropped_client_def memory_client_def pika_isinstance_def pika_exn_def)
  from rabbitmq_settle_forgets [where c = 0 and s = busy_consumer and r = 0 and call = Basic_ack and r' = "rq_client busy_consumer", OF _ _ _ this]
  obtain s' where "rabbitmq_ack dropped_client 0 0 busy_consumer = (Inl (closed (pika_exn ''ConnectionWrongStateError'')), s')"
    "isinstance (closed (pika_exn ''ConnectionWrongStateError'')) BrokerConnectionError" "rq_client s' = rq_client busy_consumer"
    "rabbitmq_ack dropped_client 0 0 s' = (Inr (), s')"
    unfolding rabbitmq_ack_def by (auto simp: busy_consumer_def dropped_client_def rabbit_consumer_def rabbit_sample_def)
  moreover have "rm_callbacks (rq_client busy_consumer) = []"
    by (simp add: busy_consumer_def rabbit_consumer_def rabbit_server_def)
  ultimately show ?thesis by auto
qed

text \<open>
  C25. From one end to the other: if an enqueued message can be encoded and the body that was published is
  what a consumer is delivered, the consumer returns a new proxy with the message that was enqueued
  (nested tuples as lists, as JSON has it) and its tag among the known ones; a body that cannot be decoded
  is rejected at once and not returned.
\<close>

theorem rabbitmq_enqueue_next:
  assumes "amqp_client A conns chans published" "unpublishing_hooks published M"
    and "json_wf (PDict (asdict (rabbitmq_message (br_clock s) m delay)))"
    and "encode JSONEncoder (rabbitmq_message (br_clock s) m delay) = Inr body"
    and "rabbitmq_enqueue A me JSONEncoder M m delay s = (Inr m', s1)"
    and "c < length (rq_consumers t)" "aq_next A (rc_iterator (rq_consumers t ! c)) (rq_client t) = (Inr (Some d), r)"
  shows "(dl_body d = snd (last (published (rq_client s1))) \<longrightarrow>
      (\<exists>t'. rabbitmq_next A JSONEncoder fresh c t = (Inr (Some (rq_next t)), t') \<and> rq_client t' = r
        \<and> message_at t' (rq_next t) = m'\<lparr>args := map listify (args m'), kwargs := map (\<lambda>(k, v). (k, listify v)) (kwargs m'),
            options := map (\<lambda>(k, v). (k, listify v)) (options m')\<rparr>
        \<and> rq_messages t' (rq_next t) = (dl_redelivered d, dl_tag d)
        \<and> dl_tag d \<in> set (rc_known_tags (rq_consumers t' ! c))))
    \<and> (\<forall>err r'. decode JSONEncoder fresh (br_clock t) (dl_body d) = Inl err
        \<longrightarrow> aq_add_callback A (rc_connection (rq_consumers t ! c)) (Basic_nack (rc_channel (rq_consumers t ! c)) (dl_tag d)) r = (Inr (), r')
        \<longrightarrow> rabbitmq_next A JSONEncoder fresh c t = (Inr None, t\<lparr>rq_client := r'\<rparr>))"
proof (intro conjI impI allI)
  let ?m = "rabbitmq_message (br_clock s) m delay"
  assume last: "dl_body d = snd (last (published (rq_client s1)))"
  from amqp_client.enqueue_sent [OF assms(1,2,4,5)] obtain k
    where "published (rq_client s1) = published (rq_client s) @ replicate k (queue_name ?m, body)" "1 \<le> k" and m': "m' = ?m" by auto
  then have "dl_body d = body" by (simp add: last last_append)
  with json.decode_encode [OF assms(3,4), of fresh "br_clock t"]
  have "decode JSONEncoder fresh (br_clock t) (dl_body d) = Inr (m'\<lparr>args := map listify (args m'),
      kwargs := map (\<lambda>(k, v). (k, listify v)) (kwargs m'), options := map (\<lambda>(k, v). (k, listify v)) (options m')\<rparr>)"
    by (simp add: m')
  then show "\<exists>t'. rabbitmq_next A JSONEncoder fresh c t = (Inr (Some (rq_next t)), t') \<and> rq_client t' = r
        \<and> message_at t' (rq_next t) = m'\<lparr>args := map listify (args m'), kwargs := map (\<lambda>(k, v). (k, listify v)) (kwargs m'),
            options := map (\<lambda>(k, v). (k, listify v)) (options m')\<rparr>
        \<and> rq_messages t' (rq_next t) = (dl_redelivered d, dl_tag d)
        \<and> dl_tag d \<in> set (rc_known_tags (rq_consumers t' ! c))"
    using assms(6,7) by (simp add: rabbitmq_next_def Let_def rabbit_def MessageProxy_def)
next
  fix err r'
  assume "decode JSONEncoder fresh (br_clock t) (dl_body d) = Inl err"
    "aq_add_callback A (rc_connection (rq_consumers t ! c)) (Basic_nack (rc_channel (rq_consumers t ! c)) (dl_tag d)) r = (Inr (), r')"
  then show "rabbitmq_next A JSONEncoder fresh c t = (Inr None, t\<lparr>rq_client := r'\<rparr>)"
    using assms(7) by (simp add: rabbitmq_next_def Let_def rabbit_def andthen_def return_def)
qed

text \<open>
  A consumer whose channel was closed by the server leaves its connection open: closing the channel
  raises, \<open>close\<close> turns that into \<open>ConnectionClosed\<close>, which the worker ignores, and the connection, which
  the broker does not know, is never closed.
\<close>

theorem rabbitmq_close_leaves_connection:
  assumes "aq_add_callback A (rc_connection (rq_consumers s ! c)) (Set_event (rq_next s)) (rq_client s) = (Inr (), r1)"
    and "\<not> aq_event_is_set A (rq_next s) r1" "aq_sleep A (rc_connection (rq_consumers s ! c)) 0 r1 = (Inr (), r2)"
    and "aq_event_is_set A (rq_next s) r2" "aq_close_channel A (rc_channel (rq_consumers s ! c)) r2 = (Inl err, r3)" "is_amqp A err"
    and "aq_connection_is_open A (rc_connection (rq_consumers s ! c)) r3" "rc_connection (rq_consumers s ! c) \<notin> set (rq_connections s)"
  shows "\<exists>e s'. close_consumer 2 A c s = Some (Inl e, s') \<and> isinstance e BrokerConnectionError
    \<and> aq_connection_is_open A (rc_connection (rq_consumers s ! c)) (rq_client s')
    \<and> rc_connection (rq_consumers s ! c) \<notin> set (rq_connections s')"
  using assms
  by (simp add: close_consumer_def Let_def rabbit_def numeral_2_eq_2 close_objects_def proc_simps closed_def issubclass_code)

lemma sample_enqueue:
  assumes body: "encode JSONEncoder sample_message = Inr body"
  shows "\<exists>s1. rabbitmq_enqueue memory_client 7 JSONEncoder base_hooks sample_message None (rabbit_sample [] 0) = (Inr sample_message, s1)
    \<and> rm_published (rq_client s1) = [(''default'', body)]"
proof -
  let ?s = "rabbit_sample [] 0"
  have q: "q_name ''default'' = ''default''" "queue_name sample_message = ''default''"
    by (simp_all add: sample_message_def q_name_def endswith_def suffix_def)
  have e: "emit_before base_hooks h s = (Inr (), s)" "emit_after base_hooks h s = (Inr (), s)" for h s
    by (rule emit_silent, rule base_hooks_silent)+
  have "ensure_queue memory_client 7 ''default'' ?s = (Inr (), ?s)"
    by (simp add: ensure_queue_def ensure_queue_loop.simps create_queue_def andthen_get_state return_def rabbit_sample_def)
  moreover have "map_of (br_queues ?s) ''default'' = Some ()" by (simp add: rabbit_sample_def)
  ultimately have d: "rabbitmq_declare_queue memory_client 7 base_hooks ''default'' True ?s = (Inr (), ?s)"
    by (simp add: rabbitmq_declare_queue_def Let_def andthen_get_state q)
  obtain s2 where c: "channel memory_client 7 ?s = (Inr 0, s2)" "rm_outage (rq_client s2) = 0" "rm_queues (rq_client s2) = []"
      "rm_published (rq_client s2) = []" "\<not> rq_confirm_delivery s2"
    by (simp add: channel_def connection_def proc_simps rabbit_def memory_client_def while_up_def rabbit_sample_def rabbit_server_def)
  have pub: "aq_basic_publish memory_client ch ''default'' body p False r = (Inr (), r\<lparr>rm_published := rm_published r @ [(''default'', body)]\<rparr>)"
    if "rm_outage r = 0" "rm_queues r = []" for ch p r
    using that by (simp add: memory_client_def while_up_def)
  have "\<exists>s1. publish memory_client 7 JSONEncoder base_hooks ''default'' sample_message None ?s = (Inr (), s1)
      \<and> rm_published (rq_client s1) = [(''default'', body)]"
    using c by (simp add: publish_def andthen_def get_state_def d e body return_def rabbit_def pub q)
  then show ?thesis
    by (auto simp: rabbitmq_enqueue_def rabbitmq_message_def q enqueue_loop.simps)
qed

theorem rabbitmq_enqueue_next_witness:
  "\<exists>body s1 t'. encode JSONEncoder sample_message = Inr body
    \<and> rabbitmq_enqueue memory_client 7 JSONEncoder base_hooks sample_message None (rabbit_sample [] 0) = (Inr sample_message, s1)
    \<and> rabbitmq_next memory_client JSONEncoder ''f'' 0 (rabbit_consumer [body]) = (Inr (Some 0), t')
    \<and> message_id (message_at t' 0) = ''id-1'' \<and> args (message_at t' 0) = [PInt 1, PList [PInt (-2)]]"
proof -
  let ?s = "rabbit_sample [] 0"
  have m: "rabbitmq_message (br_clock ?s) sample_message None = sample_message" by (simp add: rabbitmq_message_def)
  have "\<exists>body. encode JSONEncoder sample_message = Inr body"
    by (simp add: encode_def JSONEncoder_def sample_message_def asdict_def json_dumps.simps)
  then obtain body where body: "encode JSONEncoder sample_message = Inr body" by blast
  from sample_enqueue [OF body] obtain s1
    where run: "rabbitmq_enqueue memory_client 7 JSONEncoder base_hooks sample_message None ?s = (Inr sample_message, s1)"
      and sent: "rm_published (rq_client s1) = [(''default'', body)]" by blast
  let ?t = "rabbit_consumer [body]"
  have wf: "json_wf (PDict (asdict sample_message))"
    by (rule json_wf_asdict [THEN iffD2]) (simp add: sample_message_def dict_wf_def)
  have n: "aq_next memory_client (rc_iterator (rq_consumers ?t ! 0)) (rq_client ?t)
      = (Inr (Some \<lparr>dl_tag = 1, dl_redelivered = False, dl_body = body\<rparr>), (rq_client ?t)\<lparr>rm_tag := 2, rm_queues := [(''default'', [])]\<rparr>)"
    by (simp add: memory_client_def while_up_def rabbit_consumer_def rabbit_server_def)
  have c: "0 < length (rq_consumers ?t)" by (simp add: rabbit_consumer_def)
  from rabbitmq_enqueue_next [OF memory_rabbit.amqp_client_axioms base_hooks_orderly(2), where s = ?s and m = sample_message and delay = None,
      unfolded m, OF wf body run c n, of "''f''"] sent
  obtain t' where "rabbitmq_next memory_client JSONEncoder ''f'' 0 ?t = (Inr (Some (rq_next ?t)), t')"
    "message_at t' (rq_next ?t) = sample_message\<lparr>args := map listify (args sample_message),
       kwargs := map (\<lambda>(k, v). (k, listify v)) (kwargs sample_message), options := map (\<lambda>(k, v). (k, listify v)) (options sample_message)\<rparr>"
    by auto
  moreover have "rq_next ?t = 0" by (simp add: rabbit_consumer_def rabbit_sample_def)
  ultimately show ?thesis using body run by (auto simp: sample_message_def)
qed

theorem rabbitmq_close_leaves_connection_witness:
  "\<exists>e s'. close_consumer 2 memory_client 0
      ((rabbit_consumer [])\<lparr>rq_client := (rq_client (rabbit_consumer []))\<lparr>rm_closed_channels := [0]\<rparr>\<rparr>) = Some (Inl e, s')
    \<and> isinstance e BrokerConnectionError \<and> 0 \<notin> set (rm_closed_connections (rq_client s'))"
proof -
  let ?s = "(rabbit_consumer [])\<lparr>rq_client := (rq_client (rabbit_consumer []))\<lparr>rm_closed_channels := [0]\<rparr>\<rparr>"
  let ?r = "(rq_client ?s)\<lparr>rm_callbacks := [Set_event 0]\<rparr>"
  have "is_amqp memory_client (pika_exn ''ChannelWrongStateError'')"
    by (simp add: is_amqp_def memory_client_def pika_isinstance_def pika_exn_def)
  then obtain e s' where "close_consumer 2 memory_client 0 ?s = Some (Inl e, s')" "isinstance e BrokerConnectionError"
      "aq_connection_is_open memory_client 0 (rq_client s')"
    using rabbitmq_close_leaves_connection [where A = memory_client and s = ?s and c = 0 and ?r1.0 = ?r
        and ?r2.0 = "?r\<lparr>rm_events := [0]\<rparr>" and ?r3.0 = "?r\<lparr>rm_events := [0]\<rparr>" and err = "pika_exn ''ChannelWrongStateError''"]
    by (simp add: memory_client_def while_up_def rabbit_consumer_def rabbit_sample_def rabbit_server_def) blast
  then show ?thesis by (auto simp: memory_client_def)
qed

end
