(* ===== verification/Generic_Actor.thy ===== *)
theory Generic_Actor
  imports Actor
begin

text \<open>
  \<^verbatim>\<open>dramatiq/generic.py\<close>: actors written as classes. Creating a class with the metaclass either makes an
  abstract base class or declares an actor, with what its inner class \<open>Meta\<close> holds as options. \<open>Meta\<close>
  classes are objects shared by inheritance and changed in place, so they live in a store.
\<close>

section \<open>Classes\<close>

datatype gclass = GClass (class_name_of: string) (base_of: "gclass option") (meta_of: "nat option")

text \<open>The attributes of a \<open>Meta\<close> class itself, and the one it inherits from.\<close>

record meta_class =
  mt_attrs :: pydict
  mt_base :: "nat option"

text \<open>\<open>clazz.Meta\<close>: that of the class, or of the nearest base class that has one.\<close>

primrec lookup_meta :: "gclass \<Rightarrow> nat option" where
  "lookup_meta (GClass name base meta) =
     (case meta of Some i \<Rightarrow> Some i
      | None \<Rightarrow> (case map_option lookup_meta base of None \<Rightarrow> None | Some m \<Rightarrow> m))"

text \<open>\<open>getattr(meta, name)\<close>, along the bases of the \<open>Meta\<close> class; each is older, so their number bounds the search.\<close>

fun meta_get :: "nat \<Rightarrow> meta_class list \<Rightarrow> nat \<Rightarrow> string \<Rightarrow> pyval option" where
  "meta_get 0 metas i name = None"
| "meta_get (Suc n) metas i name =
     (case map_of (mt_attrs (metas ! i)) name of
        Some v \<Rightarrow> Some v
      | None \<Rightarrow> (case mt_base (metas ! i) of None \<Rightarrow> None | Some j \<Rightarrow> meta_get n metas j name))"

text \<open>\<open>{name: getattr(meta, name) for name in vars(meta) if not name.startswith("_")}\<close>, without \<open>abstract\<close>.\<close>

definition meta_options :: "meta_class \<Rightarrow> pydict" where
  "meta_options meta = AList.delete ''abstract'' (filter (\<lambda>(name, v). take 1 name \<noteq> ''_'') (mt_attrs meta))"

section \<open>Declaring\<close>

text \<open>
  \<open>actor(fn, **options)\<close> as far as its options are an actor's name, queue and priority and options of the
  broker: the keywords \<open>broker\<close> and \<open>actor_class\<close> are left out.
\<close>

definition call_actor ::
  "('m, ('m, 'q, 'a) broker_scheme) mw_ops \<Rightarrow> (string \<Rightarrow> (('m, 'q, 'a) broker_scheme, unit) proc)
   \<Rightarrow> string \<Rightarrow> pydict \<Rightarrow> (('m, 'q, 'a) broker_scheme, actor) proc" where
  "call_actor M declare_queue fn_name opts s =
     (let rest = AList.delete ''actor_name'' (AList.delete ''queue_name'' (AList.delete ''priority'' opts))
      in case (dget_default opts ''queue_name'' (PStr ''default''), dget_default opts ''priority'' (PInt 0), dget opts ''actor_name'') of
           (PStr queue, PInt prio, PNone) \<Rightarrow> snd (decorator M declare_queue queue prio rest None fn_name s)
         | (PStr queue, PInt prio, PStr name) \<Rightarrow> snd (decorator M declare_queue queue prio rest (Some name) fn_name s)
         | _ \<Rightarrow> (Inl (mk_exn TypeError ''expected string or bytes-like object''), s))"

datatype made = AbstractClass gclass | ActorInstance gclass actor

text \<open>
  \<open>generic_actor.__new__\<close>. \<open>registry\<close> is what an option \<open>actor\<close> stands for; without it, \<open>actor\<close> is called.
  A class without any \<open>Meta\<close> gets a plain \<open>object()\<close>, of which \<open>vars\<close> is a \<open>TypeError\<close>.
\<close>

definition new_class ::
  "('m, ('m, 'q, 'a) broker_scheme) mw_ops \<Rightarrow> (string \<Rightarrow> (('m, 'q, 'a) broker_scheme, unit) proc)
   \<Rightarrow> (pyval \<Rightarrow> string \<Rightarrow> pydict \<Rightarrow> (('m, 'q, 'a) broker_scheme, actor) proc) \<Rightarrow> gclass
   \<Rightarrow> meta_class list \<times> ('m, 'q, 'a) broker_scheme \<Rightarrow> (exn + made) \<times> meta_class list \<times> ('m, 'q, 'a) broker_scheme" where
  "new_class M declare_queue registry clazz = (\<lambda>(metas, s).
     case lookup_meta clazz of
       None \<Rightarrow> (Inl (mk_exn TypeError ''vars() argument must have __dict__ attribute''), metas, s)
     | Some i \<Rightarrow>
         (if \<not> (case meta_get (Suc (length metas)) metas i ''abstract'' of None \<Rightarrow> False | Some v \<Rightarrow> truthy v) then
            (let opts = meta_options (metas ! i);
                 register = (case map_of opts ''actor'' of None \<Rightarrow> call_actor M declare_queue | Some v \<Rightarrow> registry v)
             in case register (class_name_of clazz) (AList.delete ''actor'' opts) s of
                  (Inl e, s) \<Rightarrow> (Inl e, metas, s)
                | (Inr a, s) \<Rightarrow> (Inr (ActorInstance clazz a), metas, s))
          else
            (Inr (AbstractClass clazz),
             metas[i := (metas ! i)\<lparr>mt_attrs := AList.update ''abstract'' (PBool False) (mt_attrs (metas ! i))\<rparr>], s)))"

section \<open>Properties\<close>

lemma options_after_abstract:
  "meta_options (m\<lparr>mt_attrs := AList.update ''abstract'' v (mt_attrs m)\<rparr>) = meta_options m"
proof -
  have "AList.delete ''abstract'' (filter (\<lambda>(name, v). take 1 name \<noteq> ''_'') (AList.update ''abstract'' v d))
      = AList.delete ''abstract'' (filter (\<lambda>(name, v). take 1 name \<noteq> ''_'') d)" for d :: pydict
    by (induction d) (auto simp: AList.delete_eq)
  then show ?thesis by (simp add: meta_options_def)
qed

text \<open>
  An abstract base class is no actor and lends its options: creating it touches no broker, and a class
  derived from it without a \<open>Meta\<close> of its own is declared as an actor of its own name with exactly the
  public options of the base's \<open>Meta\<close>, \<open>abstract\<close> apart.
\<close>

theorem generic_actor_inherits_meta:
  assumes "i < length metas" "map_of (mt_attrs (metas ! i)) ''abstract'' = Some v" "truthy v"
    and "map_of (meta_options (metas ! i)) ''actor'' = None"
  shows "\<exists>metas'. new_class M declare_queue registry (GClass base parent (Some i)) (metas, s) = (Inr (AbstractClass (GClass base parent (Some i))), metas', s)
    \<and> new_class M declare_queue registry (GClass name (Some (GClass base parent (Some i))) None) (metas', s)
      = (case call_actor M declare_queue name (meta_options (metas ! i)) s of
           (Inl e, s') \<Rightarrow> (Inl e, metas', s')
         | (Inr a, s') \<Rightarrow> (Inr (ActorInstance (GClass name (Some (GClass base parent (Some i))) None) a), metas', s'))"
proof -
  let ?m = "(metas ! i)\<lparr>mt_attrs := AList.update ''abstract'' (PBool False) (mt_attrs (metas ! i))\<rparr>"
  have "AList.delete ''actor'' (meta_options (metas ! i)) = meta_options (metas ! i)"
    using assms(4) by (simp add: map_of_eq_None_iff delete_id)
  then show ?thesis
    using assms options_after_abstract [where m = "metas ! i" and v = "PBool False"]
    by (intro exI [of _ "metas[i := ?m]"]) (simp add: new_class_def)
qed

definition task_meta :: meta_class where
  "task_meta = \<lparr>mt_attrs = [(''abstract'', PBool True), (''queue_name'', PStr ''tasks''), (''__module__'', PStr ''app'')], mt_base = None\<rparr>"

theorem generic_actor_inherits_meta_witness:
  "let base = GClass ''BaseTask'' None (Some 0); registry = (\<lambda>_ _ _. raise (mk_exn TypeError []));
       call = new_class sample_mw (\<lambda>q. return ()) registry
   in \<exists>metas r. call base ([task_meta], sample_broker []) = (Inr (AbstractClass base), metas, sample_broker [])
    \<and> call (GClass ''FooTask'' (Some base) None) (metas, sample_broker []) = r
    \<and> map_option ac_queue (map_of (br_actors (snd (snd r))) ''FooTask'') = Some ''tasks''"
proof -
  have o: "meta_options task_meta = [(''queue_name'', PStr ''tasks'')]"
    by (simp add: meta_options_def task_meta_def)
  have c: "queue_name_re ''tasks''" by code_simp
  have a: "map_option ac_queue (map_of (br_actors (snd (call_actor sample_mw (\<lambda>q. return ()) ''FooTask'' (meta_options task_meta) (sample_broker [])))) ''FooTask'')
      = Some ''tasks''"
    by (simp add: o call_actor_def Let_def decorator_def Actor_def declare_actor_def emit_before_def emit_after_def
        sample_broker_def proc_simps c del: queue_name_re.simps)
  show ?thesis
    unfolding Let_def
    using generic_actor_inherits_meta [of 0 "[task_meta]" "PBool True" sample_mw "\<lambda>q. return ()" "\<lambda>_ _ _. raise (mk_exn TypeError [])"
        "''BaseTask''" None "sample_broker []" "''FooTask''"] a o
    by (cases "call_actor sample_mw (\<lambda>q. return ()) ''FooTask'' (meta_options task_meta) (sample_broker [])";
        cases "fst (call_actor sample_mw (\<lambda>q. return ()) ''FooTask'' (meta_options task_meta) (sample_broker []))")
      (auto simp: task_meta_def)
qed

end
