(* ===== verification/Event_Loop.thy ===== *)
theory Event_Loop
  imports Exceptions
begin

text \<open>
  \<^verbatim>\<open>dramatiq/asyncio.py\<close> and \<^verbatim>\<open>dramatiq/middleware/asyncio.py\<close>: a thread that runs an event loop, and the
  way in which a worker thread runs a coroutine on it and waits for the outcome. The event loop and its
  futures are those of Python; what happens in the loop and which exceptions are raised asynchronously in the
  waiting thread is a schedule, one element for each point at which the waiting thread looks.
\<close>

section \<open>A coroutine on the loop\<close>

text \<open>\<open>wrapped_coro\<close>: it has not begun, it is in its \<open>try\<close>, or it has ended.\<close>

datatype 'r task = Waiting | Started | Ended "exn + 'r"

text \<open>
  What happens: the loop begins to run the task; the coroutine ends; the loop takes up the request to cancel;
  an exception is raised in the waiting thread.
\<close>

datatype 'r loop_event = Starts | Ends "exn + 'r" | Cancels | Raised exn

record 'r coroutine_run =
  cr_task :: "'r task"
  cr_future :: "(exn + 'r) option"
  cr_done :: bool
  cr_requested :: bool
  cr_cancelled :: bool
  cr_looks :: "'r loop_event list list"

text \<open>
  A task that is cancelled before its first step never enters the \<open>try\<close>, so that its \<open>finally\<close>, which sets
  \<open>done\<close>, is not run. A future that is cancelled takes no result any more.
\<close>

fun loop_step :: "'r loop_event \<Rightarrow> 'r coroutine_run \<Rightarrow> 'r coroutine_run" where
  "loop_step Starts s =
     (if cr_task s = Waiting
      then s\<lparr>cr_task := (if cr_cancelled s then Ended (Inl (mk_exn BaseException ''CancelledError'')) else Started)\<rparr>
      else s)"
| "loop_step (Ends r) s =
     (if cr_task s = Started
      then s\<lparr>cr_task := Ended r, cr_done := True, cr_future := (if cr_cancelled s then cr_future s else Some r)\<rparr>
      else s)"
| "loop_step Cancels s = (if cr_requested s \<and> cr_future s = None then s\<lparr>cr_cancelled := True\<rparr> else s)"
| "loop_step (Raised e) s = s"

text \<open>What happens until an exception is raised in the waiting thread; the rest happens later.\<close>

fun loop_run :: "'r loop_event list \<Rightarrow> 'r coroutine_run \<Rightarrow> exn option \<times> 'r loop_event list \<times> 'r coroutine_run" where
  "loop_run [] s = (None, [], s)"
| "loop_run (Raised e # es) s = (Some e, es, s)"
| "loop_run (ev # es) s = loop_run es (loop_step ev s)"

definition look :: "('r coroutine_run, unit) proc" where
  "look s =
     (case cr_looks s of
        [] \<Rightarrow> (Inr (), s)
      | es # rest \<Rightarrow>
          (case loop_run es (s\<lparr>cr_looks := rest\<rparr>) of
             (None, _, s) \<Rightarrow> (Inr (), s)
           | (Some e, es, s) \<Rightarrow> (Inl e, s\<lparr>cr_looks := es # rest\<rparr>)))"

section \<open>Waiting for the outcome\<close>

text \<open>\<open>future.result(timeout)\<close> and \<open>future.done()\<close>.\<close>

definition future_result :: "('r coroutine_run, 'r) proc" where
  "future_result =
     andthen look (\<lambda>_.
     andthen (get_state cr_future) (\<lambda>f.
       case f of None \<Rightarrow> raise (mk_exn TimeoutError []) | Some (Inl e) \<Rightarrow> raise e | Some (Inr x) \<Rightarrow> return x))"

definition future_done :: "('r coroutine_run, bool) proc" where
  "future_done = andthen look (\<lambda>_. get_state (\<lambda>s. cr_future s \<noteq> None))"

text \<open>The \<open>while\<close> loop; \<^const>\<open>None\<close> is out of fuel.\<close>

fun wait_future :: "nat \<Rightarrow> 'r coroutine_run \<Rightarrow> ((exn + 'r) \<times> 'r coroutine_run) option" where
  "wait_future 0 s = None"
| "wait_future (Suc fuel) s =
     (case future_result s of
        (Inr x, s) \<Rightarrow> Some (Inr x, s)
      | (Inl e, s) \<Rightarrow>
          (if isinstance e TimeoutError then
             (case future_done s of
                (Inl e, s) \<Rightarrow> Some (Inl e, s)
              | (Inr finished, s) \<Rightarrow> if finished then Some (future_result s) else wait_future fuel s)
           else Some (Inl e, s)))"

text \<open>The handler of an \<open>Interrupt\<close>: cancel, and wait a second for the coroutine to clean up.\<close>

definition cancel_and_wait :: "exn \<Rightarrow> ('r coroutine_run, 'r) proc" where
  "cancel_and_wait e =
     andthen (modify (\<lambda>s. s\<lparr>cr_requested := True\<rparr>)) (\<lambda>_.
     andthen look (\<lambda>_.
     andthen (get_state cr_done) (\<lambda>finished.
       if \<not> finished then raise (mk_exn RuntimeError ''Timed out while waiting for coroutine.'') else raise e)))"

definition run_coroutine :: "nat \<Rightarrow> bool \<Rightarrow> 'r coroutine_run \<Rightarrow> ((exn + 'r) \<times> 'r coroutine_run) option" where
  "run_coroutine fuel is_running s =
     (if \<not> is_running then Some (raise (mk_exn RuntimeError ''Event loop is not running.'') s)
      else
        map_option
          (\<lambda>(r, s). case r of
               Inl e \<Rightarrow> if isinstance e Interrupt then cancel_and_wait e s else (Inl e, s)
             | Inr x \<Rightarrow> (Inr x, s))
          (wait_future fuel s))"

definition new_run :: "'r loop_event list list \<Rightarrow> 'r coroutine_run" where
  "new_run looks = \<lparr>cr_task = Waiting, cr_future = None, cr_done = False, cr_requested = False, cr_cancelled = False, cr_looks = looks\<rparr>"

section \<open>The thread and its middleware\<close>

text \<open>An event loop thread: whether its loop runs, and whether it has been closed.\<close>

record loop_thread =
  lt_running :: bool
  lt_closed :: bool

record async_state =
  as_threads :: "loop_thread list"
  as_global :: "nat option"

definition get_event_loop_thread :: "(async_state, nat option) proc" where
  "get_event_loop_thread = get_state as_global"

definition set_event_loop_thread :: "nat option \<Rightarrow> (async_state, unit) proc" where
  "set_event_loop_thread t = modify (\<lambda>s. s\<lparr>as_global := t\<rparr>)"

text \<open>
  \<open>EventLoopThread(...)\<close> and its \<open>start\<close>: the thread runs; \<open>ready\<close> says whether it got to set the event before
  the timeout.
\<close>

definition start_loop :: "bool \<Rightarrow> (async_state, nat) proc" where
  "start_loop ready =
     andthen (get_state (length \<circ> as_threads)) (\<lambda>i.
     andthen (modify (\<lambda>s. s\<lparr>as_threads := as_threads s @ [\<lparr>lt_running = True, lt_closed = False\<rparr>]\<rparr>)) (\<lambda>_.
       if \<not> ready then raise (mk_exn RuntimeError ''Event loop failed to start.'') else return i))"

definition stop_loop :: "nat \<Rightarrow> (async_state, unit) proc" where
  "stop_loop i =
     modify (\<lambda>s. if lt_running (as_threads s ! i)
                then s\<lparr>as_threads := (as_threads s)[i := \<lparr>lt_running = False, lt_closed = True\<rparr>]\<rparr> else s)"

definition async_to_sync :: "nat \<Rightarrow> async_state \<Rightarrow> 'r coroutine_run \<Rightarrow> ((exn + 'r) \<times> 'r coroutine_run) option" where
  "async_to_sync fuel a s =
     (case as_global a of
        None \<Rightarrow> Some (raise (mk_exn RuntimeError ''Global event loop thread not set.'') s)
      | Some i \<Rightarrow> run_coroutine fuel (lt_running (as_threads a ! i)) s)"

definition AsyncIO_before_worker_boot :: "bool \<Rightarrow> (async_state, unit) proc" where
  "AsyncIO_before_worker_boot ready = andthen (start_loop ready) (\<lambda>i. set_event_loop_thread (Some i))"

definition AsyncIO_after_worker_shutdown :: "(async_state, unit) proc" where
  "AsyncIO_after_worker_shutdown =
     andthen get_event_loop_thread (\<lambda>t.
       case t of
         None \<Rightarrow> raise (mk_exn AttributeError ''stop'')
       | Some i \<Rightarrow> andthen (stop_loop i) (\<lambda>_. set_event_loop_thread None))"

section \<open>What a look can do\<close>

text \<open>A result is the coroutine's own, and a coroutine with a result has run its \<open>finally\<close>.\<close>

definition run_wf :: "'r coroutine_run \<Rightarrow> bool" where
  "run_wf s = (\<forall>r. cr_future s = Some r \<longrightarrow> cr_task s = Ended r \<and> cr_done s)"

definition raised_in :: "'r loop_event list \<Rightarrow> exn list" where
  "raised_in es = concat (map (\<lambda>ev. case ev of Raised e \<Rightarrow> [e] | _ \<Rightarrow> []) es)"

definition to_raise :: "'r coroutine_run \<Rightarrow> exn list" where
  "to_raise s = raised_in (concat (cr_looks s))"

definition advances :: "'r coroutine_run \<Rightarrow> 'r coroutine_run \<Rightarrow> bool" where
  "advances s t = ((run_wf s \<longrightarrow> run_wf t) \<and> (cr_done s \<longrightarrow> cr_done t) \<and> (cr_future s \<noteq> None \<longrightarrow> cr_future t = cr_future s)
     \<and> length (cr_looks t) \<le> length (cr_looks s))"

lemma advances_refl [simp]: "advances s s"
  by (simp add: advances_def)

lemma advances_trans: "advances s t \<Longrightarrow> advances t u \<Longrightarrow> advances s u"
  by (auto simp: advances_def)

lemma raised_in_simps [simp]:
  "raised_in [] = []" "raised_in (Raised e # es) = e # raised_in es" "raised_in (Starts # es) = raised_in es"
  "raised_in (Ends r # es) = raised_in es" "raised_in (Cancels # es) = raised_in es" "raised_in (es @ fs) = raised_in es @ raised_in fs"
  by (simp_all add: raised_in_def)

lemma step_advances: "run_wf s \<Longrightarrow> run_wf (loop_step ev s)" "cr_done s \<Longrightarrow> cr_done (loop_step ev s)"
  "run_wf s \<Longrightarrow> cr_future s = Some r \<Longrightarrow> cr_future (loop_step ev s) = Some r" "cr_looks (loop_step ev s) = cr_looks s"
  by (cases ev; auto simp: run_wf_def)+

lemma loop_run_advances:
  "run_wf s \<Longrightarrow> loop_run es s = (x, fs, t) \<Longrightarrow>
     run_wf t \<and> (cr_done s \<longrightarrow> cr_done t) \<and> (cr_future s \<noteq> None \<longrightarrow> cr_future t = cr_future s) \<and> cr_looks t = cr_looks s
     \<and> raised_in es = (case x of None \<Rightarrow> [] | Some e \<Rightarrow> e # raised_in fs) \<and> (x = None \<longrightarrow> fs = [])"
proof (induction es arbitrary: s)
  case (Cons ev es)
  show ?case
  proof (cases "\<exists>e. ev = Raised e")
    case True
    then show ?thesis using Cons.prems by auto
  next
    case False
    then have "loop_run es (loop_step ev s) = (x, fs, t)" and r: "raised_in (ev # es) = raised_in es"
      using Cons.prems(2) by (cases ev; simp)+
    then show ?thesis
      using Cons.IH [of "loop_step ev s"] step_advances [where ev = ev and s = s] Cons.prems(1) by auto
  qed
qed simp

lemma look_advances:
  assumes "run_wf s" "look s = (x, t)"
  shows "run_wf t" "cr_done s \<Longrightarrow> cr_done t" "cr_future s \<noteq> None \<Longrightarrow> cr_future t = cr_future s"
    "length (cr_looks t) \<le> length (cr_looks s)"
    "case x of Inl e \<Rightarrow> to_raise s = e # to_raise t | Inr _ \<Rightarrow> to_raise t = to_raise s \<and> cr_looks t = tl (cr_looks s)"
proof -
  have "run_wf t \<and> (cr_done s \<longrightarrow> cr_done t) \<and> (cr_future s \<noteq> None \<longrightarrow> cr_future t = cr_future s)
    \<and> length (cr_looks t) \<le> length (cr_looks s)
    \<and> (case x of Inl e \<Rightarrow> to_raise s = e # to_raise t | Inr _ \<Rightarrow> to_raise t = to_raise s \<and> cr_looks t = tl (cr_looks s))"
  proof (cases "cr_looks s")
    case Nil
    then show ?thesis using assms by (auto simp: look_def)
  next
    case (Cons es rest)
    let ?s = "s\<lparr>cr_looks := rest\<rparr>"
    obtain y fs u where l: "loop_run es ?s = (y, fs, u)" by (cases "loop_run es ?s")
    have "run_wf ?s" using assms(1) by (simp add: run_wf_def)
    from loop_run_advances [OF this l] show ?thesis
      using assms(2) Cons l by (cases y) (auto simp: look_def to_raise_def run_wf_def)
  qed
  then show "run_wf t" "cr_done s \<Longrightarrow> cr_done t" "cr_future s \<noteq> None \<Longrightarrow> cr_future t = cr_future s"
    "length (cr_looks t) \<le> length (cr_looks s)"
    "case x of Inl e \<Rightarrow> to_raise s = e # to_raise t | Inr _ \<Rightarrow> to_raise t = to_raise s \<and> cr_looks t = tl (cr_looks s)"
    by auto
qed

text \<open>What \<open>future.result\<close> gives: an exception that was raised meanwhile, a timeout, or the outcome.\<close>

lemma future_result_cases:
  assumes "run_wf s" "future_result s = (r, t)"
  shows "run_wf t \<and> (cr_done s \<longrightarrow> cr_done t) \<and>
    ((\<exists>e. r = Inl e \<and> to_raise s = e # to_raise t) \<or>
     (to_raise t = to_raise s \<and> cr_looks t = tl (cr_looks s)
      \<and> (cr_future t = Some r \<or> cr_future s = None \<and> cr_future t = None \<and> r = Inl (mk_exn TimeoutError []))))"
proof -
  obtain x u where l: "look s = (x, u)" by (cases "look s")
  show ?thesis
  proof (cases x)
    case (Inl e)
    then show ?thesis using look_advances [OF assms(1) l] assms(2) l by (auto simp: future_result_def andthen_def)
  next
    case (Inr y)
    then have "r = (case cr_future u of None \<Rightarrow> Inl (mk_exn TimeoutError []) | Some r \<Rightarrow> r)" "t = u"
      using assms(2) l by (auto simp: future_result_def andthen_def get_state_def raise_def return_def split: option.splits sum.splits)
    then show ?thesis
      using look_advances [OF assms(1) l] Inr by (cases "cr_future u"; cases "cr_future s") auto
  qed
qed

text \<open>So the loop ends with the outcome of the coroutine or with what was raised in the thread.\<close>

lemma wait_future_cases:
  assumes "run_wf s" "wait_future fuel s = Some (r, t)" "\<forall>e \<in> set (to_raise s). \<not> isinstance e TimeoutError"
  shows "run_wf t \<and> (cr_done s \<longrightarrow> cr_done t)
    \<and> (cr_future t = Some r \<and> to_raise t = to_raise s \<or> (\<exists>e. r = Inl e \<and> to_raise s = e # to_raise t))"
  using assms
proof (induction fuel arbitrary: s)
  case (Suc fuel)
  obtain x u where f: "future_result s = (x, u)" by (cases "future_result s")
  note c = future_result_cases [OF Suc.prems(1) f]
  show ?case
  proof (cases "\<exists>e. x = Inl e \<and> isinstance e TimeoutError")
    case False
    then have "(r, t) = (x, u)" using Suc.prems(2) f by (cases x) auto
    then show ?thesis using c False by (auto simp: issubclass_code)
  next
    case True
    then obtain e where e: "x = Inl e" "isinstance e TimeoutError" by blast
    then have nr: "to_raise u = to_raise s" using c Suc.prems(3) by auto
    have u: "run_wf u" using c by blast
    obtain y v where l: "look u = (y, v)" by (cases "look u")
    note a = look_advances [OF u l]
    show ?thesis
    proof (cases y)
      case (Inl e')
      then have "(r, t) = (Inl e', v)" using Suc.prems(2) f e l by (simp add: future_done_def andthen_def)
      then show ?thesis using a Inl nr c by auto
    next
      case (Inr z)
      then have d: "future_done u = (Inr (cr_future v \<noteq> None), v)" using l by (simp add: future_done_def andthen_def get_state_def)
      have nv: "to_raise v = to_raise s" using a(5) Inr nr by simp
      show ?thesis
      proof (cases "cr_future v = None")
        case True
        then have "wait_future fuel v = Some (r, t)" using Suc.prems(2) f e d by simp
        then show ?thesis using Suc.IH [OF a(1)] Suc.prems(3) nv a c by auto
      next
        case False
        then have "future_result v = (r, t)" using Suc.prems(2) f e d by simp
        then show ?thesis using future_result_cases [OF a(1)] False nv a c by auto
      qed
    qed
  qed
qed simp

section \<open>Properties\<close>

lemma Interrupt_not_TimeoutError: "isinstance e Interrupt \<Longrightarrow> \<not> isinstance e TimeoutError"
  using isinstance_mono [of e TimeoutError Exception] Interrupt_not_Exception
  by (auto simp: less_eq_exn_class_def issubclass_code)

lemma new_run_wf [simp]: "run_wf (new_run looks)"
  by (simp add: run_wf_def new_run_def)

lemma new_run_raise [simp]: "to_raise (new_run looks) = raised_in (concat looks)"
  by (simp add: to_raise_def new_run_def)

lemma requested_wf: "run_wf s \<Longrightarrow> run_wf (s\<lparr>cr_requested := True\<rparr>) \<and> to_raise (s\<lparr>cr_requested := True\<rparr>) = to_raise s"
  by (simp add: run_wf_def to_raise_def)

text \<open>
  What becomes of a coroutine that nobody cancels: what it ends with after it has begun.
\<close>

fun fate :: "'r task \<Rightarrow> 'r loop_event list \<Rightarrow> (exn + 'r) option" where
  "fate (Ended r) es = Some r"
| "fate Started (Ends r # es) = Some r"
| "fate Waiting (Starts # es) = fate Started es"
| "fate task (ev # es) = fate task es"
| "fate task [] = None"

definition heading :: "(exn + 'r) \<Rightarrow> 'r loop_event list \<Rightarrow> 'r coroutine_run \<Rightarrow> bool" where
  "heading x es s =
     (run_wf s \<and> (cr_future s = Some x \<or>
        cr_future s = None \<and> \<not> cr_cancelled s \<and> \<not> cr_requested s \<and> (\<forall>r. cr_task s \<noteq> Ended r) \<and> fate (cr_task s) es = Some x))"

lemma heading_step:
  assumes "heading x (ev # es) s" "\<nexists>e. ev = Raised e"
  shows "heading x es (loop_step ev s)"
  using assms by (cases ev; cases "cr_task s") (auto simp: heading_def run_wf_def)

lemma loop_run_heading:
  "heading x (es @ fs) s \<Longrightarrow> raised_in es = [] \<Longrightarrow> \<exists>t. loop_run es s = (None, [], t) \<and> heading x fs t"
proof (induction es arbitrary: s)
  case (Cons ev es)
  have nr: "\<nexists>e. ev = Raised e" "raised_in es = []" using Cons.prems(2) by (cases ev; auto)+
  then obtain t where t: "loop_run es (loop_step ev s) = (None, [], t)" "heading x fs t"
    using Cons.IH [of "loop_step ev s"] heading_step [of x ev "es @ fs" s] Cons.prems(1) by auto
  moreover have "loop_run (ev # es) s = (None, [], t)" using t(1) nr(1) by (cases ev) auto
  ultimately show ?case by blast
qed simp

lemma look_heading:
  assumes "heading x (concat (cr_looks s)) s" "to_raise s = []"
  obtains t where "look s = (Inr (), t)" "heading x (concat (cr_looks t)) t" "to_raise t = []" "cr_looks t = tl (cr_looks s)"
    "cr_future s \<noteq> None \<longrightarrow> cr_future t = cr_future s"
proof (cases "cr_looks s")
  case Nil
  then show thesis using that [of s] assms by (simp add: look_def)
next
  case (Cons es rest)
  let ?s = "s\<lparr>cr_looks := rest\<rparr>"
  have "heading x (es @ concat rest) ?s" "raised_in es = []" and wf: "run_wf s"
    using assms Cons by (auto simp: heading_def run_wf_def to_raise_def)
  then obtain t where t: "loop_run es ?s = (None, [], t)" "heading x (concat rest) t"
    using loop_run_heading by blast
  have l: "look s = (Inr (), t)" using Cons t(1) by (simp add: look_def)
  note a = look_advances [OF wf l]
  show thesis using that [OF l] a(3,5) assms(2) Cons t(2) by simp
qed

lemma wait_future_ends:
  assumes "heading x (concat (cr_looks s)) s" "to_raise s = []" "length (cr_looks s) < fuel"
  shows "\<exists>t. wait_future fuel s = Some (x, t)"
  using assms
proof (induction fuel arbitrary: s)
  case (Suc fuel)
  obtain t where t: "look s = (Inr (), t)" "heading x (concat (cr_looks t)) t" "to_raise t = []" "cr_looks t = tl (cr_looks s)"
    by (rule look_heading [OF Suc.prems(1,2)])
  obtain u where u: "look t = (Inr (), u)" "heading x (concat (cr_looks u)) u" "to_raise u = []" "cr_looks u = tl (cr_looks t)"
      "cr_future t \<noteq> None \<longrightarrow> cr_future u = cr_future t"
    by (rule look_heading [OF t(2,3)])
  obtain v where v: "look u = (Inr (), v)" "heading x (concat (cr_looks v)) v" "to_raise v = []" "cr_looks v = tl (cr_looks u)"
      "cr_future u \<noteq> None \<longrightarrow> cr_future v = cr_future u"
    by (rule look_heading [OF u(2,3)])
  have d: "future_done t = (Inr (cr_future u \<noteq> None), u)" using u(1) by (simp add: future_done_def andthen_def get_state_def)
  have got: "future_result a = (x, b)" if "look a = (Inr (), b)" "cr_future b = Some x" for a b
    using that by (cases x) (simp_all add: future_result_def andthen_def get_state_def raise_def return_def)
  have x: "cr_future b = Some x" if "heading x es b" "cr_future b \<noteq> None" for es b using that by (auto simp: heading_def)
  show ?case
  proof (cases "cr_future t = None")
    case True
    then have f: "future_result s = (Inl (mk_exn TimeoutError []), t)"
      using t(1) by (simp add: future_result_def andthen_def get_state_def raise_def)
    show ?thesis
    proof (cases "cr_future u = None")
      case none: True
      have "cr_looks s \<noteq> []" using t(2,4) True by (cases "cr_task t"; cases "cr_looks s") (auto simp: heading_def)
      then have "length (cr_looks u) < fuel" using u(4) t(4) Suc.prems(3) by (cases "cr_looks s") auto
      then show ?thesis using Suc.IH [OF u(2,3)] f d none by (simp add: issubclass_code)
    next
      case False
      with v(5) x [OF v(2)] have "future_result u = (x, v)" using got [OF v(1)] by simp
      then show ?thesis using f d False by (simp add: issubclass_code)
    qed
  next
    case False
    then have "cr_future t = Some x" "cr_future u = Some x" "cr_future v = Some x" using x [OF t(2)] u(5) v(5) by auto
    then show ?thesis using got [OF t(1)] got [OF v(1)] d by (cases x) auto
  qed
qed simp

lemma waited_outcome:
  assumes "wait_future fuel (new_run looks) = Some (x, u)" "raised_in (concat looks) = []"
  shows "\<exists>t. run_coroutine fuel True (new_run looks) = Some (x, t) \<and> cr_task t = Ended x \<and> cr_done t"
proof -
  have u: "run_wf u" "cr_future u = Some x" "to_raise u = []"
    using wait_future_cases [OF new_run_wf assms(1)] assms(2) by auto
  show ?thesis
  proof (cases "\<exists>e. x = Inl e \<and> isinstance e Interrupt")
    case False
    then have "run_coroutine fuel True (new_run looks) = Some (x, u)" using assms(1) by (cases x) (auto simp: run_coroutine_def)
    then show ?thesis using u by (simp add: run_wf_def)
  next
    case True
    then obtain e where e: "x = Inl e" "isinstance e Interrupt" by blast
    then have c: "run_coroutine fuel True (new_run looks) = Some (cancel_and_wait e u)" using assms(1) by (simp add: run_coroutine_def)
    let ?u = "u\<lparr>cr_requested := True\<rparr>"
    obtain y v where l: "look ?u = (y, v)" by (cases "look ?u")
    note a = look_advances [OF conjunct1 [OF requested_wf [OF u(1)]] l]
    have v: "cr_future v = Some x" "cr_done v" using a(2,3) u by (auto simp: run_wf_def)
    have "\<exists>z. y = Inr z" using a(5) requested_wf [OF u(1)] u(3) by (cases y) auto
    then have "cancel_and_wait e u = (Inl e, v)"
      using l v(2) by (auto simp: cancel_and_wait_def andthen_def modify_def get_state_def raise_def)
    then show ?thesis using c v a(1) e by (simp add: run_wf_def)
  qed
qed

text \<open>
  C22. What a coroutine does is what the actor gets. If no exception is raised in the waiting thread, and the
  event loop begins to run the coroutine, which then ends with \<open>x\<close>, a value or any exception, then the call
  comes to an end, after at most as many rounds as it looks, and returns or raises just \<open>x\<close>, after the coroutine
  has ended. So a \<open>TimeoutError\<close> of the coroutine itself is raised and not taken for a wait that has timed out,
  nor the other way round.
\<close>

theorem coroutine_outcome:
  assumes "raised_in (concat looks) = []" and "concat looks = before @ Starts # under_way @ Ends x # later"
    and "Starts \<notin> set before" and "\<forall>r. Ends r \<notin> set under_way" and "length looks < fuel"
  shows "\<exists>t. run_coroutine fuel True (new_run looks) = Some (x, t) \<and> cr_task t = Ended x \<and> cr_done t"
proof -
  have started: "fate Started (es @ Ends x # later) = Some x" if "\<forall>r. Ends r \<notin> set es" for es
    using that
  proof (induction es)
    case (Cons ev es)
    then show ?case by (cases ev) auto
  qed simp
  have "fate Waiting (es @ Starts # under_way @ Ends x # later) = Some x" if "Starts \<notin> set es" for es
    using that
  proof (induction es)
    case Nil
    show ?case using started [OF assms(4)] by simp
  next
    case (Cons ev es)
    then show ?case by (cases ev) auto
  qed
  with assms have "heading x (concat (cr_looks (new_run looks))) (new_run looks)"
    by (simp add: heading_def) (simp add: new_run_def)
  from wait_future_ends [OF this, of fuel] assms(1,5) obtain t where "wait_future fuel (new_run looks) = Some (x, t)"
    by (auto simp: new_run_def to_raise_def)
  from waited_outcome [OF this assms(1)] show ?thesis .
qed

theorem coroutine_outcome_witness:
  "\<exists>t. run_coroutine 4 True (new_run [[Starts], [], [Cancels, Ends (Inl (mk_exn TimeoutError ''mine''))]])
     = Some (Inl (mk_exn TimeoutError ''mine'') :: exn + int, t)"
  using coroutine_outcome [of "[[Starts], [], [Cancels, Ends (Inl (mk_exn TimeoutError ''mine''))]]" "[]" "[Cancels]"
      "Inl (mk_exn TimeoutError ''mine'') :: exn + int" "[]" 4] by auto

text \<open>
  C23. An interrupted actor does not leave its coroutine running unnoticed: when at most one exception is raised
  in the waiting thread, an \<open>Interrupt\<close>, the call ends only after the \<open>finally\<close> of the coroutine has been
  run, or it raises \<open>RuntimeError\<close>.
\<close>

theorem interrupt_waits_for_cleanup:
  assumes "run_coroutine fuel True (new_run looks) = Some (r, t)" "raised_in (concat looks) = [e]" "isinstance e Interrupt"
  shows "cr_done t \<or> r = Inl (mk_exn RuntimeError ''Timed out while waiting for coroutine.'')"
proof -
  obtain x u where w: "wait_future fuel (new_run looks) = Some (x, u)"
    using assms(1) by (auto simp: run_coroutine_def)
  have u: "run_wf u" "cr_future u = Some x \<or> x = Inl e \<and> to_raise u = []"
    using wait_future_cases [OF new_run_wf w] assms(2,3) Interrupt_not_TimeoutError by auto
  show ?thesis
  proof (cases "\<exists>e. x = Inl e \<and> isinstance e Interrupt")
    case False
    then have "(r, t) = (x, u)" using assms(1) w by (cases x) (auto simp: run_coroutine_def)
    then show ?thesis using u False assms(3) by (auto simp: run_wf_def)
  next
    case True
    then obtain e' where e: "x = Inl e'" "isinstance e' Interrupt" by blast
    then have c: "cancel_and_wait e' u = (r, t)" using assms(1) w by (simp add: run_coroutine_def)
    let ?u = "u\<lparr>cr_requested := True\<rparr>"
    obtain y v where l: "look ?u = (y, v)" by (cases "look ?u")
    note a = look_advances [OF conjunct1 [OF requested_wf [OF u(1)]] l]
    show ?thesis
    proof (cases y)
      case (Inl e'')
      then have "t = v" "to_raise u \<noteq> []"
        using c l a(5) requested_wf [OF u(1)] by (auto simp: cancel_and_wait_def andthen_def modify_def)
      then show ?thesis using u a(2) by (auto simp: run_wf_def)
    next
      case (Inr z)
      then show ?thesis
        using c l by (auto simp: cancel_and_wait_def andthen_def modify_def get_state_def raise_def split: if_splits)
    qed
  qed
qed

text \<open>
  An \<open>Interrupt\<close> that comes before the loop has begun to run the coroutine is lost: the task is cancelled
  without entering the \<open>try\<close> whose \<open>finally\<close> sets \<open>done\<close>, so that the actor gets a \<open>RuntimeError\<close>, which
  is retried like any other, in place of the interrupt.
\<close>

theorem interrupt_before_start_lost:
  assumes "isinstance e Interrupt"
  shows "\<exists>t. run_coroutine (Suc fuel) True (new_run [[Raised e, Cancels, Starts]])
      = Some (Inl (mk_exn RuntimeError ''Timed out while waiting for coroutine.''), t)
    \<and> cr_task t = Ended (Inl (mk_exn BaseException ''CancelledError'')) \<and> \<not> cr_done t"
  using assms Interrupt_not_TimeoutError [OF assms]
  by (simp add: run_coroutine_def new_run_def future_result_def look_def andthen_def get_state_def raise_def modify_def cancel_and_wait_def)

section \<open>Boot and shutdown\<close>

text \<open>
  The event loop lives as long as the worker: after a boot and a shutdown no loop is running that was not
  before, and no thread is set; in between coroutines find it. When the loop is not ready in time, though,
  its thread is running and is nobody's: the shutdown raises \<open>AttributeError\<close> and does not stop it.
\<close>

theorem event_loop_lifetime:
  assumes "as_global a = None"
  shows "(\<exists>b. AsyncIO_before_worker_boot True a = (Inr (), b) \<and> async_to_sync fuel b s = run_coroutine fuel True s
      \<and> AsyncIO_after_worker_shutdown b = (Inr (), \<lparr>as_threads = as_threads a @ [\<lparr>lt_running = False, lt_closed = True\<rparr>], as_global = None\<rparr>))
    \<and> (\<exists>b e f. AsyncIO_before_worker_boot False a = (Inl e, b) \<and> AsyncIO_after_worker_shutdown b = (Inl f, b)
      \<and> isinstance f AttributeError \<and> lt_running (last (as_threads b)))"
  using assms
  by (simp_all add: AsyncIO_before_worker_boot_def AsyncIO_after_worker_shutdown_def start_loop_def stop_loop_def async_to_sync_def
      get_event_loop_thread_def set_event_loop_thread_def andthen_def get_state_def modify_def return_def raise_def issubclass_code)

section \<open>Small runs\<close>

definition ten :: "exn + int" where "ten = Inr 10"

lemma ten_outcome:
  "run_coroutine 3 True (new_run [[Starts], [], [Ends ten]])
     = Some (ten, (new_run [])\<lparr>cr_task := Ended ten, cr_future := Some ten, cr_done := True\<rparr>)"
  by (simp add: run_coroutine_def new_run_def future_result_def future_done_def look_def andthen_def get_state_def raise_def
      return_def eval_nat_numeral issubclass_code ten_def)

theorem interrupt_waits_for_cleanup_witness:
  "\<exists>r t. run_coroutine 1 True (new_run [[Starts, Raised (mk_exn Shutdown []), Cancels, Ends ten]]) = Some (r, t) \<and> cr_done t
     \<and> r = Inl (mk_exn Shutdown [])"
proof -
  have r: "run_coroutine 1 True (new_run [[Starts, Raised (mk_exn Shutdown []), Cancels, Ends ten]])
      = Some (Inl (mk_exn Shutdown []),
          (new_run [])\<lparr>cr_task := Ended ten, cr_done := True, cr_requested := True, cr_cancelled := True\<rparr>)"
    by (simp add: run_coroutine_def new_run_def future_result_def look_def andthen_def get_state_def raise_def
        modify_def cancel_and_wait_def issubclass_code ten_def)
  have "mk_exn Shutdown [] \<noteq> mk_exn RuntimeError ''Timed out while waiting for coroutine.''" by (simp add: mk_exn_def)
  then show ?thesis using interrupt_waits_for_cleanup [OF r, of "mk_exn Shutdown []"] r by (simp add: issubclass_code)
qed

theorem interrupt_before_start_lost_witness:
  "\<exists>t :: int coroutine_run. run_coroutine 1 True (new_run [[Raised (mk_exn TimeLimitExceeded []), Cancels, Starts]])
      = Some (Inl (mk_exn RuntimeError ''Timed out while waiting for coroutine.''), t) \<and> \<not> cr_done t"
  using interrupt_before_start_lost [of "mk_exn TimeLimitExceeded []" 0] by (auto simp: issubclass_code)

theorem event_loop_lifetime_witness:
  "\<exists>b. AsyncIO_before_worker_boot True \<lparr>as_threads = [], as_global = None\<rparr> = (Inr (), b) \<and> as_global b = Some 0
     \<and> async_to_sync 1 b (new_run [] :: int coroutine_run) = run_coroutine 1 True (new_run [])"
proof -
  have "AsyncIO_before_worker_boot True \<lparr>as_threads = [], as_global = None\<rparr>
      = (Inr (), \<lparr>as_threads = [\<lparr>lt_running = True, lt_closed = False\<rparr>], as_global = Some 0\<rparr>)"
    by (simp add: AsyncIO_before_worker_boot_def start_loop_def set_event_loop_thread_def andthen_def get_state_def modify_def return_def)
  then show ?thesis
    using event_loop_lifetime [of "\<lparr>as_threads = [], as_global = None\<rparr>" 1 "new_run [] :: int coroutine_run"] by auto
qed

end
