(* ===== verification/Canteen.thy ===== *)
theory Canteen
  imports Exceptions
begin

text \<open>
  \<^verbatim>\<open>dramatiq/canteen.py\<close>: the shared buffer in which the first worker process that boots leaves the
  paths of the functions to be forked for the main process. Strings consist of the characters up to
  U+00FF, of which those from U+0080 on take two bytes in UTF-8.
\<close>

section \<open>UTF-8\<close>

definition utf8_char :: "char \<Rightarrow> string" where
  "utf8_char c =
     (let n = of_char c :: nat in if n < 128 then [c] else [char_of (192 + n div 64), char_of (128 + n mod 64)])"

definition utf8 :: "string \<Rightarrow> string" where
  "utf8 s = concat (map utf8_char s)"

text \<open>\<open>decode("utf-8")\<close>; \<^const>\<open>None\<close> when it fails.\<close>

fun utf8_decode :: "string \<Rightarrow> string option" where
  "utf8_decode [] = Some []"
| "utf8_decode (b # bs) =
     (let n = of_char b :: nat
      in if n < 128 then map_option (Cons b) (utf8_decode bs)
         else
           (case bs of
              [] \<Rightarrow> None
            | b' # bs' \<Rightarrow>
                (let k = of_char b' :: nat
                 in if (n = 194 \<or> n = 195) \<and> 128 \<le> k \<and> k < 192
                    then map_option (Cons (char_of ((n - 192) * 64 + (k - 128)))) (utf8_decode bs')
                    else None)))"

definition ascii :: "string \<Rightarrow> bool" where
  "ascii s = (\<forall>c \<in> set s. (of_char c :: nat) < 128)"

lemma utf8_ascii: "ascii s \<Longrightarrow> utf8 s = s"
  by (induction s) (simp_all add: ascii_def utf8_def utf8_char_def Let_def)

lemma utf8_longer: "\<not> ascii s \<Longrightarrow> length s < length (utf8 s)"
proof -
  have le: "length t \<le> length (utf8 t)" for t
    by (induction t) (simp_all add: utf8_def utf8_char_def Let_def)
  show "\<not> ascii s \<Longrightarrow> length s < length (utf8 s)"
  proof (induction s)
    case (Cons c s)
    show ?case
    proof (cases "ascii s")
      case True
      with Cons.prems le [of s] show ?thesis by (simp add: ascii_def utf8_def utf8_char_def Let_def)
    next
      case False
      with Cons.IH show ?thesis by (simp add: utf8_def utf8_char_def Let_def)
    qed
  qed (simp add: ascii_def)
qed

lemma utf8_decode_char: "utf8_decode (utf8_char c @ s) = map_option (Cons c) (utf8_decode s)"
proof (cases "(of_char c :: nat) < 128")
  case False
  let ?n = "of_char c :: nat"
  have n: "?n < 256" using of_char_mod_256 [of c, where ?'a = nat] by (metis mod_less_divisor zero_less_numeral)
  with False have d: "?n div 64 = 2 \<or> ?n div 64 = 3" by linarith
  have inv: "?n div 64 = 2 \<Longrightarrow> 128 + ?n mod 64 = ?n" "?n div 64 = 3 \<Longrightarrow> 192 + ?n mod 64 = ?n"
    using mult_div_mod_eq [of 64 ?n] by linarith+
  have "?n mod 64 < 64" by simp
  then show ?thesis
    using False d by (auto simp: utf8_char_def Let_def inv)
qed (simp add: utf8_char_def Let_def)

lemma utf8_decode_encode: "utf8_decode (utf8 s) = Some s"
  by (induction s) (simp_all add: utf8_def utf8_decode_char)

section \<open>The buffer\<close>

text \<open>\<open>Buffer._length_\<close>, in bytes.\<close>

definition buffer_length :: nat where "buffer_length = 1024 * 1024"

record canteen =
  cn_initialized :: bool
  cn_last_position :: nat
  cn_paths :: string

definition new_canteen :: canteen where
  "new_canteen = \<lparr>cn_initialized = False, cn_last_position = 0, cn_paths = replicate buffer_length (CHR 0x00)\<rparr>"

text \<open>
  \<open>canteen_add\<close>: the place for the path is computed from its number of characters, and a slice of the
  buffer can only be replaced by as many bytes.
\<close>

definition canteen_add :: "string \<Rightarrow> (canteen, unit) proc" where
  "canteen_add path c =
     (let lo = cn_last_position c; hi = cn_last_position c + length path + 1
      in if hi > length (cn_paths c) then (Inl (mk_exn RuntimeError ''canteen is full''), c)
         else
           (let data = utf8 path @ '';''
            in if length data \<noteq> hi - lo then (Inl (mk_exn ValueError ''Can only assign sequence of same size''), c)
               else (Inr (), c\<lparr>cn_paths := take lo (cn_paths c) @ data @ drop hi (cn_paths c), cn_last_position := hi\<rparr>)))"

text \<open>
  \<open>wait\<close> with the time as a second component of the state, in milliseconds; \<open>nap\<close> is \<open>time.sleep(0)\<close>
  with whatever the other processes do meanwhile.
\<close>

fun canteen_wait :: "nat \<Rightarrow> (canteen \<times> int \<Rightarrow> canteen \<times> int) \<Rightarrow> int \<Rightarrow> canteen \<times> int \<Rightarrow> (bool \<times> canteen \<times> int) option" where
  "canteen_wait 0 nap deadline s = None"
| "canteen_wait (Suc fuel) nap deadline s =
     (if cn_initialized (fst s) then Some (True, s)
      else if snd s > deadline then Some (False, s)
      else canteen_wait fuel nap deadline (nap s))"

text \<open>
  The elements of the buffer are signed (\<open>c_byte\<close>): \<open>bytes\<close> of a slice with a byte from 128 on, which reads
  as a negative number, is a \<open>ValueError\<close>.
\<close>

definition canteen_paths :: "canteen \<Rightarrow> exn + string list" where
  "canteen_paths c =
     (let data = take (cn_last_position c) (cn_paths c)
      in if \<not> ascii data then Inl (mk_exn ValueError ''bytes must be in range(0, 256)'')
         else
           (case utf8_decode data of
              None \<Rightarrow> Inl (mk_exn ValueError ''UnicodeDecodeError'')
            | Some text \<Rightarrow> Inr (butlast (split_on CHR '';'' text))))"

definition canteen_get ::
  "nat \<Rightarrow> (canteen \<times> int \<Rightarrow> canteen \<times> int) \<Rightarrow> int \<Rightarrow> canteen \<times> int \<Rightarrow> ((exn + string list) \<times> canteen \<times> int) option" where
  "canteen_get fuel nap timeout s =
     map_option (\<lambda>(ready, s). (if ready then canteen_paths (fst s) else Inr [], s))
       (canteen_wait fuel nap (snd s + timeout) s)"

text \<open>
  \<open>with canteen_try_init(cv) as acquired: body\<close>; \<open>lock\<close> is what other processes do until the lock is
  taken. The canteen counts as initialized only when the body ends without an exception.
\<close>

definition canteen_try_init :: "(canteen \<Rightarrow> canteen) \<Rightarrow> (bool \<Rightarrow> (canteen, unit) proc) \<Rightarrow> (canteen, unit) proc" where
  "canteen_try_init lock body c =
     (if cn_initialized c then body False c
      else
        (let c = lock c
         in if cn_initialized c then body False c
            else andthen (body True) (\<lambda>_. modify (\<lambda>c. c\<lparr>cn_initialized := True\<rparr>)) c))"

text \<open>What a worker process does with it: the paths of all forks of its middleware, in order.\<close>

definition send_forks :: "string list \<Rightarrow> bool \<Rightarrow> (canteen, unit) proc" where
  "send_forks paths acquired = (if acquired then for_each canteen_add paths else return ())"

section \<open>Properties\<close>

definition canteen_wf :: "canteen \<Rightarrow> bool" where
  "canteen_wf c = (cn_last_position c \<le> length (cn_paths c))"

lemma canteen_add_wf: "keeps (\<lambda>c. canteen_wf c \<and> length (cn_paths c) = n) (canteen_add path)"
  by (rule keepsI) (auto simp: canteen_wf_def canteen_add_def Let_def)

text \<open>What is in use of the buffer.\<close>

definition canteen_text :: "canteen \<Rightarrow> string" where
  "canteen_text c = take (cn_last_position c) (cn_paths c)"

lemma canteen_add_fits:
  assumes "canteen_wf c" and "cn_last_position c + length path + 1 \<le> length (cn_paths c)" and "ascii path"
  shows "\<exists>c'. canteen_add path c = (Inr (), c') \<and> canteen_text c' = canteen_text c @ path @ '';''
    \<and> canteen_wf c' \<and> length (cn_paths c') = length (cn_paths c) \<and> cn_last_position c' = cn_last_position c + length path + 1
    \<and> cn_initialized c' = cn_initialized c"
  using assms by (auto simp: canteen_add_def Let_def utf8_ascii canteen_text_def canteen_wf_def)

lemma canteen_add_all:
  assumes "canteen_wf c" and "\<forall>p \<in> set paths. ascii p"
    and "cn_last_position c + (\<Sum>p\<leftarrow>paths. length p + 1) \<le> length (cn_paths c)"
  shows "\<exists>c'. for_each canteen_add paths c = (Inr (), c') \<and> canteen_text c' = canteen_text c @ concat (map (\<lambda>p. p @ '';'') paths)
    \<and> canteen_wf c' \<and> cn_initialized c' = cn_initialized c \<and> length (cn_paths c') = length (cn_paths c)
    \<and> cn_last_position c' = cn_last_position c + (\<Sum>p\<leftarrow>paths. length p + 1)"
  using assms
proof (induction paths arbitrary: c)
  case Nil
  then show ?case by (simp add: return_def)
next
  case (Cons p ps)
  obtain c1 where c1: "canteen_add p c = (Inr (), c1)" "canteen_text c1 = canteen_text c @ p @ '';''" "canteen_wf c1"
      "length (cn_paths c1) = length (cn_paths c)" "cn_last_position c1 = cn_last_position c + length p + 1"
      "cn_initialized c1 = cn_initialized c"
    using canteen_add_fits [of c p] Cons.prems by auto
  with Cons.IH [of c1] Cons.prems show ?case by (auto simp: andthen_Inr)
qed

lemma split_semicolons:
  "\<forall>p \<in> set paths. CHR '';'' \<notin> set p \<Longrightarrow> split_on CHR '';'' (concat (map (\<lambda>p. p @ '';'') paths)) = paths @ [[]]"
  by (induction paths) simp_all

lemma utf8_decode_ascii: "ascii s \<Longrightarrow> utf8_decode s = Some s"
  using utf8_decode_encode [of s] by (simp add: utf8_ascii)

lemma for_each_append: "for_each f (xs @ ys) = andthen (for_each f xs) (\<lambda>_. for_each f ys)"
  by (induction xs) (simp_all add: andthen_assoc)

lemma add_to_new:
  assumes "\<forall>p \<in> set paths. ascii p" and "(\<Sum>p\<leftarrow>paths. length p + 1) \<le> buffer_length"
  obtains c where "for_each canteen_add paths new_canteen = (Inr (), c)" "canteen_text c = concat (map (\<lambda>p. p @ '';'') paths)"
    "cn_initialized c = False" "cn_last_position c = (\<Sum>p\<leftarrow>paths. length p + 1)" "length (cn_paths c) = buffer_length"
  using canteen_add_all [of new_canteen paths] assms by (auto simp: new_canteen_def canteen_wf_def canteen_text_def)

text \<open>
  C39. The paths that the first worker leaves are the paths the main process forks: they come back complete and
  in order, as long as they fit, are plain ASCII and contain no semicolon, whoever else tries to fill the
  canteen afterwards.
\<close>

theorem canteen_roundtrip:
  assumes "\<forall>p \<in> set paths. ascii p \<and> CHR '';'' \<notin> set p" "(\<Sum>p\<leftarrow>paths. length p + 1) \<le> buffer_length"
  shows "\<exists>c. canteen_try_init id (send_forks paths) new_canteen = (Inr (), c)
    \<and> (\<forall>others lock. canteen_try_init lock (send_forks others) c = (Inr (), c))
    \<and> canteen_get (Suc fuel) nap timeout (c, now) = Some (Inr paths, c, now)"
proof -
  obtain c where c: "for_each canteen_add paths new_canteen = (Inr (), c)"
      "canteen_text c = concat (map (\<lambda>p. p @ '';'') paths)" "cn_initialized c = False"
    using add_to_new [of paths] assms by (metis (no_types, lifting))
  let ?c = "c\<lparr>cn_initialized := True\<rparr>"
  have "ascii (canteen_text c)" using assms(1) by (auto simp: c(2) ascii_def)
  then have "canteen_paths ?c = Inr paths"
    using c(2) split_semicolons [of paths] assms(1)
    by (simp add: canteen_paths_def canteen_text_def utf8_decode_ascii Let_def)
  then show ?thesis
    using c(1) by (intro exI [of _ ?c])
      (simp add: canteen_try_init_def send_forks_def Let_def andthen_def modify_def return_def canteen_get_def, simp add: new_canteen_def)
qed

theorem canteen_roundtrip_witness:
  "\<exists>c. canteen_try_init id (send_forks [''a:run'', ''b:serve'']) new_canteen = (Inr (), c)
    \<and> canteen_get 1 id 1000 (c, 0) = Some (Inr [''a:run'', ''b:serve''], c, 0)"
  using canteen_roundtrip [of "[''a:run'', ''b:serve'']" 0 id 1000 0] by (auto simp: ascii_def buffer_length_def)

text \<open>
  A path with a character outside ASCII is refused: its encoding is longer than the room computed for it,
  so that \<open>ValueError\<close> is raised, the canteen stays uninitialized, and the next worker that boots adds the
  paths before it a second time.
\<close>

theorem canteen_rejects_unicode:
  assumes "\<forall>p \<in> set paths. ascii p" "\<not> ascii path" "(\<Sum>p\<leftarrow>paths. length p + 1) + length path + 1 \<le> buffer_length"
  shows "\<exists>c. canteen_try_init id (send_forks (paths @ path # rest)) new_canteen
      = (Inl (mk_exn ValueError ''Can only assign sequence of same size''), c)
    \<and> \<not> cn_initialized c \<and> canteen_text c = concat (map (\<lambda>p. p @ '';'') paths)"
proof -
  obtain c where c: "for_each canteen_add paths new_canteen = (Inr (), c)" "canteen_text c = concat (map (\<lambda>p. p @ '';'') paths)"
      "cn_initialized c = False" "cn_last_position c = (\<Sum>p\<leftarrow>paths. length p + 1)" "length (cn_paths c) = buffer_length"
    using add_to_new [of paths] assms by auto
  have "canteen_add path c = (Inl (mk_exn ValueError ''Can only assign sequence of same size''), c)"
    using utf8_longer [OF assms(2)] c(4,5) assms(3) by (simp add: canteen_add_def Let_def)
  then have "for_each canteen_add (paths @ path # rest) new_canteen = (Inl (mk_exn ValueError ''Can only assign sequence of same size''), c)"
    using c(1) by (simp add: for_each_append andthen_def)
  then show ?thesis
    using c(2,3) by (intro exI [of _ c]) (simp add: canteen_try_init_def send_forks_def Let_def andthen_def, simp add: new_canteen_def)
qed

theorem canteen_rejects_unicode_witness:
  "\<exists>c. canteen_try_init id (send_forks [''a:b'', CHR 0xE9 # ''t:f'']) new_canteen
      = (Inl (mk_exn ValueError ''Can only assign sequence of same size''), c) \<and> canteen_text c = ''a:b;''"
  using canteen_rejects_unicode [of "[''a:b'']" "CHR 0xE9 # ''t:f''" "[]"] by (auto simp: ascii_def buffer_length_def)

end
