(* ===== verification/Command_Line.thy ===== *)
theory Command_Line
  imports Exceptions
begin

text \<open>
  The parts of \<^verbatim>\<open>dramatiq/cli.py\<close> that run before any process is started: finding the broker that the
  command line names, the types of arguments, and the PID file; with the global broker of
  \<^verbatim>\<open>dramatiq/broker.py\<close> and the reading of numbers from the environment. Python's import system and the operating
  system are arguments or part of the state; \<open>argparse\<close> itself is left out.
\<close>

section \<open>Importing\<close>

text \<open>\<open>s.split(c, 1)\<close> for a string that contains the separator.\<close>

definition split_once :: "char \<Rightarrow> string \<Rightarrow> (string \<times> string) option" where
  "split_once c s = (if c \<in> set s then Some (takeWhile (\<lambda>x. x \<noteq> c) s, tl (dropWhile (\<lambda>x. x \<noteq> c) s)) else None)"

record ('w, 'o) python =
  py_import_module :: "string \<Rightarrow> ('w, 'o) proc"
  py_getattr :: "'o \<Rightarrow> string \<Rightarrow> ('w, 'o) proc"
  py_is_none :: "'o \<Rightarrow> bool"
  py_callable :: "'o \<Rightarrow> bool"
  py_call :: "'o \<Rightarrow> ('w, 'o) proc"
  py_is_broker :: "'o \<Rightarrow> bool"
  py_get_broker :: "('w, 'o) proc"

text \<open>\<open>functools.reduce(getattr, varnames, module)\<close>.\<close>

fun getattrs :: "('w, 'o) python \<Rightarrow> string list \<Rightarrow> 'o \<Rightarrow> ('w, 'o) proc" where
  "getattrs P [] x = return x"
| "getattrs P (n # ns) x = andthen (py_getattr P x n) (getattrs P ns)"

definition import_object :: "('w, 'o) python \<Rightarrow> string \<Rightarrow> ('w, 'o \<times> 'o option) proc" where
  "import_object P name =
     (case split_once CHR '':'' name of
        None \<Rightarrow> andthen (py_import_module P name) (\<lambda>module. return (module, None))
      | Some (modname, varname) \<Rightarrow>
          andthen (py_import_module P modname) (\<lambda>module.
            try_except
              (andthen (getattrs P (split_on CHR ''.'' varname) module) (\<lambda>x. return (module, Some x)))
              (\<lambda>e. if isinstance e AttributeError then raise (mk_exn ImportError varname) else raise e)))"

definition import_broker :: "('w, 'o) python \<Rightarrow> string \<Rightarrow> ('w, 'o \<times> 'o) proc" where
  "import_broker P name =
     andthen (import_object P name) (\<lambda>(module, broker_or_callable).
       case (case broker_or_callable of None \<Rightarrow> None | Some x \<Rightarrow> if py_is_none P x then None else Some x) of
         None \<Rightarrow> andthen (py_get_broker P) (\<lambda>b. return (module, b))
       | Some x \<Rightarrow>
           (if py_callable P x then andthen (py_call P x) (\<lambda>_. andthen (py_get_broker P) (\<lambda>b. return (module, b)))
            else if \<not> py_is_broker P x then raise (mk_exn ImportError name)
            else return (module, x)))"

section \<open>Types of arguments\<close>

text \<open>\<open>os.path.isdir\<close> and \<open>os.path.abspath\<close> are arguments. \<open>ArgumentError\<close> takes two arguments; it is given one.\<close>

definition folder_path :: "(string \<Rightarrow> bool) \<Rightarrow> (string \<Rightarrow> string) \<Rightarrow> string \<Rightarrow> exn + string" where
  "folder_path isdir abspath name =
     (if \<not> isdir name then Inl (mk_exn TypeError ''missing 1 required positional argument'') else Inr (abspath name))"

text \<open>A Python float: a real number, an infinity or not a number. Comparisons with the last are false.\<close>

datatype py_float = Num real | Infinity bool | NaN

fun float_less :: "py_float \<Rightarrow> py_float \<Rightarrow> bool" where
  "float_less (Num x) (Num y) = (x < y)"
| "float_less (Infinity negative) (Num y) = negative"
| "float_less (Num x) (Infinity negative) = (\<not> negative)"
| "float_less (Infinity n) (Infinity m) = (n \<and> \<not> m)"
| "float_less _ _ = False"

abbreviation ArgumentTypeError :: exn_class where
  "ArgumentTypeError \<equiv> UserException ''ArgumentTypeError''"

text \<open>\<open>to_float\<close> is \<open>float(value)\<close>, \<^const>\<open>None\<close> when it raises \<open>ValueError\<close>.\<close>

definition worker_fork_timeout_type :: "(string \<Rightarrow> py_float option) \<Rightarrow> string \<Rightarrow> exn + py_float" where
  "worker_fork_timeout_type to_float text =
     (case to_float text of
        None \<Rightarrow> Inl (mk_exn ArgumentTypeError ''worker-fork-timeout be a number.'')
      | Some ms \<Rightarrow>
          (if float_less ms (Num 10) then Inl (mk_exn ArgumentTypeError ''worker-fork-timeout too small (minimum recommended: 10ms).'')
           else if float_less (Num 1800000) ms then Inl (mk_exn ArgumentTypeError ''worker-fork-timeout too large (maximum: 30 minutes).'')
           else Inr ms))"

section \<open>Reading numbers\<close>

text \<open>\<open>str.strip()\<close>, and \<open>int(s)\<close> for characters up to U+00FF: \<^const>\<open>None\<close> is \<open>ValueError\<close>.
  The interpreter's limit on the number of digits (4300 by default) is left out.\<close>

definition is_white :: "char \<Rightarrow> bool" where
  "is_white c = (let n = of_char c :: nat in n = 32 \<or> 9 \<le> n \<and> n \<le> 13 \<or> 28 \<le> n \<and> n \<le> 31 \<or> n = 133 \<or> n = 160)"

definition strip :: "string \<Rightarrow> string" where
  "strip s = rev (dropWhile is_white (rev (dropWhile is_white s)))"

definition read_digits :: "string \<Rightarrow> nat option" where
  "read_digits s =
     (let parts = split_on CHR ''_'' s
      in if \<forall>p \<in> set parts. p \<noteq> [] \<and> (\<forall>c \<in> set p. is_digit c) then Some (read_nat (concat parts)) else None)"

definition int_of :: "string \<Rightarrow> int option" where
  "int_of s =
     (case strip s of
        c # t \<Rightarrow>
          (if c = CHR ''-'' then map_option (\<lambda>n. - int n) (read_digits t)
           else if c = CHR ''+'' then map_option int (read_digits t)
           else map_option int (read_digits (c # t)))
      | [] \<Rightarrow> None)"

text \<open>\<open>repr\<close> of a string of plain characters.\<close>

definition plain_repr :: "string \<Rightarrow> string" where
  "plain_repr s = CHR 0x27 # s @ [CHR 0x27]"

text \<open>\<open>getenv_int\<close> of \<^verbatim>\<open>dramatiq/common.py\<close>, for an environment.\<close>

definition getenv_int :: "(string \<rightharpoonup> string) \<Rightarrow> string \<Rightarrow> exn + int option" where
  "getenv_int env name =
     (case env name of
        None \<Rightarrow> Inr None
      | Some v \<Rightarrow>
          (case int_of v of
             Some n \<Rightarrow> Inr (Some n)
           | None \<Rightarrow> Inl (mk_exn ValueError (''invalid integer value for env var '' @ plain_repr name @ '': '' @ plain_repr v))))"

section \<open>The PID file\<close>

text \<open>
  The operating system as the process sees it: its id, the files with their contents and modes, what goes
  wrong when a file is opened or removed, and what \<open>os.kill(pid, 0)\<close> raises (nothing for a process that
  is alive and may be signalled).
\<close>

record os =
  os_pid :: int
  os_files :: "string dict"
  os_modes :: "int dict"
  os_read_error :: "string \<Rightarrow> exn option"
  os_write_error :: "string \<Rightarrow> exn option"
  os_remove_error :: "string \<Rightarrow> exn option"
  os_kill_error :: "int \<Rightarrow> exn option"

definition read_file :: "string \<Rightarrow> (os, string) proc" where
  "read_file f s =
     (case os_read_error s f of
        Some e \<Rightarrow> (Inl e, s)
      | None \<Rightarrow> (case map_of (os_files s) f of None \<Rightarrow> (Inl (mk_exn FileNotFoundError f), s) | Some text \<Rightarrow> (Inr text, s)))"

definition write_file :: "string \<Rightarrow> string \<Rightarrow> (os, unit) proc" where
  "write_file f text s =
     (case os_write_error s f of Some e \<Rightarrow> (Inl e, s) | None \<Rightarrow> (Inr (), s\<lparr>os_files := AList.update f text (os_files s)\<rparr>))"

definition remove_file :: "string \<Rightarrow> (os, unit) proc" where
  "remove_file f s =
     (case os_remove_error s f of
        Some e \<Rightarrow> (Inl e, s)
      | None \<Rightarrow> (if map_of (os_files s) f = None then (Inl (mk_exn FileNotFoundError f), s)
                else (Inr (), s\<lparr>os_files := AList.delete f (os_files s)\<rparr>)))"

definition chmod :: "string \<Rightarrow> int \<Rightarrow> (os, unit) proc" where
  "chmod f mode = modify (\<lambda>s. s\<lparr>os_modes := AList.update f mode (os_modes s)\<rparr>)"

definition kill :: "int \<Rightarrow> (os, unit) proc" where
  "kill pid s = (case os_kill_error s pid of Some e \<Rightarrow> (Inl e, s) | None \<Rightarrow> (Inr (), s))"

text \<open>
  The first \<open>try\<close> of \<open>setup_pidfile\<close>; \<^const>\<open>True\<close> is the early return of a process that finds its own id.
\<close>

definition check_pidfile :: "string \<Rightarrow> (os, bool) proc" where
  "check_pidfile filename =
     try_except
       (andthen (get_state os_pid) (\<lambda>pid.
        andthen (read_file filename) (\<lambda>text.
        andthen (case int_of (strip text) of None \<Rightarrow> raise (mk_exn ValueError text) | Some n \<Rightarrow> return n) (\<lambda>old_pid.
          if old_pid = pid then return True
          else
            andthen
              (try_except
                 (andthen (kill old_pid) (\<lambda>_. raise (mk_exn RuntimeError ''Dramatiq is already running'')))
                 (\<lambda>e. if isinstance e OSError then
                        try_except (remove_file filename) (\<lambda>e. if isinstance e FileNotFoundError then return () else raise e)
                      else raise e))
              (\<lambda>_. return False)))))
       (\<lambda>e. if isinstance e FileNotFoundError then return False
            else if isinstance e ValueError then raise (mk_exn RuntimeError ''PID file contains garbage. Aborting.'')
            else raise e)"

definition write_pidfile :: "string \<Rightarrow> (os, int) proc" where
  "write_pidfile filename =
     andthen (get_state os_pid) (\<lambda>pid.
     try_except
       (andthen (write_file filename (int_str pid)) (\<lambda>_. andthen (chmod filename 420) (\<lambda>_. return pid)))
       (\<lambda>e. if isinstance e FileNotFoundError \<or> isinstance e PermissionError
            then raise (mk_exn RuntimeError ''Failed to write PID file'') else raise e))"

definition setup_pidfile :: "string \<Rightarrow> (os, int) proc" where
  "setup_pidfile filename =
     andthen (check_pidfile filename) (\<lambda>own. if own then get_state os_pid else write_pidfile filename)"

definition remove_pidfile :: "string \<Rightarrow> (os, unit) proc" where
  "remove_pidfile filename =
     try_except (remove_file filename) (\<lambda>e. if isinstance e FileNotFoundError then return () else raise e)"

section \<open>Properties\<close>

text \<open>
  The timeout is within its bounds: what the type accepts lies between 10 milliseconds and 30 minutes,
  except that \<open>nan\<close>, which compares with nothing, is accepted too; everything else is refused as an error
  that \<open>argparse\<close> reports.
\<close>

theorem fork_timeout_bounds:
  "(worker_fork_timeout_type to_float text = Inr ms
      \<longleftrightarrow> to_float text = Some ms \<and> (ms = NaN \<or> (\<exists>x. ms = Num x \<and> 10 \<le> x \<and> x \<le> 1800000)))
   \<and> (worker_fork_timeout_type to_float text = Inl e \<longrightarrow> isinstance e ArgumentTypeError)"
proof -
  have "float_less (Infinity n) (Num 10) \<or> float_less (Num 1800000) (Infinity n)" for n by (cases n) simp_all
  then show ?thesis
    by (cases ms) (auto simp: worker_fork_timeout_type_def issubclass_code split: option.splits if_splits)
qed

theorem fork_timeout_bounds_witness:
  "worker_fork_timeout_type (\<lambda>_. Some NaN) ''nan'' = Inr NaN
   \<and> worker_fork_timeout_type (\<lambda>_. Some (Num 30000)) ''30000'' = Inr (Num 30000)
   \<and> isinstance (mk_exn ArgumentTypeError ''worker-fork-timeout be a number.'') ArgumentTypeError"
  using fork_timeout_bounds [of "\<lambda>_. Some NaN" "''nan''" NaN] fork_timeout_bounds [of "\<lambda>_. Some (Num 30000)" "''30000''" "Num 30000"]
    fork_timeout_bounds [of "\<lambda>_. None" "''x''" NaN "mk_exn ArgumentTypeError ''worker-fork-timeout be a number.''"]
  by (simp add: worker_fork_timeout_type_def)

text \<open>Reading back what was written.\<close>

lemma digit_not_white: "is_digit c \<Longrightarrow> \<not> is_white c"
  by (auto simp: is_digit_def is_white_def Let_def)

lemma dropWhile_hd: "s \<noteq> [] \<Longrightarrow> \<not> P (hd s) \<Longrightarrow> dropWhile P s = s"
  by (cases s) auto

lemma strip_same: "s \<noteq> [] \<Longrightarrow> \<not> is_white (hd s) \<Longrightarrow> \<not> is_white (last s) \<Longrightarrow> strip s = s"
  by (simp add: strip_def dropWhile_hd hd_rev)

lemma int_str_ends: "int_str i \<noteq> []" "\<not> is_white (hd (int_str i))" "\<not> is_white (last (int_str i))"
proof -
  have d: "\<not> is_white (hd (nat_str n))" "\<not> is_white (last (nat_str n))" for n
    using nat_str_digits [of n] by (simp_all add: digit_not_white)
  moreover have "\<not> is_white CHR ''-''" by (simp add: is_white_def)
  ultimately show "int_str i \<noteq> []" "\<not> is_white (hd (int_str i))" "\<not> is_white (last (int_str i))"
    by (simp_all add: int_str_def)
qed

lemma read_digits_nat_str: "read_digits (nat_str n) = Some n"
proof -
  have "CHR ''_'' \<notin> set (nat_str n)" using nat_str_digits [of n] by (force simp: is_digit_def)
  then show ?thesis using nat_str_digits [of n] by (simp add: read_digits_def)
qed

lemma int_of_int_str: "int_of (int_str i) = Some i"
proof (cases "i < 0")
  case True
  then have "strip (CHR ''-'' # nat_str (nat (- i))) = CHR ''-'' # nat_str (nat (- i))"
    using strip_same [OF int_str_ends, of i] by (simp add: int_str_def)
  with True show ?thesis by (simp add: int_of_def int_str_def read_digits_nat_str)
next
  case False
  obtain c t where c: "nat_str (nat i) = c # t" by (cases "nat_str (nat i)") auto
  have "is_digit c" using nat_str_digits [of "nat i"] c by simp
  then have "c \<noteq> CHR ''-''" "c \<noteq> CHR ''+''" by (auto simp: is_digit_def)
  moreover have "strip (c # t) = c # t"
    using strip_same [OF int_str_ends, of i] False c by (simp add: int_str_def)
  ultimately show ?thesis
    using read_digits_nat_str [of "nat i"] False c by (simp add: int_of_def int_str_def)
qed

text \<open>A number in the environment is read back; text that is no number is a \<open>ValueError\<close>.\<close>

lemma getenv_int_outcome:
  "env name = Some (int_str n) \<Longrightarrow> getenv_int env name = Inr (Some n)"
  "env name = None \<Longrightarrow> getenv_int env name = Inr None"
  "env name = Some v \<Longrightarrow> int_of v = None \<Longrightarrow> \<exists>e. getenv_int env name = Inl e \<and> exn_cls e = ValueError"
  by (simp_all add: getenv_int_def int_of_int_str mk_exn_def)


section \<open>What the PID file protects\<close>

text \<open>The three ways in which the first half of \<open>setup_pidfile\<close> goes on.\<close>

lemma check_absent: "os_read_error s f = None \<Longrightarrow> map_of (os_files s) f = None \<Longrightarrow> check_pidfile f s = (Inr False, s)"
  by (simp add: check_pidfile_def read_file_def proc_simps issubclass_code)

lemma check_garbage:
  "os_read_error s f = None \<Longrightarrow> map_of (os_files s) f = Some text \<Longrightarrow> int_of (strip text) = None
    \<Longrightarrow> check_pidfile f s = (Inl (mk_exn RuntimeError ''PID file contains garbage. Aborting.''), s)"
  by (simp add: check_pidfile_def read_file_def proc_simps issubclass_code)

lemma check_own:
  "os_read_error s f = None \<Longrightarrow> map_of (os_files s) f = Some text \<Longrightarrow> int_of (strip text) = Some (os_pid s)
    \<Longrightarrow> check_pidfile f s = (Inr True, s)"
  by (simp add: check_pidfile_def read_file_def proc_simps)

lemma check_alive:
  "os_read_error s f = None \<Longrightarrow> map_of (os_files s) f = Some text \<Longrightarrow> int_of (strip text) = Some p \<Longrightarrow> p \<noteq> os_pid s
    \<Longrightarrow> os_kill_error s p = None \<Longrightarrow> check_pidfile f s = (Inl (mk_exn RuntimeError ''Dramatiq is already running''), s)"
  by (simp add: check_pidfile_def read_file_def kill_def proc_simps issubclass_code)

lemma check_taken_for_dead:
  "os_read_error s f = None \<Longrightarrow> map_of (os_files s) f = Some text \<Longrightarrow> int_of (strip text) = Some p \<Longrightarrow> p \<noteq> os_pid s
    \<Longrightarrow> os_kill_error s p = Some e \<Longrightarrow> isinstance e OSError \<Longrightarrow> os_remove_error s f = None
    \<Longrightarrow> check_pidfile f s = (Inr False, s\<lparr>os_files := AList.delete f (os_files s)\<rparr>)"
  by (simp add: check_pidfile_def read_file_def kill_def remove_file_def proc_simps issubclass_code)

lemma write_succeeds:
  "os_write_error s f = None \<Longrightarrow> \<exists>t. write_pidfile f s = (Inr (os_pid s), t)
     \<and> os_files t = AList.update f (int_str (os_pid s)) (os_files s) \<and> os_pid t = os_pid s
     \<and> os_read_error t = os_read_error s \<and> os_write_error t = os_write_error s \<and> os_remove_error t = os_remove_error s
     \<and> os_kill_error t = os_kill_error s"
  by (simp add: write_pidfile_def write_file_def chmod_def proc_simps)

lemma write_returns: "write_pidfile f s = (Inr pid, t) \<Longrightarrow> pid = os_pid s \<and> map_of (os_files t) f = Some (int_str pid)"
  by (auto simp: write_pidfile_def write_file_def chmod_def proc_simps split: option.splits if_splits)

lemma check_pid: "snd (check_pidfile f s) = t \<Longrightarrow> os_pid t = os_pid s"
  by (auto simp: check_pidfile_def read_file_def kill_def remove_file_def proc_simps split: option.splits if_splits sum.splits)

lemma check_own_only:
  "check_pidfile f s = (Inr True, t) \<Longrightarrow> t = s \<and> (\<exists>text. map_of (os_files s) f = Some text \<and> int_of (strip text) = Some (os_pid s))"
  by (auto simp: check_pidfile_def read_file_def kill_def remove_file_def proc_simps split: option.splits if_splits sum.splits)

lemma setup_returns:
  assumes "setup_pidfile f s = (Inr pid, t)"
  shows "pid = os_pid s \<and> (\<exists>text. map_of (os_files t) f = Some text \<and> int_of (strip text) = Some pid)"
proof -
  obtain own u where c: "check_pidfile f s = (Inr own, u)"
    using assms by (cases "check_pidfile f s"; cases "fst (check_pidfile f s)") (auto simp: setup_pidfile_def andthen_def)
  have u: "os_pid u = os_pid s" using check_pid [of f s u] c by simp
  show ?thesis
  proof (cases own)
    case True
    then show ?thesis using check_own_only [of f s u] assms c by (auto simp: setup_pidfile_def andthen_def get_state_def)
  next
    case False
    then have "write_pidfile f u = (Inr pid, t)" using assms c by (simp add: setup_pidfile_def andthen_def)
    then show ?thesis
      using write_returns [of f u pid t] u by (simp add: int_of_int_str strip_same [OF int_str_ends])
  qed
qed

text \<open>
  C35. One running main process per PID file: when \<open>setup_pidfile\<close> returns, it returns the id of the process and
  the file reads as that id; from then on, while that process can be signalled and the file is there, the
  same call by any other process is refused with \<open>RuntimeError\<close> (so that \<open>main\<close> returns \<open>RET_PIDFILE\<close>) and
  changes nothing; by the process itself, as after a reload, it succeeds and changes nothing.
\<close>

theorem pidfile_exclusive:
  assumes "setup_pidfile f s = (Inr pid, t)" "map_of (os_files u) f = map_of (os_files t) f" "os_read_error u f = None"
    and "os_pid u = pid \<or> os_kill_error u pid = None"
  shows "pid = os_pid s
    \<and> setup_pidfile f u = (if os_pid u = pid then Inr pid else Inl (mk_exn RuntimeError ''Dramatiq is already running''), u)"
proof -
  obtain old where t: "map_of (os_files u) f = Some old" "int_of (strip old) = Some pid" "pid = os_pid s"
    using setup_returns [OF assms(1)] assms(2) by auto
  show ?thesis
  proof (cases "os_pid u = pid")
    case True
    then show ?thesis using check_own [OF assms(3) t(1)] t by (simp add: setup_pidfile_def andthen_def get_state_def)
  next
    case False
    then show ?thesis
      using check_alive [OF assms(3) t(1,2)] t(3) assms(4) by (simp add: setup_pidfile_def andthen_def)
  qed
qed

definition fresh_os :: "int \<Rightarrow> string dict \<Rightarrow> (int \<Rightarrow> exn option) \<Rightarrow> os" where
  "fresh_os pid files kill_error =
     \<lparr>os_pid = pid, os_files = files, os_modes = [], os_read_error = Map.empty, os_write_error = Map.empty,
      os_remove_error = Map.empty, os_kill_error = kill_error\<rparr>"

lemma fresh_os_simps [simp]:
  "os_pid (fresh_os p fs k) = p" "os_files (fresh_os p fs k) = fs" "os_read_error (fresh_os p fs k) = Map.empty"
  "os_write_error (fresh_os p fs k) = Map.empty" "os_remove_error (fresh_os p fs k) = Map.empty" "os_kill_error (fresh_os p fs k) = k"
  by (simp_all add: fresh_os_def)

theorem pidfile_exclusive_witness:
  "setup_pidfile ''pid'' (fresh_os 8 [(''pid'', ''7'')] Map.empty)
     = (Inl (mk_exn RuntimeError ''Dramatiq is already running''), fresh_os 8 [(''pid'', ''7'')] Map.empty)"
proof -
  obtain t where t: "setup_pidfile ''pid'' (fresh_os 7 [] Map.empty) = (Inr 7, t)" "os_files t = [(''pid'', int_str 7)]"
    using write_succeeds [of "fresh_os 7 [] Map.empty" "''pid''"] check_absent [of "fresh_os 7 [] Map.empty" "''pid''"]
    by (auto simp: setup_pidfile_def andthen_def)
  have "int_str 7 = ''7''" by code_simp
  with pidfile_exclusive [OF t(1), of "fresh_os 8 [(''pid'', ''7'')] Map.empty"] t(2) show ?thesis by simp
qed


text \<open>
  A file that is not a PID file is never overwritten: when it can be read and is not a number,
  \<open>setup_pidfile\<close> raises \<open>RuntimeError\<close> and leaves everything as it is.
\<close>

theorem pidfile_keeps_other_files:
  assumes "os_read_error s f = None" "map_of (os_files s) f = Some text" "int_of (strip text) = None"
  shows "setup_pidfile f s = (Inl (mk_exn RuntimeError ''PID file contains garbage. Aborting.''), s)"
  using check_garbage [OF assms] by (simp add: setup_pidfile_def andthen_def)

theorem pidfile_keeps_other_files_witness:
  "setup_pidfile ''f'' (fresh_os 8 [(''f'', ''x=1'')] Map.empty)
     = (Inl (mk_exn RuntimeError ''PID file contains garbage. Aborting.''), fresh_os 8 [(''f'', ''x=1'')] Map.empty)"
proof -
  have "int_of (strip ''x=1'') = None" by code_simp
  then show ?thesis using pidfile_keeps_other_files [of "fresh_os 8 [(''f'', ''x=1'')] Map.empty" "''f''"] by simp
qed

text \<open>
  A main process of another user does not count as running: \<open>os.kill(pid, 0)\<close> raises \<open>PermissionError\<close>
  for a process that is alive and may not be signalled, \<open>except OSError\<close> takes it for dead, and its file is
  replaced.
\<close>

theorem pidfile_of_another_user:
  assumes "os_read_error s f = None" "map_of (os_files s) f = Some text" "int_of (strip text) = Some p" "p \<noteq> os_pid s"
    and "os_kill_error s p = Some (mk_exn PermissionError why)" "os_remove_error s f = None" "os_write_error s f = None"
  shows "\<exists>t. setup_pidfile f s = (Inr (os_pid s), t) \<and> map_of (os_files t) f = Some (int_str (os_pid s))"
proof -
  let ?u = "s\<lparr>os_files := AList.delete f (os_files s)\<rparr>"
  have "check_pidfile f s = (Inr False, ?u)"
    using check_taken_for_dead [OF assms(1-5) _ assms(6)] by (simp add: issubclass_code)
  then show ?thesis
    using write_succeeds [of ?u f] assms(7) by (auto simp: setup_pidfile_def andthen_def)
qed

theorem pidfile_of_another_user_witness:
  "\<exists>t. setup_pidfile ''pid'' (fresh_os 8 [(''pid'', ''7'')] [7 \<mapsto> mk_exn PermissionError ''EPERM'']) = (Inr 8, t)
    \<and> map_of (os_files t) ''pid'' = Some (int_str 8)"
proof -
  have "int_of (strip ''7'') = Some 7" by code_simp
  then show ?thesis
    using pidfile_of_another_user [of "fresh_os 8 [(''pid'', ''7'')] [7 \<mapsto> mk_exn PermissionError ''EPERM'']" "''pid''" "''7''" 7 "''EPERM''"]
    by simp
qed

text \<open>
  The check and the write are two steps: of two processes that both find no file, both succeed, and
  the file names the one that wrote last.
\<close>

theorem pidfile_race:
  assumes "os_read_error s f = None" "os_write_error s f = None" "map_of (os_files s) f = None"
  shows "\<exists>t u. check_pidfile f s = (Inr False, s) \<and> check_pidfile f (s\<lparr>os_pid := q\<rparr>) = (Inr False, s\<lparr>os_pid := q\<rparr>)
    \<and> write_pidfile f s = (Inr (os_pid s), t) \<and> write_pidfile f (t\<lparr>os_pid := q\<rparr>) = (Inr q, u)
    \<and> map_of (os_files u) f = Some (int_str q)"
proof -
  obtain t where t: "write_pidfile f s = (Inr (os_pid s), t)" "os_write_error t = os_write_error s"
    using write_succeeds [of s f] assms by auto
  then obtain u where u: "write_pidfile f (t\<lparr>os_pid := q\<rparr>) = (Inr q, u)"
    using write_succeeds [of "t\<lparr>os_pid := q\<rparr>" f] assms(2) by auto
  then show ?thesis
    using t check_absent [of s f] check_absent [of "s\<lparr>os_pid := q\<rparr>" f] write_returns [of f "t\<lparr>os_pid := q\<rparr>" q u] assms by auto
qed

theorem pidfile_race_witness:
  "\<exists>t u. write_pidfile ''pid'' (fresh_os 7 [] Map.empty) = (Inr 7, t) \<and> write_pidfile ''pid'' (t\<lparr>os_pid := 8\<rparr>) = (Inr 8, u)"
  using pidfile_race [of "fresh_os 7 [] Map.empty" "''pid''" 8] by auto

text \<open>
  Only \<open>RuntimeError\<close> is handled by \<open>main\<close>: when the file cannot be opened for reading, or the stale file
  cannot be removed, the \<open>OSError\<close> escapes \<open>setup_pidfile\<close>.
\<close>

theorem pidfile_permission_escapes:
  assumes "os_read_error s f = Some (mk_exn PermissionError why)"
  shows "setup_pidfile f s = (Inl (mk_exn PermissionError why), s)"
  using assms by (simp add: setup_pidfile_def check_pidfile_def read_file_def proc_simps issubclass_code)

theorem pidfile_permission_escapes_witness:
  "\<exists>e t. setup_pidfile ''pid'' (fresh_os 7 [] Map.empty\<lparr>os_read_error := [''pid'' \<mapsto> mk_exn PermissionError ''EACCES'']\<rparr>) = (Inl e, t)
    \<and> \<not> isinstance e RuntimeError"
  using pidfile_permission_escapes [of "fresh_os 7 [] Map.empty\<lparr>os_read_error := [''pid'' \<mapsto> mk_exn PermissionError ''EACCES'']\<rparr>" "''pid''" "''EACCES''"]
  by (simp add: issubclass_code)

section \<open>Which broker\<close>

lemma import_object_module: "CHR '':'' \<notin> set name \<Longrightarrow> import_object P name = andthen (py_import_module P name) (\<lambda>m. return (m, None))"
  by (simp add: import_object_def split_once_def)

lemma split_once_at: "c \<notin> set a \<Longrightarrow> split_once c (a @ c # b) = Some (a, b)"
  by (induction a) (auto simp: split_once_def)

text \<open>
  A missing variable is an \<open>ImportError\<close>, at any depth of the dotted name, and the worker process turns it
  into \<open>RET_IMPORT\<close>; every other exception, also an \<open>AttributeError\<close> of the module's own code, is raised as
  it is.
\<close>

theorem import_object_errors:
  assumes "CHR '':'' \<notin> set modname"
  shows "(py_import_module P modname s = (Inl e, t) \<longrightarrow> import_object P (modname @ '':'' @ varname) s = (Inl e, t))
    \<and> (py_import_module P modname s = (Inr m, t) \<longrightarrow> getattrs P (split_on CHR ''.'' varname) m t = (Inl e, u)
        \<longrightarrow> import_object P (modname @ '':'' @ varname) s
              = (Inl (if isinstance e AttributeError then mk_exn ImportError varname else e), u))
    \<and> (py_import_module P modname s = (Inr m, t) \<longrightarrow> getattrs P (split_on CHR ''.'' varname) m t = (Inr x, u)
        \<longrightarrow> import_object P (modname @ '':'' @ varname) s = (Inr (m, Some x), u))"
  using split_once_at [OF assms, of varname] by (simp add: import_object_def proc_simps)

text \<open>
  Whatever is named, what is returned is a broker, if the global broker is one: the object named when it
  is a broker, the global broker when nothing is named, when it is \<open>None\<close>, and after calling it when it is
  callable.
\<close>

theorem import_broker_gives_broker:
  assumes "\<And>s b t. py_get_broker P s = (Inr b, t) \<Longrightarrow> py_is_broker P b" "import_broker P name s = (Inr (m, b), t)"
  shows "py_is_broker P b"
  using assms
  by (auto simp: import_broker_def andthen_def return_def raise_def split: prod.splits sum.splits option.splits if_splits)


text \<open>A module \<open>app\<close> with a broker \<open>b\<close>, a function \<open>setup\<close> and a string; attributes of the broker raise.\<close>

datatype thing = Module | A_Broker | A_Function | A_String

definition small_python :: "(unit, thing) python" where
  "small_python =
     \<lparr>py_import_module = \<lambda>n. if n = ''app'' then return Module else raise (mk_exn ImportError n),
      py_getattr = \<lambda>x n.
        (if x = Module then
           (if n = ''b'' then return A_Broker else if n = ''setup'' then return A_Function
            else if n = ''name'' then return A_String else raise (mk_exn AttributeError n))
         else raise (mk_exn RuntimeError n)),
      py_is_none = \<lambda>_. False, py_callable = \<lambda>x. x = A_Function, py_call = \<lambda>_. return Module,
      py_is_broker = \<lambda>x. x = A_Broker, py_get_broker = return A_Broker\<rparr>"

theorem import_object_errors_witness:
  "import_object small_python ''app:x.y'' () = (Inl (mk_exn ImportError ''x.y''), ())
   \<and> import_object small_python ''app:b.y'' () = (Inl (mk_exn RuntimeError ''y''), ())
   \<and> import_object small_python ''app:b'' () = (Inr (Module, Some A_Broker), ())
   \<and> import_object small_python ''no:b'' () = (Inl (mk_exn ImportError ''no''), ())"
  using import_object_errors [of "''app''" small_python "()" "mk_exn AttributeError ''x''" "()" "''x.y''" Module "()" Module]
    import_object_errors [of "''app''" small_python "()" "mk_exn RuntimeError ''y''" "()" "''b.y''" Module "()" Module]
    import_object_errors [of "''app''" small_python "()" "mk_exn RuntimeError ''y''" "()" "''b''" Module "()" A_Broker]
    import_object_errors [of "''no''" small_python "()" "mk_exn ImportError ''no''" "()" "''b''" Module "()" A_Broker]
  by (simp add: small_python_def proc_simps issubclass_code)

theorem import_broker_gives_broker_witness:
  "py_is_broker small_python A_Broker \<and> import_broker small_python ''app:setup'' () = (Inr (Module, A_Broker), ())
   \<and> import_broker small_python ''app:name'' () = (Inl (mk_exn ImportError ''app:name''), ())"
proof -
  have i: "import_broker small_python ''app:setup'' () = (Inr (Module, A_Broker), ())"
    by (simp add: import_broker_def import_object_def split_once_def small_python_def proc_simps)
  have g: "py_get_broker small_python s = (Inr b, t) \<Longrightarrow> py_is_broker small_python b" for s b t
    by (auto simp: small_python_def return_def)
  show ?thesis
    using import_broker_gives_broker [OF g i] i
    by (simp add: import_broker_def import_object_def split_once_def small_python_def proc_simps)
qed


section \<open>The global broker\<close>

text \<open>
  \<open>global_broker\<close> of \<^verbatim>\<open>dramatiq/broker.py\<close>: \<open>get_broker\<close> makes a RabbitMQ broker when none is set, or a Redis
  broker when the former cannot be imported. The constructors are arguments.
\<close>

record 'b globals =
  global_broker :: "'b option"

definition set_broker :: "'b \<Rightarrow> (('b, 'z) globals_scheme, unit) proc" where
  "set_broker b = modify (\<lambda>s. s\<lparr>global_broker := Some b\<rparr>)"

definition get_broker ::
  "(('b, 'z) globals_scheme, 'b) proc \<Rightarrow> (('b, 'z) globals_scheme, 'b) proc \<Rightarrow> (('b, 'z) globals_scheme, 'b option) proc" where
  "get_broker make_rabbitmq make_redis =
     andthen (get_state global_broker) (\<lambda>g.
     andthen
       (if g = None then
          try_except (andthen make_rabbitmq set_broker)
            (\<lambda>e. if isinstance e ImportError then andthen make_redis set_broker else raise e)
        else return ())
       (\<lambda>_. get_state global_broker))"

text \<open>
  There is one global broker: what \<open>get_broker\<close> returns is what it returns from then on, nothing being
  made again, and a broker that has been set is what it returns.
\<close>

theorem global_broker_stable:
  assumes "get_broker make_rabbitmq make_redis s = (Inr g, t)"
  shows "get_broker make_rabbitmq make_redis t = (Inr g, t) \<and> g \<noteq> None \<and> (global_broker s \<noteq> None \<longrightarrow> g = global_broker s \<and> t = s)"
  using assms by (auto simp: get_broker_def set_broker_def proc_simps split: if_splits sum.splits prod.splits)

theorem global_broker_stable_witness:
  "get_broker (raise (mk_exn ImportError ''pika'')) (return (1::nat)) \<lparr>global_broker = None\<rparr> = (Inr (Some 1), \<lparr>global_broker = Some 1\<rparr>)
   \<and> get_broker (raise (mk_exn ImportError ''pika'')) (return (1::nat)) \<lparr>global_broker = Some 1\<rparr> = (Inr (Some 1), \<lparr>global_broker = Some 1\<rparr>)"
proof -
  have "get_broker (raise (mk_exn ImportError ''pika'')) (return (1::nat)) \<lparr>global_broker = None\<rparr> = (Inr (Some 1), \<lparr>global_broker = Some 1\<rparr>)"
    by (simp add: get_broker_def set_broker_def proc_simps issubclass_code)
  with global_broker_stable [OF this] show ?thesis by simp
qed

end
