(* ===== verification/Worker_Process.thy ===== *)
theory Worker_Process
  imports Worker Canteen Command_Line
begin

text \<open>
  The child processes of \<^verbatim>\<open>dramatiq/cli.py\<close>: \<open>worker_process\<close> boots a worker on the broker that the
  command line names, runs it until it is told to stop and shuts it down; \<open>fork_process\<close> runs one function.
  The state is that of the broker with its worker, next to the canteen it shares with the main process and
  the event by which it says that it has booted.
\<close>

section \<open>Exit codes and signals\<close>

definition RET_OK :: int where "RET_OK = 0"
definition RET_KILLED :: int where "RET_KILLED = 1"
definition RET_IMPORT :: int where "RET_IMPORT = 2"
definition RET_CONNECT :: int where "RET_CONNECT = 3"
definition RET_PIDFILE :: int where "RET_PIDFILE = 4"

lemmas ret_defs = RET_OK_def RET_KILLED_def RET_IMPORT_def RET_CONNECT_def RET_PIDFILE_def

datatype unix_signal = SIGHUP | SIGINT | SIGTERM

text \<open>\<open>sys.exit(code)\<close>.\<close>

definition sys_exit :: "int \<Rightarrow> ('s, 'r) proc" where
  "sys_exit code = raise (mk_exn SystemExit (int_str code))"

text \<open>
  How a process started by \<open>multiprocessing\<close> ends: 0 when its function returns, the code given to
  \<open>sys.exit\<close>, and 1 for every other exception. The system keeps eight bits of it.
\<close>

definition exn_status :: "exn \<Rightarrow> int" where
  "exn_status e =
     (if isinstance e SystemExit then (case int_of (exn_message e) of Some code \<Rightarrow> code mod 256 | None \<Rightarrow> 1) else 1)"

definition process_status :: "exn + 'r \<Rightarrow> int" where
  "process_status r = (case r of Inr _ \<Rightarrow> 0 | Inl e \<Rightarrow> exn_status e)"

lemma exn_status_exit [simp]: "exn_status (mk_exn SystemExit (int_str code)) = code mod 256"
  by (simp add: exn_status_def issubclass_code) (simp add: mk_exn_def int_of_int_str)

section \<open>Starting a worker\<close>

text \<open>\<open>Worker.__init__\<close>; the first two arguments are the prefetch counts of the environment.\<close>

definition init_worker :: "nat \<Rightarrow> nat \<Rightarrow> string list \<Rightarrow> nat \<Rightarrow> ('m, 'q, 'a) worker_scheme \<Rightarrow> ('m, 'q, 'a) worker_scheme" where
  "init_worker queue_configured delay_configured queues worker_threads s =
     s\<lparr>wk_consumers := [], wk_whitelist := queues, wk_work_queue := pyqueue_empty,
       wk_queue_prefetch := default_prefetch queue_configured 2 worker_threads,
       wk_delay_prefetch := default_prefetch delay_configured 1000 worker_threads\<rparr>"

text \<open>\<open>_add_worker\<close>: the first thing a worker thread does when it runs is to signal its boot.\<close>

definition add_worker :: "('m, ('m, 'q, 'a) worker_scheme) mw_ops \<Rightarrow> nat \<Rightarrow> (('m, 'q, 'a) worker_scheme, unit) proc" where
  "add_worker M i = emit_after M (After_worker_thread_boot i)"

text \<open>\<open>Worker.start\<close>; \<open>wm\<close> is the middleware object \<open>_WorkerMiddleware(self)\<close>.\<close>

definition start :: "('m, ('m, 'q, 'a) worker_scheme) mw_ops \<Rightarrow> 'm \<Rightarrow> nat \<Rightarrow> (('m, 'q, 'a) worker_scheme, unit) proc" where
  "start M wm worker_threads =
     andthen (emit_before M Before_worker_boot) (\<lambda>_.
     andthen (add_middleware M wm None None) (\<lambda>_.
     andthen (for_each (add_worker M) [0..<worker_threads]) (\<lambda>_.
       emit_after M After_worker_boot)))"

section \<open>The process\<close>

record 'w worker_process_state =
  wp_world :: 'w
  wp_canteen :: canteen
  wp_event :: bool
  wp_running :: bool
  wp_logger :: bool
  wp_pipe_open :: bool

definition in_world :: "('w, 'r) proc \<Rightarrow> ('w worker_process_state, 'r) proc" where
  "in_world p s = (case p (wp_world s) of (r, w) \<Rightarrow> (r, s\<lparr>wp_world := w\<rparr>))"

definition in_canteen :: "(canteen, 'r) proc \<Rightarrow> ('w worker_process_state, 'r) proc" where
  "in_canteen p s = (case p (wp_canteen s) of (r, c) \<Rightarrow> (r, s\<lparr>wp_canteen := c\<rparr>))"

text \<open>
  \<open>termhandler\<close>: it logs first, which raises \<open>NameError\<close> while \<open>logger\<close> has not been assigned. \<open>SIGINT\<close>
  is ignored.
\<close>

definition termhandler :: "('w worker_process_state, unit) proc" where
  "termhandler =
     andthen (get_state wp_running) (\<lambda>running.
     andthen (get_state wp_logger) (\<lambda>logger.
       if \<not> logger then raise (mk_exn NameError ''logger'')
       else if running then modify (\<lambda>s. s\<lparr>wp_running := False\<rparr>)
       else sys_exit RET_KILLED))"

definition receive :: "unix_signal \<Rightarrow> ('w worker_process_state, unit) proc" where
  "receive sig = (case sig of SIGINT \<Rightarrow> return () | _ \<Rightarrow> termhandler)"

text \<open>
  What the process is given: the command line, Python, the hooks of the middleware with \<open>_WorkerMiddleware\<close>
  among them, the forks of a middleware as module and name, the operations of consumers and of the broker.
  \<open>we_arrive\<close> are the signals at three places: blocked in the parent and delivered by
  \<open>try_unblock_signals\<close>, while booting once the logger is there, and while the worker runs.
\<close>

record ('w, 'o, 'm) worker_env =
  we_broker :: string
  we_modules :: "string list"
  we_queues :: "string list"
  we_threads :: nat
  we_prefetch :: "nat \<times> nat"
  we_python :: "('w, 'o) python"
  we_hooks :: "('m, 'w) mw_ops"
  we_middleware :: 'm
  we_forks :: "'m \<Rightarrow> (string \<times> string) list"
  we_lock :: "canteen \<Rightarrow> canteen"
  we_consumers :: "'w consumer_ops"
  we_join :: "('w, unit) proc"
  we_close :: "('w, unit) proc"
  we_interrupted :: "'w \<Rightarrow> 'w"
  we_blocked :: "unix_signal list"
  we_booting :: "unix_signal list"
  we_serving :: "unix_signal list"

text \<open>The paths of all forks, \<open>"%s:%s" % (fork.__module__, fork.__name__)\<close>.\<close>

definition fork_paths :: "('m \<Rightarrow> (string \<times> string) list) \<Rightarrow> 'm list \<Rightarrow> string list" where
  "fork_paths forks ms = concat (map (\<lambda>m. map (\<lambda>(modname, name). modname @ '':'' @ name) (forks m)) ms)"

text \<open>The body of the \<open>try\<close>, from the broker to the worker.\<close>

definition boot_steps :: "(('m, 'q, 'a) worker_scheme, 'o, 'm) worker_env \<Rightarrow> (('m, 'q, 'a) worker_scheme worker_process_state, unit) proc" where
  "boot_steps E =
     andthen (in_world (import_broker (we_python E) (we_broker E))) (\<lambda>_.
     andthen (in_world (emit_after (we_hooks E) After_process_boot)) (\<lambda>_.
     andthen (for_each (\<lambda>name. andthen (in_world (py_import_module (we_python E) name)) (\<lambda>_. return ())) (we_modules E)) (\<lambda>_.
     andthen (get_state (br_middleware \<circ> wp_world)) (\<lambda>middleware.
     andthen (in_canteen (canteen_try_init (we_lock E) (send_forks (fork_paths (we_forks E) middleware)))) (\<lambda>_.
     andthen (in_world (modify (init_worker (fst (we_prefetch E)) (snd (we_prefetch E)) (we_queues E) (we_threads E)))) (\<lambda>_.
       in_world (start (we_hooks E) (we_middleware E) (we_threads E))))))))"

definition boot_body :: "(('m, 'q, 'a) worker_scheme, 'o, 'm) worker_env \<Rightarrow> (('m, 'q, 'a) worker_scheme worker_process_state, unit) proc" where
  "boot_body E =
     andthen (modify (\<lambda>s. s\<lparr>wp_logger := True\<rparr>)) (\<lambda>_.
     andthen (for_each receive (we_booting E)) (\<lambda>_.
       boot_steps E))"

definition worker_boot :: "(('m, 'q, 'a) worker_scheme, 'o, 'm) worker_env \<Rightarrow> (('m, 'q, 'a) worker_scheme worker_process_state, unit) proc" where
  "worker_boot E =
     try_finally
       (try_except (boot_body E)
         (\<lambda>e. if isinstance e ImportError then sys_exit RET_IMPORT
              else if isinstance e BrokerConnectionError then sys_exit RET_CONNECT
              else raise e))
       (modify (\<lambda>s. s\<lparr>wp_event := True\<rparr>))"

text \<open>
  \<open>while running: time.sleep(1)\<close> handles the signals in their order until one of them stops it, and
  gives back those that come later; \<^const>\<open>None\<close> says that no signal stops it.
\<close>

fun serve :: "unix_signal list \<Rightarrow> 'w worker_process_state \<Rightarrow> ((exn + unix_signal list) \<times> 'w worker_process_state) option" where
  "serve sigs s =
     (if \<not> wp_running s then Some (Inr sigs, s)
      else
        (case sigs of
           [] \<Rightarrow> None
         | sig # sigs \<Rightarrow> (case receive sig s of (Inl e, s) \<Rightarrow> Some (Inl e, s) | (Inr _, s) \<Rightarrow> serve sigs s)))"

declare serve.simps [simp del]

text \<open>
  \<open>worker.stop\<close>, \<open>broker.close\<close> and the end of the logging pipe. A signal to terminate that comes
  meanwhile raises wherever the process is; \<open>we_interrupted\<close> is as far as it got.
\<close>

definition shut_down :: "(('m, 'q, 'a) worker_scheme, 'o, 'm) worker_env \<Rightarrow> unix_signal list
    \<Rightarrow> (('m, 'q, 'a) worker_scheme worker_process_state, unit) proc" where
  "shut_down E sigs =
     (if \<exists>sig \<in> set sigs. sig \<noteq> SIGINT then andthen (in_world (modify (we_interrupted E))) (\<lambda>_. termhandler)
      else
        andthen (in_world (stop (we_hooks E) (we_consumers E) (we_join E))) (\<lambda>_.
        andthen (in_world (we_close E)) (\<lambda>_.
          modify (\<lambda>s. s\<lparr>wp_pipe_open := False\<rparr>))))"

definition worker_process :: "(('m, 'q, 'a) worker_scheme, 'o, 'm) worker_env
    \<Rightarrow> ('m, 'q, 'a) worker_scheme worker_process_state \<Rightarrow> ((exn + unit) \<times> ('m, 'q, 'a) worker_scheme worker_process_state) option" where
  "worker_process E s =
     (case andthen (for_each receive (we_blocked E)) (\<lambda>_. worker_boot E) (s\<lparr>wp_running := True, wp_logger := False\<rparr>) of
        (Inl e, s) \<Rightarrow> Some (Inl e, s)
      | (Inr _, s) \<Rightarrow>
          (case serve (we_serving E) s of
             None \<Rightarrow> None
           | Some (Inl e, s) \<Rightarrow> Some (Inl e, s)
           | Some (Inr sigs, s) \<Rightarrow> Some (shut_down E sigs s)))"

section \<open>A forked function\<close>

text \<open>\<open>sys.exit(func())\<close> exits with the number returned, with 0 for \<open>None\<close> and with 1 for anything else.\<close>

definition exit_with :: "pyval \<Rightarrow> ('s, 'r) proc" where
  "exit_with v = (case v of PNone \<Rightarrow> sys_exit 0 | PInt n \<Rightarrow> sys_exit n | PBool b \<Rightarrow> sys_exit (if b then 1 else 0) | _ \<Rightarrow> sys_exit 1)"

text \<open>The handler of a forked function: the first signal to terminate ends it with success.\<close>

definition fork_termhandler :: "(bool, unit) proc" where
  "fork_termhandler =
     andthen (get_state id) (\<lambda>stopped.
       if stopped then sys_exit RET_KILLED else andthen (modify (\<lambda>_. True)) (\<lambda>_. sys_exit RET_OK))"

definition fork_receive :: "unix_signal \<Rightarrow> (bool, unit) proc" where
  "fork_receive sig = (case sig of SIGINT \<Rightarrow> return () | _ \<Rightarrow> fork_termhandler)"

text \<open>
  \<open>pending\<close> are the signals that were blocked in the parent and arrive when the handler is there, before
  the function is called. A path without a colon names no function.
\<close>

definition fork_process :: "('w, 'o) python \<Rightarrow> ('o \<Rightarrow> ('w, pyval) proc) \<Rightarrow> string \<Rightarrow> unix_signal list \<Rightarrow> ('w, unit) proc" where
  "fork_process P call path pending =
     andthen
       (try_except (andthen (import_object P path) (\<lambda>(_, func). return func))
         (\<lambda>e. if isinstance e ImportError then sys_exit RET_IMPORT else raise e))
       (\<lambda>func.
     andthen (\<lambda>s. (fst (for_each fork_receive pending False), s)) (\<lambda>_.
       case func of
         None \<Rightarrow> raise (mk_exn TypeError ''NoneType object is not callable'')
       | Some f \<Rightarrow> andthen (call f) exit_with))"

section \<open>Properties\<close>

text \<open>
  The event is set whatever becomes of the boot, and the exit status tells what went wrong: a missing
  module or variable is \<open>RET_IMPORT\<close>, a broker that cannot be reached is \<open>RET_CONNECT\<close>, everything else is
  what the exception itself says.
\<close>

theorem worker_boot_outcome:
  "wp_event (snd (worker_boot E s))
   \<and> process_status (fst (worker_boot E s)) =
       (case fst (boot_body E s) of
          Inr _ \<Rightarrow> RET_OK
        | Inl e \<Rightarrow> (if isinstance e ImportError then RET_IMPORT else if isinstance e BrokerConnectionError then RET_CONNECT
                   else process_status (Inl e)))"
  by (cases "boot_body E s"; cases "fst (boot_body E s)")
     (auto simp: worker_boot_def try_finally_def try_except_def modify_def sys_exit_def raise_def process_status_def ret_defs)

text \<open>How the handler reacts.\<close>

lemma filter_dropWhile: "dropWhile (\<lambda>x. \<not> P x) xs = y # ys \<Longrightarrow> filter P xs = y # filter P ys"
  by (induction xs) (auto split: if_splits)

lemma receive_SIGINT [simp]: "receive SIGINT s = (Inr (), s)"
  by (simp add: receive_def return_def)

lemma receive_first:
  "sig \<noteq> SIGINT \<Longrightarrow> wp_logger s \<Longrightarrow> receive sig s =
     (if wp_running s then (Inr (), s\<lparr>wp_running := False\<rparr>) else sys_exit RET_KILLED s)"
  by (cases sig) (simp_all add: receive_def termhandler_def andthen_get_state modify_def)

lemma receive_unbound: "sig \<noteq> SIGINT \<Longrightarrow> \<not> wp_logger s \<Longrightarrow> receive sig s = (Inl (mk_exn NameError ''logger''), s)"
  by (cases sig) (simp_all add: receive_def termhandler_def andthen_get_state raise_def)

lemma receive_ignored: "\<forall>sig \<in> set sigs. sig = SIGINT \<Longrightarrow> for_each receive sigs s = (Inr (), s)"
  by (induction sigs) (simp_all add: return_def andthen_Inr)

lemma receive_unbound_all:
  "\<exists>sig \<in> set sigs. sig \<noteq> SIGINT \<Longrightarrow> \<not> wp_logger s \<Longrightarrow> for_each receive sigs s = (Inl (mk_exn NameError ''logger''), s)"
proof (induction sigs)
  case (Cons sig sigs)
  then show ?case
    by (cases "sig = SIGINT") (simp_all add: andthen_Inr andthen_Inl receive_unbound)
qed simp

lemma serve_until:
  "wp_running s \<Longrightarrow> wp_logger s \<Longrightarrow>
   serve sigs s = (case dropWhile (\<lambda>sig. sig = SIGINT) sigs of [] \<Rightarrow> None | _ # rest \<Rightarrow> Some (Inr rest, s\<lparr>wp_running := False\<rparr>))"
proof (induction sigs)
  case (Cons sig sigs)
  show ?case
  proof (cases "sig = SIGINT")
    case True
    with Cons show ?thesis by (subst serve.simps) simp
  next
    case False
    have "serve (sig # sigs) s = serve sigs (s\<lparr>wp_running := False\<rparr>)"
      using False Cons.prems by (subst serve.simps) (simp add: receive_first)
    also have "\<dots> = Some (Inr sigs, s\<lparr>wp_running := False\<rparr>)"
      by (subst serve.simps) simp
    finally show ?thesis using False by simp
  qed
qed (simp add: serve.simps)

text \<open>Nothing but the signals touches the flags.\<close>

lemma keeps_in_world [intro]: "keeps (\<lambda>s. Q (wp_running s) (wp_logger s)) (in_world p)"
  by (rule keepsI) (auto simp: in_world_def split: prod.splits)

lemma keeps_in_canteen [intro]: "keeps (\<lambda>s. Q (wp_running s) (wp_logger s)) (in_canteen p)"
  by (rule keepsI) (auto simp: in_canteen_def split: prod.splits)

lemma boot_flags:
  assumes "worker_boot E s = (Inr (), t)" "\<forall>sig \<in> set (we_booting E). sig = SIGINT"
  shows "wp_running t = wp_running s \<and> wp_logger t"
proof -
  let ?Q = "\<lambda>r l. r = wp_running s \<and> l"
  let ?I = "\<lambda>x. ?Q (wp_running x) (wp_logger x)"
  let ?s = "s\<lparr>wp_logger := True\<rparr>"
  have "boot_body E s = boot_steps E ?s"
    using receive_ignored [OF assms(2), of ?s] by (simp add: boot_body_def andthen_modify andthen_Inr)
  moreover have "keeps ?I (boot_steps E)"
    unfolding boot_steps_def
    by (intro keeps_andthen keeps_for_each keeps_in_world [where Q = ?Q] keeps_in_canteen [where Q = ?Q] keeps_get_state keeps_return)
  ultimately have "?I (snd (boot_body E s))" using keepsD [of ?I "boot_steps E" ?s] by simp
  moreover have "t = snd (boot_body E s)\<lparr>wp_event := True\<rparr>"
    using assms(1) by (auto simp: worker_boot_def try_finally_def try_except_def modify_def sys_exit_def raise_def split: prod.splits sum.splits if_splits)
  ultimately show ?thesis by simp
qed

text \<open>
  C31. A worker that has booted goes on until it is told to stop: \<open>SIGINT\<close> does nothing; one \<open>SIGTERM\<close> or
  \<open>SIGHUP\<close> makes it stop the worker, close the broker and end with their outcome; a second one while it
  does so kills it.
\<close>

theorem worker_signals:
  assumes "worker_boot E (s\<lparr>wp_running := True, wp_logger := False\<rparr>) = (Inr (), t)"
    and "\<forall>sig \<in> set (we_blocked E) \<union> set (we_booting E). sig = SIGINT"
  shows "worker_process E s =
    (case filter (\<lambda>sig. sig \<noteq> SIGINT) (we_serving E) of
       [] \<Rightarrow> None
     | [_] \<Rightarrow> Some (andthen (in_world (stop (we_hooks E) (we_consumers E) (we_join E))) (\<lambda>_.
                     andthen (in_world (we_close E)) (\<lambda>_. modify (\<lambda>s. s\<lparr>wp_pipe_open := False\<rparr>))) (t\<lparr>wp_running := False\<rparr>))
     | _ \<Rightarrow> Some (sys_exit RET_KILLED (t\<lparr>wp_running := False, wp_world := we_interrupted E (wp_world t)\<rparr>)))"
proof -
  have boot: "worker_process E s = (case serve (we_serving E) t of
      None \<Rightarrow> None | Some (Inl e, s) \<Rightarrow> Some (Inl e, s) | Some (Inr sigs, s) \<Rightarrow> Some (shut_down E sigs s))"
    using assms by (simp add: worker_process_def receive_ignored andthen_Inr)
  have flags: "wp_running t" "wp_logger t" using boot_flags [OF assms(1)] assms(2) by auto
  show ?thesis
  proof (cases "dropWhile (\<lambda>sig. sig = SIGINT) (we_serving E)")
    case Nil
    then have "filter (\<lambda>sig. sig \<noteq> SIGINT) (we_serving E) = []" by (simp add: dropWhile_eq_Nil_conv filter_empty_conv)
    then show ?thesis using boot flags by (simp add: serve_until Nil)
  next
    case (Cons sig rest)
    then have f: "filter (\<lambda>sig. sig \<noteq> SIGINT) (we_serving E) = sig # filter (\<lambda>sig. sig \<noteq> SIGINT) rest"
      using filter_dropWhile [of "\<lambda>sig. sig \<noteq> SIGINT" "we_serving E" sig rest] by simp
    have e: "(\<exists>sig \<in> set rest. sig \<noteq> SIGINT) \<longleftrightarrow> filter (\<lambda>sig. sig \<noteq> SIGINT) rest \<noteq> []"
      by (auto simp: filter_empty_conv)
    have k: "andthen (in_world (modify (we_interrupted E))) (\<lambda>_. termhandler) (t\<lparr>wp_running := False\<rparr>)
        = sys_exit RET_KILLED (t\<lparr>wp_running := False, wp_world := we_interrupted E (wp_world t)\<rparr>)"
      using flags(2) by (simp add: andthen_def in_world_def modify_def termhandler_def get_state_def)
    show ?thesis
      using boot Cons f flags k e
      by (cases "filter (\<lambda>sig. sig \<noteq> SIGINT) rest") (simp_all add: serve_until shut_down_def)
  qed
qed

text \<open>
  A signal to terminate that reaches a worker process before it has a logger (one blocked by the parent
  and delivered by \<open>try_unblock_signals\<close>) ends it with a \<open>NameError\<close> before the \<open>try\<close> whose \<open>finally\<close>
  sets the event: nothing is booted, the event stays as it was and the exit status is 1.
\<close>

theorem early_signal_skips_event:
  assumes "sig \<in> set (we_blocked E)" "sig \<noteq> SIGINT"
  shows "\<exists>t. worker_process E s = Some (Inl (mk_exn NameError ''logger''), t) \<and> wp_event t = wp_event s \<and> wp_world t = wp_world s
    \<and> exn_status (mk_exn NameError ''logger'') = 1"
proof -
  let ?s = "s\<lparr>wp_running := True, wp_logger := False\<rparr>"
  have "for_each receive (we_blocked E) ?s = (Inl (mk_exn NameError ''logger''), ?s)"
    using receive_unbound_all [of "we_blocked E" ?s] assms by auto
  then show ?thesis by (simp add: worker_process_def andthen_Inl exn_status_def issubclass_code)
qed


text \<open>What a started worker consumes: all queues and delay queues of the broker that are whitelisted.\<close>

definition wanted :: "string list \<Rightarrow> string \<Rightarrow> bool" where
  "wanted whitelist name = (whitelist = [] \<or> q_name name \<in> set whitelist)"

definition new_thread :: "nat \<Rightarrow> consumer_thread" where
  "new_thread prefetch =
     \<lparr>ct_prefetch = prefetch, ct_consumer = None, ct_running = True, ct_paused = False, ct_paused_event = False,
      ct_delay_queue = pyqueue_empty\<rparr>"

lemma add_consumer_wanted:
  "add_consumer name delay s = (Inr (),
     if map_of (wk_consumers s) name = None \<and> wanted (wk_whitelist s) name
     then s\<lparr>wk_consumers := AList.update name (new_thread (if delay then wk_delay_prefetch s else wk_queue_prefetch s)) (wk_consumers s)\<rparr>
     else s)"
  by (auto simp: add_consumer_def Let_def wanted_def new_thread_def set_thread_def modify_def)

lemma add_consumers:
  "\<exists>t. for_each (\<lambda>name. add_consumer name delay) names s = (Inr (), t)
     \<and> (\<forall>n. map_of (wk_consumers t) n =
          (if map_of (wk_consumers s) n = None \<and> n \<in> set names \<and> wanted (wk_whitelist s) n
           then Some (new_thread (if delay then wk_delay_prefetch s else wk_queue_prefetch s)) else map_of (wk_consumers s) n))
     \<and> t = s\<lparr>wk_consumers := wk_consumers t\<rparr>"
proof (induction names arbitrary: s)
  case Nil
  show ?case by (simp add: return_def)
next
  case (Cons name names)
  let ?s = "snd (add_consumer name delay s)"
  obtain t where t: "for_each (\<lambda>name. add_consumer name delay) names ?s = (Inr (), t)"
    "\<forall>n. map_of (wk_consumers t) n =
          (if map_of (wk_consumers ?s) n = None \<and> n \<in> set names \<and> wanted (wk_whitelist ?s) n
           then Some (new_thread (if delay then wk_delay_prefetch ?s else wk_queue_prefetch ?s)) else map_of (wk_consumers ?s) n)"
    "t = ?s\<lparr>wk_consumers := wk_consumers t\<rparr>"
    using Cons.IH [of ?s] by blast
  have "for_each (\<lambda>name. add_consumer name delay) (name # names) s = (Inr (), t)"
    using t(1) by (simp add: andthen_def add_consumer_wanted)
  moreover have "t = s\<lparr>wk_consumers := wk_consumers t\<rparr>"
    by (subst t(3)) (simp add: add_consumer_wanted)
  moreover have "map_of (wk_consumers t) n =
      (if map_of (wk_consumers s) n = None \<and> n \<in> set (name # names) \<and> wanted (wk_whitelist s) n
       then Some (new_thread (if delay then wk_delay_prefetch s else wk_queue_prefetch s)) else map_of (wk_consumers s) n)" for n
    using t(2) by (auto simp: add_consumer_wanted)
  ultimately show ?case by blast
qed

text \<open>What the hooks of other middleware at the boot of a worker leave alone.\<close>

definition boot_view :: "('m, 'q, 'a) worker_scheme
    \<Rightarrow> string list \<times> string list \<times> string list \<times> consumer_thread dict \<times> nat \<times> nat" where
  "boot_view s = (map fst (br_queues s), br_delay_queues s, wk_whitelist s, wk_consumers s, wk_queue_prefetch s, wk_delay_prefetch s)"

definition boot_hooks :: "nat \<Rightarrow> hook set" where
  "boot_hooks threads = {Before_worker_boot, After_worker_boot} \<union> After_worker_thread_boot ` {..<threads}"

definition boots_quietly :: "('m, ('m, 'q, 'a) worker_scheme) mw_ops \<Rightarrow> nat \<Rightarrow> bool" where
  "boots_quietly M threads =
     (\<forall>m. \<forall>h \<in> boot_hooks threads. \<forall>v.
        sound (\<lambda>s. boot_view s = v) (\<lambda>e. isinstance e Exception \<and> \<not> isinstance e MiddlewareError) (mw_run M m h))"

lemma sound_returns:
  fixes m :: "('s, unit) proc"
  shows "sound I (\<lambda>_. False) m \<Longrightarrow> I s \<Longrightarrow> \<exists>t. m s = (Inr (), t) \<and> I t"
  by (cases "m s"; cases "fst (m s)") (auto simp: sound_def)

lemma quiet_emits:
  assumes "boots_quietly M threads" "h \<in> boot_hooks threads"
  obtains t u where "emit_before M h s = (Inr (), t)" "boot_view t = boot_view s" "emit_after M h s = (Inr (), u)" "boot_view u = boot_view s"
proof -
  let ?P = "\<lambda>e. isinstance e Exception \<and> \<not> isinstance e MiddlewareError"
  have h: "\<And>m. m \<in> UNIV \<Longrightarrow> sound (\<lambda>x. boot_view x = boot_view s) ?P (mw_run M m h)"
    using assms unfolding boots_quietly_def by blast
  have b: "sound (\<lambda>x. boot_view x = boot_view s) (\<lambda>_. False) (emit_before M h)"
    by (rule sound_mono [OF emit_sound(1) [where A = UNIV, OF h]]) auto
  have a: "sound (\<lambda>x. boot_view x = boot_view s) (\<lambda>_. False) (emit_after M h)"
    by (rule sound_mono [OF emit_sound(2) [where A = UNIV, OF h]]) auto
  show thesis using sound_returns [OF b, of s] sound_returns [OF a, of s] that by auto
qed

lemma quiet_threads:
  assumes "boots_quietly M threads" "set is \<subseteq> {..<threads}"
  shows "\<exists>t. for_each (add_worker M) is s = (Inr (), t) \<and> boot_view t = boot_view s"
  using assms(2)
proof (induction "is" arbitrary: s)
  case Nil
  show ?case by (simp add: return_def)
next
  case (Cons i js)
  then have "After_worker_thread_boot i \<in> boot_hooks threads" by (simp add: boot_hooks_def)
  then obtain u where u: "emit_after M (After_worker_thread_boot i) s = (Inr (), u)" "boot_view u = boot_view s"
    using quiet_emits [OF assms(1)] by blast
  moreover obtain t where "for_each (add_worker M) js u = (Inr (), t)" "boot_view t = boot_view u"
    using Cons.IH [of u] Cons.prems by auto
  moreover have "add_worker M i s = (Inr (), u)" using u(1) by (simp add: add_worker_def)
  ultimately show ?case using u(2) by (simp add: andthen_Inr)
qed

text \<open>Adding \<open>_WorkerMiddleware\<close> makes the consumers for what has been declared before.\<close>

lemma add_worker_middleware:
  assumes "mw_run M wm = WorkerMiddleware" "wk_consumers s = []"
  shows "\<exists>t. add_middleware M wm None None s = (Inr (), t) \<and> (\<forall>name. map_of (wk_consumers t) name =
      (if \<not> wanted (wk_whitelist s) name then None
       else if name \<in> fst ` set (br_queues s) then Some (new_thread (wk_queue_prefetch s))
       else if name \<in> set (br_delay_queues s) then Some (new_thread (wk_delay_prefetch s)) else None))"
proof -
  let ?s = "s\<lparr>br_middleware := br_middleware s @ [wm], br_actor_options := br_actor_options s \<union> mw_actor_options M wm\<rparr>"
  have a: "for_each (\<lambda>actor. mw_run M wm (After_declare_actor actor)) actors x = (Inr (), x)" for actors and x :: "('a, 'b, 'c) worker_scheme"
    by (induction actors) (simp_all add: return_def assms(1) WorkerMiddleware_def andthen_def)
  obtain t where t: "for_each (\<lambda>name. add_consumer name False) (map fst (br_queues s)) ?s = (Inr (), t)"
      "\<forall>n. map_of (wk_consumers t) n = (if n \<in> fst ` set (br_queues s) \<and> wanted (wk_whitelist s) n
           then Some (new_thread (wk_queue_prefetch s)) else None)"
      "t = ?s\<lparr>wk_consumers := wk_consumers t\<rparr>"
    using add_consumers [of False "map fst (br_queues s)" ?s] assms(2) by (auto simp del: for_each.simps)
  have v: "br_delay_queues t = br_delay_queues s" "wk_whitelist t = wk_whitelist s" "wk_delay_prefetch t = wk_delay_prefetch s"
    using arg_cong [OF t(3), of br_delay_queues] arg_cong [OF t(3), of wk_whitelist] arg_cong [OF t(3), of wk_delay_prefetch] by simp_all
  obtain u where u: "for_each (\<lambda>name. add_consumer name True) (br_delay_queues s) t = (Inr (), u)"
      "\<forall>n. map_of (wk_consumers u) n = (if map_of (wk_consumers t) n = None \<and> n \<in> set (br_delay_queues s) \<and> wanted (wk_whitelist s) n
           then Some (new_thread (wk_delay_prefetch s)) else map_of (wk_consumers t) n)"
    using add_consumers [of True "br_delay_queues s" t] v by auto
  have "add_middleware M wm None None s = (Inr (), u)"
    using t(1) u(1) v(1)
    by (simp add: add_middleware_def andthen_def get_state_def modify_def return_def a) (simp add: assms(1) WorkerMiddleware_def)
  then show ?thesis using u(2) t(2) by auto
qed

lemma start_runs:
  assumes "boots_quietly M threads" "mw_run M wm = WorkerMiddleware" "wk_consumers s = []"
  obtains a b t where "boot_view a = boot_view s" "add_middleware M wm None None a = (Inr (), b)"
    "start M wm threads s = (Inr (), t)" "wk_consumers t = wk_consumers b"
proof -
  have h: "Before_worker_boot \<in> boot_hooks threads" "After_worker_boot \<in> boot_hooks threads" by (simp_all add: boot_hooks_def)
  obtain a where a: "emit_before M Before_worker_boot s = (Inr (), a)" "boot_view a = boot_view s"
    using quiet_emits [OF assms(1) h(1)] by blast
  moreover have "wk_consumers a = []" using a(2) assms(3) by (simp add: boot_view_def)
  then obtain b where b: "add_middleware M wm None None a = (Inr (), b)"
    using add_worker_middleware [OF assms(2)] by blast
  obtain c where c: "for_each (add_worker M) [0..<threads] b = (Inr (), c)" "boot_view c = boot_view b"
    using quiet_threads [OF assms(1), of "[0..<threads]" b] by (auto simp: atLeast0LessThan)
  obtain t where t: "emit_after M After_worker_boot c = (Inr (), t)" "boot_view t = boot_view c"
    using quiet_emits [OF assms(1) h(2)] by blast
  have "start M wm threads s = (Inr (), t)"
    using a b c t by (simp add: start_def andthen_def)
  moreover have "wk_consumers t = wk_consumers b" using c(2) t(2) by (simp add: boot_view_def)
  ultimately show thesis using that a(2) b by blast
qed

text \<open>
  C32. A worker that is made and started consumes exactly what it should: each queue and each delay queue declared
  on the broker has one running consumer, or only those whose queue the command line names, if it names any, and
  there is no other consumer. The consumer of a queue prefetches as many messages as \<open>dramatiq_queue_prefetch\<close> says,
  or twice the number of threads when that is not set (or 0); that of a delay queue as \<open>dramatiq_delay_queue_prefetch\<close> says, or
  a thousand times the number of threads; both at most 65535 when not set. A delay queue that is also
  among the broker's queues, as in the in-memory broker, counts as a queue. The hooks of other middleware at
  boot do not declare anything.
\<close>

theorem started_worker_consumes:
  assumes "boots_quietly M threads" "mw_run M wm = WorkerMiddleware"
    and prefetch: "queue_prefetch = (if configured = 0 then min (2 * threads) 65535 else configured)"
      "delay_prefetch = (if delay_configured = 0 then min (1000 * threads) 65535 else delay_configured)"
    and running: "running = (\<lambda>n. \<lparr>ct_prefetch = n, ct_consumer = None, ct_running = True, ct_paused = False,
        ct_paused_event = False, ct_delay_queue = pyqueue_empty\<rparr>)"
  shows "\<exists>t. start M wm threads (init_worker configured delay_configured whitelist threads s) = (Inr (), t)
    \<and> (\<forall>name. map_of (wk_consumers t) name =
      (if whitelist \<noteq> [] \<and> q_name name \<notin> set whitelist then None
       else if name \<in> fst ` set (br_queues s) then Some (running queue_prefetch)
       else if name \<in> set (br_delay_queues s) then Some (running delay_prefetch) else None))"
proof -
  let ?s = "init_worker configured delay_configured whitelist threads s"
  have i: "br_queues ?s = br_queues s" "br_delay_queues ?s = br_delay_queues s" "wk_whitelist ?s = whitelist" "wk_consumers ?s = []"
    "wk_queue_prefetch ?s = queue_prefetch" "wk_delay_prefetch ?s = delay_prefetch"
    by (simp_all add: init_worker_def default_prefetch_def prefetch mult.commute)
  obtain a b t where r: "boot_view a = boot_view ?s" "add_middleware M wm None None a = (Inr (), b)"
      "start M wm threads ?s = (Inr (), t)" "wk_consumers t = wk_consumers b"
    using start_runs [OF assms(1,2) i(4)] by blast
  then have v: "fst ` set (br_queues a) = fst ` set (br_queues s)" "br_delay_queues a = br_delay_queues s"
      "wk_whitelist a = whitelist" "wk_consumers a = []" "wk_queue_prefetch a = queue_prefetch"
      "wk_delay_prefetch a = delay_prefetch"
    using i by (simp_all add: boot_view_def flip: set_map)
  have run: "running = new_thread" by (simp add: running new_thread_def fun_eq_iff)
  show ?thesis using add_worker_middleware [OF assms(2) v(4)] r unfolding v run by (auto simp: wanted_def)
qed

section \<open>A small worker process\<close>

definition quiet_mw :: "(string, (string, unit) worker) mw_ops" where
  "quiet_mw = \<lparr>mw_isinstance = \<lambda>m c. m = c, mw_actor_options = \<lambda>_. {},
     mw_run = \<lambda>m. if m = ''worker'' then WorkerMiddleware else (\<lambda>_. return ())\<rparr>"

lemma quiet_mw_boots: "boots_quietly quiet_mw n"
proof -
  have "mw_run quiet_mw m h = return ()" if "h \<in> boot_hooks n" for m h
    using that by (auto simp: quiet_mw_def WorkerMiddleware_def boot_hooks_def)
  then show ?thesis by (simp add: boots_quietly_def del: split_paired_All)
qed

definition declared :: "(string, unit) worker" where
  "declared = \<lparr>br_actors = [], br_queues = [(''mail'', ()), (''other'', ())], br_delay_queues = [''mail.DQ''], br_actor_options = {},
     br_middleware = [], br_proxies = \<lambda>_. MessageProxy blank_message, br_clock = 0, wk_consumers = [], wk_whitelist = [''mail''],
     wk_work_queue = pyqueue_empty, wk_time = 0, wk_queue_prefetch = 16, wk_delay_prefetch = 8000\<rparr>"

theorem started_worker_consumes_witness:
  "\<exists>t. start quiet_mw ''worker'' 8 (init_worker 0 0 [''mail''] 8 declared) = (Inr (), t)
    \<and> map_option ct_prefetch (map_of (wk_consumers t) ''mail'') = Some 16
    \<and> map_option ct_prefetch (map_of (wk_consumers t) ''mail.DQ'') = Some 8000 \<and> map_of (wk_consumers t) ''other'' = None"
proof -
  have m: "mw_run quiet_mw ''worker'' = WorkerMiddleware" by (simp add: quiet_mw_def)
  have w: "q_name ''mail'' = ''mail''" "q_name ''mail.DQ'' = ''mail''" "q_name ''other'' = ''other''"
    by code_simp+
  show ?thesis
    using started_worker_consumes [OF quiet_mw_boots m refl refl refl, of 8 0 0 "[''mail'']" declared] w by (auto simp: declared_def)
qed

definition no_consumers :: "(string, unit) worker consumer_ops" where
  "no_consumers = \<lparr>co_consume = \<lambda>_ _. return 0, co_next = \<lambda>_. return None, co_ack = \<lambda>_ _. return (), co_nack = \<lambda>_ _. return (),
     co_requeue = \<lambda>_ _. return (), co_requeue_reads = False, co_close = \<lambda>_. return (), co_enqueue = \<lambda>m _. return m, co_sleep = \<lambda>_ s. s\<rparr>"

definition small_env :: "unix_signal list \<Rightarrow> unix_signal list \<Rightarrow> ((string, unit) worker, thing, string) worker_env" where
  "small_env blocked serving = \<lparr>we_broker = ''app:b'', we_modules = [], we_queues = [''mail''], we_threads = 2, we_prefetch = (0, 0),
     we_python = \<lparr>py_import_module = \<lambda>_. return Module, py_getattr = \<lambda>_ _. return A_Broker, py_is_none = \<lambda>_. False,
       py_callable = \<lambda>_. False, py_call = \<lambda>_. return Module, py_is_broker = \<lambda>x. x = A_Broker, py_get_broker = return A_Broker\<rparr>,
     we_hooks = quiet_mw, we_middleware = ''worker'', we_forks = \<lambda>_. [], we_lock = id, we_consumers = no_consumers, we_join = return (),
     we_close = return (), we_interrupted = id, we_blocked = blocked, we_booting = [], we_serving = serving\<rparr>"

definition small_process :: "(string, unit) worker worker_process_state" where
  "small_process = \<lparr>wp_world = declared, wp_canteen = new_canteen, wp_event = False, wp_running = True, wp_logger = False, wp_pipe_open = True\<rparr>"

theorem early_signal_skips_event_witness:
  "\<exists>t. worker_process (small_env [SIGTERM] []) small_process = Some (Inl (mk_exn NameError ''logger''), t) \<and> \<not> wp_event t"
  using early_signal_skips_event [of SIGTERM "small_env [SIGTERM] []" small_process] by (auto simp: small_env_def small_process_def)

text \<open>It boots.\<close>

lemma small_boots: "\<exists>t. worker_boot (small_env blocked serving) (small_process\<lparr>wp_running := True, wp_logger := False\<rparr>) = (Inr (), t)"
proof -
  let ?E = "small_env blocked serving" and ?i = "init_worker 0 0 [''mail''] 2 declared"
  have m: "mw_run quiet_mw ''worker'' = WorkerMiddleware" by (simp add: quiet_mw_def)
  obtain w where w: "start quiet_mw ''worker'' 2 ?i = (Inr (), w)"
    using start_runs [OF quiet_mw_boots m, of ?i 2] by (auto simp: init_worker_def)
  have i: "import_broker (we_python ?E) (we_broker ?E) x = (Inr (Module, A_Broker), x)" for x
    by (simp add: import_broker_def import_object_def split_once_def small_env_def proc_simps)
  have e: "emit_after quiet_mw After_process_boot declared = (Inr (), declared)"
    by (simp add: emit_after_def declared_def return_def)
  have "\<exists>t. boot_body ?E (small_process\<lparr>wp_running := True, wp_logger := False\<rparr>) = (Inr (), t)"
    using w i e
    by (simp add: boot_body_def boot_steps_def andthen_def in_world_def in_canteen_def modify_def get_state_def small_process_def
        small_env_def canteen_try_init_def send_forks_def fork_paths_def return_def declared_def new_canteen_def)
  then show ?thesis by (auto simp: worker_boot_def try_finally_def try_except_def modify_def)
qed

theorem worker_signals_witness:
  "\<exists>t. worker_process (small_env [] [SIGINT, SIGTERM, SIGHUP]) small_process = Some (sys_exit RET_KILLED t)
    \<and> worker_process (small_env [] [SIGINT]) small_process = None"
proof -
  obtain t where t: "worker_boot (small_env [] [SIGINT, SIGTERM, SIGHUP]) (small_process\<lparr>wp_running := True, wp_logger := False\<rparr>) = (Inr (), t)"
    using small_boots by blast
  obtain u where u: "worker_boot (small_env [] [SIGINT]) (small_process\<lparr>wp_running := True, wp_logger := False\<rparr>) = (Inr (), u)"
    using small_boots by blast
  show ?thesis using worker_signals [OF t] worker_signals [OF u] by (auto simp: small_env_def)
qed

end
