(* ===== verification/Main_Process.thy ===== *)
theory Main_Process
  imports Worker_Process
begin

text \<open>
  The main process of \<^verbatim>\<open>dramatiq/cli.py\<close>: it takes the PID file, starts the worker processes and, once they
  have booted, the forked functions, passes signals on, and waits for its workers. What the other processes
  and the system do at the same time is a schedule: each element is what happens up to the next point at
  which the main process looks (a wait, a test of an exit code or of a flag).
\<close>

section \<open>State\<close>

text \<open>A child process: its exit code, once there is one, and the signals sent to it.\<close>

record process =
  pr_exitcode :: "int option"
  pr_signals :: "unix_signal list"

definition new_process :: process where
  "new_process = \<lparr>pr_exitcode = None, pr_signals = []\<rparr>"

datatype happening =
    Worker_Exits nat int | Fork_Exits nat int | Worker_Boots nat | Signalled unix_signal

record main_process =
  mp_os :: os
  mp_workers :: "process list"
  mp_events :: "bool list"
  mp_forks :: "process list"
  mp_fork_paths :: "string list"
  mp_running :: bool
  mp_reload :: bool
  mp_retcode :: int
  mp_blocked :: bool
  mp_pending :: "unix_signal list"
  mp_schedule :: "happening list list"

section \<open>Signals\<close>

text \<open>\<open>os.kill(proc.pid, signum)\<close>: a process that has ended gets nothing, and the error is caught.\<close>

definition send_signal :: "unix_signal \<Rightarrow> process \<Rightarrow> process" where
  "send_signal sig p = (if pr_exitcode p = None then p\<lparr>pr_signals := pr_signals p @ [sig]\<rparr> else p)"

definition stop_subprocesses :: "unix_signal \<Rightarrow> main_process \<Rightarrow> main_process" where
  "stop_subprocesses sig m =
     m\<lparr>mp_running := False, mp_workers := map (send_signal sig) (mp_workers m), mp_forks := map (send_signal sig) (mp_forks m)\<rparr>"

definition sighandler :: "unix_signal \<Rightarrow> main_process \<Rightarrow> main_process" where
  "sighandler sig m =
     stop_subprocesses (if sig = SIGINT then SIGTERM else sig) (m\<lparr>mp_reload := (sig = SIGHUP)\<rparr>)"

definition exit_process :: "int \<Rightarrow> process \<Rightarrow> process" where
  "exit_process code p = (if pr_exitcode p = None then p\<lparr>pr_exitcode := Some code\<rparr> else p)"

text \<open>A signal is handled at once, or kept while signals are blocked, each at most once.\<close>

fun happen :: "happening \<Rightarrow> main_process \<Rightarrow> main_process" where
  "happen (Worker_Exits i code) m =
     m\<lparr>mp_workers := (if i < length (mp_workers m) then (mp_workers m)[i := exit_process code (mp_workers m ! i)] else mp_workers m)\<rparr>"
| "happen (Fork_Exits i code) m =
     m\<lparr>mp_forks := (if i < length (mp_forks m) then (mp_forks m)[i := exit_process code (mp_forks m ! i)] else mp_forks m)\<rparr>"
| "happen (Worker_Boots i) m =
     m\<lparr>mp_events := (if i < length (mp_events m) then (mp_events m)[i := True] else mp_events m)\<rparr>"
| "happen (Signalled sig) m =
     (if mp_blocked m then m\<lparr>mp_pending := (if sig \<in> set (mp_pending m) then mp_pending m else mp_pending m @ [sig])\<rparr>
      else sighandler sig m)"

text \<open>What happens until the main process looks again.\<close>

definition meanwhile :: "main_process \<Rightarrow> main_process" where
  "meanwhile m =
     (case mp_schedule m of
        [] \<Rightarrow> m
      | hs # rest \<Rightarrow> fold happen hs (m\<lparr>mp_schedule := rest\<rparr>))"

definition try_block_signals :: "main_process \<Rightarrow> main_process" where
  "try_block_signals m = m\<lparr>mp_blocked := True\<rparr>"

text \<open>Python runs the handlers of pending signals in the order of their numbers.\<close>

definition try_unblock_signals :: "main_process \<Rightarrow> main_process" where
  "try_unblock_signals m =
     fold sighandler (filter (\<lambda>sig. sig \<in> set (mp_pending m)) [SIGHUP, SIGINT, SIGTERM])
       (m\<lparr>mp_blocked := False, mp_pending := []\<rparr>)"

section \<open>Starting processes\<close>

text \<open>One worker process more, with its event.\<close>

definition start_worker :: "main_process \<Rightarrow> main_process" where
  "start_worker m = meanwhile (m\<lparr>mp_workers := mp_workers m @ [new_process], mp_events := mp_events m @ [False]\<rparr>)"

definition start_workers :: "nat \<Rightarrow> main_process \<Rightarrow> main_process" where
  "start_workers n m = (start_worker ^^ n) m"

text \<open>
  Waiting for the events in their order. The test is \<open>proc.is_alive()\<close>, and \<open>proc\<close> is the variable of the
  loop before: the process that was started last. A wait that times out ends the loop.
\<close>

fun wait_booted :: "nat list \<Rightarrow> main_process \<Rightarrow> main_process" where
  "wait_booted [] m = m"
| "wait_booted (i # is) m =
     (let m = meanwhile m
      in if pr_exitcode (last (mp_workers m)) = None
         then (let m = meanwhile m in if mp_events m ! i then wait_booted is m else m)
         else wait_booted is m)"

definition start_fork :: "string \<Rightarrow> main_process \<Rightarrow> main_process" where
  "start_fork path m = meanwhile (m\<lparr>mp_forks := mp_forks m @ [new_process], mp_fork_paths := mp_fork_paths m @ [path]\<rparr>)"

definition start_forks :: "string list \<Rightarrow> main_process \<Rightarrow> main_process" where
  "start_forks paths m = fold start_fork paths m"

section \<open>Waiting for the workers\<close>

text \<open>
  One pass over the workers: \<open>proc.join(timeout=1)\<close>, then the test of the exit code. A worker that has ended
  while none was told to makes all the others stop, and the pass ends there.
\<close>

fun join_workers :: "nat list \<Rightarrow> main_process \<Rightarrow> main_process" where
  "join_workers [] m = m"
| "join_workers (i # is) m =
     (let m = meanwhile m
      in case pr_exitcode (mp_workers m ! i) of
           None \<Rightarrow> join_workers is m
         | Some code \<Rightarrow>
             (let m = meanwhile m
              in if mp_running m then (stop_subprocesses SIGTERM m)\<lparr>mp_retcode := code\<rparr>
                 else join_workers is (m\<lparr>mp_retcode := (if mp_retcode m \<noteq> 0 then mp_retcode m else code)\<rparr>)))"

text \<open>\<open>any(p.exitcode is None for p in worker_processes)\<close>: each exit code is read when its turn comes.\<close>

fun any_alive :: "nat list \<Rightarrow> main_process \<Rightarrow> bool \<times> main_process" where
  "any_alive [] m = (False, m)"
| "any_alive (i # is) m =
     (let m = meanwhile m in if pr_exitcode (mp_workers m ! i) = None then (True, m) else any_alive is m)"

text \<open>The loop: a first pass, and another one while a worker is alive. \<^const>\<open>None\<close> is out of fuel.\<close>

fun supervise :: "nat \<Rightarrow> main_process \<Rightarrow> main_process option" where
  "supervise 0 m = None"
| "supervise (Suc fuel) m =
     (let m = join_workers [0..<length (mp_workers m)] m
      in case any_alive [0..<length (mp_workers m)] m of
           (True, m) \<Rightarrow> supervise fuel m
         | (False, m) \<Rightarrow> Some m)"

section \<open>The whole\<close>

text \<open>
  The command line as far as \<open>main\<close> reads it. \<open>ma_watchable\<close> says whether the platform has \<open>SIGHUP\<close> and
  watchdog is installed.
\<close>

record main_args =
  ma_processes :: nat
  ma_pid_file :: "string option"
  ma_forks :: "string list"
  ma_watch :: bool
  ma_watchable :: bool

datatype main_result = Exit_Status int | Execs | Raises exn

text \<open>\<open>if args.pid_file\<close>: an empty name is no name.\<close>

definition pid_file :: "main_args \<Rightarrow> string option" where
  "pid_file A = (case ma_pid_file A of Some (c # f) \<Rightarrow> Some (c # f) | _ \<Rightarrow> None)"

text \<open>
  Everything up to the start of the first process. \<^term>\<open>Inl r\<close> says that \<open>main\<close> ends here: for a
  \<open>RuntimeError\<close> with a return code, for any other exception with that.
\<close>

definition main_checks :: "main_args \<Rightarrow> os \<Rightarrow> (main_result + unit) \<times> os" where
  "main_checks A s =
     (case (case pid_file A of None \<Rightarrow> (Inr 0, s) | Some f \<Rightarrow> setup_pidfile f s) of
        (Inl e, s) \<Rightarrow> (Inl (if isinstance e RuntimeError then Exit_Status RET_PIDFILE else Raises e), s)
      | (Inr _, s) \<Rightarrow>
          (if ma_watch A \<and> \<not> ma_watchable A then (Inl (Exit_Status RET_IMPORT), s) else (Inr (), s)))"

definition new_main :: "os \<Rightarrow> happening list list \<Rightarrow> main_process" where
  "new_main s schedule =
     \<lparr>mp_os = s, mp_workers = [], mp_events = [], mp_forks = [], mp_fork_paths = [], mp_running = True, mp_reload = False,
      mp_retcode = RET_OK, mp_blocked = False, mp_pending = [], mp_schedule = schedule\<rparr>"

text \<open>Starting, with the forks that the workers left in the canteen after those of the command line.\<close>

definition start_all :: "main_args \<Rightarrow> string list \<Rightarrow> main_process \<Rightarrow> main_process" where
  "start_all A shared m =
     (let m = start_workers (ma_processes A) (try_block_signals m);
          m = wait_booted [0..<ma_processes A] m;
          m = start_forks (ma_forks A @ shared) m
      in try_unblock_signals m)"

text \<open>\<open>RET_KILLED if retcode < 0 else retcode\<close>; to reload, the process image is replaced, so that no exit handler runs.\<close>

definition main_status :: "int \<Rightarrow> int" where
  "main_status retcode = (if retcode < 0 then RET_KILLED else retcode)"

definition main_end :: "main_args \<Rightarrow> main_process \<Rightarrow> main_result \<times> main_process" where
  "main_end A m =
     (if mp_reload m then (Execs, m)
      else
        (case pid_file A of
           None \<Rightarrow> (Exit_Status (main_status (mp_retcode m)), m)
         | Some f \<Rightarrow> (Exit_Status (main_status (mp_retcode m)), m\<lparr>mp_os := snd (remove_pidfile f (mp_os m))\<rparr>)))"

text \<open>
  \<open>main\<close>. The canteen and the clock are those at the time of \<open>canteen_get\<close>, whose timeout is one second; an
  exception there escapes.
\<close>

definition main ::
  "nat \<Rightarrow> main_args \<Rightarrow> (canteen \<times> int \<Rightarrow> canteen \<times> int) \<Rightarrow> canteen \<times> int \<Rightarrow> happening list list \<Rightarrow> os
   \<Rightarrow> (main_result \<times> main_process) option" where
  "main fuel A nap shared schedule s =
     (case main_checks A s of
        (Inl r, s) \<Rightarrow> Some (r, new_main s schedule)
      | (Inr _, s) \<Rightarrow>
          (case canteen_get fuel nap 1000 shared of
             None \<Rightarrow> None
           | Some (Inl e, _) \<Rightarrow>
               Some (Raises e, wait_booted [0..<ma_processes A] (start_workers (ma_processes A) (try_block_signals (new_main s schedule))))
           | Some (Inr paths, _) \<Rightarrow> map_option (main_end A) (supervise fuel (start_all A paths (new_main s schedule)))))"

section \<open>What only grows\<close>

text \<open>Exit codes stay, signals are added, and what has been stopped does not run again.\<close>

definition process_grows :: "process \<Rightarrow> process \<Rightarrow> bool" where
  "process_grows p q = ((pr_exitcode p \<noteq> None \<longrightarrow> pr_exitcode q = pr_exitcode p) \<and> prefix (pr_signals p) (pr_signals q))"

definition later :: "main_process \<Rightarrow> main_process \<Rightarrow> bool" where
  "later m n = (list_all2 process_grows (mp_workers m) (mp_workers n) \<and> list_all2 process_grows (mp_forks m) (mp_forks n)
     \<and> (mp_running n \<longrightarrow> mp_running m))"

text \<open>Once stopped, every process that is alive has been sent a signal.\<close>

definition heard :: "process \<Rightarrow> bool" where
  "heard p = (pr_exitcode p = None \<longrightarrow> pr_signals p \<noteq> [])"

definition told :: "main_process \<Rightarrow> bool" where
  "told m = (\<not> mp_running m \<longrightarrow> (\<forall>p \<in> set (mp_workers m). heard p) \<and> (\<forall>p \<in> set (mp_forks m). heard p))"

text \<open>A return code other than 0 is the exit code of a worker.\<close>

definition explained :: "main_process \<Rightarrow> bool" where
  "explained m = (mp_retcode m \<noteq> 0 \<longrightarrow> (\<exists>p \<in> set (mp_workers m). pr_exitcode p = Some (mp_retcode m)))"

lemma process_grows_refl [simp]: "process_grows p p"
  by (simp add: process_grows_def)

lemma process_grows_trans: "process_grows p q \<Longrightarrow> process_grows q r \<Longrightarrow> process_grows p r"
  by (auto simp: process_grows_def)

lemma grows_refl [simp]: "list_all2 process_grows ps ps"
  by (simp add: list_all2_refl)

lemma later_refl [simp]: "later m m"
  by (simp add: later_def)

lemma later_trans: "later m n \<Longrightarrow> later n l \<Longrightarrow> later m l"
  by (auto simp: later_def intro: list_all2_trans [OF process_grows_trans])

lemma process_grows_send [simp]: "process_grows p (send_signal sig p)"
  by (simp add: process_grows_def send_signal_def)

lemma process_grows_exit [simp]: "process_grows p (exit_process code p)"
  by (simp add: process_grows_def exit_process_def)

lemma grows_map_send [simp]: "list_all2 process_grows ps (map (send_signal sig) ps)"
  by (simp add: list_all2_map2 list_all2_refl)

lemma grows_exit [simp]: "i < length ps \<Longrightarrow> list_all2 process_grows ps (ps[i := exit_process code (ps ! i)])"
  using list_all2_update_cong [of process_grows ps ps "ps ! i" "exit_process code (ps ! i)" i] by simp

lemma told_stop [simp]: "told (stop_subprocesses sig m)"
  by (auto simp: told_def stop_subprocesses_def send_signal_def heard_def)

text \<open>All three, for every step of the main process.\<close>

definition sound_step :: "main_process \<Rightarrow> main_process \<Rightarrow> bool" where
  "sound_step m n = (later m n \<and> (told m \<longrightarrow> told n) \<and> (explained m \<longrightarrow> explained n) \<and> length (mp_schedule n) \<le> length (mp_schedule m)
     \<and> mp_os n = mp_os m)"

lemma sound_step_refl [simp]: "sound_step m m"
  by (simp add: sound_step_def)

lemma sound_step_trans [trans]: "sound_step m n \<Longrightarrow> sound_step n l \<Longrightarrow> sound_step m l"
  by (auto simp: sound_step_def intro: later_trans)

lemma stays_explained:
  assumes "explained m" "list_all2 process_grows (mp_workers m) (mp_workers n)" "mp_retcode n = mp_retcode m"
  shows "explained n"
proof (unfold explained_def, intro impI)
  assume "mp_retcode n \<noteq> 0"
  then obtain i where i: "i < length (mp_workers m)" "pr_exitcode (mp_workers m ! i) = Some (mp_retcode m)"
    using assms(1,3) by (auto simp: explained_def in_set_conv_nth)
  then have "pr_exitcode (mp_workers n ! i) = Some (mp_retcode n)" "i < length (mp_workers n)"
    using list_all2_nthD [OF assms(2) i(1)] list_all2_lengthD [OF assms(2)] assms(3) by (auto simp: process_grows_def)
  then show "\<exists>p \<in> set (mp_workers n). pr_exitcode p = Some (mp_retcode n)" by (metis nth_mem)
qed

lemma sound_stop: "sound_step m (stop_subprocesses sig m)"
  by (auto simp: sound_step_def later_def intro: stays_explained) (simp_all add: stop_subprocesses_def stays_explained)

lemma sound_sighandler: "sound_step m (sighandler sig m)"
proof -
  have "sound_step m (m\<lparr>mp_reload := r\<rparr>)" for r
    by (simp add: sound_step_def later_def told_def explained_def)
  then show ?thesis unfolding sighandler_def by (rule sound_step_trans) (rule sound_stop)
qed

lemma heard_exit [simp]: "heard (exit_process code p)"
  by (auto simp: heard_def exit_process_def)

lemma told_exit:
  "told m \<Longrightarrow> told (m\<lparr>mp_workers := (mp_workers m)[i := exit_process code (mp_workers m ! i)]\<rparr>)"
  "told m \<Longrightarrow> told (m\<lparr>mp_forks := (mp_forks m)[i := exit_process code (mp_forks m ! i)]\<rparr>)"
  using set_update_subset_insert [of "mp_workers m" i] set_update_subset_insert [of "mp_forks m" i]
  by (fastforce simp: told_def)+

lemma sound_happen: "sound_step m (happen h m)"
proof (cases h)
  case (Worker_Exits i code)
  then show ?thesis
    by (auto simp: sound_step_def later_def intro: stays_explained told_exit)
next
  case (Fork_Exits i code)
  then show ?thesis
    by (auto simp: sound_step_def later_def intro: stays_explained told_exit)
next
  case (Worker_Boots i)
  then show ?thesis by (simp add: sound_step_def later_def told_def explained_def)
next
  case (Signalled sig)
  then show ?thesis
    by (auto simp: sound_sighandler) (simp_all add: sound_step_def later_def told_def explained_def)
qed

lemma sound_fold_happen: "sound_step m (fold happen hs m)"
proof (induction hs arbitrary: m)
  case (Cons h hs)
  then show ?case using sound_step_trans [OF sound_happen [of m h] Cons.IH] by simp
qed simp

lemma schedule_happen: "mp_schedule (fold happen hs m) = mp_schedule m"
proof (induction hs arbitrary: m)
  case (Cons h hs)
  have "mp_schedule (happen h m) = mp_schedule m"
    by (cases h) (simp_all add: sighandler_def stop_subprocesses_def)
  with Cons show ?case by simp
qed simp

lemma schedule_meanwhile [simp]: "mp_schedule (meanwhile m) = tl (mp_schedule m)"
  by (simp add: meanwhile_def schedule_happen split: list.split)

lemma sound_meanwhile: "sound_step m (meanwhile m)"
proof (cases "mp_schedule m")
  case (Cons hs rest)
  have "sound_step m (m\<lparr>mp_schedule := rest\<rparr>)"
    using Cons by (simp add: sound_step_def later_def told_def explained_def)
  then show ?thesis
    using Cons sound_step_trans [OF _ sound_fold_happen] by (simp add: meanwhile_def)
qed (simp add: meanwhile_def)

lemma same_length: "sound_step m n \<Longrightarrow> length (mp_workers n) = length (mp_workers m)"
  by (auto simp: sound_step_def later_def dest: list_all2_lengthD)

lemma sound_exited:
  assumes "sound_step m n" "i < length (mp_workers m)" "pr_exitcode (mp_workers m ! i) = Some c"
  shows "pr_exitcode (mp_workers n ! i) = Some c"
proof -
  have "list_all2 process_grows (mp_workers m) (mp_workers n)" using assms(1) by (simp add: sound_step_def later_def)
  then show ?thesis using list_all2_nthD [of process_grows] assms(2,3) by (fastforce simp: process_grows_def)
qed

lemma sound_retcode:
  assumes "i < length (mp_workers m)" "pr_exitcode (mp_workers m ! i) = Some code"
  shows "sound_step m (m\<lparr>mp_retcode := code\<rparr>)"
  using assms nth_mem [OF assms(1)] by (fastforce simp: sound_step_def later_def told_def explained_def)

lemma sound_join: "\<forall>i \<in> set is. i < length (mp_workers m) \<Longrightarrow> sound_step m (join_workers is m)"
proof (induction "is" arbitrary: m)
  case (Cons i js)
  let ?m = "meanwhile m" and ?m2 = "meanwhile (meanwhile m)"
  have l: "length (mp_workers ?m) = length (mp_workers m)" "length (mp_workers ?m2) = length (mp_workers m)"
    using sound_meanwhile same_length by metis+
  show ?case
  proof (cases "pr_exitcode (mp_workers ?m ! i)")
    case None
    then show ?thesis using Cons l sound_step_trans [OF sound_meanwhile] by (simp add: Let_def)
  next
    case (Some code)
    have s: "sound_step m ?m2" using sound_step_trans [OF sound_meanwhile sound_meanwhile] .
    have e: "pr_exitcode (mp_workers ?m2 ! i) = Some code"
      using sound_exited [OF sound_meanwhile _ Some] l Cons.prems by simp
    show ?thesis
    proof (cases "mp_running ?m2")
      case True
      let ?n = "stop_subprocesses SIGTERM ?m2"
      have "sound_step ?n (?n\<lparr>mp_retcode := code\<rparr>)"
        using sound_retcode [of i ?n code] sound_exited [OF sound_stop [of ?m2 SIGTERM], of i code] e l Cons.prems
          same_length [OF sound_stop [of ?m2 SIGTERM]]
        by simp
      then show ?thesis
        using True Some sound_step_trans [OF s sound_step_trans [OF sound_stop]] by (simp add: Let_def)
    next
      case False
      let ?n = "?m2\<lparr>mp_retcode := (if mp_retcode ?m2 \<noteq> 0 then mp_retcode ?m2 else code)\<rparr>"
      have "sound_step ?m2 ?n"
        using sound_retcode [of i ?m2 code] e l Cons.prems by (cases "mp_retcode ?m2 = 0") (simp_all add: sound_step_def)
      moreover have "sound_step ?n (join_workers js ?n)" using Cons l by simp
      ultimately have "sound_step m (join_workers js ?n)" using s sound_step_trans by blast
      then show ?thesis using False Some by (simp add: Let_def)
    qed
  qed
qed simp

lemma sound_any: "sound_step m (snd (any_alive is m))"
proof (induction "is" arbitrary: m)
  case (Cons i js)
  show ?case using sound_step_trans [OF sound_meanwhile Cons.IH] sound_meanwhile by (simp add: Let_def)
qed simp

lemma sound_supervise: "supervise fuel m = Some n \<Longrightarrow> sound_step m n"
proof (induction fuel arbitrary: m)
  case (Suc fuel)
  let ?j = "join_workers [0..<length (mp_workers m)] m"
  have j: "sound_step m ?j" by (rule sound_join) simp
  have a: "sound_step m (snd (any_alive [0..<length (mp_workers ?j)] ?j))"
    using sound_step_trans [OF j sound_any] .
  show ?case
    using Suc.prems Suc.IH a sound_step_trans [OF a] by (auto simp: Let_def split: prod.splits bool.splits)
qed simp

lemma any_alive_False:
  assumes "any_alive is m = (False, n)" "\<forall>i \<in> set is. i < length (mp_workers m)"
  shows "\<forall>i \<in> set is. pr_exitcode (mp_workers n ! i) \<noteq> None"
  using assms
proof (induction "is" arbitrary: m)
  case (Cons i js)
  let ?m = "meanwhile m"
  have l: "length (mp_workers ?m) = length (mp_workers m)" using same_length [OF sound_meanwhile] .
  obtain c where c: "pr_exitcode (mp_workers ?m ! i) = Some c" and a: "any_alive js ?m = (False, n)"
    using Cons.prems(1) by (auto simp: Let_def split: if_splits)
  have "sound_step ?m n" using sound_any [of ?m js] a by simp
  then have "pr_exitcode (mp_workers n ! i) = Some c" using sound_exited [OF _ _ c] Cons.prems(2) l by simp
  then show ?case using Cons.IH [OF a] Cons.prems(2) l by simp
qed simp

lemma supervise_all_exited: "supervise fuel m = Some n \<Longrightarrow> \<forall>p \<in> set (mp_workers n). pr_exitcode p \<noteq> None"
proof (induction fuel arbitrary: m)
  case (Suc fuel)
  let ?j = "join_workers [0..<length (mp_workers m)] m"
  obtain b k where k: "any_alive [0..<length (mp_workers ?j)] ?j = (b, k)" by (cases "any_alive [0..<length (mp_workers ?j)] ?j")
  show ?case
  proof (cases b)
    case True
    then show ?thesis using Suc k by (simp add: Let_def)
  next
    case False
    have "length (mp_workers k) = length (mp_workers ?j)" using same_length [OF sound_any [of ?j "[0..<length (mp_workers ?j)]"]] k by simp
    moreover have "n = k" using Suc.prems k False by (simp add: Let_def)
    moreover have "\<forall>i \<in> set [0..<length (mp_workers ?j)]. pr_exitcode (mp_workers k ! i) \<noteq> None"
      using any_alive_False [of "[0..<length (mp_workers ?j)]" ?j k] k False by simp
    ultimately show ?thesis by (auto simp: in_set_conv_nth)
  qed
qed simp

section \<open>Booting\<close>

text \<open>Until the handlers are there nothing stops the main process: signals wait.\<close>

definition booting :: "main_process \<Rightarrow> bool" where
  "booting m = (mp_blocked m \<and> mp_running m \<and> mp_retcode m = 0 \<and> \<not> mp_reload m)"

lemma booting_happen: "booting m \<Longrightarrow> booting (happen h m)"
  by (cases h) (simp_all add: booting_def)

lemma booting_meanwhile [simp]: "booting m \<Longrightarrow> booting (meanwhile m)"
proof -
  have "booting m \<Longrightarrow> booting (fold happen hs m)" for hs m
    by (induction hs arbitrary: m) (simp_all add: booting_happen)
  then show "booting m \<Longrightarrow> booting (meanwhile m)"
    by (simp add: meanwhile_def booting_def split: list.split)
qed

lemma booting_start_worker: "booting m \<Longrightarrow> booting (start_worker m) \<and> length (mp_workers (start_worker m)) = Suc (length (mp_workers m))"
  using booting_meanwhile [of "m\<lparr>mp_workers := mp_workers m @ [new_process], mp_events := mp_events m @ [False]\<rparr>"]
    same_length [OF sound_meanwhile [of "m\<lparr>mp_workers := mp_workers m @ [new_process], mp_events := mp_events m @ [False]\<rparr>"]]
  by (simp add: start_worker_def booting_def)

lemma booting_start_workers:
  "booting m \<Longrightarrow> booting (start_workers n m) \<and> length (mp_workers (start_workers n m)) = n + length (mp_workers m)"
  unfolding start_workers_def by (induction n) (simp_all add: booting_start_worker)

lemma booting_wait: "booting m \<Longrightarrow> booting (wait_booted is m) \<and> length (mp_workers (wait_booted is m)) = length (mp_workers m)"
  by (induction "is" arbitrary: m) (simp_all add: Let_def same_length [OF sound_meanwhile])

lemma booting_start_forks: "booting m \<Longrightarrow> booting (start_forks paths m) \<and> length (mp_workers (start_forks paths m)) = length (mp_workers m)"
  unfolding start_forks_def
proof (induction paths arbitrary: m)
  case (Cons path paths)
  have "booting (start_fork path m)" "length (mp_workers (start_fork path m)) = length (mp_workers m)"
    using Cons.prems
      booting_meanwhile [of "m\<lparr>mp_forks := mp_forks m @ [new_process], mp_fork_paths := mp_fork_paths m @ [path]\<rparr>"]
      same_length [OF sound_meanwhile [of "m\<lparr>mp_forks := mp_forks m @ [new_process], mp_fork_paths := mp_fork_paths m @ [path]\<rparr>"]]
    by (simp_all add: start_fork_def booting_def)
  with Cons.IH show ?case by simp
qed simp

text \<open>The state in which the pending signals are handled.\<close>

definition before_unblock :: "main_args \<Rightarrow> string list \<Rightarrow> main_process \<Rightarrow> main_process" where
  "before_unblock A shared m =
     start_forks (ma_forks A @ shared) (wait_booted [0..<ma_processes A] (start_workers (ma_processes A) (try_block_signals m)))"

lemma before_unblock_new:
  "booting (before_unblock A shared (new_main s schedule))"
  "length (mp_workers (before_unblock A shared (new_main s schedule))) = ma_processes A"
proof -
  have b: "booting (try_block_signals (new_main s schedule))" "mp_workers (try_block_signals (new_main s schedule)) = []"
    by (simp_all add: booting_def try_block_signals_def new_main_def ret_defs)
  show "booting (before_unblock A shared (new_main s schedule))"
    "length (mp_workers (before_unblock A shared (new_main s schedule))) = ma_processes A"
    using booting_start_workers [OF b(1), of "ma_processes A"] b(2) booting_wait booting_start_forks
    by (simp_all add: before_unblock_def)
qed

lemma sound_unblock: "sound_step m (try_unblock_signals m)"
proof -
  have "sound_step n (fold sighandler sigs n)" for sigs n
  proof (induction sigs arbitrary: n)
    case (Cons sig sigs)
    then show ?case using sound_step_trans [OF sound_sighandler [of n sig] Cons.IH] by simp
  qed simp
  moreover have "sound_step m (m\<lparr>mp_blocked := False, mp_pending := []\<rparr>)"
    by (simp add: sound_step_def later_def told_def explained_def)
  ultimately show ?thesis unfolding try_unblock_signals_def using sound_step_trans by blast
qed

lemma start_all_new:
  "told (start_all A shared (new_main s schedule)) \<and> explained (start_all A shared (new_main s schedule))
   \<and> length (mp_workers (start_all A shared (new_main s schedule))) = ma_processes A"
proof -
  let ?b = "before_unblock A shared (new_main s schedule)"
  have "told ?b" "explained ?b"
    using before_unblock_new(1) [of A shared s schedule] by (simp_all add: booting_def told_def explained_def)
  moreover have "start_all A shared (new_main s schedule) = try_unblock_signals ?b"
    by (simp add: start_all_def before_unblock_def Let_def)
  ultimately show ?thesis
    using sound_unblock [of ?b] same_length [OF sound_unblock [of ?b]] before_unblock_new(2) [of A shared s schedule]
    by (simp add: sound_step_def)
qed

section \<open>Properties\<close>

text \<open>
  C13. What the exit status of the main process says is true: it ends only when all its workers have ended, and a
  status other than 0 is the exit code of one of them, a signal number turned into \<open>RET_KILLED\<close>. If it was
  told to stop, or stopped because a worker ended, every forked process still alive has been signalled.
\<close>

theorem main_status_honest:
  assumes "main fuel A nap shared schedule s = Some (Exit_Status c, n)" "main_checks A s = (Inr (), s')"
  shows "length (mp_workers n) = ma_processes A \<and> (\<forall>p \<in> set (mp_workers n). pr_exitcode p \<noteq> None)
    \<and> (c \<noteq> RET_OK \<longrightarrow> (\<exists>p \<in> set (mp_workers n). \<exists>k. pr_exitcode p = Some k \<and> k \<noteq> 0 \<and> c = main_status k))
    \<and> (\<not> mp_running n \<longrightarrow> (\<forall>p \<in> set (mp_forks n). heard p))"
proof -
  obtain paths u where u: "supervise fuel (start_all A paths (new_main s' schedule)) = Some u" "main_end A u = (Exit_Status c, n)"
    using assms by (auto simp: main_def split: option.splits prod.splits sum.splits)
  let ?m = "start_all A paths (new_main s' schedule)"
  have st: "sound_step ?m u" using sound_supervise [OF u(1)] .
  then have "told u" "explained u" "length (mp_workers u) = ma_processes A"
    using start_all_new [of A paths s' schedule] same_length [OF st] by (auto simp: sound_step_def)
  moreover have "mp_workers n = mp_workers u" "mp_forks n = mp_forks u" "mp_running n = mp_running u" "c = main_status (mp_retcode u)"
    using u(2) by (auto simp: main_end_def split: option.splits if_splits)
  ultimately show ?thesis
    using supervise_all_exited [OF u(1)] by (auto simp: told_def explained_def main_status_def ret_defs)
qed

text \<open>Every worker ends at some time.\<close>

definition will_exit :: "main_process \<Rightarrow> bool" where
  "will_exit m =
     (\<forall>i < length (mp_workers m). pr_exitcode (mp_workers m ! i) \<noteq> None \<or> (\<exists>code. Worker_Exits i code \<in> set (concat (mp_schedule m))))"

lemma exits_when_it_happens:
  assumes "Worker_Exits i code \<in> set hs" "i < length (mp_workers m)"
  shows "pr_exitcode (mp_workers (fold happen hs m) ! i) \<noteq> None"
  using assms
proof (induction hs arbitrary: m)
  case (Cons h hs)
  have l: "length (mp_workers (happen h m)) = length (mp_workers m)" using same_length [OF sound_happen] .
  show ?case
  proof (cases "h = Worker_Exits i code")
    case True
    then have "pr_exitcode (mp_workers (happen h m) ! i) \<noteq> None" using Cons.prems(2) by (auto simp: exit_process_def)
    then obtain c where "pr_exitcode (mp_workers (happen h m) ! i) = Some c" by blast
    then show ?thesis using sound_exited [OF sound_fold_happen] l Cons.prems(2) by fastforce
  next
    case False
    then show ?thesis using Cons l by simp
  qed
qed simp

lemma will_exit_meanwhile: "will_exit m \<Longrightarrow> will_exit (meanwhile m)"
proof (cases "mp_schedule m")
  case (Cons hs rest)
  assume w: "will_exit m"
  have m: "meanwhile m = fold happen hs (m\<lparr>mp_schedule := rest\<rparr>)" using Cons by (simp add: meanwhile_def)
  have "pr_exitcode (mp_workers (meanwhile m) ! i) \<noteq> None \<or> (\<exists>code. Worker_Exits i code \<in> set (concat rest))"
    if i: "i < length (mp_workers m)" for i
  proof -
    consider c where "pr_exitcode (mp_workers m ! i) = Some c" | code where "Worker_Exits i code \<in> set hs"
      | code where "Worker_Exits i code \<in> set (concat rest)"
    proof -
      have "pr_exitcode (mp_workers m ! i) \<noteq> None \<or> (\<exists>code. Worker_Exits i code \<in> set (concat (mp_schedule m)))"
        using w i by (simp add: will_exit_def)
      then show thesis using that Cons by auto
    qed
    then show ?thesis
      using sound_exited [OF sound_meanwhile i] exits_when_it_happens [of i _ hs "m\<lparr>mp_schedule := rest\<rparr>"] i m by cases auto
  qed
  then show "will_exit (meanwhile m)" using same_length [OF sound_meanwhile [of m]] Cons by (simp add: will_exit_def)
qed (simp add: meanwhile_def)

lemma will_exit_step:
  assumes "sound_step m n" "will_exit m" "mp_schedule n = mp_schedule m"
  shows "will_exit n"
  using assms sound_exited [OF assms(1)] same_length [OF assms(1)] by (fastforce simp: will_exit_def)

lemma will_exit_join:
  "will_exit m \<Longrightarrow> \<forall>i \<in> set is. i < length (mp_workers m) \<Longrightarrow> will_exit (join_workers is m)"
proof (induction "is" arbitrary: m)
  case (Cons i js)
  let ?m = "meanwhile m" and ?m2 = "meanwhile (meanwhile m)"
  have l: "length (mp_workers ?m) = length (mp_workers m)" "length (mp_workers ?m2) = length (mp_workers m)"
    using sound_meanwhile same_length by metis+
  have w: "will_exit ?m" "will_exit ?m2" using Cons.prems(1) by (simp_all add: will_exit_meanwhile)
  have s: "will_exit (?m2\<lparr>mp_retcode := r\<rparr>)" for r using w(2) by (simp add: will_exit_def)
  have t: "will_exit ((stop_subprocesses SIGTERM ?m2)\<lparr>mp_retcode := r\<rparr>)" for r
    using will_exit_step [OF sound_stop [of ?m2 SIGTERM] w(2)] by (simp add: will_exit_def) (simp add: stop_subprocesses_def)
  show ?case using Cons.IH [OF w(1)] Cons.IH [OF s] Cons.prems(2) l t by (simp add: Let_def split: option.split)
qed simp

lemma will_exit_any: "will_exit m \<Longrightarrow> will_exit (snd (any_alive is m))"
  by (induction "is" arbitrary: m) (simp_all add: Let_def will_exit_meanwhile)

lemma any_alive_exited:
  "\<forall>i \<in> set is. i < length (mp_workers m) \<and> pr_exitcode (mp_workers m ! i) \<noteq> None \<Longrightarrow> \<not> fst (any_alive is m)"
proof (induction "is" arbitrary: m)
  case (Cons i js)
  have "pr_exitcode (mp_workers (meanwhile m) ! k) \<noteq> None" if "k \<in> set (i # js)" for k
    using Cons.prems that sound_exited [OF sound_meanwhile] by (metis not_None_eq)
  then show ?case using Cons.IH [of "meanwhile m"] same_length [OF sound_meanwhile [of m]] Cons.prems by (simp add: Let_def)
qed simp

lemma join_consumes:
  assumes "\<forall>i \<in> set (i # js). i < length (mp_workers m)" "mp_schedule m \<noteq> []"
  shows "length (mp_schedule (join_workers (i # js) m)) < length (mp_schedule m)"
proof -
  let ?m = "meanwhile m" and ?m2 = "meanwhile (meanwhile m)"
  have l: "length (mp_workers ?m) = length (mp_workers m)" "length (mp_workers ?m2) = length (mp_workers m)"
    using sound_meanwhile same_length by metis+
  have j: "length (mp_schedule (join_workers js x)) \<le> length (mp_schedule x)" if "length (mp_workers x) = length (mp_workers m)" for x
    using sound_join [of js x] assms(1) that by (simp add: sound_step_def)
  show ?thesis
  proof (cases "pr_exitcode (mp_workers ?m ! i)")
    case None
    then show ?thesis using j [OF l(1)] assms(2) by (cases "mp_schedule m") (simp_all add: Let_def)
  next
    case (Some code)
    have d: "length (tl (tl (mp_schedule m))) < length (mp_schedule m)" using assms(2) by (cases "mp_schedule m") auto
    have "length (mp_schedule (join_workers js ?m2)) < length (mp_schedule m)"
      "length (mp_schedule (join_workers js (?m2\<lparr>mp_retcode := code\<rparr>))) < length (mp_schedule m)"
      using le_less_trans [OF j [of ?m2]] le_less_trans [OF j [of "?m2\<lparr>mp_retcode := code\<rparr>"]] l(2) d by simp_all
    then show ?thesis using Some d by (simp add: Let_def stop_subprocesses_def)
  qed
qed

lemma start_all_schedule: "length (mp_schedule (start_all A paths m)) \<le> length (mp_schedule m)"
proof -
  have w: "length (mp_schedule (start_workers k n)) \<le> length (mp_schedule n)" for k n
  proof (induction k)
    case (Suc k)
    have "length (mp_schedule (start_worker x)) \<le> length (mp_schedule x)" for x by (simp add: start_worker_def)
    then show ?case using Suc le_trans by (fastforce simp: start_workers_def)
  qed (simp add: start_workers_def)
  have b: "length (mp_schedule (wait_booted is n)) \<le> length (mp_schedule n)" for "is" n
  proof (induction "is" arbitrary: n)
    case (Cons i js)
    show ?case using Cons [of "meanwhile n"] Cons [of "meanwhile (meanwhile n)"] by (auto simp: Let_def)
  qed simp
  have f: "length (mp_schedule (start_forks ps n)) \<le> length (mp_schedule n)" for ps n
  proof (induction ps arbitrary: n)
    case (Cons p ps)
    have "length (mp_schedule (start_fork p n)) \<le> length (mp_schedule n)" by (simp add: start_fork_def)
    then show ?case using Cons [of "start_fork p n"] by (simp add: start_forks_def)
  qed (simp add: start_forks_def)
  have u: "length (mp_schedule (try_unblock_signals n)) \<le> length (mp_schedule n)" for n
    using sound_unblock by (simp add: sound_step_def)
  have t: "mp_schedule (try_block_signals m) = mp_schedule m" by (simp add: try_block_signals_def)
  let ?w = "start_workers (ma_processes A) (try_block_signals m)"
  show ?thesis
    using w [of "ma_processes A" "try_block_signals m"] b [of "[0..<ma_processes A]" ?w]
      f [of "ma_forks A @ paths" "wait_booted [0..<ma_processes A] ?w"] u [of "start_forks (ma_forks A @ paths) (wait_booted [0..<ma_processes A] ?w)"] t
    by (simp add: start_all_def Let_def)
qed

lemma supervise_pass:
  assumes "will_exit m"
  obtains n where "supervise (Suc fuel) m = Some n"
    | n where "supervise (Suc fuel) m = supervise fuel n" "will_exit n" "length (mp_schedule n) < length (mp_schedule m)"
proof -
  let ?j = "join_workers [0..<length (mp_workers m)] m" and ?is = "[0..<length (mp_workers m)]"
  obtain b n where n: "any_alive [0..<length (mp_workers ?j)] ?j = (b, n)"
    by (cases "any_alive [0..<length (mp_workers ?j)] ?j")
  have j: "sound_step m ?j" by (rule sound_join) simp
  have wj: "will_exit ?j" using will_exit_join [OF assms] by simp
  have wn: "will_exit n" using will_exit_any [OF wj, of "[0..<length (mp_workers ?j)]"] n by simp
  have l: "length (mp_schedule n) \<le> length (mp_schedule ?j)"
    using sound_any [of ?j "[0..<length (mp_workers ?j)]"] n by (simp add: sound_step_def)
  show thesis
  proof (cases b)
    case False
    then show thesis using that(1) n by (simp add: Let_def)
  next
    case True
    then have s: "supervise (Suc fuel) m = supervise fuel n" using n by (simp add: Let_def)
    have ne: "length (mp_workers m) \<noteq> 0" using n True same_length [OF j] by (auto dest: sym)
    then obtain js where js: "?is = 0 # js" by (simp add: upt_conv_Cons)
    show thesis
    proof (cases "mp_schedule m")
      case Nil
      then have "\<forall>i < length (mp_workers m). pr_exitcode (mp_workers m ! i) \<noteq> None" using assms by (simp add: will_exit_def)
      then have "\<forall>i \<in> set [0..<length (mp_workers ?j)]. i < length (mp_workers ?j) \<and> pr_exitcode (mp_workers ?j ! i) \<noteq> None"
        using sound_exited [OF j] same_length [OF j] by fastforce
      then show thesis using any_alive_exited n True by (metis fst_conv)
    next
      case (Cons hs rest)
      have "\<forall>i \<in> set ?is. i < length (mp_workers m)" by simp
      then have "length (mp_schedule ?j) < length (mp_schedule m)"
        using join_consumes [of 0 js m] Cons js by simp
      then show thesis using that(2) s wn l by simp
    qed
  qed
qed

lemma supervise_ends: "will_exit m \<Longrightarrow> length (mp_schedule m) < fuel \<Longrightarrow> \<exists>n. supervise fuel m = Some n"
proof (induction fuel arbitrary: m)
  case (Suc fuel)
  show ?case using Suc.prems Suc.IH by (cases rule: supervise_pass [OF Suc.prems(1), of fuel]) auto
qed simp

text \<open>
  C33. The main process comes to an end: when every worker that has been started ends at some time, and the
  canteen can be read, one pass more than there are looks at the other processes is enough, and \<open>main\<close>
  either returns a status or replaces itself.
\<close>

theorem main_terminates:
  assumes "will_exit (start_all A paths (new_main s' schedule))" "main_checks A s = (Inr (), s')"
    and "canteen_get fuel nap 1000 shared = Some (Inr paths, shared')" "length schedule < fuel"
  shows "\<exists>r n. main fuel A nap shared schedule s = Some (r, n) \<and> (r = Execs \<or> (\<exists>c. r = Exit_Status c))"
proof -
  have "length (mp_schedule (start_all A paths (new_main s' schedule))) \<le> length schedule"
    using start_all_schedule [of A paths "new_main s' schedule"] by (simp add: new_main_def)
  then obtain n where "supervise fuel (start_all A paths (new_main s' schedule)) = Some n"
    using supervise_ends [OF assms(1)] assms(4) by fastforce
  then have "main fuel A nap shared schedule s = Some (main_end A n)" using assms by (simp add: main_def)
  then show ?thesis by (cases "main_end A n") (auto simp: main_end_def split: if_splits option.splits)
qed

text \<open>
  An exit between two looks is missed: when the only worker ends after its \<open>join\<close> timed out and before the
  test of the loop, whatever its exit code, the main process ends without stopping anything, with
  \<open>RET_OK\<close>.
\<close>

theorem exit_between_looks_missed:
  assumes "mp_workers m = [p]" "pr_exitcode p = None" "mp_schedule m = [[], [Worker_Exits 0 code]]" "mp_running m" "mp_retcode m = 0"
  shows "\<exists>n. supervise (Suc fuel) m = Some n \<and> mp_workers n = [exit_process code p] \<and> mp_forks n = mp_forks m
    \<and> mp_running n \<and> main_status (mp_retcode n) = RET_OK"
  using assms by (simp add: Let_def meanwhile_def exit_process_def main_status_def ret_defs)

text \<open>
  Of two workers that end during the wait for the second one, only the exit code of the second counts: the
  main process returns \<open>RET_OK\<close> although the first was killed or failed.
\<close>

theorem exit_code_lost:
  assumes "mp_workers m = [p, q]" "pr_exitcode p = None" "pr_exitcode q = None"
    and "mp_schedule m = [[], [Worker_Exits 0 code, Worker_Exits 1 0]]" "mp_retcode m = 0"
  shows "\<exists>n. supervise (Suc fuel) m = Some n \<and> pr_exitcode (mp_workers n ! 0) = Some code \<and> main_status (mp_retcode n) = RET_OK"
  using assms
  by (simp add: Let_def meanwhile_def exit_process_def main_status_def ret_defs stop_subprocesses_def send_signal_def)

text \<open>Workers that are alive when they are looked at are passed over.\<close>

lemma join_skips:
  assumes "\<forall>k < length is. pr_exitcode (mp_workers ((meanwhile ^^ Suc k) m) ! (is ! k)) = None"
  shows "join_workers (is @ js) m = join_workers js ((meanwhile ^^ length is) m)"
  using assms
proof (induction "is" arbitrary: m)
  case (Cons i ks)
  have "\<forall>k < length ks. pr_exitcode (mp_workers ((meanwhile ^^ Suc k) (meanwhile m)) ! (ks ! k)) = None"
    using Cons.prems by (auto simp flip: funpow_swap1 dest: spec [where x = "Suc _"])
  moreover have "pr_exitcode (mp_workers (meanwhile m) ! i) = None" using Cons.prems by (auto dest: spec [where x = 0])
  ultimately show ?case using Cons.IH [of "meanwhile m"] by (simp add: Let_def funpow_swap1)
qed simp

definition failed :: "int \<Rightarrow> main_process \<Rightarrow> bool" where
  "failed code m = (\<not> mp_running m \<and> mp_retcode m = code)"

lemma failed_happen: "failed code m \<Longrightarrow> failed code (happen h m)"
  by (cases h) (simp_all add: failed_def sighandler_def stop_subprocesses_def)

lemma failed_meanwhile: "failed code m \<Longrightarrow> failed code (meanwhile m)"
proof -
  have "failed code m \<Longrightarrow> failed code (fold happen hs m)" for hs m
    by (induction hs arbitrary: m) (simp_all add: failed_happen)
  then show "failed code m \<Longrightarrow> failed code (meanwhile m)"
    by (simp add: meanwhile_def failed_def split: list.split)
qed

lemma failed_join: "code \<noteq> 0 \<Longrightarrow> failed code m \<Longrightarrow> failed code (join_workers is m)"
proof (induction "is" arbitrary: m)
  case (Cons i js)
  have f: "failed code (meanwhile m)" "failed code (meanwhile (meanwhile m))" using Cons.prems(2) by (simp_all add: failed_meanwhile)
  then have r: "\<not> mp_running (meanwhile (meanwhile m))" "mp_retcode (meanwhile (meanwhile m)) = code" by (simp_all add: failed_def)
  have "failed code (meanwhile (meanwhile m)\<lparr>mp_retcode := code\<rparr>)" using r by (simp add: failed_def)
  then show ?case
    using Cons.IH [OF Cons.prems(1) f(1)] Cons.IH [OF Cons.prems(1)] r Cons.prems(1)
    by (simp add: Let_def split: option.split)
qed simp

lemma failed_any: "failed code m \<Longrightarrow> failed code (snd (any_alive is m))"
  by (induction "is" arbitrary: m) (simp_all add: Let_def failed_meanwhile)

lemma failed_supervise: "code \<noteq> 0 \<Longrightarrow> failed code m \<Longrightarrow> supervise fuel m = Some n \<Longrightarrow> failed code n"
proof (induction fuel arbitrary: m)
  case (Suc fuel)
  let ?j = "join_workers [0..<length (mp_workers m)] m"
  have "failed code (snd (any_alive [0..<length (mp_workers ?j)] ?j))" using failed_any failed_join Suc.prems(1,2) by simp
  then show ?case using Suc by (auto simp: Let_def split: prod.splits bool.splits)
qed simp

text \<open>
  C14. A worker that ends unexpectedly stops everything. Whatever happens during a pass over the workers, let \<open>i\<close> be
  the first worker that has ended when it is looked at, and let the main process not have been told to
  stop by then: every other worker and every forked process that is alive is sent \<open>SIGTERM\<close>, one that has ended is
  left alone, and the main process runs no more. When the worker's exit code is not 0, \<open>main\<close> returns it in the end,
  whatever the others return later, or \<open>RET_KILLED\<close> if it is negative, unless a \<open>SIGHUP\<close> comes meanwhile, which makes
  it start again. A worker that ends between two looks is missed, see \<open>exit_between_looks_missed\<close>.
\<close>

theorem crash_stops_everything:
  assumes look: "look = (\<lambda>k. (meanwhile ^^ Suc k) m)"
    and i: "i < length (mp_workers m)" "pr_exitcode (mp_workers (look i) ! i) = Some code"
      "\<forall>j < i. pr_exitcode (mp_workers (look j) ! j) = None"
    and seen: "seen = look (Suc i)" "mp_running seen"
    and told: "told_to_stop = (\<lambda>p. if pr_exitcode p = None then p\<lparr>pr_signals := pr_signals p @ [SIGTERM]\<rparr> else p)"
    and next_state: "m' = join_workers [0..<length (mp_workers m)] m"
  shows "mp_workers m' = map told_to_stop (mp_workers seen) \<and> mp_forks m' = map told_to_stop (mp_forks seen)
    \<and> \<not> mp_running m' \<and> mp_retcode m' = code
    \<and> (code \<noteq> 0 \<longrightarrow> map_option (main_end A) (supervise fuel m) = Some (result, n) \<longrightarrow>
         result = (if mp_reload n then Execs else Exit_Status (if code < 0 then RET_KILLED else code)))"
proof -
  have split: "[0..<length (mp_workers m)] = [0..<i] @ i # [Suc i..<length (mp_workers m)]"
    using i(1) upt_add_eq_append [of 0 i "length (mp_workers m) - i"] by (simp add: upt_conv_Cons)
  have "\<forall>k < length [0..<i]. pr_exitcode (mp_workers ((meanwhile ^^ Suc k) m) ! ([0..<i] ! k)) = None"
    using i(3) look by simp
  from join_skips [OF this] have "m' = join_workers (i # [Suc i..<length (mp_workers m)]) ((meanwhile ^^ i) m)"
    unfolding next_state split by simp
  then have j: "m' = (stop_subprocesses SIGTERM seen)\<lparr>mp_retcode := code\<rparr>"
    using i(2) seen look by (simp add: Let_def)
  have sent: "send_signal SIGTERM = told_to_stop" by (simp add: told send_signal_def fun_eq_iff)
  have "result = (if mp_reload n then Execs else Exit_Status (if code < 0 then RET_KILLED else code))"
    if c: "code \<noteq> 0" and s: "map_option (main_end A) (supervise fuel m) = Some (result, n)"
  proof -
    from s obtain n' where n': "supervise fuel m = Some n'" "main_end A n' = (result, n)" by auto
    then obtain f where f: "fuel = Suc f" by (cases fuel) auto
    have "failed code m'" unfolding j by (simp add: failed_def stop_subprocesses_def)
    then have "failed code (snd (any_alive [0..<length (mp_workers m')] m'))" by (rule failed_any)
    then have "failed code n'"
      using c n'(1) f failed_supervise [of code _ f n'] unfolding next_state by (auto simp: Let_def split: prod.splits bool.splits)
    then show ?thesis using n'(2) by (auto simp: failed_def main_end_def main_status_def split: if_splits option.splits)
  qed
  then show ?thesis unfolding j by (simp add: stop_subprocesses_def sent)
qed

text \<open>
  Forked functions do not wait for the workers when the last worker has already ended: the loop over the
  events tests \<open>proc\<close>, which is still the worker started last, so that no event is looked at.
\<close>

theorem boot_wait_skipped:
  assumes "pr_exitcode (last (mp_workers m)) \<noteq> None" "mp_schedule m = []"
  shows "start_forks paths (wait_booted is m) = start_forks paths m"
proof -
  have "meanwhile m = m" using assms(2) by (simp add: meanwhile_def)
  then have "wait_booted is m = m" using assms(1) by (induction "is") (auto simp: Let_def)
  then show ?thesis by simp
qed

text \<open>Signals that wait.\<close>

definition signal_waits :: "unix_signal \<Rightarrow> main_process \<Rightarrow> bool" where
  "signal_waits sig m = (mp_blocked m \<and> sig \<in> set (mp_pending m))"

lemma waits_happen: "signal_waits sig m \<Longrightarrow> signal_waits sig (happen h m)"
  by (cases h) (auto simp: signal_waits_def)

lemma waits_fold: "signal_waits sig m \<Longrightarrow> signal_waits sig (fold happen hs m)"
  by (induction hs arbitrary: m) (simp_all add: waits_happen)

lemma waits_meanwhile [simp]: "signal_waits sig m \<Longrightarrow> signal_waits sig (meanwhile m)"
proof (cases "mp_schedule m")
  case (Cons hs rest)
  assume "signal_waits sig m"
  then have "signal_waits sig (m\<lparr>mp_schedule := rest\<rparr>)" by (simp add: signal_waits_def)
  then show ?thesis using Cons waits_fold by (simp add: meanwhile_def)
qed (simp add: meanwhile_def)

lemma waits_from: "Signalled sig \<in> set hs \<Longrightarrow> mp_blocked m \<Longrightarrow> signal_waits sig (fold happen hs m)"
proof (induction hs arbitrary: m)
  case (Cons h hs)
  show ?case
  proof (cases "h = Signalled sig")
    case True
    then have "signal_waits sig (happen h m)" using Cons.prems(2) by (auto simp: signal_waits_def)
    then show ?thesis by (simp add: waits_fold)
  next
    case False
    moreover have "mp_blocked (happen h m)" using Cons.prems(2) by (cases h) simp_all
    ultimately show ?thesis using Cons by simp
  qed
qed simp

lemma waits_start_worker: "signal_waits sig m \<Longrightarrow> signal_waits sig (start_worker m)"
  using waits_meanwhile [of sig "m\<lparr>mp_workers := mp_workers m @ [new_process], mp_events := mp_events m @ [False]\<rparr>"]
  by (simp add: start_worker_def signal_waits_def)

lemma waits_wait_booted: "signal_waits sig m \<Longrightarrow> signal_waits sig (wait_booted is m)"
  by (induction "is" arbitrary: m) (simp_all add: Let_def)

lemma waits_start_forks: "signal_waits sig m \<Longrightarrow> signal_waits sig (start_forks paths m)"
proof (unfold start_forks_def, induction paths arbitrary: m)
  case (Cons path paths)
  then have "signal_waits sig (start_fork path m)"
    using waits_meanwhile [of sig "m\<lparr>mp_forks := mp_forks m @ [new_process], mp_fork_paths := mp_fork_paths m @ [path]\<rparr>"]
    by (simp add: start_fork_def signal_waits_def)
  then show ?case using Cons.IH by simp
qed simp

text \<open>
  C34. No signal is lost while the main process boots: one that arrives when the first worker process has been
  started, before there is a handler, is handled after the last forked process has been started, and then
  every process that is alive has been sent a signal and the main process does not run on.
\<close>

theorem boot_signal_kept:
  assumes "0 < ma_processes A" "schedule = hs # rest" "Signalled sig \<in> set hs"
  shows "let m = start_all A paths (new_main s schedule) in
    \<not> mp_running m \<and> (\<forall>p \<in> set (mp_workers m). heard p) \<and> (\<forall>p \<in> set (mp_forks m). heard p)"
proof -
  let ?b = "before_unblock A paths (new_main s schedule)"
  obtain k where k: "ma_processes A = Suc k" using assms(1) by (cases "ma_processes A") auto
  let ?m = "try_block_signals (new_main s schedule)"
  have "signal_waits sig (start_worker ?m)"
    using waits_from [OF assms(3)] assms(2) by (simp add: start_worker_def meanwhile_def try_block_signals_def new_main_def)
  then have "signal_waits sig (start_workers (ma_processes A) ?m)"
  proof -
    assume w: "signal_waits sig (start_worker ?m)"
    have "signal_waits sig ((start_worker ^^ j) (start_worker ?m))" for j
      by (induction j) (simp_all add: w waits_start_worker)
    then show ?thesis by (simp add: start_workers_def k funpow_swap1)
  qed
  then have "signal_waits sig ?b" by (simp add: before_unblock_def waits_start_forks waits_wait_booted)
  then have p: "sig \<in> set (mp_pending ?b)" by (simp add: signal_waits_def)
  have f: "\<not> mp_running (fold sighandler sigs x)" if "sigs \<noteq> [] \<or> \<not> mp_running x" for sigs x
    using that by (induction sigs arbitrary: x) (auto simp: sighandler_def stop_subprocesses_def)
  have "sig \<in> set [SIGHUP, SIGINT, SIGTERM]" by (cases sig) simp_all
  then have "filter (\<lambda>sig. sig \<in> set (mp_pending ?b)) [SIGHUP, SIGINT, SIGTERM] \<noteq> []"
    using p unfolding filter_empty_conv by blast
  then have "\<not> mp_running (try_unblock_signals ?b)" unfolding try_unblock_signals_def using f by blast
  moreover have "start_all A paths (new_main s schedule) = try_unblock_signals ?b"
    by (simp add: start_all_def before_unblock_def Let_def)
  ultimately show ?thesis using start_all_new [of A paths s schedule] by (auto simp: Let_def told_def)
qed

text \<open>Only \<open>setup_pidfile\<close> and \<open>remove_pidfile\<close> touch files.\<close>

lemma os_meanwhile [simp]: "mp_os (meanwhile m) = mp_os m"
  using sound_meanwhile [of m] by (simp add: sound_step_def)

lemma os_start_all: "mp_os (start_all A paths m) = mp_os m"
proof -
  have w: "mp_os (start_workers k x) = mp_os x" for k x
    by (induction k) (simp_all add: start_workers_def start_worker_def)
  have b: "mp_os (wait_booted is x) = mp_os x" for "is" x
    by (induction "is" arbitrary: x) (simp_all add: Let_def)
  have f: "mp_os (start_forks ps x) = mp_os x" for ps x
    unfolding start_forks_def by (induction ps arbitrary: x) (simp_all add: start_fork_def)
  have u: "mp_os (try_unblock_signals x) = mp_os x" for x
    using sound_unblock [of x] by (simp add: sound_step_def)
  show ?thesis by (simp add: start_all_def Let_def u f b w try_block_signals_def)
qed

lemma setup_pid: "setup_pidfile f s = (Inr pid, t) \<Longrightarrow> os_pid t = os_pid s"
proof -
  assume a: "setup_pidfile f s = (Inr pid, t)"
  obtain own u where c: "check_pidfile f s = (Inr own, u)"
    using a by (cases "check_pidfile f s"; cases "fst (check_pidfile f s)") (auto simp: setup_pidfile_def andthen_def)
  have u: "os_pid u = os_pid s" using check_pid [of f s u] c by simp
  then show "os_pid t = os_pid s"
    using a c by (auto simp: setup_pidfile_def andthen_def get_state_def write_pidfile_def write_file_def chmod_def proc_simps
        split: option.splits if_splits)
qed

lemma checks_own_file:
  assumes "main_checks A s = (Inr (), s')" "pid_file A = Some f"
  shows "os_pid s' = os_pid s \<and> (\<exists>old. map_of (os_files s') f = Some old \<and> int_of (strip old) = Some (os_pid s))"
proof -
  obtain pid where p: "setup_pidfile f s = (Inr pid, s')"
    using assms by (auto simp: main_checks_def split: prod.splits sum.splits if_splits)
  show ?thesis using setup_pid [OF p] setup_returns [OF p] by auto
qed

lemma main_ends_with:
  assumes "main fuel A nap shared schedule s = Some (r, n)" "main_checks A s = (Inr (), s')" "\<And>e. r \<noteq> Raises e"
  obtains u where "main_end A u = (r, n)" "mp_os u = s'"
proof -
  obtain paths u where u: "supervise fuel (start_all A paths (new_main s' schedule)) = Some u" "main_end A u = (r, n)"
    using assms by (auto simp: main_def split: option.splits prod.splits sum.splits)
  have "mp_os u = s'" using sound_supervise [OF u(1)] by (simp add: sound_step_def os_start_all) (simp add: new_main_def)
  with u(2) show thesis using that by blast
qed

text \<open>
  The life of the PID file: after a main process that returned a status it is gone, when it could be
  removed; one that replaces itself to reload leaves it, and the new image, which has the same process id,
  is let in by it.
\<close>

theorem pidfile_lifecycle:
  assumes "main fuel A nap shared schedule s = Some (r, n)" "main_checks A s = (Inr (), s')" "pid_file A = Some f"
    and "os_remove_error s' f = None" "os_read_error s' f = None"
  shows "(r = Exit_Status c \<longrightarrow> map_of (os_files (mp_os n)) f = None)
    \<and> (r = Execs \<longrightarrow> setup_pidfile f (mp_os n) = (Inr (os_pid s), mp_os n))"
proof (intro conjI impI)
  assume r: "r = Exit_Status c"
  then obtain u where u: "main_end A u = (r, n)" "mp_os u = s'" using main_ends_with [OF assms(1,2)] by auto
  then have "mp_os n = snd (remove_pidfile f s')"
    using r assms(3) by (auto simp: main_end_def split: if_splits)
  then show "map_of (os_files (mp_os n)) f = None"
    using assms(4) checks_own_file [OF assms(2,3)] by (auto simp: remove_pidfile_def remove_file_def try_except_def)
next
  assume r: "r = Execs"
  then obtain u where u: "main_end A u = (r, n)" "mp_os u = s'" using main_ends_with [OF assms(1,2)] by auto
  then have "mp_os n = s'" using r assms(3) by (auto simp: main_end_def split: if_splits)
  then show "setup_pidfile f (mp_os n) = (Inr (os_pid s), mp_os n)"
    using checks_own_file [OF assms(2,3)] check_own [of s' f] assms(5)
    by (auto simp: setup_pidfile_def andthen_def get_state_def)
qed

text \<open>
  While another main process is alive and may be signalled, a second one with the same PID file returns
  \<open>RET_PIDFILE\<close> before it has started any process, and changes no file.
\<close>

theorem second_main_refused:
  assumes "pid_file A = Some f" "os_read_error s f = None" "map_of (os_files s) f = Some old" "int_of (strip old) = Some p"
    and "p \<noteq> os_pid s" "os_kill_error s p = None"
  shows "main fuel A nap shared schedule s = Some (Exit_Status RET_PIDFILE, new_main s schedule)"
  using check_alive [OF assms(2-6)] assms(1)
  by (simp add: main_def main_checks_def setup_pidfile_def andthen_def issubclass_code)

text \<open>
  A main process that is asked to watch and cannot do so returns \<open>RET_IMPORT\<close> after it has written its PID
  file and before it has arranged for its removal: the file stays.
\<close>

theorem watch_failure_leaves_pidfile:
  assumes "pid_file A = Some f" "ma_watch A" "\<not> ma_watchable A"
    and "os_read_error s f = None" "map_of (os_files s) f = None" "os_write_error s f = None"
  shows "\<exists>n. main fuel A nap shared schedule s = Some (Exit_Status RET_IMPORT, n)
    \<and> map_of (os_files (mp_os n)) f = Some (int_str (os_pid s))"
proof -
  obtain t where t: "write_pidfile f s = (Inr (os_pid s), t)" using write_succeeds [OF assms(6)] by blast
  then have "setup_pidfile f s = (Inr (os_pid s), t)"
    using check_absent [OF assms(4,5)] by (simp add: setup_pidfile_def andthen_def)
  then have "main_checks A s = (Inl (Exit_Status RET_IMPORT), t)" using assms(1-3) by (simp add: main_checks_def)
  then show ?thesis using write_returns [OF t] by (auto simp: main_def new_main_def)
qed

section \<open>Small runs\<close>

definition small_args :: main_args where
  "small_args = \<lparr>ma_processes = 1, ma_pid_file = Some ''pid'', ma_forks = [], ma_watch = False, ma_watchable = False\<rparr>"

definition ready_canteen :: canteen where
  "ready_canteen = new_canteen\<lparr>cn_initialized := True\<rparr>"

text \<open>The worker boots and then fails, or the main process is told to reload and the worker stops.\<close>

definition crash_schedule :: "happening list list" where
  "crash_schedule = [[], [], [Worker_Boots 0], [Worker_Exits 0 3]]"

definition reload_schedule :: "happening list list" where
  "reload_schedule = [[Signalled SIGHUP], [], [Worker_Boots 0], [Worker_Exits 0 0]]"

lemma ready_paths: "canteen_get (Suc fuel) nap timeout (ready_canteen, now) = Some (Inr [], ready_canteen, now)"
  by (simp add: canteen_get_def ready_canteen_def canteen_paths_def Let_def ascii_def new_canteen_def)

lemma small_pid_file: "pid_file small_args = Some ''pid''"
  by (simp add: pid_file_def small_args_def)

lemma small_checks: "\<exists>t. main_checks small_args (fresh_os 7 [] Map.empty) = (Inr (), t)
    \<and> os_remove_error t = Map.empty \<and> os_read_error t = Map.empty"
proof -
  obtain t where t: "write_pidfile ''pid'' (fresh_os 7 [] Map.empty) = (Inr 7, t)" "os_remove_error t = Map.empty" "os_read_error t = Map.empty"
    using write_succeeds [of "fresh_os 7 [] Map.empty" "''pid''"] by auto
  have "setup_pidfile ''pid'' (fresh_os 7 [] Map.empty) = (Inr 7, t)"
    using check_absent [of "fresh_os 7 [] Map.empty" "''pid''"] t(1) by (simp add: setup_pidfile_def andthen_def)
  then show ?thesis using t small_pid_file by (simp add: main_checks_def) (simp add: small_args_def)
qed

lemma crash_start:
  "start_all small_args [] (new_main t crash_schedule)
   = (new_main t [[Worker_Exits 0 3]])\<lparr>mp_workers := [new_process], mp_events := [True]\<rparr>"
  by (simp add: start_all_def small_args_def start_workers_def start_worker_def try_block_signals_def new_main_def meanwhile_def
      crash_schedule_def new_process_def start_forks_def try_unblock_signals_def Let_def)

lemma crash_supervise:
  "\<exists>n. supervise (Suc fuel) (start_all small_args [] (new_main t crash_schedule)) = Some n \<and> \<not> mp_reload n \<and> mp_retcode n = 3"
  unfolding crash_start
  by (simp add: new_main_def new_process_def meanwhile_def Let_def exit_process_def stop_subprocesses_def send_signal_def)

lemma crash_main: "\<exists>n. main (Suc fuel) small_args id (ready_canteen, 0) crash_schedule (fresh_os 7 [] Map.empty) = Some (Exit_Status 3, n)"
proof -
  obtain t where t: "main_checks small_args (fresh_os 7 [] Map.empty) = (Inr (), t)" using small_checks by blast
  obtain n where n: "supervise (Suc fuel) (start_all small_args [] (new_main t crash_schedule)) = Some n" "\<not> mp_reload n" "mp_retcode n = 3"
    using crash_supervise by blast
  then have "main (Suc fuel) small_args id (ready_canteen, 0) crash_schedule (fresh_os 7 [] Map.empty) = Some (main_end small_args n)"
    using t ready_paths [of fuel id 1000 0] by (simp add: main_def del: supervise.simps)
  then show ?thesis using n(2,3) small_pid_file by (simp add: main_end_def main_status_def)
qed

theorem main_status_honest_witness:
  "\<exists>n. main 5 small_args id (ready_canteen, 0) crash_schedule (fresh_os 7 [] Map.empty) = Some (Exit_Status 3, n)
    \<and> (\<exists>p \<in> set (mp_workers n). \<exists>k. pr_exitcode p = Some k \<and> 3 = main_status k)"
proof -
  obtain n where n: "main 5 small_args id (ready_canteen, 0) crash_schedule (fresh_os 7 [] Map.empty) = Some (Exit_Status 3, n)"
    using crash_main [of 4] by (auto simp: eval_nat_numeral)
  obtain t where t: "main_checks small_args (fresh_os 7 [] Map.empty) = (Inr (), t)" using small_checks by blast
  show ?thesis using main_status_honest [OF n t] n by (auto simp: ret_defs)
qed

theorem main_terminates_witness:
  "\<exists>r n. main 5 small_args id (ready_canteen, 0) crash_schedule (fresh_os 7 [] Map.empty) = Some (r, n)"
proof -
  obtain t where t: "main_checks small_args (fresh_os 7 [] Map.empty) = (Inr (), t)" using small_checks by blast
  have w: "will_exit (start_all small_args [] (new_main t crash_schedule))"
    unfolding crash_start by (auto simp: will_exit_def new_main_def)
  have c: "canteen_get 5 id 1000 (ready_canteen, 0) = Some (Inr [], ready_canteen, 0)"
    using ready_paths [of 4] by (simp add: eval_nat_numeral)
  show ?thesis using main_terminates [OF w t c] by (auto simp: crash_schedule_def)
qed

text \<open>The reload.\<close>

lemma reload_start:
  "start_all small_args [] (new_main t reload_schedule)
   = (new_main t [[Worker_Exits 0 0]])\<lparr>mp_workers := [\<lparr>pr_exitcode = None, pr_signals = [SIGHUP]\<rparr>], mp_events := [True],
       mp_running := False, mp_reload := True\<rparr>"
  by (simp add: start_all_def small_args_def start_workers_def start_worker_def try_block_signals_def new_main_def meanwhile_def
      reload_schedule_def new_process_def start_forks_def try_unblock_signals_def Let_def sighandler_def stop_subprocesses_def send_signal_def)

lemma reload_main:
  "\<exists>n. main (Suc fuel) small_args id (ready_canteen, 0) reload_schedule (fresh_os 7 [] Map.empty) = Some (Execs, n)"
proof -
  obtain t where t: "main_checks small_args (fresh_os 7 [] Map.empty) = (Inr (), t)" using small_checks by blast
  have "\<exists>n. supervise (Suc fuel) (start_all small_args [] (new_main t reload_schedule)) = Some n \<and> mp_reload n"
    unfolding reload_start by (simp add: new_main_def meanwhile_def Let_def exit_process_def)
  then obtain n where n: "supervise (Suc fuel) (start_all small_args [] (new_main t reload_schedule)) = Some n" "mp_reload n" by blast
  then show ?thesis
    using t ready_paths [of fuel id 1000 0] by (simp add: main_def main_end_def del: supervise.simps)
qed

theorem pidfile_lifecycle_witness:
  "\<exists>n. main 5 small_args id (ready_canteen, 0) reload_schedule (fresh_os 7 [] Map.empty) = Some (Execs, n)
    \<and> setup_pidfile ''pid'' (mp_os n) = (Inr 7, mp_os n)"
proof -
  obtain n where n: "main 5 small_args id (ready_canteen, 0) reload_schedule (fresh_os 7 [] Map.empty) = Some (Execs, n)"
    using reload_main [of 4] by (auto simp: eval_nat_numeral)
  obtain t where t: "main_checks small_args (fresh_os 7 [] Map.empty) = (Inr (), t)" "os_remove_error t = Map.empty" "os_read_error t = Map.empty"
    using small_checks by blast
  show ?thesis using pidfile_lifecycle [OF n t(1) small_pid_file] t n by auto
qed

theorem boot_signal_kept_witness:
  "\<not> mp_running (start_all small_args [] (new_main (fresh_os 7 [] Map.empty) reload_schedule))"
  using boot_signal_kept [of small_args reload_schedule "[Signalled SIGHUP]" "[[], [Worker_Boots 0], [Worker_Exits 0 0]]" SIGHUP]
  by (simp add: small_args_def reload_schedule_def Let_def)

theorem second_main_refused_witness:
  "main 5 small_args id (ready_canteen, 0) [] (fresh_os 8 [(''pid'', ''7'')] Map.empty)
    = Some (Exit_Status RET_PIDFILE, new_main (fresh_os 8 [(''pid'', ''7'')] Map.empty) [])"
proof -
  have "int_of (strip ''7'') = Some 7" by code_simp
  then show ?thesis
    using second_main_refused [OF small_pid_file, of "fresh_os 8 [(''pid'', ''7'')] Map.empty" "''7''" 7] by simp
qed

theorem watch_failure_leaves_pidfile_witness:
  "\<exists>n. main 5 (small_args\<lparr>ma_watch := True\<rparr>) id (ready_canteen, 0) [] (fresh_os 7 [] Map.empty) = Some (Exit_Status RET_IMPORT, n)
    \<and> map_of (os_files (mp_os n)) ''pid'' = Some (int_str 7)"
  using watch_failure_leaves_pidfile [of "small_args\<lparr>ma_watch := True\<rparr>" "''pid''" "fresh_os 7 [] Map.empty"]
  by (simp add: small_args_def pid_file_def)

definition two_workers :: "happening list list \<Rightarrow> main_process" where
  "two_workers schedule = (new_main (fresh_os 7 [] Map.empty) schedule)\<lparr>mp_workers := [new_process, new_process]\<rparr>"

theorem exit_between_looks_missed_witness:
  "\<exists>n. supervise 1 ((new_main (fresh_os 7 [] Map.empty) [[], [Worker_Exits 0 3]])\<lparr>mp_workers := [new_process]\<rparr>) = Some n
    \<and> main_status (mp_retcode n) = RET_OK"
  using exit_between_looks_missed [of "(new_main (fresh_os 7 [] Map.empty) [[], [Worker_Exits 0 3]])\<lparr>mp_workers := [new_process]\<rparr>" new_process 3 0]
  by (auto simp: new_main_def new_process_def ret_defs simp del: supervise.simps)

theorem exit_code_lost_witness:
  "\<exists>n. supervise 1 (two_workers [[], [Worker_Exits 0 3, Worker_Exits 1 0]]) = Some n \<and> main_status (mp_retcode n) = RET_OK"
  using exit_code_lost [of "two_workers [[], [Worker_Exits 0 3, Worker_Exits 1 0]]" new_process new_process 3 0]
  by (auto simp: two_workers_def new_main_def new_process_def ret_defs simp del: supervise.simps)

theorem crash_stops_everything_witness:
  "let m = (two_workers [[Worker_Exits 1 3]])\<lparr>mp_workers := [new_process, new_process], mp_forks := [new_process]\<rparr>;
       m' = join_workers [0, 1] m
   in map pr_signals (mp_workers m') = [[SIGTERM], []] \<and> map pr_signals (mp_forks m') = [[SIGTERM]] \<and> mp_retcode m' = 3"
proof -
  let ?m = "(two_workers [[Worker_Exits 1 3]])\<lparr>mp_workers := [new_process, new_process], mp_forks := [new_process]\<rparr>"
  let ?look = "\<lambda>k. (meanwhile ^^ Suc k) ?m"
  let ?told = "\<lambda>p. if pr_exitcode p = None then p\<lparr>pr_signals := pr_signals p @ [SIGTERM]\<rparr> else p"
  let ?seen = "?m\<lparr>mp_schedule := [], mp_workers := [new_process, new_process\<lparr>pr_exitcode := Some 3\<rparr>]\<rparr>"
  have 1: "meanwhile ?m = ?seen" by (simp add: meanwhile_def two_workers_def new_main_def exit_process_def new_process_def)
  have 2: "meanwhile ?seen = ?seen" by (simp add: meanwhile_def)
  have look: "?look k = ?seen" for k by (induction k) (use 1 2 in simp_all)
  have w: "mp_workers ?m = [new_process, new_process]" by simp
  have "[0..<length (mp_workers ?m)] = [0, 1]" by (simp add: upt_rec)
  then show ?thesis
    using crash_stops_everything [OF refl, where m = ?m and i = 1 and code = 3 and seen = ?seen and told_to_stop = ?told
        and m' = "join_workers [0, 1] ?m"]
    unfolding look Let_def by (simp add: new_process_def two_workers_def new_main_def del: join_workers.simps)
qed

theorem boot_wait_skipped_witness:
  "mp_events (start_forks [''a:f''] (wait_booted [0, 1]
     ((two_workers [])\<lparr>mp_workers := [new_process, new_process\<lparr>pr_exitcode := Some 3\<rparr>], mp_events := [False, True]\<rparr>))) = [False, True]"
  using boot_wait_skipped [of "(two_workers [])\<lparr>mp_workers := [new_process, new_process\<lparr>pr_exitcode := Some 3\<rparr>], mp_events := [False, True]\<rparr>"
      "[''a:f'']" "[0, 1]"]
  by (simp add: two_workers_def new_main_def start_forks_def start_fork_def meanwhile_def del: wait_booted.simps)

end
