(* ===== verification/Worker_Threads.thy ===== *)
theory Worker_Threads
  imports Worker
begin

text \<open>
  The threads of \<^verbatim>\<open>dramatiq/worker.py\<close> as they interleave: the loops of \<open>ConsumerThread.run\<close> and
  \<open>WorkerThread.run\<close> one access to a shared flag at a time, beside a caller of \<open>Worker.pause\<close>,
  \<open>Worker.resume\<close> and \<open>Worker.stop\<close> that sets the flags and waits for the events. What a thread does to
  messages is in \<^theory_text>\<open>Worker\<close>; here it is where the thread stands. \<open>Worker.join\<close> and adding consumers while
  the caller works are left out, and \<open>join_all\<close> constrains nothing, since it may time out.
\<close>

section \<open>One thread\<close>

text \<open>
  Where a thread stands: before \<open>run\<close>, at \<open>while self.running\<close>, at \<open>if self.paused\<close>, before
  \<open>self.paused_event.set()\<close> and at the sleep after it; then, for a worker thread, at the work queue or
  processing a message, and for a consumer thread, connecting, waiting for a message, handling it, handling
  the delayed ones, at \<open>if not self.running\<close>, at the test before the restart and closing for the restart.
\<close>

datatype thread_pc =
    Not_Run | While_Running | If_Paused | Set_Event | Paused_Sleep
  | Getting | Processing
  | Connecting | Awaiting | Handling | Releasing | Unless_Running | If_Restart | Restarting
  | Shutting_Down | Thread_Ended

datatype thread_kind = Is_Consumer | Is_Worker

record thread =
  th_kind :: thread_kind
  th_pc :: thread_pc
  th_running :: bool
  th_paused :: bool
  th_paused_event :: bool

definition new_thread :: "thread_kind \<Rightarrow> thread" where
  "new_thread k = \<lparr>th_kind = k, th_pc = Not_Run, th_running = False, th_paused = False, th_paused_event = False\<rparr>"

abbreviation goto :: "thread \<Rightarrow> thread_pc \<Rightarrow> thread" where
  "goto t l \<equiv> t\<lparr>th_pc := l\<rparr>"

text \<open>
  The steps a thread may take next; there are several where the queue, the broker or the message decides. An
  exception that escapes ends the thread. \<open>work_queue.get\<close> gives an item or raises \<open>Empty\<close>.
\<close>

definition worker_thread_steps :: "thread \<Rightarrow> thread list" where
  "worker_thread_steps t =
     (case th_pc t of
        Not_Run \<Rightarrow> [goto (t\<lparr>th_running := True\<rparr>) While_Running]
      | While_Running \<Rightarrow> [goto t (if th_running t then If_Paused else Shutting_Down)]
      | If_Paused \<Rightarrow> [goto t (if th_paused t then Set_Event else Getting)]
      | Set_Event \<Rightarrow> [goto (t\<lparr>th_paused_event := True\<rparr>) Paused_Sleep]
      | Paused_Sleep \<Rightarrow> [goto t While_Running]
      | Getting \<Rightarrow> [goto t Processing, goto t While_Running]
      | Processing \<Rightarrow> [goto t While_Running, goto t Thread_Ended]
      | Shutting_Down \<Rightarrow> [goto t Thread_Ended]
      | _ \<Rightarrow> [])"

text \<open>
  A consumer thread tests \<open>self.paused\<close> inside its loop only when there was no message. A connection error
  and any other exception lead to the restart, unless closing the consumer raises again.
\<close>

definition consumer_thread_steps :: "thread \<Rightarrow> thread list" where
  "consumer_thread_steps t =
     (case th_pc t of
        Not_Run \<Rightarrow> [goto (t\<lparr>th_running := True\<rparr>) While_Running]
      | While_Running \<Rightarrow> [goto t (if th_running t then If_Paused else Shutting_Down)]
      | If_Paused \<Rightarrow> [goto t (if th_paused t then Set_Event else Connecting)]
      | Set_Event \<Rightarrow> [goto (t\<lparr>th_paused_event := True\<rparr>) Paused_Sleep]
      | Paused_Sleep \<Rightarrow> [goto t While_Running]
      | Connecting \<Rightarrow> [goto t Awaiting, goto t If_Restart, goto t Thread_Ended]
      | Awaiting \<Rightarrow> [goto t Handling, goto t (if th_paused t then If_Restart else Releasing),
                      goto t If_Restart, goto t Thread_Ended]
      | Handling \<Rightarrow> [goto t Releasing, goto t If_Restart, goto t Thread_Ended]
      | Releasing \<Rightarrow> [goto t Unless_Running, goto t If_Restart, goto t Thread_Ended]
      | Unless_Running \<Rightarrow> [goto t (if th_running t then Awaiting else If_Restart)]
      | If_Restart \<Rightarrow> [goto t (if th_running t then Restarting else While_Running)]
      | Restarting \<Rightarrow> [goto t While_Running, goto t Thread_Ended]
      | Shutting_Down \<Rightarrow> [goto t Thread_Ended]
      | _ \<Rightarrow> [])"

definition thread_steps :: "thread \<Rightarrow> thread list" where
  "thread_steps t = (case th_kind t of Is_Worker \<Rightarrow> worker_thread_steps t | Is_Consumer \<Rightarrow> consumer_thread_steps t)"

text \<open>A thread by itself: the states it runs through.\<close>

fun thread_run :: "thread \<Rightarrow> thread list \<Rightarrow> bool" where
  "thread_run t [] = True"
| "thread_run t (u # us) = (u \<in> set (thread_steps t) \<and> thread_run u us)"

section \<open>The caller\<close>

text \<open>
  What the caller does to the threads, which it numbers from 0, the consumers first: \<open>self.paused = b\<close>,
  \<open>self.paused_event.clear()\<close>, \<open>self.paused_event.wait()\<close> and \<open>self.running = False\<close>.
\<close>

datatype action = Set_Paused nat bool | Clear_Event nat | Wait_Event nat | Clear_Running nat

primrec subject :: "action \<Rightarrow> nat" where
  "subject (Set_Paused i b) = i"
| "subject (Clear_Event i) = i"
| "subject (Wait_Event i) = i"
| "subject (Clear_Running i) = i"

primrec act :: "action \<Rightarrow> thread \<Rightarrow> thread option" where
  "act (Set_Paused i b) t = Some (t\<lparr>th_paused := b\<rparr>)"
| "act (Clear_Event i) t = Some (t\<lparr>th_paused_event := False\<rparr>)"
| "act (Wait_Event i) t = (if th_paused_event t then Some t else None)"
| "act (Clear_Running i) t = Some (t\<lparr>th_running := False\<rparr>)"

text \<open>\<open>pause\<close>, \<open>resume\<close> and \<open>stop\<close> of one thread, and of all of a worker with that many consumers and workers.\<close>

definition pause_one :: "nat \<Rightarrow> action list" where
  "pause_one i = [Set_Paused i True, Clear_Event i]"

definition resume_one :: "nat \<Rightarrow> action list" where
  "resume_one i = [Set_Paused i False, Clear_Event i]"

definition stop_one :: "nat \<Rightarrow> action list" where
  "stop_one i = [Clear_Running i]"

definition pause_all :: "nat \<Rightarrow> nat \<Rightarrow> action list" where
  "pause_all consumers workers =
     concat (map pause_one [0..<consumers]) @ concat (map pause_one [consumers..<consumers + workers])
     @ map Wait_Event [0..<consumers] @ map Wait_Event [consumers..<consumers + workers]"

definition resume_all :: "nat \<Rightarrow> nat \<Rightarrow> action list" where
  "resume_all consumers workers =
     concat (map resume_one [0..<consumers]) @ concat (map resume_one [consumers..<consumers + workers])"

definition stop_all :: "nat \<Rightarrow> nat \<Rightarrow> action list" where
  "stop_all consumers workers =
     concat (map stop_one [consumers..<consumers + workers]) @ concat (map stop_one [0..<consumers])"

text \<open>
  The threads and what the caller has still to do: at each step one of the threads or the caller goes on. The
  caller does not pass \<open>paused_event.wait()\<close> before the event is set.
\<close>

inductive system_step :: "thread list \<times> action list \<Rightarrow> thread list \<times> action list \<Rightarrow> bool" where
  thread_goes_on: "i < length ts \<Longrightarrow> u \<in> set (thread_steps (ts ! i)) \<Longrightarrow> system_step (ts, todo) (ts[i := u], todo)"
| caller_goes_on: "subject a < length ts \<Longrightarrow> act a (ts ! subject a) = Some u
    \<Longrightarrow> system_step (ts, a # todo) (ts[subject a := u], todo)"

inductive_cases system_stepE: "system_step (ts, todo) y"

text \<open>A worker with its threads created, its caller about to do these calls.\<close>

definition new_system :: "nat \<Rightarrow> nat \<Rightarrow> action list \<Rightarrow> thread list \<times> action list" where
  "new_system consumers workers todo =
     (replicate consumers (new_thread Is_Consumer) @ replicate workers (new_thread Is_Worker), todo)"

text \<open>A thread that has nothing to do with messages.\<close>

definition idle :: "thread \<Rightarrow> bool" where
  "idle t \<longleftrightarrow> th_pc t \<in> {Not_Run, While_Running, If_Paused, Set_Event, Paused_Sleep, Shutting_Down, Thread_Ended}"

section \<open>Pausing\<close>

lemmas steps_defs = thread_steps_def worker_thread_steps_def consumer_thread_steps_def

text \<open>A thread changes nothing but its place and, in its favour, \<open>running\<close> and the event.\<close>

lemma thread_step_keeps:
  assumes "u \<in> set (thread_steps t)"
  shows "th_paused u = th_paused t" "th_kind u = th_kind t" "th_running t \<Longrightarrow> th_running u"
    "th_paused_event t \<Longrightarrow> th_paused_event u" "th_pc t \<noteq> Not_Run \<Longrightarrow> th_running u = th_running t"
    "th_pc u \<noteq> Not_Run"
  using assms by (auto simp: steps_defs split: thread_pc.splits thread_kind.splits if_splits)

lemma paused_stays_idle:
  assumes "u \<in> set (thread_steps t)" "th_paused t" "idle t"
  shows "idle u"
  using assms by (auto simp: steps_defs idle_def split: thread_pc.splits thread_kind.splits if_splits)

lemma event_means_idle:
  assumes "u \<in> set (thread_steps t)" "th_paused t" "th_paused_event t \<longrightarrow> idle t"
  shows "th_paused_event u \<longrightarrow> idle u"
  using assms by (auto simp: steps_defs idle_def split: thread_pc.splits thread_kind.splits if_splits)

text \<open>
  What holds of a thread while a \<open>pause\<close> goes on, by what the caller has still to do to it; \<open>p\<close> is the pause
  and anything may come before it.
\<close>

definition pause_phase :: "action list \<Rightarrow> action list \<Rightarrow> thread \<Rightarrow> bool" where
  "pause_phase p todo t \<longleftrightarrow>
     (\<exists>before. todo = before @ p)
   \<or> todo = tl p \<and> th_paused t
   \<or> todo = tl (tl p) \<and> th_paused t \<and> (th_paused_event t \<longrightarrow> idle t)
   \<or> todo = [] \<and> th_paused t \<and> th_paused_event t \<and> idle t"

lemma pause_phase_thread:
  assumes "pause_phase p todo t" "u \<in> set (thread_steps t)"
  shows "pause_phase p todo u"
  using assms thread_step_keeps[OF assms(2)] paused_stays_idle[OF assms(2)] event_means_idle[OF assms(2)]
  unfolding pause_phase_def by auto

lemma pause_phase_caller:
  assumes "pause_phase [Set_Paused i True, Clear_Event i, Wait_Event i] (a # todo) t" "act a t = Some u"
  shows "pause_phase [Set_Paused i True, Clear_Event i, Wait_Event i] todo u"
proof -
  let ?p = "[Set_Paused i True, Clear_Event i, Wait_Event i]"
  from assms(1) consider (earlier) before where "a # todo = before @ ?p"
    | (paused) "a # todo = [Clear_Event i, Wait_Event i]" "th_paused t"
    | (cleared) "a # todo = [Wait_Event i]" "th_paused t" "th_paused_event t \<longrightarrow> idle t"
    unfolding pause_phase_def list.sel by blast
  then show ?thesis
  proof cases
    case earlier
    then show ?thesis
      using assms(2) by (cases before) (auto simp: pause_phase_def)
  next
    case paused
    then show ?thesis
      using assms(2) by (auto simp: pause_phase_def)
  next
    case cleared
    then show ?thesis
      using assms(2) by (auto simp: pause_phase_def split: if_splits)
  qed
qed

definition on_thread :: "nat \<Rightarrow> action list \<Rightarrow> action list" where
  "on_thread i = filter (\<lambda>a. subject a = i)"

lemma on_thread_simps [simp]:
  "on_thread i [] = []"
  "on_thread i (a # todo) = (if subject a = i then a # on_thread i todo else on_thread i todo)"
  "on_thread i (xs @ ys) = on_thread i xs @ on_thread i ys"
  by (simp_all add: on_thread_def)

lemma on_thread_each:
  assumes "\<And>j. on_thread i (f j) = (if j = i then g else [])"
  shows "on_thread i (concat (map f [m..<n])) = (if m \<le> i \<and> i < n then g else [])"
  using assms by (induction n) auto

lemma on_thread_map:
  assumes "\<And>j. subject (f j) = j"
  shows "on_thread i (map f [m..<n]) = (if m \<le> i \<and> i < n then [f i] else [])"
  using assms by (induction n) auto

lemma on_thread_pause_all:
  assumes "i < consumers + workers"
  shows "on_thread i (pause_all consumers workers) = [Set_Paused i True, Clear_Event i, Wait_Event i]"
proof -
  have p: "on_thread i (pause_one j) = (if j = i then [Set_Paused i True, Clear_Event i] else [])" for j
    by (simp add: pause_one_def)
  have w: "subject (Wait_Event j) = j" for j
    by simp
  show ?thesis
    using assms
    by (auto simp: pause_all_def on_thread_each[where f = pause_one, OF p] on_thread_map[where f = Wait_Event, OF w])
qed

lemma pause_phase_system:
  assumes "system_step\<^sup>*\<^sup>* (ts0, before @ pause_all consumers workers) (ts, todo)"
    "length ts0 = consumers + workers"
  shows "length ts = consumers + workers \<and>
    (\<forall>i < consumers + workers. pause_phase [Set_Paused i True, Clear_Event i, Wait_Event i] (on_thread i todo) (ts ! i))"
  using assms(1)
proof (induction rule: rtranclp_induct2)
  case refl
  then show ?case
    using assms(2) on_thread_pause_all by (auto simp: pause_phase_def)
next
  case (step ts todo ts' todo')
  from step.hyps(2) step.IH show ?case
    by (elim system_stepE) (auto simp: nth_list_update intro: pause_phase_thread pause_phase_caller split: if_splits)
qed

text \<open>
  C11. When \<open>Worker.pause()\<close> has returned, every thread has answered and none of them is connecting, waiting
  for a message, handling or processing one, and so it stays until the next call, whatever calls of pause,
  resume and stop were made before and however the threads interleave with the caller.
\<close>

theorem paused_threads_idle:
  assumes "system_step\<^sup>*\<^sup>* (new_system consumers workers (before @ pause_all consumers workers)) (ts, [])"
  shows "\<forall>t \<in> set ts. th_paused t \<and> th_paused_event t \<and> idle t"
  using pause_phase_system[OF assms[unfolded new_system_def]]
  by (auto simp: pause_phase_def all_set_conv_all_nth)

text \<open>Executions for the examples: who goes on, and to which of its next states a thread goes.\<close>

datatype move = Thread nat nat | Caller

fun simulate :: "move list \<Rightarrow> thread list \<times> action list \<Rightarrow> (thread list \<times> action list) option" where
  "simulate [] s = Some s"
| "simulate (Thread i k # ms) (ts, todo) =
     (if i < length ts \<and> k < length (thread_steps (ts ! i))
      then simulate ms (ts[i := thread_steps (ts ! i) ! k], todo) else None)"
| "simulate (Caller # ms) (ts, []) = None"
| "simulate (Caller # ms) (ts, a # todo) =
     (if subject a < length ts
      then (case act a (ts ! subject a) of None \<Rightarrow> None | Some u \<Rightarrow> simulate ms (ts[subject a := u], todo)) else None)"

lemma simulate_reaches: "simulate ms s = Some s' \<Longrightarrow> system_step\<^sup>*\<^sup>* s s'"
proof (induction ms s arbitrary: s' rule: simulate.induct)
  case (2 i k ms ts todo)
  then have "system_step (ts, todo) (ts[i := thread_steps (ts ! i) ! k], todo)"
    by (auto intro: thread_goes_on split: if_splits)
  with 2 show ?case by (auto intro: converse_rtranclp_into_rtranclp split: if_splits)
next
  case (4 ms ts a todo)
  then obtain u where u: "subject a < length ts" "act a (ts ! subject a) = Some u"
    by (auto split: if_splits option.splits)
  then have "system_step (ts, a # todo) (ts[subject a := u], todo)" by (rule caller_goes_on)
  with 4 u show ?case by (cases s') (auto intro: converse_rtranclp_into_rtranclp)
qed auto

text \<open>
  Two threads are paused, resumed and paused again; the worker is asked for the first time before it has
  started and the second time while it processes a message.
\<close>

definition pause_example :: "move list" where
  "pause_example =
     [Caller, Caller, Caller, Caller, Thread 0 0, Thread 0 0, Thread 0 0, Thread 0 0, Caller,
      Thread 1 0, Thread 1 0, Thread 1 0, Thread 1 0, Caller, Caller, Caller, Caller, Caller,
      Thread 1 0, Thread 1 0, Thread 1 0, Thread 1 0, Caller, Caller, Caller, Caller,
      Thread 1 0, Thread 1 0, Thread 1 0, Thread 1 0, Thread 0 0, Thread 0 0, Thread 0 0, Thread 0 0, Caller, Caller]"

definition answered_thread :: "thread_kind \<Rightarrow> thread" where
  "answered_thread k = \<lparr>th_kind = k, th_pc = Paused_Sleep, th_running = True, th_paused = True, th_paused_event = True\<rparr>"

lemma pause_example_runs:
  "simulate pause_example (new_system 1 1 ((pause_all 1 1 @ resume_all 1 1) @ pause_all 1 1))
     = Some ([answered_thread Is_Consumer, answered_thread Is_Worker], [])"
  by code_simp

lemma paused_threads_idle_witness:
  "idle (answered_thread Is_Consumer) \<and> th_paused_event (answered_thread Is_Consumer) \<and> idle (answered_thread Is_Worker)
     \<and> th_paused_event (answered_thread Is_Worker)"
  using paused_threads_idle[OF simulate_reaches[OF pause_example_runs]] by simp

text \<open>How many steps a paused thread needs at most to answer, when it takes \<open>k\<close> more messages.\<close>

definition answer_distance :: "nat \<Rightarrow> thread \<Rightarrow> nat" where
  "answer_distance k t =
     (case th_pc t of
        Set_Event \<Rightarrow> 1 | If_Paused \<Rightarrow> 2 | While_Running \<Rightarrow> 3 | Paused_Sleep \<Rightarrow> 4 | Not_Run \<Rightarrow> 4
      | Processing \<Rightarrow> 4 | Getting \<Rightarrow> 5 | Restarting \<Rightarrow> 4 | If_Restart \<Rightarrow> 5
      | Awaiting \<Rightarrow> 8 + 4 * k | Unless_Running \<Rightarrow> 9 + 4 * k | Releasing \<Rightarrow> 10 + 4 * k | Handling \<Rightarrow> 11 + 4 * k
      | Connecting \<Rightarrow> 9 + 4 * k | Shutting_Down \<Rightarrow> 1 | Thread_Ended \<Rightarrow> 0)"

lemma answer_distance_bound: "answer_distance k t \<le> 11 + 4 * k"
  by (simp add: answer_distance_def split: thread_pc.splits)

definition takes :: "thread list \<Rightarrow> nat" where
  "takes us = length (filter (\<lambda>u. th_pc u = Handling) us)"

lemma takes_simps [simp]:
  "takes [] = 0"
  "takes (u # us) = (if th_pc u = Handling then Suc (takes us) else takes us)"
  by (simp_all add: takes_def)

lemma answer_distance_decreases:
  assumes "u \<in> set (thread_steps t)" "th_paused t" "th_running t \<or> th_pc t = Not_Run" "\<not> th_paused_event u"
    "th_pc u = Handling \<Longrightarrow> 0 < k"
  shows "answer_distance (if th_pc u = Handling then k - 1 else k) u < answer_distance k t"
  using assms
  by (auto simp: steps_defs answer_distance_def split: thread_pc.splits thread_kind.splits if_splits)

lemma event_kept:
  assumes "thread_run t us" "th_paused_event t"
  shows "th_paused_event (last (t # us))"
  using assms
proof (induction us arbitrary: t)
  case (Cons u us)
  then have "th_paused_event u" using thread_step_keeps(4)[of u t] by simp
  with Cons show ?case by simp
qed simp

lemma answered_in_time:
  assumes "thread_run t us" "th_paused t" "th_running t \<or> th_pc t = Not_Run" "takes us \<le> k"
    "answer_distance k t \<le> length us"
  shows "th_paused_event (last (t # us)) \<or> th_pc (last (t # us)) = Thread_Ended"
  using assms
proof (induction us arbitrary: t k)
  case Nil
  then show ?case by (auto simp: answer_distance_def split: thread_pc.splits)
next
  case (Cons u us)
  let ?k = "if th_pc u = Handling then k - 1 else k"
  from Cons.prems have u: "u \<in> set (thread_steps t)" and us: "thread_run u us" by simp_all
  show ?case
  proof (cases "th_paused_event u")
    case True
    with event_kept[OF us] show ?thesis by simp
  next
    case False
    have "answer_distance ?k u < answer_distance k t"
      using Cons.prems False by (intro answer_distance_decreases[OF u]) auto
    with Cons.prems have k: "answer_distance ?k u \<le> length us" "takes us \<le> ?k" by (auto split: if_splits)
    have "th_paused u" "th_running u"
      using thread_step_keeps[OF u] Cons.prems u by (auto simp: steps_defs split: thread_kind.splits)
    then show ?thesis using Cons.IH[OF us _ _ k(2,1)] by simp
  qed
qed

text \<open>
  C12. A thread that has been asked to pause answers: whatever happens in it, after at most eleven of its own
  steps and four for each further message that it takes, its event is set, or it has ended.
\<close>

theorem pause_answered:
  assumes "thread_run t us" "th_paused t" "th_running t \<or> th_pc t = Not_Run" "11 + 4 * takes us \<le> length us"
  shows "th_paused_event (last (t # us)) \<or> th_pc (last (t # us)) = Thread_Ended"
  using answered_in_time[OF assms(1-3) order_refl] answer_distance_bound[of "takes us" t] assms(4) by linarith

text \<open>A consumer thread that is asked while it waits takes one more message and then finds its queue empty.\<close>

definition busy_consumer :: thread where
  "busy_consumer = \<lparr>th_kind = Is_Consumer, th_pc = Awaiting, th_running = True, th_paused = True, th_paused_event = False\<rparr>"

definition busy_consumer_run :: "thread list" where
  "busy_consumer_run =
     map (goto busy_consumer)
       [Handling, Releasing, Unless_Running, Awaiting, If_Restart, Restarting, While_Running, If_Paused, Set_Event]
     @ map (goto (busy_consumer\<lparr>th_paused_event := True\<rparr>))
       [Paused_Sleep, While_Running, If_Paused, Set_Event, Paused_Sleep, While_Running]"

lemma pause_answered_witness:
  "th_paused_event (last (busy_consumer # busy_consumer_run)) \<or> th_pc (last (busy_consumer # busy_consumer_run)) = Thread_Ended"
  by (rule pause_answered) code_simp+

section \<open>Stopping\<close>

text \<open>The steps that a thread may still take once it has been stopped.\<close>

definition end_distance :: "thread \<Rightarrow> nat" where
  "end_distance t =
     (case th_pc t of
        Thread_Ended \<Rightarrow> 0 | Shutting_Down \<Rightarrow> 1 | While_Running \<Rightarrow> 2 | Paused_Sleep \<Rightarrow> 3 | Set_Event \<Rightarrow> 4
      | Processing \<Rightarrow> 3 | Getting \<Rightarrow> 4 | Restarting \<Rightarrow> 3 | If_Restart \<Rightarrow> 4 | Unless_Running \<Rightarrow> 5 | Releasing \<Rightarrow> 6
      | Handling \<Rightarrow> 7 | Awaiting \<Rightarrow> 8 | Connecting \<Rightarrow> 9 | If_Paused \<Rightarrow> 10 | Not_Run \<Rightarrow> 0)"

lemma end_distance_decreases:
  assumes "u \<in> set (thread_steps t)" "\<not> th_running t" "th_pc t \<noteq> Not_Run"
  shows "end_distance u < end_distance t"
  using assms by (auto simp: steps_defs end_distance_def split: thread_pc.splits thread_kind.splits if_splits)

lemma stopped_distance:
  assumes "thread_run t us" "\<not> th_running t" "th_pc t \<noteq> Not_Run"
  shows "length us \<le> end_distance t"
  using assms
proof (induction us arbitrary: t)
  case (Cons u us)
  then have u: "u \<in> set (thread_steps t)" by simp
  with Cons thread_step_keeps[OF u] have "length us \<le> end_distance u" by simp
  with end_distance_decreases[OF u] Cons.prems show ?case by simp
qed simp

text \<open>The places of a thread of each kind.\<close>

definition well_placed :: "thread \<Rightarrow> bool" where
  "well_placed t \<longleftrightarrow>
     (case th_kind t of
        Is_Worker \<Rightarrow> th_pc t \<notin> {Connecting, Awaiting, Handling, Releasing, Unless_Running, If_Restart, Restarting}
      | Is_Consumer \<Rightarrow> th_pc t \<notin> {Getting, Processing})"

lemma well_placed_step:
  assumes "u \<in> set (thread_steps t)" "well_placed t"
  shows "well_placed u"
  using assms by (auto simp: steps_defs well_placed_def split: thread_pc.splits thread_kind.splits if_splits)

lemma stuck_means_ended: "well_placed t \<Longrightarrow> thread_steps t = [] \<Longrightarrow> th_pc t = Thread_Ended"
  by (auto simp: steps_defs well_placed_def split: thread_pc.splits thread_kind.splits if_splits)

lemma well_placed_run: "thread_run t us \<Longrightarrow> well_placed t \<Longrightarrow> well_placed (last (t # us))"
proof (induction us arbitrary: t)
  case (Cons u us)
  then have "well_placed u" using well_placed_step[of u t] by simp
  with Cons show ?case by simp
qed simp

text \<open>
  A thread that has begun to run and is stopped ends: whatever it is doing and whatever happens, it takes at
  most ten more steps, and only at its end can it take none.
\<close>

theorem stopped_thread_ends:
  assumes "\<not> th_running t" "th_pc t \<noteq> Not_Run" "well_placed t" "thread_run t us"
  shows "length us \<le> 10 \<and> (thread_steps (last (t # us)) = [] \<longrightarrow> th_pc (last (t # us)) = Thread_Ended)"
proof -
  have "end_distance t \<le> 10" by (simp add: end_distance_def split: thread_pc.splits)
  with stopped_distance[OF assms(4,1,2)] show ?thesis
    using stuck_means_ended well_placed_run[OF assms(4,3)] by auto
qed

lemma stopped_thread_ends_witness:
  "length (map (goto (busy_consumer\<lparr>th_running := False\<rparr>)) [Handling, Releasing, Unless_Running, If_Restart]) \<le> 10"
  using stopped_thread_ends[of "busy_consumer\<lparr>th_running := False\<rparr>"
      "map (goto (busy_consumer\<lparr>th_running := False\<rparr>)) [Handling, Releasing, Unless_Running, If_Restart]"]
  by (simp add: busy_consumer_def well_placed_def steps_defs)

text \<open>
  \<open>run\<close> begins with \<open>self.running = True\<close>. A thread that is stopped after it was started and before it gets
  there goes on as if it had not been: no thread ends but by an exception, and the one that was
  stopped first is at its loop.
\<close>

definition never_stopped :: "thread \<Rightarrow> bool" where
  "never_stopped t \<longleftrightarrow> th_running t \<and> th_pc t \<notin> {Not_Run, Shutting_Down}"

lemma never_stopped_step:
  assumes "u \<in> set (thread_steps t)" "never_stopped t"
  shows "never_stopped u"
  using assms by (auto simp: steps_defs never_stopped_def split: thread_pc.splits thread_kind.splits if_splits)

text \<open>
  \<open>Worker.stop()\<close> right after \<open>Worker.start()\<close> may be without effect: there is a run in which it returns and
  after which no thread ever leaves its loop.
\<close>

theorem stop_before_run_lost:
  "\<exists>ts. system_step\<^sup>*\<^sup>* (new_system 1 1 (stop_all 1 1)) (ts, [])
      \<and> (\<forall>ts' todo. system_step\<^sup>*\<^sup>* (ts, []) (ts', todo) \<longrightarrow> list_all never_stopped ts')"
proof (intro exI conjI allI impI)
  let ?ms = "[Caller, Caller, Thread 0 0, Thread 1 0]"
  let ?ts = "map (\<lambda>k. goto (new_thread k) While_Running\<lparr>th_running := True\<rparr>) [Is_Consumer, Is_Worker]"
  have "simulate ?ms (new_system 1 1 (stop_all 1 1)) = Some (?ts, [])" by code_simp
  then show "system_step\<^sup>*\<^sup>* (new_system 1 1 (stop_all 1 1)) (?ts, [])" by (rule simulate_reaches)
  fix ts' todo
  assume "system_step\<^sup>*\<^sup>* (?ts, []) (ts', todo)"
  then have "todo = [] \<and> list_all never_stopped ts'"
  proof (induction rule: rtranclp_induct2)
    case refl
    then show ?case by (simp add: never_stopped_def)
  next
    case (step ts todo ts' todo')
    from step.hyps(2) step.IH show ?case
      by (elim system_stepE) (auto simp: list_all_length nth_list_update intro: never_stopped_step)
  qed
  then show "list_all never_stopped ts'" by simp
qed

text \<open>
  \<open>Worker.pause()\<close> does not return once one of the threads has ended and its event is clear, because it
  waits without a limit for an event that nobody sets.
\<close>

theorem pause_of_ended_thread_hangs:
  assumes "system_step\<^sup>*\<^sup>* (ts, todo) (ts', todo')" "i < length ts" "th_pc (ts ! i) = Thread_Ended"
    "\<not> th_paused_event (ts ! i)" "Wait_Event i \<in> set todo"
  shows "Wait_Event i \<in> set todo'"
proof -
  have "i < length ts' \<and> th_pc (ts' ! i) = Thread_Ended \<and> \<not> th_paused_event (ts' ! i) \<and> Wait_Event i \<in> set todo'"
    using assms(1)
  proof (induction rule: rtranclp_induct2)
    case refl
    with assms show ?case by simp
  next
    case (step ts1 todo1 ts2 todo2)
    have act_ended: "th_pc u = Thread_Ended \<and> \<not> th_paused_event u"
      if "act a t = Some u" "th_pc t = Thread_Ended" "\<not> th_paused_event t" for a t u
      using that by (cases a) (auto split: if_splits)
    have "thread_steps t = []" if "th_pc t = Thread_Ended" for t
      using that by (auto simp: steps_defs split: thread_kind.splits)
    with step.hyps(2) step.IH show ?case
      by (elim system_stepE) (auto simp: nth_list_update dest: act_ended split: if_splits)
  qed
  then show ?thesis by simp
qed

definition ended_thread :: thread where
  "ended_thread = (new_thread Is_Worker)\<lparr>th_pc := Thread_Ended\<rparr>"

lemma pause_of_ended_thread_hangs_witness: "Wait_Event 0 \<in> set (drop 2 (pause_all 0 1))"
proof -
  have "simulate [Caller, Caller] ([ended_thread], pause_all 0 1) = Some ([ended_thread\<lparr>th_paused := True\<rparr>], drop 2 (pause_all 0 1))"
    by code_simp
  from simulate_reaches[OF this] show ?thesis
    by (rule pause_of_ended_thread_hangs) code_simp+
qed

end
