(* ===== verification/Log_Pipes.thy ===== *)
theory Log_Pipes
  imports Prelude
begin

text \<open>
  How log messages reach the log: \<open>StreamablePipe\<close> of \<^verbatim>\<open>dramatiq/compat.py\<close>, through which each process
  writes, and the thread \<open>watch_logs\<close> of \<^verbatim>\<open>dramatiq/cli.py\<close>, which copies what arrives to the log file. An
  execution is a list of events: a process writes or ends, the main process sets the stop event, the
  watcher goes through its loop once. Text is what one call of \<open>write\<close> passes; encoding and decoding it give
  it back. The log file takes everything; rollover and a full disk are left out.
\<close>

section \<open>Pipes and the watcher\<close>

text \<open>A pipe: the messages under way, whether a writer has it open, and whether its reading end is closed.\<close>

record log_pipe =
  lp_data :: "string list"
  lp_writer_open :: bool
  lp_closed :: bool

text \<open>\<open>lw_file\<close> is what was written to the log, with the number of the pipe each part came from.\<close>

record log_watcher =
  lw_pipes :: "log_pipe list"
  lw_waiting :: "nat list"
  lw_stop :: bool
  lw_file :: "(nat \<times> string) list"

datatype pipe_error = Pipe_EOF

definition pipe_write :: "string \<Rightarrow> log_pipe \<Rightarrow> log_pipe option" where
  "pipe_write x p = (if lp_writer_open p then Some (p\<lparr>lp_data := lp_data p @ [x]\<rparr>) else None)"

definition update_pipe :: "nat \<Rightarrow> (log_pipe \<Rightarrow> log_pipe) \<Rightarrow> log_watcher \<Rightarrow> log_watcher" where
  "update_pipe i f s = s\<lparr>lw_pipes := (lw_pipes s)[i := f (lw_pipes s ! i)]\<rparr>"

text \<open>\<open>poll()\<close> says that there is something to read: a message, or the end of the file.\<close>

definition readable :: "log_pipe \<Rightarrow> bool" where
  "readable p \<longleftrightarrow> lp_data p \<noteq> [] \<or> \<not> lp_writer_open p"

text \<open>
  The body of \<open>for event in events\<close>: read and write while the pipe has something; at its end close it and
  raise.
\<close>

definition watch_pipe :: "nat \<Rightarrow> log_watcher \<Rightarrow> (pipe_error + unit) \<times> log_watcher" where
  "watch_pipe i s =
     (let p = lw_pipes s ! i;
          s = update_pipe i (\<lambda>p. p\<lparr>lp_data := []\<rparr>) (s\<lparr>lw_file := lw_file s @ map (Pair i) (lp_data p)\<rparr>)
      in if lp_writer_open p then (Inr (), s) else (Inl Pipe_EOF, update_pipe i (\<lambda>p. p\<lparr>lp_closed := True\<rparr>) s))"

fun watch_events :: "nat list \<Rightarrow> log_watcher \<Rightarrow> (pipe_error + unit) \<times> log_watcher" where
  "watch_events [] s = (Inr (), s)"
| "watch_events (i # is) s = (case watch_pipe i s of (Inl e, s) \<Rightarrow> (Inl e, s) | (Inr _, s) \<Rightarrow> watch_events is s)"

text \<open>The loop: its test, and its body for the pipes that \<open>wait\<close> returned.\<close>

definition watching :: "log_watcher \<Rightarrow> bool" where
  "watching s \<longleftrightarrow> lw_waiting s \<noteq> [] \<and> \<not> lw_stop s"

definition watch_round :: "nat list \<Rightarrow> log_watcher \<Rightarrow> log_watcher" where
  "watch_round ready s =
     (case watch_events ready s of
        (Inr _, s) \<Rightarrow> s
      | (Inl Pipe_EOF, s) \<Rightarrow> s\<lparr>lw_waiting := filter (\<lambda>i. \<not> lp_closed (lw_pipes s ! i)) (lw_waiting s)\<rparr>)"

datatype log_event = Log_Write nat string | Log_Exit nat | Log_Stop | Log_Watch "nat list"

text \<open>\<open>wait\<close> returns the pipes with something to read, in any order.\<close>

primrec log_step :: "log_event \<Rightarrow> log_watcher \<Rightarrow> log_watcher option" where
  "log_step (Log_Write i x) s =
     (if i < length (lw_pipes s) then map_option (\<lambda>p. update_pipe i (\<lambda>_. p) s) (pipe_write x (lw_pipes s ! i)) else None)"
| "log_step (Log_Exit i) s =
     (if i < length (lw_pipes s) then Some (update_pipe i (\<lambda>p. p\<lparr>lp_writer_open := False\<rparr>) s) else None)"
| "log_step Log_Stop s = Some (s\<lparr>lw_stop := True\<rparr>)"
| "log_step (Log_Watch ready) s =
     (if watching s \<and> distinct ready \<and> set ready = set (filter (\<lambda>i. readable (lw_pipes s ! i)) (lw_waiting s))
      then Some (watch_round ready s) else None)"

fun log_run :: "log_event list \<Rightarrow> log_watcher \<Rightarrow> log_watcher option" where
  "log_run [] s = Some s"
| "log_run (e # es) s = (case log_step e s of None \<Rightarrow> None | Some s' \<Rightarrow> log_run es s')"

definition new_watcher :: "nat \<Rightarrow> log_watcher" where
  "new_watcher n =
     \<lparr>lw_pipes = replicate n \<lparr>lp_data = [], lp_writer_open = True, lp_closed = False\<rparr>, lw_waiting = [0..<n],
      lw_stop = False, lw_file = []\<rparr>"

text \<open>What a process has written, and what of it is in the log and under way.\<close>

fun written_by :: "nat \<Rightarrow> log_event list \<Rightarrow> string list" where
  "written_by i [] = []"
| "written_by i (Log_Write j x # es) = (if j = i then x # written_by i es else written_by i es)"
| "written_by i (_ # es) = written_by i es"

definition logged_of :: "nat \<Rightarrow> log_watcher \<Rightarrow> string list" where
  "logged_of i s = map snd (filter (\<lambda>x. fst x = i) (lw_file s))"

definition under_way :: "nat \<Rightarrow> log_watcher \<Rightarrow> string list" where
  "under_way i s = lp_data (lw_pipes s ! i)"

section \<open>Nothing is lost on the way\<close>

lemma filter_pairs [simp]:
  "filter (\<lambda>x. fst x = i) (map (Pair j) xs) = (if i = j then map (Pair j) xs else [])"
  by (induction xs) auto

lemma snd_pairs [simp]: "map (snd \<circ> Pair j) xs = xs"
  by (induction xs) auto

lemma update_pipe_simps [simp]:
  "length (lw_pipes (update_pipe i f s)) = length (lw_pipes s)"
  "lw_file (update_pipe i f s) = lw_file s"
  "lw_waiting (update_pipe i f s) = lw_waiting s"
  "lw_stop (update_pipe i f s) = lw_stop s"
  by (simp_all add: update_pipe_def)

text \<open>A pipe that the watcher no longer waits for, or has closed, has ended and was read to its end.\<close>

definition watcher_inv :: "log_watcher \<Rightarrow> bool" where
  "watcher_inv s \<longleftrightarrow> set (lw_waiting s) \<subseteq> {..<length (lw_pipes s)} \<and>
     (\<forall>i < length (lw_pipes s).
        (lp_closed (lw_pipes s ! i) \<longrightarrow> \<not> lp_writer_open (lw_pipes s ! i) \<and> lp_data (lw_pipes s ! i) = [])
      \<and> (i \<notin> set (lw_waiting s) \<longrightarrow> lp_closed (lw_pipes s ! i)))"

lemma watch_pipe_effect:
  assumes "watch_pipe i s = (r, s')" "i < length (lw_pipes s)" "watcher_inv s"
  shows "logged_of j s' @ under_way j s' = logged_of j s @ under_way j s" "watcher_inv s'"
    "length (lw_pipes s') = length (lw_pipes s)" "lw_waiting s' = lw_waiting s" "lw_stop s' = lw_stop s"
    "under_way i s' = []" "under_way j s = [] \<Longrightarrow> under_way j s' = []"
    "r = Inl Pipe_EOF \<Longrightarrow> lp_closed (lw_pipes s' ! i)"
  using assms
  by (auto simp: watch_pipe_def Let_def update_pipe_def logged_of_def under_way_def watcher_inv_def nth_list_update
      split: if_splits)

lemma watch_events_effect:
  assumes "watch_events ready s = (r, s')" "set ready \<subseteq> {..<length (lw_pipes s)}" "watcher_inv s"
  shows "logged_of j s' @ under_way j s' = logged_of j s @ under_way j s \<and> watcher_inv s'
    \<and> length (lw_pipes s') = length (lw_pipes s) \<and> lw_waiting s' = lw_waiting s \<and> lw_stop s' = lw_stop s
    \<and> (under_way j s = [] \<longrightarrow> under_way j s' = [])
    \<and> (r = Inl Pipe_EOF \<longrightarrow> (\<exists>i \<in> set ready. lp_closed (lw_pipes s' ! i)))
    \<and> (r = Inr () \<longrightarrow> j \<in> set ready \<longrightarrow> under_way j s' = [])"
  using assms
proof (induction ready arbitrary: s)
  case (Cons i ready)
  obtain r1 s1 where w: "watch_pipe i s = (r1, s1)" by fastforce
  note effect = watch_pipe_effect[OF w]
  show ?case
  proof (cases r1)
    case (Inl e)
    with Cons.prems w effect show ?thesis by (cases e) auto
  next
    case (Inr u)
    with Cons.prems w have rest: "watch_events ready s1 = (r, s')" by simp
    with Cons.prems effect Cons.IH[OF rest] show ?thesis by auto
  qed
qed auto

lemma watch_round_effect:
  assumes "set ready \<subseteq> {..<length (lw_pipes s)}" "watcher_inv s"
  shows "logged_of j (watch_round ready s) @ under_way j (watch_round ready s) = logged_of j s @ under_way j s"
    "watcher_inv (watch_round ready s)" "length (lw_pipes (watch_round ready s)) = length (lw_pipes s)"
    "lw_stop (watch_round ready s) = lw_stop s"
proof -
  obtain r s' where w: "watch_events ready s = (r, s')" by fastforce
  note effect = watch_events_effect[OF w assms, of j]
  show "logged_of j (watch_round ready s) @ under_way j (watch_round ready s) = logged_of j s @ under_way j s"
    "watcher_inv (watch_round ready s)" "length (lw_pipes (watch_round ready s)) = length (lw_pipes s)"
    "lw_stop (watch_round ready s) = lw_stop s"
    using effect w
    by (auto simp: watch_round_def logged_of_def under_way_def watcher_inv_def split: sum.splits pipe_error.splits)
qed

lemma log_step_effect:
  assumes "log_step e s = Some s'" "watcher_inv s" "i < length (lw_pipes s)"
  shows "logged_of i s' @ under_way i s' = logged_of i s @ under_way i s @ written_by i [e]
    \<and> watcher_inv s' \<and> length (lw_pipes s') = length (lw_pipes s)"
proof (cases e)
  case (Log_Watch ready)
  with assms have r: "s' = watch_round ready s" "set ready \<subseteq> {..<length (lw_pipes s)}"
    by (auto simp: watcher_inv_def split: if_splits)
  then show ?thesis using watch_round_effect[OF r(2) assms(2)] Log_Watch by simp
qed (use assms in \<open>auto simp: pipe_write_def update_pipe_def logged_of_def under_way_def watcher_inv_def nth_list_update
      split: if_splits\<close>)

lemma log_run_effect:
  assumes "log_run es s = Some s'" "watcher_inv s" "i < length (lw_pipes s)"
  shows "logged_of i s' @ under_way i s' = logged_of i s @ under_way i s @ written_by i es \<and> watcher_inv s'
    \<and> length (lw_pipes s') = length (lw_pipes s)"
  using assms
proof (induction es arbitrary: s)
  case (Cons e es)
  then obtain s1 where s1: "log_step e s = Some s1" "log_run es s1 = Some s'" by (auto split: option.splits)
  have "written_by i (e # es) = written_by i [e] @ written_by i es" by (cases e) auto
  with log_step_effect[OF s1(1) Cons.prems(2,3)] Cons.IH[OF s1(2)] Cons.prems(3) show ?case by auto
qed simp

lemma new_watcher_inv: "watcher_inv (new_watcher n)"
  by (auto simp: new_watcher_def watcher_inv_def)

text \<open>
  C40. Log messages keep their order and none is lost or doubled while the watcher runs: at any time, what the
  log has of a process followed by what is under way from it is what the process has written.
\<close>

theorem logs_conserved:
  assumes "log_run es (new_watcher n) = Some s" "i < n"
  shows "logged_of i s @ under_way i s = written_by i es"
  using log_run_effect[OF assms(1) new_watcher_inv] assms(2)
  by (simp add: new_watcher_def logged_of_def under_way_def)

definition log_example :: "log_event list" where
  "log_example =
     [Log_Write 1 ''boot'', Log_Write 0 ''up'', Log_Watch [1, 0], Log_Write 1 ''bye'', Log_Exit 1, Log_Write 0 ''late'',
      Log_Watch [1, 0], Log_Stop]"

lemma log_example_runs:
  "case log_run log_example (new_watcher 2) of None \<Rightarrow> False
   | Some s \<Rightarrow> under_way 0 s = [''late''] \<and> logged_of 1 s = [''boot'', ''bye''] \<and> lw_waiting s = [0] \<and> \<not> watching s"
  by code_simp

lemma logs_conserved_witness:
  "\<exists>s. log_run log_example (new_watcher 2) = Some s \<and> logged_of 0 s @ [''late''] = [''up'', ''late'']"
proof (cases "log_run log_example (new_watcher 2)")
  case (Some s)
  with log_example_runs logs_conserved[OF Some, of 0] show ?thesis by (simp add: log_example_def)
qed (use log_example_runs in simp)

text \<open>
  When the watcher has ended by itself, with no pipe left, the log is complete.
\<close>

theorem watcher_end_complete:
  assumes "log_run es (new_watcher n) = Some s" "lw_waiting s = []" "i < n"
  shows "logged_of i s = written_by i es"
proof -
  have "logged_of i s @ under_way i s = written_by i es" "watcher_inv s" "length (lw_pipes s) = n"
    using log_run_effect[OF assms(1) new_watcher_inv] assms(3)
    by (simp_all add: new_watcher_def logged_of_def under_way_def)
  then show ?thesis using assms by (auto simp: watcher_inv_def under_way_def)
qed

text \<open>
  When the watcher is stopped, what is under way is not read any more: the main process stops it as soon as the
  workers have ended, and what they wrote last may be missing from the log.
\<close>

theorem stopped_watcher_drops:
  assumes "lw_stop s" "log_run es s = Some s'"
  shows "lw_file s' = lw_file s"
  using assms
proof (induction es arbitrary: s)
  case (Cons e es)
  then obtain s1 where s1: "log_step e s = Some s1" "log_run es s1 = Some s'" by (auto split: option.splits)
  from s1(1) Cons.prems(1) have "lw_stop s1 \<and> lw_file s1 = lw_file s"
    by (cases e) (auto simp: watching_def split: if_splits)
  with Cons.IH[OF _ s1(2)] show ?case by simp
qed simp

text \<open>
  The main process itself keeps its own pipe open, so that there is always a pipe left and the watcher never ends
  but by being stopped.
\<close>

theorem watcher_ends_by_stop:
  assumes "log_run es (new_watcher n) = Some s" "\<not> watching s" "i < n" "lp_writer_open (lw_pipes s ! i)"
  shows "lw_stop s"
proof -
  have "watcher_inv s" "length (lw_pipes s) = n"
    using log_run_effect[OF assms(1) new_watcher_inv] assms(3) by (simp_all add: new_watcher_def)
  with assms have "i \<in> set (lw_waiting s)" by (auto simp: watcher_inv_def)
  with assms(2) show ?thesis by (auto simp: watching_def)
qed

lemma written_before_stop_lost:
  "\<exists>s. log_run [Log_Write 0 ''bye'', Log_Exit 0, Log_Stop] (new_watcher 2) = Some s \<and> \<not> watching s
     \<and> (\<forall>es s'. log_run es s = Some s' \<longrightarrow> logged_of 0 s' = [])"
proof -
  let ?s = "the (log_run [Log_Write 0 ''bye'', Log_Exit 0, Log_Stop] (new_watcher 2))"
  have "log_run [Log_Write 0 ''bye'', Log_Exit 0, Log_Stop] (new_watcher 2) = Some ?s" "\<not> watching ?s"
    "lw_stop ?s" "lw_file ?s = []"
    by code_simp+
  then show ?thesis using stopped_watcher_drops[of ?s] by (auto simp: logged_of_def)
qed

section \<open>The watcher catches up\<close>

text \<open>The loop while nothing is written and nobody stops it; \<open>order\<close> is the order in which \<open>wait\<close> lists pipes.\<close>

definition catch_up_round :: "(nat list \<Rightarrow> nat list) \<Rightarrow> log_watcher \<Rightarrow> log_watcher" where
  "catch_up_round order s = watch_round (order (filter (\<lambda>i. readable (lw_pipes s ! i)) (lw_waiting s))) s"

fun catch_up :: "(nat list \<Rightarrow> nat list) \<Rightarrow> nat \<Rightarrow> log_watcher \<Rightarrow> log_watcher" where
  "catch_up order 0 s = s"
| "catch_up order (Suc k) s = catch_up order k (catch_up_round order s)"

definition caught_up :: "log_watcher \<Rightarrow> bool" where
  "caught_up s \<longleftrightarrow> (\<forall>i < length (lw_pipes s). under_way i s = [])"

lemma catch_up_round_effect:
  assumes "watcher_inv s" "\<And>xs. set (order xs) = set xs"
  shows "watcher_inv (catch_up_round order s) \<and>
     (caught_up (catch_up_round order s) \<or> length (lw_waiting (catch_up_round order s)) < length (lw_waiting s)) \<and>
     (caught_up s \<longrightarrow> caught_up (catch_up_round order s))"
proof -
  let ?ready = "order (filter (\<lambda>i. readable (lw_pipes s ! i)) (lw_waiting s))"
  obtain r s' where w: "watch_events ?ready s = (r, s')" by fastforce
  have ready: "set ?ready \<subseteq> {..<length (lw_pipes s)}" "set ?ready \<subseteq> set (lw_waiting s)"
    using assms by (auto simp: watcher_inv_def)
  note effect = watch_events_effect[OF w ready(1) assms(1)]
  have inv: "watcher_inv (catch_up_round order s)"
    unfolding catch_up_round_def by (rule watch_round_effect(2)[OF ready(1) assms(1)])
  have kept: "caught_up s \<longrightarrow> caught_up s'" using effect by (auto simp: caught_up_def)
  show ?thesis
  proof (cases r)
    case (Inl e)
    then have "r = Inl Pipe_EOF" by (cases e) simp
    with effect ready(2) obtain i where "i \<in> set (lw_waiting s)" "lp_closed (lw_pipes s' ! i)" by blast
    moreover have "catch_up_round order s = s'\<lparr>lw_waiting := filter (\<lambda>i. \<not> lp_closed (lw_pipes s' ! i)) (lw_waiting s)\<rparr>"
      using w \<open>r = Inl Pipe_EOF\<close> effect[of 0] by (simp add: catch_up_round_def watch_round_def)
    ultimately show ?thesis using inv kept by (auto simp: caught_up_def under_way_def intro!: length_filter_less)
  next
    case (Inr u)
    then have same: "catch_up_round order s = s'" using w by (simp add: catch_up_round_def watch_round_def)
    have "under_way j s' = []" if "j < length (lw_pipes s')" for j
    proof (cases "j \<in> set ?ready")
      case True
      then show ?thesis using effect[of j] Inr by simp
    next
      case False
      then have "under_way j s = []"
        using assms effect[of j] that by (auto simp: under_way_def watcher_inv_def readable_def)
      then show ?thesis using effect[of j] by simp
    qed
    then show ?thesis using same inv by (simp add: caught_up_def)
  qed
qed

text \<open>
  The watcher catches up: whatever has been written, once nothing more is written it has copied everything
  after as many rounds as it has pipes and one more, since each round copies everything or finds the end
  of a pipe.
\<close>

theorem watcher_catches_up:
  assumes "watcher_inv s" "\<And>xs. set (order xs) = set xs" "length (lw_waiting s) < k"
  shows "caught_up (catch_up order k s)"
proof -
  have "watcher_inv s \<and> (caught_up s \<or> length (lw_waiting s) < k) \<Longrightarrow> caught_up (catch_up order k s)" for k s
  proof (induction k arbitrary: s)
    case (Suc k)
    from Suc.prems catch_up_round_effect[OF _ assms(2), of s] show ?case by (auto intro!: Suc.IH)
  qed simp
  with assms show ?thesis by blast
qed

lemma watcher_catches_up_witness:
  "caught_up (catch_up rev 3 (the (log_run [Log_Write 0 ''a'', Log_Exit 0, Log_Write 1 ''b''] (new_watcher 2))))"
proof (rule watcher_catches_up)
  let ?es = "[Log_Write 0 ''a'', Log_Exit 0, Log_Write 1 ''b'']"
  have "log_run ?es (new_watcher 2) = Some (the (log_run ?es (new_watcher 2)))" by code_simp
  from log_run_effect[OF this new_watcher_inv, of 0]
  show "watcher_inv (the (log_run ?es (new_watcher 2)))" by (simp add: new_watcher_def)
  show "length (lw_waiting (the (log_run ?es (new_watcher 2)))) < 3" by code_simp
qed simp

end
