(* ===== verification/Source_Watcher.thy ===== *)
theory Source_Watcher
  imports Main_Process
begin

text \<open>
  \<^verbatim>\<open>dramatiq/watcher.py\<close>: what changes of source files do to the main process. The observer of the library watchdog
  runs in a thread and calls the handler for each file that matches the patterns; the handler sends the main
  process a signal, one of the happenings of \<^theory_text>\<open>Main_Process\<close>.
\<close>

text \<open>The patterns by default, and \<open>_SourceChangesHandler.on_any_event\<close> by the type of the event.\<close>

definition watched_patterns :: "string list option \<Rightarrow> string list" where
  "watched_patterns include_patterns = (case include_patterns of None \<Rightarrow> [''*.py''] | Some ps \<Rightarrow> ps)"

definition on_any_event :: "string \<Rightarrow> happening list" where
  "on_any_event event_type =
     (if event_type = ''opened'' then []
      else if event_type = ''closed_no_write'' then []
      else [Signalled SIGHUP])"

fun signals_of :: "happening list \<Rightarrow> unix_signal list" where
  "signals_of [] = []"
| "signals_of (Signalled sig # hs) = sig # signals_of hs"
| "signals_of (_ # hs) = signals_of hs"

lemma signals_of_append [simp]: "signals_of (hs @ ks) = signals_of hs @ signals_of ks"
  by (induction hs rule: signals_of.induct) auto

lemma happen_reload:
  "\<not> mp_blocked m \<Longrightarrow> \<not> mp_blocked (happen h m)
     \<and> mp_reload (happen h m) = (case signals_of [h] of [] \<Rightarrow> mp_reload m | sig # _ \<Rightarrow> sig = SIGHUP)"
  by (cases h) (auto simp: sighandler_def stop_subprocesses_def)

text \<open>
  Whether the main process starts again once its workers have ended is decided by the last signal it has
  handled, whatever it was told before.
\<close>

theorem last_signal_decides:
  assumes "\<not> mp_blocked m"
  shows "mp_reload (fold happen hs m) = (if signals_of hs = [] then mp_reload m else last (signals_of hs) = SIGHUP)"
proof -
  have "\<not> mp_blocked (fold happen hs m)
    \<and> mp_reload (fold happen hs m) = (if signals_of hs = [] then mp_reload m else last (signals_of hs) = SIGHUP)"
  proof (induction hs rule: rev_induct)
    case (snoc h hs)
    with happen_reload[of "fold happen hs m" h] show ?case by (cases h) auto
  qed (use assms in simp)
  then show ?thesis by simp
qed

text \<open>
  So a source file that changes while the program is being terminated starts it again: the file watcher
  runs until the workers have ended, and its \<open>SIGHUP\<close> replaces the \<open>SIGTERM\<close> that came before.
\<close>

definition edited_while_stopping :: "happening list list" where
  "edited_while_stopping = [[], [], [Worker_Boots 0], Signalled SIGTERM # on_any_event ''modified'' @ [Worker_Exits 0 0]]"

lemma edited_start:
  "start_all small_args [] (new_main t edited_while_stopping)
   = (new_main t [Signalled SIGTERM # on_any_event ''modified'' @ [Worker_Exits 0 0]])\<lparr>mp_workers := [new_process], mp_events := [True]\<rparr>"
  by (simp add: start_all_def small_args_def start_workers_def start_worker_def try_block_signals_def new_main_def meanwhile_def
      edited_while_stopping_def new_process_def start_forks_def try_unblock_signals_def Let_def)

theorem edit_while_stopping_restarts:
  "\<exists>n. main (Suc fuel) small_args id (ready_canteen, 0) edited_while_stopping (fresh_os 7 [] Map.empty) = Some (Execs, n)"
proof -
  obtain t where t: "main_checks small_args (fresh_os 7 [] Map.empty) = (Inr (), t)" using small_checks by blast
  have "\<exists>n. supervise (Suc fuel) (start_all small_args [] (new_main t edited_while_stopping)) = Some n \<and> mp_reload n"
    unfolding edited_start
    by (simp add: new_main_def new_process_def meanwhile_def Let_def exit_process_def on_any_event_def sighandler_def
        stop_subprocesses_def send_signal_def)
  then obtain n where n: "supervise (Suc fuel) (start_all small_args [] (new_main t edited_while_stopping)) = Some n" "mp_reload n" by blast
  then show ?thesis
    using t ready_paths[of fuel id 1000 0] by (simp add: main_def main_end_def del: supervise.simps)
qed

end
