(* ===== verification/Metrics.thy ===== *)
theory Metrics
  imports Monitors Worker
begin

text \<open>
  What the metrics of \<open>Prometheus\<close> (\<^verbatim>\<open>dramatiq/middleware/prometheus.py\<close>) say of the messages: the hooks as a
  sequence of events of one process, and what the counters and gauges show after them.
\<close>

datatype metrics_event =
    Rejects message
  | Enqueues message
  | Delays message
  | Starts int message
  | Ends int message "exn option"

primrec metrics_hook :: "metrics_event \<Rightarrow> prometheus \<Rightarrow> prometheus" where
  "metrics_hook (Rejects m) = Prometheus_after_nack m"
| "metrics_hook (Enqueues m) = Prometheus_after_enqueue m"
| "metrics_hook (Delays m) = Prometheus_before_delay_message m"
| "metrics_hook (Starts now m) = Prometheus_before_process_message now m"
| "metrics_hook (Ends now m e) = Prometheus_after_process_message now m e"

definition metrics_after :: "metrics_event list \<Rightarrow> prometheus \<Rightarrow> prometheus" where
  "metrics_after es pm = fold metrics_hook es pm"

text \<open>How many of the events are beginnings, ends and failures of messages with these labels.\<close>

definition starts_at :: "labels \<Rightarrow> metrics_event \<Rightarrow> bool" where
  "starts_at l e = (case e of Starts now m \<Rightarrow> message_labels m = l | _ \<Rightarrow> False)"

definition ends_at :: "labels \<Rightarrow> metrics_event \<Rightarrow> bool" where
  "ends_at l e = (case e of Ends now m x \<Rightarrow> message_labels m = l | _ \<Rightarrow> False)"

definition fails_at :: "labels \<Rightarrow> metrics_event \<Rightarrow> bool" where
  "fails_at l e = (case e of Ends now m x \<Rightarrow> message_labels m = l \<and> x \<noteq> None | _ \<Rightarrow> False)"

definition rejects_at :: "labels \<Rightarrow> metrics_event \<Rightarrow> bool" where
  "rejects_at l e = (case e of Rejects m \<Rightarrow> message_labels m = l | _ \<Rightarrow> False)"

definition counted_events :: "(metrics_event \<Rightarrow> bool) \<Rightarrow> metrics_event list \<Rightarrow> nat" where
  "counted_events p es = length (filter p es)"

lemma counted_events_simps [simp]:
  "counted_events p [] = 0"
  "counted_events p (e # es) = (if p e then Suc (counted_events p es) else counted_events p es)"
  by (simp_all add: counted_events_def)

lemmas metrics_hooks =
  Prometheus_after_nack_def Prometheus_after_enqueue_def Prometheus_before_delay_message_def
  Prometheus_before_process_message_def Prometheus_after_process_message_def plus_at_def inc_at_def Let_def

lemma metrics_step:
  "pm_inprogress (metrics_hook e pm) l = pm_inprogress pm l + of_bool (starts_at l e) - of_bool (ends_at l e)"
  "pm_total (metrics_hook e pm) l = pm_total pm l + of_bool (ends_at l e)"
  "pm_errored (metrics_hook e pm) l = pm_errored pm l + of_bool (fails_at l e)"
  "pm_rejected (metrics_hook e pm) l = pm_rejected pm l + of_bool (rejects_at l e)"
  "length (pm_durations (metrics_hook e pm) l) = length (pm_durations pm l) + of_bool (ends_at l e)"
  by (cases e; auto simp: metrics_hooks starts_at_def ends_at_def fails_at_def rejects_at_def)+

text \<open>
  The metrics add up, for each queue and actor: the gauge of messages in progress is the number of messages that
  were begun less that of those that ended, the counters are the numbers of messages that ended, that ended
  with an exception and that were rejected, and there is one duration for each that ended.
\<close>

theorem metrics_add_up:
  "let pm = metrics_after es Prometheus_init
   in pm_inprogress pm l = int (counted_events (starts_at l) es) - int (counted_events (ends_at l) es)
    \<and> pm_total pm l = counted_events (ends_at l) es \<and> pm_errored pm l = counted_events (fails_at l) es
    \<and> pm_rejected pm l = counted_events (rejects_at l) es
    \<and> length (pm_durations pm l) = counted_events (ends_at l) es"
proof -
  have "pm_inprogress (metrics_after es pm) l = pm_inprogress pm l + int (counted_events (starts_at l) es) - int (counted_events (ends_at l) es)
      \<and> pm_total (metrics_after es pm) l = pm_total pm l + counted_events (ends_at l) es
      \<and> pm_errored (metrics_after es pm) l = pm_errored pm l + counted_events (fails_at l) es
      \<and> pm_rejected (metrics_after es pm) l = pm_rejected pm l + counted_events (rejects_at l) es
      \<and> length (pm_durations (metrics_after es pm) l) = length (pm_durations pm l) + counted_events (ends_at l) es" for pm
    by (induction es arbitrary: pm) (auto simp: metrics_after_def metrics_step)
  from this[of Prometheus_init] show ?thesis
    by (simp add: Prometheus_init_def Let_def)
qed

text \<open>
  The gauge of delayed messages drifts: a message is counted under the name of its delay queue when it is
  delayed, and taken off under the name of its queue when the released copy is processed, so that the one
  stays up and the other goes below zero.
\<close>

theorem delayed_gauge_drifts:
  assumes "undelayed m = Inr m'" "q_name (queue_name m) \<noteq> queue_name m"
  shows "pm_inprogress_delayed (metrics_after [Delays m, Starts now m'] Prometheus_init) (queue_name m, actor_name m) = 1"
    "pm_inprogress_delayed (metrics_after [Delays m, Starts now m'] Prometheus_init) (q_name (queue_name m), actor_name m) = -1"
  using assms by (auto simp: metrics_after_def metrics_hooks Prometheus_init_def message_labels_def undelayed_def copy_def Let_def split: if_splits)

text \<open>
  Another middleware that skips the message before the hook of \<open>Prometheus\<close> has run makes the gauge of messages in progress
  go below zero, since \<open>after_skip_message\<close> is \<open>after_process_message\<close>.
\<close>

lemma skipped_gauge_drifts:
  "pm_inprogress (metrics_after [Ends now m None] Prometheus_init) (message_labels m) = -1"
  by (simp add: metrics_after_def metrics_hooks Prometheus_init_def)

lemma delayed_gauge_drifts_witness:
  "pm_inprogress_delayed (metrics_after
     [Delays (blank_message\<lparr>queue_name := ''default.DQ'', options := [(''eta'', PInt 3)]\<rparr>),
      Starts 5 (blank_message\<lparr>queue_name := ''default'', options := []\<rparr>)] Prometheus_init)
     (''default'', ''add'') = -1"
proof -
  have q: "q_name ''default.DQ'' = ''default''" by code_simp
  have "undelayed (blank_message\<lparr>queue_name := ''default.DQ'', options := [(''eta'', PInt 3)]\<rparr>)
      = Inr (blank_message\<lparr>queue_name := ''default'', options := []\<rparr>)"
    by (simp add: undelayed_def copy_def q Let_def)
  from delayed_gauge_drifts(2) [OF this, of 5] q show ?thesis by simp
qed

end
