(* ===== verification/Retry_Outage.thy ===== *)
theory Retry_Outage
  imports Middlewares
begin

text \<open>
  \<open>Retries\<close> (\<^verbatim>\<open>dramatiq/middleware/retries.py\<close>) when the broker cannot take the message again: the hook
  runs after the actor has failed, and \<open>Broker.emit_after\<close> ignores what it raises.
\<close>

text \<open>
  A message whose retry cannot be enqueued is not failed: the exception of \<open>enqueue\<close> is ignored and the
  message goes on to be acknowledged, with the retry counted that was never made.
\<close>

theorem retry_lost_in_outage:
  assumes m: "message_at s r = m" "map_of (br_actors s) (actor_name m) = Some actor"
    and "truthy (option_or m actor ''throws'') \<longrightarrow> isinstance_of e (option_or m actor ''throws'') = Inr False"
    and "dget_default (options m) ''retries'' (PInt 0) = PInt k" "0 \<le> k" "k < n"
    and "dget_default (ac_options actor) ''retry_when'' (rt_retry_when cfg) = PNone"
    and "option_default m actor ''max_retries'' (rt_max_retries cfg) = PInt n"
    and "option_default m actor ''min_backoff'' (PInt (rt_min_backoff cfg)) = PInt mn" "0 \<le> mn"
    and "option_default m actor ''max_backoff'' (PInt (rt_max_backoff cfg)) = PInt mx" "0 \<le> mx"
    and "\<not> truthy (option_or m actor ''on_retry_exhausted'')"
    and "1 \<le> me_u E" "me_u E \<le> 2" "1 / 2 \<le> me_w E" "me_w E \<le> 1"
    and outage: "\<And>d t. me_enqueue E (counted_message (me_traceback E) (br_clock s) k m) d t = (Inl err, t)"
      "isinstance err Exception"
    and alone: "br_middleware s = [retries]"
      "mw_run M retries (After_process_message r res (Some e)) = Retries_after_process_message E cfg r (Some e)"
  shows "emit_after M (After_process_message r res (Some e)) s =
    (Inr (), update_proxy r (\<lambda>p. p\<lparr>px_message := counted_message (me_traceback E) (br_clock s) k m\<rparr>) s)"
proof -
  let ?m = "counted_message (me_traceback E) (br_clock s) k m"
  let ?s = "update_proxy r (\<lambda>p. p\<lparr>px_message := ?m\<rparr>) s"
  obtain delay where "Retries_after_process_message E cfg r (Some e) s = andthen (me_enqueue E ?m (Some delay)) (\<lambda>_. return ()) ?s"
    using Retries_run[OF m assms(3-5,7-17)] assms(6) by (auto simp: Let_def)
  with outage have "Retries_after_process_message E cfg r (Some e) s = (Inl err, ?s)"
    by (simp add: andthen_def)
  then show ?thesis
    using alone outage(2) by (simp add: emit_after_def try_except_def after_handler_def return_def andthen_def)
qed

text \<open>The example of \<^theory_text>\<open>Middlewares\<close> with a broker that raises.\<close>

definition outage_env :: "('m, 'q, 'a) broker_scheme mw_env" where
  "outage_env = \<lparr>me_enqueue = (\<lambda>m d s. (Inl (mk_exn ConnectionClosed ''closed''), s)),
     me_uuid = ''uuid'', me_actor_of = (\<lambda>v. None), me_u = 1, me_w = 1, me_traceback = ''tb'',
     me_retry_when = (\<lambda>f k e. return (PBool False))\<rparr>"

definition retries_only :: "(unit, ('m, 'q, 'a) broker_scheme) mw_ops" where
  "retries_only =
     \<lparr>mw_isinstance = (\<lambda>_ _. False), mw_actor_options = (\<lambda>_. {}),
      mw_run = (\<lambda>_ h. case h of
          After_process_message r res e \<Rightarrow> Retries_after_process_message outage_env (Retries (PInt 2) None None PNone) r e
        | _ \<Rightarrow> return ())\<rparr>"

definition outage_broker :: "(unit, message list, unit) broker_scheme" where
  "outage_broker = \<lparr>br_actors = [(''add'', add_actor)], br_queues = [], br_delay_queues = [], br_actor_options = {},
     br_middleware = [()], br_proxies = (\<lambda>_. MessageProxy blank_message), br_clock = 1000, \<dots> = ()\<rparr>"

lemma retry_lost_in_outage_witness:
  "\<exists>s. emit_after retries_only (After_process_message 0 PNone (Some (mk_exn ValueError ''bad''))) outage_broker = (Inr (), s)
     \<and> \<not> px_failed (proxy_at s 0) \<and> dget_default (options (message_at s 0)) ''retries'' (PInt 0) = PInt 1"
proof -
  let ?cfg = "Retries (PInt 2) None None PNone"
  have "emit_after retries_only (After_process_message 0 PNone (Some (mk_exn ValueError ''bad''))) outage_broker =
    (Inr (), update_proxy 0 (\<lambda>p. p\<lparr>px_message := counted_message
      (me_traceback (outage_env :: (unit, message list, unit) broker_scheme mw_env)) (br_clock outage_broker) 0 blank_message\<rparr>) outage_broker)"
    by (rule retry_lost_in_outage[where actor = add_actor and n = 2 and cfg = ?cfg and mn = 15000 and mx = 604800000
          and err = "mk_exn ConnectionClosed ''closed''" and retries = "()"])
      (simp_all add: outage_env_def retries_only_def outage_broker_def option_or_def option_default_def Retries_def
        DEFAULT_MIN_BACKOFF_def DEFAULT_MAX_BACKOFF_def Let_def py_or_def issubclass_code MessageProxy_def)
  then show ?thesis
    by (simp add: update_proxy_def outage_broker_def MessageProxy_def counted_message_def)
qed

end
