(* ===== verification/Arguments.thy ===== *)
theory Arguments
  imports Main_Process
begin

text \<open>
  The options of \<open>make_argument_parser\<close> in \<^verbatim>\<open>dramatiq/cli.py\<close> as a table, and what the parser of the standard library makes
  of them: it starts from the defaults and carries out, one after the other, the action of each option that
  occurs. Splitting the command line into occurrences (abbreviations, \<^verbatim>\<open>--option=value\<close>, joined short options, where
  positional arguments end) and the help text are left out. In the end come the arguments that \<open>main\<close> and the
  workers read.
\<close>

section \<open>The table\<close>

datatype arg_action = Store | Store_True | Append_Arg | Count | Version

datatype arg_type = Text_Arg | Int_Arg | Timeout_Arg | Folder_Arg

datatype arg_value = No_Value | Text_Value string | Int_Value int | Float_Value py_float | Bool_Value bool | Texts "string list"

text \<open>An option: its names, where its value goes, its action, whether it takes any number of arguments, their type, its default.\<close>

record option_spec =
  op_flags :: "string list"
  op_dest :: string
  op_action :: arg_action
  op_many :: bool
  op_type :: arg_type
  op_default :: arg_value

text \<open>Without \<open>dest\<close> the first long name gives it, its dashes within as underscores.\<close>

definition dest_of :: "string list \<Rightarrow> string" where
  "dest_of flags =
     (case filter (\<lambda>f. take 2 f = ''--'') flags of
        [] \<Rightarrow> ''''
      | f # _ \<Rightarrow> map (\<lambda>c. if c = CHR ''-'' then CHR ''_'' else c) (drop 2 f))"

definition stored :: "string list \<Rightarrow> arg_type \<Rightarrow> arg_value \<Rightarrow> option_spec" where
  "stored flags t v = \<lparr>op_flags = flags, op_dest = dest_of flags, op_action = Store, op_many = False, op_type = t, op_default = v\<rparr>"

definition stored_many :: "string list \<Rightarrow> arg_value \<Rightarrow> option_spec" where
  "stored_many flags v = (stored flags Text_Arg v)\<lparr>op_many := True\<rparr>"

definition switch :: "string list \<Rightarrow> option_spec" where
  "switch flags = (stored flags Text_Arg (Bool_Value False))\<lparr>op_action := Store_True\<rparr>"

definition appended :: "string list \<Rightarrow> string \<Rightarrow> arg_value \<Rightarrow> option_spec" where
  "appended flags dest v = (stored flags Text_Arg v)\<lparr>op_dest := dest, op_action := Append_Arg\<rparr>"

text \<open>The options, on a machine with \<open>cpus\<close> processors.\<close>

definition parser_options :: "int \<Rightarrow> option_spec list" where
  "parser_options cpus =
     [stored [''--processes'', ''-p''] Int_Arg (Int_Value cpus),
      stored [''--threads'', ''-t''] Int_Arg (Int_Value 8),
      stored_many [''--path'', ''-P''] (Text_Value ''.''),
      stored_many [''--queues'', ''-Q''] No_Value,
      stored [''--pid-file''] Text_Arg No_Value,
      stored [''--log-file''] Text_Arg No_Value,
      switch [''--skip-logging''],
      switch [''--use-spawn''],
      appended [''--fork-function'', ''-f''] ''forks'' (Texts []),
      stored [''--worker-fork-timeout''] Timeout_Arg (Int_Value 30000),
      stored [''--worker-shutdown-timeout''] Int_Arg (Int_Value 600000),
      stored [''--watch''] Folder_Arg No_Value,
      switch [''--watch-use-polling''],
      appended [''-i'', ''--watch-include''] ''include_patterns'' (Texts [''**.py'']),
      appended [''-x'', ''--watch-exclude''] ''exclude_patterns'' No_Value,
      (stored [''--version''] Text_Arg No_Value)\<lparr>op_action := Version\<rparr>,
      (stored [''--verbose'', ''-v''] Text_Arg (Int_Value 0))\<lparr>op_action := Count\<rparr>]"

section \<open>Parsing\<close>

text \<open>Where the process runs: \<open>float\<close>, \<open>os.path.isdir\<close> and \<open>os.path.abspath\<close>.\<close>

record arg_env =
  ae_to_float :: "string \<Rightarrow> py_float option"
  ae_isdir :: "string \<Rightarrow> bool"
  ae_abspath :: "string \<Rightarrow> string"

text \<open>The type function applied to an argument; what it raises is an error of the command line.\<close>

definition convert :: "arg_env \<Rightarrow> arg_type \<Rightarrow> string \<Rightarrow> arg_value option" where
  "convert E t text =
     (case t of
        Text_Arg \<Rightarrow> Some (Text_Value text)
      | Int_Arg \<Rightarrow> map_option Int_Value (int_of text)
      | Timeout_Arg \<Rightarrow> (case worker_fork_timeout_type (ae_to_float E) text of Inl _ \<Rightarrow> None | Inr ms \<Rightarrow> Some (Float_Value ms))
      | Folder_Arg \<Rightarrow> (case folder_path (ae_isdir E) (ae_abspath E) text of Inl _ \<Rightarrow> None | Inr p \<Rightarrow> Some (Text_Value p)))"

type_synonym namespace = "string \<Rightarrow> arg_value"

datatype 'a parsed = Parsed 'a | Exits int

text \<open>
  One occurrence of an option with its arguments. An error prints the usage and exits with status 2, the version
  with status 0.
\<close>

definition apply_option :: "arg_env \<Rightarrow> option_spec \<Rightarrow> string list \<Rightarrow> namespace \<Rightarrow> namespace parsed" where
  "apply_option E p xs ns =
     (case op_action p of
        Store \<Rightarrow>
          (if op_many p then Parsed (ns(op_dest p := Texts xs))
           else (case xs of
                   [x] \<Rightarrow> (case convert E (op_type p) x of None \<Rightarrow> Exits 2 | Some v \<Rightarrow> Parsed (ns(op_dest p := v)))
                 | _ \<Rightarrow> Exits 2))
      | Store_True \<Rightarrow> (if xs = [] then Parsed (ns(op_dest p := Bool_Value True)) else Exits 2)
      | Append_Arg \<Rightarrow>
          (case xs of
             [x] \<Rightarrow> Parsed (ns(op_dest p := Texts ((case ns (op_dest p) of Texts ys \<Rightarrow> ys | _ \<Rightarrow> []) @ [x])))
           | _ \<Rightarrow> Exits 2)
      | Count \<Rightarrow>
          (if xs = [] then Parsed (ns(op_dest p := Int_Value ((case ns (op_dest p) of Int_Value n \<Rightarrow> n | _ \<Rightarrow> 0) + 1))) else Exits 2)
      | Version \<Rightarrow> Exits 0)"

definition option_named :: "option_spec list \<Rightarrow> string \<Rightarrow> option_spec option" where
  "option_named ps flag = List.find (\<lambda>p. flag \<in> set (op_flags p)) ps"

definition defaults :: "option_spec list \<Rightarrow> namespace" where
  "defaults ps x = (case List.find (\<lambda>p. op_dest p = x \<and> op_action p \<noteq> Version) ps of None \<Rightarrow> No_Value | Some p \<Rightarrow> op_default p)"

fun apply_options :: "arg_env \<Rightarrow> option_spec list \<Rightarrow> (string \<times> string list) list \<Rightarrow> namespace \<Rightarrow> namespace parsed" where
  "apply_options E ps [] ns = Parsed ns"
| "apply_options E ps ((flag, xs) # occs) ns =
     (case option_named ps flag of
        None \<Rightarrow> Exits 2
      | Some p \<Rightarrow> (case apply_option E p xs ns of Exits c \<Rightarrow> Exits c | Parsed ns \<Rightarrow> apply_options E ps occs ns))"

definition parse_args :: "arg_env \<Rightarrow> int \<Rightarrow> (string \<times> string list) list \<Rightarrow> namespace parsed" where
  "parse_args E cpus occs = apply_options E (parser_options cpus) occs (defaults (parser_options cpus))"

section \<open>What is read of them\<close>

definition int_arg :: "namespace \<Rightarrow> string \<Rightarrow> int" where
  "int_arg ns x = (case ns x of Int_Value n \<Rightarrow> n | _ \<Rightarrow> 0)"

definition text_arg :: "namespace \<Rightarrow> string \<Rightarrow> string option" where
  "text_arg ns x = (case ns x of Text_Value t \<Rightarrow> Some t | _ \<Rightarrow> None)"

definition texts_arg :: "namespace \<Rightarrow> string \<Rightarrow> string list" where
  "texts_arg ns x = (case ns x of Texts ts \<Rightarrow> ts | _ \<Rightarrow> [])"

text \<open>\<open>for path in args.path\<close>: the default is a string, whose characters are the paths.\<close>

definition import_path :: "namespace \<Rightarrow> string list" where
  "import_path ns = (case ns ''path'' of Texts ts \<Rightarrow> ts | Text_Value t \<Rightarrow> map (\<lambda>c. [c]) t | _ \<Rightarrow> [])"

text \<open>The arguments of the main process, on a platform that can watch or not; \<open>range(n)\<close> is empty for a negative number.\<close>

definition main_args_of :: "bool \<Rightarrow> namespace \<Rightarrow> main_args" where
  "main_args_of watchable ns =
     \<lparr>ma_processes = nat (int_arg ns ''processes''), ma_pid_file = text_arg ns ''pid_file'', ma_forks = texts_arg ns ''forks'',
      ma_watch = (case text_arg ns ''watch'' of None \<Rightarrow> False | Some d \<Rightarrow> d \<noteq> []), ma_watchable = watchable\<rparr>"

definition verbosity :: "namespace \<Rightarrow> string" where
  "verbosity ns = (if int_arg ns ''verbose'' = 0 then ''INFO'' else ''DEBUG'')"

section \<open>Types\<close>

text \<open>The values that an option may leave at its place.\<close>

fun typed_as :: "arg_action \<Rightarrow> bool \<Rightarrow> arg_type \<Rightarrow> arg_value \<Rightarrow> bool" where
  "typed_as Store True t v = (case v of Texts _ \<Rightarrow> True | _ \<Rightarrow> False)"
| "typed_as Store False Text_Arg v = (case v of Text_Value _ \<Rightarrow> True | _ \<Rightarrow> False)"
| "typed_as Store False Int_Arg v = (case v of Int_Value _ \<Rightarrow> True | _ \<Rightarrow> False)"
| "typed_as Store False Timeout_Arg v =
     (case v of Float_Value ms \<Rightarrow> \<not> float_less ms (Num 10) \<and> \<not> float_less (Num 1800000) ms | _ \<Rightarrow> False)"
| "typed_as Store False Folder_Arg v = (case v of Text_Value _ \<Rightarrow> True | _ \<Rightarrow> False)"
| "typed_as Store_True m t v = (v = Bool_Value True)"
| "typed_as Append_Arg m t v = (case v of Texts ts \<Rightarrow> ts \<noteq> [] | _ \<Rightarrow> False)"
| "typed_as Count m t v = (case v of Int_Value n \<Rightarrow> 0 < n | _ \<Rightarrow> False)"
| "typed_as Version m t v = False"

definition arg_typed :: "option_spec \<Rightarrow> arg_value \<Rightarrow> bool" where
  "arg_typed p v \<longleftrightarrow> v = op_default p \<or> typed_as (op_action p) (op_many p) (op_type p) v"

definition namespace_typed :: "option_spec list \<Rightarrow> namespace \<Rightarrow> bool" where
  "namespace_typed ps ns \<longleftrightarrow> list_all (\<lambda>p. op_action p = Version \<or> arg_typed p (ns (op_dest p))) ps"

text \<open>A table in which an option is found by its names and has a place of its own.\<close>

definition table_ok :: "option_spec list \<Rightarrow> bool" where
  "table_ok ps \<longleftrightarrow> distinct (concat (map op_flags ps)) \<and> distinct (map op_dest ps)
     \<and> list_all (\<lambda>p. op_action p = Count \<longrightarrow> op_default p = Int_Value 0) ps"

lemma parser_options_ok: "table_ok (parser_options cpus)"
proof -
  have "map op_flags (parser_options cpus) = map op_flags (parser_options 0)"
    "map op_dest (parser_options cpus) = map op_dest (parser_options 0)"
    by (simp_all add: parser_options_def stored_def stored_many_def switch_def appended_def)
  moreover have "distinct (concat (map op_flags (parser_options 0)))" "distinct (map op_dest (parser_options 0))"
    by code_simp+
  moreover have "list_all (\<lambda>p. op_action p = Count \<longrightarrow> op_default p = Int_Value 0) (parser_options cpus)"
    by (simp add: parser_options_def stored_def stored_many_def switch_def appended_def)
  ultimately show ?thesis by (simp add: table_ok_def)
qed

lemma same_dest:
  assumes "table_ok ps" "p \<in> set ps" "q \<in> set ps" "op_dest p = op_dest q"
  shows "p = q"
  using assms unfolding table_ok_def distinct_map inj_on_def by blast

lemma defaults_at:
  assumes "table_ok ps" "p \<in> set ps" "op_action p \<noteq> Version"
  shows "defaults ps (op_dest p) = op_default p"
proof -
  obtain q where q: "List.find (\<lambda>q. op_dest q = op_dest p \<and> op_action q \<noteq> Version) ps = Some q"
    using assms(2,3) by (cases "List.find (\<lambda>q. op_dest q = op_dest p \<and> op_action q \<noteq> Version) ps") (auto simp: find_None_iff)
  then have "q \<in> set ps" "op_dest q = op_dest p" by (auto simp: find_Some_iff)
  then have "q = p" by (intro same_dest[OF assms(1) _ assms(2)])
  with q show ?thesis by (simp add: defaults_def)
qed

lemma option_named_in: "option_named ps f = Some p \<Longrightarrow> p \<in> set ps"
  by (auto simp: option_named_def find_Some_iff)

text \<open>An option that is carried out changes its own place only, and leaves a value of its type there.\<close>

lemma apply_option_effect:
  assumes "apply_option E p xs ns = Parsed ns'"
  shows "x \<noteq> op_dest p \<Longrightarrow> ns' x = ns x" "op_action p \<noteq> Version"
  using assms by (auto simp: apply_option_def split: arg_action.splits if_splits list.splits option.splits)

lemma convert_typed: "convert E t x = Some v \<Longrightarrow> typed_as Store False t v"
  by (cases t) (auto simp: convert_def worker_fork_timeout_type_def split: sum.splits option.splits if_splits)

lemma apply_option_typed:
  assumes "apply_option E p xs ns = Parsed ns'" "arg_typed p (ns (op_dest p))" "op_action p = Count \<longrightarrow> op_default p = Int_Value 0"
  shows "arg_typed p (ns' (op_dest p))"
proof (cases "op_action p")
  case Count
  then show ?thesis
    using assms by (auto simp: apply_option_def arg_typed_def split: if_splits arg_value.splits)
qed (use assms convert_typed in \<open>auto simp: apply_option_def arg_typed_def split: if_splits list.splits option.splits\<close>)

lemma apply_options_typed:
  assumes "apply_options E ps occs ns = Parsed ns'" "namespace_typed ps ns" "table_ok ps"
  shows "namespace_typed ps ns'"
  using assms
proof (induction E ps occs ns rule: apply_options.induct)
  case (2 E ps flag xs occs ns)
  then obtain p ns1 where p: "option_named ps flag = Some p" "apply_option E p xs ns = Parsed ns1"
    "apply_options E ps occs ns1 = Parsed ns'"
    by (auto split: option.splits parsed.splits)
  have "op_action q = Version \<or> arg_typed q (ns1 (op_dest q))" if q: "q \<in> set ps" for q
  proof (cases "q = p")
    case True
    then show ?thesis
      using apply_option_typed[OF p(2)] apply_option_effect(2)[OF p(2)] 2(3,4) option_named_in[OF p(1)]
      by (auto simp: namespace_typed_def table_ok_def list_all_iff)
  next
    case False
    then have "op_dest q \<noteq> op_dest p" using same_dest[OF 2(4) q option_named_in[OF p(1)]] by blast
    then show ?thesis
      using apply_option_effect(1)[OF p(2)] 2(3) q by (auto simp: namespace_typed_def list_all_iff)
  qed
  then have "namespace_typed ps ns1" by (auto simp: namespace_typed_def list_all_iff)
  with 2 p show ?case by auto
qed simp

text \<open>
  Whatever the command line, the parser ends with a status or with arguments of the right types: each is the default
  of its option or a value of its action and type, so that numbers are numbers, the timeout of the boot is
  within its bounds and lists of patterns and forks are lists.
\<close>

theorem arguments_typed:
  assumes "parse_args E cpus occs = Parsed ns"
  shows "namespace_typed (parser_options cpus) ns"
proof (rule apply_options_typed[OF assms[unfolded parse_args_def] _ parser_options_ok])
  show "namespace_typed (parser_options cpus) (defaults (parser_options cpus))"
    using defaults_at[OF parser_options_ok] by (auto simp: namespace_typed_def list_all_iff arg_typed_def)
qed

section \<open>What each option means\<close>

text \<open>
  What the occurrences of an option leave, given their arguments; \<^const>\<open>None\<close> if that is an error. And the arguments that
  follow any of some names on the command line, one list for each occurrence.
\<close>

definition final_value :: "arg_env \<Rightarrow> option_spec \<Rightarrow> string list list \<Rightarrow> arg_value option" where
  "final_value E p xss =
     (if xss = [] then Some (op_default p)
      else
        (case op_action p of
           Store \<Rightarrow> if op_many p then Some (Texts (last xss)) else (case last xss of [x] \<Rightarrow> convert E (op_type p) x | _ \<Rightarrow> None)
         | Store_True \<Rightarrow> Some (Bool_Value True)
         | Append_Arg \<Rightarrow> Some (Texts ((case op_default p of Texts ts \<Rightarrow> ts | _ \<Rightarrow> []) @ concat xss))
         | Count \<Rightarrow> Some (Int_Value (int (length xss)))
         | Version \<Rightarrow> None))"

definition given :: "string list \<Rightarrow> (string \<times> string list) list \<Rightarrow> string list list" where
  "given flags occs = map snd (filter (\<lambda>(f, xs). f \<in> set flags) occs)"

lemma given_simps [simp]:
  "given flags [] = []" "given flags (occs @ [(f, xs)]) = given flags occs @ (if f \<in> set flags then [xs] else [])"
  by (simp_all add: given_def)

lemma flags_apart:
  "distinct (concat (map op_flags ps)) \<Longrightarrow> p \<in> set ps \<Longrightarrow> q \<in> set ps \<Longrightarrow> f \<in> set (op_flags p) \<Longrightarrow> f \<in> set (op_flags q) \<Longrightarrow> p = q"
  by (induction ps) auto

lemma named:
  assumes "table_ok ps" "p \<in> set ps" "option_named ps f = Some q"
  shows "f \<in> set (op_flags p) \<longleftrightarrow> q = p"
proof -
  have q: "f \<in> set (op_flags q)" "q \<in> set ps" using assms(3) by (auto simp: option_named_def find_Some_iff)
  with flags_apart[OF _ assms(2) q(2) _ q(1)] assms(1) show ?thesis by (auto simp: table_ok_def)
qed

lemma apply_options_snoc:
  "apply_options E ps (occs @ [(f, xs)]) ns =
     (case apply_options E ps occs ns of
        Exits c \<Rightarrow> Exits c
      | Parsed ns \<Rightarrow> (case option_named ps f of None \<Rightarrow> Exits 2 | Some p \<Rightarrow> apply_option E p xs ns))"
  by (induction E ps occs ns rule: apply_options.induct) (auto split: option.splits parsed.splits)

lemma final_value_snoc:
  assumes "apply_option E p xs ns = Parsed ns'" "final_value E p xss = Some (ns (op_dest p))"
    "op_action p = Count \<longrightarrow> op_default p = Int_Value 0"
  shows "final_value E p (xss @ [xs]) = Some (ns' (op_dest p))"
proof (cases "op_action p")
  case Count
  then have "ns (op_dest p) = Int_Value (int (length xss))"
    using assms(2,3) by (simp add: final_value_def split: if_splits)
  with Count assms(1) show ?thesis by (auto simp: apply_option_def final_value_def split: if_splits)
next
  case Append_Arg
  then obtain x where "xs = [x]" using assms(1) by (auto simp: apply_option_def split: list.splits)
  with Append_Arg assms show ?thesis
    by (auto simp: apply_option_def final_value_def split: if_splits arg_value.splits)
qed (use assms in \<open>auto simp: apply_option_def final_value_def split: if_splits list.splits option.splits\<close>)

lemma arguments_for_option:
  assumes "parse_args E cpus occs = Parsed ns" "p \<in> set (parser_options cpus)" "op_action p \<noteq> Version"
  shows "final_value E p (given (op_flags p) occs) = Some (ns (op_dest p))"
  using assms(1)
proof (induction occs arbitrary: ns rule: rev_induct)
  case Nil
  then show ?case
    using defaults_at[OF parser_options_ok assms(2,3)] by (auto simp: parse_args_def final_value_def)
next
  case (snoc occ occs)
  obtain f xs where occ: "occ = (f, xs)" by (cases occ)
  with snoc.prems obtain ns1 q where q: "parse_args E cpus occs = Parsed ns1" "option_named (parser_options cpus) f = Some q"
    "apply_option E q xs ns1 = Parsed ns"
    by (auto simp: parse_args_def apply_options_snoc split: option.splits parsed.splits)
  note named = named[OF parser_options_ok assms(2) q(2)]
  show ?case
  proof (cases "q = p")
    case True
    have "op_action p = Count \<longrightarrow> op_default p = Int_Value 0"
      using parser_options_ok assms(2) by (auto simp: table_ok_def list_all_iff)
    with final_value_snoc[OF q(3)] snoc.IH[OF q(1)] named True occ show ?thesis by simp
  next
    case False
    then have "op_dest p \<noteq> op_dest q"
      using same_dest[OF parser_options_ok assms(2) option_named_in[OF q(2)]] by blast
    with apply_option_effect(1)[OF q(3)] snoc.IH[OF q(1)] named False occ show ?thesis by simp
  qed
qed

text \<open>What is left by an option that stores its last argument, read by \<open>conv\<close>.\<close>

definition last_or :: "arg_value \<Rightarrow> (string \<Rightarrow> arg_value option) \<Rightarrow> string list list \<Rightarrow> arg_value option" where
  "last_or v conv xss = (if xss = [] then Some v else (case last xss of [x] \<Rightarrow> conv x | _ \<Rightarrow> None))"

lemma stored_value:
  assumes "parse_args E cpus occs = Parsed ns" "stored flags t v \<in> set (parser_options cpus)"
  shows "last_or v (convert E t) (given flags occs) = Some (ns (dest_of flags))"
  using arguments_for_option[OF assms] by (simp add: stored_def final_value_def last_or_def split: if_splits list.splits)

lemma stored_many_value:
  assumes "parse_args E cpus occs = Parsed ns" "stored_many flags v \<in> set (parser_options cpus)"
  shows "ns (dest_of flags) = (if given flags occs = [] then v else Texts (last (given flags occs)))"
  using arguments_for_option[OF assms] by (simp add: stored_many_def stored_def final_value_def split: if_splits)

lemma switch_value:
  assumes "parse_args E cpus occs = Parsed ns" "switch flags \<in> set (parser_options cpus)"
  shows "ns (dest_of flags) = Bool_Value (given flags occs \<noteq> [])"
  using arguments_for_option[OF assms] by (simp add: switch_def stored_def final_value_def split: if_splits)

lemma appended_value:
  assumes "parse_args E cpus occs = Parsed ns" "appended flags dest v \<in> set (parser_options cpus)"
  shows "ns dest = (if given flags occs = [] then v else Texts ((case v of Texts ts \<Rightarrow> ts | _ \<Rightarrow> []) @ concat (given flags occs)))"
  using arguments_for_option[OF assms] by (simp add: appended_def stored_def final_value_def split: if_splits)

lemma dests:
  "dest_of [''--processes'', ''-p''] = ''processes''" "dest_of [''--threads'', ''-t''] = ''threads''"
  "dest_of [''--path'', ''-P''] = ''path''" "dest_of [''--queues'', ''-Q''] = ''queues''"
  "dest_of [''--pid-file''] = ''pid_file''" "dest_of [''--log-file''] = ''log_file''"
  "dest_of [''--skip-logging''] = ''skip_logging''" "dest_of [''--use-spawn''] = ''use_spawn''"
  "dest_of [''--worker-fork-timeout''] = ''worker_fork_timeout''"
  "dest_of [''--worker-shutdown-timeout''] = ''worker_shutdown_timeout''"
  "dest_of [''--watch''] = ''watch''" "dest_of [''--watch-use-polling''] = ''watch_use_polling''"
  "dest_of [''--verbose'', ''-v''] = ''verbose''"
  by code_simp+

lemma values_read:
  "convert E Text_Arg = (\<lambda>x. Some (Text_Value x))" "convert E Int_Arg = (\<lambda>x. map_option Int_Value (int_of x))"
  "convert E Timeout_Arg = (\<lambda>x. case worker_fork_timeout_type (ae_to_float E) x of Inl _ \<Rightarrow> None | Inr ms \<Rightarrow> Some (Float_Value ms))"
  "convert E Folder_Arg = (\<lambda>x. case folder_path (ae_isdir E) (ae_abspath E) x of Inl _ \<Rightarrow> None | Inr p \<Rightarrow> Some (Text_Value p))"
  by (simp_all add: convert_def fun_eq_iff)

text \<open>
  C29. What the command line says is what the arguments are. If parsing succeeds, then \<open>processes\<close>, \<open>threads\<close> and the
  timeouts are the last numbers given for them, or the number of processors, 8, 30000 and 600000; \<open>pid_file\<close>, \<open>log_file\<close> and
  the directory to \<open>watch\<close> are the last ones given, or none; \<open>path\<close> and \<open>queues\<close> are all arguments of the last
  occurrence, or the text \<open>
  C29. .\<close> and none; the switches say whether they were given; \<open>forks\<close> are all functions of all
  occurrences in their order, \<open>include_patterns\<close> likewise after \<open>**.py\<close>, and \<open>exclude_patterns\<close> likewise, or none; and
  \<open>verbose\<close> is the number of its occurrences.
\<close>

theorem arguments_by_option:
  assumes "parse_args E cpus occs = Parsed ns"
  shows "last_or (Int_Value cpus) (\<lambda>x. map_option Int_Value (int_of x)) (given [''--processes'', ''-p''] occs) = Some (ns ''processes'')
    \<and> last_or (Int_Value 8) (\<lambda>x. map_option Int_Value (int_of x)) (given [''--threads'', ''-t''] occs) = Some (ns ''threads'')
    \<and> last_or (Int_Value 30000) (\<lambda>x. case worker_fork_timeout_type (ae_to_float E) x of Inl _ \<Rightarrow> None | Inr ms \<Rightarrow> Some (Float_Value ms))
        (given [''--worker-fork-timeout''] occs) = Some (ns ''worker_fork_timeout'')
    \<and> last_or (Int_Value 600000) (\<lambda>x. map_option Int_Value (int_of x)) (given [''--worker-shutdown-timeout''] occs)
        = Some (ns ''worker_shutdown_timeout'')
    \<and> last_or No_Value (\<lambda>x. Some (Text_Value x)) (given [''--pid-file''] occs) = Some (ns ''pid_file'')
    \<and> last_or No_Value (\<lambda>x. Some (Text_Value x)) (given [''--log-file''] occs) = Some (ns ''log_file'')
    \<and> last_or No_Value (\<lambda>x. case folder_path (ae_isdir E) (ae_abspath E) x of Inl _ \<Rightarrow> None | Inr p \<Rightarrow> Some (Text_Value p))
        (given [''--watch''] occs) = Some (ns ''watch'')
    \<and> ns ''path'' = (if given [''--path'', ''-P''] occs = [] then Text_Value ''.'' else Texts (last (given [''--path'', ''-P''] occs)))
    \<and> ns ''queues'' = (if given [''--queues'', ''-Q''] occs = [] then No_Value else Texts (last (given [''--queues'', ''-Q''] occs)))
    \<and> ns ''skip_logging'' = Bool_Value (given [''--skip-logging''] occs \<noteq> [])
    \<and> ns ''use_spawn'' = Bool_Value (given [''--use-spawn''] occs \<noteq> [])
    \<and> ns ''watch_use_polling'' = Bool_Value (given [''--watch-use-polling''] occs \<noteq> [])
    \<and> ns ''forks'' = Texts (concat (given [''--fork-function'', ''-f''] occs))
    \<and> ns ''include_patterns'' = Texts (''**.py'' # concat (given [''-i'', ''--watch-include''] occs))
    \<and> ns ''exclude_patterns'' = (if given [''-x'', ''--watch-exclude''] occs = [] then No_Value
        else Texts (concat (given [''-x'', ''--watch-exclude''] occs)))
    \<and> ns ''verbose'' = Int_Value (int (length (given [''--verbose'', ''-v''] occs)))"
proof -
  have "ns ''verbose'' = Int_Value (int (length (given [''--verbose'', ''-v''] occs)))"
    using arguments_for_option[OF assms, of "(stored [''--verbose'', ''-v''] Text_Arg (Int_Value 0))\<lparr>op_action := Count\<rparr>"] dests(13)
    by (simp add: parser_options_def stored_def final_value_def split: if_splits)
  moreover note stored_value[OF assms, where flags = "[''--processes'', ''-p'']" and t = Int_Arg and v = "Int_Value cpus"]
    stored_value[OF assms, where flags = "[''--threads'', ''-t'']" and t = Int_Arg and v = "Int_Value 8"]
    stored_value[OF assms, where flags = "[''--worker-fork-timeout'']" and t = Timeout_Arg and v = "Int_Value 30000"]
    stored_value[OF assms, where flags = "[''--worker-shutdown-timeout'']" and t = Int_Arg and v = "Int_Value 600000"]
    stored_value[OF assms, where flags = "[''--pid-file'']" and t = Text_Arg and v = No_Value]
    stored_value[OF assms, where flags = "[''--log-file'']" and t = Text_Arg and v = No_Value]
    stored_value[OF assms, where flags = "[''--watch'']" and t = Folder_Arg and v = No_Value]
    stored_many_value[OF assms, where flags = "[''--path'', ''-P'']" and v = "Text_Value ''.''"]
    stored_many_value[OF assms, where flags = "[''--queues'', ''-Q'']" and v = No_Value]
    switch_value[OF assms, where flags = "[''--skip-logging'']"] switch_value[OF assms, where flags = "[''--use-spawn'']"]
    switch_value[OF assms, where flags = "[''--watch-use-polling'']"]
    appended_value[OF assms, where flags = "[''--fork-function'', ''-f'']" and dest = "''forks''" and v = "Texts []"]
    appended_value[OF assms, where flags = "[''-i'', ''--watch-include'']" and dest = "''include_patterns''" and v = "Texts [''**.py'']"]
    appended_value[OF assms, where flags = "[''-x'', ''--watch-exclude'']" and dest = "''exclude_patterns''" and v = No_Value]
  ultimately show ?thesis
    by (simp add: parser_options_def dests values_read)
qed

section \<open>A command line\<close>

definition plain_env :: arg_env where
  "plain_env = \<lparr>ae_to_float = (\<lambda>t. map_option (\<lambda>n. Num (of_int n)) (int_of t)), ae_isdir = (\<lambda>_. True), ae_abspath = id\<rparr>"

definition sample_line :: "(string \<times> string list) list" where
  "sample_line =
     [(''-p'', [''4'']), (''-v'', []), (''-Q'', [''low'', ''high'']), (''-f'', [''a:f'']), (''-p'', [''2'']), (''--verbose'', []),
      (''-i'', [''*.toml'']), (''--fork-function'', [''b:g''])]"

lemma sample_line_parses:
  "case parse_args plain_env 8 sample_line of Exits c \<Rightarrow> False
   | Parsed ns \<Rightarrow> ns ''processes'' = Int_Value 2 \<and> ns ''verbose'' = Int_Value 2 \<and> ns ''queues'' = Texts [''low'', ''high'']
       \<and> ns ''threads'' = Int_Value 8 \<and> ns ''include_patterns'' = Texts [''**.py'', ''*.toml''] \<and> import_path ns = [''.'']"
  by code_simp

lemma bad_lines:
  "case parse_args plain_env 8 [(''-p'', [''many''])] of Exits c \<Rightarrow> c = 2 | Parsed ns \<Rightarrow> False"
  "case parse_args plain_env 8 [(''--version'', []), (''-p'', [''many''])] of Exits c \<Rightarrow> c = 0 | Parsed ns \<Rightarrow> False"
  by code_simp+

lemma arguments_typed_witness:
  "case parse_args plain_env 8 sample_line of Exits c \<Rightarrow> False | Parsed ns \<Rightarrow> namespace_typed (parser_options 8) ns"
proof (cases "parse_args plain_env 8 sample_line")
  case (Parsed ns)
  with arguments_typed[OF Parsed] show ?thesis by simp
qed (use sample_line_parses in simp)

lemma arguments_by_option_witness:
  "case parse_args plain_env 8 sample_line of Exits c \<Rightarrow> False
   | Parsed ns \<Rightarrow> ns ''forks'' = Texts [''a:f'', ''b:g''] \<and> ns ''exclude_patterns'' = No_Value"
proof (cases "parse_args plain_env 8 sample_line")
  case (Parsed ns)
  have "given [''--fork-function'', ''-f''] sample_line = [[''a:f''], [''b:g'']]" "given [''-x'', ''--watch-exclude''] sample_line = []"
    by code_simp+
  with arguments_by_option[OF Parsed] Parsed show ?thesis by simp
qed (use sample_line_parses in simp)

end
