(* ===== verification/Result_Delivery.thy ===== *)
theory Result_Delivery
  imports Monitors
begin

text \<open>
  From the actor to the caller: the \<open>Results\<close> middleware (\<^verbatim>\<open>dramatiq/results/middleware.py\<close>) stores what became of a message and
  \<open>get_result\<close> (\<^verbatim>\<open>dramatiq/results/backend.py\<close>) reads it elsewhere. What that asks of a backend is a locale, kept by the
  in-memory backend and by the Memcached backend over a client library that keeps what it is given.
\<close>

section \<open>What a backend promises\<close>

text \<open>
  \<open>later d\<close> is the state \<open>d\<close> milliseconds later, \<open>alive ttl d\<close> says that what was stored for \<open>ttl\<close> is then still
  there, and \<open>norm\<close> is what storing makes of a value.
\<close>

locale result_service =
  fixes B :: "'s result_backend" and later :: "int \<Rightarrow> 's \<Rightarrow> 's" and alive :: "int \<Rightarrow> int \<Rightarrow> bool"
    and storable :: "pyval \<Rightarrow> bool" and norm :: "pyval \<Rightarrow> pyval"
  assumes kept: "storable v \<Longrightarrow> rs_store B k v ttl s = (Inr (), s') \<Longrightarrow> alive ttl d
      \<Longrightarrow> rs_get B k (later d s') = (Inr (Some (norm v)), later d s')"
    and exceptions: "storable (wrap_exception e)" "norm (wrap_exception e) = wrap_exception e"
begin

lemma result_read:
  assumes "store_result md5 B m v ttl s = (Inr (), s')" "storable v" "\<not> is_canary (norm v)" "alive ttl d"
    "build_message_key md5 B n = build_message_key md5 B m"
  shows "get_result (Suc fuel) md5 B now sleep u w n block timeout (later d s') = Some (Inr (norm v), later d s')"
  using kept[OF assms(2) _ assms(4)] assms(1,5) unwrap_wrap_result[OF assms(3)]
  by (simp add: get_result_def store_result_def wrap_result_def)

lemma exception_read:
  assumes "store_exception md5 B m e ttl s = (Inr (), s')" "alive ttl d"
    "build_message_key md5 B n = build_message_key md5 B m"
  shows "get_result (Suc fuel) md5 B now sleep u w n block timeout (later d s')
    = Some (Inl (result_failure (class_name (exn_cls e)) (exn_str e)), later d s')"
  using kept[OF exceptions(1) _ assms(2)] assms(1,3)
  by (simp add: get_result_def store_exception_def exceptions(2) unwrap_wrap_exception)

end

text \<open>The in-memory backend keeps a result for its lifetime in whole seconds.\<close>

lemma wrapped_exception: "json_wf (wrap_exception e)" "listify (wrap_exception e) = wrap_exception e"
  by (simp_all add: wrap_exception_def dict_wf_def)

interpretation stub_results: result_service "StubResults JSONEncoder ns prefix_keys" pass "\<lambda>ttl d. d < 1000 * ttl_seconds ttl" json_wf listify
  for ns prefix_keys
  by unfold_locales (auto simp: StubResults_def json.stub_get_store wrapped_exception)

section \<open>Memcached\<close>

definition MemcachedResults ::
  "(string \<Rightarrow> ('s, string option) proc) \<Rightarrow> (string \<Rightarrow> string \<Rightarrow> int \<Rightarrow> ('s, unit) proc) \<Rightarrow> encoder \<Rightarrow> string \<Rightarrow> bool \<Rightarrow> 's result_backend" where
  "MemcachedResults client_get client_set e ns prefix_keys =
     \<lparr>rs_namespace = ns, rs_use_prefix_keys = prefix_keys,
      rs_get = memcached_get client_get e, rs_store = memcached_store client_set e\<rparr>"

text \<open>
  The client: a value set with an expiry of \<open>t\<close> seconds is read for that long, for ever if \<open>t\<close> is 0, as long as \<open>t\<close> is at most
  thirty days; beyond that the server takes it for a date.
\<close>

definition memcached_alive :: "int \<Rightarrow> int \<Rightarrow> bool" where
  "memcached_alive t d \<longleftrightarrow> t = 0 \<or> 0 < t \<and> t \<le> 2592000 \<and> d < 1000 * t"

locale memcache_client =
  fixes client_get :: "string \<Rightarrow> ('s, string option) proc" and client_set :: "string \<Rightarrow> string \<Rightarrow> int \<Rightarrow> ('s, unit) proc"
    and later :: "int \<Rightarrow> 's \<Rightarrow> 's"
  assumes get_set: "client_set k x t s = (Inr (), s') \<Longrightarrow> memcached_alive t d \<Longrightarrow> client_get k (later d s') = (Inr (Some x), later d s')"
begin

lemma get_after_store:
  assumes "json_wf v" "memcached_store client_set JSONEncoder k v ttl s = (Inr (), s')" "memcached_alive (ttl_seconds ttl) d"
  shows "memcached_get client_get JSONEncoder k (later d s') = (Inr (Some (listify v)), later d s')"
proof -
  obtain x where x: "enc JSONEncoder v = Inr x" "client_set k x (ttl_seconds ttl) s = (Inr (), s')"
    using assms(2) by (auto simp: memcached_store_def raise_def split: sum.splits)
  with get_set[OF x(2) assms(3)] json.roundtrip[OF assms(1) x(1)] show ?thesis
    by (simp add: memcached_get_def andthen_def return_def)
qed

end

sublocale memcache_client \<subseteq>
  result_service "MemcachedResults client_get client_set JSONEncoder ns prefix_keys" later
    "\<lambda>ttl d. memcached_alive (ttl_seconds ttl) d" json_wf listify for ns prefix_keys
  by unfold_locales (auto simp: MemcachedResults_def wrapped_exception intro: get_after_store)

text \<open>A server in memory: the values with the times at which they expire, and the time.\<close>

type_synonym cache = "(string \<rightharpoonup> string \<times> int option) \<times> int"

definition cache_get :: "string \<Rightarrow> (cache, string option) proc" where
  "cache_get k s =
     (Inr (case fst s k of
             None \<Rightarrow> None
           | Some (x, expiry) \<Rightarrow> (case expiry of None \<Rightarrow> Some x | Some t \<Rightarrow> if snd s < t then Some x else None)), s)"

definition cache_set :: "string \<Rightarrow> string \<Rightarrow> int \<Rightarrow> (cache, unit) proc" where
  "cache_set k x t s =
     (Inr (), ((fst s)(k \<mapsto> (x, if t = 0 then None else if t \<le> 2592000 then Some (snd s + 1000 * t) else Some (1000 * t))), snd s))"

definition cache_later :: "int \<Rightarrow> cache \<Rightarrow> cache" where
  "cache_later d s = (fst s, snd s + d)"

interpretation memory_cache: memcache_client cache_get cache_set cache_later
  by unfold_locales (auto simp: cache_get_def cache_set_def cache_later_def memcached_alive_def)

text \<open>
  The lifetime is passed in whole seconds: a result that should live for less than one second stays in Memcached for ever,
  and one that should live for more than thirty days is gone at once, when the date it is taken for has passed.
\<close>

theorem memcached_lifetimes:
  assumes "json_wf v" "\<not> is_canary (listify v)"
    "store_result md5 (MemcachedResults cache_get cache_set JSONEncoder ns prefix_keys) m v ttl s = (Inr (), s')"
  shows "0 \<le> ttl \<and> ttl < 1000 \<longrightarrow>
      get_result (Suc fuel) md5 (MemcachedResults cache_get cache_set JSONEncoder ns prefix_keys) now sleep u w m block timeout (cache_later d s')
        = Some (Inr (listify v), cache_later d s')"
    and "2592000 < ttl_seconds ttl \<longrightarrow> 1000 * ttl_seconds ttl \<le> snd s \<longrightarrow>
      get_result (Suc fuel) md5 (MemcachedResults cache_get cache_set JSONEncoder ns prefix_keys) now sleep u w m False timeout s'
        = Some (Inl (mk_exn ResultMissing ''message''), s')"
proof -
  show "0 \<le> ttl \<and> ttl < 1000 \<longrightarrow>
      get_result (Suc fuel) md5 (MemcachedResults cache_get cache_set JSONEncoder ns prefix_keys) now sleep u w m block timeout (cache_later d s')
        = Some (Inr (listify v), cache_later d s')"
    using memory_cache.result_read[OF assms(3,1,2), where n = m]
    by (auto simp: memcached_alive_def ttl_seconds_def)
  obtain x where "enc JSONEncoder v = Inr x" "cache_set (build_message_key md5 (MemcachedResults cache_get cache_set JSONEncoder ns prefix_keys) m)
      x (ttl_seconds ttl) s = (Inr (), s')"
    using assms(3) by (auto simp: store_result_def MemcachedResults_def memcached_store_def raise_def wrap_result_def split: sum.splits)
  then show "2592000 < ttl_seconds ttl \<longrightarrow> 1000 * ttl_seconds ttl \<le> snd s \<longrightarrow>
      get_result (Suc fuel) md5 (MemcachedResults cache_get cache_set JSONEncoder ns prefix_keys) now sleep u w m False timeout s'
        = Some (Inl (mk_exn ResultMissing ''message''), s')"
    by (auto simp: get_result_def MemcachedResults_def memcached_get_def cache_get_def cache_set_def andthen_def return_def)
qed

section \<open>The middleware\<close>

text \<open>A backend whose state is part of the broker's.\<close>

definition at_broker :: "'a result_backend \<Rightarrow> ('m, 'q, 'a) broker_scheme result_backend" where
  "at_broker B =
     \<lparr>rs_namespace = rs_namespace B, rs_use_prefix_keys = rs_use_prefix_keys B,
      rs_get = (\<lambda>k s. (fst (rs_get B k (broker.more s)), broker.more_update (\<lambda>_. snd (rs_get B k (broker.more s))) s)),
      rs_store = (\<lambda>k v ttl s. (fst (rs_store B k v ttl (broker.more s)), broker.more_update (\<lambda>_. snd (rs_store B k v ttl (broker.more s))) s))\<rparr>"

lemma at_broker_key [simp]: "build_message_key md5 (at_broker B) m = build_message_key md5 B m"
  by (simp add: build_message_key_def at_broker_def)

lemma at_broker_store:
  "store_result md5 (at_broker B) m v ttl s = (x, s') \<Longrightarrow> store_result md5 B m v ttl (broker.more s) = (x, broker.more s')"
  "store_exception md5 (at_broker B) m e ttl s = (x, s') \<Longrightarrow> store_exception md5 B m e ttl (broker.more s) = (x, broker.more s')"
  by (auto simp: store_result_def store_exception_def at_broker_def build_message_key_def)

text \<open>The options that decide whether and for how long a result is stored.\<close>

definition stores :: "results_mw \<Rightarrow> message \<Rightarrow> actor \<Rightarrow> int \<Rightarrow> bool" where
  "stores cfg m actor ttl \<longleftrightarrow> truthy (option_default m actor ''store_results'' (rm_store_results cfg))
     \<and> option_default m actor ''result_ttl'' (PInt (rm_result_ttl cfg)) = PInt ttl"

lemma Results_lookup:
  assumes "map_of (br_actors s) (actor_name m) = Some actor" "stores cfg m actor ttl"
  shows "\<exists>x. Results_lookup_options cfg m s = (Inr (x, PInt ttl), s) \<and> truthy x"
  using assms get_actor_found[OF assms(1)]
  by (auto simp: Results_lookup_options_def stores_def try_except_def andthen_def return_def)

lemma Results_stores:
  assumes "map_of (br_actors s) (actor_name (message_at s r)) = Some actor" "stores cfg (message_at s r) actor ttl"
  shows "Results_after_process_message md5 B cfg r v None s = store_result md5 B (message_at s r) v ttl s"
    "Results_after_skip_message md5 B cfg r s =
       (if px_failed (proxy_at s r) then (Inr (), s) else store_result md5 B (message_at s r) PNone ttl s)"
    "Results_after_nack md5 B cfg r s =
       (if px_failed (proxy_at s r)
        then store_exception md5 B (message_at s r) (case px_exception (proxy_at s r) of Some e \<Rightarrow> e | None \<Rightarrow> mk_exn Exception ''unknown'') ttl s
        else (Inr (), s))"
  using Results_lookup[OF assms]
  by (auto simp: Results_after_process_message_def Results_after_skip_message_def Results_after_nack_def number_def
      andthen_def get_state_def return_def Let_def)

text \<open>With such a backend the broker's state is another service.\<close>

context result_service
begin

lemma at_broker_service:
  "result_service (at_broker B :: ('m, 'q, 's) broker_scheme result_backend) (\<lambda>d. broker.more_update (later d)) alive storable norm"
proof unfold_locales
  fix v k ttl d and s s' :: "('m, 'q, 's) broker_scheme"
  assume *: "storable v" "rs_store (at_broker B) k v ttl s = (Inr (), s')" "alive ttl d"
  then have "rs_store B k v ttl (broker.more s) = (Inr (), broker.more s')"
    by (auto simp: at_broker_def prod_eq_iff)
  from kept[OF *(1) this *(3)]
  show "rs_get (at_broker B) k (broker.more_update (later d) s') = (Inr (Some (norm v)), broker.more_update (later d) s')"
    by (simp add: at_broker_def)
qed (rule exceptions)+

end

interpretation broker_results: result_service
  "at_broker (StubResults JSONEncoder ns prefix_keys)" "\<lambda>d. broker.more_update (pass d)" "\<lambda>ttl d. d < 1000 * ttl_seconds ttl" json_wf listify
  for ns prefix_keys
  by (rule stub_results.at_broker_service)

section \<open>The caller\<close>

text \<open>\<open>Message.get_result\<close>; \<open>s\<close> is the state of the global broker, asked for its backend when none is given.\<close>

definition message_get_result ::
  "nat \<Rightarrow> ('m, ('m, 'q, 'a) broker_scheme) mw_ops \<Rightarrow> ('m \<Rightarrow> ('m, 'q, 'a) broker_scheme result_backend) \<Rightarrow> (string \<Rightarrow> string)
   \<Rightarrow> (('m, 'q, 'a) broker_scheme \<Rightarrow> int) \<Rightarrow> (int \<Rightarrow> ('m, 'q, 'a) broker_scheme \<Rightarrow> ('m, 'q, 'a) broker_scheme)
   \<Rightarrow> (nat \<Rightarrow> real) \<Rightarrow> (nat \<Rightarrow> real) \<Rightarrow> message \<Rightarrow> ('m, 'q, 'a) broker_scheme result_backend option \<Rightarrow> bool \<Rightarrow> int option
   \<Rightarrow> ('m, 'q, 'a) broker_scheme \<Rightarrow> ((exn + pyval) \<times> ('m, 'q, 'a) broker_scheme) option" where
  "message_get_result fuel M backend_of md5 now sleep u w m backend block timeout s =
     (case (case backend of Some B \<Rightarrow> (Inr B, s) | None \<Rightarrow> get_results_backend M backend_of s) of
        (Inl e, s) \<Rightarrow> Some (Inl e, s)
      | (Inr B, s) \<Rightarrow> get_result fuel md5 B now sleep u w m block timeout s)"

lemma find_index_found: "x \<in> set xs \<Longrightarrow> p x \<Longrightarrow> \<exists>i. find_index p xs = Some i"
  by (induction xs) auto

lemma find_index_none: "(\<And>x. x \<in> set xs \<Longrightarrow> \<not> p x) \<Longrightarrow> find_index p xs = None"
  by (induction xs) auto

lemma backend_found:
  assumes "MW_Results cfg \<in> set (br_middleware s)"
  shows "get_results_backend (shipped_mw X) (\<lambda>_. B) s = (Inr B, s)"
  using find_index_found[OF assms, of "\<lambda>m. mw_isinstance (shipped_mw X) m ''Results''"]
  by (auto simp: get_results_backend_def shipped_mw_def)

text \<open>Without the middleware there is no backend, and the caller is told so.\<close>

lemma get_result_without_backend:
  assumes "\<And>cfg. MW_Results cfg \<notin> set (br_middleware s)"
  shows "message_get_result fuel (shipped_mw X) backend_of md5 now sleep u w m None block timeout s
    = Some (Inl (mk_exn RuntimeError ''The broker doesn't have a results backend.''), s)"
proof -
  have "\<not> mw_isinstance (shipped_mw X) x ''Results''" if "x \<in> set (br_middleware s)" for x
  proof -
    have "x \<noteq> MW_Results cfg" for cfg using that assms by blast
    then show ?thesis by (cases x) (auto simp: shipped_mw_def)
  qed
  then have "find_index (\<lambda>m. mw_isinstance (shipped_mw X) m ''Results'') (br_middleware s) = None" by (rule find_index_none)
  then show ?thesis
    by (simp add: message_get_result_def get_results_backend_def)
qed

text \<open>What a caller gets to know of a message, by the hook that stored it.\<close>

definition outcome_of :: "proxy \<Rightarrow> proxy_ref \<Rightarrow> hook \<Rightarrow> exn + pyval \<Rightarrow> bool" where
  "outcome_of p r h answer \<longleftrightarrow>
     (\<exists>v. h = After_process_message r v None \<and> json_wf v \<and> \<not> is_canary (listify v) \<and> answer = Inr (listify v))
   \<or> h = After_skip_message r \<and> \<not> px_failed p \<and> answer = Inr PNone
   \<or> (\<exists>e. h = After_nack r \<and> px_failed p \<and> px_exception p = Some e \<and> answer = Inl (result_failure (class_name (exn_cls e)) (exn_str e)))"

text \<open>
  C28. What became of a message reaches whoever asks for its result, if the actor stores results: the value that the
  actor returned (tuples as lists), nothing when the message was skipped, and the class and text of the exception
  when it was rejected. The caller needs only a message with the same id, actor and queue (or its delay or
  dead-letter queue), and may ask as long as the backend keeps what was stored (\<open>alive ttl d\<close>, \<open>d\<close> milliseconds later).
  This is for backends with the JSON encoder and the \<open>get_result\<close> of the base class that give back what is stored
  in them while it is alive (\<open>result_service\<close>): the in-memory one, for the lifetime cut off to whole seconds
  (\<open>stub_results\<close>), and the Memcached one, likewise but for ever if that is 0 and not at all beyond thirty days
  (\<open>memory_cache\<close>, \<open>memcached_lifetimes\<close>).
\<close>

theorem outcome_reaches_caller:
  fixes s :: "(middleware, 'q, 'a) broker_scheme" and B :: "'a result_backend"
  assumes "mc_results X = at_broker B" "MW_Results any \<in> set (br_middleware s)"
    and "map_of (br_actors s) (actor_name (message_at s r)) = Some actor" "stores cfg (message_at s r) actor ttl"
    and "outcome_of (proxy_at s r) r h answer" "shipped_run X (MW_Results cfg) h s = (Inr (), s')"
    and "q_name (queue_name n) = q_name (queue_name (message_at s r))" "actor_name n = actor_name (message_at s r)"
      "message_id n = message_id (message_at s r)"
    and "alive ttl d" and "result_service B later alive json_wf listify"
  shows "message_get_result (Suc fuel) (shipped_mw X) (\<lambda>_. mc_results X) (mc_md5 X) now sleep u w n None block timeout
      (broker.more_update (later d) s') = Some (answer, broker.more_update (later d) s')"
proof -
  let ?B = "at_broker B :: (middleware, 'q, 'a) broker_scheme result_backend"
  let ?m = "message_at s r" and ?t = "broker.more_update (later d) s'"
  note service = result_service.at_broker_service [OF assms(11), where ?'m = middleware and ?'q = 'q]
  note reads = result_service.result_read [OF service _ _ _ assms(10)] result_service.exception_read [OF service _ assms(10)]
  have key: "build_message_key md5 ?B n = build_message_key md5 ?B ?m" for md5
    using assms(7-9) by (simp add: build_message_key_def)
  note hooks = Results_stores[OF assms(3,4)]
  have none: "json_wf PNone" "\<not> is_canary (listify PNone)" "listify PNone = PNone" by (simp_all add: is_canary_def)
  from assms(5) have found: "get_result (Suc fuel) (mc_md5 X) ?B now sleep u w n block timeout ?t = Some (answer, ?t)
      \<and> br_middleware s' = br_middleware s"
    unfolding outcome_of_def
  proof (elim disjE exE conjE)
    fix v
    assume v: "h = After_process_message r v None" "json_wf v" "\<not> is_canary (listify v)" "answer = Inr (listify v)"
    with assms(1,6) hooks(1) have st: "store_result (mc_md5 X) ?B ?m v ttl s = (Inr (), s')" by simp
    then have "br_middleware s' = br_middleware s" by (auto simp: store_result_def at_broker_def)
    with reads(1)[OF st v(2,3) key] v(4) show ?thesis by simp
  next
    assume v: "h = After_skip_message r" "\<not> px_failed (proxy_at s r)" "answer = Inr PNone"
    with assms(1,6) hooks(2) have st: "store_result (mc_md5 X) ?B ?m PNone ttl s = (Inr (), s')" by simp
    then have "br_middleware s' = br_middleware s" by (auto simp: store_result_def at_broker_def)
    with reads(1)[OF st none(1,2) key] v(3) none(3) show ?thesis by simp
  next
    fix e
    assume v: "h = After_nack r" "px_failed (proxy_at s r)" "px_exception (proxy_at s r) = Some e"
      "answer = Inl (result_failure (class_name (exn_cls e)) (exn_str e))"
    with assms(1,6) hooks(3) have st: "store_exception (mc_md5 X) ?B ?m e ttl s = (Inr (), s')" by simp
    then have "br_middleware s' = br_middleware s" by (auto simp: store_exception_def at_broker_def)
    with reads(2)[OF st key] v(4) show ?thesis by simp
  qed
  then have "MW_Results any \<in> set (br_middleware ?t)" using assms(2) by simp
  with backend_found[of any ?t X ?B] found show ?thesis by (simp add: message_get_result_def assms(1))
qed

text \<open>An actor that stores its results for five seconds, and a message to it.\<close>

definition storing_broker :: "(middleware, 'q, stub_results) broker_scheme" where
  "storing_broker = \<lparr>br_actors = [(''add'', add_actor)], br_queues = [], br_delay_queues = [], br_actor_options = {},
     br_middleware = [MW_Results (Results_init (PBool True) (Some 5000))], br_proxies = (\<lambda>_. MessageProxy blank_message), br_clock = 0,
     \<dots> = \<lparr>sr_results = [], sr_now = 0\<rparr>\<rparr>"

definition storing_context :: "(middleware, 'q, stub_results) broker_scheme mw_context" where
  "storing_context =
     \<lparr>mc_env = \<lparr>me_enqueue = (\<lambda>m d. return m), me_uuid = [], me_actor_of = (\<lambda>_. None), me_u = 1, me_w = 1, me_traceback = [],
        me_retry_when = (\<lambda>_ _ _. return PNone)\<rparr>,
      mc_rate_limiter = \<lparr>rb_add = (\<lambda>_ _ _ b. (True, b)), rb_incr = (\<lambda>_ _ _ _ b. (True, b)), rb_decr = (\<lambda>_ _ _ _ b. (True, b)),
        rb_incr_and_sum = (\<lambda>_ _ _ _ _ b. (True, b)), rb_wait = (\<lambda>_ _ b. (Inr True, b)), rb_wait_notify = (\<lambda>_ _ b. b)\<rparr>,
      mc_results = at_broker (StubResults JSONEncoder ''results'' True), mc_md5 = id,
      mc_place = \<lparr>mp_get = (\<lambda>_. undefined), mp_put = (\<lambda>_ s. s)\<rparr>, mc_thread = 0\<rparr>"

lemma outcome_reaches_caller_witness:
  "\<exists>s' t. shipped_run storing_context (MW_Results (Results_init (PBool True) (Some 5000))) (After_process_message 0 (PTuple [PInt 4]) None)
       (storing_broker :: (middleware, unit, stub_results) broker_scheme) = (Inr (), s')
     \<and> message_get_result 1 (shipped_mw storing_context) (\<lambda>_. mc_results storing_context) id (\<lambda>_. 0) (\<lambda>_ s. s) (\<lambda>_. 1) (\<lambda>_. 1)
         (blank_message\<lparr>queue_name := dq_name (queue_name blank_message)\<rparr>) None True None (broker.more_update (pass 4999) s')
       = Some (Inr (PList [PInt 4]), t)"
proof -
  let ?s = "storing_broker :: (middleware, unit, stub_results) broker_scheme" and ?cfg = "Results_init (PBool True) (Some 5000)"
  let ?h = "After_process_message 0 (PTuple [PInt 4]) None"
  have m: "message_at ?s 0 = blank_message" "proxy_at ?s 0 = MessageProxy blank_message" "MW_Results ?cfg \<in> set (br_middleware ?s)"
    "map_of (br_actors ?s) (actor_name (message_at ?s 0)) = Some add_actor"
    by (simp_all add: storing_broker_def MessageProxy_def)
  have stores: "stores ?cfg (message_at ?s 0) add_actor 5000"
    by (simp add: m(1) stores_def option_default_def Results_init_def)
  have "\<exists>s'. shipped_run storing_context (MW_Results ?cfg) ?h ?s = (Inr (), s')"
    using Results_stores(1)[OF m(4) stores]
    by (simp add: storing_context_def store_result_def at_broker_def StubResults_def stub_result_store_def JSONEncoder_def
        json_dumps.simps wrap_result_def Let_def)
  then obtain s' where s': "shipped_run storing_context (MW_Results ?cfg) ?h ?s = (Inr (), s')" by blast
  have "outcome_of (proxy_at ?s 0) 0 ?h (Inr (PList [PInt 4]))" by (simp add: outcome_of_def is_canary_def)
  from outcome_reaches_caller[OF _ m(3,4) stores this s' _ _ _ _ stub_results.result_service_axioms,
      where n = "blank_message\<lparr>queue_name := dq_name (queue_name blank_message)\<rparr>" and d = 4999]
  show ?thesis using s' by (auto simp: m(1) ttl_seconds_def storing_context_def queue_names_agree)
qed

end
