(* ===== verification/Interrupts.thy ===== *)
theory Interrupts
  imports Monitors
begin

text \<open>
  How exceptions get into other threads: \<^verbatim>\<open>dramatiq/threading.py\<close> over the interpreter's \<open>PyThreadState_SetAsyncExc\<close>, the
  notification of the threads on shutdown while they go on (\<^verbatim>\<open>dramatiq/middleware/shutdown.py\<close>), and both
  time limits (\<^verbatim>\<open>dramatiq/middleware/time_limit.py\<close>) and shutdown under gevent. The interpreter and gevent are arguments.
\<close>

section \<open>Raising in a thread\<close>

text \<open>
  \<open>set_async_exc i (Some c)\<close> sets an exception in the threads with that id and returns how many there were;
  \<^const>\<open>None\<close> takes it back. On other platforms than CPython there is only a message.
\<close>

definition raise_thread_exception_cpython ::
  "(nat \<Rightarrow> exn_class option \<Rightarrow> 's \<Rightarrow> nat \<times> 's) \<Rightarrow> nat \<Rightarrow> exn_class \<Rightarrow> 's \<Rightarrow> 's" where
  "raise_thread_exception_cpython set_async_exc thread_id c s =
     (case set_async_exc thread_id (Some c) s of
        (count, s) \<Rightarrow> if count = 0 then s else if 1 < count then snd (set_async_exc thread_id None s) else s)"

definition raise_in_thread ::
  "string \<Rightarrow> (nat \<Rightarrow> exn_class option \<Rightarrow> 's \<Rightarrow> nat \<times> 's) \<Rightarrow> nat \<Rightarrow> exn_class \<Rightarrow> 's \<Rightarrow> 's" where
  "raise_in_thread platform set_async_exc thread_id c s =
     (if platform = ''CPython'' then raise_thread_exception_cpython set_async_exc thread_id c s else s)"

text \<open>The interpreter: the threads with their ids and the exception each of them is about to raise.\<close>

locale interpreter =
  fixes set_async_exc :: "nat \<Rightarrow> exn_class option \<Rightarrow> 's \<Rightarrow> nat \<times> 's" and threads :: "'s \<Rightarrow> (nat \<times> exn_class option) list"
  assumes set_exc: "set_async_exc i x s = (count, s') \<Longrightarrow>
      count = length (filter (\<lambda>t. fst t = i) (threads s))
    \<and> threads s' = map (\<lambda>t. if fst t = i then (i, x) else t) (threads s)"

text \<open>Threads as a list, as an example.\<close>

definition set_in_list :: "nat \<Rightarrow> exn_class option \<Rightarrow> (nat \<times> exn_class option) list \<Rightarrow> nat \<times> (nat \<times> exn_class option) list" where
  "set_in_list i x ts = (length (filter (\<lambda>t. fst t = i) ts), map (\<lambda>t. if fst t = i then (i, x) else t) ts)"

interpretation list_interpreter: interpreter set_in_list id
  by unfold_locales (auto simp: set_in_list_def)

context interpreter
begin

lemma raise_effect:
  "threads (raise_thread_exception_cpython set_async_exc i c s) =
     map (\<lambda>t. if fst t = i then (i, if length (filter (\<lambda>t. fst t = i) (threads s)) = 1 then Some c else None) else t) (threads s)"
proof -
  let ?n = "length (filter (\<lambda>t. fst t = i) (threads s))"
  obtain s1 where s1: "set_async_exc i (Some c) s = (?n, s1)"
    and t1: "threads s1 = map (\<lambda>t. if fst t = i then (i, Some c) else t) (threads s)"
    using set_exc[of i "Some c" s] by (cases "set_async_exc i (Some c) s") auto
  have t2: "threads (snd (set_async_exc i None s1)) = map (\<lambda>t. if fst t = i then (i, None) else t) (threads s1)"
    using set_exc[of i None s1] by (cases "set_async_exc i None s1") auto
  have none: "map (\<lambda>t. if fst t = i then (i, x) else t) (threads s) = map (\<lambda>t. if fst t = i then (i, y) else t) (threads s)"
    if "?n = 0" for x y :: "exn_class option"
    using that by (auto simp: filter_empty_conv intro!: map_cong)
  consider (zero) "?n = 0" | (one) "?n = 1" | (more) "1 < ?n" by linarith
  then show ?thesis
  proof cases
    case zero
    then have "raise_thread_exception_cpython set_async_exc i c s = s1"
      using s1 by (simp add: raise_thread_exception_cpython_def)
    then show ?thesis using t1 none[OF zero, of "Some c" None] zero by simp
  next
    case one
    then show ?thesis using s1 t1 by (simp add: raise_thread_exception_cpython_def)
  next
    case more
    then have "raise_thread_exception_cpython set_async_exc i c s = snd (set_async_exc i None s1)"
      using s1 by (auto simp: raise_thread_exception_cpython_def)
    then show ?thesis using t1 t2 more by (auto intro!: map_cong)
  qed
qed

end

text \<open>
  An exception reaches the one thread with the id or none at all: with two threads of the same id it is taken back,
  and no other thread ever gets it. (Taking it back also takes away what those threads were about to raise.)
\<close>

theorem raised_in_one_thread:
  assumes "interpreter set_async_exc threads" "t \<in> set (threads (raise_thread_exception_cpython set_async_exc i c s))"
  shows "t \<in> set (threads s) \<and> fst t \<noteq> i
    \<or> t = (i, Some c) \<and> length (filter (\<lambda>t. fst t = i) (threads s)) = 1
    \<or> t = (i, None) \<and> length (filter (\<lambda>t. fst t = i) (threads s)) \<noteq> 1"
  using assms(2) unfolding interpreter.raise_effect[OF assms(1)] by (auto split: if_splits)

lemma raised_in_one_thread_witness:
  "(4, Some Shutdown) \<in> set [(4::nat, None), (5, Some TimeLimitExceeded)] \<and> fst (4::nat, Some Shutdown) \<noteq> 4
    \<or> (4::nat, Some Shutdown) = (4, Some Shutdown) \<and> length (filter (\<lambda>t. fst t = 4) (id [(4::nat, None), (5, Some TimeLimitExceeded)])) = 1
    \<or> (4::nat, Some Shutdown) = (4, None) \<and> length (filter (\<lambda>t. fst t = 4) (id [(4::nat, None), (5, Some TimeLimitExceeded)])) \<noteq> 1"
  using raised_in_one_thread[OF list_interpreter.interpreter_axioms, of "(4, Some Shutdown)" 4 Shutdown "[(4, None), (5, Some TimeLimitExceeded)]"]
  by (simp add: raise_thread_exception_cpython_def set_in_list_def)

section \<open>Telling the threads to shut down\<close>

text \<open>
  \<open>for thread_id in self.notifications\<close> in the main thread, which is told of a change of the set's size when it asks for
  the next element: \<open>order\<close> is what is left of the set's table, \<open>used\<close> the size at the start. Before each step some
  threads may be done with their messages and leave the set; threads that begin a message meanwhile are left out.
\<close>

fun notify_threads :: "nat list list \<Rightarrow> nat \<Rightarrow> nat list \<Rightarrow> mw_state \<Rightarrow> (exn + unit) \<times> mw_state" where
  "notify_threads leaving used order ms =
     (let (gone, leaving) = (case leaving of [] \<Rightarrow> ([], []) | l # ls \<Rightarrow> (l, ls));
          ms = fold remove_notification gone ms
      in if length (ms_notifications ms) \<noteq> used then (Inl (mk_exn RuntimeError ''Set changed size during iteration''), ms)
         else
           (case order of
              [] \<Rightarrow> (Inr (), ms)
            | i # order \<Rightarrow> notify_threads leaving used order (raise_thread_exception Shutdown i ms)))"

definition shutdown_notifications :: "nat list list \<Rightarrow> mw_state \<Rightarrow> (exn + unit) \<times> mw_state" where
  "shutdown_notifications leaving ms = notify_threads leaving (length (ms_notifications ms)) (ms_notifications ms) ms"

declare notify_threads.simps [simp del]

lemma raise_notifications [simp]: "ms_notifications (raise_thread_exception c i ms) = ms_notifications ms"
  by (simp add: raise_thread_exception_def)

lemma notify_quiet:
  "length (ms_notifications ms) = used \<Longrightarrow>
     notify_threads [] used order ms = (Inr (), fold (raise_thread_exception Shutdown) order ms)"
  by (induction order arbitrary: ms) (simp_all add: notify_threads.simps)

text \<open>While no thread finishes, every thread that asked for it is notified: this is the atomic \<^const>\<open>shutdown\<close>.\<close>

lemma shutdown_notifies_all: "shutdown_notifications [] ms = (Inr (), shutdown ms)"
  by (simp add: shutdown_notifications_def shutdown_def notify_quiet)

text \<open>
  A thread that finishes its message in between ends the loop with a \<open>RuntimeError\<close>, and the threads that were
  not reached are not notified. \<open>Broker.emit_before\<close> ignores the exception.
\<close>

theorem shutdown_cut_short:
  assumes "distinct (ms_notifications ms)" "ms_notifications ms = i # j # rest" "l \<in> {i, j} \<union> set rest"
  shows "\<exists>ms'. shutdown_notifications [[], [l]] ms = (Inl (mk_exn RuntimeError ''Set changed size during iteration''), ms')
    \<and> ms_raised ms' = ms_raised ms @ [(i, Shutdown)]"
proof -
  have "length (ms_notifications (remove_notification l (raise_thread_exception Shutdown i ms))) \<noteq> length (ms_notifications ms)"
    using assms length_removeAll_less[of l "ms_notifications ms"] by (simp add: remove_notification_def)
  then show ?thesis
    using assms(2) by (simp add: shutdown_notifications_def notify_threads.simps remove_notification_def raise_thread_exception_def)
qed

section \<open>Time limits under gevent\<close>

text \<open>
  The operations of \<open>gevent.Timeout\<close>: making a timer for a number of milliseconds or without a limit, starting and
  closing it, and what its class does when it expires.
\<close>

record 'g timeout_ops =
  to_new :: "int option \<Rightarrow> 'g \<Rightarrow> nat \<times> 'g"
  to_start :: "nat \<Rightarrow> 'g \<Rightarrow> 'g"
  to_close :: "nat \<Rightarrow> 'g \<Rightarrow> 'g"
  to_expire :: "nat \<Rightarrow> 'g \<Rightarrow> 'g"

text \<open>\<open>_GeventTimeoutManager\<close>: the timers of the threads, beside the hub that gevent keeps.\<close>

record 'g gevent_manager =
  gm_timers :: "(nat \<times> nat) list"
  gm_hub :: 'g

definition gevent_add_timeout :: "'g timeout_ops \<Rightarrow> nat \<Rightarrow> int option \<Rightarrow> 'g gevent_manager \<Rightarrow> 'g gevent_manager" where
  "gevent_add_timeout G thread_id ttl m =
     (case to_new G ttl (gm_hub m) of
        (t, g) \<Rightarrow> m\<lparr>gm_timers := AList.update thread_id t (gm_timers m), gm_hub := to_start G t g\<rparr>)"

definition gevent_remove_timeout :: "'g timeout_ops \<Rightarrow> nat \<Rightarrow> 'g gevent_manager \<Rightarrow> 'g gevent_manager" where
  "gevent_remove_timeout G thread_id m =
     (case map_of (gm_timers m) thread_id of
        None \<Rightarrow> m
      | Some t \<Rightarrow> m\<lparr>gm_timers := AList.delete thread_id (gm_timers m), gm_hub := to_close G t (gm_hub m)\<rparr>)"

text \<open>\<open>_GeventTimeout._on_expiration\<close> of the timer \<open>t\<close> of a thread, with the callback that \<open>add_timeout\<close> gave it.\<close>

definition gevent_on_expiration :: "'g timeout_ops \<Rightarrow> nat \<Rightarrow> nat \<Rightarrow> 'g gevent_manager \<Rightarrow> 'g gevent_manager" where
  "gevent_on_expiration G thread_id t m = m\<lparr>gm_timers := AList.delete thread_id (gm_timers m), gm_hub := to_expire G t (gm_hub m)\<rparr>"

text \<open>Every timer that may expire is the one of its thread.\<close>

definition timers_ok :: "('g \<Rightarrow> nat set) \<Rightarrow> ('g \<Rightarrow> nat set) \<Rightarrow> 'g gevent_manager \<Rightarrow> bool" where
  "timers_ok known pending m \<longleftrightarrow> pending (gm_hub m) \<subseteq> ran (map_of (gm_timers m)) \<and> ran (map_of (gm_timers m)) \<subseteq> known (gm_hub m)
     \<and> inj_on (map_of (gm_timers m)) (dom (map_of (gm_timers m)))"

lemma ran_without:
  assumes "inj_on f (dom f)" "f i = Some t"
  shows "ran (f(i := None)) = ran f - {t}"
proof -
  have only: "j = i" if "f j = Some t" for j using assms that by (auto simp: inj_on_def dom_def)
  show ?thesis
  proof (intro equalityI subsetI)
    fix x assume "x \<in> ran (f(i := None))"
    then obtain j where "j \<noteq> i" "f j = Some x" by (auto simp: ran_def split: if_splits)
    then show "x \<in> ran f - {t}" using only by (auto simp: ran_def)
  next
    fix x assume "x \<in> ran f - {t}"
    then obtain j where j: "f j = Some x" "x \<noteq> t" by (auto simp: ran_def)
    with assms(2) have "(f(i := None)) j = Some x" by auto
    then show "x \<in> ran (f(i := None))" by (rule ranI)
  qed
qed

text \<open>What gevent promises: a new timer is new, and only a started one that was not closed may still expire.\<close>

locale timeouts =
  fixes G :: "'g timeout_ops" and known pending :: "'g \<Rightarrow> nat set"
  assumes new: "to_new G d g = (t, g') \<Longrightarrow> t \<notin> known g \<and> known g' = insert t (known g) \<and> pending g' = pending g"
    and start: "known (to_start G t g) = known g" "pending (to_start G t g) \<subseteq> insert t (pending g)"
    and close: "known (to_close G t g) = known g" "pending (to_close G t g) = pending g - {t}"
    and expire: "known (to_expire G t g) = known g" "pending (to_expire G t g) = pending g - {t}"
begin

lemma timers_ok_add:
  assumes "timers_ok known pending m" "map_of (gm_timers m) i = None"
  shows "timers_ok known pending (gevent_add_timeout G i ttl m)"
proof -
  obtain t g where t: "to_new G ttl (gm_hub m) = (t, g)" by fastforce
  let ?f = "(map_of (gm_timers m))(i \<mapsto> t)"
  have m: "map_of (gm_timers (gevent_add_timeout G i ttl m)) = ?f" "gm_hub (gevent_add_timeout G i ttl m) = to_start G t g"
    using t by (simp_all add: gevent_add_timeout_def update_conv')
  have ran: "ran ?f = insert t (ran (map_of (gm_timers m)))" using assms(2) by simp
  have "t \<notin> ran (map_of (gm_timers m))" using new[OF t] assms(1) by (auto simp: timers_ok_def)
  then have inj: "inj_on ?f (dom ?f)"
    using assms by (auto simp: timers_ok_def inj_on_def ran_def)
  have "pending (to_start G t g) \<subseteq> insert t (ran (map_of (gm_timers m)))"
    using start(2)[of t g] new[OF t] assms(1) by (auto simp: timers_ok_def)
  moreover have "ran ?f \<subseteq> known (to_start G t g)"
    using start(1)[of t g] new[OF t] assms(1) ran by (auto simp: timers_ok_def)
  ultimately show ?thesis using inj ran by (simp add: timers_ok_def m)
qed

lemma timers_ok_without:
  assumes "timers_ok known pending m" "map_of (gm_timers m) i = Some t" "known h = known (gm_hub m)" "pending h = pending (gm_hub m) - {t}"
  shows "timers_ok known pending (m\<lparr>gm_timers := AList.delete i (gm_timers m), gm_hub := h\<rparr>)"
proof -
  have "inj_on ((map_of (gm_timers m))(i := None)) (dom ((map_of (gm_timers m))(i := None)))"
    using assms(1) by (auto simp: timers_ok_def inj_on_def)
  with assms ran_without[of "map_of (gm_timers m)" i t] show ?thesis
    by (auto simp: timers_ok_def delete_conv')
qed

lemma timers_ok_remove: "timers_ok known pending m \<Longrightarrow> timers_ok known pending (gevent_remove_timeout G i m)"
  using close by (auto simp: gevent_remove_timeout_def intro: timers_ok_without split: option.split)

lemma timers_ok_expire: "timers_ok known pending m \<Longrightarrow> map_of (gm_timers m) i = Some t \<Longrightarrow> timers_ok known pending (gevent_on_expiration G i t m)"
  using expire by (auto simp: gevent_on_expiration_def intro: timers_ok_without)

end

text \<open>
  What happens to the manager: a thread begins a message, ends it, or its timer expires. A thread begins a message when it
  has ended the one before.
\<close>

datatype timeout_event = Begins nat "int option" | Finishes nat | Expires nat

fun timeout_step :: "'g timeout_ops \<Rightarrow> timeout_event \<Rightarrow> nat set \<times> 'g gevent_manager \<Rightarrow> (nat set \<times> 'g gevent_manager) option" where
  "timeout_step G (Begins i ttl) (busy, m) = (if i \<in> busy then None else Some (insert i busy, gevent_add_timeout G i ttl m))"
| "timeout_step G (Finishes i) (busy, m) = Some (busy - {i}, gevent_remove_timeout G i m)"
| "timeout_step G (Expires i) (busy, m) =
     (case map_of (gm_timers m) i of None \<Rightarrow> None | Some t \<Rightarrow> Some (busy, gevent_on_expiration G i t m))"

fun timeout_run :: "'g timeout_ops \<Rightarrow> timeout_event list \<Rightarrow> nat set \<times> 'g gevent_manager \<Rightarrow> (nat set \<times> 'g gevent_manager) option" where
  "timeout_run G [] s = Some s"
| "timeout_run G (e # es) s = (case timeout_step G e s of None \<Rightarrow> None | Some s' \<Rightarrow> timeout_run G es s')"

text \<open>A hub in memory: the timers that may expire, and how many were made.\<close>

definition hub_ops :: "(nat set \<times> nat) timeout_ops" where
  "hub_ops =
     \<lparr>to_new = (\<lambda>d g. (snd g, (fst g, Suc (snd g)))), to_start = (\<lambda>t g. (insert t (fst g), snd g)),
      to_close = (\<lambda>t g. (fst g - {t}, snd g)), to_expire = (\<lambda>t g. (fst g - {t}, snd g))\<rparr>"

interpretation hub: timeouts hub_ops "\<lambda>g. {..<snd g}" fst
  by unfold_locales (auto simp: hub_ops_def)

context timeouts
begin

lemma timers_dom:
  "dom (map_of (gm_timers (gevent_add_timeout G i ttl m))) = insert i (dom (map_of (gm_timers m)))"
  "dom (map_of (gm_timers (gevent_remove_timeout G i m))) = dom (map_of (gm_timers m)) - {i}"
  "dom (map_of (gm_timers (gevent_on_expiration G i t m))) = dom (map_of (gm_timers m)) - {i}"
  by (auto simp: gevent_add_timeout_def gevent_remove_timeout_def gevent_on_expiration_def update_conv' delete_conv'
      split: prod.splits option.splits if_splits)

lemma timeout_step_ok:
  assumes "timeout_step G e s = Some s'" "timers_ok known pending (snd s)" "dom (map_of (gm_timers (snd s))) \<subseteq> fst s"
  shows "timers_ok known pending (snd s') \<and> dom (map_of (gm_timers (snd s'))) \<subseteq> fst s'"
proof -
  obtain busy m where s: "s = (busy, m)" by fastforce
  show ?thesis
  proof (cases e)
    case (Begins i ttl)
    with s assms have s': "i \<notin> busy" "s' = (insert i busy, gevent_add_timeout G i ttl m)" by (auto split: if_splits)
    with s assms(3) have "map_of (gm_timers m) i = None" by (cases "map_of (gm_timers m) i") auto
    with timers_ok_add[of m i ttl] assms(2,3) s s' timers_dom(1)[of i ttl m] show ?thesis by auto
  next
    case (Finishes i)
    with s assms(1) have s': "s' = (busy - {i}, gevent_remove_timeout G i m)" by simp
    show ?thesis using timers_ok_remove[of m i] assms(2,3) s unfolding s' snd_conv fst_conv timers_dom(2) by auto
  next
    case (Expires i)
    with s assms obtain t where t: "map_of (gm_timers m) i = Some t" "s' = (busy, gevent_on_expiration G i t m)"
      by (auto split: option.splits)
    show ?thesis using timers_ok_expire[OF _ t(1)] assms(2,3) s unfolding t(2) snd_conv fst_conv timers_dom(3) by auto
  qed
qed

lemma timeout_run_ok:
  assumes "timeout_run G es s = Some s'" "timers_ok known pending (snd s)" "dom (map_of (gm_timers (snd s))) \<subseteq> fst s"
  shows "timers_ok known pending (snd s') \<and> dom (map_of (gm_timers (snd s'))) \<subseteq> fst s'"
  using assms
proof (induction es arbitrary: s)
  case (Cons e es)
  then obtain s1 where s1: "timeout_step G e s = Some s1" "timeout_run G es s1 = Some s'" by (auto split: option.splits)
  with timeout_step_ok[OF s1(1) Cons.prems(2,3)] Cons.IH[OF s1(2)] show ?case by blast
qed simp

end

text \<open>
  Under gevent a time limit interrupts only the message it was set for: whatever the threads do and whichever timers
  expire, every timer that may still expire is the current one of a thread that is processing a message.
\<close>

theorem gevent_timers_current:
  assumes "timeouts G known pending" "pending h = {}" "timeout_run G es ({}, \<lparr>gm_timers = [], gm_hub = h\<rparr>) = Some (busy, m)"
  shows "pending (gm_hub m) \<subseteq> {t. \<exists>i. i \<in> busy \<and> map_of (gm_timers m) i = Some t}"
proof -
  have "timers_ok known pending (snd ({}, \<lparr>gm_timers = [], gm_hub = h\<rparr>))" using assms(2) by (simp add: timers_ok_def)
  from timeouts.timeout_run_ok[OF assms(1,3) this]
  have m: "timers_ok known pending m" "dom (map_of (gm_timers m)) \<subseteq> busy" by simp_all
  then have "pending (gm_hub m) \<subseteq> ran (map_of (gm_timers m))" by (simp add: timers_ok_def)
  also have "\<dots> \<subseteq> {t. \<exists>i. i \<in> busy \<and> map_of (gm_timers m) i = Some t}" using m(2) by (auto simp: ran_def)
  finally show ?thesis .
qed

lemma gevent_timers_current_witness:
  "\<exists>busy m. timeout_run hub_ops [Begins 1 (Some 10), Begins 2 None, Expires 1, Finishes 1, Begins 1 (Some 10)]
       ({}, \<lparr>gm_timers = [], gm_hub = ({}, 0)\<rparr>) = Some (busy, m)
     \<and> fst (gm_hub m) \<subseteq> {t. \<exists>i. i \<in> busy \<and> map_of (gm_timers m) i = Some t} \<and> 2 \<in> fst (gm_hub m)"
proof -
  let ?es = "[Begins 1 (Some 10), Begins 2 None, Expires 1, Finishes 1, Begins 1 (Some 10)]"
  have "\<exists>busy m. timeout_run hub_ops ?es ({}, \<lparr>gm_timers = [], gm_hub = ({}, 0)\<rparr>) = Some (busy, m) \<and> 2 \<in> fst (gm_hub m)"
    by (simp add: gevent_add_timeout_def gevent_remove_timeout_def gevent_on_expiration_def hub_ops_def)
  then obtain busy m where r: "timeout_run hub_ops ?es ({}, \<lparr>gm_timers = [], gm_hub = ({}, 0)\<rparr>) = Some (busy, m)" "2 \<in> fst (gm_hub m)"
    by blast
  from gevent_timers_current[OF hub.timeouts_axioms _ r(1)] r show ?thesis by auto
qed

section \<open>Shutdown notifications under gevent\<close>

text \<open>
  \<open>_GeventShutdownManager\<close>: the greenlets to notify, each with its thread, and \<open>greenlet.kill(Shutdown, block=False)\<close> as an
  argument. Greenlets switch only where one of them waits, which the loop does not: logging apart it is atomic.
\<close>

definition gevent_add_notification :: "nat \<times> nat \<Rightarrow> (nat \<times> nat) list \<Rightarrow> (nat \<times> nat) list" where
  "gevent_add_notification me greenlets = List.insert me greenlets"

definition gevent_remove_notification :: "nat \<times> nat \<Rightarrow> (nat \<times> nat) list \<Rightarrow> (nat \<times> nat) list" where
  "gevent_remove_notification me greenlets = removeAll me greenlets"

definition gevent_shutdown :: "(nat \<Rightarrow> 'g \<Rightarrow> 'g) \<Rightarrow> (nat \<times> nat) list \<Rightarrow> 'g \<Rightarrow> 'g" where
  "gevent_shutdown kill greenlets = fold (\<lambda>(thread_id, greenlet). kill greenlet) greenlets"

text \<open>What the greenlets do to the set: begin a message that wants the notification, and end one.\<close>

fun notified_greenlets :: "((nat \<times> nat) \<times> bool) list \<Rightarrow> (nat \<times> nat) list \<Rightarrow> (nat \<times> nat) list" where
  "notified_greenlets [] greenlets = greenlets"
| "notified_greenlets ((me, begins) # es) greenlets =
     notified_greenlets es (if begins then gevent_add_notification me greenlets else gevent_remove_notification me greenlets)"

lemma notified_snoc:
  "notified_greenlets (es @ [(me, begins)]) greenlets =
     (if begins then gevent_add_notification me (notified_greenlets es greenlets) else gevent_remove_notification me (notified_greenlets es greenlets))"
  by (induction es greenlets rule: notified_greenlets.induct) auto

text \<open>The last thing that a greenlet did, if it did any.\<close>

definition last_of :: "nat \<times> nat \<Rightarrow> ((nat \<times> nat) \<times> bool) list \<Rightarrow> bool option" where
  "last_of me es = (case filter (\<lambda>e. fst e = me) (rev es) of [] \<Rightarrow> None | e # _ \<Rightarrow> Some (snd e))"

lemma notified_iff: "me \<in> set (notified_greenlets es []) \<longleftrightarrow> last_of me es = Some True"
proof (induction es rule: rev_induct)
  case (snoc e es)
  then show ?case
    by (cases e) (auto simp: notified_snoc last_of_def gevent_add_notification_def gevent_remove_notification_def)
qed (simp add: last_of_def)

text \<open>
  On shutdown exactly the greenlets that are processing a message that wants the notification are killed, each once.
\<close>

theorem greenlets_notified_once:
  assumes "distinct (map snd (notified_greenlets es []))"
  shows "\<exists>ks. gevent_shutdown (\<lambda>g ks. ks @ [g]) (notified_greenlets es []) [] = ks \<and> distinct ks
    \<and> (\<forall>g. g \<in> set ks \<longleftrightarrow> (\<exists>i. last_of (i, g) es = Some True))"
proof -
  have "fold (\<lambda>(i, g) ks. ks @ [g]) gs ks = ks @ map snd gs" for gs :: "(nat \<times> nat) list" and ks
    by (induction gs arbitrary: ks) auto
  then have "gevent_shutdown (\<lambda>g ks. ks @ [g]) (notified_greenlets es []) [] = map snd (notified_greenlets es [])"
    by (simp add: gevent_shutdown_def case_prod_unfold)
  moreover have "g \<in> set (map snd (notified_greenlets es [])) \<longleftrightarrow> (\<exists>i. last_of (i, g) es = Some True)" for g
    using notified_iff[of _ es] by (force simp: image_iff)
  ultimately show ?thesis using assms by blast
qed

end
