(* ===== verification/Spec2Isabelle.thy ===== *)
theory Spec2Isabelle
  imports Prelude Exceptions PyValues Common Message Json Rate_Backend Rate_Limiters Results Broker Actor
    Stub_Broker Middlewares Monitors Composition Worker Delivery Stub_Worker Worker_System
    Remote_Rate_Backends Redis_Dispatch Redis_Queue Redis_Delivery Redis_Refinement Redis_Broker Redis_Consumption Redis_Worker
    Rabbitmq_Broker Rabbitmq_Delivery Rabbitmq_Consumption Generic_Actor Event_Loop
    Canteen Command_Line Worker_Process Main_Process
    Worker_Threads Log_Pipes Source_Watcher Metrics Retry_Outage
    Arguments Result_Delivery Interrupts
begin

text \<open>
  Dramatiq (\<^verbatim>\<open>src/dramatiq\<close>) is a library for background tasks. An \<^emph>\<open>actor\<close> is a function with a name and a queue;
  sending to it enqueues a \<^emph>\<open>message\<close> through a \<^emph>\<open>broker\<close> (in memory, Redis or RabbitMQ). A \<^emph>\<open>worker\<close> consumes the
  queues, runs the actors in threads and acknowledges or rejects each message; \<^emph>\<open>middleware\<close> hooks into every
  stage and decides about age, retries, time limits, results and callbacks. Rate limiters and results have
  backends of their own. The command line starts a main process with several worker processes. This
  development models these parts and proves what they promise each other. Names of definitions are those of the
  code where Isabelle allows it; methods carry the name of their class or of their component.

  \<^bold>\<open>How the code is modelled.\<close> A computation is a function from a state to a result and a state, \<^verbatim>\<open>('s, 'a) proc\<close>, whose
  result is \<^term>\<open>Inl e\<close> for a raised exception and \<^term>\<open>Inr x\<close> for a value (\<^verbatim>\<open>Exceptions\<close>: \<open>andthen\<close>, \<open>raise\<close>,
  \<open>try_except\<close>). The state of a component is a record; the broker's is extended by each of the three brokers, and that
  of a broker by the worker. Dictionaries are association lists in insertion order (\<^verbatim>\<open>Prelude\<close>, with \<open>dictionary\<close>
  as their interface), Python values a datatype (\<^verbatim>\<open>PyValues\<close>). A message that several places share is a reference into a
  store of proxies, so that a middleware that changes its options is seen by the others. A loop that may not end
  takes fuel, and \<^const>\<open>None\<close> is out of fuel. Threads and processes are steps: rounds of a loop, schedules of what
  happens between two looks of a process, or a step relation.

  \<^bold>\<open>Theories and sources\<close> (files under \<^verbatim>\<open>src/dramatiq\<close>).
  \<^item> \<^verbatim>\<open>Exceptions\<close>: \<^verbatim>\<open>errors.py\<close> and the classes of Python the code tests for, ordered by inheritance.
    \<^verbatim>\<open>Common\<close>: \<^verbatim>\<open>common.py\<close>, queue names, backoff and joining with a timeout.
  \<^item> \<^verbatim>\<open>Message\<close>, \<^verbatim>\<open>Json\<close>: \<^verbatim>\<open>message.py\<close> and \<^verbatim>\<open>encoder.py\<close>, with the JSON printer and parser of the standard library for
    what messages hold; the round trip is stated for any encoder (\<open>message_encoder\<close>) and interpreted on JSON.
  \<^item> \<^verbatim>\<open>Broker\<close>: \<^verbatim>\<open>broker.py\<close> and the hooks of \<^verbatim>\<open>middleware/middleware.py\<close>: signals before and after an event, the order of
    middleware, the registry of actors, proxies. \<^verbatim>\<open>Actor\<close>, \<^verbatim>\<open>Generic_Actor\<close>: \<^verbatim>\<open>actor.py\<close> and \<^verbatim>\<open>generic.py\<close>.
  \<^item> \<^verbatim>\<open>Stub_Broker\<close>: \<^verbatim>\<open>brokers/stub.py\<close>, queues, consumers, dead letters, flushing and joining; every message enqueued
    is at all times waiting, handed out, dead-lettered or settled.
  \<^item> \<^verbatim>\<open>Redis_Dispatch\<close>, \<^verbatim>\<open>Redis_Queue\<close>, \<^verbatim>\<open>Redis_Delivery\<close>: \<^verbatim>\<open>brokers/redis/dispatch.lua\<close> over the commands of a server (\<open>redis_server\<close>),
    its steps on an abstract queue and what follows for the messages. \<^verbatim>\<open>Redis_Refinement\<close>: which command does what to the
    queue and what it replies. \<^verbatim>\<open>Redis_Broker\<close>, \<^verbatim>\<open>Redis_Consumption\<close>: \<^verbatim>\<open>brokers/redis.py\<close>. \<^verbatim>\<open>Redis_Worker\<close>: what a worker that
    stops gives back to the queues.
  \<^item> \<^verbatim>\<open>Rabbitmq_Broker\<close>, \<^verbatim>\<open>Rabbitmq_Delivery\<close>, \<^verbatim>\<open>Rabbitmq_Consumption\<close>: \<^verbatim>\<open>brokers/rabbitmq.py\<close> over the client library pika, an
    argument whose documented behaviour is \<open>amqp_client\<close> and \<open>amqp_deliveries\<close>.
  \<^item> \<^verbatim>\<open>Middlewares\<close>: \<^verbatim>\<open>middleware/age_limit.py\<close>, \<^verbatim>\<open>retries.py\<close>, \<^verbatim>\<open>callbacks.py\<close>, \<^verbatim>\<open>pipelines.py\<close>, \<^verbatim>\<open>group_callbacks.py\<close>. \<^verbatim>\<open>Monitors\<close>:
    \<^verbatim>\<open>time_limit.py\<close>, \<^verbatim>\<open>shutdown.py\<close>, \<^verbatim>\<open>current_message.py\<close>, \<^verbatim>\<open>prometheus.py\<close>, \<^verbatim>\<open>results/middleware.py\<close>, and the table of all
    shipped middleware. \<^verbatim>\<open>Metrics\<close>: what the metrics say after a sequence of hooks. \<^verbatim>\<open>Retry_Outage\<close>: retries
    while the broker is down. \<^verbatim>\<open>Interrupts\<close>: exceptions in other threads (\<^verbatim>\<open>threading.py\<close>), shutdown while threads go on, time
    limits and shutdown under gevent. \<^verbatim>\<open>Composition\<close>: \<^verbatim>\<open>composition.py\<close>, pipelines and groups.
  \<^item> \<^verbatim>\<open>Rate_Backend\<close>, \<^verbatim>\<open>Remote_Rate_Backends\<close>, \<^verbatim>\<open>Rate_Limiters\<close>: \<^verbatim>\<open>rate_limits\<close>. \<^verbatim>\<open>Results\<close>: \<^verbatim>\<open>results\<close> and its backends.
    \<^verbatim>\<open>Result_Delivery\<close>: from the hook that stores a result to the caller that asks for it.
  \<^item> \<^verbatim>\<open>Worker\<close>: \<^verbatim>\<open>worker.py\<close>, what its threads do to messages. \<^verbatim>\<open>Worker_Threads\<close>: how they interleave with the caller of pause,
    resume and stop. \<^verbatim>\<open>Delivery\<close>: what the worker relies on of a broker (\<open>message_consumer\<close>, \<open>message_broker\<close>) and
    settlement over any such broker. \<^verbatim>\<open>Stub_Worker\<close>, \<^verbatim>\<open>Worker_System\<close>: worker, shipped middleware and in-memory broker
    together.
  \<^item> \<^verbatim>\<open>Event_Loop\<close>: \<^verbatim>\<open>asyncio.py\<close> and its middleware.
  \<^item> \<^verbatim>\<open>Command_Line\<close>, \<^verbatim>\<open>Arguments\<close>, \<^verbatim>\<open>Canteen\<close>, \<^verbatim>\<open>Worker_Process\<close>, \<^verbatim>\<open>Main_Process\<close>, \<^verbatim>\<open>Log_Pipes\<close>, \<^verbatim>\<open>Source_Watcher\<close>: \<^verbatim>\<open>cli.py\<close>, \<^verbatim>\<open>canteen.py\<close>,
    \<^verbatim>\<open>compat.py\<close> and \<^verbatim>\<open>watcher.py\<close>: finding the broker, the options, the PID file, the forks that workers ask for, worker and fork
    processes, the main process and its exit status, logs and reloading.
\<close>

text \<open>
  \<^bold>\<open>What is proved.\<close>
  \<^item> Delivery: a message that a consumer handed out is settled exactly once, whatever the actor and the shipped
    middleware do and however often the connection fails (\<open>settled_exactly_once\<close>); delayed messages are released when due;
    a worker that stops hands everything back that its threads have not taken. Brokers lose nothing: \<open>stub_accounting\<close>, \<open>redis_messages_kept\<close>,
    \<open>dead_worker_recovered\<close>, \<open>rabbitmq_settles_once\<close>. Each command of the dispatch script is one operation on a queue
    (\<open>dispatch_refines_queue\<close>).
  \<^item> Middleware: what retries decide, for every combination of their options, and that they are bounded; pipelines run in order;
    group callbacks run at the last job; when time limits interrupt; a hook can veto and cannot stop the others.
  \<^item> Rate limiters are safe over any backend that keeps the contract \<open>rate_backend\<close>. The clients of the concurrent
    limiter interleave: the steps of one are the calls that \<open>_acquire\<close> and \<open>_release\<close> make, found by running
    them on the answers so far (\<open>call_progress\<close>). Operations of the Redis backend happen in one step under
    interference (\<open>redis_incr_atomic\<close>). What became of a message reaches whoever asks for its result, and waiting for it ends.
  \<^item> Threads: pausing leaves no thread at work, answers come within a bounded number of steps and stopped threads
    end. Coroutines: the outcome and the clean-up under interrupts.
  \<^item> Processes: the exit status is that of a worker that failed, a crash stops the others, signals that come while
    booting are kept, PID files exclude a second main process, logs keep their order.
  Where the code does not do what it promises, a theorem shows the behaviour; there are such theorems in most
  theories, next to what does hold.

  \<^bold>\<open>Interfaces.\<close> Each locale is interpreted on definitions of the model: \<open>dictionary\<close> on association lists; \<open>message_encoder\<close> on
  JSON; \<open>rate_backend\<close> on the in-memory backend and, through \<open>quiet_server\<close>, on the Redis one; \<open>watching\<close> and \<open>quiet_server\<close> on a
  store with and without other clients; \<open>redis_server\<close> and the two AMQP locales on servers in memory;
  \<open>message_consumer\<close> and \<open>message_broker\<close> on the in-memory broker; \<open>result_service\<close> on the in-memory backend, through
  \<open>memcache_client\<close> on the Memcached one, and on the former as part of a broker; \<open>interpreter\<close> and \<open>timeouts\<close> on lists of threads and timers; \<open>quiet_hooks\<close> and \<open>hook_surroundings\<close> on the shipped middleware.

  \<^bold>\<open>Fuel and bounds.\<close> \<open>post_process_message\<close> needs more than the outage lasts, counted in its naps, and the theorems
  say that it then returns; \<open>handle_delayed_messages\<close> needs more than there are delayed messages; \<open>supervise\<close> and \<open>wait_future\<close>
  need more than the length of the schedule; \<open>get_result\<close> a hundredth of the timeout in milliseconds, as
  each nap takes at least that; \<open>canteen_wait\<close> more than its deadline is away; \<open>redis_next\<close> more than the cache holds;
  the transactions on Redis more than there are interfering writes. Enqueueing on RabbitMQ counts its attempts
  itself and is shown to end. \<open>consume_loop\<close> and the joins of queues may go on for ever in the code; what is said of
  them concerns the runs that end, and their single steps always end.
\<close>

text \<open>
  \<^bold>\<open>Not modelled.\<close>
  \<^item> Floats, except for backoff and the timeout of the boot; pickle; date and time beyond milliseconds; characters
    outside the first 256, except where the canteen fails on them; types of message fields, which are always right here;
    dictionaries with keys other than strings (\<^verbatim>\<open>json.dumps\<close> turns some of these into strings); arguments of exceptions other
    than one string. Connection errors of remote rate limiter backends in the midst of an operation.
  \<^item> Log messages, the set-up of logging and the log filter of pika. Log files that cannot be written.
  \<^item> gevent but for its timers and notifications, and platforms other than CPython on POSIX: \<^verbatim>\<open>SIGBREAK\<close>,
    unsupported platforms.
  \<^item> Memory shared by threads, but for the flags in \<^verbatim>\<open>Worker_Threads\<close> and the notifications in \<^verbatim>\<open>Interrupts\<close>: hooks and broker calls are atomic. Consumers that are
    added while a caller pauses or stops the worker. The order in which \<^verbatim>\<open>PriorityQueue\<close> hands out equal items.
  \<^item> Third-party code: the Redis server, pika, pylibmc, watchdog and \<^verbatim>\<open>prometheus_client\<close> are arguments or left out. Replies
    of Redis that are lost after the command was executed, parameters of connections, \<^verbatim>\<open>NotFound\<close> of pylibmc, and the
    search for the stack size in \<^verbatim>\<open>maxstack.lua\<close>, whose result is an argument.
  \<^item> How the argument parser splits the command line into options, the set-up of the metrics and their exposition server, and the modules that only import.
  \<^item> Unlimited time limits and negative counts of retries.
\<close>

end
